(* ===== verification/Prelude.thy ===== *)
theory Prelude
  imports Main "HOL-Library.Word"
begin

text \<open>
  The vocabulary every other theory of the development is written in: bytes and machine
  integers, the C++ exception \<open>ratchet::Error\<close> as a value, the sequencing of fallible
  steps, and the generic lemmas on lists, characters and words that the component proofs share.

  \<^item> A \<open>uint8_t\<close> is an \<open>8 word\<close>, a \<open>uint32_t\<close> a \<open>32 word\<close>, a \<open>uint64_t\<close> a
    \<open>64 word\<close>; arithmetic on them wraps as in C++. A \<open>std::size_t\<close> is a \<open>nat\<close>: every size
    the code computes is bounded by a buffer that exists.
  \<^item> A \<open>std::vector<uint8_t>\<close>, a \<open>SecureBuffer\<close>, a \<open>SecureBytes<N>\<close> and a
    \<open>std::array<uint8_t, N>\<close> are all byte lists; the fixed length \<open>N\<close> is part of the
    well-formedness predicates of the records that hold them.
  \<^item> A \<open>throw Error(...)\<close> is \<open>Inl\<close> of a value of the datatype \<open>error\<close>, one constructor
    per message of the source, grouped by the component that throws it.
  \<^item> A function that mutates an object through a reference and may throw half way returns the
    object as it is left together with the result: \<open>'s \<times> (error + 'a)\<close>.
\<close>

unbundle bit_operations_syntax

section \<open>Types\<close>

type_synonym byte = "8 word"
type_synonym bytes = "byte list"
type_synonym u32 = "32 word"
type_synonym u64 = "64 word"

section \<open>Errors\<close>

datatype serial_error =
    Truncated          \<comment> \<open>truncated or malformed data\<close>
  | FieldTooLong       \<comment> \<open>internal: field exceeds the 32-bit length prefix\<close>
  | SecureBlobTooLong  \<comment> \<open>secure blob exceeds its size limit\<close>

datatype wire_error =
    BlockTooLong       \<comment> \<open>armored block exceeds the format limit\<close>
  | AlteredDashes      \<comment> \<open>the block has altered dashes or line breaks\<close>
  | BeginMissing       \<comment> \<open>BEGIN marker not found\<close>
  | EndMissing         \<comment> \<open>truncated block: END marker not found\<close>
  | WouldExceedLimit   \<comment> \<open>decoded block would exceed the format limit\<close>
  | InvalidBase64      \<comment> \<open>invalid base64 in block\<close>
  | DecodedTooLong     \<comment> \<open>decoded block exceeds the format limit\<close>

datatype crypto_error =
    HkdfLength         \<comment> \<open>HKDF-Expand: unsupported output length\<close>
  | KeypairFailed      \<comment> \<open>X25519 keypair generation failed\<close>
  | DhFailed           \<comment> \<open>X25519 Diffie-Hellman failed (low-order point)\<close>
  | EdSecretConversion \<comment> \<open>Ed25519 to X25519 secret key conversion failed\<close>
  | EdPublicConversion \<comment> \<open>Ed25519 to X25519 public key conversion failed\<close>
  | EdSigning          \<comment> \<open>Ed25519 signing failed\<close>
  | EdDerivation       \<comment> \<open>Ed25519 identity derivation failed\<close>
  | XWingFailed        \<comment> \<open>X-Wing shared-secret combiner failed\<close>
  | MlKemFailed        \<comment> \<open>any failure of the ML-KEM-768 calls of pq.cpp\<close>
  | MlKemDecapsFailed  \<comment> \<open>message authentication failed (thrown by \<open>ml_kem_768_decapsulate\<close>)\<close>
  | MlDsaFailed        \<comment> \<open>any failure of the ML-DSA-65 calls of pq.cpp\<close>
  | SpqrFailed         \<comment> \<open>SPQR initialization, send step or receive step failed\<close>
  | SpqrBadKey         \<comment> \<open>SPQR returned an invalid key\<close>
  | SecureLength       \<comment> \<open>internal: secure buffer assignment with wrong length\<close>

datatype message_error =
    NoncanonicalFlag     \<comment> \<open>message envelope has a noncanonical flag\<close>
  | UnsupportedProtocol  \<comment> \<open>unsupported message protocol version or suite\<close>
  | LegacyMessage        \<comment> \<open>legacy message format is read-only\<close>
  | SpqrMessageLength    \<comment> \<open>SPQR message has an invalid length\<close>
  | EnvelopeTrailing     \<comment> \<open>message envelope has trailing data\<close>

datatype store_error =
    PqKeyMismatch        \<comment> \<open>stored ML-KEM public key does not match its private seed\<close>
  | BadCardSuite         \<comment> \<open>invalid card protocol suite\<close>
  | BadAliasLength       \<comment> \<open>contact alias has an invalid length\<close>
  | BadMinimumSuite      \<comment> \<open>invalid minimum protocol suite\<close>
  | BadSessionState      \<comment> \<open>invalid session protocol state\<close>
  | SpqrStateTooLong     \<comment> \<open>SPQR state exceeds the vault limit\<close>
  | HistoryFull          \<comment> \<open>accepted-handshake history is full\<close>
  | BadStoreMagic        \<comment> \<open>internal: vault contents have the wrong internal format\<close>
  | BadStoreVersion      \<comment> \<open>internal: unsupported vault store version\<close>
  | StoreTrailing        \<comment> \<open>internal: trailing data after the vault contents\<close>

datatype ratchet_error =
    PlaintextTooLong     \<comment> \<open>message exceeds the 4 MiB plaintext limit\<close>
  | EncryptionFailed     \<comment> \<open>message encryption failed\<close>
  | CiphertextTooShort   \<comment> \<open>message ciphertext is too short\<close>
  | AuthenticationFailed \<comment> \<open>message authentication failed\<close>
  | BadPadding           \<comment> \<open>message padding is invalid (tampered message)\<close>
  | TooManySkipped       \<comment> \<open>too many skipped messages in this chain\<close>
  | NoSendingChain       \<comment> \<open>internal: session has no sending chain yet\<close>

datatype x3dh_error =
    NotACard             \<comment> \<open>not a Ratchet-USB contact card\<close>
  | CardVersion          \<comment> \<open>unsupported contact card version\<close>
  | CardTrailing         \<comment> \<open>contact card has trailing data\<close>
  | CardSuite            \<comment> \<open>unsupported hybrid protocol suite\<close>
  | CardSignature        \<comment> \<open>the card's signature does not match its identity key\<close>
  | CardPqSignature      \<comment> \<open>the card's post-quantum signature is invalid\<close>
  | HybridPrekeyInvalid  \<comment> \<open>the hybrid signed prekey is invalid\<close>
  | CardBodyTrailing     \<comment> \<open>contact card has trailing data inside its signed body\<close>
  | CardPrekeySignature  \<comment> \<open>the card's signed prekey signature does not match its identity key\<close>
  | NoPrekeyBundle       \<comment> \<open>no prekey bundle stored for this contact yet\<close>
  | StoredCardInvalid    \<comment> \<open>the stored card for this contact does not verify\<close>
  | XWingNeedsBundle     \<comment> \<open>X-Wing handshake requires an ML-KEM bundle\<close>
  | OpeningInconsistent  \<comment> \<open>message authentication failed (a one-time ML-KEM field is missing)\<close>

datatype session_error =
    NoSuchContact        \<comment> \<open>\<open>std::out_of_range\<close> of \<open>vault.contacts.at\<close>\<close>
  | SendUnverified       \<comment> \<open>contact fingerprint must be verified before sending\<close>
  | CardRequired         \<comment> \<open>a hybrid post-quantum contact card is required before sending\<close>
  | SuiteBelowMinimum    \<comment> \<open>the contact requires an unsupported protocol suite\<close>
  | CardSuiteUnsupported \<comment> \<open>the contact card uses an unsupported protocol suite\<close>
  | LegacyReadOnly       \<comment> \<open>legacy sessions are read-only\<close>
  | ActiveSuiteUnsupported \<comment> \<open>the active session uses an unsupported protocol suite\<close>
  | SessionClosed        \<comment> \<open>session is closed; import a fresh card before sending\<close>

datatype receive_error =
    UnknownContact       \<comment> \<open>message from an unknown contact\<close>
  | ReceiveUnverified    \<comment> \<open>contact fingerprint must be verified before receiving messages\<close>
  | OpeningSuiteBelow    \<comment> \<open>message protocol suite is below the contact's minimum\<close>
  | OpeningNoPqPrekey    \<comment> \<open>hybrid opening is missing its ML-KEM signed prekey\<close>
  | OpeningReplayed      \<comment> \<open>this opening message has already been received once\<close>
  | SignedPrekeyGone     \<comment> \<open>message references a signed prekey we no longer have\<close>
  | OneTimePrekeyGone    \<comment> \<open>message references a one-time prekey already used\<close>
  | PqSignedPrekeyGone   \<comment> \<open>message references an unknown ML-KEM signed prekey\<close>
  | PqOneTimePrekeyGone  \<comment> \<open>ML-KEM one-time prekey was already used or is unknown\<close>
  | OpeningFields        \<comment> \<open>message authentication failed (one-time ML-KEM id without ciphertext)\<close>
  | SessionEstablished   \<comment> \<open>an established session cannot be replaced by an opening message\<close>
  | TieBreakLost         \<comment> \<open>simultaneous opening lost the deterministic session tie-break\<close>
  | NoSessionYet         \<comment> \<open>no session with this contact yet\<close>
  | SuiteMismatch        \<comment> \<open>message protocol suite does not match the active session\<close>
  | UnrecognisedSender   \<comment> \<open>message from an unrecognised sender\<close>

datatype vault_error =
    TimeCostRange        \<comment> \<open>Argon2id time cost out of range\<close>
  | MemCostRange         \<comment> \<open>Argon2id memory cost out of range\<close>
  | Argon2Memory         \<comment> \<open>Argon2id failed: not enough memory\<close>
  | HeaderIncomplete     \<comment> \<open>vault file is truncated (header incomplete)\<close>
  | BadVaultMagic        \<comment> \<open>not a Ratchet-USB vault (bad magic)\<close>
  | BadVaultVersion      \<comment> \<open>unsupported vault version\<close>
  | EmptyPassphrase      \<comment> \<open>passphrase must not be empty\<close>
  | SealVersion          \<comment> \<open>internal: seal called with an unsupported vault version\<close>
  | VaultEncryption      \<comment> \<open>vault encryption failed\<close>
  | VaultCiphertextSize  \<comment> \<open>internal: unexpected ciphertext length\<close>
  | VaultTooShort        \<comment> \<open>vault file is too short to be valid\<close>
  | VaultTooLong         \<comment> \<open>vault file exceeds the 64 MiB format limit\<close>
  | WrongPassphrase      \<comment> \<open>wrong passphrase or altered vault file\<close>
  | HeaderSize           \<comment> \<open>internal: header serialisation produced the wrong size\<close>

datatype rollback_error =
    AnchorCorrupt        \<comment> \<open>host rollback anchor is corrupt\<close>
  | AnchorFormat         \<comment> \<open>host rollback anchor has an unsupported format\<close>
  | AnchorTrailing       \<comment> \<open>host rollback anchor has trailing data\<close>
  | AnchorUnsigned       \<comment> \<open>rollback anchor is not authenticated; re-enroll it\<close>
  | AnchorForeign        \<comment> \<open>rollback anchor belongs to a different vault\<close>
  | AnchorForged         \<comment> \<open>rollback anchor authentication failed\<close>
  | RollbackDetected     \<comment> \<open>vault rollback detected: USB generation is older than host anchor\<close>
  | ForkDetected         \<comment> \<open>vault fork or same-generation replacement detected\<close>
  | GenerationGap        \<comment> \<open>vault generation gap or invalid rollback chain detected\<close>
  | AnchorExists         \<comment> \<open>this vault already has a rollback anchor on this host\<close>
  | AnchorService        \<comment> \<open>no supported host rollback-anchor service, or it cannot be written\<close>
  | GenerationExhausted  \<comment> \<open>vault generation counter exhausted\<close>
  | LegacyVault          \<comment> \<open>legacy vault requires \<open>migrate\<close> before use\<close>

datatype drive_error =
    VaultWriteTooLong    \<comment> \<open>refusing to write a vault larger than 64 MiB\<close>
  | OverwriteRefused     \<comment> \<open>refusing to overwrite an existing vault\<close>
  | UnsafeVaultPath      \<comment> \<open>vault path is unsafe to replace, not a unique regular file or not owned\<close>
  | ShortRead            \<comment> \<open>short read\<close>
  | PreparedElsewhere    \<comment> \<open>prepared vault must be on the same filesystem as vault.bin\<close>
  | ProcessKilled        \<comment> \<open>no error of the program: the process ended inside the operation\<close>
  | CallFailed           \<comment> \<open>\<open>throw_errno\<close>: a call of the operating system failed\<close>

datatype app_error =
    RekeyVersion         \<comment> \<open>re-encrypted vault is not a word-passphrase vault\<close>
  | RekeyIdentity        \<comment> \<open>re-encrypted vault failed its identity check\<close>

datatype group_error =
    TooFewRecipients     \<comment> \<open>a group message needs at least two recipients\<close>
  | TooManyRecipients    \<comment> \<open>a group message has at most 64 recipients\<close>
  | NoSuchRecipient      \<comment> \<open>group recipient does not exist\<close>
  | RepeatedRecipient    \<comment> \<open>a group recipient is listed more than once\<close>
  | WrapperEncryption    \<comment> \<open>group wrapper encryption failed\<close>
  | WrapperTrailing      \<comment> \<open>group wrapper has trailing data\<close>
  | WrapperTooShort      \<comment> \<open>group wrapper ciphertext is too short\<close>
  | WrapperForged        \<comment> \<open>group wrapper authentication failed\<close>
  | ContentEncryption    \<comment> \<open>group content encryption failed\<close>
  | ContentTooShort      \<comment> \<open>group ciphertext is too short\<close>
  | ContentForged        \<comment> \<open>group message authentication failed\<close>
  | ContentPadding       \<comment> \<open>group message padding is invalid\<close>
  | GroupTooLong         \<comment> \<open>group block exceeds the size limit\<close>
  | GroupFormat          \<comment> \<open>unsupported group message format\<close>
  | GroupVersion         \<comment> \<open>unsupported group message version\<close>
  | MemberCount          \<comment> \<open>group message has an invalid member count\<close>
  | WrapperTooLong       \<comment> \<open>group wrapper exceeds the message size limit\<close>
  | GroupTrailing        \<comment> \<open>group message has trailing data\<close>
  | GroupUnknownSender   \<comment> \<open>group message from an unknown contact\<close>
  | GroupUnverified      \<comment> \<open>contact fingerprint must be verified before receiving messages\<close>
  | GroupSignature       \<comment> \<open>group message sender signature is invalid\<close>
  | GroupHeaderMismatch  \<comment> \<open>group message header does not match its wrapper\<close>
  | GroupSenderMismatch  \<comment> \<open>group wrapper sender does not match the message header\<close>
  | NotAddressed         \<comment> \<open>this group message has no wrapper for this vault\<close>

datatype file_error =
    BadExtension         \<comment> \<open>internal: invalid extension in encode_file_payload\<close>
  | EmptyFile            \<comment> \<open>internal: empty file in encode_file_payload\<close>
  | FilePayloadTooShort  \<comment> \<open>file payload is too short to be valid\<close>
  | BadExtensionLength   \<comment> \<open>file payload has an invalid extension length\<close>
  | FilePayloadTruncated \<comment> \<open>file payload is truncated\<close>
  | DangerousExtension   \<comment> \<open>refusing to open a file: that type can run code\<close>
  | NotRegular           \<comment> \<open>file path is not a regular file\<close>
  | NotOwned             \<comment> \<open>file is not owned by the current user\<close>
  | EmptyHostFile        \<comment> \<open>file is empty\<close>
  | HostFileTooLarge     \<comment> \<open>file exceeds the 4 MiB limit\<close>
  | HostShortRead        \<comment> \<open>short read on file\<close>
  | NoStagingFolder      \<comment> \<open>cannot create a private folder to stage the file in\<close>
  | FileCallFailed       \<comment> \<open>a call of the operating system failed\<close>

datatype phrase_error =
    WordCount            \<comment> \<open>mnemonic must be exactly 12 words\<close>
  | UnknownWord nat      \<comment> \<open>word n is not in the BIP-39 English wordlist\<close>
  | Checksum             \<comment> \<open>mnemonic checksum does not match\<close>
  | WordCountRange       \<comment> \<open>passphrase word count out of range\<close>

datatype command_error =
    NoUsbPath            \<comment> \<open>no drive, or not one that can be used\<close>
  | MigrationWaiting     \<comment> \<open>a verified migration is waiting for commit\<close>
  | OutboxPending        \<comment> \<open>a previously generated block is pending\<close>
  | BlockNotWritten      \<comment> \<open>could not write the message block; it is saved\<close>
  | OutboxNotRemoved     \<comment> \<open>the block was written, but the pending copy could not be removed\<close>
  | NoOutbox             \<comment> \<open>no pending block\<close>
  | OutboxFormat         \<comment> \<open>the pending block file has an unsupported format\<close>
  | OutboxTrailing       \<comment> \<open>the pending block file has trailing data\<close>
  | OutboxMismatch       \<comment> \<open>the pending block does not match the saved vault state\<close>
  | BadOptions           \<comment> \<open>options that cannot be combined, or a count or size out of range\<close>
  | ValueRequired        \<comment> \<open>an alias is required, message must not be empty\<close>
  | InputFailed          \<comment> \<open>standard input, a file or a prompt could not be read\<close>
  | OutputFailed         \<comment> \<open>could not write the fingerprint or the structured output\<close>
  | NoContactNamed       \<comment> \<open>no contact named ...\<close>
  | AliasRefused         \<comment> \<open>\<open>contact_alias_problem\<close>\<close>
  | AliasTaken           \<comment> \<open>a contact of that name already exists\<close>
  | IdentityTaken        \<comment> \<open>this identity is already saved under a different alias\<close>
  | ContactClash         \<comment> \<open>contact alias or identity belongs to a different saved contact\<close>
  | UpgradeNeedsHybrid   \<comment> \<open>a saved contact can only be upgraded with a hybrid card\<close>
  | CardDowngrade        \<comment> \<open>contact card would downgrade the saved protocol suite\<close>
  | FingerprintChanged   \<comment> \<open>the fingerprint is not the one that was shown\<close>
  | NeedsTerminal        \<comment> \<open>requires an interactive confirmation\<close>
  | NotConfirmed         \<comment> \<open>cancelled\<close>
  | NoSessionToReset     \<comment> \<open>this contact has no session to reset\<close>
  | NoSignedPrekey       \<comment> \<open>internal: vault has no signed prekey\<close>
  | VaultExists          \<comment> \<open>a vault already exists\<close>
  | NotLegacy            \<comment> \<open>this vault already uses a current format\<close>
  | PreparedExists       \<comment> \<open>a prepared vault already exists\<close>
  | NoPrepared           \<comment> \<open>no prepared migration exists\<close>
  | PreparedVersion      \<comment> \<open>prepared migration is not a v3 vault\<close>
  | PreparedCheck        \<comment> \<open>prepared migration failed its identity/generation check\<close>
  | PreparedIdentity     \<comment> \<open>prepared vault identity does not match the legacy vault\<close>
  | PreparedGeneration   \<comment> \<open>prepared vault generation did not advance\<close>
  | NoVaultOpen          \<comment> \<open>internal: no vault is open\<close>
  | GroupContactGone     \<comment> \<open>group contact is no longer in the vault\<close>
  | GroupContactChanged  \<comment> \<open>group contact changed since it was marked\<close>
  | GroupContactUnverified \<comment> \<open>group contact is no longer verified\<close>
  | ClipboardFailed      \<comment> \<open>no clipboard tool found, could not read the clipboard\<close>

datatype error =
    SerialError serial_error
  | WireError wire_error
  | CryptoError crypto_error
  | MessageError message_error
  | StoreError store_error
  | RatchetError ratchet_error
  | X3dhError x3dh_error
  | SendError session_error
  | ReceiveError receive_error
  | VaultError vault_error
  | RollbackError rollback_error
  | DriveError drive_error
  | AppError app_error
  | GroupError group_error
  | FileError file_error
  | PhraseError phrase_error
  | CommandError command_error

section \<open>Fallible computations\<close>

type_synonym 'a result = "error + 'a"

text \<open>\<open>bindR m f\<close> runs \<open>f\<close> on the value of \<open>m\<close>; an exception thrown by \<open>m\<close> skips \<open>f\<close>.\<close>

definition bindR :: "'a result \<Rightarrow> ('a \<Rightarrow> 'b result) \<Rightarrow> 'b result" where
  "bindR m f = (case m of Inl e \<Rightarrow> Inl e | Inr x \<Rightarrow> f x)"

lemma bindR_simps [simp]:
  "bindR (Inl e) f = Inl e"
  "bindR (Inr x) f = f x"
  by (simp_all add: bindR_def)

lemma bindR_eq_Inr: "bindR m f = Inr y \<longleftrightarrow> (\<exists>x. m = Inr x \<and> f x = Inr y)"
  by (cases m) simp_all

lemma bindR_eq_Inl: "bindR m f = Inl e \<longleftrightarrow> m = Inl e \<or> (\<exists>x. m = Inr x \<and> f x = Inl e)"
  by (cases m) simp_all

lemma bindR_cong [fundef_cong]:
  "m = m' \<Longrightarrow> (\<And>x. m' = Inr x \<Longrightarrow> f x = f' x) \<Longrightarrow> bindR m f = bindR m' f'"
  by (cases m') simp_all

lemma bindR_Inr_right [simp]: "bindR m Inr = m"
  by (cases m) simp_all

lemma bindR_assoc: "bindR (bindR m f) g = bindR m (\<lambda>x. bindR (f x) g)"
  by (cases m) simp_all

text \<open>The simplifier resolves the first step before it looks at the rest, as evaluation does.\<close>

lemma bindR_weak_cong [cong]: "m = m' \<Longrightarrow> bindR m f = bindR m' f"
  by simp

text \<open>\<open>option\<close> results of the primitives the program calls, turned into a throw.\<close>

definition of_option :: "error \<Rightarrow> 'a option \<Rightarrow> 'a result" where
  "of_option e m = (case m of None \<Rightarrow> Inl e | Some x \<Rightarrow> Inr x)"

lemma of_option_simps [simp]:
  "of_option e None = Inl e"
  "of_option e (Some x) = Inr x"
  by (simp_all add: of_option_def)

lemma of_option_eq_Inr [simp]: "of_option e m = Inr x \<longleftrightarrow> m = Some x"
  by (cases m) simp_all

text \<open>
  The collection of the equations that turn \<open>f x = Inr y\<close> of a sequenced computation into
  the facts about its steps; the inversion lemmas of every parser rest on it.
\<close>

named_theorems result_inv \<open>inversion of successful fallible computations\<close>

declare bindR_eq_Inr [result_inv]

lemma if_Inl_eq_Inr [result_inv]:
  "(if b then Inl e else m) = Inr x \<longleftrightarrow> \<not> b \<and> m = Inr x"
  "(if b then m else Inl e) = Inr x \<longleftrightarrow> b \<and> m = Inr x"
  by simp_all

section \<open>Computations that mutate an object and may throw\<close>

text \<open>
  The object is returned as it is left, also when the computation throws: what the code did before
  the throw is visible, as it is through a C++ reference.
\<close>

type_synonym ('s, 'a) mut = "'s \<Rightarrow> 's \<times> 'a result"

definition bindM :: "('s, 'a) mut \<Rightarrow> ('a \<Rightarrow> ('s, 'b) mut) \<Rightarrow> ('s, 'b) mut" where
  "bindM m f s = (case m s of (s1, Inl e) \<Rightarrow> (s1, Inl e) | (s1, Inr x) \<Rightarrow> f x s1)"

definition returnM :: "'a \<Rightarrow> ('s, 'a) mut" where
  "returnM x s = (s, Inr x)"

definition throwM :: "error \<Rightarrow> ('s, 'a) mut" where
  "throwM e s = (s, Inl e)"

definition modifyM :: "('s \<Rightarrow> 's) \<Rightarrow> ('s, unit) mut" where
  "modifyM f s = (f s, Inr ())"

text \<open>A call that reads the object and may throw, without changing it.\<close>

definition readM :: "('s \<Rightarrow> 'a result) \<Rightarrow> ('s, 'a) mut" where
  "readM f s = (s, f s)"

lemma runM_simps [simp]:
  "returnM x s = (s, Inr x)"
  "throwM e s = (s, Inl e)"
  "modifyM f s = (f s, Inr ())"
  "readM g s = (s, g s)"
  by (simp_all add: returnM_def throwM_def modifyM_def readM_def)

lemma bindM_simps [simp]:
  "bindM (returnM x) f s = f x s"
  "bindM (throwM e) f s = (s, Inl e)"
  "bindM (modifyM h) f s = f () (h s)"
  by (simp_all add: bindM_def)

lemma bindM_read: "bindM (readM g) f s = (case g s of Inl e \<Rightarrow> (s, Inl e) | Inr x \<Rightarrow> f x s)"
  by (simp add: bindM_def split: sum.split)

lemma bindM_read_Inr [simp]: "g s = Inr x \<Longrightarrow> bindM (readM g) f s = f x s"
  by (simp add: bindM_read)

lemma bindM_read_Inl [simp]: "g s = Inl e \<Longrightarrow> bindM (readM g) f s = (s, Inl e)"
  by (simp add: bindM_read)

lemma bindM_eq_Inr:
  "bindM m f s = (s2, Inr y) \<longleftrightarrow> (\<exists>s1 x. m s = (s1, Inr x) \<and> f x s1 = (s2, Inr y))"
  by (auto simp: bindM_def split: prod.splits sum.splits)

lemma bindM_eq_Inl:
  "bindM m f s = (s2, Inl e) \<longleftrightarrow>
     m s = (s2, Inl e) \<or> (\<exists>s1 x. m s = (s1, Inr x) \<and> f x s1 = (s2, Inl e))"
  by (auto simp: bindM_def split: prod.splits sum.splits)

section \<open>Frames and errors of computations\<close>

text \<open>
  \<open>preserves f m\<close>: whatever \<open>m\<close> does, and however it ends, the part \<open>f\<close> of the object stays as it is.
  \<open>throws E m\<close> and \<open>throwsM E m\<close>: the only errors are those in \<open>E\<close>. The rules follow the structure of
  the program, so \<open>intro\<close> with the two collections proves them for a whole operation.
\<close>

definition preserves :: "('s \<Rightarrow> 'b) \<Rightarrow> ('s, 'a) mut \<Rightarrow> bool" where
  "preserves f m \<longleftrightarrow> (\<forall>s. f (fst (m s)) = f s)"

definition throws :: "error set \<Rightarrow> 'a result \<Rightarrow> bool" where
  "throws E m \<longleftrightarrow> (\<forall>e. m = Inl e \<longrightarrow> e \<in> E)"

definition throwsM :: "error set \<Rightarrow> ('s, 'a) mut \<Rightarrow> bool" where
  "throwsM E m \<longleftrightarrow> (\<forall>s s' e. m s = (s', Inl e) \<longrightarrow> e \<in> E)"

named_theorems frame_intro \<open>structural rules for preserves\<close>
named_theorems throws_intro \<open>structural rules for throws and throwsM\<close>

lemma preserves_bind [frame_intro]:
  "preserves f m \<Longrightarrow> (\<And>x. preserves f (g x)) \<Longrightarrow> preserves f (bindM m g)"
  unfolding preserves_def bindM_def by (simp split: prod.split sum.split) (metis fst_conv)

lemma preserves_simple [frame_intro]:
  "preserves f (returnM x)" "preserves f (throwM e)" "preserves f (readM h)"
  "(\<And>s. f (u s) = f s) \<Longrightarrow> preserves f (modifyM u)"
  by (simp_all add: preserves_def)

lemma preserves_if [frame_intro]:
  "(b \<Longrightarrow> preserves f m) \<Longrightarrow> (\<not> b \<Longrightarrow> preserves f m') \<Longrightarrow> preserves f (if b then m else m')"
  by simp

lemma preservesD: "preserves f m \<Longrightarrow> m s = (s', r) \<Longrightarrow> f s' = f s"
  unfolding preserves_def by (metis fst_conv)

lemma throws_bind [throws_intro]:
  "throws E m \<Longrightarrow> (\<And>x. throws E (g x)) \<Longrightarrow> throws E (bindR m g)"
  unfolding throws_def by (auto simp: bindR_eq_Inl)

lemma throws_simple [throws_intro]:
  "throws E (Inr x)" "e \<in> E \<Longrightarrow> throws E (Inl e)" "e \<in> E \<Longrightarrow> throws E (of_option e m')"
  by (auto simp: throws_def of_option_def split: option.splits)

lemma throws_if [throws_intro]:
  "throws E m \<Longrightarrow> throws E m' \<Longrightarrow> throws E (if b then m else m')"
  by simp

lemma throwsM_bind [throws_intro]:
  "throwsM E m \<Longrightarrow> (\<And>x. throwsM E (g x)) \<Longrightarrow> throwsM E (bindM m g)"
  unfolding throwsM_def bindM_eq_Inl by blast

lemma throwsM_simple [throws_intro]:
  "throwsM E (returnM x)" "e \<in> E \<Longrightarrow> throwsM E (throwM e)" "throwsM E (modifyM u)"
  "(\<And>s. throws E (h s)) \<Longrightarrow> throwsM E (readM h)"
  by (auto simp: throwsM_def throws_def)

lemma throwsM_if [throws_intro]:
  "throwsM E m \<Longrightarrow> throwsM E m' \<Longrightarrow> throwsM E (if b then m else m')"
  by simp

lemma throwsD: "throws E m \<Longrightarrow> m = Inl e \<Longrightarrow> e \<in> E"
  unfolding throws_def by blast

lemma throwsMD: "throwsM E m \<Longrightarrow> m s = (s', Inl e) \<Longrightarrow> e \<in> E"
  unfolding throwsM_def by blast

section \<open>Well-formedness of stored values\<close>

text \<open>Introduction rules and simplification rules of the \<open>wf\<close> predicates of the formats.\<close>

named_theorems wf_simps \<open>unfolding of well-formedness predicates\<close>

section \<open>Characters and bytes\<close>

text \<open>A \<open>std::string\<close> written into a binary format contributes its \<open>char\<close>s as bytes.\<close>

definition byte_of_char :: "char \<Rightarrow> byte" where
  "byte_of_char c = word_of_nat (of_char c)"

definition char_of_byte :: "byte \<Rightarrow> char" where
  "char_of_byte b = char_of (unat b)"

definition bytes_of_string :: "string \<Rightarrow> bytes" where
  "bytes_of_string s = map byte_of_char s"

definition string_of_bytes :: "bytes \<Rightarrow> string" where
  "string_of_bytes bs = map char_of_byte bs"

lemma unat_byte_of_char: "unat (byte_of_char c) = of_char c"
proof -
  have "of_char c mod 256 < (256 :: nat)"
    by (rule mod_less_divisor) simp
  then have "(of_char c :: nat) < 256"
    by (simp only: of_char_mod_256)
  then show ?thesis
    by (simp add: byte_of_char_def unat_of_nat)
qed

lemma char_of_byte_of_char [simp]: "char_of_byte (byte_of_char c) = c"
  by (simp add: char_of_byte_def unat_byte_of_char)

lemma byte_of_char_of_byte [simp]: "byte_of_char (char_of_byte b) = b"
proof -
  have "unat b < 2 ^ LENGTH(8)"
    by (rule unsigned_less)
  then have "unat b mod 256 = unat b"
    by simp
  then show ?thesis
    by (simp add: byte_of_char_def char_of_byte_def)
qed

lemma string_of_bytes_of_string [simp]: "string_of_bytes (bytes_of_string s) = s"
  by (simp add: string_of_bytes_def bytes_of_string_def comp_def)

lemma bytes_of_string_of_bytes [simp]: "bytes_of_string (string_of_bytes bs) = bs"
  by (simp add: string_of_bytes_def bytes_of_string_def comp_def)

lemma length_bytes_of_string [simp]: "length (bytes_of_string s) = length s"
  by (simp add: bytes_of_string_def)

lemma length_string_of_bytes [simp]: "length (string_of_bytes bs) = length bs"
  by (simp add: string_of_bytes_def)

section \<open>Lists\<close>

lemma take_append_length [simp]: "take (length xs) (xs @ ys) = xs"
  by simp

lemma list_all_append_iff: "list_all P (xs @ ys) \<longleftrightarrow> list_all P xs \<and> list_all P ys"
  by (rule list_all_append)

text \<open>\<open>std::find_if\<close> with the index of the first match, as the code's search loops use it.\<close>

fun find_index :: "('a \<Rightarrow> bool) \<Rightarrow> 'a list \<Rightarrow> nat option" where
  "find_index P [] = None"
| "find_index P (x # xs) = (if P x then Some 0 else map_option Suc (find_index P xs))"

lemma find_index_Some:
  "find_index P xs = Some i \<Longrightarrow> i < length xs \<and> P (xs ! i) \<and> (\<forall>j < i. \<not> P (xs ! j))"
proof (induction xs arbitrary: i)
  case (Cons x xs)
  then show ?case
    by (cases i) (auto simp: less_Suc_eq_0_disj split: if_splits)
qed simp

lemma find_index_None: "find_index P xs = None \<longleftrightarrow> (\<forall>x \<in> set xs. \<not> P x)"
  by (induction xs) auto

lemma find_index_Some_iff:
  "find_index P xs = Some i \<longleftrightarrow> i < length xs \<and> P (xs ! i) \<and> (\<forall>j < i. \<not> P (xs ! j))"
proof
  show "find_index P xs = Some i \<Longrightarrow> i < length xs \<and> P (xs ! i) \<and> (\<forall>j < i. \<not> P (xs ! j))"
    by (rule find_index_Some)
next
  assume r: "i < length xs \<and> P (xs ! i) \<and> (\<forall>j < i. \<not> P (xs ! j))"
  then have "find_index P xs \<noteq> None"
    by (metis find_index_None nth_mem)
  then obtain k where k: "find_index P xs = Some k"
    by blast
  have "k = i"
    using find_index_Some [OF k] r by (meson linorder_neqE_nat)
  then show "find_index P xs = Some i"
    using k by simp
qed

text \<open>\<open>v.erase(v.begin() + i)\<close>.\<close>

definition erase_at :: "nat \<Rightarrow> 'a list \<Rightarrow> 'a list" where
  "erase_at i xs = take i xs @ drop (Suc i) xs"

lemma length_erase_at: "i < length xs \<Longrightarrow> length (erase_at i xs) = length xs - 1"
  by (simp add: erase_at_def)

lemma set_erase_at_subset: "set (erase_at i xs) \<subseteq> set xs"
  by (auto simp: erase_at_def dest: in_set_takeD in_set_dropD)

lemma map_erase_at: "map f (erase_at i xs) = erase_at i (map f xs)"
  by (simp add: erase_at_def take_map drop_map)

lemma distinct_erase_at: "distinct xs \<Longrightarrow> distinct (erase_at i xs)"
  by (simp add: erase_at_def set_take_disj_set_drop_if_distinct)

lemma erase_at_Cons_Suc [simp]: "erase_at (Suc i) (x # xs) = x # erase_at i xs"
  by (simp add: erase_at_def)

lemma erase_at_0 [simp]: "erase_at 0 (x # xs) = xs"
  by (simp add: erase_at_def)

lemma set_erase_at:
  "distinct (map f xs) \<Longrightarrow> i < length xs \<Longrightarrow> set (erase_at i xs) = {x \<in> set xs. f x \<noteq> f (xs ! i)}"
proof (induction xs arbitrary: i)
  case (Cons x xs)
  show ?case
  proof (cases i)
    case 0
    with Cons.prems(1) show ?thesis
      by (auto simp: image_iff)
  next
    case (Suc j)
    with Cons.prems have "f x \<noteq> f (xs ! j)"
      by (metis distinct.simps(2) image_eqI length_Cons list.simps(9) not_less_eq nth_mem set_map)
    with Suc Cons show ?thesis
      by auto
  qed
qed simp

section \<open>Words\<close>

lemma unat_u32_less: "unat (w :: u32) < 4294967296"
proof -
  have "unat w < 2 ^ LENGTH(32)"
    by (rule unsigned_less)
  then show ?thesis
    by simp
qed

lemma unat_u64_less: "unat (w :: u64) < 18446744073709551616"
proof -
  have "unat w < 2 ^ LENGTH(64)"
    by (rule unsigned_less)
  then show ?thesis
    by simp
qed

lemma byte_cases: "\<not> v > (1 :: byte) \<longleftrightarrow> v = 0 \<or> v = 1"
proof -
  have "\<not> v > 1 \<longleftrightarrow> unat v = 0 \<or> unat v = 1"
    by (auto simp: word_less_nat_alt not_less le_Suc_eq)
  also have "\<dots> \<longleftrightarrow> v = 0 \<or> v = 1"
    by (metis unsigned_0 unsigned_1 word_unat_eq_iff)
  finally show ?thesis .
qed

lemma unat_of_nat_u32: "n < 4294967296 \<Longrightarrow> unat (word_of_nat n :: u32) = n"
  by (simp add: unat_of_nat)

lemma unat_u32_Suc: "(x :: u32) < y \<Longrightarrow> unat (x + 1) = unat x + 1"
  using unat_u32_less [of y] by (simp add: unat_word_ariths(1) word_less_nat_alt)

end
