(* ===== verification/Prims.thy ===== *)
theory Prims
  imports Prelude
begin

text \<open>
  The code the program calls and does not contain: libsodium, the OpenSSL 3.5 provider of ML-KEM-768
  and ML-DSA-65, and the Rust bridge to Signal's SPQR. They are the parameter \<open>prims\<close> of the
  definitions that call them; a call that can fail returns an option. Random bytes a call draws
  (\<open>crypto_box_keypair\<close>, encapsulation, an SPQR send step) are an explicit argument.

  What the program relies on is stated as named laws (\<open>hmac_law\<close>, \<open>aead_law\<close>, ...), each a
  sentence of the library's documentation; no definition of the model assumes them, and the
  theorems that need one name it as a hypothesis. The wrappers of \<open>x25519.cpp\<close>,
  \<open>identity.cpp\<close> and \<open>pq.cpp\<close>, which turn a failed call into a throw, are at the end.
\<close>

record prims =
  hmac_sha256 :: "bytes \<Rightarrow> bytes \<Rightarrow> bytes"  \<comment> \<open>key, message\<close>
  sha256 :: "bytes \<Rightarrow> bytes"
  sha3_256 :: "bytes \<Rightarrow> bytes option"
  aead_seal :: "bytes \<Rightarrow> bytes \<Rightarrow> bytes \<Rightarrow> bytes \<Rightarrow> bytes option"  \<comment> \<open>key, nonce, aad, plaintext\<close>
  aead_open :: "bytes \<Rightarrow> bytes \<Rightarrow> bytes \<Rightarrow> bytes \<Rightarrow> bytes option"  \<comment> \<open>key, nonce, aad, ciphertext\<close>
  scalarmult :: "bytes \<Rightarrow> bytes \<Rightarrow> bytes option"  \<comment> \<open>secret, public\<close>
  scalarmult_base :: "bytes \<Rightarrow> bytes"
  box_keypair :: "bytes \<Rightarrow> (bytes \<times> bytes) option"  \<comment> \<open>random bytes to (public, secret)\<close>
  ed_keypair :: "bytes \<Rightarrow> (bytes \<times> bytes) option"  \<comment> \<open>seed to (public, secret)\<close>
  ed_sk_to_x :: "bytes \<Rightarrow> bytes option"
  ed_pk_to_x :: "bytes \<Rightarrow> bytes option"
  ed_sign :: "bytes \<Rightarrow> bytes \<Rightarrow> bytes option"  \<comment> \<open>secret, message\<close>
  ed_verify :: "bytes \<Rightarrow> bytes \<Rightarrow> bytes \<Rightarrow> bool"  \<comment> \<open>public, message, signature\<close>
  kem_public :: "bytes \<Rightarrow> bytes option"  \<comment> \<open>private seed to public key\<close>
  kem_encaps :: "bytes \<Rightarrow> bytes \<Rightarrow> (bytes \<times> bytes) option"  \<comment> \<open>public, coins to (ciphertext, secret)\<close>
  kem_decaps :: "bytes \<Rightarrow> bytes \<Rightarrow> bytes option"  \<comment> \<open>private seed, ciphertext\<close>
  dsa_public :: "bytes \<Rightarrow> bytes option"
  dsa_sign :: "bytes \<Rightarrow> bytes \<Rightarrow> bytes option"  \<comment> \<open>private seed, message\<close>
  dsa_verify :: "bytes \<Rightarrow> bytes \<Rightarrow> bytes \<Rightarrow> bool option"  \<comment> \<open>\<open>None\<close>: the key cannot be imported\<close>
  spqr_init :: "bool \<Rightarrow> bytes \<Rightarrow> bytes option"
  spqr_send_step :: "bytes \<Rightarrow> bytes \<Rightarrow> (bytes \<times> bytes \<times> bytes) option"
    \<comment> \<open>state, random bytes to (next state, message, key)\<close>
  spqr_recv_step :: "bytes \<Rightarrow> bytes \<Rightarrow> (bytes \<times> bytes) option"  \<comment> \<open>state, message to (next state, key)\<close>
  argon2id :: "bytes \<Rightarrow> bytes \<Rightarrow> u32 \<Rightarrow> nat \<Rightarrow> bytes option"  \<comment> \<open>passphrase, salt, passes, memory in bytes\<close>
  b64_encode :: "bytes \<Rightarrow> string"  \<comment> \<open>\<open>sodium_base64_VARIANT_ORIGINAL\<close>\<close>
  b64_decode :: "string \<Rightarrow> bytes option"
  b64url_encode :: "bytes \<Rightarrow> string"  \<comment> \<open>\<open>sodium_base64_VARIANT_URLSAFE_NO_PADDING\<close>\<close>
  b64url_decode :: "string \<Rightarrow> bytes option"

section \<open>Documented laws\<close>

definition hmac_law :: "prims \<Rightarrow> bool" where
  "hmac_law p \<longleftrightarrow> (\<forall>k m. length (hmac_sha256 p k m) = 32)"

definition sha256_law :: "prims \<Rightarrow> bool" where
  "sha256_law p \<longleftrightarrow> (\<forall>m. length (sha256 p m) = 32)"

text \<open>ChaCha20-Poly1305 (IETF): sealing succeeds, adds a 16-byte tag, and opens again.\<close>

definition aead_law :: "prims \<Rightarrow> bool" where
  "aead_law p \<longleftrightarrow>
     (\<forall>k n a m. length k = 32 \<and> length n = 12 \<and> length m < 4294967296 \<longrightarrow>
        (\<exists>c. aead_seal p k n a m = Some c \<and> length c = length m + 16 \<and> aead_open p k n a c = Some m))"

text \<open>
  X25519: a fresh pair is a 32-byte secret with its public key, both parties of an exchange compute
  the same 32 bytes, and the exchange succeeds between honest pairs.
\<close>

definition x_pair :: "prims \<Rightarrow> bytes \<Rightarrow> bytes \<Rightarrow> bool" where
  "x_pair p pk sk \<longleftrightarrow> length sk = 32 \<and> pk = scalarmult_base p sk"

definition x25519_law :: "prims \<Rightarrow> bool" where
  "x25519_law p \<longleftrightarrow>
     (\<forall>s. \<exists>pk sk. box_keypair p s = Some (pk, sk) \<and> x_pair p pk sk) \<and>
     (\<forall>sk. length (scalarmult_base p sk) = 32) \<and>
     (\<forall>a b pa pb. x_pair p pa a \<and> x_pair p pb b \<longrightarrow>
        (\<exists>z. scalarmult p a pb = Some z \<and> scalarmult p b pa = Some z)) \<and>
     (\<forall>a b z. scalarmult p a b = Some z \<longrightarrow> length z = 32)"

text \<open>An Ed25519 pair converts to an X25519 pair, and what it signs verifies.\<close>

definition ed_pair :: "prims \<Rightarrow> bytes \<Rightarrow> bytes \<Rightarrow> bool" where
  "ed_pair p pk sk \<longleftrightarrow> (\<exists>s. ed_keypair p s = Some (pk, sk))"

definition ed25519_law :: "prims \<Rightarrow> bool" where
  "ed25519_law p \<longleftrightarrow>
     (\<forall>pk sk. ed_pair p pk sk \<longrightarrow>
        length pk = 32 \<and> length sk = 64 \<and>
        (\<exists>x y. ed_sk_to_x p sk = Some x \<and> ed_pk_to_x p pk = Some y \<and> x_pair p y x) \<and>
        (\<forall>m. \<exists>sig. ed_sign p sk m = Some sig \<and> length sig = 64 \<and> ed_verify p pk m sig))"

text \<open>ML-KEM-768: a seed determines its public key, and decapsulation inverts encapsulation.\<close>

definition ml_kem_law :: "prims \<Rightarrow> bool" where
  "ml_kem_law p \<longleftrightarrow>
     (\<forall>s pk c ct ss. kem_public p s = Some pk \<and> kem_encaps p pk c = Some (ct, ss) \<longrightarrow>
        kem_decaps p s ct = Some ss) \<and>
     (\<forall>pk c ct ss. kem_encaps p pk c = Some (ct, ss) \<longrightarrow> length ct = 1088 \<and> length ss = 32)"

text \<open>Encapsulation to a public key that some seed generates succeeds; SHA3-256 yields 32 bytes.\<close>

definition ml_kem_encaps_law :: "prims \<Rightarrow> bool" where
  "ml_kem_encaps_law p \<longleftrightarrow> (\<forall>s pk c. kem_public p s = Some pk \<longrightarrow> (\<exists>ct ss. kem_encaps p pk c = Some (ct, ss)))"

definition sha3_law :: "prims \<Rightarrow> bool" where
  "sha3_law p \<longleftrightarrow> (\<forall>m. \<exists>h. sha3_256 p m = Some h \<and> length h = 32)"

definition ml_dsa_law :: "prims \<Rightarrow> bool" where
  "ml_dsa_law p \<longleftrightarrow>
     (\<forall>s pk m. dsa_public p s = Some pk \<longrightarrow>
        length pk = 1952 \<and>
        (\<exists>sig. dsa_sign p s m = Some sig \<and> length sig = 3309 \<and> dsa_verify p pk m sig = Some True))"

text \<open>
  SPQR: both sides start from the same secret, and a first message can be sent and received, which gives
  both the same 32-byte key; it is never empty and stays within the bridge's limit.
\<close>

definition spqr_law :: "prims \<Rightarrow> bool" where
  "spqr_law p \<longleftrightarrow> (\<forall>s. \<exists>a b. spqr_init p True s = Some a \<and> spqr_init p False s = Some b \<and>
     (\<forall>rnd. \<exists>a' msg key b'. spqr_send_step p a rnd = Some (a', msg, key) \<and>
        spqr_recv_step p b msg = Some (b', key) \<and> length key = 32 \<and> msg \<noteq> [] \<and> length msg \<le> 1048576))"

definition b64_alphabet :: "char set" where
  "b64_alphabet = set ''ABCDEFGHIJKLMNOPQRSTUVWXYZabcdefghijklmnopqrstuvwxyz0123456789+/=''"

text \<open>Padded base64: its alphabet, its length, and decoding inverts encoding.\<close>

definition b64_law :: "prims \<Rightarrow> bool" where
  "b64_law p \<longleftrightarrow>
     (\<forall>x. b64_decode p (b64_encode p x) = Some x) \<and>
     (\<forall>x. set (b64_encode p x) \<subseteq> b64_alphabet) \<and>
     (\<forall>x. length (b64_encode p x) = 4 * ((length x + 2) div 3))"

definition b64url_law :: "prims \<Rightarrow> bool" where
  "b64url_law p \<longleftrightarrow> (\<forall>x. b64url_decode p (b64url_encode p x) = Some x)"

section \<open>The wrappers: \<open>x25519.cpp\<close>, \<open>identity.cpp\<close>, \<open>pq.cpp\<close>\<close>

type_synonym keypair = "bytes \<times> bytes"  \<comment> \<open>public key, secret key\<close>

definition generate_keypair :: "prims \<Rightarrow> bytes \<Rightarrow> keypair result" where
  "generate_keypair p rnd = of_option (CryptoError KeypairFailed) (box_keypair p rnd)"

definition x25519_dh :: "prims \<Rightarrow> bytes \<Rightarrow> bytes \<Rightarrow> bytes result" where
  "x25519_dh p sk pk = of_option (CryptoError DhFailed) (scalarmult p sk pk)"

definition identity_dh_public :: "prims \<Rightarrow> bytes \<Rightarrow> bytes result" where
  "identity_dh_public p ed_pk = of_option (CryptoError EdPublicConversion) (ed_pk_to_x p ed_pk)"

text \<open>Secret key first, then public key, as the out parameters of the source.\<close>

definition identity_dh_keypair :: "prims \<Rightarrow> bytes \<Rightarrow> bytes \<Rightarrow> (bytes \<times> bytes) result" where
  "identity_dh_keypair p ed_sk ed_pk =
     bindR (of_option (CryptoError EdSecretConversion) (ed_sk_to_x p ed_sk)) (\<lambda>dh_sk.
     bindR (of_option (CryptoError EdPublicConversion) (ed_pk_to_x p ed_pk)) (\<lambda>dh_pk.
     Inr (dh_sk, dh_pk)))"

definition sign :: "prims \<Rightarrow> bytes \<Rightarrow> bytes \<Rightarrow> bytes result" where
  "sign p sk msg = of_option (CryptoError EdSigning) (ed_sign p sk msg)"

definition verify :: "prims \<Rightarrow> bytes \<Rightarrow> bytes \<Rightarrow> bytes \<Rightarrow> bool" where
  "verify p pk msg sig = ed_verify p pk msg sig"

text \<open>\<open>MlKemKeyPair\<close> and \<open>MlDsaKeyPair\<close>: a public key and the private seed.\<close>

record pq_keypair =
  pq_public :: bytes
  pq_seed :: bytes

definition ml_kem_768_from_seed :: "prims \<Rightarrow> bytes \<Rightarrow> pq_keypair result" where
  "ml_kem_768_from_seed p seed =
     bindR (of_option (CryptoError MlKemFailed) (kem_public p seed)) (\<lambda>pk.
       if length pk \<noteq> 1184 then Inl (CryptoError MlKemFailed)
       else Inr \<lparr>pq_public = pk, pq_seed = seed\<rparr>)"

definition ml_kem_768_encapsulate :: "prims \<Rightarrow> bytes \<Rightarrow> bytes \<Rightarrow> (bytes \<times> bytes) result" where
  "ml_kem_768_encapsulate p pk coins =
     bindR (of_option (CryptoError MlKemFailed) (kem_encaps p pk coins)) (\<lambda>(ct, ss).
       if length ct \<noteq> 1088 \<or> length ss \<noteq> 32 then Inl (CryptoError MlKemFailed)
       else Inr (ct, ss))"

definition ml_kem_768_decapsulate :: "prims \<Rightarrow> bytes \<Rightarrow> bytes \<Rightarrow> bytes result" where
  "ml_kem_768_decapsulate p seed ct =
     bindR (of_option (CryptoError MlKemDecapsFailed) (kem_decaps p seed ct)) (\<lambda>ss.
       if length ss \<noteq> 32 then Inl (CryptoError MlKemDecapsFailed) else Inr ss)"

definition ml_dsa_65_from_seed :: "prims \<Rightarrow> bytes \<Rightarrow> pq_keypair result" where
  "ml_dsa_65_from_seed p seed =
     bindR (of_option (CryptoError MlDsaFailed) (dsa_public p seed)) (\<lambda>pk.
       if length pk \<noteq> 1952 then Inl (CryptoError MlDsaFailed)
       else Inr \<lparr>pq_public = pk, pq_seed = seed\<rparr>)"

definition ml_dsa_65_sign :: "prims \<Rightarrow> bytes \<Rightarrow> bytes \<Rightarrow> bytes result" where
  "ml_dsa_65_sign p seed msg =
     bindR (of_option (CryptoError MlDsaFailed) (dsa_sign p seed msg)) (\<lambda>sig.
       if length sig \<noteq> 3309 then Inl (CryptoError MlDsaFailed) else Inr sig)"

definition ml_dsa_65_verify :: "prims \<Rightarrow> bytes \<Rightarrow> bytes \<Rightarrow> bytes \<Rightarrow> bool result" where
  "ml_dsa_65_verify p pk msg sig = of_option (CryptoError MlDsaFailed) (dsa_verify p pk msg sig)"

text \<open>\<open>spqr.cpp\<close>: the three calls of the bridge, with the check of the key's length.\<close>

definition spqr_initialize :: "prims \<Rightarrow> bool \<Rightarrow> bytes \<Rightarrow> bytes result" where
  "spqr_initialize p initiator secret = of_option (CryptoError SpqrFailed) (spqr_init p initiator secret)"

record spqr_sent =
  sent_state :: bytes
  sent_message :: bytes
  sent_key :: bytes

definition spqr_send :: "prims \<Rightarrow> bytes \<Rightarrow> bytes \<Rightarrow> spqr_sent result" where
  "spqr_send p state rnd =
     bindR (of_option (CryptoError SpqrFailed) (spqr_send_step p state rnd)) (\<lambda>(next, msg, key).
       if length key \<noteq> 32 then Inl (CryptoError SpqrBadKey)
       else Inr \<lparr>sent_state = next, sent_message = msg, sent_key = key\<rparr>)"

definition spqr_receive :: "prims \<Rightarrow> bytes \<Rightarrow> bytes \<Rightarrow> (bytes \<times> bytes) result" where
  "spqr_receive p state msg =
     bindR (of_option (CryptoError SpqrFailed) (spqr_recv_step p state msg)) (\<lambda>(next, key).
       if length key \<noteq> 32 then Inl (CryptoError SpqrBadKey) else Inr (next, key))"

section \<open>The laws on the wrappers\<close>

lemma hmac_length: "hmac_law p \<Longrightarrow> length (hmac_sha256 p k m) = 32"
  by (simp add: hmac_law_def)

lemma sha256_length: "sha256_law p \<Longrightarrow> length (sha256 p m) = 32"
  by (simp add: sha256_law_def)

lemma aead_roundtrip:
  assumes "aead_law p" and "length k = 32" and "length n = 12" and "length m < 4294967296"
  obtains c where "aead_seal p k n a m = Some c" and "length c = length m + 16"
    and "aead_open p k n a c = Some m"
  using assms unfolding aead_law_def by blast

lemma x25519_law_D:
  assumes "x25519_law p"
  shows "\<exists>pk sk. box_keypair p s = Some (pk, sk) \<and> x_pair p pk sk"
    and "length (scalarmult_base p sk) = 32"
    and "x_pair p pa a \<Longrightarrow> x_pair p pb b \<Longrightarrow>
           \<exists>z. scalarmult p a pb = Some z \<and> scalarmult p b pa = Some z"
    and "scalarmult p a b = Some z \<Longrightarrow> length z = 32"
  using assms unfolding x25519_law_def by blast+

lemma x_pair_length: "x25519_law p \<Longrightarrow> x_pair p pk sk \<Longrightarrow> length pk = 32 \<and> length sk = 32"
  by (simp add: x25519_law_D(2) x_pair_def)

lemma generate_keypair_ok:
  assumes "x25519_law p"
  obtains pk sk where "generate_keypair p rnd = Inr (pk, sk)" and "x_pair p pk sk"
  using x25519_law_D(1) [OF assms, of rnd] by (auto simp: generate_keypair_def)

lemma generate_keypair_pair:
  assumes "x25519_law p" and "generate_keypair p rnd = Inr (pk, sk)"
  shows "x_pair p pk sk \<and> length pk = 32 \<and> length sk = 32"
proof -
  obtain pk' sk' where "generate_keypair p rnd = Inr (pk', sk')" and x: "x_pair p pk' sk'"
    using generate_keypair_ok [OF assms(1)] .
  with assms(2) have "pk' = pk" and "sk' = sk"
    by simp_all
  with x x_pair_length [OF assms(1) x] show ?thesis
    by simp
qed

lemma ed25519_law_D:
  "ed25519_law p \<Longrightarrow> ed_pair p pk sk \<Longrightarrow>
     length pk = 32 \<and> length sk = 64 \<and>
     (\<exists>x y. ed_sk_to_x p sk = Some x \<and> ed_pk_to_x p pk = Some y \<and> x_pair p y x) \<and>
     (\<forall>m. \<exists>sig. ed_sign p sk m = Some sig \<and> length sig = 64 \<and> ed_verify p pk m sig)"
  unfolding ed25519_law_def by blast

lemma identity_pair:
  "ed25519_law p \<Longrightarrow> ed_pair p pk sk \<Longrightarrow>
     \<exists>x y. identity_dh_keypair p sk pk = Inr (x, y) \<and> identity_dh_public p pk = Inr y \<and> x_pair p y x"
  unfolding identity_dh_keypair_def identity_dh_public_def
  by (drule (1) ed25519_law_D) (auto simp: bindR_eq_Inr)

lemma dh_pair:
  assumes "x25519_law p" and "x_pair p pa a" and "x_pair p pb b"
  shows "\<exists>z. x25519_dh p a pb = Inr z \<and> x25519_dh p b pa = Inr z \<and> length z = 32"
  using x25519_law_D(3) [OF assms] x25519_law_D(4) [OF assms(1)] by (auto simp: x25519_dh_def)

lemma dh_commutes:
  assumes "x25519_law p" and "x_pair p pa a" and "x_pair p pb b"
  shows "x25519_dh p a pb = x25519_dh p b pa"
  using dh_pair [OF assms] by auto

lemma dh_length: "x25519_law p \<Longrightarrow> x25519_dh p a b = Inr z \<Longrightarrow> length z = 32"
  by (simp add: x25519_law_def x25519_dh_def)

lemma sign_verifies:
  "ed25519_law p \<Longrightarrow> ed_pair p pk sk \<Longrightarrow> sign p sk m = Inr sig \<Longrightarrow>
     verify p pk m sig \<and> length sig = 64"
  unfolding sign_def verify_def
  by (drule (1) ed25519_law_D) (elim conjE allE [of _ m], auto)

lemma sign_succeeds:
  "ed25519_law p \<Longrightarrow> ed_pair p pk sk \<Longrightarrow> \<exists>sig. sign p sk m = Inr sig"
  unfolding ed25519_law_def sign_def by fastforce

lemma kem_roundtrip:
  "ml_kem_law p \<Longrightarrow> ml_kem_768_from_seed p s = Inr kp \<Longrightarrow>
     ml_kem_768_encapsulate p (pq_public kp) c = Inr (ct, ss) \<Longrightarrow>
     ml_kem_768_decapsulate p s ct = Inr ss"
  by (cases "kem_decaps p s ct")
    (force simp: ml_kem_law_def ml_kem_768_from_seed_def ml_kem_768_encapsulate_def
      ml_kem_768_decapsulate_def bindR_eq_Inr split: if_splits)+

lemma dsa_signs:
  assumes "ml_dsa_law p" and "ml_dsa_65_from_seed p s = Inr kp"
  obtains sig where "ml_dsa_65_sign p s m = Inr sig" and "length sig = 3309"
    and "ml_dsa_65_verify p (pq_public kp) m sig = Inr True"
proof -
  from assms(2) have k: "dsa_public p s = Some (pq_public kp)"
    by (auto simp: ml_dsa_65_from_seed_def bindR_eq_Inr split: if_splits)
  from assms(1) k obtain sig where "dsa_sign p s m = Some sig" "length sig = 3309"
      "dsa_verify p (pq_public kp) m sig = Some True"
    unfolding ml_dsa_law_def by blast
  then show thesis
    by (intro that [of sig]) (simp_all add: ml_dsa_65_sign_def ml_dsa_65_verify_def)
qed

lemma dsa_public_length: "ml_dsa_65_from_seed p s = Inr kp \<Longrightarrow> length (pq_public kp) = 1952"
  by (auto simp: ml_dsa_65_from_seed_def bindR_eq_Inr split: if_splits)

lemma kem_exchange:
  assumes "ml_kem_law p" and "ml_kem_encaps_law p" and "ml_kem_768_from_seed p s = Inr kp"
  obtains ct ss where "ml_kem_768_encapsulate p (pq_public kp) c = Inr (ct, ss)"
    and "ml_kem_768_decapsulate p s ct = Inr ss" and "length ct = 1088" and "length ss = 32"
proof -
  from assms(3) have "kem_public p s = Some (pq_public kp)"
    by (auto simp: ml_kem_768_from_seed_def bindR_eq_Inr split: if_splits)
  with assms(2) obtain ct ss where e: "kem_encaps p (pq_public kp) c = Some (ct, ss)"
    unfolding ml_kem_encaps_law_def by blast
  with assms(1) have l: "length ct = 1088" "length ss = 32"
    unfolding ml_kem_law_def by blast+
  with e have "ml_kem_768_encapsulate p (pq_public kp) c = Inr (ct, ss)"
    by (simp add: ml_kem_768_encapsulate_def)
  with kem_roundtrip [OF assms(1,3) this] l show thesis
    by (intro that)
qed

end
