(* ===== verification/Sample_Prims.thy ===== *)
theory Sample_Prims
  imports Prims
begin

text \<open>
  One concrete, executable instance of the primitives that satisfies every documented law of
  \<open>Prims\<close>. It is not the cryptography of the libraries (it hides nothing); it shows that the laws
  can hold together and gives the witnesses a value to run the program on. The base64 coder is the
  real one; the others are the simplest functions with the algebra of the originals.
\<close>

section \<open>Base64\<close>

definition b64_chars :: string where
  "b64_chars = ''ABCDEFGHIJKLMNOPQRSTUVWXYZabcdefghijklmnopqrstuvwxyz0123456789+/''"

definition c64 :: "nat \<Rightarrow> char" where
  "c64 k = b64_chars ! k"

definition v64 :: "char \<Rightarrow> nat option" where
  "v64 c = find_index (\<lambda>d. d = c) b64_chars"

fun sample_b64_encode :: "bytes \<Rightarrow> string" where
  "sample_b64_encode [] = []"
| "sample_b64_encode [a] = [c64 (unat a div 4), c64 (unat a mod 4 * 16), CHR ''='', CHR ''='']"
| "sample_b64_encode [a, b] =
     [c64 (unat a div 4), c64 (unat a mod 4 * 16 + unat b div 16), c64 (unat b mod 16 * 4), CHR ''='']"
| "sample_b64_encode (a # b # c # r) =
     [c64 (unat a div 4), c64 (unat a mod 4 * 16 + unat b div 16),
      c64 (unat b mod 16 * 4 + unat c div 64), c64 (unat c mod 64)] @ sample_b64_encode r"

text \<open>The bytes that two neighbouring sextets make up.\<close>

definition o1 :: "nat \<Rightarrow> nat \<Rightarrow> byte" where
  "o1 m n = word_of_nat (m * 4 + n div 16)"

definition o2 :: "nat \<Rightarrow> nat \<Rightarrow> byte" where
  "o2 n i = word_of_nat (n mod 16 * 16 + i div 4)"

definition o3 :: "nat \<Rightarrow> nat \<Rightarrow> byte" where
  "o3 i j = word_of_nat (i mod 4 * 64 + j)"

fun sample_b64_decode :: "string \<Rightarrow> bytes option" where
  "sample_b64_decode [] = Some []"
| "sample_b64_decode (w # x # y # z # r) =
     (case (v64 w, v64 x) of
        (Some m, Some n) \<Rightarrow>
          (if z = CHR ''='' \<and> y = CHR ''='' \<and> r = [] then Some [o1 m n]
           else case v64 y of
             Some i \<Rightarrow>
               (if z = CHR ''='' \<and> r = []
                then Some [o1 m n, o2 n i]
                else case (v64 z, sample_b64_decode r) of
                  (Some j, Some bs) \<Rightarrow>
                    Some ([o1 m n, o2 n i,
                           o3 i j] @ bs)
                | _ \<Rightarrow> None)
           | None \<Rightarrow> None)
      | _ \<Rightarrow> None)"
| "sample_b64_decode _ = None"

lemma find_index_distinct:
  "distinct xs \<Longrightarrow> i < length xs \<Longrightarrow> find_index (\<lambda>d. d = xs ! i) xs = Some i"
  unfolding find_index_Some_iff by (auto simp: nth_eq_iff_index_eq)

lemma b64_chars_distinct: "distinct b64_chars" and b64_chars_length: "length b64_chars = 64"
  by (simp_all add: b64_chars_def)

lemma v64_c64 [simp]: "k < 64 \<Longrightarrow> v64 (c64 k) = Some k"
  unfolding v64_def c64_def
  by (rule find_index_distinct [OF b64_chars_distinct]) (simp add: b64_chars_length)

lemma c64_in: "k < 64 \<Longrightarrow> c64 k \<in> set b64_chars"
  unfolding c64_def using b64_chars_length by simp

lemma c64_plain [simp]: "k < 64 \<Longrightarrow> c64 k \<noteq> CHR ''=''"
proof -
  have "CHR ''='' \<notin> set b64_chars"
    by (simp add: b64_chars_def)
  then show "k < 64 \<Longrightarrow> c64 k \<noteq> CHR ''=''"
    using c64_in by metis
qed

lemma byte_bound: "unat (b :: byte) < 256"
  using unsigned_less [of b] by simp

lemma sextets:
  "unat (a :: byte) div 4 < 64" "unat (a :: byte) mod 4 * 16 < 64"
  "unat (a :: byte) mod 4 * 16 + unat (b :: byte) div 16 < 64" "unat (a :: byte) mod 16 * 4 < 64"
  "unat (a :: byte) mod 16 * 4 + unat (b :: byte) div 64 < 64" "unat (a :: byte) mod 64 < 64"
proof -
  have "unat b div 16 < 16" and "unat b div 64 < 4" and "unat a mod 4 < 4" and "unat a mod 16 < 16"
    using byte_bound [of b] by (simp_all add: less_mult_imp_div_less)
  then show "unat a mod 4 * 16 < 64" "unat a mod 4 * 16 + unat b div 16 < 64" "unat a mod 16 * 4 < 64"
      "unat a mod 16 * 4 + unat b div 64 < 64"
    by linarith+
  show "unat a div 4 < 64" "unat a mod 64 < 64"
    using byte_bound [of a] by (simp_all add: less_mult_imp_div_less)
qed

lemma pack: "r < (k :: nat) \<Longrightarrow> (q * k + r) div k = q \<and> (q * k + r) mod k = r"
  by simp

lemma octets:
  "o1 (unat a div 4) (unat a mod 4 * 16) = a"
  "o1 (unat a div 4) (unat a mod 4 * 16 + unat (b :: byte) div 16) = a"
  "o2 (unat (a :: byte) mod 4 * 16 + unat b div 16) (unat b mod 16 * 4) = b"
  "o2 (unat (a :: byte) mod 4 * 16 + unat b div 16) (unat b mod 16 * 4 + unat (c :: byte) div 64) = b"
  "o3 (unat (b :: byte) mod 16 * 4 + unat c div 64) (unat c mod 64) = c"
proof -
  have l: "unat b div 16 < 16" "unat c div 64 < 4" for b c :: byte
    using byte_bound [of b] byte_bound [of c] by (simp_all add: less_mult_imp_div_less)
  show "o1 (unat a div 4) (unat a mod 4 * 16) = a"
    by (simp only: o1_def nonzero_mult_div_cancel_right [of "16 :: nat"] div_mult_mod_eq) simp
  show "o1 (unat a div 4) (unat a mod 4 * 16 + unat (b :: byte) div 16) = a"
    by (simp only: o1_def pack [OF l(1)] div_mult_mod_eq) simp
  show "o2 (unat (a :: byte) mod 4 * 16 + unat b div 16) (unat b mod 16 * 4) = b"
    by (simp only: o2_def pack [OF l(1)] nonzero_mult_div_cancel_right [of "4 :: nat"] div_mult_mod_eq) simp
  show "o2 (unat (a :: byte) mod 4 * 16 + unat b div 16) (unat b mod 16 * 4 + unat (c :: byte) div 64) = b"
    by (simp only: o2_def pack [OF l(1)] pack [OF l(2)] div_mult_mod_eq) simp
  show "o3 (unat (b :: byte) mod 16 * 4 + unat c div 64) (unat c mod 64) = c"
    by (simp only: o3_def pack [OF l(2)] div_mult_mod_eq) simp
qed

lemma sample_b64_roundtrip: "sample_b64_decode (sample_b64_encode bs) = Some bs"
  by (induction bs rule: sample_b64_encode.induct) (simp_all add: sextets octets)

lemma sample_b64_length: "length (sample_b64_encode bs) = 4 * ((length bs + 2) div 3)"
proof (induction bs rule: sample_b64_encode.induct)
  case (4 a b c r)
  have "(length (a # b # c # r) + 2) div 3 = Suc ((length r + 2) div 3)"
    by simp
  with 4 show ?case
    by simp
qed simp_all

lemma sample_b64_alphabet: "set (sample_b64_encode bs) \<subseteq> b64_alphabet"
proof -
  have "set b64_chars \<subseteq> b64_alphabet" and "CHR ''='' \<in> b64_alphabet"
    by (simp_all add: b64_chars_def b64_alphabet_def)
  then show ?thesis
    using c64_in sextets by (induction bs rule: sample_b64_encode.induct) (auto simp: subset_eq)
qed

section \<open>The instance\<close>

text \<open>The first \<open>n\<close> bytes, filled up with zeros.\<close>

definition fit :: "nat \<Rightarrow> bytes \<Rightarrow> bytes" where
  "fit n bs = take n bs @ replicate (n - length bs) 0"

lemma length_fit [simp]: "length (fit n bs) = n"
  by (simp add: fit_def)

lemma fit_id [simp]: "length bs = n \<Longrightarrow> fit n bs = bs"
  by (simp add: fit_def)

lemma fit_take: "m \<le> n \<Longrightarrow> take m (fit n bs) = fit m bs"
  by (auto simp: fit_def min_def)

definition add_bytes :: "bytes \<Rightarrow> bytes \<Rightarrow> bytes" where
  "add_bytes xs ys = map2 (+) xs ys"

lemma length_add_bytes [simp]: "length (add_bytes xs ys) = min (length xs) (length ys)"
  by (simp add: add_bytes_def)

lemma add_bytes_commute: "add_bytes xs ys = add_bytes ys xs"
  unfolding add_bytes_def by (rule nth_equalityI) (simp_all add: add.commute)

definition sample_prims :: prims where
  "sample_prims = \<lparr>
     hmac_sha256 = \<lambda>k m. fit 32 (m @ k),
     sha256 = fit 32,
     sha3_256 = \<lambda>m. Some (fit 32 m),
     aead_seal = \<lambda>k n a m. Some (m @ fit 16 (k @ n @ a)),
     aead_open = \<lambda>k n a c. (if drop (length c - 16) c = fit 16 (k @ n @ a)
                            then Some (take (length c - 16) c) else None),
     scalarmult = \<lambda>a b. Some (add_bytes (fit 32 a) (fit 32 b)),
     scalarmult_base = fit 32,
     box_keypair = \<lambda>s. Some (fit 32 s, fit 32 s),
     ed_keypair = \<lambda>s. Some (fit 32 s, fit 32 s @ fit 32 s),
     ed_sk_to_x = \<lambda>sk. Some (take 32 sk),
     ed_pk_to_x = \<lambda>pk. Some pk,
     ed_sign = \<lambda>sk m. Some (take 32 sk @ fit 32 m),
     ed_verify = \<lambda>pk m sig. sig = pk @ fit 32 m,
     kem_public = \<lambda>s. Some (fit 1184 s),
     kem_encaps = \<lambda>pk c. Some (fit 1088 c, add_bytes (fit 32 pk) (fit 32 c)),
     kem_decaps = \<lambda>s ct. Some (add_bytes (fit 32 s) (fit 32 ct)),
     dsa_public = \<lambda>s. Some (fit 1952 s),
     dsa_sign = \<lambda>s m. Some (fit 3309 (fit 32 s @ m)),
     dsa_verify = \<lambda>pk m sig. Some (sig = fit 3309 (fit 32 pk @ m)),
     spqr_init = \<lambda>initiator s. Some s,
     spqr_send_step = \<lambda>state rnd. Some (state, fit 8 rnd, fit 32 state),
     spqr_recv_step = \<lambda>state msg. Some (state, fit 32 state),
     argon2id = \<lambda>pass salt t m. Some (fit 32 (pass @ salt)),
     b64_encode = sample_b64_encode,
     b64_decode = sample_b64_decode,
     b64url_encode = string_of_bytes,
     b64url_decode = \<lambda>s. Some (bytes_of_string s)\<rparr>"

lemma sample_hmac: "hmac_law sample_prims"
  by (simp add: hmac_law_def sample_prims_def)

lemma sample_sha256: "sha256_law sample_prims"
  by (simp add: sha256_law_def sample_prims_def)

lemma sample_aead: "aead_law sample_prims"
  by (simp add: aead_law_def sample_prims_def)

lemma sample_x_pair: "x_pair sample_prims pk sk \<longleftrightarrow> length sk = 32 \<and> pk = sk"
  by (auto simp: x_pair_def sample_prims_def)

lemma sample_x25519: "x25519_law sample_prims"
  unfolding x25519_law_def sample_x_pair
  by (auto simp: sample_prims_def add_bytes_commute)

lemma sample_ed25519: "ed25519_law sample_prims"
  unfolding ed25519_law_def ed_pair_def sample_x_pair
  by (auto simp: sample_prims_def)

lemma fit_fit: "m \<le> n \<Longrightarrow> fit m (fit n bs) = fit m bs"
  by (auto simp: fit_def min_def)

lemma sample_ml_kem: "ml_kem_law sample_prims"
  unfolding ml_kem_law_def by (auto simp: sample_prims_def fit_fit)

lemma sample_ml_kem_encaps: "ml_kem_encaps_law sample_prims"
  by (simp add: ml_kem_encaps_law_def sample_prims_def)

lemma sample_sha3: "sha3_law sample_prims"
  by (simp add: sha3_law_def sample_prims_def)

lemma sample_ml_dsa: "ml_dsa_law sample_prims"
  unfolding ml_dsa_law_def by (auto simp: sample_prims_def fit_fit)

lemma sample_spqr: "spqr_law sample_prims"
proof -
  have "fit 8 rnd \<noteq> []" for rnd
    using length_fit [of 8 rnd] by force
  then show ?thesis
    by (simp add: spqr_law_def sample_prims_def)
qed

lemma sample_b64: "b64_law sample_prims"
  unfolding b64_law_def
  using sample_b64_alphabet by (auto simp: sample_prims_def sample_b64_roundtrip sample_b64_length)

lemma sample_b64url: "b64url_law sample_prims"
  by (simp add: b64url_law_def sample_prims_def)

lemmas sample_laws = sample_hmac sample_sha256 sample_aead sample_x25519 sample_ed25519
  sample_ml_kem sample_ml_dsa sample_b64 sample_b64url

end
