(* ===== verification/Kdf.thy ===== *)
theory Kdf
  imports Sample_Prims
begin

text \<open>
  \<open>src/kdf.cpp\<close>: HKDF-SHA256. The program compiles one of two bodies; the model is the one in
  the repository (\<open>fallback_extract\<close>, \<open>fallback_expand\<close>), which the other is documented to
  agree with byte for byte. The expansion loop is the C++ loop, with its \<open>uint8_t\<close> counter and
  the \<open>produced\<close> index; \<open>hkdf_expand_Inr\<close> shows that it computes the output RFC 5869 defines,
  so the counter never wraps under the length check of \<open>hkdf_expand\<close>.
\<close>

definition fallback_extract :: "prims \<Rightarrow> bytes \<Rightarrow> bytes \<Rightarrow> bytes" where
  "fallback_extract p salt ikm =
     (if length salt = 0 then hmac_sha256 p (replicate 32 0) ikm else hmac_sha256 p salt ikm)"

function expand_loop ::
  "prims \<Rightarrow> bytes \<Rightarrow> bytes \<Rightarrow> nat \<Rightarrow> nat \<Rightarrow> byte \<Rightarrow> bytes \<Rightarrow> bytes \<Rightarrow> bytes" where
  "expand_loop p info prk out_len produced counter block out =
     (if produced < out_len then
        let counter' = counter + 1;
            block' = hmac_sha256 p prk ((if counter' > 1 then block else []) @ info @ [counter']);
            n = min 32 (out_len - produced)
        in expand_loop p info prk out_len (produced + n) counter' block' (out @ take n block')
      else out)"
  by pat_completeness auto
termination
  by (relation "measure (\<lambda>(p, info, prk, out_len, produced, counter, block, out). out_len - produced)")
    auto

declare expand_loop.simps [simp del]

definition fallback_expand :: "prims \<Rightarrow> nat \<Rightarrow> bytes \<Rightarrow> bytes \<Rightarrow> bytes" where
  "fallback_expand p out_len info prk = expand_loop p info prk out_len 0 0 [] []"

definition hkdf_extract :: "prims \<Rightarrow> bytes \<Rightarrow> bytes \<Rightarrow> bytes" where
  "hkdf_extract p salt ikm = fallback_extract p salt ikm"

definition hkdf_expand :: "prims \<Rightarrow> nat \<Rightarrow> bytes \<Rightarrow> bytes \<Rightarrow> bytes result" where
  "hkdf_expand p out_len info prk =
     (if out_len = 0 \<or> out_len > 255 * 32 then Inl (CryptoError HkdfLength)
      else Inr (fallback_expand p out_len info prk))"

section \<open>The specification: RFC 5869, section 2.3\<close>

fun hkdf_T :: "prims \<Rightarrow> bytes \<Rightarrow> bytes \<Rightarrow> nat \<Rightarrow> bytes" where
  "hkdf_T p info prk 0 = []"
| "hkdf_T p info prk (Suc n) =
     hmac_sha256 p prk (hkdf_T p info prk n @ info @ [word_of_nat (Suc n)])"

definition hkdf_okm :: "prims \<Rightarrow> bytes \<Rightarrow> bytes \<Rightarrow> nat \<Rightarrow> bytes" where
  "hkdf_okm p info prk n = concat (map (hkdf_T p info prk) [1..<Suc n])"

lemma length_hkdf_okm: "hmac_law p \<Longrightarrow> length (hkdf_okm p info prk n) = 32 * n"
proof (induction n)
  case (Suc n)
  have "hkdf_okm p info prk (Suc n) = hkdf_okm p info prk n @ hkdf_T p info prk (Suc n)"
    by (simp add: hkdf_okm_def)
  with Suc show ?case
    by (simp add: hmac_length)
qed (simp add: hkdf_okm_def)

lemma hkdf_okm_Suc: "hkdf_okm p info prk (Suc n) = hkdf_okm p info prk n @ hkdf_T p info prk (Suc n)"
  by (simp add: hkdf_okm_def)

text \<open>The counter byte of block \<open>n + 1\<close> exceeds 1 exactly when there is a previous block.\<close>

lemma counter_gt_one: "n < 255 \<Longrightarrow> (word_of_nat n + 1 :: byte) > 1 \<longleftrightarrow> n \<noteq> 0"
proof -
  assume n: "n < 255"
  have e: "(word_of_nat n + 1 :: byte) = word_of_nat (Suc n)"
    by simp
  have u: "unat (word_of_nat n + 1 :: byte) = Suc n"
    unfolding e using n by (simp only: unat_of_nat) simp
  show ?thesis
    by (simp only: word_less_nat_alt u) simp
qed

text \<open>
  The loop invariant: before block \<open>n + 1\<close> the output holds the first \<open>n\<close> blocks, \<open>counter\<close>
  is \<open>n\<close> and \<open>block\<close> is \<open>T(n)\<close>. The loop then appends the rest of the wanted prefix.
\<close>

lemma expand_loop_okm:
  assumes h: "hmac_law p" and "out_len \<le> 255 * 32" and "32 * n < out_len"
  shows "expand_loop p info prk out_len (32 * n) (word_of_nat n) (hkdf_T p info prk n)
           (hkdf_okm p info prk n)
         = take out_len (hkdf_okm p info prk ((out_len + 31) div 32))"
  using assms(2,3)
proof (induction "out_len - 32 * n" arbitrary: n rule: less_induct)
  case less
  let ?T = "hkdf_T p info prk" and ?okm = "hkdf_okm p info prk"
  have n: "n < 255"
    using less.prems by simp
  have blk: "hmac_sha256 p prk ((if (word_of_nat n + 1 :: byte) > 1 then ?T n else []) @ info
      @ [word_of_nat n + 1]) = ?T (Suc n)"
    unfolding counter_gt_one [OF n] by (cases n) (simp_all add: add.commute)
  have unfold: "expand_loop p info prk out_len (32 * n) (word_of_nat n) (?T n) (?okm n) =
      expand_loop p info prk out_len (32 * n + min 32 (out_len - 32 * n)) (word_of_nat (Suc n))
        (?T (Suc n)) (?okm n @ take (min 32 (out_len - 32 * n)) (?T (Suc n)))"
    using less.prems blk by (subst expand_loop.simps) (simp add: Let_def add.commute del: hkdf_T.simps)
  show ?case
  proof (cases "32 * Suc n < out_len")
    case True
    then have "expand_loop p info prk out_len (32 * n) (word_of_nat n) (?T n) (?okm n) =
        expand_loop p info prk out_len (32 * Suc n) (word_of_nat (Suc n)) (?T (Suc n)) (?okm (Suc n))"
      unfolding unfold by (simp add: hkdf_okm_Suc hmac_length [OF h] add.commute)
    also have "\<dots> = take out_len (?okm ((out_len + 31) div 32))"
      using less.hyps [of "Suc n"] less.prems True by simp
    finally show ?thesis .
  next
    case False
    then have m: "min 32 (out_len - 32 * n) = out_len - 32 * n" and "(out_len + 31) div 32 = Suc n"
      using less.prems by auto
    moreover have "expand_loop p info prk out_len out_len c b out = out" for c b out
      by (subst expand_loop.simps) simp
    ultimately show ?thesis
      unfolding unfold m using less.prems
      by (simp add: hkdf_okm_Suc length_hkdf_okm [OF h] del: hkdf_T.simps)
  qed
qed

lemma hkdf_expand_Inr:
  assumes "hmac_law p" and "0 < n" and "n \<le> 255 * 32"
  shows "hkdf_expand p n info prk = Inr (take n (hkdf_okm p info prk ((n + 31) div 32)))"
  using expand_loop_okm [OF assms(1,3), of 0 info prk] assms
  by (simp add: hkdf_expand_def fallback_expand_def hkdf_okm_def)

lemma hkdf_expand_length:
  assumes "hmac_law p" and "hkdf_expand p n info prk = Inr okm"
  shows "length okm = n"
proof -
  from assms(2) have "0 < n" and "n \<le> 255 * 32"
    by (auto simp: hkdf_expand_def split: if_splits)
  with hkdf_expand_Inr [OF assms(1) this, of info prk] assms show ?thesis
    by (auto simp: length_hkdf_okm)
qed

lemma hkdf_expand_ok: "0 < n \<Longrightarrow> n \<le> 8160 \<Longrightarrow> \<exists>okm. hkdf_expand p n info prk = Inr okm"
  by (simp add: hkdf_expand_def)

lemma hkdf_extract_length: "hmac_law p \<Longrightarrow> length (hkdf_extract p salt ikm) = 32"
  by (simp add: hkdf_extract_def fallback_extract_def hmac_length)

section \<open>Properties\<close>

text \<open>C40: For every output length the program may ask for, the expansion loop with its 8-bit block
  counter produces exactly the output of HKDF-Expand as RFC 5869 defines it: the first \<open>n\<close> bytes of
  \<open>T(1) || T(2) || ...\<close>; for every other length it throws. So the counter never wraps.\<close>

theorem hkdf_expand_is_rfc5869:
  assumes "hmac_law p"
  shows "hkdf_expand p n info prk =
     (if 0 < n \<and> n \<le> 8160 then Inr (take n (hkdf_okm p info prk ((n + 31) div 32)))
      else Inl (CryptoError HkdfLength))"
  using hkdf_expand_Inr [OF assms, of n info prk] by (auto simp: hkdf_expand_def)

lemma hkdf_expand_is_rfc5869_witness:
  "hkdf_expand sample_prims 40 [7] [1, 2] =
     Inr (take 40 (hkdf_okm sample_prims [7] [1, 2] 2))"
  using hkdf_expand_is_rfc5869 [OF sample_hmac, of 40 "[7]" "[1, 2]"] by simp

end
