(* ===== verification/Serial.thy ===== *)
theory Serial
  imports Prelude
begin

text \<open>
  \<open>include/ratchet/serial.hpp\<close>: the binary writer and reader every format of the program is
  built from.

  A \<open>Writer\<close> call appends to its sink, so it is modelled by the bytes it appends; a sequence of
  calls is \<open>catR\<close>, which stops at the first call that throws. A \<open>Reader\<close> is modelled twice:
  as the record of the class (buffer and cursor, \<open>rd_\<close> functions) and as a function on the
  bytes still unread (\<open>get_\<close> functions), which is what the format parsers are written with; the
  locale \<open>reader_op\<close> states that the second describes the first and is interpreted for every
  reader operation.

  The locales \<open>codec\<close> and \<open>canonical_codec\<close> are the interface between a format and its
  clients: what a writer emits its reader reads back, and (canonical) the reader accepts nothing
  else. Their lemmas lift the laws to counted lists, which is where the \<open>for\<close> loops of the
  parsers are verified once for all formats.
\<close>

section \<open>Writer\<close>

definition le32 :: "u32 \<Rightarrow> bytes" where
  "le32 v = [ucast (v AND 0xFF), ucast (drop_bit 8 v AND 0xFF),
             ucast (drop_bit 16 v AND 0xFF), ucast (drop_bit 24 v AND 0xFF)]"

definition put_u8 :: "byte \<Rightarrow> bytes result" where
  "put_u8 v = Inr [v]"

definition put_u32 :: "u32 \<Rightarrow> bytes result" where
  "put_u32 v = Inr (le32 v)"

definition le64 :: "u64 \<Rightarrow> bytes" where
  "le64 v = le32 (ucast (v AND 0xFFFFFFFF)) @ le32 (ucast (drop_bit 32 v AND 0xFFFFFFFF))"

definition put_u64 :: "u64 \<Rightarrow> bytes result" where
  "put_u64 v = Inr (le64 v)"

definition put_bytes :: "bytes \<Rightarrow> bytes result" where
  "put_bytes bs = Inr bs"

definition put_blob :: "bytes \<Rightarrow> bytes result" where
  "put_blob bs =
     (if length bs > 4294967295 then Inl (SerialError FieldTooLong)
      else Inr (le32 (word_of_nat (length bs)) @ bs))"

definition put_str :: "string \<Rightarrow> bytes result" where
  "put_str s = put_blob (bytes_of_string s)"

text \<open>A run of writer calls on the same sink.\<close>

fun catR :: "bytes result list \<Rightarrow> bytes result" where
  "catR [] = Inr []"
| "catR (w # ws) = bindR w (\<lambda>x. bindR (catR ws) (\<lambda>y. Inr (x @ y)))"

lemma catR_append: "catR (xs @ ys) = bindR (catR xs) (\<lambda>x. bindR (catR ys) (\<lambda>y. Inr (x @ y)))"
  by (induction xs) (simp_all add: bindR_assoc bindR_def split: sum.split)

text \<open>A run of calls succeeds exactly when each of them does.\<close>

lemma catR_ok: "(\<exists>bs. catR ws = Inr bs) \<longleftrightarrow> (\<forall>w \<in> set ws. \<exists>bs. w = Inr bs)"
  by (induction ws) (auto simp: bindR_eq_Inr)

section \<open>Reader\<close>

text \<open>The class: the input and the cursor \<open>pos_\<close>.\<close>

record reader =
  rdata :: bytes
  rpos :: nat

definition reader_init :: "bytes \<Rightarrow> reader" where
  "reader_init bs = \<lparr>rdata = bs, rpos = 0\<rparr>"

definition need :: "reader \<Rightarrow> nat \<Rightarrow> unit result" where
  "need r n = (if n > length (rdata r) - rpos r then Inl (SerialError Truncated) else Inr ())"

definition rd_u8 :: "reader \<Rightarrow> (byte \<times> reader) result" where
  "rd_u8 r = bindR (need r 1) (\<lambda>_. Inr (rdata r ! rpos r, r\<lparr>rpos := rpos r + 1\<rparr>))"

definition rd_u32 :: "reader \<Rightarrow> (u32 \<times> reader) result" where
  "rd_u32 r = bindR (need r 4) (\<lambda>_.
     Inr (ucast (rdata r ! rpos r) OR push_bit 8 (ucast (rdata r ! (rpos r + 1)))
            OR push_bit 16 (ucast (rdata r ! (rpos r + 2)))
            OR push_bit 24 (ucast (rdata r ! (rpos r + 3))),
          r\<lparr>rpos := rpos r + 4\<rparr>))"

definition rd_bytes :: "nat \<Rightarrow> reader \<Rightarrow> (bytes \<times> reader) result" where
  "rd_bytes n r = bindR (need r n) (\<lambda>_.
     Inr (take n (drop (rpos r) (rdata r)), r\<lparr>rpos := rpos r + n\<rparr>))"

definition rd_u64 :: "reader \<Rightarrow> (u64 \<times> reader) result" where
  "rd_u64 r = bindR (rd_u32 r) (\<lambda>(lo, r1). bindR (rd_u32 r1) (\<lambda>(hi, r2).
     Inr (ucast lo OR push_bit 32 (ucast hi), r2)))"

definition rd_blob :: "reader \<Rightarrow> (bytes \<times> reader) result" where
  "rd_blob r = bindR (rd_u32 r) (\<lambda>(n, r1). bindR (need r1 (unat n)) (\<lambda>_.
     Inr (take (unat n) (drop (rpos r1) (rdata r1)), r1\<lparr>rpos := rpos r1 + unat n\<rparr>)))"

definition rd_secure_blob :: "nat \<Rightarrow> reader \<Rightarrow> (bytes \<times> reader) result" where
  "rd_secure_blob max_len r = bindR (rd_u32 r) (\<lambda>(n, r1).
     if unat n > max_len then Inl (SerialError SecureBlobTooLong)
     else bindR (need r1 (unat n)) (\<lambda>_.
       if unat n > 0 then rd_bytes (unat n) r1 else Inr ([], r1)))"

definition rd_str :: "reader \<Rightarrow> (string \<times> reader) result" where
  "rd_str r = bindR (rd_blob r) (\<lambda>(v, r1). Inr (string_of_bytes v, r1))"

definition at_end :: "reader \<Rightarrow> bool" where
  "at_end r \<longleftrightarrow> rpos r = length (rdata r)"

definition remaining :: "reader \<Rightarrow> nat" where
  "remaining r = length (rdata r) - rpos r"

definition bounded_count :: "u32 \<Rightarrow> nat \<Rightarrow> reader \<Rightarrow> nat" where
  "bounded_count count min_bytes_per_item r =
     (if min_bytes_per_item = 0 then 0
      else let affordable = remaining r div min_bytes_per_item
           in if unat count < affordable then unat count else affordable)"

section \<open>The same operations on the unread bytes\<close>

definition unread :: "reader \<Rightarrow> bytes" where
  "unread r = drop (rpos r) (rdata r)"

definition get_u8 :: "bytes \<Rightarrow> (byte \<times> bytes) result" where
  "get_u8 zs = (case zs of [] \<Rightarrow> Inl (SerialError Truncated) | b # ys \<Rightarrow> Inr (b, ys))"

definition get_u32 :: "bytes \<Rightarrow> (u32 \<times> bytes) result" where
  "get_u32 zs =
     (if length zs < 4 then Inl (SerialError Truncated)
      else Inr (ucast (zs ! 0) OR push_bit 8 (ucast (zs ! 1))
                  OR push_bit 16 (ucast (zs ! 2)) OR push_bit 24 (ucast (zs ! 3)),
                drop 4 zs))"

definition get_bytes :: "nat \<Rightarrow> bytes \<Rightarrow> (bytes \<times> bytes) result" where
  "get_bytes n zs =
     (if length zs < n then Inl (SerialError Truncated) else Inr (take n zs, drop n zs))"

definition get_u64 :: "bytes \<Rightarrow> (u64 \<times> bytes) result" where
  "get_u64 zs = bindR (get_u32 zs) (\<lambda>(lo, ys). bindR (get_u32 ys) (\<lambda>(hi, xs).
     Inr (ucast lo OR push_bit 32 (ucast hi), xs)))"

definition get_blob :: "bytes \<Rightarrow> (bytes \<times> bytes) result" where
  "get_blob zs = bindR (get_u32 zs) (\<lambda>(n, ys). get_bytes (unat n) ys)"

definition get_secure_blob :: "nat \<Rightarrow> bytes \<Rightarrow> (bytes \<times> bytes) result" where
  "get_secure_blob max_len zs = bindR (get_u32 zs) (\<lambda>(n, ys).
     if unat n > max_len then Inl (SerialError SecureBlobTooLong) else get_bytes (unat n) ys)"

definition get_str :: "bytes \<Rightarrow> (string \<times> bytes) result" where
  "get_str zs = bindR (get_blob zs) (\<lambda>(v, ys). Inr (string_of_bytes v, ys))"

text \<open>\<open>for (i = 0; i < count; ++i) out.push_back(read_x(r))\<close>.\<close>

fun get_many :: "(bytes \<Rightarrow> ('a \<times> bytes) result) \<Rightarrow> nat \<Rightarrow> bytes \<Rightarrow> ('a list \<times> bytes) result" where
  "get_many get 0 zs = Inr ([], zs)"
| "get_many get (Suc n) zs =
     bindR (get zs) (\<lambda>(x, ys). bindR (get_many get n ys) (\<lambda>(xs, ws). Inr (x # xs, ws)))"

text \<open>A list with its 32-bit count in front, as every collection of the formats is stored.\<close>

definition put_counted :: "('a \<Rightarrow> bytes result) \<Rightarrow> 'a list \<Rightarrow> bytes result" where
  "put_counted put xs = catR (put_u32 (word_of_nat (length xs)) # map put xs)"

definition get_counted ::
  "(bytes \<Rightarrow> ('a \<times> bytes) result) \<Rightarrow> bytes \<Rightarrow> ('a list \<times> bytes) result" where
  "get_counted get zs = bindR (get_u32 zs) (\<lambda>(n, ys). get_many get (unat n) ys)"

definition wf_counted :: "('a \<Rightarrow> bool) \<Rightarrow> 'a list \<Rightarrow> bool" where
  "wf_counted ok xs \<longleftrightarrow> length xs < 4294967296 \<and> list_all ok xs"

section \<open>The reader implements the functions on the unread bytes\<close>

definition lift_get :: "reader \<Rightarrow> ('a \<times> bytes) result \<Rightarrow> ('a \<times> reader) result" where
  "lift_get r m = bindR m (\<lambda>(x, ys). Inr (x, r\<lparr>rpos := length (rdata r) - length ys\<rparr>))"

lemma lift_get_simps [simp]:
  "lift_get r (Inl e) = Inl e"
  "lift_get r (Inr (x, ys)) = Inr (x, r\<lparr>rpos := length (rdata r) - length ys\<rparr>)"
  by (simp_all add: lift_get_def)

locale reader_op =
  fixes rd :: "reader \<Rightarrow> ('a \<times> reader) result"
    and get :: "bytes \<Rightarrow> ('a \<times> bytes) result"
  assumes refines: "rpos r \<le> length (rdata r) \<Longrightarrow> rd r = lift_get r (get (unread r))"
    and suffix: "get zs = Inr (x, ys) \<Longrightarrow> \<exists>bs. zs = bs @ ys"
begin

lemma rd_init: "rd (reader_init zs) = lift_get (reader_init zs) (get zs)"
  by (subst refines) (simp_all add: reader_init_def unread_def)

lemma cursor_in_bounds:
  assumes "rpos r \<le> length (rdata r)" and "rd r = Inr (x, r')"
  shows "rdata r' = rdata r \<and> rpos r \<le> rpos r' \<and> rpos r' \<le> length (rdata r')"
proof -
  from assms obtain ys where g: "get (unread r) = Inr (x, ys)"
      and r': "r' = r\<lparr>rpos := length (rdata r) - length ys\<rparr>"
    by (auto simp: refines lift_get_def bindR_eq_Inr)
  from suffix [OF g] have "length ys \<le> length (rdata r) - rpos r"
    by (auto simp: unread_def dest: arg_cong [of _ _ length])
  with assms(1) r' show ?thesis
    by simp
qed

lemma unread_after:
  assumes "rpos r \<le> length (rdata r)" and "get (unread r) = Inr (x, ys)"
  shows "unread (r\<lparr>rpos := length (rdata r) - length ys\<rparr>) = ys"
proof -
  from suffix [OF assms(2)] obtain bs where "drop (rpos r) (rdata r) = bs @ ys"
    by (auto simp: unread_def)
  then have "rdata r = take (rpos r) (rdata r) @ bs @ ys"
    by (metis append_take_drop_id)
  then obtain u where "rdata r = u @ ys"
    by (metis append.assoc)
  then show ?thesis
    by (simp add: unread_def)
qed

end

section \<open>Words and their little-endian bytes\<close>

lemma length_le32 [simp]: "length (le32 v) = 4"
  by (simp add: le32_def)

lemma length_le64 [simp]: "length (le64 v) = 8"
  by (simp add: le64_def)

lemma byte_mask: "(0xFF :: u32) = mask 8"
  by (simp add: mask_eq_exp_minus_1)

lemma half_mask: "(0xFFFFFFFF :: u64) = mask 32"
  by (simp add: mask_eq_exp_minus_1)

lemma le32_join:
  "ucast (ucast (v AND 0xFF) :: byte) OR push_bit 8 (ucast (ucast (drop_bit 8 v AND 0xFF) :: byte))
     OR push_bit 16 (ucast (ucast (drop_bit 16 v AND 0xFF) :: byte))
     OR push_bit 24 (ucast (ucast (drop_bit 24 v AND 0xFF) :: byte)) = (v :: u32)" (is "?l = v")
proof (rule bit_word_eqI)
  fix n
  assume "n < LENGTH(32)"
  then consider "n < 8" | "8 \<le> n" "n < 16" | "16 \<le> n" "n < 24" | "24 \<le> n" "n < 32"
    by force
  then show "bit ?l n = bit v n"
    unfolding byte_mask by cases (auto simp add: bit_simps less_diff_conv2)
qed

lemma le32_split:
  fixes a b c d :: byte
  assumes w: "w = ucast a OR push_bit 8 (ucast b) OR push_bit 16 (ucast c)
                OR push_bit 24 (ucast d :: u32)"
  shows "ucast (w AND 0xFF) = a" "ucast (drop_bit 8 w AND 0xFF) = b"
    "ucast (drop_bit 16 w AND 0xFF) = c" "ucast (drop_bit 24 w AND 0xFF) = d"
  unfolding w byte_mask by (rule bit_word_eqI; auto simp: bit_simps dest: bit_imp_le_length)+

lemma le64_join:
  "ucast (ucast (v AND 0xFFFFFFFF) :: u32)
     OR push_bit 32 (ucast (ucast (drop_bit 32 v AND 0xFFFFFFFF) :: u32)) = (v :: u64)" (is "?l = v")
proof (rule bit_word_eqI)
  fix n
  assume "n < LENGTH(64)"
  then consider "n < 32" | "32 \<le> n" "n < 64"
    by force
  then show "bit ?l n = bit v n"
    unfolding half_mask by cases (auto simp add: bit_simps less_diff_conv2)
qed

lemma le64_split:
  fixes a b :: u32
  assumes w: "w = ucast a OR push_bit 32 (ucast b :: u64)"
  shows "ucast (w AND 0xFFFFFFFF) = a" "ucast (drop_bit 32 w AND 0xFFFFFFFF) = b"
  unfolding w half_mask by (rule bit_word_eqI; auto simp: bit_simps dest: bit_imp_le_length)+

section \<open>Reading back what was written\<close>

lemma get_u8_Cons [simp]: "get_u8 (b # ys) = Inr (b, ys)"
  by (simp add: get_u8_def)

lemma get_u32_Cons:
  "get_u32 (a # b # c # d # ys) =
     Inr (ucast a OR push_bit 8 (ucast b) OR push_bit 16 (ucast c) OR push_bit 24 (ucast d), ys)"
  by (simp add: get_u32_def)

lemma get_u32_le32 [simp]: "get_u32 (le32 v @ ys) = Inr (v, ys)"
  by (simp only: le32_def append.simps get_u32_Cons le32_join)

lemma get_u32_end [simp]: "get_u32 (le32 v) = Inr (v, [])"
  using get_u32_le32 [of v "[]"] by simp

lemma get_u64_le64 [simp]: "get_u64 (le64 v @ ys) = Inr (v, ys)"
  by (simp only: le64_def get_u64_def append_assoc get_u32_le32 bindR_simps prod.case le64_join)

lemma get_bytes_append [simp]: "length xs = n \<Longrightarrow> get_bytes n (xs @ ys) = Inr (xs, ys)"
  by (simp add: get_bytes_def)

lemma get_u32_Inr: "get_u32 zs = Inr (v, ys) \<longleftrightarrow> zs = le32 v @ ys"
proof
  assume g: "get_u32 zs = Inr (v, ys)"
  then have "4 \<le> length zs"
    by (simp add: get_u32_def split: if_splits)
  then obtain a b c d ws where z: "zs = a # b # c # d # ws"
    by (auto simp: numeral_eq_Suc Suc_le_length_iff)
  from g have v: "v = ucast a OR push_bit 8 (ucast b) OR push_bit 16 (ucast c)
      OR push_bit 24 (ucast d :: u32)" and "ys = ws"
    by (simp_all only: z get_u32_Cons sum.inject prod.inject)
  moreover have "le32 v = [a, b, c, d]"
    unfolding le32_def by (simp only: le32_split [OF v])
  ultimately show "zs = le32 v @ ys"
    using z by simp
qed simp

lemma get_u64_Inr: "get_u64 zs = Inr (v, ys) \<longleftrightarrow> zs = le64 v @ ys"
proof
  assume "get_u64 zs = Inr (v, ys)"
  then obtain lo hi where z: "zs = le32 lo @ le32 hi @ ys"
      and v: "v = ucast lo OR push_bit 32 (ucast hi)"
    by (auto simp: get_u64_def bindR_eq_Inr get_u32_Inr split: prod.splits)
  moreover have "le64 v = le32 lo @ le32 hi"
    unfolding le64_def by (simp only: le64_split [OF v])
  ultimately show "zs = le64 v @ ys"
    by simp
qed simp

lemma get_bytes_Inr: "get_bytes n zs = Inr (xs, ys) \<longleftrightarrow> zs = xs @ ys \<and> length xs = n"
  by (auto simp: get_bytes_def)

lemma get_u8_Inr: "get_u8 zs = Inr (b, ys) \<longleftrightarrow> zs = b # ys"
  by (cases zs) (auto simp: get_u8_def)

lemmas get_Inr [result_inv] = get_u8_Inr get_u32_Inr get_u64_Inr get_bytes_Inr

section \<open>Codecs\<close>

text \<open>
  The facts of all interpretations of the two locales below, as rewrite rules: a writer succeeds,
  a reader reads back, a reader's success is inverted.
\<close>

named_theorems codec_put \<open>writers succeed on well-formed values\<close>
named_theorems codec_get \<open>readers read back what writers wrote\<close>
named_theorems codec_inv \<open>inversion of successful readers\<close>

locale codec =
  fixes put :: "'a \<Rightarrow> bytes result"
    and get :: "bytes \<Rightarrow> ('a \<times> bytes) result"
    and ok :: "'a \<Rightarrow> bool"
  assumes put_ok: "ok x \<Longrightarrow> \<exists>bs. put x = Inr bs"
    and get_put: "ok x \<Longrightarrow> put x = Inr bs \<Longrightarrow> get (bs @ ys) = Inr (x, ys)"
begin

lemma get_eq: "put x = Inr bs \<Longrightarrow> ok x \<Longrightarrow> get (bs @ ys) = Inr (x, ys)"
  by (rule get_put)

lemma get_end: "put x = Inr bs \<Longrightarrow> ok x \<Longrightarrow> get bs = Inr (x, [])"
  using get_put [of x bs "[]"] by simp

lemma put_many_ok: "list_all ok xs \<Longrightarrow> \<exists>bs. catR (map put xs) = Inr bs"
  by (induction xs) (auto dest!: put_ok)

lemma get_put_many:
  "list_all ok xs \<Longrightarrow> catR (map put xs) = Inr bs \<Longrightarrow>
     get_many get (length xs) (bs @ ys) = Inr (xs, ys)"
proof (induction xs arbitrary: bs)
  case (Cons x xs)
  then obtain b c where "put x = Inr b" and "catR (map put xs) = Inr c" and "bs = b @ c"
    by (auto simp: bindR_eq_Inr)
  with Cons show ?case
    using get_put [of x b "c @ ys"] by simp
qed simp

lemma counted: "codec (put_counted put) (get_counted get) (wf_counted ok)"
proof
  fix xs
  assume "wf_counted ok xs"
  then show "\<exists>bs. put_counted put xs = Inr bs"
    using put_many_ok [of xs] by (auto simp: put_counted_def wf_counted_def put_u32_def)
next
  fix xs bs ys
  assume ok: "wf_counted ok xs" and p: "put_counted put xs = Inr bs"
  from p obtain c where c: "catR (map put xs) = Inr c"
      and bs: "bs = le32 (word_of_nat (length xs)) @ c"
    by (auto simp: put_counted_def put_u32_def bindR_eq_Inr)
  from ok have "list_all ok xs" and "unat (word_of_nat (length xs) :: u32) = length xs"
    by (simp_all add: wf_counted_def unat_of_nat_u32)
  then show "get_counted get (bs @ ys) = Inr (xs, ys)"
    using get_put_many [OF _ c] by (simp add: get_counted_def bs)
qed

lemma put_prefix:
  assumes "put x = Inr c" and "ok x" and "put y = Inr d" and "ok y" and "c @ r = d @ s"
  shows "x = y \<and> r = s"
  using get_put [OF assms(2,1), of r] get_put [OF assms(4,3), of s] assms(5) by simp

lemma put_inj:
  assumes "ok x" and "ok y" and "put x = put y"
  shows "x = y"
proof -
  obtain bs where p: "put x = Inr bs"
    using put_ok [OF \<open>ok x\<close>] by blast
  with assms(3) have q: "put y = Inr bs"
    by simp
  show ?thesis
    using get_put [OF assms(1) p, of "[]"] get_put [OF assms(2) q, of "[]"] by simp
qed

end

locale canonical_codec = codec +
  assumes get_canonical: "get zs = Inr (x, ys) \<Longrightarrow> ok x \<and> (\<exists>bs. put x = Inr bs \<and> zs = bs @ ys)"
begin

lemma get_iff: "get zs = Inr (x, ys) \<longleftrightarrow> ok x \<and> (\<exists>bs. put x = Inr bs \<and> zs = bs @ ys)"
  using get_canonical get_put by blast

lemma get_many_canonical:
  "get_many get n zs = Inr (xs, ys) \<Longrightarrow>
     length xs = n \<and> list_all ok xs \<and> (\<exists>bs. catR (map put xs) = Inr bs \<and> zs = bs @ ys)"
proof (induction n arbitrary: zs xs)
  case (Suc n)
  then obtain x ws xs' where g: "get zs = Inr (x, ws)" and m: "get_many get n ws = Inr (xs', ys)"
      and xs: "xs = x # xs'"
    by (auto simp: bindR_eq_Inr)
  show ?case
    using Suc.IH [OF m] get_canonical [OF g] xs by force
qed simp

lemma counted_canonical:
  "canonical_codec (put_counted put) (get_counted get) (wf_counted ok)"
proof (intro_locales, rule counted, unfold_locales)
  fix zs xs ys
  assume "get_counted get zs = Inr (xs, ys)"
  then obtain n ws where z: "zs = le32 n @ ws" and m: "get_many get (unat n) ws = Inr (xs, ys)"
    by (auto simp: get_counted_def result_inv)
  from get_many_canonical [OF m] have l: "length xs = unat n" and a: "list_all ok xs"
      and p: "\<exists>bs. catR (map put xs) = Inr bs \<and> ws = bs @ ys"
    by auto
  from l have "word_of_nat (length xs) = n"
    by simp
  with p z have "\<exists>bs. put_counted put xs = Inr bs \<and> zs = bs @ ys"
    by (auto simp: put_counted_def put_u32_def)
  moreover have "wf_counted ok xs"
    using a l unat_u32_less [of n] by (simp add: wf_counted_def)
  ultimately show "wf_counted ok xs \<and> (\<exists>bs. put_counted put xs = Inr bs \<and> zs = bs @ ys)"
    by blast
qed

end

text \<open>The size of a list of records that all have \<open>k\<close> bytes.\<close>

lemma length_put_counted:
  assumes "put_counted put xs = Inr bs"
    and "\<And>x c. x \<in> set xs \<Longrightarrow> put x = Inr c \<Longrightarrow> length c = k"
  shows "length bs = 4 + k * length xs"
proof -
  from assms(1) obtain c where c: "catR (map put xs) = Inr c" and bs: "bs = le32 (word_of_nat (length xs)) @ c"
    by (auto simp: put_counted_def put_u32_def bindR_eq_Inr)
  have "catR (map put ys) = Inr c \<Longrightarrow> set ys \<subseteq> set xs \<Longrightarrow> length c = k * length ys" for ys c
    by (induction ys arbitrary: c) (auto simp: bindR_eq_Inr assms(2))
  with c bs show ?thesis
    by simp
qed

lemma put_counted_map: "put_counted put (map f xs) = put_counted (\<lambda>x. put (f x)) xs"
  by (simp add: put_counted_def comp_def)

section \<open>The primitive codecs\<close>

definition wf_blob :: "bytes \<Rightarrow> bool" where
  "wf_blob bs \<longleftrightarrow> length bs < 4294967296"

definition wf_str :: "string \<Rightarrow> bool" where
  "wf_str s \<longleftrightarrow> length s < 4294967296"

definition wf_bytes :: "nat \<Rightarrow> bytes \<Rightarrow> bool" where
  "wf_bytes n bs \<longleftrightarrow> length bs = n"

interpretation u8: canonical_codec put_u8 get_u8 "\<lambda>_. True"
  by unfold_locales (auto simp: put_u8_def result_inv)

interpretation u32: canonical_codec put_u32 get_u32 "\<lambda>_. True"
  by unfold_locales (auto simp: put_u32_def result_inv)

interpretation u64: canonical_codec put_u64 get_u64 "\<lambda>_. True"
  by unfold_locales (auto simp: put_u64_def result_inv)

interpretation fixed: canonical_codec put_bytes "get_bytes n" "wf_bytes n" for n
  by unfold_locales (auto simp: put_bytes_def wf_bytes_def result_inv)

interpretation blob: canonical_codec put_blob get_blob wf_blob
proof
  fix zs bs ys
  assume "get_blob zs = Inr (bs, ys)"
  then obtain n where "zs = le32 n @ bs @ ys" and "length bs = unat n"
    by (auto simp: get_blob_def result_inv)
  moreover from this have "word_of_nat (length bs) = n"
    by simp
  ultimately show "wf_blob bs \<and> (\<exists>cs. put_blob bs = Inr cs \<and> zs = cs @ ys)"
    using unat_u32_less [of n] by (auto simp: put_blob_def wf_blob_def)
qed (auto simp: put_blob_def get_blob_def wf_blob_def unat_of_nat_u32 split: if_splits)

interpretation str: canonical_codec put_str get_str wf_str
proof
  fix zs s ys
  assume "get_str zs = Inr (s, ys)"
  then obtain v where "get_blob zs = Inr (v, ys)" and s: "s = string_of_bytes v"
    by (auto simp: get_str_def bindR_eq_Inr)
  with blob.get_canonical [of zs v ys]
  show "wf_str s \<and> (\<exists>cs. put_str s = Inr cs \<and> zs = cs @ ys)"
    by (simp add: put_str_def wf_str_def wf_blob_def)
next
  fix s
  assume "wf_str s"
  then show "\<exists>bs. put_str s = Inr bs"
    using blob.put_ok [of "bytes_of_string s"] by (simp add: put_str_def wf_str_def wf_blob_def)
next
  fix s bs ys
  assume "wf_str s" and "put_str s = Inr bs"
  then show "get_str (bs @ ys) = Inr (s, ys)"
    using blob.get_put [of "bytes_of_string s" bs ys]
    by (simp add: put_str_def get_str_def wf_str_def wf_blob_def)
qed

declare u8.put_ok [codec_put] u32.put_ok [codec_put] u64.put_ok [codec_put] fixed.put_ok [codec_put]
  blob.put_ok [codec_put] str.put_ok [codec_put]

declare u8.get_eq [codec_get] u32.get_eq [codec_get] u64.get_eq [codec_get] fixed.get_eq [codec_get]
  blob.get_eq [codec_get] str.get_eq [codec_get]

declare u8.get_iff [codec_inv] u32.get_iff [codec_inv] u64.get_iff [codec_inv]
  fixed.get_iff [codec_inv] blob.get_iff [codec_inv] str.get_iff [codec_inv]

lemmas wf_primitive [wf_simps] = wf_blob_def wf_str_def wf_bytes_def wf_counted_def

lemma get_secure_blob_put:
  "put_blob bs = Inr cs \<Longrightarrow> wf_blob bs \<Longrightarrow>
     get_secure_blob m (cs @ ys) =
       (if length bs > m then Inl (SerialError SecureBlobTooLong) else Inr (bs, ys))"
  by (auto simp: put_blob_def get_secure_blob_def wf_blob_def unat_of_nat_u32 split: if_splits)

section \<open>The class and the functions on the unread bytes agree\<close>

lemma need_unread:
  "rpos r \<le> length (rdata r) \<Longrightarrow>
     need r n = (if length (unread r) < n then Inl (SerialError Truncated) else Inr ())"
  by (auto simp: need_def unread_def)

lemma unread_nth: "i < length (unread r) \<Longrightarrow> unread r ! i = rdata r ! (rpos r + i)"
  by (simp add: unread_def)

interpretation u8_op: reader_op rd_u8 get_u8
proof
  fix r :: reader
  assume r: "rpos r \<le> length (rdata r)"
  show "rd_u8 r = lift_get r (get_u8 (unread r))"
  proof (cases "unread r")
    case Nil
    with r show ?thesis
      by (simp add: rd_u8_def need_unread get_u8_def)
  next
    case (Cons b ys)
    then have "length (rdata r) - length ys = rpos r + 1"
      using r by (auto simp: unread_def dest: arg_cong [of _ _ length])
    with Cons r show ?thesis
      using unread_nth [of 0 r] by (simp add: rd_u8_def need_unread get_u8_def)
  qed
qed (auto simp: result_inv)

interpretation u32_op: reader_op rd_u32 get_u32
proof
  fix r :: reader
  assume r: "rpos r \<le> length (rdata r)"
  show "rd_u32 r = lift_get r (get_u32 (unread r))"
  proof (cases "length (unread r) < 4")
    case True
    with r show ?thesis
      by (simp add: rd_u32_def need_unread get_u32_def)
  next
    case False
    then have "unread r \<noteq> []" and "length (rdata r) - length (drop 4 (unread r)) = rpos r + 4"
      using r by (auto simp: unread_def)
    with False r show ?thesis
      using unread_nth [of 0 r] unread_nth [of 1 r] unread_nth [of 2 r] unread_nth [of 3 r]
      by (simp add: rd_u32_def need_unread get_u32_def)
  qed
qed (auto simp: result_inv)

interpretation bytes_op: reader_op "rd_bytes n" "get_bytes n" for n
proof
  fix r :: reader
  assume r: "rpos r \<le> length (rdata r)"
  show "rd_bytes n r = lift_get r (get_bytes n (unread r))"
  proof (cases "length (unread r) < n")
    case True
    with r show ?thesis
      by (simp add: rd_bytes_def need_unread get_bytes_def)
  next
    case False
    then have "length (rdata r) - length (drop n (unread r)) = rpos r + n"
      using r by (auto simp: unread_def)
    with False r show ?thesis
      by (simp add: rd_bytes_def need_unread get_bytes_def) (simp add: unread_def)
  qed
qed (auto simp: result_inv)

text \<open>Two operations in sequence: the second runs on what the first left unread.\<close>

lemma reader_op_seq:
  assumes a: "reader_op rd get" and b: "\<And>x. reader_op (rd' x) (get' x)"
  shows "reader_op (\<lambda>r. bindR (rd r) (\<lambda>(x, r1). rd' x r1)) (\<lambda>zs. bindR (get zs) (\<lambda>(x, ys). get' x ys))"
proof
  fix r :: reader
  assume r: "rpos r \<le> length (rdata r)"
  show "bindR (rd r) (\<lambda>(x, r1). rd' x r1) = lift_get r (bindR (get (unread r)) (\<lambda>(x, ys). get' x ys))"
  proof (cases "get (unread r)")
    case (Inl e)
    then show ?thesis
      by (simp add: reader_op.refines [OF a r])
  next
    case (Inr p)
    then obtain x ys where g: "get (unread r) = Inr (x, ys)"
      by (cases p) simp
    let ?r1 = "r\<lparr>rpos := length (rdata r) - length ys\<rparr>"
    have u: "unread ?r1 = ys" and "rpos ?r1 \<le> length (rdata ?r1)"
      using reader_op.unread_after [OF a r g] by simp_all
    then have "rd' x ?r1 = lift_get r (get' x ys)"
      by (simp add: reader_op.refines [OF b] lift_get_def cong del: bindR_weak_cong)
    with g show ?thesis
      by (simp add: reader_op.refines [OF a r])
  qed
next
  fix zs :: bytes and y ws
  assume "bindR (get zs) (\<lambda>(x, ys). get' x ys) = Inr (y, ws)"
  then obtain x ys where "get zs = Inr (x, ys)" and "get' x ys = Inr (y, ws)"
    by (auto simp: bindR_eq_Inr)
  then obtain bs cs where "zs = bs @ ys" and "ys = cs @ ws"
    using reader_op.suffix [OF a] reader_op.suffix [OF b] by blast
  then show "\<exists>bs. zs = bs @ ws"
    by auto
qed

lemma reader_op_return: "reader_op (\<lambda>r. Inr (f, r)) (\<lambda>zs. Inr (f, zs))"
  by unfold_locales (simp_all add: unread_def)

lemma reader_op_throw: "reader_op (\<lambda>r. Inl e) (\<lambda>zs. Inl e)"
  by unfold_locales simp_all

interpretation u64_op: reader_op rd_u64 get_u64
proof -
  have "reader_op (\<lambda>r. bindR (rd_u32 r) (\<lambda>(hi, r2). Inr (ucast (lo :: u32) OR push_bit 32 (ucast hi) :: u64, r2)))
          (\<lambda>zs. bindR (get_u32 zs) (\<lambda>(hi, xs). Inr (ucast lo OR push_bit 32 (ucast hi), xs)))" for lo
    by (rule reader_op_seq [OF u32_op.reader_op_axioms reader_op_return])
  from reader_op_seq [OF u32_op.reader_op_axioms this] show "reader_op rd_u64 get_u64"
    unfolding rd_u64_def [abs_def] get_u64_def [abs_def] .
qed

interpretation blob_op: reader_op rd_blob get_blob
proof -
  from reader_op_seq [OF u32_op.reader_op_axioms, of "\<lambda>n. rd_bytes (unat n)" "\<lambda>n. get_bytes (unat n)"]
  show "reader_op rd_blob get_blob"
    using bytes_op.reader_op_axioms
    unfolding rd_blob_def [abs_def] get_blob_def [abs_def] rd_bytes_def [abs_def] by blast
qed

interpretation str_op: reader_op rd_str get_str
  unfolding rd_str_def [abs_def] get_str_def [abs_def]
  by (rule reader_op_seq [OF blob_op.reader_op_axioms reader_op_return])

lemma rd_secure_blob_eq:
  "rd_secure_blob m = (\<lambda>r. bindR (rd_u32 r) (\<lambda>(n, r1).
     if unat n > m then Inl (SerialError SecureBlobTooLong) else rd_bytes (unat n) r1))"
  by (rule ext) (auto simp: rd_secure_blob_def rd_bytes_def need_def bindR_def split: sum.split)

interpretation secure_blob_op: reader_op "rd_secure_blob m" "get_secure_blob m" for m
proof -
  have "reader_op (\<lambda>r. if unat n > m then Inl (SerialError SecureBlobTooLong) else rd_bytes (unat n) r)
          (\<lambda>zs. if unat n > m then Inl (SerialError SecureBlobTooLong) else get_bytes (unat n) zs)"
    for n :: u32
    by (cases "unat n > m") (simp_all add: reader_op_throw bytes_op.reader_op_axioms)
  then show "reader_op (rd_secure_blob m) (get_secure_blob m)"
    unfolding rd_secure_blob_eq get_secure_blob_def [abs_def]
    by (rule reader_op_seq [OF u32_op.reader_op_axioms])
qed

text \<open>
  A reservation made from an untrusted count never exceeds what the unread input could hold,
  and an honest count is not reduced.
\<close>

lemma bounded_count_affordable: "bounded_count count k r * k \<le> remaining r"
  by (auto simp: bounded_count_def Let_def)
    (metis div_times_less_eq_dividend less_imp_le_nat mult_le_mono1 order_trans)

lemma bounded_count_honest:
  "unat count * k \<le> remaining r \<Longrightarrow> 0 < k \<Longrightarrow> bounded_count count k r = unat count"
  by (auto simp: bounded_count_def Let_def not_less less_eq_div_iff_mult_less_eq le_antisym)

end
