(* ===== verification/Identity.thy ===== *)
theory Identity
  imports Kdf Serial
begin

text \<open>
  \<open>src/identity.cpp\<close> and \<open>src/prekey.cpp\<close>: the long-term identity derived from the master seed,
  fingerprints, and the signed and one-time prekeys. Signed prekeys are signed over a payload that
  names the context and the id; the codec of that payload shows that the signature binds them.
\<close>

section \<open>The identity\<close>

definition kSeedSalt :: string where
  "kSeedSalt = ''Ratchet-USB/v1/master-seed''"

definition kIdentityEdSeedInfo :: string where
  "kIdentityEdSeedInfo = ''Ratchet-USB/v1/identity-ed25519-seed''"

definition kIdentityMlDsaSeedInfo :: string where
  "kIdentityMlDsaSeedInfo = ''Ratchet-USB/v3/ML-DSA-65/identity-seed''"

definition derive_master_seed :: "prims \<Rightarrow> bytes \<Rightarrow> bytes" where
  "derive_master_seed p entropy = hkdf_extract p (bytes_of_string kSeedSalt) entropy"

text \<open>Public key, then secret key, as \<open>ed_keypair\<close>.\<close>

definition derive_identity :: "prims \<Rightarrow> bytes \<Rightarrow> (bytes \<times> bytes) result" where
  "derive_identity p seed =
     bindR (hkdf_expand p 32 (bytes_of_string kIdentityEdSeedInfo) seed) (\<lambda>ed_seed.
     of_option (CryptoError EdDerivation) (ed_keypair p ed_seed))"

definition derive_pq_identity :: "prims \<Rightarrow> bytes \<Rightarrow> pq_keypair result" where
  "derive_pq_identity p seed =
     bindR (hkdf_expand p 32 (bytes_of_string kIdentityMlDsaSeedInfo) (hkdf_extract p [] seed)) (\<lambda>pq_seed.
     ml_dsa_65_from_seed p pq_seed)"

lemma derive_identity_pair: "derive_identity p seed = Inr (pk, sk) \<Longrightarrow> ed_pair p pk sk"
  by (auto simp: derive_identity_def ed_pair_def bindR_eq_Inr)

lemma derive_pq_identity_pair:
  "derive_pq_identity p seed = Inr kp \<Longrightarrow> ml_dsa_65_from_seed p (pq_seed kp) = Inr kp"
  by (auto simp: derive_pq_identity_def ml_dsa_65_from_seed_def bindR_eq_Inr split: if_splits)

section \<open>Fingerprints\<close>

definition hex_digit :: "nat \<Rightarrow> char" where
  "hex_digit n = ''0123456789abcdef'' ! n"

definition to_hex :: "bytes \<Rightarrow> string" where
  "to_hex bs = concat (map (\<lambda>b. [hex_digit (unat b div 16), hex_digit (unat b mod 16)]) bs)"

text \<open>The loop of \<open>fingerprint\<close>, with its index \<open>i\<close>: four digits, four groups to a line.\<close>

function fingerprint_loop :: "string \<Rightarrow> nat \<Rightarrow> string" where
  "fingerprint_loop hex i =
     (if i < length hex
      then (if i > 0 then (if i mod 16 = 0 then [CHR 0x0A] else '' '') else [])
           @ take 4 (drop i hex) @ fingerprint_loop hex (i + 4)
      else [])"
  by pat_completeness auto
termination
  by (relation "measure (\<lambda>(hex, i). length hex - i)") auto

declare fingerprint_loop.simps [simp del]

definition fingerprint :: "bytes \<Rightarrow> string" where
  "fingerprint pk = fingerprint_loop (to_hex pk) 0"

function group_loop :: "string \<Rightarrow> nat \<Rightarrow> string \<Rightarrow> string" where
  "group_loop raw i grouped =
     (if i < length raw
      then group_loop raw (i + 4) (grouped @ (if grouped \<noteq> [] then '' '' else []) @ take 4 (drop i raw))
      else grouped)"
  by pat_completeness auto
termination
  by (relation "measure (\<lambda>(raw, i, grouped). length raw - i)") auto

declare group_loop.simps [simp del]

definition hybrid_fingerprint :: "prims \<Rightarrow> bytes \<Rightarrow> bytes \<Rightarrow> string" where
  "hybrid_fingerprint p ed_pk pq_pk =
     group_loop (to_hex (sha256 p (bytes_of_string ''Ratchet-USB/v3/hybrid-fingerprint'' @ ed_pk @ pq_pk))) 0 []"

lemma hex_digit_inj: "i < 16 \<Longrightarrow> j < 16 \<Longrightarrow> hex_digit i = hex_digit j \<Longrightarrow> i = j"
proof -
  have d: "distinct ''0123456789abcdef''" and l: "length ''0123456789abcdef'' = 16"
    by simp_all
  show "i < 16 \<Longrightarrow> j < 16 \<Longrightarrow> hex_digit i = hex_digit j \<Longrightarrow> i = j"
    unfolding hex_digit_def using nth_eq_iff_index_eq [OF d] l by simp
qed

lemma to_hex_inj: "to_hex xs = to_hex ys \<Longrightarrow> xs = ys"
proof (induction xs arbitrary: ys)
  case Nil
  then show ?case
    by (cases ys) (simp_all add: to_hex_def)
next
  case (Cons x xs)
  then obtain y zs where ys: "ys = y # zs"
    by (cases ys) (simp_all add: to_hex_def)
  have b: "unat (w :: byte) < 256" for w
    using unsigned_less [of w] by simp
  have "unat x div 16 = unat y div 16" and "unat x mod 16 = unat y mod 16" and "to_hex xs = to_hex zs"
    using Cons.prems b [of x] b [of y] unfolding ys to_hex_def by (auto intro!: hex_digit_inj)
  then have "unat x = unat y"
    by (metis div_mult_mod_eq)
  with Cons.IH [OF \<open>to_hex xs = to_hex zs\<close>] show ?case
    by (simp add: ys word_unat_eq_iff)
qed

lemma hex_digit_plain: "n < 16 \<Longrightarrow> hex_digit n \<noteq> CHR '' '' \<and> hex_digit n \<noteq> CHR 0x0A"
proof -
  assume "n < 16"
  then have "hex_digit n \<in> set ''0123456789abcdef''"
    unfolding hex_digit_def by (intro nth_mem) simp
  then show ?thesis
    by auto
qed

lemma to_hex_plain: "c \<in> set (to_hex bs) \<Longrightarrow> c \<noteq> CHR '' '' \<and> c \<noteq> CHR 0x0A"
proof -
  have b: "unat (w :: byte) < 256" for w
    using unsigned_less [of w] by simp
  show "c \<in> set (to_hex bs) \<Longrightarrow> c \<noteq> CHR '' '' \<and> c \<noteq> CHR 0x0A"
    unfolding to_hex_def using b hex_digit_plain by (auto simp: less_mult_imp_div_less)
qed

text \<open>Removing the separators gives the digits back, so a fingerprint determines the key.\<close>

definition just_digits :: "string \<Rightarrow> string" where
  "just_digits s = filter (\<lambda>c. c \<noteq> CHR '' '' \<and> c \<noteq> CHR 0x0A) s"

lemma digits_fingerprint_loop:
  assumes "\<forall>c \<in> set hex. c \<noteq> CHR '' '' \<and> c \<noteq> CHR 0x0A"
  shows "just_digits (fingerprint_loop hex i) = drop i hex"
proof (induction "length hex - i" arbitrary: i rule: less_induct)
  case less
  show ?case
  proof (cases "i < length hex")
    case True
    have k: "just_digits (take 4 (drop i hex)) = take 4 (drop i hex)"
      unfolding just_digits_def using assms
      by (intro filter_True) (auto dest!: in_set_takeD in_set_dropD)
    have "just_digits (fingerprint_loop hex (i + 4)) = drop (i + 4) hex"
      using less True by simp
    moreover have "take 4 (drop i hex) @ drop (i + 4) hex = drop i hex"
      by (metis add.commute append_take_drop_id drop_drop)
    ultimately show ?thesis
      using True k by (subst fingerprint_loop.simps) (auto simp: just_digits_def)
  qed (subst fingerprint_loop.simps, simp add: just_digits_def)
qed

lemma fingerprint_digits: "just_digits (fingerprint pk) = to_hex pk"
  unfolding fingerprint_def using digits_fingerprint_loop [of "to_hex pk" 0] to_hex_plain by auto

section \<open>Prekeys\<close>

record signed_prekey =
  spk_id :: u32
  spk_pub :: bytes
  spk_sk :: bytes
  spk_signature :: bytes
  spk_created_at :: u64

record one_time_prekey =
  otpk_id :: u32
  otpk_pub :: bytes
  otpk_sk :: bytes

definition kSignedPrekeyContext :: string where
  "kSignedPrekeyContext = ''Ratchet-USB/v2/signed-prekey''"

definition spk_signing_payload :: "u32 \<Rightarrow> bytes \<Rightarrow> bytes result" where
  "spk_signing_payload i pub = catR [put_str kSignedPrekeyContext, put_u32 i, put_bytes pub]"

text \<open>The random bytes of the key pair and the clock are arguments.\<close>

definition generate_signed_prekey ::
  "prims \<Rightarrow> bytes \<Rightarrow> u64 \<Rightarrow> bytes \<Rightarrow> u32 \<Rightarrow> signed_prekey result" where
  "generate_signed_prekey p rnd now identity_sk i =
     bindR (generate_keypair p rnd) (\<lambda>(pub, sk).
     bindR (spk_signing_payload i pub) (\<lambda>msg.
     bindR (sign p identity_sk msg) (\<lambda>sig.
     Inr \<lparr>spk_id = i, spk_pub = pub, spk_sk = sk, spk_signature = sig, spk_created_at = now\<rparr>)))"

definition resign_signed_prekey :: "prims \<Rightarrow> bytes \<Rightarrow> signed_prekey \<Rightarrow> signed_prekey result" where
  "resign_signed_prekey p identity_sk r =
     bindR (spk_signing_payload (spk_id r) (spk_pub r)) (\<lambda>msg.
     bindR (sign p identity_sk msg) (\<lambda>sig. Inr (r\<lparr>spk_signature := sig\<rparr>)))"

definition verify_signed_prekey_signature ::
  "prims \<Rightarrow> bytes \<Rightarrow> u32 \<Rightarrow> bytes \<Rightarrow> bytes \<Rightarrow> bool result" where
  "verify_signed_prekey_signature p identity_pk i pub sig =
     bindR (spk_signing_payload i pub) (\<lambda>msg. Inr (verify p identity_pk msg sig))"

text \<open>The loop over \<open>i\<close>; the list holds the random bytes of each key pair.\<close>

fun generate_one_time_prekeys :: "prims \<Rightarrow> bytes list \<Rightarrow> u32 \<Rightarrow> one_time_prekey list result" where
  "generate_one_time_prekeys p [] start_id = Inr []"
| "generate_one_time_prekeys p (rnd # rnds) start_id =
     bindR (generate_keypair p rnd) (\<lambda>(pub, sk).
     bindR (generate_one_time_prekeys p rnds (start_id + 1)) (\<lambda>rest.
     Inr (\<lparr>otpk_id = start_id, otpk_pub = pub, otpk_sk = sk\<rparr> # rest)))"

lemma spk_payload_ok: "\<exists>m. spk_signing_payload i pub = Inr m"
proof -
  have "wf_str kSignedPrekeyContext"
    by (simp add: wf_str_def kSignedPrekeyContext_def)
  then show ?thesis
    using str.put_ok by (auto simp: spk_signing_payload_def catR_ok put_u32_def put_bytes_def
        simp del: catR.simps)
qed

lemma spk_payload_inj:
  assumes "spk_signing_payload i pub = Inr m" and "spk_signing_payload j pub' = Inr m"
  shows "i = j \<and> pub = pub'"
proof -
  from assms obtain c where "put_str kSignedPrekeyContext = Inr c"
      and e: "le32 i @ pub = le32 j @ pub'"
    by (auto simp: spk_signing_payload_def put_u32_def put_bytes_def bindR_eq_Inr)
  have "get_u32 (le32 i @ pub) = get_u32 (le32 j @ pub')"
    by (simp only: e)
  then show ?thesis
    by simp
qed

lemma generated_prekey_verifies:
  assumes "ed25519_law p" and "ed_pair p pk sk" and "generate_signed_prekey p rnd now sk i = Inr r"
  shows "verify_signed_prekey_signature p pk (spk_id r) (spk_pub r) (spk_signature r) = Inr True"
proof -
  from assms(3) obtain pub s msg sig where "spk_signing_payload i pub = Inr msg"
      and "sign p sk msg = Inr sig" and "r = \<lparr>spk_id = i, spk_pub = pub, spk_sk = s,
        spk_signature = sig, spk_created_at = now\<rparr>"
    by (auto simp: generate_signed_prekey_def bindR_eq_Inr)
  with sign_verifies [OF assms(1,2)] show ?thesis
    by (simp add: verify_signed_prekey_signature_def)
qed

lemma resigned_prekey_verifies:
  assumes "ed25519_law p" and "ed_pair p pk sk" and "resign_signed_prekey p sk r = Inr r'"
  shows "verify_signed_prekey_signature p pk (spk_id r') (spk_pub r') (spk_signature r') = Inr True"
    and "spk_id r' = spk_id r" "spk_pub r' = spk_pub r" "spk_sk r' = spk_sk r"
    and "spk_created_at r' = spk_created_at r"
proof -
  from assms(3) obtain msg sig where m: "spk_signing_payload (spk_id r) (spk_pub r) = Inr msg"
      and s: "sign p sk msg = Inr sig" and r': "r' = r\<lparr>spk_signature := sig\<rparr>"
    by (auto simp: resign_signed_prekey_def bindR_eq_Inr)
  with sign_verifies [OF assms(1,2) s]
  show "verify_signed_prekey_signature p pk (spk_id r') (spk_pub r') (spk_signature r') = Inr True"
    by (simp add: verify_signed_prekey_signature_def)
  show "spk_id r' = spk_id r" "spk_pub r' = spk_pub r" "spk_sk r' = spk_sk r"
    "spk_created_at r' = spk_created_at r"
    by (simp_all add: r')
qed

lemma one_time_prekey_ids:
  "generate_one_time_prekeys p rnds i = Inr out \<Longrightarrow>
     length out = length rnds \<and> map otpk_id out = map (\<lambda>k. i + word_of_nat k) [0..<length rnds]"
proof (induction rnds arbitrary: i out)
  case (Cons rnd rnds)
  then obtain pub sk rest where r: "generate_one_time_prekeys p rnds (i + 1) = Inr rest"
      and out: "out = \<lparr>otpk_id = i, otpk_pub = pub, otpk_sk = sk\<rparr> # rest"
    by (auto simp: bindR_eq_Inr)
  have "map (\<lambda>k. i + word_of_nat k) [0..<length (rnd # rnds)] =
      i # map (\<lambda>k. i + 1 + word_of_nat k) [0..<length rnds]"
    by (simp only: length_Cons upt_conv_Cons map_Suc_upt [symmetric]) (simp add: ac_simps)
  with Cons.IH [OF r] out show ?case
    by simp
qed simp

section \<open>Properties\<close>

text \<open>Two identity keys with the same displayed fingerprint are the same key: grouping and line
  breaks lose nothing.\<close>

theorem fingerprint_identifies: "fingerprint pk = fingerprint pk' \<longleftrightarrow> pk = pk'"
  using fingerprint_digits to_hex_inj by metis

text \<open>A signed prekey produced by \<open>generate_signed_prekey\<close> verifies under its identity, with the
  id and key it was published with, and the signed payload determines both, so the signature of one
  prekey is a signature over no other id or key.\<close>

theorem signed_prekey_binds_id:
  assumes "ed25519_law p" and "derive_identity p seed = Inr (pk, sk)"
    and "generate_signed_prekey p rnd now sk i = Inr r"
  shows "spk_id r = i \<and>
    verify_signed_prekey_signature p pk (spk_id r) (spk_pub r) (spk_signature r) = Inr True \<and>
    (\<exists>m. spk_signing_payload (spk_id r) (spk_pub r) = Inr m \<and> sign p sk m = Inr (spk_signature r) \<and>
         (\<forall>j pub. spk_signing_payload j pub = Inr m \<longleftrightarrow> j = spk_id r \<and> pub = spk_pub r))"
proof -
  have "verify_signed_prekey_signature p pk (spk_id r) (spk_pub r) (spk_signature r) = Inr True"
    using generated_prekey_verifies [OF assms(1) derive_identity_pair [OF assms(2)] assms(3)] .
  moreover from assms(3) obtain m where "spk_id r = i" "spk_signing_payload (spk_id r) (spk_pub r) = Inr m"
      "sign p sk m = Inr (spk_signature r)"
    by (auto simp: generate_signed_prekey_def bindR_eq_Inr)
  ultimately show ?thesis
    using spk_payload_inj by blast
qed

lemma signed_prekey_binds_id_witness:
  "\<exists>pk sk r. derive_identity sample_prims [1] = Inr (pk, sk) \<and>
     generate_signed_prekey sample_prims [5] 100 sk 3 = Inr r \<and> spk_id r = 3 \<and>
     verify_signed_prekey_signature sample_prims pk (spk_id r) (spk_pub r) (spk_signature r) = Inr True"
proof -
  obtain pk sk where d: "derive_identity sample_prims [1] = Inr (pk, sk)"
    by (auto simp: derive_identity_def hkdf_expand_def sample_prims_def)
  obtain m where "spk_signing_payload 3 (fit 32 [5]) = Inr m"
    using spk_payload_ok by blast
  then obtain r where r: "generate_signed_prekey sample_prims [5] 100 sk 3 = Inr r"
    by (simp add: generate_signed_prekey_def generate_keypair_def sign_def sample_prims_def)
  show ?thesis
    using signed_prekey_binds_id [OF sample_ed25519 d r] d r by blast
qed

end
