(* ===== verification/Wire.thy ===== *)
theory Wire
  imports Sample_Prims "HOL-Library.Sublist"
begin

text \<open>
  \<open>src/wire.cpp\<close>: the pasteable armour around a binary body. \<open>encode_block\<close> writes the BEGIN
  line, the base64 of the body in lines of 64 characters and the END line; \<open>decode_block\<close> looks
  for the first BEGIN marker and the first END marker after it and ignores white space between
  them. The lemmas show that a block survives surrounding text and any reflowing of its lines, and
  describe every input \<open>decode_block\<close> accepts.
\<close>

definition c_isspace :: "char \<Rightarrow> bool" where
  "c_isspace c \<longleftrightarrow> c = CHR '' '' \<or> c = CHR 0x09 \<or> c = CHR 0x0A \<or> c = CHR 0x0B \<or> c = CHR 0x0C \<or> c = CHR 0x0D"

definition strip_whitespace :: "string \<Rightarrow> string" where
  "strip_whitespace text = filter (\<lambda>c. \<not> c_isspace c) text"

text \<open>\<open>std::string_view::find\<close>: the first position from \<open>p\<close> on where \<open>pat\<close> occurs.\<close>

fun find_sub :: "string \<Rightarrow> string \<Rightarrow> nat option" where
  "find_sub pat [] = (if pat = [] then Some 0 else None)"
| "find_sub pat (c # cs) = (if prefix pat (c # cs) then Some 0 else map_option Suc (find_sub pat cs))"

definition find_from :: "string \<Rightarrow> string \<Rightarrow> nat \<Rightarrow> nat option" where
  "find_from text pat p = (if p \<le> length text then map_option ((+) p) (find_sub pat (drop p text)) else None)"

definition begin_marker :: "string \<Rightarrow> string" where
  "begin_marker label = ''-----BEGIN RATCHET '' @ label @ ''-----''"

definition end_marker :: "string \<Rightarrow> string" where
  "end_marker label = ''-----END RATCHET '' @ label @ ''-----''"

function wrap64 :: "string \<Rightarrow> string" where
  "wrap64 s = (if s = [] then [] else take 64 s @ [CHR 0x0A] @ wrap64 (drop 64 s))"
  by pat_completeness auto
termination
  by (relation "measure length") auto

declare wrap64.simps [simp del]

definition encode_block :: "prims \<Rightarrow> string \<Rightarrow> bytes \<Rightarrow> string" where
  "encode_block p label bs =
     begin_marker label @ [CHR 0x0A] @ wrap64 (b64_encode p bs) @ end_marker label @ [CHR 0x0A]"

definition decode_block :: "prims \<Rightarrow> string \<Rightarrow> string \<Rightarrow> nat \<Rightarrow> bytes result" where
  "decode_block p expected_label text max_decoded_bytes =
     (if length text > max_decoded_bytes * 2 + 1024 then Inl (WireError BlockTooLong)
      else case find_from text (begin_marker expected_label) 0 of
        None \<Rightarrow>
          (if find_from text (''BEGIN RATCHET '' @ expected_label) 0 \<noteq> None
           then Inl (WireError AlteredDashes) else Inl (WireError BeginMissing))
      | Some begin_pos \<Rightarrow>
          (let payload_start = begin_pos + length (begin_marker expected_label)
           in case find_from text (end_marker expected_label) payload_start of
             None \<Rightarrow> Inl (WireError EndMissing)
           | Some end_pos \<Rightarrow>
               (let b64 = strip_whitespace (take (end_pos - payload_start) (drop payload_start text))
                in if length b64 > (max_decoded_bytes + 2) div 3 * 4 + 4
                   then Inl (WireError WouldExceedLimit)
                   else bindR (of_option (WireError InvalidBase64) (b64_decode p b64)) (\<lambda>out.
                     if length out > max_decoded_bytes then Inl (WireError DecodedTooLong)
                     else Inr out))))"

section \<open>Searching\<close>

lemma find_sub_Some: "find_sub pat s = Some i \<Longrightarrow> i \<le> length s \<and> prefix pat (drop i s)"
  by (induction s arbitrary: i) (auto split: if_splits)

lemma find_sub_first: "find_sub pat s = Some i \<Longrightarrow> j < i \<Longrightarrow> \<not> prefix pat (drop j s)"
proof (induction s arbitrary: i j)
  case (Cons c s)
  then show ?case
    by (cases j) (auto split: if_splits)
qed (simp split: if_splits)

text \<open>A pattern that starts with \<open>c\<close> is found right after a text without \<open>c\<close>.\<close>

lemma find_sub_after:
  "c \<notin> set pre \<Longrightarrow> find_sub (c # pat) (pre @ (c # pat) @ post) = Some (length pre)"
  by (induction pre) auto

lemma find_from_after:
  assumes "c \<notin> set mid" and "pat = c # pat'" and "text = pre @ mid @ pat @ post"
  shows "find_from text pat (length pre) = Some (length pre + length mid)"
  using find_sub_after [OF assms(1), of pat' post] by (simp add: find_from_def assms(2,3))

text \<open>Where a pattern is found does not depend on what follows it.\<close>

lemma find_sub_more: "find_sub pat (pre @ pat) = Some (length pre) \<Longrightarrow> find_sub pat (pre @ pat @ post) = Some (length pre)"
proof (induction pre)
  case Nil
  have "prefix pat (pat @ post)"
    by simp
  then show ?case
    by (cases "pat @ post") auto
next
  case (Cons c pre)
  have "prefix pat ((c # pre @ pat) @ post) \<longleftrightarrow> prefix pat (c # pre @ pat)"
    using prefix_length_prefix [of pat "(c # pre @ pat) @ post" "c # pre @ pat"] prefix_prefix [of pat "c # pre @ pat" post]
    by auto
  with Cons show ?case
    by (auto split: if_splits)
qed

section \<open>Reflowed blocks\<close>

lemma strip_whitespace_append [simp]:
  "strip_whitespace (xs @ ys) = strip_whitespace xs @ strip_whitespace ys"
  by (simp add: strip_whitespace_def)

lemma b64_alphabet_plain: "c \<in> b64_alphabet \<Longrightarrow> \<not> c_isspace c \<and> c \<noteq> CHR ''-''"
  unfolding b64_alphabet_def c_isspace_def by auto

lemma strip_b64: "b64_law p \<Longrightarrow> strip_whitespace (b64_encode p bs) = b64_encode p bs"
  unfolding strip_whitespace_def b64_law_def by (rule filter_True) (auto dest: b64_alphabet_plain)

lemma dash_free_body:
  assumes "b64_law p" and "strip_whitespace body = b64_encode p bs"
  shows "CHR ''-'' \<notin> set body"
proof
  assume "CHR ''-'' \<in> set body"
  moreover have "\<not> c_isspace (CHR ''-'')"
    by (simp add: c_isspace_def)
  ultimately have "CHR ''-'' \<in> set (b64_encode p bs)"
    unfolding assms(2) [symmetric] strip_whitespace_def by simp
  then show False
    using assms(1) b64_alphabet_plain unfolding b64_law_def by blast
qed

lemma wrap64_Nil [simp]: "wrap64 [] = []"
  by (simp add: wrap64.simps)

lemma strip_wrap64: "strip_whitespace (wrap64 s) = strip_whitespace s"
proof (induction s rule: wrap64.induct)
  case (1 s)
  show ?case
  proof (cases "s = []")
    case False
    have "strip_whitespace [CHR 0x0A] = []"
      by (simp add: strip_whitespace_def c_isspace_def)
    then have "strip_whitespace (wrap64 s) = strip_whitespace (take 64 s @ drop 64 s)"
      using False 1 by (subst wrap64.simps) (simp del: append_take_drop_id append_Cons)
    then show ?thesis
      by simp
  qed simp
qed

lemma marker_dash:
  "begin_marker label = CHR ''-'' # tl (begin_marker label)"
  "end_marker label = CHR ''-'' # tl (end_marker label)"
  by (simp_all add: begin_marker_def end_marker_def)

lemma decode_reflowed_at:
  assumes b64: "b64_law p" and body: "strip_whitespace body = b64_encode p bs"
    and pre: "find_sub (begin_marker label) (pre @ begin_marker label) = Some (length pre)" and len: "length bs \<le> m"
    and src: "text = pre @ begin_marker label @ body @ end_marker label @ post"
    and size: "length text \<le> 2 * m + 1024"
  shows "decode_block p label text m = Inr bs"
proof -
  let ?pre = "pre @ begin_marker label"
  have b: "find_from text (begin_marker label) 0 = Some (length pre)"
    using find_sub_more [OF pre] by (simp add: find_from_def src)
  have e: "find_from text (end_marker label) (length pre + length (begin_marker label))
      = Some (length pre + length (begin_marker label) + length body)"
    using find_from_after [OF dash_free_body [OF b64 body] marker_dash(2) [of label], of "text" ?pre post]
    by (simp add: src)
  have d: "drop (length pre + length (begin_marker label)) text = body @ end_marker label @ post"
    by (simp add: src)
  have dec: "b64_decode p (b64_encode p bs) = Some bs"
      and "length (b64_encode p bs) = 4 * ((length bs + 2) div 3)"
    using b64 by (simp_all add: b64_law_def)
  moreover have "(length bs + 2) div 3 \<le> (m + 2) div 3"
    using len by (intro div_le_mono) simp
  ultimately show ?thesis
    using size len by (simp add: decode_block_def b e d Let_def body)
qed

lemma decode_reflowed:
  assumes "b64_law p" and "strip_whitespace body = b64_encode p bs" and "CHR ''-'' \<notin> set pre" and "length bs \<le> m"
    and "text = pre @ begin_marker label @ body @ end_marker label @ post" and "length text \<le> 2 * m + 1024"
  shows "decode_block p label text m = Inr bs"
proof (rule decode_reflowed_at [OF assms(1,2) _ assms(4-6)])
  show "find_sub (begin_marker label) (pre @ begin_marker label) = Some (length pre)"
    using find_sub_after [OF assms(3), of "tl (begin_marker label)" "[]"] marker_dash(1) [of label] by simp
qed

lemma length_wrap64: "length (wrap64 s) \<le> length s + (length s + 63) div 64"
proof (induction s rule: wrap64.induct)
  case (1 s)
  show ?case
  proof (cases "s = []")
    case False
    then have "length (wrap64 s) = min (length s) 64 + 1 + length (wrap64 (drop 64 s))"
      by (subst wrap64.simps) simp
    moreover have "1 \<le> (length s + 63) div 64"
      using False by (cases s) auto
    ultimately show ?thesis
      using 1 [OF False] by (cases "length s \<le> 64") simp_all
  qed simp
qed

lemma length_encode_block:
  assumes "b64_law p" and "length label \<le> 400"
  shows "length (encode_block p label bs) \<le> length bs * 2 + 1024"
proof -
  have "length (b64_encode p bs) = 4 * ((length bs + 2) div 3)"
    using assms(1) by (simp add: b64_law_def)
  then show ?thesis
    using length_wrap64 [of "b64_encode p bs"] assms(2)
    by (simp add: encode_block_def begin_marker_def end_marker_def)
qed

lemma decode_encoded:
  assumes b64: "b64_law p" and len: "length bs \<le> m" and "length label \<le> 400"
  shows "decode_block p label (encode_block p label bs) m = Inr bs"
proof (rule decode_reflowed [OF b64 _ _ len, where pre = "[]"])
  show "strip_whitespace ([CHR 0x0A] @ wrap64 (b64_encode p bs)) = b64_encode p bs"
    unfolding strip_whitespace_append strip_wrap64 strip_b64 [OF b64]
    by (simp add: strip_whitespace_def c_isspace_def)
  show "encode_block p label bs = [] @ begin_marker label @ ([CHR 0x0A] @ wrap64 (b64_encode p bs))
      @ end_marker label @ [CHR 0x0A]"
    by (simp add: encode_block_def)
  show "length (encode_block p label bs) \<le> 2 * m + 1024"
    using length_encode_block [OF b64 assms(3), of bs] len by simp
qed simp

text \<open>What \<open>decode_block\<close> accepts: the payload between the first BEGIN and the next END.\<close>

lemma decode_block_Inr:
  assumes "decode_block p label text m = Inr bs"
  obtains b e where "find_from text (begin_marker label) 0 = Some b"
    and "find_from text (end_marker label) (b + length (begin_marker label)) = Some e"
    and "b64_decode p (strip_whitespace
           (take (e - (b + length (begin_marker label))) (drop (b + length (begin_marker label)) text)))
         = Some bs"
    and "length bs \<le> m"
  using assms
  by (auto simp: decode_block_def Let_def bindR_eq_Inr split: if_splits option.splits)

lemma decode_block_length: "decode_block p label text m = Inr bs \<Longrightarrow> length bs \<le> m"
  by (erule decode_block_Inr)

end
