(* ===== verification/Protocol.thy ===== *)
theory Protocol
  imports Prelude
begin

text \<open>
  \<open>include/ratchet/protocol.hpp\<close>: the protocol suites. The enumeration is ordered by its
  underlying number, which is what the minimum-suite policy of a contact compares;
  \<open>suite_of_code\<close> is the \<open>static_cast\<close> from the number, defined on the numbers
  \<open>known_suite\<close> accepts.
\<close>

datatype protocol_suite = ClassicV2 | HybridPqxdhV1 | TripleRatchetV1 | XWingTripleRatchetV1

fun suite_code :: "protocol_suite \<Rightarrow> byte" where
  "suite_code ClassicV2 = 1"
| "suite_code HybridPqxdhV1 = 2"
| "suite_code TripleRatchetV1 = 3"
| "suite_code XWingTripleRatchetV1 = 4"

lemma suite_code_inj: "suite_code s = suite_code t \<Longrightarrow> s = t"
  by (cases s; cases t) simp_all

instantiation protocol_suite :: linorder
begin

definition less_eq_protocol_suite :: "protocol_suite \<Rightarrow> protocol_suite \<Rightarrow> bool" where
  "s \<le> t \<longleftrightarrow> suite_code s \<le> suite_code t"

definition less_protocol_suite :: "protocol_suite \<Rightarrow> protocol_suite \<Rightarrow> bool" where
  "s < t \<longleftrightarrow> suite_code s < suite_code t"

instance
  by standard (auto simp: less_eq_protocol_suite_def less_protocol_suite_def suite_code_inj)

end

definition suite_at_least :: "protocol_suite \<Rightarrow> protocol_suite \<Rightarrow> bool" where
  "suite_at_least v m \<longleftrightarrow> suite_code v \<ge> suite_code m"

definition known_suite :: "byte \<Rightarrow> bool" where
  "known_suite c \<longleftrightarrow> c \<ge> suite_code ClassicV2 \<and> c \<le> suite_code XWingTripleRatchetV1"

definition uses_triple_ratchet :: "protocol_suite \<Rightarrow> bool" where
  "uses_triple_ratchet s \<longleftrightarrow> s = TripleRatchetV1 \<or> s = XWingTripleRatchetV1"

definition uses_xwing_combiner :: "protocol_suite \<Rightarrow> bool" where
  "uses_xwing_combiner s \<longleftrightarrow> s = XWingTripleRatchetV1"

definition suite_of_code :: "byte \<Rightarrow> protocol_suite option" where
  "suite_of_code c =
     (if c = 1 then Some ClassicV2 else if c = 2 then Some HybridPqxdhV1
      else if c = 3 then Some TripleRatchetV1 else if c = 4 then Some XWingTripleRatchetV1
      else None)"

lemma suite_at_least_iff: "suite_at_least v m \<longleftrightarrow> m \<le> v"
  by (simp add: suite_at_least_def less_eq_protocol_suite_def)

lemma suite_of_code_of [simp]: "suite_of_code (suite_code s) = Some s"
  by (cases s) (simp_all add: suite_of_code_def)

lemma suite_of_code_Some [simp]: "suite_of_code c = Some s \<longleftrightarrow> c = suite_code s"
  by (cases s) (auto simp: suite_of_code_def split: if_splits)

lemma known_suite_iff: "known_suite c \<longleftrightarrow> (\<exists>s. suite_of_code c = Some s)"
proof -
  have "known_suite c \<longleftrightarrow> c \<in> {1, 2, 3, 4}"
  proof
    assume "known_suite c"
    then have "1 \<le> unat c" and "unat c \<le> 4"
      by (simp_all add: known_suite_def word_le_nat_alt)
    then have "unat c = 1 \<or> unat c = 2 \<or> unat c = 3 \<or> unat c = 4"
      by auto
    then show "c \<in> {1, 2, 3, 4}"
      by (auto dest: arg_cong [of _ _ "word_of_nat :: nat \<Rightarrow> byte"])
  qed (auto simp: known_suite_def)
  then show ?thesis
    by (auto simp: suite_of_code_def)
qed

lemma known_suite_code [simp]: "known_suite (suite_code s)"
  by (simp add: known_suite_iff)

text \<open>A suite that is at least Triple Ratchet uses it; the suites grow along the order.\<close>

lemma uses_triple_ratchet_iff: "uses_triple_ratchet s \<longleftrightarrow> TripleRatchetV1 \<le> s"
  by (cases s) (simp_all add: uses_triple_ratchet_def less_eq_protocol_suite_def word_le_nat_alt)

end
