(* ===== verification/Message.thy ===== *)
theory Message
  imports Serial Wire Protocol
begin

text \<open>
  \<open>src/message.cpp\<close>: the envelope of one pasteable message. \<open>put_envelope\<close> and \<open>get_envelope\<close> are
  the binary body that \<open>encode\<close> and \<open>decode\<close> put into the armour; \<open>message_encode\<close> and
  \<open>message_decode\<close> are the two functions of the source. The envelope format is interpreted as a
  canonical codec: every body that is accepted is the body its envelope is written as.
\<close>

section \<open>Data\<close>

record initial_fields =
  initiator_identity_pub :: bytes
  init_spk_id :: u32
  init_otpk_id :: "u32 option"
  init_pq_spk_id :: "u32 option"
  init_pq_spk_ciphertext :: "bytes option"
  init_pq_otpk_id :: "u32 option"
  init_pq_otpk_ciphertext :: "bytes option"

record ratchet_header =
  h_dh_pub :: bytes
  h_pn :: u32
  h_n :: u32

record envelope =
  env_version :: byte
  env_suite :: protocol_suite
  env_sender_id :: bytes
  env_initial :: "initial_fields option"
  env_spqr_message :: bytes
  env_header :: ratchet_header
  env_ciphertext :: bytes

definition kMaxEnvelopeBytes :: nat where
  "kMaxEnvelopeBytes = 8 * 1024 * 1024"

definition kMaxPlaintextBytes :: nat where
  "kMaxPlaintextBytes = 4 * 1024 * 1024"

text \<open>The four characters \<open>RMSG\<close>.\<close>

definition kMessageMagic :: bytes where
  "kMessageMagic = [0x52, 0x4D, 0x53, 0x47]"

definition sender_id_for :: "prims \<Rightarrow> bytes \<Rightarrow> bytes" where
  "sender_id_for p identity_pub = take 8 (sha256 p identity_pub)"

section \<open>Flags and optional fields\<close>

definition read_flag :: "bytes \<Rightarrow> (bool \<times> bytes) result" where
  "read_flag zs = bindR (get_u8 zs) (\<lambda>(v, ys).
     if v > 1 then Inl (MessageError NoncanonicalFlag) else Inr (v = 1, ys))"

definition put_flagged :: "('a \<Rightarrow> bytes result) \<Rightarrow> 'a option \<Rightarrow> bytes result" where
  "put_flagged put m = (case m of None \<Rightarrow> put_u8 0 | Some x \<Rightarrow> catR [put_u8 1, put x])"

definition get_flagged ::
  "(bytes \<Rightarrow> ('a \<times> bytes) result) \<Rightarrow> bytes \<Rightarrow> ('a option \<times> bytes) result" where
  "get_flagged get zs = bindR (read_flag zs) (\<lambda>(b, ys).
     if b then bindR (get ys) (\<lambda>(x, ws). Inr (Some x, ws)) else Inr (None, ys))"

text \<open>An optional key id and its ciphertext: both are written, or neither.\<close>

fun both :: "'a option \<Rightarrow> 'b option \<Rightarrow> ('a \<times> 'b) option" where
  "both (Some a) (Some b) = Some (a, b)"
| "both _ _ = None"

definition put_kem :: "u32 \<times> bytes \<Rightarrow> bytes result" where
  "put_kem x = catR [put_u32 (fst x), put_bytes (snd x)]"

definition get_kem :: "bytes \<Rightarrow> ((u32 \<times> bytes) \<times> bytes) result" where
  "get_kem zs = bindR (get_u32 zs) (\<lambda>(i, ys). bindR (get_bytes 1088 ys) (\<lambda>(ct, ws).
     Inr ((i, ct), ws)))"

definition wf_kem :: "u32 \<times> bytes \<Rightarrow> bool" where
  "wf_kem x \<longleftrightarrow> length (snd x) = 1088"

section \<open>Writing\<close>

definition put_initial :: "initial_fields \<Rightarrow> bytes result" where
  "put_initial f = catR [
     put_bytes (initiator_identity_pub f),
     put_u32 (init_spk_id f),
     put_flagged put_u32 (init_otpk_id f),
     put_flagged put_kem (both (init_pq_spk_id f) (init_pq_spk_ciphertext f)),
     put_flagged put_kem (both (init_pq_otpk_id f) (init_pq_otpk_ciphertext f))]"

definition put_header :: "ratchet_header \<Rightarrow> bytes result" where
  "put_header h = catR [put_bytes (h_dh_pub h), put_u32 (h_pn h), put_u32 (h_n h)]"

definition header_aad :: "ratchet_header \<Rightarrow> bytes result" where
  "header_aad h = catR [put_bytes (h_dh_pub h), put_u32 (h_pn h), put_u32 (h_n h)]"

definition envelope_aad_prefix :: "envelope \<Rightarrow> bytes result" where
  "envelope_aad_prefix env = catR [
     put_bytes kMessageMagic,
     put_u8 (env_version env),
     put_u8 (suite_code (env_suite env)),
     put_bytes (env_sender_id env),
     put_flagged put_initial (env_initial env),
     (if env_version env = 3 then put_blob (env_spqr_message env) else Inr [])]"

definition put_envelope :: "envelope \<Rightarrow> bytes result" where
  "put_envelope env =
     (let hybrid = env_version env = 2 \<and> env_suite env = HybridPqxdhV1 \<and> env_spqr_message env = [];
          triple = env_version env = 3 \<and> uses_triple_ratchet (env_suite env) \<and>
                   env_spqr_message env \<noteq> [] \<and> length (env_spqr_message env) \<le> 1024 * 1024
      in if \<not> hybrid \<and> \<not> triple then Inl (MessageError UnsupportedProtocol)
         else catR [
           put_bytes kMessageMagic,
           put_u8 (env_version env),
           put_u8 (suite_code (env_suite env)),
           put_bytes (env_sender_id env),
           put_flagged put_initial (env_initial env),
           (if triple then put_blob (env_spqr_message env) else Inr []),
           put_header (env_header env),
           put_blob (env_ciphertext env)])"

definition message_encode :: "prims \<Rightarrow> envelope \<Rightarrow> string result" where
  "message_encode p env = bindR (put_envelope env) (\<lambda>body. Inr (encode_block p ''MESSAGE'' body))"

section \<open>Reading\<close>

definition get_initial :: "bytes \<Rightarrow> (initial_fields \<times> bytes) result" where
  "get_initial zs =
     bindR (get_bytes 32 zs) (\<lambda>(ik, zs).
     bindR (get_u32 zs) (\<lambda>(spk, zs).
     bindR (get_flagged get_u32 zs) (\<lambda>(otpk, zs).
     bindR (get_flagged get_kem zs) (\<lambda>(pspk, zs).
     bindR (get_flagged get_kem zs) (\<lambda>(potpk, zs).
     Inr (\<lparr>initiator_identity_pub = ik, init_spk_id = spk, init_otpk_id = otpk,
           init_pq_spk_id = map_option fst pspk, init_pq_spk_ciphertext = map_option snd pspk,
           init_pq_otpk_id = map_option fst potpk, init_pq_otpk_ciphertext = map_option snd potpk\<rparr>,
          zs))))))"

definition get_header :: "bytes \<Rightarrow> (ratchet_header \<times> bytes) result" where
  "get_header zs =
     bindR (get_bytes 32 zs) (\<lambda>(dh, zs).
     bindR (get_u32 zs) (\<lambda>(pn, zs).
     bindR (get_u32 zs) (\<lambda>(n, zs).
     Inr (\<lparr>h_dh_pub = dh, h_pn = pn, h_n = n\<rparr>, zs))))"

definition get_spqr :: "bytes \<Rightarrow> (bytes \<times> bytes) result" where
  "get_spqr zs = bindR (get_blob zs) (\<lambda>(m, ys).
     if m = [] \<or> length m > 1024 * 1024 then Inl (MessageError SpqrMessageLength) else Inr (m, ys))"

definition get_envelope :: "bytes \<Rightarrow> (envelope \<times> bytes) result" where
  "get_envelope zs =
     bindR (get_bytes 4 zs) (\<lambda>(magic, zs).
     if magic \<noteq> kMessageMagic then Inl (MessageError LegacyMessage) else
     bindR (get_u8 zs) (\<lambda>(version, zs).
     bindR (get_u8 zs) (\<lambda>(code, zs).
     let hybrid = version = 2 \<and> code = suite_code HybridPqxdhV1;
         triple = version = 3 \<and>
                  (code = suite_code TripleRatchetV1 \<or> code = suite_code XWingTripleRatchetV1)
     in if \<not> hybrid \<and> \<not> triple then Inl (MessageError UnsupportedProtocol) else
     bindR (of_option (MessageError UnsupportedProtocol) (suite_of_code code)) (\<lambda>suite.
     bindR (get_bytes 8 zs) (\<lambda>(sender, zs).
     bindR (get_flagged get_initial zs) (\<lambda>(initial, zs).
     bindR (if triple then get_spqr zs else Inr ([], zs)) (\<lambda>(spqr, zs).
     bindR (get_header zs) (\<lambda>(header, zs).
     bindR (get_blob zs) (\<lambda>(ct, zs).
     Inr (\<lparr>env_version = version, env_suite = suite, env_sender_id = sender,
           env_initial = initial, env_spqr_message = spqr, env_header = header,
           env_ciphertext = ct\<rparr>, zs))))))))))"

definition message_decode :: "prims \<Rightarrow> string \<Rightarrow> envelope result" where
  "message_decode p text =
     bindR (decode_block p ''MESSAGE'' text kMaxEnvelopeBytes) (\<lambda>body.
     bindR (get_envelope body) (\<lambda>(env, rest).
       if rest \<noteq> [] then Inl (MessageError EnvelopeTrailing) else Inr env))"

section \<open>Well-formed envelopes\<close>

text \<open>
  The lengths the fixed arrays of the C++ types have, and the pairs the code always sets together.
\<close>

definition wf_initial :: "initial_fields \<Rightarrow> bool" where
  "wf_initial f \<longleftrightarrow> length (initiator_identity_pub f) = 32 \<and>
     (init_pq_spk_id f = None \<longleftrightarrow> init_pq_spk_ciphertext f = None) \<and>
     (init_pq_otpk_id f = None \<longleftrightarrow> init_pq_otpk_ciphertext f = None) \<and>
     pred_option (\<lambda>c. length c = 1088) (init_pq_spk_ciphertext f) \<and>
     pred_option (\<lambda>c. length c = 1088) (init_pq_otpk_ciphertext f)"

definition wf_header :: "ratchet_header \<Rightarrow> bool" where
  "wf_header h \<longleftrightarrow> length (h_dh_pub h) = 32"

definition wf_envelope :: "envelope \<Rightarrow> bool" where
  "wf_envelope env \<longleftrightarrow>
     (env_version env = 2 \<and> env_suite env = HybridPqxdhV1 \<and> env_spqr_message env = [] \<or>
      env_version env = 3 \<and> uses_triple_ratchet (env_suite env) \<and>
        env_spqr_message env \<noteq> [] \<and> length (env_spqr_message env) \<le> 1048576) \<and>
     length (env_sender_id env) = 8 \<and> pred_option wf_initial (env_initial env) \<and>
     wf_header (env_header env) \<and> length (env_ciphertext env) < 4294967296"

section \<open>The codecs\<close>

lemma read_flag_simps [simp]:
  "read_flag (0 # ys) = Inr (False, ys)"
  "read_flag (1 # ys) = Inr (True, ys)"
  by (simp_all add: read_flag_def)

lemma read_flag_Inr:
  "read_flag zs = Inr (b, ys) \<longleftrightarrow> zs = (if b then 1 else 0) # ys"
proof (cases zs)
  case (Cons v ws)
  show ?thesis
  proof (cases "v > 1")
    case True
    then have "v \<noteq> 0" and "v \<noteq> 1"
      by auto
    with True Cons show ?thesis
      by (simp add: read_flag_def)
  next
    case False
    then consider "v = 0" | "v = 1"
      by (auto simp only: byte_cases)
    then show ?thesis
      by cases (auto simp: Cons)
  qed
qed (simp add: read_flag_def get_u8_def)

lemma flagged_simps [simp]:
  "put_flagged put None = Inr [0]"
  "put_flagged put (Some x) = bindR (put x) (\<lambda>bs. Inr (1 # bs))"
  "get_flagged get (0 # ys) = Inr (None, ys)"
  "get_flagged get (1 # ys) = bindR (get ys) (\<lambda>(x, ws). Inr (Some x, ws))"
  by (simp_all add: put_flagged_def get_flagged_def put_u8_def cong del: bindR_weak_cong)

lemma get_flagged_Inr:
  "get_flagged get zs = Inr (x, ys) \<longleftrightarrow>
     x = None \<and> zs = 0 # ys \<or> (\<exists>v ws. x = Some v \<and> zs = 1 # ws \<and> get ws = Inr (v, ys))"
  by (auto simp: get_flagged_def bindR_eq_Inr read_flag_Inr split: if_splits)

lemma flagged_codec:
  assumes "canonical_codec put get ok"
  shows "canonical_codec (put_flagged put) (get_flagged get) (pred_option ok)"
proof
  note c = canonical_codec.axioms(1) [OF assms]
  show "\<exists>bs. put_flagged put x = Inr bs" if "pred_option ok x" for x
    using that codec.put_ok [OF c] by (cases x) force+
  show "get_flagged get (bs @ ys) = Inr (x, ys)"
    if "pred_option ok x" and "put_flagged put x = Inr bs" for x bs ys
    using that codec.get_put [OF c] by (cases x) (auto simp: bindR_eq_Inr)
  show "pred_option ok x \<and> (\<exists>bs. put_flagged put x = Inr bs \<and> zs = bs @ ys)"
    if "get_flagged get zs = Inr (x, ys)" for zs x ys
    using that canonical_codec.get_canonical [OF assms] by (force simp: get_flagged_Inr)
qed

interpretation kem: canonical_codec put_kem get_kem wf_kem
  by unfold_locales
    (auto simp: put_kem_def get_kem_def wf_kem_def put_u32_def put_bytes_def result_inv)

interpretation flag_u32: canonical_codec "put_flagged put_u32" "get_flagged get_u32" "pred_option (\<lambda>_. True)"
  by (rule flagged_codec) (rule u32.canonical_codec_axioms)

interpretation flag_kem: canonical_codec "put_flagged put_kem" "get_flagged get_kem" "pred_option wf_kem"
  by (rule flagged_codec) (rule kem.canonical_codec_axioms)

declare kem.put_ok [codec_put] flag_u32.put_ok [codec_put] flag_kem.put_ok [codec_put]
declare kem.get_eq [codec_get] flag_u32.get_eq [codec_get] flag_kem.get_eq [codec_get]
declare flag_u32.get_iff [codec_inv] flag_kem.get_iff [codec_inv]

lemma both_eq_Some: "both a b = Some (x, y) \<longleftrightarrow> a = Some x \<and> b = Some y"
  by (cases a; cases b) auto

lemma both_pairs:
  "a = None \<longleftrightarrow> b = None \<Longrightarrow> map_option fst (both a b) = a"
  "a = None \<longleftrightarrow> b = None \<Longrightarrow> map_option snd (both a b) = b"
  by (cases a; cases b; simp)+

lemma both_of_pair [simp]: "both (map_option fst m) (map_option snd m) = m"
  by (cases m) auto

lemma wf_both:
  "pred_option (\<lambda>c. length c = 1088) b \<Longrightarrow> pred_option wf_kem (both a b)"
  by (cases a; cases b) (simp_all add: wf_kem_def)

interpretation initial: canonical_codec put_initial get_initial wf_initial
proof
  fix f assume "wf_initial f"
  then show "\<exists>bs. put_initial f = Inr bs"
    by (simp add: put_initial_def catR_ok codec_put wf_initial_def wf_both option.pred_True
        put_u32_def put_bytes_def del: catR.simps)
next
  fix f bs ys assume "wf_initial f" and "put_initial f = Inr bs"
  then show "get_initial (bs @ ys) = Inr (f, ys)"
    by (clarsimp simp: put_initial_def put_u32_def put_bytes_def bindR_eq_Inr)
      (simp add: get_initial_def wf_initial_def codec_get wf_both both_pairs option.pred_True)
next
  fix zs f ys assume "get_initial zs = Inr (f, ys)"
  then show "wf_initial f \<and> (\<exists>bs. put_initial f = Inr bs \<and> zs = bs @ ys)"
    by (auto simp: get_initial_def put_initial_def wf_initial_def bindR_eq_Inr codec_inv wf_bytes_def
        put_u32_def put_bytes_def wf_kem_def pred_option_def option.set_map)
qed

interpretation header: canonical_codec put_header get_header wf_header
proof
  fix h assume "wf_header h"
  then show "\<exists>bs. put_header h = Inr bs"
    by (simp add: put_header_def put_u32_def put_bytes_def)
next
  fix h bs ys assume "wf_header h" and "put_header h = Inr bs"
  then show "get_header (bs @ ys) = Inr (h, ys)"
    by (clarsimp simp: put_header_def put_u32_def put_bytes_def) (simp add: get_header_def wf_header_def)
next
  fix zs h ys assume "get_header zs = Inr (h, ys)"
  then show "wf_header h \<and> (\<exists>bs. put_header h = Inr bs \<and> zs = bs @ ys)"
    by (auto simp: put_header_def get_header_def wf_header_def put_u32_def put_bytes_def result_inv)
qed

interpretation flag_initial:
  canonical_codec "put_flagged put_initial" "get_flagged get_initial" "pred_option wf_initial"
  by (rule flagged_codec) (rule initial.canonical_codec_axioms)

declare header.put_ok [codec_put] flag_initial.put_ok [codec_put]
declare header.get_eq [codec_get] flag_initial.get_eq [codec_get]
declare header.get_iff [codec_inv] flag_initial.get_iff [codec_inv]

lemma wf_envelope_cases:
  assumes "wf_envelope env"
  obtains (hybrid) "env_version env = 2" "env_suite env = HybridPqxdhV1" "env_spqr_message env = []"
  | (triple) "env_version env = 3" "uses_triple_ratchet (env_suite env)"
      "env_spqr_message env \<noteq> []" "length (env_spqr_message env) \<le> 1048576"
  using assms by (auto simp: wf_envelope_def)

text \<open>The body is the authenticated prefix, the authenticated header, and the ciphertext.\<close>

lemma put_envelope_eq:
  assumes "wf_envelope env"
  shows "put_envelope env = catR [envelope_aad_prefix env, put_header (env_header env),
           put_blob (env_ciphertext env)]"
  using assms
  by (cases rule: wf_envelope_cases)
    (simp_all add: put_envelope_def envelope_aad_prefix_def Let_def bindR_assoc cong del: bindR_weak_cong)

lemma aad_prefix_ciphertext [simp]:
  "envelope_aad_prefix (x\<lparr>env_ciphertext := c\<rparr>) = envelope_aad_prefix x"
  by (simp add: envelope_aad_prefix_def cong del: bindR_weak_cong)

lemma envelope_aad_prefix_ok:
  assumes "wf_envelope env"
  shows "\<exists>bs. envelope_aad_prefix env = Inr bs"
  using assms
  by (auto simp: envelope_aad_prefix_def catR_ok codec_put wf_envelope_def wf_blob_def put_u8_def
      put_bytes_def simp del: catR.simps)

lemma put_envelope_ok: "wf_envelope env \<Longrightarrow> \<exists>bs. put_envelope env = Inr bs"
  using envelope_aad_prefix_ok [of env]
  by (simp add: put_envelope_eq catR_ok codec_put wf_envelope_def wf_blob_def del: catR.simps)

lemma length_kMessageMagic [simp]: "length kMessageMagic = 4"
  by (simp add: kMessageMagic_def)

lemma triple_codes:
  "suite_code s = suite_code TripleRatchetV1 \<or> suite_code s = suite_code XWingTripleRatchetV1 \<longleftrightarrow>
     uses_triple_ratchet s"
  by (cases s) (simp_all add: uses_triple_ratchet_def)

lemma get_envelope_put:
  assumes wf: "wf_envelope env" and p: "put_envelope env = Inr bs"
  shows "get_envelope (bs @ ys) = Inr (env, ys)"
  using wf
proof (cases rule: wf_envelope_cases)
  case hybrid
  then show ?thesis
    using p wf
    by (clarsimp simp: put_envelope_def Let_def put_u8_def put_bytes_def bindR_eq_Inr)
      (simp add: get_envelope_def wf_envelope_def codec_get wf_blob_def suite_of_code_def)
next
  case triple
  then have "env_suite env = TripleRatchetV1 \<or> env_suite env = XWingTripleRatchetV1"
    by (simp add: uses_triple_ratchet_def)
  then show ?thesis
    using p wf triple
    by (clarsimp simp: put_envelope_def Let_def put_u8_def put_bytes_def bindR_eq_Inr)
      (auto simp: get_envelope_def wf_envelope_def codec_get wf_blob_def get_spqr_def)
qed

lemma get_spqr_Inr:
  "get_spqr zs = Inr (m, ys) \<longleftrightarrow>
     m \<noteq> [] \<and> length m \<le> 1048576 \<and> (\<exists>bs. put_blob m = Inr bs \<and> zs = bs @ ys)"
  by (auto simp: get_spqr_def bindR_eq_Inr if_Inl_eq_Inr codec_inv wf_blob_def)

lemma get_envelope_steps:
  assumes "get_envelope zs = Inr (env, ys)"
  obtains zs1 zs2 zs3 zs4 where
      "zs = kMessageMagic @ env_version env # suite_code (env_suite env) # env_sender_id env @ zs1"
    and "env_version env = 2 \<and> env_suite env = HybridPqxdhV1 \<or>
         env_version env = 3 \<and> uses_triple_ratchet (env_suite env)"
    and "length (env_sender_id env) = 8"
    and "get_flagged get_initial zs1 = Inr (env_initial env, zs2)"
    and "(if env_version env = 3 then get_spqr zs2 else Inr ([], zs2)) =
           Inr (env_spqr_message env, zs3)"
    and "get_header zs3 = Inr (env_header env, zs4)"
    and "get_blob zs4 = Inr (env_ciphertext env, ys)"
  using assms
  unfolding get_envelope_def Let_def
  by (auto simp: bindR_eq_Inr if_Inl_eq_Inr get_Inr triple_codes uses_triple_ratchet_def
      suite_of_code_def simp del: suite_of_code_Some dest!: suite_code_inj split: prod.splits)

lemma get_envelope_canonical:
  assumes "get_envelope zs = Inr (env, ys)"
  shows "wf_envelope env \<and> (\<exists>bs. put_envelope env = Inr bs \<and> zs = bs @ ys)"
  using assms
proof (cases rule: get_envelope_steps)
  case (1 zs1 zs2 zs3 zs4)
  show ?thesis
  proof (cases "env_version env = 3")
    case True
    with 1 show ?thesis
      by (auto simp: put_envelope_def wf_envelope_def Let_def put_u8_def put_bytes_def codec_inv
          get_spqr_Inr wf_blob_def)
  next
    case False
    with 1 show ?thesis
      by (auto simp: put_envelope_def wf_envelope_def Let_def put_u8_def put_bytes_def codec_inv
          wf_blob_def)
  qed
qed

interpretation envelope: canonical_codec put_envelope get_envelope wf_envelope
  by unfold_locales (simp_all add: put_envelope_ok get_envelope_put get_envelope_canonical)

lemma length_flagged:
  "put_flagged put x = Inr bs \<Longrightarrow> (\<And>v cs. put v = Inr cs \<Longrightarrow> pred_option ok x \<Longrightarrow> ok v \<Longrightarrow> length cs \<le> n) \<Longrightarrow>
     pred_option ok x \<Longrightarrow> length bs \<le> n + 1"
  by (cases x) (auto simp: bindR_eq_Inr)

lemma length_put_initial:
  assumes "wf_initial f" and "put_initial f = Inr bs"
  shows "length bs \<le> 2300"
proof -
  have k: "length cs \<le> 1093" if "put_flagged put_kem x = Inr cs" "pred_option wf_kem x" for x cs
    using length_flagged [of put_kem x cs wf_kem 1092] that
    by (auto simp: put_kem_def put_u32_def put_bytes_def wf_kem_def)
  have u: "length cs \<le> 5" if "put_flagged put_u32 x = Inr cs" for x cs
    using length_flagged [of put_u32 x cs "\<lambda>_. True" 4] that
    by (auto simp: put_u32_def option.pred_True)
  from assms(2) obtain o1 o2 o3 where "put_flagged put_u32 (init_otpk_id f) = Inr o1"
      "put_flagged put_kem (both (init_pq_spk_id f) (init_pq_spk_ciphertext f)) = Inr o2"
      "put_flagged put_kem (both (init_pq_otpk_id f) (init_pq_otpk_ciphertext f)) = Inr o3"
    and bs: "bs = initiator_identity_pub f @ le32 (init_spk_id f) @ o1 @ o2 @ o3"
    by (auto simp: put_initial_def put_u32_def put_bytes_def bindR_eq_Inr)
  then have "length o1 \<le> 5" and "length o2 \<le> 1093" and "length o3 \<le> 1093"
    using u k wf_both assms(1) unfolding wf_initial_def by blast+
  then show ?thesis
    using assms(1) by (simp add: bs wf_initial_def)
qed

lemma length_put_envelope:
  assumes wf: "wf_envelope env" and p: "put_envelope env = Inr bs"
  shows "length bs \<le> length (env_ciphertext env) + 1052000"
proof -
  from p [unfolded put_envelope_eq [OF wf]] obtain a h c where
      a: "envelope_aad_prefix env = Inr a" and h: "put_header (env_header env) = Inr h"
      and c: "put_blob (env_ciphertext env) = Inr c" and bs: "bs = a @ h @ c"
    by (auto simp: bindR_eq_Inr)
  have "length h = 40" and "length c = length (env_ciphertext env) + 4"
    using wf h c by (auto simp: wf_envelope_def wf_header_def put_header_def put_u32_def put_bytes_def
        put_blob_def split: if_splits)
  moreover from a obtain i b where i: "put_flagged put_initial (env_initial env) = Inr i"
      and b: "(if env_version env = 3 then put_blob (env_spqr_message env) else Inr []) = Inr b"
      and a': "a = kMessageMagic @ env_version env # suite_code (env_suite env) # env_sender_id env @ i @ b"
    by (auto simp: envelope_aad_prefix_def put_u8_def put_bytes_def bindR_eq_Inr)
  have "length i \<le> 2301"
    using length_flagged [OF i, of wf_initial 2300] length_put_initial wf by (simp add: wf_envelope_def)
  moreover have "length b \<le> 1048580"
    using wf b by (auto simp: wf_envelope_def put_blob_def split: if_splits)
  ultimately show ?thesis
    using wf by (simp add: bs a' wf_envelope_def)
qed

lemma message_decode_encoded:
  assumes b64: "b64_law p" and wf: "wf_envelope env" and len: "length (env_ciphertext env) \<le> 6291456"
    and enc: "message_encode p env = Inr t"
  shows "message_decode p t = Inr env"
proof -
  obtain bs where bs: "put_envelope env = Inr bs"
    using envelope.put_ok [OF wf] by blast
  have "length bs \<le> kMaxEnvelopeBytes"
    using length_put_envelope [OF wf bs] len by (simp add: kMaxEnvelopeBytes_def)
  then have "decode_block p ''MESSAGE'' (encode_block p ''MESSAGE'' bs) kMaxEnvelopeBytes = Inr bs"
    by (intro decode_encoded [OF b64]) simp_all
  moreover have "get_envelope bs = Inr (env, [])"
    using envelope.get_put [OF wf bs, of "[]"] by simp
  ultimately show ?thesis
    using enc by (auto simp: message_encode_def bs message_decode_def)
qed

text \<open>An envelope for the witnesses.\<close>

definition sample_envelope :: envelope where
  "sample_envelope = \<lparr>env_version = 2, env_suite = HybridPqxdhV1, env_sender_id = replicate 8 7,
     env_initial = Some \<lparr>initiator_identity_pub = replicate 32 1, init_spk_id = 4,
       init_otpk_id = Some 9, init_pq_spk_id = Some 2, init_pq_spk_ciphertext = Some (replicate 1088 3),
       init_pq_otpk_id = None, init_pq_otpk_ciphertext = None\<rparr>,
     env_spqr_message = [], env_header = \<lparr>h_dh_pub = replicate 32 5, h_pn = 0, h_n = 1\<rparr>,
     env_ciphertext = [1, 2, 3]\<rparr>"

lemma sample_envelope_wf: "wf_envelope sample_envelope"
  by (simp add: sample_envelope_def wf_envelope_def wf_initial_def wf_header_def)

section \<open>Properties\<close>

text \<open>C13: A message survives transport: whatever is put before the armoured block, as long as no other begin
  marker starts in it, and whatever after it, and however the lines of the block are re-wrapped or indented,
  \<open>decode\<close> returns the envelope that was encoded, if the whole text is within the length that
  \<open>decode\<close> accepts (1024 more than twice 8 MiB). The bound on the ciphertext exceeds what a 4 MiB plaintext becomes.\<close>

theorem message_survives_transport:
  assumes b64: "b64_law p" and wf: "wf_envelope env" and len: "length (env_ciphertext env) \<le> 6291456"
    and enc: "message_encode p env = Inr (begin_marker ''MESSAGE'' @ body @ end_marker ''MESSAGE'' @ rest)"
    and body: "CHR ''-'' \<notin> set body" "strip_whitespace body' = strip_whitespace body"
    and pre: "find_sub (begin_marker ''MESSAGE'') (pre @ begin_marker ''MESSAGE'') = Some (length pre)"
    and src: "received = pre @ begin_marker ''MESSAGE'' @ body' @ end_marker ''MESSAGE'' @ post"
    and size: "length received \<le> 2 * kMaxEnvelopeBytes + 1024"
  shows "message_decode p received = Inr env"
proof -
  obtain bs where bs: "put_envelope env = Inr bs"
    using envelope.put_ok [OF wf] by blast
  let ?w = "[CHR 0x0A] @ wrap64 (b64_encode p bs)"
  have w: "strip_whitespace ?w = b64_encode p bs"
    unfolding strip_whitespace_append strip_wrap64 strip_b64 [OF b64]
    by (simp add: strip_whitespace_def c_isspace_def)
  have "begin_marker ''MESSAGE'' @ body @ end_marker ''MESSAGE'' @ rest =
      begin_marker ''MESSAGE'' @ ?w @ end_marker ''MESSAGE'' @ [CHR 0x0A]"
    using enc by (simp add: message_encode_def bs encode_block_def)
  then have "body @ end_marker ''MESSAGE'' @ rest = ?w @ end_marker ''MESSAGE'' @ [CHR 0x0A]"
    by (simp only: same_append_eq)
  then have "takeWhile (\<lambda>c. c \<noteq> CHR ''-'') (body @ end_marker ''MESSAGE'' @ rest) =
      takeWhile (\<lambda>c. c \<noteq> CHR ''-'') (?w @ end_marker ''MESSAGE'' @ [CHR 0x0A])"
    by (rule arg_cong)
  moreover have "takeWhile (\<lambda>c. c \<noteq> CHR ''-'') (xs @ end_marker ''MESSAGE'' @ ys) = xs"
    if "CHR ''-'' \<notin> set xs" for xs ys
    using that by (subst takeWhile_append2) (auto simp: end_marker_def)
  ultimately have "body = ?w"
    using body(1) dash_free_body [OF b64 w] by metis
  then have b': "strip_whitespace body' = b64_encode p bs"
    using body(2) w by simp
  have l: "length bs \<le> kMaxEnvelopeBytes"
    using length_put_envelope [OF wf bs] len by (simp add: kMaxEnvelopeBytes_def)
  have "decode_block p ''MESSAGE'' received kMaxEnvelopeBytes = Inr bs"
    by (rule decode_reflowed_at [OF b64 b' pre l src size])
  moreover have "get_envelope bs = Inr (env, [])"
    using envelope.get_put [OF wf bs, of "[]"] by simp
  ultimately show ?thesis
    by (simp add: message_decode_def)
qed

lemma message_survives_transport_witness:
  "\<exists>bs. put_envelope sample_envelope = Inr bs \<and> length bs \<le> 1052003 \<and>
     message_decode sample_prims (''Dear Bob -- '' @ begin_marker ''MESSAGE'' @
       ('' '' @ sample_b64_encode bs @ ''  '') @ end_marker ''MESSAGE'' @ ''bye'') = Inr sample_envelope"
proof -
  obtain bs where bs: "put_envelope sample_envelope = Inr bs"
    using envelope.put_ok [OF sample_envelope_wf] by blast
  have ct: "length (env_ciphertext sample_envelope) \<le> 3"
    by (simp add: sample_envelope_def)
  have l: "length bs \<le> 1052003"
    using length_put_envelope [OF sample_envelope_wf bs] ct by simp
  have e: "b64_encode sample_prims bs = sample_b64_encode bs"
    by (simp add: sample_prims_def)
  let ?w = "[CHR 0x0A] @ wrap64 (b64_encode sample_prims bs)" and ?b = "'' '' @ sample_b64_encode bs @ ''  ''"
  have s: "strip_whitespace ?w = sample_b64_encode bs" "strip_whitespace ?b = sample_b64_encode bs"
    unfolding strip_whitespace_append strip_wrap64 strip_b64 [OF sample_b64] e [symmetric]
    by (simp_all add: strip_whitespace_def c_isspace_def)
  have len: "length (''Dear Bob -- '' @ begin_marker ''MESSAGE'' @ ?b @ end_marker ''MESSAGE'' @ ''bye'')
      \<le> 2 * kMaxEnvelopeBytes + 1024"
    using l by (simp add: begin_marker_def end_marker_def sample_b64_length kMaxEnvelopeBytes_def)
  have "message_decode sample_prims (''Dear Bob -- '' @ begin_marker ''MESSAGE'' @ ?b @
      end_marker ''MESSAGE'' @ ''bye'') = Inr sample_envelope"
  proof (rule message_survives_transport [OF sample_b64 sample_envelope_wf _ _ _ _ _ refl len])
    show "message_encode sample_prims sample_envelope =
        Inr (begin_marker ''MESSAGE'' @ ?w @ end_marker ''MESSAGE'' @ [CHR 0x0A])"
      by (simp add: message_encode_def bs encode_block_def)
    show "CHR ''-'' \<notin> set ?w"
      using dash_free_body [OF sample_b64] s(1) e by metis
    show "strip_whitespace ?b = strip_whitespace ?w"
      by (simp only: s)
    show "find_sub (begin_marker ''MESSAGE'') (''Dear Bob -- '' @ begin_marker ''MESSAGE'') = Some (length ''Dear Bob -- '')"
      by (simp add: begin_marker_def)
  qed (use ct in simp_all)
  with bs l show ?thesis
    by blast
qed

text \<open>The envelope format is canonical: whatever \<open>decode\<close> accepts is well-formed and is, up to the
  armour, exactly the text \<open>encode\<close> writes for it. No two different bodies decode alike.\<close>

theorem message_decode_canonical:
  assumes "message_decode p received = Inr env"
  shows "wf_envelope env \<and>
    (\<exists>body. decode_block p ''MESSAGE'' received kMaxEnvelopeBytes = Inr body \<and>
            message_encode p env = Inr (encode_block p ''MESSAGE'' body))"
proof -
  from assms obtain body where b: "decode_block p ''MESSAGE'' received kMaxEnvelopeBytes = Inr body"
      and g: "get_envelope body = Inr (env, [])"
    by (auto simp: message_decode_def bindR_eq_Inr if_Inl_eq_Inr)
  from envelope.get_canonical [OF g] have "wf_envelope env" and "put_envelope env = Inr body"
    by auto
  with b show ?thesis
    by (simp add: message_encode_def)
qed

lemma message_decode_canonical_witness:
  "\<exists>t. message_decode sample_prims t = Inr sample_envelope \<and>
     (\<exists>body. message_encode sample_prims sample_envelope = Inr (encode_block sample_prims ''MESSAGE'' body))"
proof -
  obtain t where t: "message_encode sample_prims sample_envelope = Inr t"
    using envelope.put_ok [OF sample_envelope_wf] by (auto simp: message_encode_def)
  have d: "message_decode sample_prims t = Inr sample_envelope"
    by (rule message_decode_encoded [OF sample_b64 sample_envelope_wf _ t]) (simp add: sample_envelope_def)
  then show ?thesis
    using message_decode_canonical [OF d] by blast
qed

text \<open>C17: The associated data of a message, the envelope prefix followed by the ratchet header, determine
  every field of the envelope other than the ciphertext: version, suite, sender, opening fields with
  their key ids and ciphertexts, SPQR message and header are all authenticated.\<close>

theorem aad_binds_envelope:
  assumes "wf_envelope e" and "wf_envelope e'"
    and "envelope_aad_prefix e = Inr a" and "header_aad (env_header e) = Inr h"
    and "envelope_aad_prefix e' = Inr a'" and "header_aad (env_header e') = Inr h'"
    and "a @ h = a' @ h'"
  shows "e\<lparr>env_ciphertext := []\<rparr> = e'\<lparr>env_ciphertext := []\<rparr>"
proof (rule envelope.put_inj)
  have w: "wf_envelope (x\<lparr>env_ciphertext := []\<rparr>)" if "wf_envelope x" for x
    using that by (simp add: wf_envelope_def)
  show "wf_envelope (e\<lparr>env_ciphertext := []\<rparr>)" and "wf_envelope (e'\<lparr>env_ciphertext := []\<rparr>)"
    using w assms(1,2) by simp_all
  have "put_envelope (x\<lparr>env_ciphertext := []\<rparr>) = Inr (b @ k @ le32 0)"
    if "wf_envelope x" "envelope_aad_prefix x = Inr b" "header_aad (env_header x) = Inr k" for x b k
    using that by (subst put_envelope_eq [OF w [OF that(1)]])
      (simp add: header_aad_def [folded put_header_def] put_blob_def)
  with assms show "put_envelope (e\<lparr>env_ciphertext := []\<rparr>) = put_envelope (e'\<lparr>env_ciphertext := []\<rparr>)"
    by (metis append.assoc)
qed

lemma aad_binds_envelope_witness:
  "sample_envelope\<lparr>env_ciphertext := []\<rparr> = sample_envelope\<lparr>env_ciphertext := [9], env_ciphertext := []\<rparr>"
proof -
  let ?e = "sample_envelope\<lparr>env_ciphertext := [9]\<rparr>"
  have w: "wf_envelope ?e"
    using sample_envelope_wf by (simp add: wf_envelope_def)
  obtain a h where a: "envelope_aad_prefix sample_envelope = Inr a" "header_aad (env_header sample_envelope) = Inr h"
    using envelope_aad_prefix_ok [OF sample_envelope_wf]
    by (auto simp: header_aad_def put_u32_def put_bytes_def)
  then have "envelope_aad_prefix ?e = Inr a" and "header_aad (env_header ?e) = Inr h"
    by simp_all
  from aad_binds_envelope [OF sample_envelope_wf w a this refl] show ?thesis .
qed

end
