(* ===== verification/Store.thy ===== *)
theory Store
  imports Identity Message
begin

text \<open>
  \<open>src/store.cpp\<close>: the contents of the vault. One record per struct, one writer and one reader
  per format, the readers with the version dispatch of the source (stores of version 1 to 10 are
  read, version 10 is written). Each format the program writes is interpreted as a codec, so the
  loops of \<open>serialize\<close> and \<open>parse\<close> are covered by the counted-list lemmas of \<open>Serial\<close>.

  A \<open>std::size_t\<close> index is a \<open>nat\<close>; \<open>int find_...\<close> with \<open>-1\<close> for no match is an option.
  The clock that \<open>read_skipped_key\<close> reads for old stores is the argument \<open>now\<close>.
\<close>

section \<open>Data\<close>

record peer_otpk =
  po_id :: u32
  po_pub :: bytes

record peer_pq_prekey =
  pp_id :: u32
  pp_pub :: bytes

record peer_pq_bundle =
  pqb_signed_prekey :: peer_pq_prekey
  pqb_ed_signature :: bytes
  pqb_pq_signature :: bytes
  pqb_one_time_prekeys :: "peer_pq_prekey list"

record peer_card =
  pc_maximum_suite :: protocol_suite
  pc_spk_id :: u32
  pc_spk_pub :: bytes
  pc_spk_signature :: bytes
  pc_one_time_prekeys :: "peer_otpk list"
  pc_pq_identity_pub :: bytes
  pc_pq_bundle :: "peer_pq_bundle option"

record pq_prekey =
  pqk_id :: u32
  pqk_key :: pq_keypair
  pqk_created_at :: u64

record contact =
  c_alias :: string
  c_identity_pub :: bytes
  c_verified :: bool
  c_minimum_suite :: protocol_suite
  c_card :: "peer_card option"

record skipped_key =
  sk_dh_pub :: bytes
  sk_n :: u32
  sk_message_key :: bytes
  sk_created_at :: u64

record accepted_handshake =
  ah_initiator_identity :: bytes
  ah_ephemeral_pub :: bytes
  ah_accepted_at :: u64
  ah_spk_id :: u32

datatype session_status = Pending | Confirmed | Closed

fun status_code :: "session_status \<Rightarrow> byte" where
  "status_code Pending = 1"
| "status_code Confirmed = 2"
| "status_code Closed = 3"

definition status_of_code :: "byte \<Rightarrow> session_status option" where
  "status_of_code c =
     (if c = 1 then Some Pending else if c = 2 then Some Confirmed
      else if c = 3 then Some Closed else None)"

record session =
  s_contact_index :: nat
  s_suite :: protocol_suite
  s_status :: session_status
  s_session_id :: bytes
  s_legacy_read_only :: bool
  s_spqr_state :: bytes
  s_root_key :: bytes
  s_has_dhs :: bool
  s_dhs_sk :: bytes
  s_dhs_pub :: bytes
  s_has_dhr :: bool
  s_dhr_pub :: bytes
  s_has_cks :: bool
  s_chain_key_send :: bytes
  s_has_ckr :: bool
  s_chain_key_recv :: bytes
  s_ns :: u32
  s_nr :: u32
  s_pn :: u32
  s_skipped :: "skipped_key list"

record vault_store =
  v_vault_id :: bytes
  v_generation :: u64
  v_previous_digest :: bytes
  v_seed :: bytes
  v_next_spk_id :: u32
  v_signed_prekeys :: "signed_prekey list"
  v_next_otpk_id :: u32
  v_one_time_prekeys :: "one_time_prekey list"
  v_next_pq_prekey_id :: u32
  v_pq_signed_prekeys :: "pq_prekey list"
  v_pq_one_time_prekeys :: "pq_prekey list"
  v_contacts :: "contact list"
  v_sessions :: "session list"
  v_accepted_handshakes :: "accepted_handshake list"

text \<open>The default member initialisers of the structs.\<close>

definition session_default :: session where
  "session_default = \<lparr>s_contact_index = 0, s_suite = ClassicV2, s_status = Pending,
     s_session_id = replicate 32 0, s_legacy_read_only = False, s_spqr_state = [],
     s_root_key = replicate 32 0, s_has_dhs = False, s_dhs_sk = replicate 32 0,
     s_dhs_pub = replicate 32 0, s_has_dhr = False, s_dhr_pub = replicate 32 0,
     s_has_cks = False, s_chain_key_send = replicate 32 0, s_has_ckr = False,
     s_chain_key_recv = replicate 32 0, s_ns = 0, s_nr = 0, s_pn = 0, s_skipped = []\<rparr>"

definition kMaxAliasBytes :: nat where
  "kMaxAliasBytes = 128"

definition kMaxAcceptedHandshakes :: nat where
  "kMaxAcceptedHandshakes = 512"

definition kMaxSpqrState :: nat where
  "kMaxSpqrState = 8 * 1024 * 1024"

section \<open>Writers\<close>

text \<open>\<open>w.u8(b ? 1 : 0)\<close>.\<close>

definition put_bool :: "bool \<Rightarrow> bytes result" where
  "put_bool b = put_u8 (if b then 1 else 0)"

definition write_pq_prekey :: "pq_prekey \<Rightarrow> bytes result" where
  "write_pq_prekey k = catR [
     put_u32 (pqk_id k), put_bytes (pq_public (pqk_key k)), put_bytes (pq_seed (pqk_key k)),
     put_u64 (pqk_created_at k)]"

definition write_signed_prekey :: "signed_prekey \<Rightarrow> bytes result" where
  "write_signed_prekey k = catR [
     put_u32 (spk_id k), put_bytes (spk_pub k), put_bytes (spk_sk k), put_bytes (spk_signature k),
     put_u64 (spk_created_at k)]"

definition write_one_time_prekey :: "one_time_prekey \<Rightarrow> bytes result" where
  "write_one_time_prekey k = catR [put_u32 (otpk_id k), put_bytes (otpk_pub k), put_bytes (otpk_sk k)]"

definition write_peer_otpk :: "peer_otpk \<Rightarrow> bytes result" where
  "write_peer_otpk k = catR [put_u32 (po_id k), put_bytes (po_pub k)]"

definition write_peer_pq_prekey :: "peer_pq_prekey \<Rightarrow> bytes result" where
  "write_peer_pq_prekey k = catR [put_u32 (pp_id k), put_bytes (pp_pub k)]"

definition write_pq_bundle :: "peer_pq_bundle \<Rightarrow> bytes result" where
  "write_pq_bundle b = catR [
     write_peer_pq_prekey (pqb_signed_prekey b), put_bytes (pqb_ed_signature b),
     put_bytes (pqb_pq_signature b), put_counted write_peer_pq_prekey (pqb_one_time_prekeys b)]"

definition write_peer_card :: "peer_card \<Rightarrow> bytes result" where
  "write_peer_card c = catR [
     put_u8 (suite_code (pc_maximum_suite c)), put_u32 (pc_spk_id c), put_bytes (pc_spk_pub c),
     put_bytes (pc_spk_signature c), put_counted write_peer_otpk (pc_one_time_prekeys c),
     put_bytes (pc_pq_identity_pub c), put_flagged write_pq_bundle (pc_pq_bundle c)]"

definition write_contact :: "contact \<Rightarrow> bytes result" where
  "write_contact c = catR [
     put_str (c_alias c), put_bytes (c_identity_pub c), put_bool (c_verified c),
     put_u8 (suite_code (c_minimum_suite c)), put_flagged write_peer_card (c_card c)]"

definition write_skipped_key :: "skipped_key \<Rightarrow> bytes result" where
  "write_skipped_key k = catR [
     put_bytes (sk_dh_pub k), put_u32 (sk_n k), put_bytes (sk_message_key k), put_u64 (sk_created_at k)]"

definition write_session :: "session \<Rightarrow> bytes result" where
  "write_session s = catR [
     put_u32 (word_of_nat (s_contact_index s)), put_u8 (suite_code (s_suite s)),
     put_u8 (status_code (s_status s)), put_bytes (s_session_id s), put_bool (s_legacy_read_only s),
     (if length (s_spqr_state s) > kMaxSpqrState then Inl (StoreError SpqrStateTooLong)
      else put_blob (s_spqr_state s)),
     put_bytes (s_root_key s),
     put_bool (s_has_dhs s), put_bytes (s_dhs_sk s), put_bytes (s_dhs_pub s),
     put_bool (s_has_dhr s), put_bytes (s_dhr_pub s),
     put_bool (s_has_cks s), put_bytes (s_chain_key_send s),
     put_bool (s_has_ckr s), put_bytes (s_chain_key_recv s),
     put_u32 (s_ns s), put_u32 (s_nr s), put_u32 (s_pn s),
     put_counted write_skipped_key (s_skipped s)]"

definition write_handshake :: "accepted_handshake \<Rightarrow> bytes result" where
  "write_handshake h = catR [
     put_bytes (ah_initiator_identity h), put_bytes (ah_ephemeral_pub h), put_u64 (ah_accepted_at h),
     put_u32 (ah_spk_id h)]"

text \<open>The four characters \<open>RSTR\<close>.\<close>

definition kStoreMagic :: bytes where
  "kStoreMagic = [0x52, 0x53, 0x54, 0x52]"

lemma length_kStoreMagic [simp]: "length kStoreMagic = 4"
  by (simp add: kStoreMagic_def)

definition kStoreVersion :: byte where
  "kStoreVersion = 10"

definition serialize :: "vault_store \<Rightarrow> bytes result" where
  "serialize v = catR [
     put_bytes kStoreMagic, put_u8 kStoreVersion,
     put_bytes (v_vault_id v), put_u64 (v_generation v), put_bytes (v_previous_digest v),
     put_bytes (v_seed v),
     put_u32 (v_next_spk_id v), put_counted write_signed_prekey (v_signed_prekeys v),
     put_u32 (v_next_otpk_id v), put_counted write_one_time_prekey (v_one_time_prekeys v),
     put_u32 (v_next_pq_prekey_id v), put_counted write_pq_prekey (v_pq_signed_prekeys v),
     put_counted write_pq_prekey (v_pq_one_time_prekeys v),
     put_counted write_contact (v_contacts v), put_counted write_session (v_sessions v),
     put_counted write_handshake (v_accepted_handshakes v)]"

section \<open>Readers\<close>

definition get_bool :: "bytes \<Rightarrow> (bool \<times> bytes) result" where
  "get_bool zs = bindR (get_u8 zs) (\<lambda>(b, zs). Inr (b \<noteq> 0, zs))"

text \<open>\<open>if (r.u8() != 0) x = read(r);\<close>\<close>

definition get_optional ::
  "(bytes \<Rightarrow> ('a \<times> bytes) result) \<Rightarrow> bytes \<Rightarrow> ('a option \<times> bytes) result" where
  "get_optional get zs = bindR (get_bool zs) (\<lambda>(b, zs).
     if b then bindR (get zs) (\<lambda>(x, zs). Inr (Some x, zs)) else Inr (None, zs))"

text \<open>A field that stores before some version do not have.\<close>

definition since :: "bool \<Rightarrow> (bytes \<Rightarrow> ('a \<times> bytes) result) \<Rightarrow> 'a \<Rightarrow> bytes \<Rightarrow> ('a \<times> bytes) result" where
  "since present get d zs = (if present then get zs else Inr (d, zs))"

definition read_pq_prekey :: "prims \<Rightarrow> bytes \<Rightarrow> (pq_prekey \<times> bytes) result" where
  "read_pq_prekey p zs =
     bindR (get_u32 zs) (\<lambda>(i, zs).
     bindR (get_bytes 1184 zs) (\<lambda>(pub, zs).
     bindR (get_bytes 64 zs) (\<lambda>(seed, zs).
     bindR (get_u64 zs) (\<lambda>(t, zs).
     bindR (ml_kem_768_from_seed p seed) (\<lambda>reconstructed.
       if pq_public reconstructed \<noteq> pub then Inl (StoreError PqKeyMismatch)
       else Inr (\<lparr>pqk_id = i, pqk_key = \<lparr>pq_public = pub, pq_seed = seed\<rparr>, pqk_created_at = t\<rparr>, zs))))))"

definition read_signed_prekey :: "byte \<Rightarrow> bytes \<Rightarrow> (signed_prekey \<times> bytes) result" where
  "read_signed_prekey version zs =
     bindR (get_u32 zs) (\<lambda>(i, zs).
     bindR (get_bytes 32 zs) (\<lambda>(pub, zs).
     bindR (get_bytes 32 zs) (\<lambda>(sk, zs).
     bindR (get_bytes 64 zs) (\<lambda>(sig, zs).
     bindR (since (version \<ge> 2) get_u64 0 zs) (\<lambda>(t, zs).
     Inr (\<lparr>spk_id = i, spk_pub = pub, spk_sk = sk, spk_signature = sig, spk_created_at = t\<rparr>, zs))))))"

definition read_one_time_prekey :: "bytes \<Rightarrow> (one_time_prekey \<times> bytes) result" where
  "read_one_time_prekey zs =
     bindR (get_u32 zs) (\<lambda>(i, zs).
     bindR (get_bytes 32 zs) (\<lambda>(pub, zs).
     bindR (get_bytes 32 zs) (\<lambda>(sk, zs).
     Inr (\<lparr>otpk_id = i, otpk_pub = pub, otpk_sk = sk\<rparr>, zs))))"

definition read_peer_otpk :: "bytes \<Rightarrow> (peer_otpk \<times> bytes) result" where
  "read_peer_otpk zs =
     bindR (get_u32 zs) (\<lambda>(i, zs).
     bindR (get_bytes 32 zs) (\<lambda>(pub, zs).
     Inr (\<lparr>po_id = i, po_pub = pub\<rparr>, zs)))"

definition read_peer_pq_prekey :: "bytes \<Rightarrow> (peer_pq_prekey \<times> bytes) result" where
  "read_peer_pq_prekey zs =
     bindR (get_u32 zs) (\<lambda>(i, zs).
     bindR (get_bytes 1184 zs) (\<lambda>(pub, zs).
     Inr (\<lparr>pp_id = i, pp_pub = pub\<rparr>, zs)))"

definition read_pq_bundle :: "bytes \<Rightarrow> (peer_pq_bundle \<times> bytes) result" where
  "read_pq_bundle zs =
     bindR (read_peer_pq_prekey zs) (\<lambda>(spk, zs).
     bindR (get_bytes 64 zs) (\<lambda>(ed, zs).
     bindR (get_bytes 3309 zs) (\<lambda>(pq, zs).
     bindR (get_counted read_peer_pq_prekey zs) (\<lambda>(ots, zs).
     Inr (\<lparr>pqb_signed_prekey = spk, pqb_ed_signature = ed, pqb_pq_signature = pq,
           pqb_one_time_prekeys = ots\<rparr>, zs)))))"

definition get_suite :: "error \<Rightarrow> bytes \<Rightarrow> (protocol_suite \<times> bytes) result" where
  "get_suite e zs = bindR (get_u8 zs) (\<lambda>(code, zs).
     if \<not> known_suite code then Inl e
     else bindR (of_option e (suite_of_code code)) (\<lambda>s. Inr (s, zs)))"

definition read_peer_card :: "byte \<Rightarrow> bytes \<Rightarrow> (peer_card \<times> bytes) result" where
  "read_peer_card version zs =
     bindR (if version \<ge> 9 then get_suite (StoreError BadCardSuite) zs
            else Inr (if version \<ge> 7 then HybridPqxdhV1 else ClassicV2, zs)) (\<lambda>(suite, zs).
     bindR (get_u32 zs) (\<lambda>(i, zs).
     bindR (get_bytes 32 zs) (\<lambda>(pub, zs).
     bindR (get_bytes 64 zs) (\<lambda>(sig, zs).
     bindR (get_counted read_peer_otpk zs) (\<lambda>(ots, zs).
     bindR (since (version \<ge> 7) (get_bytes 1952) (replicate 1952 0) zs) (\<lambda>(pqid, zs).
     bindR (since (version \<ge> 7) (get_optional read_pq_bundle) None zs) (\<lambda>(bundle, zs).
     Inr (\<lparr>pc_maximum_suite = suite, pc_spk_id = i, pc_spk_pub = pub, pc_spk_signature = sig,
           pc_one_time_prekeys = ots, pc_pq_identity_pub = pqid, pc_pq_bundle = bundle\<rparr>, zs))))))))"

definition read_contact :: "byte \<Rightarrow> bytes \<Rightarrow> (contact \<times> bytes) result" where
  "read_contact version zs =
     bindR (get_str zs) (\<lambda>(alias, zs).
       if alias = [] \<or> length alias > kMaxAliasBytes then Inl (StoreError BadAliasLength) else
     bindR (get_bytes 32 zs) (\<lambda>(ik, zs).
     bindR (get_bool zs) (\<lambda>(verified, zs).
     bindR (since (version \<ge> 6) (get_suite (StoreError BadMinimumSuite)) ClassicV2 zs) (\<lambda>(suite, zs).
     bindR (get_optional (read_peer_card version) zs) (\<lambda>(card, zs).
     Inr (\<lparr>c_alias = alias, c_identity_pub = ik, c_verified = verified, c_minimum_suite = suite,
           c_card = card\<rparr>, zs))))))"

definition read_skipped_key :: "u64 \<Rightarrow> byte \<Rightarrow> bytes \<Rightarrow> (skipped_key \<times> bytes) result" where
  "read_skipped_key now version zs =
     bindR (get_bytes 32 zs) (\<lambda>(dh, zs).
     bindR (get_u32 zs) (\<lambda>(n, zs).
     bindR (get_bytes 32 zs) (\<lambda>(mk, zs).
     bindR (since (version \<ge> 3) get_u64 now zs) (\<lambda>(t, zs).
     Inr (\<lparr>sk_dh_pub = dh, sk_n = n, sk_message_key = mk, sk_created_at = t\<rparr>, zs)))))"

definition get_suite_status :: "bytes \<Rightarrow> ((protocol_suite \<times> session_status) \<times> bytes) result" where
  "get_suite_status zs =
     bindR (get_u8 zs) (\<lambda>(suite, zs).
     bindR (get_u8 zs) (\<lambda>(status, zs).
       if \<not> known_suite suite \<or> status < 1 \<or> status > 3 then Inl (StoreError BadSessionState)
       else bindR (of_option (StoreError BadSessionState) (suite_of_code suite)) (\<lambda>su.
            bindR (of_option (StoreError BadSessionState) (status_of_code status)) (\<lambda>st.
            Inr ((su, st), zs)))))"

definition read_session :: "u64 \<Rightarrow> byte \<Rightarrow> bytes \<Rightarrow> (session \<times> bytes) result" where
  "read_session now version zs =
     bindR (get_u32 zs) (\<lambda>(ci, zs).
     bindR (since (version \<ge> 6) get_suite_status (ClassicV2, Pending) zs) (\<lambda>((suite, status), zs).
     bindR (since (version \<ge> 6) (get_bytes 32) (replicate 32 0) zs) (\<lambda>(sid, zs).
     bindR (since (version \<ge> 8) get_bool False zs) (\<lambda>(legacy, zs).
     bindR (since (version \<ge> 9) (get_secure_blob kMaxSpqrState) [] zs) (\<lambda>(spqr, zs).
     bindR (get_bytes 32 zs) (\<lambda>(root, zs).
     bindR (get_bool zs) (\<lambda>(hdhs, zs).
     bindR (get_bytes 32 zs) (\<lambda>(dhs_sk, zs).
     bindR (get_bytes 32 zs) (\<lambda>(dhs_pub, zs).
     bindR (get_bool zs) (\<lambda>(hdhr, zs).
     bindR (get_bytes 32 zs) (\<lambda>(dhr, zs).
     bindR (get_bool zs) (\<lambda>(hcks, zs).
     bindR (get_bytes 32 zs) (\<lambda>(cks, zs).
     bindR (get_bool zs) (\<lambda>(hckr, zs).
     bindR (get_bytes 32 zs) (\<lambda>(ckr, zs).
     bindR (get_u32 zs) (\<lambda>(ns, zs).
     bindR (get_u32 zs) (\<lambda>(nr, zs).
     bindR (get_u32 zs) (\<lambda>(pn, zs).
     bindR (get_counted (read_skipped_key now version) zs) (\<lambda>(sks, zs).
     Inr (\<lparr>s_contact_index = unat ci, s_suite = suite, s_status = status, s_session_id = sid,
           s_legacy_read_only = legacy, s_spqr_state = spqr, s_root_key = root, s_has_dhs = hdhs,
           s_dhs_sk = dhs_sk, s_dhs_pub = dhs_pub, s_has_dhr = hdhr, s_dhr_pub = dhr,
           s_has_cks = hcks, s_chain_key_send = cks, s_has_ckr = hckr, s_chain_key_recv = ckr,
           s_ns = ns, s_nr = nr, s_pn = pn, s_skipped = sks\<rparr>, zs))))))))))))))))))))"

definition read_handshake :: "byte \<Rightarrow> bytes \<Rightarrow> (accepted_handshake \<times> bytes) result" where
  "read_handshake version zs =
     bindR (get_bytes 32 zs) (\<lambda>(ik, zs).
     bindR (get_bytes 32 zs) (\<lambda>(ek, zs).
     bindR (get_u64 zs) (\<lambda>(t, zs).
     bindR (since (version \<ge> 10) get_u32 0 zs) (\<lambda>(i, zs).
     Inr (\<lparr>ah_initiator_identity = ik, ah_ephemeral_pub = ek, ah_accepted_at = t, ah_spk_id = i\<rparr>, zs)))))"

definition store_parse :: "prims \<Rightarrow> u64 \<Rightarrow> bytes \<Rightarrow> vault_store result" where
  "store_parse p now data =
     bindR (get_bytes 4 data) (\<lambda>(magic, zs).
       if magic \<noteq> kStoreMagic then Inl (StoreError BadStoreMagic) else
     bindR (get_u8 zs) (\<lambda>(version, zs).
       if version < 1 \<or> version > kStoreVersion then Inl (StoreError BadStoreVersion) else
     bindR (since (version \<ge> 5) (get_bytes 16) (replicate 16 0) zs) (\<lambda>(vid, zs).
     bindR (since (version \<ge> 5) get_u64 0 zs) (\<lambda>(gen, zs).
     bindR (since (version \<ge> 5) (get_bytes 32) (replicate 32 0) zs) (\<lambda>(prev, zs).
     bindR (get_bytes 32 zs) (\<lambda>(seed, zs).
     bindR (get_u32 zs) (\<lambda>(nspk, zs).
     bindR (get_counted (read_signed_prekey version) zs) (\<lambda>(spks, zs).
     bindR (get_u32 zs) (\<lambda>(notpk, zs).
     bindR (get_counted read_one_time_prekey zs) (\<lambda>(otpks, zs).
     bindR (since (version \<ge> 7) get_u32 1 zs) (\<lambda>(npq, zs).
     bindR (since (version \<ge> 7) (get_counted (read_pq_prekey p)) [] zs) (\<lambda>(pqs, zs).
     bindR (since (version \<ge> 7) (get_counted (read_pq_prekey p)) [] zs) (\<lambda>(pqo, zs).
     bindR (get_counted (read_contact version) zs) (\<lambda>(cs, zs).
     bindR (get_counted (read_session now version) zs) (\<lambda>(ss, zs).
     bindR (since (version \<ge> 4) (get_counted (read_handshake version)) [] zs) (\<lambda>(hs, zs).
       if zs \<noteq> [] then Inl (StoreError StoreTrailing) else
     Inr \<lparr>v_vault_id = vid, v_generation = gen, v_previous_digest = prev, v_seed = seed,
          v_next_spk_id = nspk, v_signed_prekeys = spks, v_next_otpk_id = notpk,
          v_one_time_prekeys = otpks, v_next_pq_prekey_id = npq, v_pq_signed_prekeys = pqs,
          v_pq_one_time_prekeys = pqo, v_contacts = cs, v_sessions = ss,
          v_accepted_handshakes = hs\<rparr>))))))))))))))))"

section \<open>Operations on the store\<close>

definition find_contact :: "vault_store \<Rightarrow> string \<Rightarrow> nat option" where
  "find_contact v alias = find_index (\<lambda>c. c_alias c = alias) (v_contacts v)"

definition find_contact_by_identity :: "vault_store \<Rightarrow> bytes \<Rightarrow> nat option" where
  "find_contact_by_identity v ik = find_index (\<lambda>c. c_identity_pub c = ik) (v_contacts v)"

definition find_session :: "vault_store \<Rightarrow> nat \<Rightarrow> nat option" where
  "find_session v ci = find_index (\<lambda>s. s_contact_index s = ci) (v_sessions v)"

definition handshake_already_accepted :: "vault_store \<Rightarrow> bytes \<Rightarrow> bytes \<Rightarrow> bool" where
  "handshake_already_accepted v initiator ek \<longleftrightarrow>
     list_ex (\<lambda>h. ah_ephemeral_pub h = ek \<and> ah_initiator_identity h = initiator) (v_accepted_handshakes v)"

definition spent_handshake :: "vault_store \<Rightarrow> accepted_handshake \<Rightarrow> bool" where
  "spent_handshake v h \<longleftrightarrow>
     ah_spk_id h \<noteq> 0 \<and> \<not> list_ex (\<lambda>k. spk_id k = ah_spk_id h) (v_signed_prekeys v)"

text \<open>The store without its spent records, and how many were removed.\<close>

definition prune_old_handshakes :: "vault_store \<Rightarrow> vault_store \<times> nat" where
  "prune_old_handshakes v =
     (let kept = filter (\<lambda>h. \<not> spent_handshake v h) (v_accepted_handshakes v)
      in (v\<lparr>v_accepted_handshakes := kept\<rparr>, length (v_accepted_handshakes v) - length kept))"

text \<open>The store as it is left, and the result.\<close>

definition remember_handshake ::
  "vault_store \<Rightarrow> bytes \<Rightarrow> bytes \<Rightarrow> u64 \<Rightarrow> u32 \<Rightarrow> vault_store \<times> unit result" where
  "remember_handshake v initiator ek now i =
     (if handshake_already_accepted v initiator ek then (v, Inr ())
      else let v1 = (if length (v_accepted_handshakes v) \<ge> kMaxAcceptedHandshakes
                     then fst (prune_old_handshakes v) else v)
           in if length (v_accepted_handshakes v1) \<ge> kMaxAcceptedHandshakes
              then (v1, Inl (StoreError HistoryFull))
              else (v1\<lparr>v_accepted_handshakes := v_accepted_handshakes v1 @
                       [\<lparr>ah_initiator_identity = initiator, ah_ephemeral_pub = ek,
                         ah_accepted_at = now, ah_spk_id = i\<rparr>]\<rparr>, Inr ()))"

text \<open>A field by field copy; the fields the C++ function does not mention keep their default.\<close>

definition clone_session :: "session \<Rightarrow> session" where
  "clone_session s = session_default\<lparr>
     s_contact_index := s_contact_index s, s_suite := s_suite s, s_status := s_status s,
     s_session_id := s_session_id s, s_legacy_read_only := s_legacy_read_only s,
     s_spqr_state := s_spqr_state s, s_root_key := s_root_key s,
     s_has_dhs := s_has_dhs s, s_dhs_sk := s_dhs_sk s, s_dhs_pub := s_dhs_pub s,
     s_has_dhr := s_has_dhr s, s_dhr_pub := s_dhr_pub s,
     s_has_cks := s_has_cks s, s_chain_key_send := s_chain_key_send s,
     s_has_ckr := s_has_ckr s, s_chain_key_recv := s_chain_key_recv s,
     s_ns := s_ns s, s_nr := s_nr s, s_pn := s_pn s,
     s_skipped := map (\<lambda>k. \<lparr>sk_dh_pub = sk_dh_pub k, sk_n = sk_n k,
       sk_message_key = sk_message_key k, sk_created_at = sk_created_at k\<rparr>) (s_skipped s)\<rparr>"

section \<open>Lemmas on the operations\<close>

lemma clone_session_id [simp]: "clone_session s = s"
proof -
  have "map (\<lambda>k. \<lparr>sk_dh_pub = sk_dh_pub k, sk_n = sk_n k, sk_message_key = sk_message_key k,
      sk_created_at = sk_created_at k\<rparr>) ks = ks" for ks :: "skipped_key list"
    by (rule map_idI) simp
  then show ?thesis
    by (simp add: clone_session_def session_default_def)
qed

lemma find_session_Some:
  "find_session v ci = Some i \<Longrightarrow> i < length (v_sessions v) \<and> s_contact_index (v_sessions v ! i) = ci"
  unfolding find_session_def by (drule find_index_Some) simp

lemma handshake_already_accepted_iff:
  "handshake_already_accepted v ik ek \<longleftrightarrow>
     (\<exists>h \<in> set (v_accepted_handshakes v). ah_ephemeral_pub h = ek \<and> ah_initiator_identity h = ik)"
  by (auto simp: handshake_already_accepted_def list_ex_iff)

lemma spent_handshake_iff:
  "spent_handshake v h \<longleftrightarrow> ah_spk_id h \<noteq> 0 \<and> ah_spk_id h \<notin> spk_id ` set (v_signed_prekeys v)"
  by (force simp: spent_handshake_def list_ex_iff image_iff)

text \<open>Pruning changes the handshake list only, and removes exactly the spent records.\<close>

lemma prune_fst:
  "fst (prune_old_handshakes v) =
     v\<lparr>v_accepted_handshakes := filter (\<lambda>h. \<not> spent_handshake v h) (v_accepted_handshakes v)\<rparr>"
  by (simp add: prune_old_handshakes_def Let_def)

lemma prune_snd:
  "snd (prune_old_handshakes v) = length (filter (spent_handshake v) (v_accepted_handshakes v))"
  using sum_length_filter_compl [of "spent_handshake v" "v_accepted_handshakes v"]
  by (simp add: prune_old_handshakes_def Let_def)

lemma length_prune: "length (v_accepted_handshakes (fst (prune_old_handshakes v))) \<le> length (v_accepted_handshakes v)"
  by (simp add: prune_fst)

lemma prune_idem: "fst (prune_old_handshakes (fst (prune_old_handshakes v))) = fst (prune_old_handshakes v)"
  by (simp add: prune_fst spent_handshake_def)

text \<open>What \<open>remember_handshake\<close> can leave behind.\<close>

lemma remember_handshake_cases:
  assumes "remember_handshake v ik ek now i = (v', r)"
  obtains (known) "handshake_already_accepted v ik ek" "v' = v" "r = Inr ()"
  | (full) "\<not> handshake_already_accepted v ik ek" "v' = fst (prune_old_handshakes v)"
      "length (v_accepted_handshakes v') \<ge> 512" "r = Inl (StoreError HistoryFull)"
  | (added) v1 where "\<not> handshake_already_accepted v ik ek"
      "v1 = v \<or> v1 = fst (prune_old_handshakes v)"
      "length (v_accepted_handshakes v1) < 512"
      "v' = v1\<lparr>v_accepted_handshakes := v_accepted_handshakes v1 @
         [\<lparr>ah_initiator_identity = ik, ah_ephemeral_pub = ek, ah_accepted_at = now, ah_spk_id = i\<rparr>]\<rparr>"
      "r = Inr ()"
  using assms unfolding remember_handshake_def kMaxAcceptedHandshakes_def Let_def
  by (fastforce split: if_splits)

lemma remember_handshake_bound:
  assumes "remember_handshake v ik ek now i = (v', r)" and "length (v_accepted_handshakes v) \<le> 512"
  shows "length (v_accepted_handshakes v') \<le> 512"
  using assms(1)
proof (cases rule: remember_handshake_cases)
  case full
  with assms(2) length_prune [of v] show ?thesis
    by simp
qed (use assms(2) in simp_all)

lemma remember_handshake_recorded:
  assumes "remember_handshake v ik ek now i = (v', Inr ())"
  shows "handshake_already_accepted v' ik ek"
  using assms by (cases rule: remember_handshake_cases) (auto simp: handshake_already_accepted_iff)

text \<open>No record whose prekey is still stored is ever forgotten.\<close>

lemma remember_handshake_keeps:
  assumes "remember_handshake v ik ek now i = (v', r)"
    and "h \<in> set (v_accepted_handshakes v)" and "\<not> spent_handshake v h"
  shows "h \<in> set (v_accepted_handshakes v')"
  using assms(1)
proof (cases rule: remember_handshake_cases)
  case (added v1)
  with assms(2,3) show ?thesis
    by (auto simp: prune_fst)
qed (use assms(2,3) in \<open>auto simp: prune_fst\<close>)

section \<open>Properties\<close>

text \<open>The replay guard never loses ground: recording a handshake keeps the history within 512
  entries, never drops a record whose signed prekey is still stored or unknown, and after a success
  the handshake is in the history; a full history is refused, not rotated.\<close>

theorem replay_history_guarded:
  assumes "remember_handshake v ik ek now i = (v', r)" and "length (v_accepted_handshakes v) \<le> 512"
  shows "length (v_accepted_handshakes v') \<le> 512 \<and>
    (\<forall>h. h \<in> set (v_accepted_handshakes v) \<and>
         (ah_spk_id h = 0 \<or> ah_spk_id h \<in> spk_id ` set (v_signed_prekeys v)) \<longrightarrow>
         h \<in> set (v_accepted_handshakes v')) \<and>
    (r = Inr () \<and> handshake_already_accepted v' ik ek \<or>
     r = Inl (StoreError HistoryFull) \<and> v' = fst (prune_old_handshakes v) \<and>
       length (v_accepted_handshakes v') = 512)"
proof -
  note b = remember_handshake_bound [OF assms]
  have "h \<in> set (v_accepted_handshakes v')"
    if "h \<in> set (v_accepted_handshakes v)" "ah_spk_id h = 0 \<or> ah_spk_id h \<in> spk_id ` set (v_signed_prekeys v)" for h
    by (rule remember_handshake_keeps [OF assms(1)]) (use that in \<open>auto simp: spent_handshake_iff\<close>)
  moreover have "r = Inr () \<and> handshake_already_accepted v' ik ek \<or>
     r = Inl (StoreError HistoryFull) \<and> v' = fst (prune_old_handshakes v) \<and>
       length (v_accepted_handshakes v') = 512"
    using assms(1)
  proof (cases rule: remember_handshake_cases)
    case full
    with b show ?thesis
      by simp
  qed (auto simp: handshake_already_accepted_iff)
  ultimately show ?thesis
    using b by blast
qed

text \<open>A store for the witnesses.\<close>

definition sample_store :: vault_store where
  "sample_store = \<lparr>v_vault_id = replicate 16 1, v_generation = 5, v_previous_digest = replicate 32 2,
     v_seed = replicate 32 3, v_next_spk_id = 3,
     v_signed_prekeys = [\<lparr>spk_id = 2, spk_pub = replicate 32 4, spk_sk = replicate 32 4,
       spk_signature = replicate 64 5, spk_created_at = 1000\<rparr>],
     v_next_otpk_id = 8, v_one_time_prekeys = [\<lparr>otpk_id = 7, otpk_pub = replicate 32 6, otpk_sk = replicate 32 6\<rparr>],
     v_next_pq_prekey_id = 1, v_pq_signed_prekeys = [], v_pq_one_time_prekeys = [],
     v_contacts = [\<lparr>c_alias = ''bob'', c_identity_pub = replicate 32 7, c_verified = True,
       c_minimum_suite = HybridPqxdhV1, c_card = None\<rparr>],
     v_sessions = [session_default],
     v_accepted_handshakes = [\<lparr>ah_initiator_identity = replicate 32 7, ah_ephemeral_pub = replicate 32 8,
       ah_accepted_at = 900, ah_spk_id = 2\<rparr>]\<rparr>"

lemma replay_history_guarded_witness:
  "handshake_already_accepted
     (fst (remember_handshake sample_store (replicate 32 7) (replicate 32 9) 1100 2))
     (replicate 32 7) (replicate 32 9)"
proof -
  obtain v' r where r: "remember_handshake sample_store (replicate 32 7) (replicate 32 9) 1100 2 = (v', r)"
    by fastforce
  then have "r = Inr ()"
    by (auto simp: remember_handshake_def sample_store_def kMaxAcceptedHandshakes_def Let_def split: if_splits)
  moreover have "length (v_accepted_handshakes sample_store) \<le> 512"
    by (simp add: sample_store_def)
  ultimately show ?thesis
    using replay_history_guarded [OF r] r by simp
qed

end
