(* ===== verification/Ratchet.thy ===== *)
theory Ratchet
  imports Store
begin

text \<open>
  \<open>src/ratchet.cpp\<close> and \<open>src/triple_ratchet.cpp\<close>: the Double Ratchet on the \<open>session\<close> record and
  the key combiner of the Triple Ratchet. \<open>decrypt_in_place\<close> is a mutating computation, so its
  intermediate states are visible; \<open>decrypt\<close> runs it on a copy.

  The plaintext (a \<open>std::string\<close>) is a byte list. The nonce of an encryption and the random bytes
  of a new key pair are arguments; \<open>clk k\<close> is the value of the \<open>k\<close>-th call of \<open>std::time\<close> within
  one \<open>decrypt\<close> (0 for the expiry, 1 and 2 for the two calls of \<open>skip_message_keys\<close>).
\<close>

section \<open>Key derivation\<close>

definition kMaxSkip :: nat where
  "kMaxSkip = 1000"

definition kSkippedKeyMaxAgeSeconds :: u64 where
  "kSkippedKeyMaxAgeSeconds = 7 * 24 * 60 * 60"

definition kRootInfo :: string where
  "kRootInfo = ''Ratchet-USB/v1/ratchet-root''"

text \<open>The new root key and the chain key.\<close>

definition kdf_rk :: "prims \<Rightarrow> bytes \<Rightarrow> bytes \<Rightarrow> (bytes \<times> bytes) result" where
  "kdf_rk p rk dh_out =
     bindR (hkdf_expand p 64 (bytes_of_string kRootInfo) (hkdf_extract p rk dh_out)) (\<lambda>okm.
     Inr (take 32 okm, take 32 (drop 32 okm)))"

text \<open>The next chain key and the message key.\<close>

definition kdf_ck :: "prims \<Rightarrow> bytes \<Rightarrow> bytes \<times> bytes" where
  "kdf_ck p ck = (hmac_sha256 p ck [0x02], hmac_sha256 p ck [0x01])"

section \<open>The Triple Ratchet combiner\<close>

definition kProtocolInfo :: string where
  "kProtocolInfo = ''Ratchet-USB/v3/TripleRatchet/X25519+ML-KEM-768''"

definition kInitialInfo :: string where
  "kInitialInfo = ''Ratchet-USB/v3/TripleRatchet/X25519+ML-KEM-768/InitialSplit''"

definition split_initial_secret :: "prims \<Rightarrow> bytes \<Rightarrow> (bytes \<times> bytes) result" where
  "split_initial_secret p secret =
     bindR (hkdf_expand p 64 (bytes_of_string kInitialInfo)
              (hkdf_extract p (replicate 32 0) secret)) (\<lambda>out.
     Inr (take 32 out, take 32 (drop 32 out)))"

definition combine_message_keys :: "prims \<Rightarrow> bytes \<Rightarrow> bytes \<Rightarrow> bytes result" where
  "combine_message_keys p ec_key pq_key =
     hkdf_expand p 32 (bytes_of_string kProtocolInfo) (hkdf_extract p pq_key ec_key)"

text \<open>\<open>if (pq_message_key) combine(...) else aead_key.assign(mk)\<close>, as both directions do.\<close>

definition message_aead_key :: "prims \<Rightarrow> bytes \<Rightarrow> bytes option \<Rightarrow> bytes result" where
  "message_aead_key p mk pq_message_key =
     (case pq_message_key of Some k \<Rightarrow> combine_message_keys p mk k | None \<Rightarrow> Inr mk)"

section \<open>Padding and the AEAD\<close>

definition padded_payload_size :: "nat \<Rightarrow> nat result" where
  "padded_payload_size raw_len =
     (if raw_len > kMaxPlaintextBytes then Inl (RatchetError PlaintextTooLong)
      else let needed = raw_len + 1
           in if needed \<le> 128 then Inr 128
              else if needed \<le> 256 then Inr 256
              else if needed \<le> 512 then Inr 512
              else if needed \<le> 1024 then Inr 1024
              else if needed \<le> 2048 then Inr 2048
              else Inr ((needed + 1024 - 1) div 1024 * 1024))"

definition aead_encrypt :: "prims \<Rightarrow> bytes \<Rightarrow> bytes \<Rightarrow> bytes \<Rightarrow> bytes \<Rightarrow> bytes result" where
  "aead_encrypt p nonce mk plaintext aad =
     bindR (padded_payload_size (length plaintext)) (\<lambda>target_len.
       if length plaintext > target_len then Inl (RatchetError PlaintextTooLong)
       else let padded = plaintext @ [0x80] @ replicate (target_len - (length plaintext + 1)) 0
            in bindR (of_option (RatchetError EncryptionFailed) (aead_seal p mk nonce aad padded)) (\<lambda>ct.
               Inr (nonce @ ct)))"

text \<open>The loop \<open>while (i > 0 && pt[i - 1] == 0) --i;\<close>.\<close>

fun skip_zeros :: "bytes \<Rightarrow> nat \<Rightarrow> nat" where
  "skip_zeros pt 0 = 0"
| "skip_zeros pt (Suc i) = (if pt ! i = 0 then skip_zeros pt i else Suc i)"

definition unpad :: "bytes \<Rightarrow> bytes result" where
  "unpad pt =
     (if length pt = 0 \<or> pt ! (length pt - 1) \<noteq> 0 \<and> pt ! (length pt - 1) \<noteq> 0x80
      then Inl (RatchetError BadPadding)
      else let i = skip_zeros pt (length pt)
           in if i = 0 \<or> pt ! (i - 1) \<noteq> 0x80 then Inl (RatchetError BadPadding)
              else Inr (take (i - 1) pt))"

definition aead_decrypt :: "prims \<Rightarrow> bytes \<Rightarrow> bytes \<Rightarrow> bytes \<Rightarrow> bytes result" where
  "aead_decrypt p mk env aad =
     (if length env < 12 + 16 then Inl (RatchetError CiphertextTooShort)
      else bindR (of_option (RatchetError AuthenticationFailed)
                    (aead_open p mk (take 12 env) aad (drop 12 env))) unpad)"

section \<open>Ratchet steps\<close>

text \<open>\<open>kdf_rk(s.root_key, dh(s.dhs_sk, s.dhr_pub), s.root_key, <chain key>)\<close>.\<close>

definition root_step :: "prims \<Rightarrow> session \<Rightarrow> (bytes \<times> bytes) result" where
  "root_step p s = bindR (x25519_dh p (s_dhs_sk s) (s_dhr_pub s)) (kdf_rk p (s_root_key s))"

definition dh_ratchet :: "prims \<Rightarrow> bytes \<Rightarrow> bytes \<Rightarrow> (session, unit) mut" where
  "dh_ratchet p rnd new_dhr_pub =
     bindM (modifyM (\<lambda>s. s\<lparr>s_pn := s_ns s, s_ns := 0, s_nr := 0, s_dhr_pub := new_dhr_pub,
              s_has_dhr := True\<rparr>)) (\<lambda>_.
     bindM (readM (root_step p)) (\<lambda>(rk, ck).
     bindM (modifyM (\<lambda>s. s\<lparr>s_root_key := rk, s_chain_key_recv := ck, s_has_ckr := True\<rparr>)) (\<lambda>_.
     bindM (readM (\<lambda>s. generate_keypair p rnd)) (\<lambda>(pub, sk).
     bindM (modifyM (\<lambda>s. s\<lparr>s_dhs_sk := sk, s_dhs_pub := pub\<rparr>)) (\<lambda>_.
     bindM (readM (root_step p)) (\<lambda>(rk, ck).
     modifyM (\<lambda>s. s\<lparr>s_root_key := rk, s_chain_key_send := ck, s_has_cks := True\<rparr>)))))))"

text \<open>The body of the loop \<open>while (s.nr < until)\<close>.\<close>

definition stash_key :: "prims \<Rightarrow> u64 \<Rightarrow> session \<Rightarrow> session" where
  "stash_key p now s =
     (let (ck, mk) = kdf_ck p (s_chain_key_recv s)
      in s\<lparr>s_chain_key_recv := ck,
           s_skipped := s_skipped s @ [\<lparr>sk_dh_pub = s_dhr_pub s, sk_n = s_nr s, sk_message_key = mk,
                                        sk_created_at = now\<rparr>],
           s_nr := s_nr s + 1\<rparr>)"

lemma stash_key_nr [simp]: "s_nr (stash_key p now s) = s_nr s + 1"
  by (simp add: stash_key_def split: prod.split)

function skip_loop :: "prims \<Rightarrow> u64 \<Rightarrow> u32 \<Rightarrow> session \<Rightarrow> session" where
  "skip_loop p now until s = (if s_nr s < until then skip_loop p now until (stash_key p now s) else s)"
  by pat_completeness auto

termination
proof (relation "measure (\<lambda>(p, now, until, s). unat until - unat (s_nr s))", goal_cases)
  case (2 p now until s)
  then show ?case
    using unat_u32_Suc [of "s_nr s" until] by (simp add: word_less_nat_alt)
qed simp

declare skip_loop.simps [simp del]

definition skip_message_keys :: "prims \<Rightarrow> u64 \<Rightarrow> u32 \<Rightarrow> (session, unit) mut" where
  "skip_message_keys p now until s =
     (if \<not> s_has_ckr s then (s, Inr ())
      else if until < s_nr s then (s, Inr ())
      else let to_skip = unat until - unat (s_nr s)
           in if length (s_skipped s) + to_skip > kMaxSkip then (s, Inl (RatchetError TooManySkipped))
              else (skip_loop p now until s, Inr ()))"

definition stale_key :: "u64 \<Rightarrow> skipped_key \<Rightarrow> bool" where
  "stale_key now k \<longleftrightarrow>
     now > sk_created_at k \<and> now - sk_created_at k > kSkippedKeyMaxAgeSeconds"

text \<open>The session without its stale keys, and how many were dropped.\<close>

definition expire_skipped_keys :: "u64 \<Rightarrow> session \<Rightarrow> session \<times> nat" where
  "expire_skipped_keys now s =
     (let kept = filter (\<lambda>k. \<not> stale_key now k) (s_skipped s)
      in (s\<lparr>s_skipped := kept\<rparr>, length (s_skipped s) - length kept))"

section \<open>Opening a session\<close>

definition init_sender ::
  "prims \<Rightarrow> bytes \<Rightarrow> bytes \<Rightarrow> bytes \<Rightarrow> bytes \<Rightarrow> (session, unit) mut" where
  "init_sender p shared_secret ephemeral_sk ephemeral_pk bob_dh_pub =
     bindM (modifyM (\<lambda>s. s\<lparr>s_dhs_sk := ephemeral_sk, s_dhs_pub := ephemeral_pk, s_has_dhs := True,
              s_dhr_pub := bob_dh_pub, s_has_dhr := True\<rparr>)) (\<lambda>_.
     bindM (readM (\<lambda>s. bindR (x25519_dh p (s_dhs_sk s) (s_dhr_pub s)) (kdf_rk p shared_secret))) (\<lambda>(rk, ck).
     modifyM (\<lambda>s. s\<lparr>s_root_key := rk, s_chain_key_send := ck, s_has_cks := True, s_has_ckr := False,
              s_ns := 0, s_nr := 0, s_pn := 0, s_skipped := []\<rparr>)))"

definition init_receiver :: "bytes \<Rightarrow> bytes \<Rightarrow> bytes \<Rightarrow> session \<Rightarrow> session" where
  "init_receiver shared_secret prekey_sk prekey_pk s =
     s\<lparr>s_dhs_sk := prekey_sk, s_dhs_pub := prekey_pk, s_has_dhs := True, s_has_dhr := False,
       s_root_key := shared_secret, s_has_cks := False, s_has_ckr := False,
       s_ns := 0, s_nr := 0, s_pn := 0, s_skipped := []\<rparr>"

section \<open>Messages\<close>

definition ratchet_encrypt ::
  "prims \<Rightarrow> bytes \<Rightarrow> bytes \<Rightarrow> bytes \<Rightarrow> bytes option \<Rightarrow> (session, ratchet_header \<times> bytes) mut" where
  "ratchet_encrypt p nonce plaintext aad_prefix pq_message_key s =
     (if \<not> s_has_cks s then (s, Inl (RatchetError NoSendingChain))
      else let (new_cks, mk) = kdf_ck p (s_chain_key_send s);
               header = \<lparr>h_dh_pub = s_dhs_pub s, h_pn = s_pn s, h_n = s_ns s\<rparr>;
               s1 = s\<lparr>s_chain_key_send := new_cks, s_ns := s_ns s + 1\<rparr>
           in (s1, bindR (header_aad header) (\<lambda>ratchet_aad.
                   bindR (message_aead_key p mk pq_message_key) (\<lambda>aead_key.
                   bindR (aead_encrypt p nonce aead_key plaintext (aad_prefix @ ratchet_aad)) (\<lambda>ct.
                   Inr (header, ct))))))"

definition cached_key :: "ratchet_header \<Rightarrow> session \<Rightarrow> nat option" where
  "cached_key h s = find_index (\<lambda>k. sk_dh_pub k = h_dh_pub h \<and> sk_n k = h_n h) (s_skipped s)"

text \<open>The branch for a message whose key was stashed: decrypt first, erase second.\<close>

definition decrypt_cached ::
  "prims \<Rightarrow> nat \<Rightarrow> bytes \<Rightarrow> bytes \<Rightarrow> bytes option \<Rightarrow> (session, bytes) mut" where
  "decrypt_cached p i ct aad pq_message_key =
     bindM (readM (\<lambda>s. bindR (message_aead_key p (sk_message_key (s_skipped s ! i)) pq_message_key)
              (\<lambda>k. aead_decrypt p k ct aad))) (\<lambda>plaintext.
     bindM (modifyM (\<lambda>s. s\<lparr>s_skipped := erase_at i (s_skipped s)\<rparr>)) (\<lambda>_.
     returnM plaintext))"

text \<open>The branch for the next message of a chain: catch up, take one step, decrypt.\<close>

definition next_message_key :: "prims \<Rightarrow> (session, bytes) mut" where
  "next_message_key p s =
     (let (new_ckr, mk) = kdf_ck p (s_chain_key_recv s)
      in (s\<lparr>s_chain_key_recv := new_ckr, s_nr := s_nr s + 1\<rparr>, Inr mk))"

definition catch_up ::
  "prims \<Rightarrow> (nat \<Rightarrow> u64) \<Rightarrow> ratchet_header \<Rightarrow> bytes \<Rightarrow> bytes \<Rightarrow> bytes option \<Rightarrow> (session, bytes) mut" where
  "catch_up p clk h ct aad pq_message_key =
     bindM (skip_message_keys p (clk 2) (h_n h)) (\<lambda>_.
     bindM (next_message_key p) (\<lambda>mk.
     readM (\<lambda>s. bindR (message_aead_key p mk pq_message_key) (\<lambda>k. aead_decrypt p k ct aad))))"

definition decrypt_next ::
  "prims \<Rightarrow> (nat \<Rightarrow> u64) \<Rightarrow> bytes \<Rightarrow> ratchet_header \<Rightarrow> bytes \<Rightarrow> bytes \<Rightarrow> bytes option \<Rightarrow> (session, bytes) mut" where
  "decrypt_next p clk rnd h ct aad pq_message_key s =
     (if \<not> s_has_dhr s \<or> h_dh_pub h \<noteq> s_dhr_pub s
      then bindM (skip_message_keys p (clk 1) (h_pn h)) (\<lambda>_.
           bindM (dh_ratchet p rnd (h_dh_pub h)) (\<lambda>_.
           catch_up p clk h ct aad pq_message_key)) s
      else catch_up p clk h ct aad pq_message_key s)"

definition decrypt_in_place ::
  "prims \<Rightarrow> (nat \<Rightarrow> u64) \<Rightarrow> bytes \<Rightarrow> ratchet_header \<Rightarrow> bytes \<Rightarrow> bytes \<Rightarrow> bytes option \<Rightarrow> (session, bytes) mut" where
  "decrypt_in_place p clk rnd h ct aad_prefix pq_message_key =
     bindM (modifyM (\<lambda>s. fst (expire_skipped_keys (clk 0) s))) (\<lambda>_.
     bindM (readM (\<lambda>s. header_aad h)) (\<lambda>ratchet_aad.
     (\<lambda>s. case cached_key h s of
            Some i \<Rightarrow> decrypt_cached p i ct (aad_prefix @ ratchet_aad) pq_message_key s
          | None \<Rightarrow> decrypt_next p clk rnd h ct (aad_prefix @ ratchet_aad) pq_message_key s)))"

definition ratchet_decrypt ::
  "prims \<Rightarrow> (nat \<Rightarrow> u64) \<Rightarrow> bytes \<Rightarrow> ratchet_header \<Rightarrow> bytes \<Rightarrow> bytes \<Rightarrow> bytes option \<Rightarrow> (session, bytes) mut" where
  "ratchet_decrypt p clk rnd h ct aad_prefix pq_message_key s =
     (let (candidate, r) = decrypt_in_place p clk rnd h ct aad_prefix pq_message_key (clone_session s)
      in case r of Inl e \<Rightarrow> (s, Inl e) | Inr plaintext \<Rightarrow> (candidate, Inr plaintext))"

section \<open>Padding\<close>

lemma padded_payload_size_Inr:
  assumes "padded_payload_size n = Inr m"
  shows "n < m" and "m \<le> 4195328" and "m \<in> {128, 256, 512, 1024, 2048} \<or> 1024 dvd m"
    and "m \<le> 2 * n + 1152"
  using assms by (auto simp: padded_payload_size_def Let_def kMaxPlaintextBytes_def split: if_splits)

lemma padded_payload_size_ok: "n \<le> 4194304 \<Longrightarrow> \<exists>m. padded_payload_size n = Inr m"
  by (simp add: padded_payload_size_def Let_def kMaxPlaintextBytes_def)

lemma skip_zeros_le: "skip_zeros pt i \<le> i"
  by (induction i) auto

lemma skip_zeros_append: "i \<le> length xs \<Longrightarrow> skip_zeros (xs @ ys) i = skip_zeros xs i"
  by (induction i) (auto simp: nth_append)

lemma skip_zeros_replicate: "skip_zeros (ys @ replicate k 0) (length ys + k) = skip_zeros ys (length ys)"
proof (induction k)
  case 0
  show ?case
    by simp
next
  case (Suc k)
  have e: "ys @ replicate (Suc k) 0 = (ys @ replicate k 0) @ [0]"
    by (simp add: replicate_append_same)
  have "((ys @ replicate k 0) @ [0]) ! (length ys + k) = 0"
    by (metis length_append length_replicate nth_append_length)
  then have "skip_zeros (ys @ replicate (Suc k) 0) (length ys + Suc k) =
      skip_zeros ((ys @ replicate k 0) @ [0]) (length ys + k)"
    unfolding e by simp
  also have "\<dots> = skip_zeros (ys @ replicate k 0) (length ys + k)"
    by (rule skip_zeros_append) simp
  finally show ?case
    using Suc by simp
qed

lemma skip_zeros_padding: "skip_zeros (xs @ [0x80] @ replicate k 0) (Suc (length xs) + k) = Suc (length xs)"
  using skip_zeros_replicate [of "xs @ [0x80]" k] by (simp add: nth_append)

lemma unpad_padding: "unpad (xs @ [0x80] @ replicate k 0) = Inr xs"
proof -
  have last: "(xs @ [0x80] @ replicate k 0) ! (length (xs @ [0x80] @ replicate k 0) - 1) \<in> {0, 0x80 :: byte}"
    by (cases k) (auto simp: nth_append nth_Cons')
  show ?thesis
    using last skip_zeros_padding [of xs k]
    by (auto simp: unpad_def Let_def nth_append)
qed

lemma aead_roundtrip_message:
  assumes law: "aead_law p" and "length k = 32" and "length nonce = 12" and "length m \<le> 4194304"
  shows "\<exists>ct. aead_encrypt p nonce k m aad = Inr ct \<and> aead_decrypt p k ct aad = Inr m \<and>
           length ct \<le> 2 * length m + 1180"
proof -
  obtain t where t: "padded_payload_size (length m) = Inr t"
    using padded_payload_size_ok [OF assms(4)] ..
  note b = padded_payload_size_Inr [OF t]
  let ?padded = "m @ [0x80] @ replicate (t - (length m + 1)) 0"
  have l: "length ?padded = t"
    using b(1) by simp
  then have "length ?padded < 4294967296"
    using b(2) by simp
  from aead_roundtrip [OF law assms(2,3) this, of aad] obtain c where
      c: "aead_seal p k nonce aad ?padded = Some c" "length c = length ?padded + 16"
         "aead_open p k nonce aad c = Some ?padded" .
  have "aead_encrypt p nonce k m aad = Inr (nonce @ c)"
    using t b(1) c(1) by (simp add: aead_encrypt_def Let_def)
  moreover have "aead_decrypt p k (nonce @ c) aad = Inr m"
    using assms(3) c(2,3) unpad_padding [of m] by (simp add: aead_decrypt_def)
  ultimately show ?thesis
    using c(2) l b(4) assms(3) by simp
qed

section \<open>Chains\<close>

text \<open>The chain key after \<open>n\<close> messages, and the key of message \<open>n\<close>.\<close>

definition ck_at :: "prims \<Rightarrow> bytes \<Rightarrow> nat \<Rightarrow> bytes" where
  "ck_at p ck n = ((\<lambda>c. fst (kdf_ck p c)) ^^ n) ck"

definition mk_at :: "prims \<Rightarrow> bytes \<Rightarrow> nat \<Rightarrow> bytes" where
  "mk_at p ck n = snd (kdf_ck p (ck_at p ck n))"

lemma ck_at_0 [simp]: "ck_at p ck 0 = ck"
  by (simp add: ck_at_def)

lemma ck_at_add: "ck_at p (ck_at p ck m) n = ck_at p ck (m + n)"
  unfolding ck_at_def by (subst add.commute) (simp add: funpow_add)

lemma ck_at_Suc: "fst (kdf_ck p (ck_at p ck n)) = ck_at p ck (Suc n)"
  by (simp add: ck_at_def)

lemma kdf_ck_at: "kdf_ck p (ck_at p ck n) = (ck_at p ck (Suc n), mk_at p ck n)"
  by (metis ck_at_Suc mk_at_def prod.collapse)

lemma mk_at_add: "mk_at p (ck_at p ck m) n = mk_at p ck (m + n)"
  by (simp add: mk_at_def ck_at_add)

lemma kdf_ck_length: "hmac_law p \<Longrightarrow> length (fst (kdf_ck p ck)) = 32 \<and> length (snd (kdf_ck p ck)) = 32"
  by (simp add: kdf_ck_def hmac_length)

lemma mk_at_length: "hmac_law p \<Longrightarrow> length (mk_at p ck n) = 32"
  by (simp add: mk_at_def kdf_ck_length)

lemma ck_at_length: "hmac_law p \<Longrightarrow> length ck = 32 \<Longrightarrow> length (ck_at p ck n) = 32"
  by (cases n) (simp_all add: ck_at_def kdf_ck_length)

lemma kdf_rk_length:
  "hmac_law p \<Longrightarrow> kdf_rk p rk z = Inr (rk', ck) \<Longrightarrow> length rk' = 32 \<and> length ck = 32"
  by (auto simp: kdf_rk_def bindR_eq_Inr dest: hkdf_expand_length)

lemma kdf_rk_ok: "\<exists>rk' ck. kdf_rk p rk z = Inr (rk', ck)"
  by (simp add: kdf_rk_def hkdf_expand_def)

text \<open>The keys \<open>skip_message_keys\<close> stashes, and its effect in one step.\<close>

definition stashed :: "prims \<Rightarrow> u64 \<Rightarrow> bytes \<Rightarrow> u32 \<Rightarrow> bytes \<Rightarrow> nat \<Rightarrow> skipped_key list" where
  "stashed p now dh nr ck k =
     map (\<lambda>i. \<lparr>sk_dh_pub = dh, sk_n = nr + word_of_nat i, sk_message_key = mk_at p ck i,
              sk_created_at = now\<rparr>) [0..<k]"

lemma stashed_Suc:
  "stashed p now dh nr ck (Suc k) =
     \<lparr>sk_dh_pub = dh, sk_n = nr, sk_message_key = snd (kdf_ck p ck), sk_created_at = now\<rparr>
       # stashed p now dh (nr + 1) (fst (kdf_ck p ck)) k"
proof -
  have "mk_at p ck (Suc i) = mk_at p (fst (kdf_ck p ck)) i" for i
    using mk_at_add [of p ck 1 i] ck_at_Suc [of p ck 0] by simp
  then show ?thesis
    unfolding stashed_def by (simp only: upt_conv_Cons map_Suc_upt [symmetric])
      (simp add: mk_at_def add.assoc)
qed

lemma skip_loop_eq:
  "s_nr s \<le> until \<Longrightarrow>
   skip_loop p now until s =
     (let k = unat until - unat (s_nr s)
      in s\<lparr>s_chain_key_recv := ck_at p (s_chain_key_recv s) k,
           s_skipped := s_skipped s @ stashed p now (s_dhr_pub s) (s_nr s) (s_chain_key_recv s) k,
           s_nr := until\<rparr>)"
proof (induction p now until s rule: skip_loop.induct)
  case (1 p now until s)
  show ?case
  proof (cases "s_nr s < until")
    case False
    with 1(2) have "s_nr s = until"
      by simp
    then show ?thesis
      by (subst skip_loop.simps) (simp add: stashed_def)
  next
    case True
    then have u: "unat (s_nr s + 1) = unat (s_nr s) + 1" and lt: "unat (s_nr s) < unat until"
      by (simp_all add: unat_u32_Suc word_less_nat_alt)
    then have "s_nr (stash_key p now s) \<le> until"
      by (simp add: word_le_nat_alt)
    note ih = 1(1) [OF True this]
    have k: "unat until - unat (s_nr s) = Suc (unat until - unat (s_nr s + 1))"
      using u lt by simp
    have c: "ck_at p (fst (kdf_ck p ck)) j = ck_at p ck (Suc j)" for ck j
      using ck_at_add [of p ck 1 j] ck_at_Suc [of p ck 0] by simp
    show ?thesis
      unfolding Let_def k using True
      by (subst skip_loop.simps) (simp add: ih Let_def, cases "kdf_ck p (s_chain_key_recv s)",
        simp add: stash_key_def stashed_Suc c [of "s_chain_key_recv s", symmetric])
  qed
qed

end
