(* ===== verification/Store_Format.thy ===== *)
theory Store_Format
  imports Store
begin

text \<open>
  The round trip of the vault contents: well-formedness of every record, one codec interpretation
  per format of \<open>store.cpp\<close>, and \<open>store_parse_serialize\<close>, which is their composition.
\<close>

section \<open>Well-formed contents\<close>

definition wf_pq_prekey :: "prims \<Rightarrow> pq_prekey \<Rightarrow> bool" where
  "wf_pq_prekey p k \<longleftrightarrow> length (pq_public (pqk_key k)) = 1184 \<and> length (pq_seed (pqk_key k)) = 64 \<and>
     ml_kem_768_from_seed p (pq_seed (pqk_key k)) = Inr (pqk_key k)"

definition wf_signed_prekey :: "signed_prekey \<Rightarrow> bool" where
  "wf_signed_prekey k \<longleftrightarrow>
     length (spk_pub k) = 32 \<and> length (spk_sk k) = 32 \<and> length (spk_signature k) = 64"

definition wf_one_time_prekey :: "one_time_prekey \<Rightarrow> bool" where
  "wf_one_time_prekey k \<longleftrightarrow> length (otpk_pub k) = 32 \<and> length (otpk_sk k) = 32"

definition wf_peer_otpk :: "peer_otpk \<Rightarrow> bool" where
  "wf_peer_otpk k \<longleftrightarrow> length (po_pub k) = 32"

definition wf_peer_pq_prekey :: "peer_pq_prekey \<Rightarrow> bool" where
  "wf_peer_pq_prekey k \<longleftrightarrow> length (pp_pub k) = 1184"

definition wf_pq_bundle :: "peer_pq_bundle \<Rightarrow> bool" where
  "wf_pq_bundle b \<longleftrightarrow> wf_peer_pq_prekey (pqb_signed_prekey b) \<and> length (pqb_ed_signature b) = 64 \<and>
     length (pqb_pq_signature b) = 3309 \<and> wf_counted wf_peer_pq_prekey (pqb_one_time_prekeys b)"

definition wf_peer_card :: "peer_card \<Rightarrow> bool" where
  "wf_peer_card c \<longleftrightarrow> length (pc_spk_pub c) = 32 \<and> length (pc_spk_signature c) = 64 \<and>
     wf_counted wf_peer_otpk (pc_one_time_prekeys c) \<and> length (pc_pq_identity_pub c) = 1952 \<and>
     pred_option wf_pq_bundle (pc_pq_bundle c)"

definition wf_contact :: "contact \<Rightarrow> bool" where
  "wf_contact c \<longleftrightarrow> c_alias c \<noteq> [] \<and> length (c_alias c) \<le> 128 \<and> length (c_identity_pub c) = 32 \<and>
     pred_option wf_peer_card (c_card c)"

definition wf_skipped_key :: "skipped_key \<Rightarrow> bool" where
  "wf_skipped_key k \<longleftrightarrow> length (sk_dh_pub k) = 32 \<and> length (sk_message_key k) = 32"

definition wf_session :: "session \<Rightarrow> bool" where
  "wf_session s \<longleftrightarrow> s_contact_index s < 4294967296 \<and> length (s_session_id s) = 32 \<and>
     length (s_spqr_state s) \<le> 8388608 \<and> length (s_root_key s) = 32 \<and>
     length (s_dhs_sk s) = 32 \<and> length (s_dhs_pub s) = 32 \<and> length (s_dhr_pub s) = 32 \<and>
     length (s_chain_key_send s) = 32 \<and> length (s_chain_key_recv s) = 32 \<and>
     wf_counted wf_skipped_key (s_skipped s)"

definition wf_handshake :: "accepted_handshake \<Rightarrow> bool" where
  "wf_handshake h \<longleftrightarrow> length (ah_initiator_identity h) = 32 \<and> length (ah_ephemeral_pub h) = 32"

definition wf_store :: "prims \<Rightarrow> vault_store \<Rightarrow> bool" where
  "wf_store p v \<longleftrightarrow> length (v_vault_id v) = 16 \<and> length (v_previous_digest v) = 32 \<and>
     length (v_seed v) = 32 \<and>
     wf_counted wf_signed_prekey (v_signed_prekeys v) \<and>
     wf_counted wf_one_time_prekey (v_one_time_prekeys v) \<and>
     wf_counted (wf_pq_prekey p) (v_pq_signed_prekeys v) \<and>
     wf_counted (wf_pq_prekey p) (v_pq_one_time_prekeys v) \<and>
     wf_counted wf_contact (v_contacts v) \<and> wf_counted wf_session (v_sessions v) \<and>
     wf_counted wf_handshake (v_accepted_handshakes v)"

section \<open>Small formats\<close>

lemma since_simps [simp]:
  "since True get d = get"
  "since False get d zs = Inr (d, zs)"
  by (simp_all add: since_def [abs_def])

interpretation bool: codec put_bool get_bool "\<lambda>_. True"
  by unfold_locales (auto simp: put_bool_def put_u8_def get_bool_def)

declare bool.put_ok [codec_put] bool.get_eq [codec_get]

lemma optional_codec:
  assumes "codec put get ok"
  shows "codec (put_flagged put) (get_optional get) (pred_option ok)"
proof
  show "\<exists>bs. put_flagged put x = Inr bs" if "pred_option ok x" for x
    using that codec.put_ok [OF assms] by (cases x) force+
  show "get_optional get (bs @ ys) = Inr (x, ys)"
    if "pred_option ok x" and "put_flagged put x = Inr bs" for x bs ys
    using that codec.get_put [OF assms]
    by (cases x) (auto simp: bindR_eq_Inr get_optional_def get_bool_def)
qed

lemma get_suite_code [simp]: "get_suite e (suite_code s # ys) = Inr (s, ys)"
  by (simp add: get_suite_def)

lemma get_suite_status_codes [simp]:
  "get_suite_status (suite_code s # status_code t # ys) = Inr ((s, t), ys)"
  by (cases t) (simp_all add: get_suite_status_def status_of_code_def word_less_nat_alt)

interpretation suite: codec "\<lambda>s. put_u8 (suite_code s)" "get_suite e" "\<lambda>_. True" for e
  by unfold_locales (auto simp: put_u8_def)

interpretation pq_prekey: codec write_pq_prekey "read_pq_prekey p" "wf_pq_prekey p" for p
proof
  fix k bs ys assume "wf_pq_prekey p k" and "write_pq_prekey k = Inr bs"
  then show "read_pq_prekey p (bs @ ys) = Inr (k, ys)"
    by (cases k; cases "pqk_key k")
      (clarsimp simp: write_pq_prekey_def bindR_eq_Inr,
        simp add: read_pq_prekey_def codec_get wf_pq_prekey_def wf_bytes_def)
qed (simp add: write_pq_prekey_def catR_ok codec_put wf_pq_prekey_def wf_bytes_def del: catR.simps)

interpretation signed_prekey: codec write_signed_prekey "read_signed_prekey 10" wf_signed_prekey
proof
  fix k bs ys assume "wf_signed_prekey k" and "write_signed_prekey k = Inr bs"
  then show "read_signed_prekey 10 (bs @ ys) = Inr (k, ys)"
    by (clarsimp simp: write_signed_prekey_def bindR_eq_Inr)
      (simp add: read_signed_prekey_def codec_get wf_signed_prekey_def wf_bytes_def)
qed (simp add: write_signed_prekey_def catR_ok codec_put wf_signed_prekey_def wf_bytes_def del: catR.simps)

interpretation one_time_prekey: codec write_one_time_prekey read_one_time_prekey wf_one_time_prekey
proof
  fix k bs ys assume "wf_one_time_prekey k" and "write_one_time_prekey k = Inr bs"
  then show "read_one_time_prekey (bs @ ys) = Inr (k, ys)"
    by (clarsimp simp: write_one_time_prekey_def bindR_eq_Inr)
      (simp add: read_one_time_prekey_def codec_get wf_one_time_prekey_def wf_bytes_def)
qed (simp add: write_one_time_prekey_def catR_ok codec_put wf_one_time_prekey_def wf_bytes_def del: catR.simps)

interpretation peer_otpk: codec write_peer_otpk read_peer_otpk wf_peer_otpk
proof
  fix k bs ys assume "wf_peer_otpk k" and "write_peer_otpk k = Inr bs"
  then show "read_peer_otpk (bs @ ys) = Inr (k, ys)"
    by (clarsimp simp: write_peer_otpk_def bindR_eq_Inr)
      (simp add: read_peer_otpk_def codec_get wf_peer_otpk_def wf_bytes_def)
qed (simp add: write_peer_otpk_def catR_ok codec_put wf_peer_otpk_def wf_bytes_def del: catR.simps)

interpretation peer_pq_prekey: codec write_peer_pq_prekey read_peer_pq_prekey wf_peer_pq_prekey
proof
  fix k bs ys assume "wf_peer_pq_prekey k" and "write_peer_pq_prekey k = Inr bs"
  then show "read_peer_pq_prekey (bs @ ys) = Inr (k, ys)"
    by (clarsimp simp: write_peer_pq_prekey_def bindR_eq_Inr)
      (simp add: read_peer_pq_prekey_def codec_get wf_peer_pq_prekey_def wf_bytes_def)
qed (simp add: write_peer_pq_prekey_def catR_ok codec_put wf_peer_pq_prekey_def wf_bytes_def del: catR.simps)

interpretation skipped_key: codec write_skipped_key "read_skipped_key now 10" wf_skipped_key for now
proof
  fix k bs ys assume "wf_skipped_key k" and "write_skipped_key k = Inr bs"
  then show "read_skipped_key now 10 (bs @ ys) = Inr (k, ys)"
    by (clarsimp simp: write_skipped_key_def bindR_eq_Inr)
      (simp add: read_skipped_key_def codec_get wf_skipped_key_def wf_bytes_def)
qed (simp add: write_skipped_key_def catR_ok codec_put wf_skipped_key_def wf_bytes_def del: catR.simps)

interpretation handshake: codec write_handshake "read_handshake 10" wf_handshake
proof
  fix k bs ys assume "wf_handshake k" and "write_handshake k = Inr bs"
  then show "read_handshake 10 (bs @ ys) = Inr (k, ys)"
    by (clarsimp simp: write_handshake_def bindR_eq_Inr)
      (simp add: read_handshake_def codec_get wf_handshake_def wf_bytes_def)
qed (simp add: write_handshake_def catR_ok codec_put wf_handshake_def wf_bytes_def del: catR.simps)

section \<open>Lists of them\<close>

interpretation pq_prekeys: codec "put_counted write_pq_prekey" "get_counted (read_pq_prekey p)"
    "wf_counted (wf_pq_prekey p)" for p
  by (rule pq_prekey.counted)

interpretation signed_prekeys: codec "put_counted write_signed_prekey"
    "get_counted (read_signed_prekey 10)" "wf_counted wf_signed_prekey"
  by (rule signed_prekey.counted)

interpretation one_time_prekeys: codec "put_counted write_one_time_prekey"
    "get_counted read_one_time_prekey" "wf_counted wf_one_time_prekey"
  by (rule one_time_prekey.counted)

interpretation peer_otpks: codec "put_counted write_peer_otpk" "get_counted read_peer_otpk"
    "wf_counted wf_peer_otpk"
  by (rule peer_otpk.counted)

interpretation peer_pq_prekeys: codec "put_counted write_peer_pq_prekey"
    "get_counted read_peer_pq_prekey" "wf_counted wf_peer_pq_prekey"
  by (rule peer_pq_prekey.counted)

interpretation skipped_keys: codec "put_counted write_skipped_key"
    "get_counted (read_skipped_key now 10)" "wf_counted wf_skipped_key" for now
  by (rule skipped_key.counted)

interpretation handshakes: codec "put_counted write_handshake" "get_counted (read_handshake 10)"
    "wf_counted wf_handshake"
  by (rule handshake.counted)

declare peer_pq_prekey.put_ok [codec_put] peer_pq_prekeys.put_ok [codec_put]
  peer_otpks.put_ok [codec_put] skipped_keys.put_ok [codec_put] handshakes.put_ok [codec_put]
  pq_prekeys.put_ok [codec_put] signed_prekeys.put_ok [codec_put] one_time_prekeys.put_ok [codec_put]

declare peer_pq_prekey.get_eq [codec_get] peer_pq_prekeys.get_eq [codec_get]
  peer_otpks.get_eq [codec_get] skipped_keys.get_eq [codec_get] handshakes.get_eq [codec_get]
  pq_prekeys.get_eq [codec_get] signed_prekeys.get_eq [codec_get] one_time_prekeys.get_eq [codec_get]

section \<open>Cards, contacts, sessions\<close>

interpretation pq_bundle: codec write_pq_bundle read_pq_bundle wf_pq_bundle
proof
  fix b bs ys assume "wf_pq_bundle b" and "write_pq_bundle b = Inr bs"
  then show "read_pq_bundle (bs @ ys) = Inr (b, ys)"
    by (clarsimp simp: write_pq_bundle_def bindR_eq_Inr)
      (simp add: read_pq_bundle_def codec_get wf_pq_bundle_def wf_bytes_def)
qed (simp add: write_pq_bundle_def catR_ok codec_put wf_pq_bundle_def wf_bytes_def del: catR.simps)

interpretation opt_bundle: codec "put_flagged write_pq_bundle" "get_optional read_pq_bundle"
    "pred_option wf_pq_bundle"
  by (rule optional_codec) (rule pq_bundle.codec_axioms)

declare opt_bundle.put_ok [codec_put] opt_bundle.get_eq [codec_get]

interpretation peer_card: codec write_peer_card "read_peer_card 10" wf_peer_card
proof
  fix c bs ys assume "wf_peer_card c" and "write_peer_card c = Inr bs"
  then show "read_peer_card 10 (bs @ ys) = Inr (c, ys)"
    by (clarsimp simp: write_peer_card_def bindR_eq_Inr put_u8_def)
      (simp add: read_peer_card_def codec_get wf_peer_card_def wf_bytes_def)
qed (simp add: write_peer_card_def catR_ok codec_put wf_peer_card_def wf_bytes_def del: catR.simps)

interpretation opt_card: codec "put_flagged write_peer_card" "get_optional (read_peer_card 10)"
    "pred_option wf_peer_card"
  by (rule optional_codec) (rule peer_card.codec_axioms)

declare opt_card.put_ok [codec_put] opt_card.get_eq [codec_get]

interpretation contact: codec write_contact "read_contact 10" wf_contact
proof
  fix c bs ys assume "wf_contact c" and "write_contact c = Inr bs"
  then show "read_contact 10 (bs @ ys) = Inr (c, ys)"
    by (clarsimp simp: write_contact_def bindR_eq_Inr put_u8_def)
      (simp add: read_contact_def codec_get wf_contact_def wf_bytes_def wf_str_def kMaxAliasBytes_def)
qed (simp add: write_contact_def catR_ok codec_put wf_contact_def wf_bytes_def wf_str_def del: catR.simps)

interpretation session: codec write_session "read_session now 10" wf_session for now
proof
  fix s bs ys assume "wf_session s" and "write_session s = Inr bs"
  then show "read_session now 10 (bs @ ys) = Inr (s, ys)"
    by (clarsimp simp: write_session_def bindR_eq_Inr put_u8_def if_Inl_eq_Inr)
      (simp add: read_session_def codec_get wf_session_def wf_bytes_def wf_blob_def get_secure_blob_put
        kMaxSpqrState_def unat_of_nat_u32)
qed (simp add: write_session_def catR_ok codec_put wf_session_def wf_bytes_def wf_blob_def
    kMaxSpqrState_def del: catR.simps)

interpretation contacts: codec "put_counted write_contact" "get_counted (read_contact 10)"
    "wf_counted wf_contact"
  by (rule contact.counted)

interpretation sessions: codec "put_counted write_session" "get_counted (read_session now 10)"
    "wf_counted wf_session" for now
  by (rule session.counted)

declare contacts.put_ok [codec_put] contacts.get_eq [codec_get]
  sessions.put_ok [codec_put] sessions.get_eq [codec_get]

section \<open>The whole store\<close>

lemma serialize_ok: "wf_store p v \<Longrightarrow> \<exists>bs. serialize v = Inr bs"
  by (simp add: serialize_def catR_ok codec_put pq_prekeys.put_ok [of p] wf_store_def wf_bytes_def
      kStoreMagic_def put_bytes_def del: catR.simps)

lemma store_parse_serialized:
  assumes "wf_store p v" and "serialize v = Inr bs"
  shows "store_parse p now bs = Inr v"
  using assms
  by (clarsimp simp: serialize_def bindR_eq_Inr put_u8_def kStoreVersion_def)
    (simp add: store_parse_def codec_get handshakes.get_end wf_store_def wf_bytes_def
      kStoreMagic_def kStoreVersion_def)

section \<open>What the readers accept, in every version\<close>

lemma get_many_all:
  "(\<And>zs x ys. get zs = Inr (x, ys) \<Longrightarrow> P x) \<Longrightarrow> get_many get n zs = Inr (xs, ys) \<Longrightarrow>
     length xs = n \<and> list_all P xs"
  by (induction n arbitrary: zs xs) (auto simp: bindR_eq_Inr)

lemma get_counted_wf:
  assumes "\<And>zs x ys. get zs = Inr (x, ys) \<Longrightarrow> P x" and "get_counted get zs = Inr (xs, ys)"
  shows "wf_counted P xs"
  using assms(2) get_many_all [of get P, OF assms(1)] unat_u32_less
  by (fastforce simp: get_counted_def wf_counted_def bindR_eq_Inr)

lemma since_wf: "since b get d zs = Inr (x, ys) \<Longrightarrow> P d \<Longrightarrow> (\<And>zs x ys. get zs = Inr (x, ys) \<Longrightarrow> P x) \<Longrightarrow> P x"
  by (cases b) auto

lemma get_optional_wf:
  "get_optional get zs = Inr (x, ys) \<Longrightarrow> (\<And>zs x ys. get zs = Inr (x, ys) \<Longrightarrow> P x) \<Longrightarrow> pred_option P x"
  by (auto simp: get_optional_def bindR_eq_Inr split: if_splits)

lemma get_bytes_length: "get_bytes n zs = Inr (x, ys) \<Longrightarrow> length x = n"
  by (simp add: get_bytes_Inr)

lemma since_bytes_length:
  "since b (get_bytes n) d zs = Inr (x, ys) \<Longrightarrow> length d = n \<Longrightarrow> length x = n"
  by (erule since_wf) (auto dest: get_bytes_length)

lemma read_pq_prekey_wf: "read_pq_prekey p zs = Inr (k, ys) \<Longrightarrow> wf_pq_prekey p k"
proof -
  assume "read_pq_prekey p zs = Inr (k, ys)"
  then obtain i pub seed t r where k: "k = \<lparr>pqk_id = i, pqk_key = \<lparr>pq_public = pub, pq_seed = seed\<rparr>, pqk_created_at = t\<rparr>"
      and l: "length pub = 1184" "length seed = 64" and r: "ml_kem_768_from_seed p seed = Inr r" "pq_public r = pub"
    by (auto simp: read_pq_prekey_def bindR_eq_Inr if_Inl_eq_Inr get_bytes_Inr)
  from r have "r = \<lparr>pq_public = pub, pq_seed = seed\<rparr>"
    by (auto simp: ml_kem_768_from_seed_def bindR_eq_Inr if_Inl_eq_Inr)
  with l r show ?thesis
    by (simp add: wf_pq_prekey_def k)
qed

lemma read_signed_prekey_wf: "read_signed_prekey v zs = Inr (k, ys) \<Longrightarrow> wf_signed_prekey k"
  by (auto simp: read_signed_prekey_def wf_signed_prekey_def bindR_eq_Inr get_bytes_Inr)

lemma read_one_time_prekey_wf: "read_one_time_prekey zs = Inr (k, ys) \<Longrightarrow> wf_one_time_prekey k"
  by (auto simp: read_one_time_prekey_def wf_one_time_prekey_def bindR_eq_Inr get_bytes_Inr)

lemma read_peer_otpk_wf: "read_peer_otpk zs = Inr (k, ys) \<Longrightarrow> wf_peer_otpk k"
  by (auto simp: read_peer_otpk_def wf_peer_otpk_def bindR_eq_Inr get_bytes_Inr)

lemma read_peer_pq_prekey_wf: "read_peer_pq_prekey zs = Inr (k, ys) \<Longrightarrow> wf_peer_pq_prekey k"
  by (auto simp: read_peer_pq_prekey_def wf_peer_pq_prekey_def bindR_eq_Inr get_bytes_Inr)

lemma read_skipped_key_wf: "read_skipped_key now v zs = Inr (k, ys) \<Longrightarrow> wf_skipped_key k"
  by (auto simp: read_skipped_key_def wf_skipped_key_def bindR_eq_Inr get_bytes_Inr)

lemma read_handshake_wf: "read_handshake v zs = Inr (h, ys) \<Longrightarrow> wf_handshake h"
  by (auto simp: read_handshake_def wf_handshake_def bindR_eq_Inr get_bytes_Inr)

lemma counted_wf:
  "get_counted read_peer_pq_prekey zs = Inr (pps, ys) \<Longrightarrow> wf_counted wf_peer_pq_prekey pps"
  "get_counted read_peer_otpk zs = Inr (pos, ys) \<Longrightarrow> wf_counted wf_peer_otpk pos"
  "get_counted (read_skipped_key now v) zs = Inr (sks, ys) \<Longrightarrow> wf_counted wf_skipped_key sks"
  "get_counted (read_signed_prekey v) zs = Inr (spks, ys) \<Longrightarrow> wf_counted wf_signed_prekey spks"
  "get_counted read_one_time_prekey zs = Inr (otpks, ys) \<Longrightarrow> wf_counted wf_one_time_prekey otpks"
  "get_counted (read_pq_prekey p) zs = Inr (pqs, ys) \<Longrightarrow> wf_counted (wf_pq_prekey p) pqs"
  "get_counted (read_handshake v) zs = Inr (hs, ys) \<Longrightarrow> wf_counted wf_handshake hs"
  by (erule get_counted_wf [rotated], erule read_peer_pq_prekey_wf read_peer_otpk_wf
      read_skipped_key_wf read_signed_prekey_wf read_one_time_prekey_wf read_pq_prekey_wf
      read_handshake_wf)+

lemma read_pq_bundle_wf: "read_pq_bundle zs = Inr (b, ys) \<Longrightarrow> wf_pq_bundle b"
  by (auto simp: read_pq_bundle_def wf_pq_bundle_def bindR_eq_Inr get_bytes_Inr
      dest: read_peer_pq_prekey_wf counted_wf)

lemma since_bundle_wf:
  "since b (get_optional read_pq_bundle) None zs = Inr (x, ys) \<Longrightarrow> pred_option wf_pq_bundle x"
  by (erule since_wf [where P = "pred_option wf_pq_bundle"])
    (auto dest: get_optional_wf [OF _ read_pq_bundle_wf])

lemma read_peer_card_wf: "read_peer_card v zs = Inr (c, ys) \<Longrightarrow> wf_peer_card c"
  by (auto simp: read_peer_card_def wf_peer_card_def bindR_eq_Inr get_bytes_Inr
      dest: counted_wf since_bytes_length since_bundle_wf)

lemma read_contact_wf: "read_contact v zs = Inr (c, ys) \<Longrightarrow> wf_contact c"
  by (auto simp: read_contact_def wf_contact_def bindR_eq_Inr if_Inl_eq_Inr get_bytes_Inr kMaxAliasBytes_def
      dest: get_optional_wf [where P = wf_peer_card, OF _ read_peer_card_wf])

lemma since_spqr_wf:
  "since b (get_secure_blob kMaxSpqrState) [] zs = Inr (x, ys) \<Longrightarrow> length x \<le> 8388608"
  by (erule since_wf [where P = "\<lambda>x. length x \<le> 8388608"])
    (auto simp: get_secure_blob_def bindR_eq_Inr if_Inl_eq_Inr get_bytes_Inr kMaxSpqrState_def)

lemma read_session_wf: "read_session now v zs = Inr (s, ys) \<Longrightarrow> wf_session s"
  by (auto simp: read_session_def wf_session_def bindR_eq_Inr get_bytes_Inr unat_u32_less
      dest: counted_wf since_bytes_length since_spqr_wf)

lemma counted_wf':
  "get_counted (read_contact v) zs = Inr (cs, ys) \<Longrightarrow> wf_counted wf_contact cs"
  "get_counted (read_session now v) zs = Inr (ss, ys) \<Longrightarrow> wf_counted wf_session ss"
  by (erule get_counted_wf [rotated], erule read_contact_wf read_session_wf)+

lemma since_counted_wf:
  "since b (get_counted (read_pq_prekey p)) [] zs = Inr (pqs, ys) \<Longrightarrow> wf_counted (wf_pq_prekey p) pqs"
  "since b (get_counted (read_handshake v)) [] zs = Inr (hs, ys) \<Longrightarrow> wf_counted wf_handshake hs"
  by (erule since_wf, simp add: wf_counted_def, erule counted_wf)+

lemma store_parse_wf: "store_parse p now bs = Inr v \<Longrightarrow> wf_store p v"
  by (auto simp: store_parse_def wf_store_def bindR_eq_Inr if_Inl_eq_Inr get_bytes_Inr
      dest: counted_wf counted_wf' since_counted_wf since_bytes_length)

section \<open>Properties\<close>

text \<open>C12: The vault contents round-trip: every well-formed store is written, and parsing what was
  written returns the store, keys, sessions, skipped keys and handshake history included.\<close>

theorem store_roundtrip:
  assumes "wf_store p v"
  shows "\<exists>bs. serialize v = Inr bs \<and> store_parse p now bs = Inr v"
  using serialize_ok [OF assms] store_parse_serialized [OF assms] by blast

lemma sample_store_wf: "wf_store p sample_store"
  by (simp add: sample_store_def wf_store_def wf_counted_def wf_signed_prekey_def wf_one_time_prekey_def
      wf_contact_def wf_session_def session_default_def wf_handshake_def)

lemma store_roundtrip_witness:
  "\<exists>bs. serialize sample_store = Inr bs \<and> store_parse sample_prims 77 bs = Inr sample_store"
  by (rule store_roundtrip [OF sample_store_wf])

text \<open>Migration loses nothing: a store of any version 1 to 10 that \<open>parse\<close> accepts is well-formed,
  can be written in the current version, and reads back as the same store at any later time.\<close>

theorem store_migration:
  assumes "store_parse p now bs = Inr v"
  shows "wf_store p v \<and> (\<exists>bs'. serialize v = Inr bs' \<and> (\<forall>now'. store_parse p now' bs' = Inr v))"
  using store_parse_wf [OF assms] serialize_ok store_parse_serialized by blast

text \<open>A version 1 store: only the seed, the prekeys, the contacts and the sessions.\<close>

definition sample_v1 :: bytes where
  "sample_v1 = kStoreMagic @ [1] @ replicate 32 9 @ le32 4 @ le32 0 @ le32 6 @ le32 0 @ le32 0 @ le32 0"

lemma sample_v1_parses: "\<exists>v. store_parse p now sample_v1 = Inr v \<and> v_next_spk_id v = 4"
  by (simp add: sample_v1_def store_parse_def kStoreVersion_def get_counted_def word_le_nat_alt)

lemma store_migration_witness:
  "\<exists>v bs. store_parse sample_prims 50 sample_v1 = Inr v \<and> serialize v = Inr bs \<and>
     store_parse sample_prims 60 bs = Inr v"
proof -
  obtain v where "store_parse sample_prims 50 sample_v1 = Inr v"
    using sample_v1_parses by blast
  then show ?thesis
    using store_migration by blast
qed

text \<open>A handshake record read from a store older than version 10 carries the unknown prekey id 0, so
  pruning never removes it: the replay protection of an old vault survives migration.\<close>

theorem legacy_handshakes_survive:
  assumes "store_parse p now bs = Inr v" and "bs ! 4 < 10"
  shows "prune_old_handshakes v = (v, 0)"
proof -
  have z: "ah_spk_id h = 0" if "read_handshake ver zs = Inr (h, ys)" "ver < 10" for ver zs h ys
  proof -
    have "\<not> 10 \<le> ver"
      using that(2) by simp
    with that(1) show ?thesis
      by (auto simp: read_handshake_def bindR_eq_Inr)
  qed
  have "list_all (\<lambda>h. ah_spk_id h = 0) (v_accepted_handshakes v)"
  proof -
    from assms(1) obtain ver zs ws where b: "bs = kStoreMagic @ ver # zs"
        and h: "since (ver \<ge> 4) (get_counted (read_handshake ver)) [] ws = Inr (v_accepted_handshakes v, [])"
      by (auto simp: store_parse_def bindR_eq_Inr if_Inl_eq_Inr get_bytes_Inr get_u8_Inr)
    have "ver < 10"
      using assms(2) by (simp add: b kStoreMagic_def)
    have c: "list_all (\<lambda>h. ah_spk_id h = 0) hs"
      if "get_counted (read_handshake ver) zs = Inr (hs, ys)" for zs hs ys
      using get_counted_wf [OF _ that, of "\<lambda>h. ah_spk_id h = 0"] z \<open>ver < 10\<close>
      by (auto simp: wf_counted_def)
    show ?thesis
      by (rule since_wf [OF h, where P = "list_all (\<lambda>h. ah_spk_id h = 0)"]) (auto dest: c)
  qed
  then have "filter (\<lambda>h. \<not> spent_handshake v h) (v_accepted_handshakes v) = v_accepted_handshakes v"
    by (intro filter_True) (auto simp: list_all_iff spent_handshake_def)
  then show ?thesis
    by (simp add: prune_old_handshakes_def)
qed

lemma legacy_handshakes_survive_witness:
  "\<exists>v. store_parse sample_prims 50 sample_v1 = Inr v \<and> prune_old_handshakes v = (v, 0)"
proof -
  obtain v where v: "store_parse sample_prims 50 sample_v1 = Inr v"
    using sample_v1_parses by blast
  have "sample_v1 ! 4 < 10"
    by (simp add: sample_v1_def kStoreMagic_def)
  from legacy_handshakes_survive [OF v this] v show ?thesis
    by blast
qed

end
