(* ===== verification/Ratchet_Props.thy ===== *)
theory Ratchet_Props
  imports Ratchet Store_Format
begin

text \<open>
  Lemmas on the ratchet operations: the shape of every outcome of \<open>ratchet_decrypt\<close>, atomicity, the
  bound on the skipped-key cache, expiry, and the view of a receiving session as a map from
  (ratchet key, number) to message keys, which skipping ahead does not change.
\<close>

section \<open>Atomicity\<close>

lemma ratchet_decrypt_eq:
  "ratchet_decrypt p clk rnd h ct aad pqk s =
     (case decrypt_in_place p clk rnd h ct aad pqk s of
        (s', Inl e) \<Rightarrow> (s, Inl e) | (s', Inr pt) \<Rightarrow> (s', Inr pt))"
  by (simp add: ratchet_decrypt_def Let_def split: prod.split)

lemma ratchet_decrypt_Inl: "ratchet_decrypt p clk rnd h ct aad pqk s = (s', Inl e) \<Longrightarrow> s' = s"
  by (auto simp: ratchet_decrypt_eq split: prod.splits sum.splits)

lemma ratchet_decrypt_Inr:
  "ratchet_decrypt p clk rnd h ct aad pqk s = (s', Inr pt) \<longleftrightarrow>
     decrypt_in_place p clk rnd h ct aad pqk s = (s', Inr pt)"
  by (auto simp: ratchet_decrypt_eq split: prod.splits sum.splits)

section \<open>Expiry\<close>

lemma unat_max_age: "unat kSkippedKeyMaxAgeSeconds = 604800"
  by (simp add: kSkippedKeyMaxAgeSeconds_def)

lemma stale_key_iff: "stale_key now k \<longleftrightarrow> unat now > unat (sk_created_at k) + 604800"
proof (cases "now > sk_created_at k")
  case True
  then have "unat (now - sk_created_at k) = unat now - unat (sk_created_at k)"
    by (simp add: unat_sub)
  with True show ?thesis
    by (auto simp: stale_key_def word_less_nat_alt unat_max_age)
next
  case False
  then show ?thesis
    by (simp add: stale_key_def word_less_nat_alt)
qed

lemma expire_fst:
  "fst (expire_skipped_keys now s) = s\<lparr>s_skipped := filter (\<lambda>k. \<not> stale_key now k) (s_skipped s)\<rparr>"
  by (simp add: expire_skipped_keys_def Let_def)

lemma expire_snd: "snd (expire_skipped_keys now s) = length (filter (stale_key now) (s_skipped s))"
  using sum_length_filter_compl [of "stale_key now" "s_skipped s"]
  by (simp add: expire_skipped_keys_def Let_def)

lemma expire_nothing:
  assumes "\<forall>k \<in> set (s_skipped s). \<not> stale_key now k"
  shows "fst (expire_skipped_keys now s) = s"
proof -
  have "filter (\<lambda>k. \<not> stale_key now k) (s_skipped s) = s_skipped s"
    using assms by (intro filter_True) simp
  then show ?thesis
    by (simp add: expire_fst)
qed

section \<open>Skipping ahead\<close>

lemma skip_loop_invariant:
  "P s \<Longrightarrow> (\<And>s. s_nr s < until \<Longrightarrow> P s \<Longrightarrow> P (stash_key p now s)) \<Longrightarrow> P (skip_loop p now until s)"
proof (induction p now until s rule: skip_loop.induct)
  case (1 p now until s)
  then show ?case
    by (subst skip_loop.simps) auto
qed

lemma skip_message_keys_Inl:
  assumes "skip_message_keys p now until s = (s', Inl e)"
  shows "s' = s" and "e = RatchetError TooManySkipped"
    and "length (s_skipped s) + (unat until - unat (s_nr s)) > 1000"
  using assms by (auto simp: skip_message_keys_def Let_def kMaxSkip_def split: if_splits)

lemma skip_message_keys_Inr:
  assumes "skip_message_keys p now until s = (s', Inr u)"
  shows "s' = (if s_has_ckr s \<and> s_nr s \<le> until then skip_loop p now until s else s)"
  using assms by (auto simp: skip_message_keys_def Let_def split: if_splits)

lemma length_stashed [simp]: "length (stashed p now dh nr ck k) = k"
  by (simp add: stashed_def)

lemma skip_message_keys_bound:
  assumes "skip_message_keys p now until s = (s', r)" and "length (s_skipped s) \<le> 1000"
  shows "length (s_skipped s') \<le> 1000"
  using assms
  by (auto simp: skip_message_keys_def Let_def kMaxSkip_def skip_loop_eq not_less split: if_splits)

lemma skip_message_keys_static:
  assumes "skip_message_keys p now until s = (s', Inr u)"
  shows "\<exists>c l. s' = s\<lparr>s_chain_key_recv := c, s_skipped := l,
           s_nr := (if s_has_ckr s \<and> s_nr s \<le> until then until else s_nr s)\<rparr>"
proof (cases "s_has_ckr s \<and> s_nr s \<le> until")
  case True
  then show ?thesis
    using skip_message_keys_Inr [OF assms] by (auto simp: skip_loop_eq Let_def)
next
  case False
  then have "s' = s"
    using skip_message_keys_Inr [OF assms] by (simp only: if_False)
  then show ?thesis
    unfolding if_not_P [OF False]
    by (intro exI [of _ "s_chain_key_recv s"] exI [of _ "s_skipped s"]) simp
qed

section \<open>The keys a receiving session can reach\<close>

definition key_of :: "skipped_key \<Rightarrow> bytes \<times> u32" where
  "key_of k = (sk_dh_pub k, sk_n k)"

definition cache :: "session \<Rightarrow> bytes \<times> u32 \<Rightarrow> bytes option" where
  "cache s = map_of (map (\<lambda>k. (key_of k, sk_message_key k)) (s_skipped s))"

definition on_chain :: "session \<Rightarrow> bytes \<times> u32 \<Rightarrow> bool" where
  "on_chain s i \<longleftrightarrow> s_has_dhr s \<and> s_has_ckr s \<and> fst i = s_dhr_pub s \<and> s_nr s \<le> snd i"

definition rkey :: "prims \<Rightarrow> session \<Rightarrow> bytes \<times> u32 \<Rightarrow> bytes option" where
  "rkey p s i = (case cache s i of Some mk \<Rightarrow> Some mk
     | None \<Rightarrow> if on_chain s i then Some (mk_at p (s_chain_key_recv s) (unat (snd i) - unat (s_nr s)))
               else None)"

definition cache_ok :: "session \<Rightarrow> bool" where
  "cache_ok s \<longleftrightarrow> distinct (map key_of (s_skipped s)) \<and>
     (\<forall>i \<in> dom (cache s). \<not> on_chain s i)"

lemma dom_cache: "dom (cache s) = key_of ` set (s_skipped s)"
  by (simp add: cache_def dom_map_of_conv_image_fst image_image comp_def)

lemma cache_None: "cache s i = None \<longleftrightarrow> i \<notin> key_of ` set (s_skipped s)"
  by (metis dom_cache domIff)

lemma cached_key_None: "cached_key h s = None \<longleftrightarrow> cache s (h_dh_pub h, h_n h) = None"
  by (force simp: cached_key_def find_index_None cache_None key_of_def image_iff)

lemma cache_upd: "cache (s\<lparr>s_skipped := l\<rparr>) = map_of (map (\<lambda>k. (key_of k, sk_message_key k)) l)"
  by (simp add: cache_def)

lemma map_of_distinct_nth:
  "distinct (map f xs) \<Longrightarrow> i < length xs \<Longrightarrow> map_of (map (\<lambda>x. (f x, g x)) xs) (f (xs ! i)) = Some (g (xs ! i))"
  by (rule map_of_is_SomeI) (auto simp: comp_def)

lemma cached_key_Some:
  assumes "cache_ok s" and "cached_key h s = Some i"
  shows "i < length (s_skipped s)" and "key_of (s_skipped s ! i) = (h_dh_pub h, h_n h)"
    and "cache s (h_dh_pub h, h_n h) = Some (sk_message_key (s_skipped s ! i))"
proof -
  from find_index_Some [OF assms(2) [unfolded cached_key_def]]
  show i: "i < length (s_skipped s)" and k: "key_of (s_skipped s ! i) = (h_dh_pub h, h_n h)"
    by (simp_all add: key_of_def)
  show "cache s (h_dh_pub h, h_n h) = Some (sk_message_key (s_skipped s ! i))"
    using map_of_distinct_nth [OF _ i, of key_of sk_message_key] assms(1) k
    by (simp add: cache_def cache_ok_def)
qed

lemma map_of_erase_at:
  assumes "distinct (map f xs)" and "i < length xs"
  shows "map_of (map (\<lambda>x. (f x, g x)) (erase_at i xs)) = (map_of (map (\<lambda>x. (f x, g x)) xs))(f (xs ! i) := None)"
  using assms
proof (induction xs arbitrary: i)
  case (Cons x xs)
  show ?case
  proof (cases i)
    case 0
    have "map_of (map (\<lambda>x. (f x, g x)) xs) (f x) = None"
      using Cons.prems(1) by (auto simp: map_of_eq_None_iff)
    with 0 show ?thesis
      by (auto simp: erase_at_def)
  next
    case (Suc j)
    then have "f (xs ! j) \<noteq> f x"
      using Cons.prems by (metis distinct.simps(2) image_eqI length_Cons list.simps(9) not_less_eq
          nth_mem set_map)
    with Suc Cons show ?thesis
      by (auto simp: fun_upd_twist)
  qed
qed simp

lemma cache_ok_erase:
  assumes "cache_ok s" and "i < length (s_skipped s)"
  shows "cache (s\<lparr>s_skipped := erase_at i (s_skipped s)\<rparr>) = (cache s)(key_of (s_skipped s ! i) := None)"
    and "cache_ok (s\<lparr>s_skipped := erase_at i (s_skipped s)\<rparr>)"
proof -
  from assms(1) have d: "distinct (map key_of (s_skipped s))"
    by (simp add: cache_ok_def)
  show c: "cache (s\<lparr>s_skipped := erase_at i (s_skipped s)\<rparr>) = (cache s)(key_of (s_skipped s ! i) := None)"
    unfolding cache_upd map_of_erase_at [OF d assms(2)] by (simp add: cache_def)
  have "distinct (map key_of (erase_at i (s_skipped s)))"
    using d by (simp add: map_erase_at distinct_erase_at)
  with assms(1) c show "cache_ok (s\<lparr>s_skipped := erase_at i (s_skipped s)\<rparr>)"
    by (auto simp: cache_ok_def on_chain_def)
qed

text \<open>Stashing a key moves it from the chain to the cache: every key stays where it can be reached.\<close>

lemma stash_cache:
  assumes ok: "cache_ok s" and "s_has_dhr s" and "s_has_ckr s"
  shows "cache (stash_key p now s) = (cache s)((s_dhr_pub s, s_nr s) \<mapsto> mk_at p (s_chain_key_recv s) 0)"
proof -
  have "on_chain s (s_dhr_pub s, s_nr s)"
    using assms by (simp add: on_chain_def)
  with ok have "cache s (s_dhr_pub s, s_nr s) = None"
    unfolding cache_ok_def by blast
  moreover have "cache (stash_key p now s) =
      [(s_dhr_pub s, s_nr s) \<mapsto> mk_at p (s_chain_key_recv s) 0] ++ cache s"
    by (simp add: cache_def stash_key_def key_of_def mk_at_def split: prod.split)
  ultimately show ?thesis
    by (auto simp: map_add_def fun_eq_iff split: option.splits)
qed

lemma stash_on_chain:
  assumes "s_nr s < until" and "s_has_dhr s" and "s_has_ckr s"
  shows "on_chain (stash_key p now s) i \<longleftrightarrow> on_chain s i \<and> i \<noteq> (s_dhr_pub s, s_nr s)"
proof -
  have "unat (s_nr s + 1) = unat (s_nr s) + 1"
    by (rule unat_u32_Suc [OF assms(1)])
  then have "s_nr s + 1 \<le> n \<longleftrightarrow> s_nr s \<le> n \<and> n \<noteq> s_nr s" for n
    by (auto simp: word_le_nat_alt word_unat_eq_iff)
  then show ?thesis
    using assms(2,3) by (cases i) (auto simp: on_chain_def stash_key_def split: prod.split)
qed

lemma stash_rkey:
  assumes ok: "cache_ok s" and lt: "s_nr s < until" and h: "s_has_dhr s" "s_has_ckr s"
  shows "cache_ok (stash_key p now s)" and "rkey p (stash_key p now s) = rkey p s"
proof -
  note c = stash_cache [OF ok h, of p now] and oc = stash_on_chain [OF lt h, of p now]
  have "on_chain s (s_dhr_pub s, s_nr s)"
    using h by (simp add: on_chain_def)
  with ok have d: "(s_dhr_pub s, s_nr s) \<notin> dom (cache s)"
    unfolding cache_ok_def by blast
  have "distinct (map key_of (s_skipped (stash_key p now s)))"
    using ok d by (auto simp: cache_ok_def stash_key_def key_of_def dom_cache split: prod.split)
  then show "cache_ok (stash_key p now s)"
    using ok unfolding cache_ok_def by (auto simp: c oc)
  have ck: "s_chain_key_recv (stash_key p now s) = ck_at p (s_chain_key_recv s) 1"
    by (simp add: stash_key_def ck_at_def split: prod.split)
  have u: "unat (s_nr s + 1) = unat (s_nr s) + 1"
    by (rule unat_u32_Suc [OF lt])
  show "rkey p (stash_key p now s) = rkey p s"
  proof
    fix i
    show "rkey p (stash_key p now s) i = rkey p s i"
    proof (cases "i = (s_dhr_pub s, s_nr s)")
      case True
      then show ?thesis
        using d h by (auto simp: rkey_def c on_chain_def split: option.split)
    next
      case False
      have "mk_at p (ck_at p (s_chain_key_recv s) 1) (unat (snd i) - unat (s_nr s + 1)) =
          mk_at p (s_chain_key_recv s) (unat (snd i) - unat (s_nr s))" if "on_chain s i"
      proof -
        have "unat (s_nr s) < unat (snd i)"
          using that False by (cases i) (auto simp: on_chain_def word_le_nat_alt word_unat_eq_iff le_less)
        then have "1 + (unat (snd i) - unat (s_nr s + 1)) = unat (snd i) - unat (s_nr s)"
          using u by simp
        then show ?thesis
          by (simp add: mk_at_add)
      qed
      with False show ?thesis
        by (auto simp: rkey_def c oc ck split: option.split)
    qed
  qed
qed

lemma skip_rkey:
  assumes ok: "cache_ok s" and h: "s_has_ckr s \<Longrightarrow> s_has_dhr s"
    and sk: "skip_message_keys p now until s = (s', Inr u)"
  shows "cache_ok s'" and "rkey p s' = rkey p s"
proof -
  have "cache_ok s' \<and> rkey p s' = rkey p s"
  proof (cases "s_has_ckr s \<and> s_nr s \<le> until")
    case True
    let ?P = "\<lambda>t. cache_ok t \<and> rkey p t = rkey p s \<and> s_has_dhr t \<and> s_has_ckr t"
    have "?P (skip_loop p now until s)"
    proof (rule skip_loop_invariant [where P = ?P])
      show "?P s"
        using ok h True by simp
      show "?P (stash_key p now t)" if "s_nr t < until" and "?P t" for t
        using stash_rkey [of t until p now] that by (simp add: stash_key_def split: prod.splits)
    qed
    with True skip_message_keys_Inr [OF sk] show ?thesis
      by simp
  next
    case False
    with ok skip_message_keys_Inr [OF sk] show ?thesis
      by (simp split: if_splits)
  qed
  then show "cache_ok s'" and "rkey p s' = rkey p s"
    by simp_all
qed

section \<open>Decrypting with a reachable key\<close>

text \<open>The key \<open>mk\<close> opens the message to \<open>pt\<close>.\<close>

definition opens ::
  "prims \<Rightarrow> bytes \<Rightarrow> ratchet_header \<Rightarrow> bytes \<Rightarrow> bytes \<Rightarrow> bytes option \<Rightarrow> bytes \<Rightarrow> bool" where
  "opens p mk h ct aad pqk pt \<longleftrightarrow>
     (\<exists>ra k. header_aad h = Inr ra \<and> message_aead_key p mk pqk = Inr k \<and>
             aead_decrypt p k ct (aad @ ra) = Inr pt)"

definition header_key :: "ratchet_header \<Rightarrow> bytes \<times> u32" where
  "header_key h = (h_dh_pub h, h_n h)"

text \<open>The last step on a chain: the current key is used and forgotten.\<close>

definition advance :: "prims \<Rightarrow> session \<Rightarrow> session" where
  "advance p s = s\<lparr>s_chain_key_recv := fst (kdf_ck p (s_chain_key_recv s)), s_nr := s_nr s + 1\<rparr>"

lemma advance_rkey:
  assumes ok: "cache_ok s" and h: "s_has_dhr s" "s_has_ckr s" and n: "unat (s_nr s) < 4294967295"
  shows "cache_ok (advance p s)" and "rkey p (advance p s) = (rkey p s)((s_dhr_pub s, s_nr s) := None)"
    and "rkey p s (s_dhr_pub s, s_nr s) = Some (snd (kdf_ck p (s_chain_key_recv s)))"
proof -
  have lt: "s_nr s < (0xFFFFFFFF :: u32)"
    using n by (simp add: word_less_nat_alt)
  have oc0: "on_chain s (s_dhr_pub s, s_nr s)"
    using h by (simp add: on_chain_def)
  with ok have d: "cache s (s_dhr_pub s, s_nr s) = None"
    unfolding cache_ok_def by blast
  have c: "cache (advance p s) = cache s" and
      oc: "on_chain (advance p s) i = on_chain (stash_key p 0 s) i" for i
    by (simp_all add: cache_def advance_def on_chain_def stash_key_def split: prod.split)
  have oc': "on_chain (advance p s) i \<longleftrightarrow> on_chain s i \<and> i \<noteq> (s_dhr_pub s, s_nr s)" for i
    unfolding oc by (rule stash_on_chain [OF lt h])
  show "cache_ok (advance p s)"
    using ok unfolding cache_ok_def c oc' by (simp add: advance_def)
  show "rkey p s (s_dhr_pub s, s_nr s) = Some (snd (kdf_ck p (s_chain_key_recv s)))"
    using d oc0 by (simp add: rkey_def mk_at_def)
  have k: "mk_at p (s_chain_key_recv (advance p s)) j = mk_at p (s_chain_key_recv (stash_key p 0 s)) j" for j
    by (simp add: advance_def stash_key_def split: prod.split)
  have n: "s_nr (advance p s) = s_nr (stash_key p 0 s)"
    by (simp add: advance_def)
  show "rkey p (advance p s) = (rkey p s)((s_dhr_pub s, s_nr s) := None)"
  proof
    fix i
    show "rkey p (advance p s) i = ((rkey p s)((s_dhr_pub s, s_nr s) := None)) i"
    proof (cases "i = (s_dhr_pub s, s_nr s)")
      case True
      then show ?thesis
        using d by (simp add: rkey_def c oc')
    next
      case False
      have "rkey p (stash_key p 0 s) i = rkey p s i"
        by (simp add: stash_rkey(2) [OF ok lt h])
      moreover have "rkey p (stash_key p 0 s) i = rkey p (advance p s) i"
        using False by (simp add: rkey_def stash_cache [OF ok h] c oc k n split: option.split)
      ultimately show ?thesis
        using False by simp
    qed
  qed
qed

lemma next_message_key_eq: "next_message_key p s = (advance p s, Inr (snd (kdf_ck p (s_chain_key_recv s))))"
  by (simp add: next_message_key_def advance_def split: prod.split)

text \<open>What skipping adds to a cache: keys of the given chains, stamped with one of the given times.\<close>

definition new_keys_from :: "u64 set \<Rightarrow> bytes set \<Rightarrow> skipped_key list \<Rightarrow> skipped_key list \<Rightarrow> bool" where
  "new_keys_from T D l l' \<longleftrightarrow>
     (\<forall>k \<in> set l'. k \<in> set l \<or> sk_dh_pub k \<in> D \<and> sk_created_at k \<in> T)"

lemma new_keys_stashed: "new_keys_from {now} {dh} l (l @ stashed p now dh nr ck k)"
  by (auto simp: new_keys_from_def stashed_def)

lemma new_keys_trans:
  "new_keys_from T D l l' \<Longrightarrow> new_keys_from T' D' l' l'' \<Longrightarrow> new_keys_from (T \<union> T') (D \<union> D') l l''"
  unfolding new_keys_from_def by blast

lemma new_keys_mono:
  "new_keys_from T D l l' \<Longrightarrow> T \<subseteq> T' \<Longrightarrow> D \<subseteq> D' \<Longrightarrow> new_keys_from T' D' l l'"
  unfolding new_keys_from_def by blast

lemma decrypt_next_same:
  "s_has_dhr s \<Longrightarrow> h_dh_pub h = s_dhr_pub s \<Longrightarrow>
     decrypt_next p clk rnd h ct aad pqk s = catch_up p clk h ct aad pqk s"
  by (simp add: decrypt_next_def)

text \<open>
  On a chain the session knows, the outcome is the plaintext, with the message's key used up and
  every other key still reachable, or the gap is too large and nothing changed.
\<close>

lemma catch_up_known:
  assumes ok: "cache_ok s" and oc: "on_chain s (header_key h)" and n: "unat (h_n h) < 4294967295"
    and mk: "rkey p s (header_key h) = Some mk" and op: "opens p mk h ct aad pqk pt"
    and ra: "header_aad h = Inr ra"
  shows "(\<exists>s' c l. catch_up p clk h ct (aad @ ra) pqk s = (s', Inr pt) \<and> cache_ok s' \<and>
            rkey p s' = (rkey p s)(header_key h := None) \<and>
            s' = s\<lparr>s_chain_key_recv := c, s_skipped := l, s_nr := h_n h + 1\<rparr> \<and>
            c = ck_at p (s_chain_key_recv s) (unat (h_n h) + 1 - unat (s_nr s)) \<and>
            new_keys_from {clk 2} {s_dhr_pub s} (s_skipped s) l)
       \<or> catch_up p clk h ct (aad @ ra) pqk s = (s, Inl (RatchetError TooManySkipped)) \<and>
          length (s_skipped s) + (unat (h_n h) - unat (s_nr s)) > 1000"
proof (cases "skip_message_keys p (clk 2) (h_n h) s")
  case (Pair s1 r)
  from oc have h: "s_has_dhr s" "s_has_ckr s" "h_dh_pub h = s_dhr_pub s" "s_nr s \<le> h_n h"
    by (simp_all add: on_chain_def header_key_def)
  show ?thesis
  proof (cases r)
    case (Inl e)
    with skip_message_keys_Inl [OF Pair [unfolded Inl]] Pair show ?thesis
      by (simp add: catch_up_def bindM_def)
  next
    case (Inr u)
    note sk = Pair [unfolded Inr]
    have s1: "s1 = skip_loop p (clk 2) (h_n h) s"
      using skip_message_keys_Inr [OF sk] h by simp
    obtain l where s1': "s1 = s\<lparr>s_chain_key_recv := ck_at p (s_chain_key_recv s) (unat (h_n h) - unat (s_nr s)),
        s_skipped := l, s_nr := h_n h\<rparr>" and l: "new_keys_from {clk 2} {s_dhr_pub s} (s_skipped s) l"
      using skip_loop_eq [OF h(4)] new_keys_stashed unfolding s1 by (simp add: Let_def)
    have rk1: "cache_ok s1" "rkey p s1 = rkey p s"
      using skip_rkey [OF ok _ sk] h(1) by simp_all
    have f: "s_has_dhr s1" "s_has_ckr s1" "s_nr s1 = h_n h" "s_dhr_pub s1 = h_dh_pub h"
      using h by (simp_all add: s1')
    have hk: "(s_dhr_pub s1, s_nr s1) = header_key h"
      by (simp add: f header_key_def)
    have n1: "unat (s_nr s1) < 4294967295"
      using n f by simp
    note adv = advance_rkey [OF rk1(1) f(1,2) n1, of p, unfolded hk rk1(2)]
    have "snd (kdf_ck p (s_chain_key_recv s1)) = mk"
      using adv(3) mk by simp
    with op ra have "catch_up p clk h ct (aad @ ra) pqk s = (advance p s1, Inr pt)"
      by (auto simp: catch_up_def bindM_def sk next_message_key_eq opens_def)
    moreover have "Suc (unat (h_n h) - unat (s_nr s)) = unat (h_n h) + 1 - unat (s_nr s)"
      using h(4) by (simp add: word_le_nat_alt)
    then have "advance p s1 = s\<lparr>s_chain_key_recv := ck_at p (s_chain_key_recv s) (unat (h_n h) + 1 - unat (s_nr s)),
        s_skipped := l, s_nr := h_n h + 1\<rparr>"
      by (simp add: advance_def s1' ck_at_Suc)
    ultimately show ?thesis
      using adv(1,2) l by blast
  qed
qed

lemma decrypt_in_place_fresh:
  assumes "\<forall>k \<in> set (s_skipped s). \<not> stale_key (clk 0) k" and "header_aad h = Inr ra"
  shows "decrypt_in_place p clk rnd h ct aad pqk s =
           (case cached_key h s of
              Some i \<Rightarrow> decrypt_cached p i ct (aad @ ra) pqk s
            | None \<Rightarrow> decrypt_next p clk rnd h ct (aad @ ra) pqk s)"
  by (simp add: decrypt_in_place_def expire_nothing [OF assms(1)] assms(2))

lemma decrypt_known:
  assumes ok: "cache_ok s" and fresh: "\<forall>k \<in> set (s_skipped s). \<not> stale_key (clk 0) k"
    and n: "unat (h_n h) < 4294967295"
    and mk: "rkey p s (header_key h) = Some mk" and op: "opens p mk h ct aad pqk pt"
  shows "(\<exists>s' c l nr. ratchet_decrypt p clk rnd h ct aad pqk s = (s', Inr pt) \<and> cache_ok s' \<and>
            rkey p s' = (rkey p s)(header_key h := None) \<and>
            s' = s\<lparr>s_chain_key_recv := c, s_skipped := l, s_nr := nr\<rparr> \<and>
            (nr = s_nr s \<and> c = s_chain_key_recv s \<or>
             on_chain s (header_key h) \<and> nr = h_n h + 1 \<and>
               c = ck_at p (s_chain_key_recv s) (unat (h_n h) + 1 - unat (s_nr s))) \<and>
            new_keys_from {clk 2} (if s_has_ckr s then {s_dhr_pub s} else {}) (s_skipped s) l)
       \<or> ratchet_decrypt p clk rnd h ct aad pqk s = (s, Inl (RatchetError TooManySkipped)) \<and>
          length (s_skipped s) + (unat (h_n h) - unat (s_nr s)) > 1000"
proof -
  obtain ra where ra: "header_aad h = Inr ra"
    using op by (auto simp: opens_def)
  note dec = decrypt_in_place_fresh [where clk = clk, OF fresh ra]
  show ?thesis
  proof (cases "cached_key h s")
    case (Some i)
    note ck = cached_key_Some [OF ok Some]
    have m: "sk_message_key (s_skipped s ! i) = mk"
      using ck(3) mk by (simp add: rkey_def header_key_def)
    let ?s' = "s\<lparr>s_skipped := erase_at i (s_skipped s)\<rparr>"
    have "ratchet_decrypt p clk rnd h ct aad pqk s = (?s', Inr pt)"
      using op ra m by (auto simp: ratchet_decrypt_Inr dec Some decrypt_cached_def opens_def)
    moreover have "rkey p ?s' = (rkey p s)(header_key h := None)"
    proof -
      have "\<not> on_chain s (header_key h)"
        using ok ck(3) by (auto simp: cache_ok_def header_key_def)
      then show ?thesis
        using cache_ok_erase(1) [OF ok ck(1)] ck(2)
        by (auto simp: rkey_def fun_eq_iff on_chain_def header_key_def split: option.split)
    qed
    moreover have "new_keys_from {clk 2} (if s_has_ckr s then {s_dhr_pub s} else {}) (s_skipped s)
        (erase_at i (s_skipped s))"
      using set_erase_at_subset [of i "s_skipped s"] by (auto simp: new_keys_from_def)
    moreover have "?s' = s\<lparr>s_chain_key_recv := s_chain_key_recv s,
        s_skipped := erase_at i (s_skipped s), s_nr := s_nr s\<rparr>"
      by simp
    ultimately show ?thesis
      using cache_ok_erase(2) [OF ok ck(1)] by blast
  next
    case None
    then have c: "cache s (header_key h) = None"
      by (simp add: cached_key_None header_key_def)
    with mk have oc: "on_chain s (header_key h)"
      by (simp add: rkey_def split: if_splits)
    then have hd: "s_has_dhr s" "s_has_ckr s" "h_dh_pub h = s_dhr_pub s"
      by (simp_all add: on_chain_def header_key_def)
    have e: "decrypt_in_place p clk rnd h ct aad pqk s = catch_up p clk h ct (aad @ ra) pqk s"
      using None decrypt_next_same [OF hd(1,3)] by (simp add: dec)
    from catch_up_known [OF ok oc n mk op ra, of clk] show ?thesis
    proof (elim disjE exE conjE)
      fix s' c l
      assume "catch_up p clk h ct (aad @ ra) pqk s = (s', Inr pt)"
      then have "ratchet_decrypt p clk rnd h ct aad pqk s = (s', Inr pt)"
        by (simp add: ratchet_decrypt_Inr e)
      moreover assume "cache_ok s'" "rkey p s' = (rkey p s)(header_key h := None)"
        "s' = s\<lparr>s_chain_key_recv := c, s_skipped := l, s_nr := h_n h + 1\<rparr>"
        "c = ck_at p (s_chain_key_recv s) (unat (h_n h) + 1 - unat (s_nr s))"
        "new_keys_from {clk 2} {s_dhr_pub s} (s_skipped s) l"
      ultimately show ?thesis
        using oc hd(2) by (intro disjI1) auto
    next
      assume "catch_up p clk h ct (aad @ ra) pqk s = (s, Inl (RatchetError TooManySkipped))"
        and "1000 < length (s_skipped s) + (unat (h_n h) - unat (s_nr s))"
      then show ?thesis
        by (simp add: ratchet_decrypt_eq e)
    qed
  qed
qed

section \<open>Decrypting the first message of a new chain\<close>

lemma skip_message_keys_list:
  assumes "skip_message_keys p now until s = (s', Inr u)"
  shows "\<exists>j \<le> unat until. s_skipped s' = s_skipped s @ stashed p now (s_dhr_pub s) (s_nr s) (s_chain_key_recv s) j
           \<and> (\<not> s_has_ckr s \<longrightarrow> j = 0)"
proof (cases "s_has_ckr s \<and> s_nr s \<le> until")
  case True
  then show ?thesis
    using skip_message_keys_Inr [OF assms]
    by (intro exI [of _ "unat until - unat (s_nr s)"]) (simp add: skip_loop_eq Let_def)
next
  case False
  then have "s' = s"
    using skip_message_keys_Inr [OF assms] by (simp only: if_False)
  then show ?thesis
    by (intro exI [of _ 0]) (simp add: stashed_def)
qed

lemma new_keys_skip:
  assumes "skip_message_keys p now until s = (s', Inr u)"
  shows "new_keys_from {now} (if s_has_ckr s then {s_dhr_pub s} else {}) (s_skipped s) (s_skipped s')"
    and "length (s_skipped s') \<le> length (s_skipped s) + unat until"
proof -
  from skip_message_keys_list [OF assms] obtain j where "j \<le> unat until" and
    "s_skipped s' = s_skipped s @ stashed p now (s_dhr_pub s) (s_nr s) (s_chain_key_recv s) j"
    and "\<not> s_has_ckr s \<longrightarrow> j = 0"
    by auto
  then show "new_keys_from {now} (if s_has_ckr s then {s_dhr_pub s} else {}) (s_skipped s) (s_skipped s')"
    and "length (s_skipped s') \<le> length (s_skipped s) + unat until"
    by (auto simp: new_keys_from_def stashed_def)
qed

text \<open>After a skip to \<open>until\<close>, a reachable key below \<open>until\<close> or off the chain is in the cache.\<close>

lemma skip_caches:
  assumes ok: "cache_ok s" and hc: "s_has_ckr s \<Longrightarrow> s_has_dhr s"
    and sk: "skip_message_keys p now until s = (s', Inr u)"
    and i: "rkey p s i = Some mk" "on_chain s i \<longrightarrow> snd i < until"
  shows "cache s' i = Some mk"
proof (rule ccontr)
  assume c: "cache s' i \<noteq> Some mk"
  have r: "rkey p s' i = Some mk"
    using skip_rkey(2) [OF ok hc sk] i(1) by simp
  with c have oc: "on_chain s' i"
    by (auto simp: rkey_def split: option.splits if_splits)
  from skip_message_keys_static [OF sk] obtain c l where
    s': "s' = s\<lparr>s_chain_key_recv := c, s_skipped := l,
           s_nr := (if s_has_ckr s \<and> s_nr s \<le> until then until else s_nr s)\<rparr>"
    by blast
  have "on_chain s i" and "\<not> snd i < until"
    using oc unfolding on_chain_def s' by (auto split: if_splits)
  with i(2) show False
    by simp
qed

lemma dh_ratchet_ok:
  assumes "x25519_dh p (s_dhs_sk s) dh = Inr z" and "kdf_rk p (s_root_key s) z = Inr (rk1, ck)"
    and "generate_keypair p rnd = Inr (pub, sk)" and "x25519_dh p sk dh = Inr z2"
    and "kdf_rk p rk1 z2 = Inr (rk2, cks)"
  shows "dh_ratchet p rnd dh s =
    (s\<lparr>s_pn := s_ns s, s_ns := 0, s_nr := 0, s_dhr_pub := dh, s_has_dhr := True, s_root_key := rk2,
       s_chain_key_recv := ck, s_has_ckr := True, s_dhs_sk := sk, s_dhs_pub := pub,
       s_chain_key_send := cks, s_has_cks := True\<rparr>, Inr ())"
  using assms by (simp add: dh_ratchet_def root_step_def bindM_def)

text \<open>
  The state after the whole message: \<open>l\<close> is the cache, and every key that was in the cache or on
  the finished chain below \<open>pn\<close> is still reachable, as is the rest of the new chain.
\<close>

lemma decrypt_new_chain:
  assumes ok: "cache_ok s" and fresh: "\<forall>k \<in> set (s_skipped s). \<not> stale_key (clk 0) k"
    and n: "unat (h_n h) < 4294967295" and hc0: "s_has_ckr s \<longrightarrow> s_has_dhr s"
    and new: "\<not> s_has_dhr s \<or> h_dh_pub h \<noteq> s_dhr_pub s" "h_dh_pub h \<notin> fst ` dom (cache s)"
    and dh1: "x25519_dh p (s_dhs_sk s) (h_dh_pub h) = Inr z" "kdf_rk p (s_root_key s) z = Inr (rk1, ck)"
    and kp: "generate_keypair p rnd = Inr (pub, sk)"
    and dh2: "x25519_dh p sk (h_dh_pub h) = Inr z2" "kdf_rk p rk1 z2 = Inr (rk2, cks)"
    and op: "opens p (mk_at p ck (unat (h_n h))) h ct aad pqk pt"
  shows "(\<exists>s' l. ratchet_decrypt p clk rnd h ct aad pqk s = (s', Inr pt) \<and> cache_ok s' \<and>
            rkey p s' (header_key h) = None \<and>
            (\<forall>m. m \<noteq> h_n h \<longrightarrow> rkey p s' (h_dh_pub h, m) = Some (mk_at p ck (unat m))) \<and>
            (\<forall>i mk. fst i \<noteq> h_dh_pub h \<and> rkey p s i = Some mk \<and> (on_chain s i \<longrightarrow> snd i < h_pn h)
                \<longrightarrow> rkey p s' i = Some mk) \<and>
            s' = s\<lparr>s_pn := s_ns s, s_ns := 0, s_nr := h_n h + 1, s_dhr_pub := h_dh_pub h,
                   s_has_dhr := True, s_root_key := rk2,
                   s_chain_key_recv := ck_at p ck (unat (h_n h) + 1), s_has_ckr := True,
                   s_dhs_sk := sk, s_dhs_pub := pub, s_chain_key_send := cks, s_has_cks := True,
                   s_skipped := l\<rparr> \<and>
            new_keys_from {clk 1, clk 2} (insert (h_dh_pub h) (if s_has_ckr s then {s_dhr_pub s} else {}))
              (s_skipped s) l)
       \<or> ratchet_decrypt p clk rnd h ct aad pqk s = (s, Inl (RatchetError TooManySkipped)) \<and>
          length (s_skipped s) + unat (h_pn h) + unat (h_n h) > 1000"
proof -
  have hc: "s_has_ckr s \<Longrightarrow> s_has_dhr s"
    using hc0 by simp
  obtain ra where ra: "header_aad h = Inr ra"
    using op by (auto simp: opens_def)
  have "cached_key h s = None"
    using new(2) by (force simp: cached_key_None domIff image_iff)
  then have dec: "decrypt_in_place p clk rnd h ct aad pqk s =
      bindM (skip_message_keys p (clk 1) (h_pn h)) (\<lambda>_.
      bindM (dh_ratchet p rnd (h_dh_pub h)) (\<lambda>_. catch_up p clk h ct (aad @ ra) pqk)) s"
    using new(1) by (simp add: decrypt_in_place_fresh [where clk = clk, OF fresh ra] decrypt_next_def)
  show ?thesis
  proof (cases "skip_message_keys p (clk 1) (h_pn h) s")
    case (Pair s1 r)
    show ?thesis
    proof (cases r)
      case (Inl e)
      with skip_message_keys_Inl [OF Pair [unfolded Inl]] Pair show ?thesis
        by (simp add: ratchet_decrypt_eq dec bindM_def)
    next
      case (Inr u)
      note sk = Pair [unfolded Inr]
      obtain c l1 nr1 where s1: "s1 = s\<lparr>s_chain_key_recv := c, s_skipped := l1, s_nr := nr1\<rparr>"
        using skip_message_keys_static [OF sk] by blast
      have ok1: "cache_ok s1"
        using skip_rkey(1) [OF ok hc sk] .
      have nk1: "new_keys_from {clk 1} (if s_has_ckr s then {s_dhr_pub s} else {}) (s_skipped s) l1"
        and len1: "length l1 \<le> length (s_skipped s) + unat (h_pn h)"
        using new_keys_skip [OF sk] by (simp_all add: s1)
      have fresh1: "h_dh_pub h \<notin> fst ` dom (cache s1)"
      proof
        assume "h_dh_pub h \<in> fst ` dom (cache s1)"
        then obtain k where k: "k \<in> set l1" "sk_dh_pub k = h_dh_pub h"
          by (auto simp: dom_cache s1 key_of_def)
        then have "k \<in> set (s_skipped s) \<or> s_has_ckr s \<and> h_dh_pub h = s_dhr_pub s"
          using nk1 by (auto simp: new_keys_from_def split: if_splits)
        with new hc k(2) show False
          by (force simp: dom_cache key_of_def image_iff)
      qed
      let ?s2 = "s1\<lparr>s_pn := s_ns s, s_ns := 0, s_nr := 0, s_dhr_pub := h_dh_pub h, s_has_dhr := True,
        s_root_key := rk2, s_chain_key_recv := ck, s_has_ckr := True, s_dhs_sk := sk, s_dhs_pub := pub,
        s_chain_key_send := cks, s_has_cks := True\<rparr>"
      have s2: "dh_ratchet p rnd (h_dh_pub h) s1 = (?s2, Inr ())"
        using dh_ratchet_ok [of p s1 "h_dh_pub h" z rk1 ck rnd pub sk z2 rk2 cks] dh1 kp dh2
        by (simp add: s1)
      have c2: "cache ?s2 = cache s1" and oc2: "on_chain ?s2 i \<longleftrightarrow> fst i = h_dh_pub h" for i
        by (simp_all add: cache_def on_chain_def)
      have nc: "cache s1 i = None" if "fst i = h_dh_pub h" for i
        using fresh1 that by (metis domIff image_eqI)
      have ok2: "cache_ok ?s2"
        using ok1 nc unfolding cache_ok_def c2 oc2 by auto
      have r2: "rkey p ?s2 i = (if fst i = h_dh_pub h then Some (mk_at p ck (unat (snd i))) else cache s1 i)" for i
        using nc [of i] by (simp add: rkey_def c2 oc2 split: option.split)
      have d: "decrypt_in_place p clk rnd h ct aad pqk s = catch_up p clk h ct (aad @ ra) pqk ?s2"
        by (simp add: dec bindM_def sk s2 del: One_nat_def)
      have "on_chain ?s2 (header_key h)" and "rkey p ?s2 (header_key h) = Some (mk_at p ck (unat (h_n h)))"
        by (simp_all add: oc2 r2 header_key_def)
      from catch_up_known [OF ok2 this(1) n this(2) op ra, of clk] show ?thesis
      proof (elim disjE exE conjE)
        fix s' c' l
        assume cu: "catch_up p clk h ct (aad @ ra) pqk ?s2 = (s', Inr pt)"
          and ok': "cache_ok s'" and r': "rkey p s' = (rkey p ?s2)(header_key h := None)"
          and s': "s' = ?s2\<lparr>s_chain_key_recv := c', s_skipped := l, s_nr := h_n h + 1\<rparr>"
          and c': "c' = ck_at p (s_chain_key_recv ?s2) (unat (h_n h) + 1 - unat (s_nr ?s2))"
          and nk: "new_keys_from {clk 2} {s_dhr_pub ?s2} (s_skipped ?s2) l"
        have "ratchet_decrypt p clk rnd h ct aad pqk s = (s', Inr pt)"
          by (simp add: ratchet_decrypt_Inr d cu)
        moreover have "rkey p s' (header_key h) = None"
          and "\<forall>m. m \<noteq> h_n h \<longrightarrow> rkey p s' (h_dh_pub h, m) = Some (mk_at p ck (unat m))"
          by (simp_all add: r' r2 header_key_def)
        moreover have "\<forall>i mk. fst i \<noteq> h_dh_pub h \<and> rkey p s i = Some mk \<and> (on_chain s i \<longrightarrow> snd i < h_pn h)
            \<longrightarrow> rkey p s' i = Some mk"
          using skip_caches [OF ok hc sk] by (auto simp: r' r2 header_key_def)
        moreover have "s' = s\<lparr>s_pn := s_ns s, s_ns := 0, s_nr := h_n h + 1, s_dhr_pub := h_dh_pub h,
            s_has_dhr := True, s_root_key := rk2, s_chain_key_recv := ck_at p ck (unat (h_n h) + 1),
            s_has_ckr := True, s_dhs_sk := sk, s_dhs_pub := pub, s_chain_key_send := cks,
            s_has_cks := True, s_skipped := l\<rparr>"
          by (simp add: s' s1 c')
        moreover have "new_keys_from {clk 1, clk 2} (insert (h_dh_pub h) (if s_has_ckr s then {s_dhr_pub s} else {}))
            (s_skipped s) l"
          using new_keys_trans [OF nk1, of "{clk 2}" "{h_dh_pub h}" l] nk
          by (rule_tac new_keys_mono [of "{clk 1} \<union> {clk 2}"]) (auto simp: s1)
        ultimately show ?thesis
          using ok' by (intro disjI1 exI [of _ s'] exI [of _ l]) simp
      next
        assume "catch_up p clk h ct (aad @ ra) pqk ?s2 = (?s2, Inl (RatchetError TooManySkipped))"
          and "1000 < length (s_skipped ?s2) + (unat (h_n h) - unat (s_nr ?s2))"
        then show ?thesis
          using len1 by (simp add: ratchet_decrypt_eq d s1)
      qed
    qed
  qed
qed

section \<open>The session invariant\<close>

text \<open>Every field has its length, and the cache respects its limit.\<close>

definition ratchet_inv :: "session \<Rightarrow> bool" where
  "ratchet_inv s \<longleftrightarrow> wf_session s \<and> length (s_skipped s) \<le> 1000"

lemma ratchet_invI:
  assumes "ratchet_inv s" and "length (s_skipped s') \<le> 1000" and "list_all wf_skipped_key (s_skipped s')"
    and "s_contact_index s' = s_contact_index s" "s_session_id s' = s_session_id s"
      "s_spqr_state s' = s_spqr_state s"
    and "length (s_root_key s') = 32" "length (s_dhs_sk s') = 32" "length (s_dhs_pub s') = 32"
      "length (s_dhr_pub s') = 32" "length (s_chain_key_send s') = 32" "length (s_chain_key_recv s') = 32"
  shows "ratchet_inv s'"
  using assms by (simp add: ratchet_inv_def wf_session_def wf_counted_def)

lemma ratchet_invD:
  assumes "ratchet_inv s"
  shows "list_all wf_skipped_key (s_skipped s)" "length (s_skipped s) \<le> 1000"
    "length (s_root_key s) = 32" "length (s_dhs_sk s) = 32" "length (s_dhs_pub s) = 32"
    "length (s_dhr_pub s) = 32" "length (s_chain_key_send s) = 32" "length (s_chain_key_recv s) = 32"
  using assms by (simp_all add: ratchet_inv_def wf_session_def wf_counted_def)

lemma ratchet_inv_expire: "ratchet_inv s \<Longrightarrow> ratchet_inv (fst (expire_skipped_keys now s))"
  by (rule ratchet_invI [of s])
    (auto simp: expire_fst ratchet_invD list_all_iff dest: ratchet_invD(1)
      intro: le_trans [OF length_filter_le])

lemma ratchet_inv_skip:
  assumes law: "hmac_law p" and i: "ratchet_inv s" and sk: "skip_message_keys p now until s = (s', Inr u)"
  shows "ratchet_inv s'"
proof -
  from skip_message_keys_list [OF sk] obtain j where
    l: "s_skipped s' = s_skipped s @ stashed p now (s_dhr_pub s) (s_nr s) (s_chain_key_recv s) j"
    by auto
  have "list_all wf_skipped_key (s_skipped s')"
    using ratchet_invD [OF i] unfolding l
    by (auto simp: list_all_iff stashed_def wf_skipped_key_def mk_at_length [OF law])
  moreover have "length (s_skipped s') \<le> 1000"
    using skip_message_keys_bound [OF sk] ratchet_invD [OF i] by simp
  moreover have "length (s_chain_key_recv s') = 32"
    using skip_message_keys_Inr [OF sk] ratchet_invD [OF i]
    by (auto simp: skip_loop_eq Let_def ck_at_length [OF law])
  ultimately show ?thesis
    using skip_message_keys_static [OF sk] i ratchet_invD [OF i] by (auto intro!: ratchet_invI [OF i])
qed

lemma ratchet_inv_dh:
  assumes h: "hmac_law p" and x: "x25519_law p" and i: "ratchet_inv s" and l: "length dh = 32"
    and d: "dh_ratchet p rnd dh s = (s', Inr u)"
  shows "ratchet_inv s'"
proof -
  from d obtain z rk1 ck pub sk z2 rk2 cks where
      k: "kdf_rk p (s_root_key s) z = Inr (rk1, ck)" "generate_keypair p rnd = Inr (pub, sk)"
         "kdf_rk p rk1 z2 = Inr (rk2, cks)"
    and s': "s' = s\<lparr>s_pn := s_ns s, s_ns := 0, s_nr := 0, s_dhr_pub := dh, s_has_dhr := True,
       s_root_key := rk2, s_chain_key_recv := ck, s_has_ckr := True, s_dhs_sk := sk, s_dhs_pub := pub,
       s_chain_key_send := cks, s_has_cks := True\<rparr>"
    by (auto simp: dh_ratchet_def bindM_eq_Inr root_step_def bindR_eq_Inr)
  show ?thesis
    using kdf_rk_length [OF h k(1)] kdf_rk_length [OF h k(3)] generate_keypair_pair [OF x k(2)]
      ratchet_invD [OF i] l unfolding s' by (intro ratchet_invI [OF i]) auto
qed

lemma ratchet_inv_next:
  "hmac_law p \<Longrightarrow> ratchet_inv s \<Longrightarrow> ratchet_inv (advance p s)"
  by (rule ratchet_invI [of s]) (auto simp: advance_def ratchet_invD kdf_ck_length)

lemma ratchet_inv_catch_up:
  assumes "hmac_law p" and "ratchet_inv s" and "catch_up p clk h ct aad pqk s = (s', Inr pt)"
  shows "ratchet_inv s'"
  using assms ratchet_inv_skip [OF assms(1,2)] ratchet_inv_next [OF assms(1)]
  by (auto simp: catch_up_def bindM_eq_Inr next_message_key_eq)

lemma ratchet_inv_decrypt:
  assumes h: "hmac_law p" and x: "x25519_law p" and i: "ratchet_inv s" and l: "length (h_dh_pub h) = 32"
    and d: "ratchet_decrypt p clk rnd h ct aad pqk s = (s', r)"
  shows "ratchet_inv s'"
proof (cases r)
  case (Inl e)
  with d i show ?thesis
    by (auto dest: ratchet_decrypt_Inl)
next
  case (Inr pt)
  let ?s0 = "fst (expire_skipped_keys (clk 0) s)"
  have i0: "ratchet_inv ?s0"
    by (rule ratchet_inv_expire [OF i])
  from d [unfolded Inr ratchet_decrypt_Inr] obtain ra where
    c: "(case cached_key h ?s0 of Some i \<Rightarrow> decrypt_cached p i ct (aad @ ra) pqk ?s0
        | None \<Rightarrow> decrypt_next p clk rnd h ct (aad @ ra) pqk ?s0) = (s', Inr pt)"
    by (auto simp: decrypt_in_place_def bindM_eq_Inr)
  show ?thesis
  proof (cases "cached_key h ?s0")
    case (Some j)
    then have "s' = ?s0\<lparr>s_skipped := erase_at j (s_skipped ?s0)\<rparr>" and "j < length (s_skipped ?s0)"
      using c find_index_Some [OF Some [unfolded cached_key_def]]
      by (auto simp: decrypt_cached_def bindM_eq_Inr)
    then show ?thesis
      using ratchet_invD [OF i0] set_erase_at_subset [of j "s_skipped ?s0"]
      by (intro ratchet_invI [OF i0]) (auto simp: list_all_iff length_erase_at)
  next
    case None
    with c have n: "decrypt_next p clk rnd h ct (aad @ ra) pqk ?s0 = (s', Inr pt)"
      by simp
    show ?thesis
    proof (cases "\<not> s_has_dhr ?s0 \<or> h_dh_pub h \<noteq> s_dhr_pub ?s0")
      case True
      with n obtain s1 s2 where "skip_message_keys p (clk 1) (h_pn h) ?s0 = (s1, Inr ())"
          and "dh_ratchet p rnd (h_dh_pub h) s1 = (s2, Inr ())"
          and "catch_up p clk h ct (aad @ ra) pqk s2 = (s', Inr pt)"
        by (auto simp: decrypt_next_def bindM_eq_Inr simp del: One_nat_def)
      then show ?thesis
        using ratchet_inv_catch_up [OF h] ratchet_inv_dh [OF h x _ l] ratchet_inv_skip [OF h i0]
        by blast
    next
      case False
      with n show ?thesis
        using ratchet_inv_catch_up [OF h i0] by (auto simp: decrypt_next_def)
    qed
  qed
qed

lemma ratchet_inv_encrypt:
  assumes "hmac_law p" and i: "ratchet_inv s" and "ratchet_encrypt p nonce pt aad pqk s = (s', r)"
  shows "ratchet_inv s'"
  using assms(3) ratchet_invD [OF i] i kdf_ck_length [OF assms(1), of "s_chain_key_send s"]
  by (auto simp: ratchet_encrypt_def Let_def split: if_splits prod.splits intro!: ratchet_invI [OF i])

section \<open>Properties\<close>

text \<open>C11: A decryption that throws leaves the session exactly as it was, and one that succeeds keeps the
  session invariant: every key field has 32 bytes and the cache of skipped keys holds at most 1000.\<close>

theorem decrypt_atomic_and_safe:
  assumes "hmac_law p" and "x25519_law p" and "ratchet_inv s" and "length (h_dh_pub h) = 32"
    and "ratchet_decrypt p clk rnd h ct aad pqk s = (s', r)"
  shows "ratchet_inv s' \<and> (case r of Inl e \<Rightarrow> s' = s | Inr pt \<Rightarrow> length (s_skipped s') \<le> 1000)"
  using ratchet_inv_decrypt [OF assms] ratchet_decrypt_Inl assms(5)
  by (auto simp: ratchet_inv_def split: sum.split)

lemma sample_session_inv: "ratchet_inv session_default"
  by (simp add: ratchet_inv_def wf_session_def session_default_def wf_counted_def)

lemma decrypt_atomic_and_safe_witness:
  "fst (ratchet_decrypt sample_prims (\<lambda>_. 5) [1] \<lparr>h_dh_pub = replicate 32 3, h_pn = 0, h_n = 2000\<rparr>
     (replicate 40 0) [] None session_default) = session_default"
proof -
  let ?h = "\<lparr>h_dh_pub = replicate 32 3, h_pn = 0, h_n = 2000\<rparr>"
  obtain s' r where d: "ratchet_decrypt sample_prims (\<lambda>_. 5) [1] ?h (replicate 40 0) [] None session_default = (s', r)"
    by fastforce
  have "decrypt_in_place sample_prims (\<lambda>_. 5) [1] ?h (replicate 40 0) [] None session_default \<noteq> (s', Inr pt)" for pt
  proof
    assume "decrypt_in_place sample_prims (\<lambda>_. 5) [1] ?h (replicate 40 0) [] None session_default = (s', Inr pt)"
    then obtain s1 s2 mk where "dh_ratchet sample_prims [1] (replicate 32 3) s1 = (s2, Inr ())"
        and "skip_message_keys sample_prims 5 2000 s2 = (s', Inr ()) \<or>
          (\<exists>s3. skip_message_keys sample_prims 5 2000 s2 = (s3, Inr ()))"
      by (auto simp: decrypt_in_place_def bindM_eq_Inr expire_fst session_default_def cached_key_def
          decrypt_next_def catch_up_def split: option.splits if_splits)
    then have "s_has_ckr s2" "s_nr s2 = 0"
      by (auto simp: dh_ratchet_def bindM_eq_Inr)
    then have "skip_message_keys sample_prims 5 2000 s2 = (s2, Inl (RatchetError TooManySkipped))"
      by (simp add: skip_message_keys_def kMaxSkip_def)
    with \<open>skip_message_keys sample_prims 5 2000 s2 = (s', Inr ()) \<or> _\<close> show False
      by auto
  qed
  then have "\<exists>e. r = Inl e"
    using d by (cases r) (auto simp: ratchet_decrypt_Inr)
  moreover have "length (h_dh_pub ?h) = 32"
    by simp
  ultimately show ?thesis
    using decrypt_atomic_and_safe [OF sample_hmac sample_x25519 sample_session_inv _ d] d by auto
qed

text \<open>Expiry drops exactly the skipped keys stashed more than seven days before now, keeps the others
  in order, changes nothing else and reports how many were dropped; a key stamped in the future is
  kept, and the unsigned subtraction never wraps.\<close>

theorem expiry_exact:
  "expire_skipped_keys now s =
     (s\<lparr>s_skipped := filter (\<lambda>k. unat now \<le> unat (sk_created_at k) + 604800) (s_skipped s)\<rparr>,
      length (filter (\<lambda>k. unat (sk_created_at k) + 604800 < unat now) (s_skipped s)))"
  by (rule prod_eqI) (simp_all add: expire_fst expire_snd stale_key_iff [abs_def] not_less)

text \<open>Skipping ahead is exact: within the limit, every message number from \<open>nr\<close> up to \<open>until\<close> gets its
  own chain key stashed under the current ratchet key and the chain key moves by as many steps; beyond
  the limit of 1000 stored keys it throws before deriving anything.\<close>

theorem skip_exact:
  "skip_message_keys p now until s =
     (let k = unat until - unat (s_nr s) in
      if s_has_ckr s then
        if until < s_nr s then (s, Inr ())
        else if length (s_skipped s) + k > 1000 then (s, Inl (RatchetError TooManySkipped))
        else (s\<lparr>s_chain_key_recv := ck_at p (s_chain_key_recv s) k,
              s_skipped := s_skipped s @ map (\<lambda>i. \<lparr>sk_dh_pub = s_dhr_pub s, sk_n = s_nr s + word_of_nat i,
                 sk_message_key = mk_at p (s_chain_key_recv s) i, sk_created_at = now\<rparr>) [0..<k],
              s_nr := until\<rparr>, Inr ())
      else (s, Inr ()))"
  by (simp add: skip_message_keys_def kMaxSkip_def skip_loop_eq Let_def stashed_def)

text \<open>Padding hides the length up to its bucket: a plaintext of at most 4 MiB is padded to 128, 256,
  512, 1024, 2048 or a multiple of 1024 bytes, always at least one more than its length, and a longer
  one is refused.\<close>

theorem padding_buckets:
  "if n \<le> 4194304
   then \<exists>m. padded_payload_size n = Inr m \<and> n < m \<and> m \<le> 4195328 \<and>
          (m = 128 \<or> m = 256 \<or> m = 512 \<or> m = 1024 \<or> m = 2048 \<or> 1024 dvd m)
   else padded_payload_size n = Inl (RatchetError PlaintextTooLong)"
  using padded_payload_size_ok [of n] padded_payload_size_Inr [of n]
  by (auto simp: padded_payload_size_def kMaxPlaintextBytes_def)

text \<open>Sealing and opening a message body round-trips: what \<open>aead_encrypt\<close> pads and seals,
  \<open>aead_decrypt\<close> opens and strips to the same bytes, also for bodies that end in zero or 0x80 bytes,
  and the ciphertext is nonce, padded bucket and tag.\<close>

theorem message_body_roundtrip:
  assumes "aead_law p" and "length k = 32" and "length nonce = 12" and "length m \<le> 4194304"
  shows "\<exists>ct t. aead_encrypt p nonce k m aad = Inr ct \<and> aead_decrypt p k ct aad = Inr m \<and>
    padded_payload_size (length m) = Inr t \<and> length ct = 12 + t + 16"
proof -
  obtain t where t: "padded_payload_size (length m) = Inr t"
    using padded_payload_size_ok [OF assms(4)] ..
  note b = padded_payload_size_Inr [OF t]
  obtain ct where ct: "aead_encrypt p nonce k m aad = Inr ct" "aead_decrypt p k ct aad = Inr m"
    using aead_roundtrip_message [OF assms] by blast
  have "length (m @ [0x80] @ replicate (t - (length m + 1)) 0) = t"
    using b(1) by simp
  moreover from this obtain c where "aead_seal p k nonce aad (m @ [0x80] @ replicate (t - (length m + 1)) 0) = Some c"
      "length c = t + 16"
    using aead_roundtrip [OF assms(1-3), of "m @ [0x80] @ replicate (t - (length m + 1)) 0" aad] b(2) by auto
  ultimately have "length ct = 12 + t + 16"
    using ct(1) t assms(3) by (auto simp: aead_encrypt_def Let_def bindR_eq_Inr split: if_splits)
  with ct t show ?thesis
    by blast
qed

lemma message_body_roundtrip_witness:
  "\<exists>ct. aead_encrypt sample_prims (replicate 12 1) (replicate 32 2) [65, 0x80, 0] [3] = Inr ct \<and>
     aead_decrypt sample_prims (replicate 32 2) ct [3] = Inr [65, 0x80, 0] \<and> length ct = 156"
proof -
  have "padded_payload_size (length [65, 0x80, 0 :: byte]) = Inr 128"
    by (simp add: padded_payload_size_def kMaxPlaintextBytes_def)
  then show ?thesis
    using message_body_roundtrip [OF sample_aead, of "replicate 32 2" "replicate 12 1" "[65, 0x80, 0]" "[3]"]
    by auto
qed

end
