(* ===== verification/Ratchet_Conv.thy ===== *)
theory Ratchet_Conv
  imports Ratchet_Props
begin

text \<open>
  A conversation: two sessions opened from one shared secret, and the messages each has sent and
  the other not yet received. A step sends a message or delivers any message in transit, in any
  order, so a reachable state is an arbitrary interleaving of both directions with any number of
  Diffie-Hellman steps. Skipped keys expire by the receiver's clock, which is arbitrary: a decryption
  first drops the stale ones, and a party may drop them at any other time (\<open>expire_net\<close>); the
  messages they were for are lost. A decryption that fails changes nothing and is not a step.
  \<open>conv_inv\<close> relates the two sessions and is preserved by every step:

  \<^item> one party is \<open>ahead\<close>: it has seen the other's ratchet key, and its own is new to the other;
    its root key and sending chain are what the other will derive from that key;
  \<^item> every other message in transit can be read with a key the receiver can reach (\<open>rkey\<close>).

  The assumptions of a step are that a new ratchet key differs from the keys used so far and that a
  chain stays below \<open>2 ^ 32 - 1\<close>.
\<close>

datatype party = Alice | Bob

fun peer :: "party \<Rightarrow> party" where
  "peer Alice = Bob"
| "peer Bob = Alice"

lemma peer_peer [simp]: "peer (peer x) = x"
  by (cases x) simp_all

lemma peer_neq [simp]: "peer x \<noteq> x" "x \<noteq> peer x"
  by (cases x; simp)+

lemma peer_cases: "y = x \<or> y = peer x"
  by (cases x; cases y) simp_all

text \<open>A message in transit; both ends agree on the envelope prefix and the SPQR key.\<close>

record wire_msg =
  m_header :: ratchet_header
  m_ct :: bytes
  m_aad :: bytes
  m_pqk :: "bytes option"
  m_body :: bytes

record net =
  n_sess :: "party \<Rightarrow> session"
  n_wire :: "party \<Rightarrow> wire_msg list"
  n_used :: "bytes set"

definition msg_id :: "wire_msg \<Rightarrow> bytes \<times> u32" where
  "msg_id m = header_key (m_header m)"

text \<open>The receiver skipped this message, and the key it stashed has outlived its lifetime.\<close>

definition key_expired :: "u64 \<Rightarrow> session \<Rightarrow> wire_msg \<Rightarrow> bool" where
  "key_expired now s m \<longleftrightarrow> (\<exists>k \<in> set (s_skipped s). key_of k = msg_id m \<and> stale_key now k)"

text \<open>One party drops its expired keys; the messages they were for are lost to it.\<close>

definition expire_net :: "u64 \<Rightarrow> party \<Rightarrow> net \<Rightarrow> net" where
  "expire_net now y N = N\<lparr>
     n_sess := (n_sess N)(y := fst (expire_skipped_keys now (n_sess N y))),
     n_wire := (n_wire N)(peer y := filter (\<lambda>m. \<not> key_expired now (n_sess N y) m) (n_wire N (peer y)))\<rparr>"

text \<open>Alice opened the session with \<open>init_sender\<close>, Bob with \<open>init_receiver\<close>.\<close>

definition net_start :: "prims \<Rightarrow> bytes \<Rightarrow> net \<Rightarrow> bool" where
  "net_start p secret N \<longleftrightarrow>
     (\<exists>eph_pk eph_sk b_pk b_sk s0 s1.
        x_pair p eph_pk eph_sk \<and> x_pair p b_pk b_sk \<and> eph_pk \<noteq> b_pk \<and>
        init_sender p secret eph_sk eph_pk b_pk s0 = (n_sess N Alice, Inr ()) \<and>
        n_sess N Bob = init_receiver secret b_sk b_pk s1 \<and>
        n_wire N = (\<lambda>_. []) \<and> n_used N = {eph_pk, b_pk})"

inductive net_step :: "prims \<Rightarrow> net \<Rightarrow> net \<Rightarrow> bool" for p where
  send: "length nonce = 12 \<Longrightarrow> length body \<le> kMaxPlaintextBytes \<Longrightarrow>
    unat (s_ns (n_sess N x)) < 4294967295 \<Longrightarrow>
    ratchet_encrypt p nonce body aad pqk (n_sess N x) = (s', Inr (h, ct)) \<Longrightarrow>
    net_step p N (N\<lparr>n_sess := (n_sess N)(x := s'),
      n_wire := (n_wire N)(x := n_wire N x @
        [\<lparr>m_header = h, m_ct = ct, m_aad = aad, m_pqk = pqk, m_body = body\<rparr>])\<rparr>)"
| deliver: "M = expire_net (clk 0) (peer x) N \<Longrightarrow> i < length (n_wire M x) \<Longrightarrow> m = n_wire M x ! i \<Longrightarrow>
    generate_keypair p rnd = Inr (pub, sk) \<Longrightarrow> pub \<notin> n_used N \<Longrightarrow>
    ratchet_decrypt p clk rnd (m_header m) (m_ct m) (m_aad m) (m_pqk m) (n_sess N (peer x)) = (s', Inr body) \<Longrightarrow>
    net_step p N (M\<lparr>n_sess := (n_sess M)(peer x := s'),
      n_wire := (n_wire M)(x := erase_at i (n_wire M x)), n_used := insert pub (n_used M)\<rparr>)"
| expire: "net_step p N (expire_net now x N)"

inductive conv :: "prims \<Rightarrow> bytes \<Rightarrow> net \<Rightarrow> bool" for p secret where
  start: "net_start p secret N \<Longrightarrow> conv p secret N"
| step: "conv p secret N \<Longrightarrow> net_step p N N' \<Longrightarrow> conv p secret N'"

section \<open>The invariant\<close>

definition m_opens :: "prims \<Rightarrow> bytes \<Rightarrow> wire_msg \<Rightarrow> bool" where
  "m_opens p mk m \<longleftrightarrow> opens p mk (m_header m) (m_ct m) (m_aad m) (m_pqk m) (m_body m)"

definition readable :: "prims \<Rightarrow> session \<Rightarrow> wire_msg \<Rightarrow> bool" where
  "readable p s m \<longleftrightarrow> (\<exists>mk. rkey p s (msg_id m) = Some mk \<and> m_opens p mk m)"

definition base_inv :: "prims \<Rightarrow> bytes set \<Rightarrow> session \<Rightarrow> bool" where
  "base_inv p U s \<longleftrightarrow> cache_ok s \<and> x_pair p (s_dhs_pub s) (s_dhs_sk s) \<and>
     (s_has_ckr s \<longrightarrow> s_has_dhr s) \<and> s_dhs_pub s \<in> U \<and> (s_has_dhr s \<longrightarrow> s_dhr_pub s \<in> U) \<and>
     (\<forall>k \<in> set (s_skipped s). sk_dh_pub k \<in> U)"

definition wire_inv :: "bytes set \<Rightarrow> wire_msg list \<Rightarrow> bool" where
  "wire_inv U w \<longleftrightarrow> distinct (map msg_id w) \<and>
     (\<forall>m \<in> set w. fst (msg_id m) \<in> U \<and> unat (snd (msg_id m)) < 4294967295)"

text \<open>The messages of \<open>Y\<close> are on a chain \<open>X\<close> knows.\<close>

definition known :: "prims \<Rightarrow> session \<Rightarrow> session \<Rightarrow> wire_msg list \<Rightarrow> bool" where
  "known p Y X YX \<longleftrightarrow>
     (if s_has_cks Y
      then s_has_ckr X \<and> s_nr X \<le> s_ns Y \<and>
           (\<exists>ck. s_chain_key_send Y = ck_at p ck (unat (s_ns Y)) \<and>
                 s_chain_key_recv X = ck_at p ck (unat (s_nr X)))
      else YX = []) \<and>
     (\<forall>m \<in> set YX. readable p X m \<and> (fst (msg_id m) = s_dhs_pub Y \<longrightarrow> snd (msg_id m) < s_ns Y))"

text \<open>The messages of \<open>X\<close> are on its new chain, or on chains \<open>Y\<close> knows and \<open>pn\<close> bounds.\<close>

definition pending :: "prims \<Rightarrow> session \<Rightarrow> session \<Rightarrow> wire_msg list \<Rightarrow> bool" where
  "pending p X Y XY \<longleftrightarrow> s_has_cks X \<and>
     (\<exists>z ck. x25519_dh p (s_dhs_sk X) (s_dhs_pub Y) = Inr z \<and> kdf_rk p (s_root_key Y) z = Inr (s_root_key X, ck) \<and>
        s_chain_key_send X = ck_at p ck (unat (s_ns X)) \<and>
        (\<forall>m \<in> set XY. fst (msg_id m) = s_dhs_pub X \<longrightarrow>
           snd (msg_id m) < s_ns X \<and> h_pn (m_header m) = s_pn X \<and>
           m_opens p (mk_at p ck (unat (snd (msg_id m)))) m)) \<and>
     (\<forall>m \<in> set XY. fst (msg_id m) \<noteq> s_dhs_pub X \<longrightarrow>
        readable p Y m \<and> (on_chain Y (msg_id m) \<longrightarrow> snd (msg_id m) < s_pn X))"

definition ahead :: "prims \<Rightarrow> session \<Rightarrow> session \<Rightarrow> wire_msg list \<Rightarrow> wire_msg list \<Rightarrow> bool" where
  "ahead p X Y XY YX \<longleftrightarrow> s_has_dhr X \<and> s_dhr_pub X = s_dhs_pub Y \<and>
     \<not> (s_has_dhr Y \<and> s_dhr_pub Y = s_dhs_pub X) \<and> s_dhs_pub X \<notin> fst ` dom (cache Y) \<and>
     pending p X Y XY \<and> known p Y X YX"

definition pair_inv ::
  "prims \<Rightarrow> bytes set \<Rightarrow> session \<Rightarrow> session \<Rightarrow> wire_msg list \<Rightarrow> wire_msg list \<Rightarrow> bool" where
  "pair_inv p U X Y XY YX \<longleftrightarrow> ahead p X Y XY YX \<and> base_inv p U X \<and> base_inv p U Y \<and>
     wire_inv U XY \<and> wire_inv U YX"

definition conv_inv :: "prims \<Rightarrow> net \<Rightarrow> bool" where
  "conv_inv p N \<longleftrightarrow>
     (\<exists>x. pair_inv p (n_used N) (n_sess N x) (n_sess N (peer x)) (n_wire N x) (n_wire N (peer x)))"

section \<open>Sending\<close>

lemma sending_cache [simp]:
  "cache (s\<lparr>s_chain_key_send := c, s_ns := n\<rparr>) = cache s"
  "on_chain (s\<lparr>s_chain_key_send := c, s_ns := n\<rparr>) = on_chain s"
  by (simp_all add: cache_def on_chain_def [abs_def])

lemma sending_rkey [simp]:
  "rkey p (s\<lparr>s_chain_key_send := c, s_ns := n\<rparr>) = rkey p s"
  "cache_ok (s\<lparr>s_chain_key_send := c, s_ns := n\<rparr>) = cache_ok s"
  by (rule ext, simp add: rkey_def split: option.split) (simp add: cache_ok_def)

lemma readable_sending [simp]: "readable p (s\<lparr>s_chain_key_send := c, s_ns := n\<rparr>) = readable p s"
  by (simp add: readable_def [abs_def])

lemma base_inv_sending [simp]: "base_inv p U (s\<lparr>s_chain_key_send := c, s_ns := n\<rparr>) = base_inv p U s"
  by (simp add: base_inv_def)

lemma message_aead_key_length:
  assumes "hmac_law p" and "length mk = 32" and "message_aead_key p mk pqk = Inr k"
  shows "length k = 32"
  using assms hkdf_expand_length [OF assms(1)]
  by (auto simp: message_aead_key_def combine_message_keys_def split: option.splits)

lemma ratchet_encrypt_Inr:
  assumes h: "hmac_law p" and a: "aead_law p" and l: "length nonce = 12" "length body \<le> kMaxPlaintextBytes"
    and e: "ratchet_encrypt p nonce body aad pqk s = (s', Inr (hdr, ct))"
  shows "s_has_cks s" and "s' = s\<lparr>s_chain_key_send := ck_at p (s_chain_key_send s) 1, s_ns := s_ns s + 1\<rparr>"
    and "hdr = \<lparr>h_dh_pub = s_dhs_pub s, h_pn = s_pn s, h_n = s_ns s\<rparr>"
    and "opens p (mk_at p (s_chain_key_send s) 0) hdr ct aad pqk body"
proof -
  have kc: "kdf_ck p (s_chain_key_send s) = (ck_at p (s_chain_key_send s) 1, mk_at p (s_chain_key_send s) 0)"
    using kdf_ck_at [of p "s_chain_key_send s" 0] by simp
  from e obtain ra k where hk: "s_has_cks s"
    and s': "s' = s\<lparr>s_chain_key_send := ck_at p (s_chain_key_send s) 1, s_ns := s_ns s + 1\<rparr>"
    and hdr: "hdr = \<lparr>h_dh_pub = s_dhs_pub s, h_pn = s_pn s, h_n = s_ns s\<rparr>"
    and ra: "header_aad hdr = Inr ra" and k: "message_aead_key p (mk_at p (s_chain_key_send s) 0) pqk = Inr k"
    and ct: "aead_encrypt p nonce k body (aad @ ra) = Inr ct"
    by (auto simp: ratchet_encrypt_def kc Let_def bindR_eq_Inr split: if_splits)
  show "s_has_cks s" "s' = s\<lparr>s_chain_key_send := ck_at p (s_chain_key_send s) 1, s_ns := s_ns s + 1\<rparr>"
    "hdr = \<lparr>h_dh_pub = s_dhs_pub s, h_pn = s_pn s, h_n = s_ns s\<rparr>"
    by (fact hk s' hdr)+
  have "length k = 32"
    using message_aead_key_length [OF h mk_at_length [OF h] k] .
  from aead_roundtrip_message [OF a this l(1), of body "aad @ ra"] l(2) ct
  have "aead_decrypt p k ct (aad @ ra) = Inr body"
    by (auto simp: kMaxPlaintextBytes_def)
  with ra k show "opens p (mk_at p (s_chain_key_send s) 0) hdr ct aad pqk body"
    by (auto simp: opens_def)
qed

lemma unat_Suc_ns: "unat (n :: u32) < 4294967295 \<Longrightarrow> unat (n + 1) = unat n + 1"
  using unat_u32_Suc [of n "0xFFFFFFFF"] by (simp add: word_less_nat_alt)

lemma less_Suc_ns: "unat (n :: u32) < 4294967295 \<Longrightarrow> m < n \<or> m = n \<Longrightarrow> m < n + 1"
  using unat_Suc_ns [of n] by (auto simp: word_less_nat_alt)

lemma wire_inv_snoc:
  assumes "wire_inv U w" and "msg_id m = (d, n)" and "d \<in> U" and "unat n < 4294967295"
    and "\<And>m'. m' \<in> set w \<Longrightarrow> fst (msg_id m') = d \<Longrightarrow> snd (msg_id m') < n"
  shows "wire_inv U (w @ [m])"
proof -
  have "(d, n) \<notin> msg_id ` set w"
  proof
    assume "(d, n) \<in> msg_id ` set w"
    then obtain m' where "m' \<in> set w" and "msg_id m' = (d, n)"
      by (metis imageE)
    with assms(5) [of m'] show False
      by simp
  qed
  then show ?thesis
    using assms(1-4) by (auto simp: wire_inv_def)
qed

lemma send_ahead:
  assumes h: "hmac_law p" and a: "aead_law p" and l: "length nonce = 12" "length body \<le> kMaxPlaintextBytes"
    and n: "unat (s_ns X) < 4294967295"
    and e: "ratchet_encrypt p nonce body aad pqk X = (X', Inr (hdr, ct))"
    and m: "m = \<lparr>m_header = hdr, m_ct = ct, m_aad = aad, m_pqk = pqk, m_body = body\<rparr>"
    and inv: "pair_inv p U X Y XY YX"
  shows "pair_inv p U X' Y (XY @ [m]) YX"
proof -
  note e' = ratchet_encrypt_Inr [OF h a l e]
  note X' = e'(2) and hdr = e'(3) and op = e'(4)
  have id: "msg_id m = (s_dhs_pub X, s_ns X)"
    by (simp add: m msg_id_def header_key_def hdr)
  have mo: "m_opens p (mk_at p (s_chain_key_send X) 0) m"
    using op by (simp add: m_opens_def m)
  from inv have ah: "ahead p X Y XY YX" and wi: "wire_inv U XY" and bx: "base_inv p U X"
    by (simp_all add: pair_inv_def)
  from ah obtain z ck where z: "x25519_dh p (s_dhs_sk X) (s_dhs_pub Y) = Inr z"
      "kdf_rk p (s_root_key Y) z = Inr (s_root_key X, ck)"
    and cks: "s_chain_key_send X = ck_at p ck (unat (s_ns X))"
    and new: "\<And>m. m \<in> set XY \<Longrightarrow> fst (msg_id m) = s_dhs_pub X \<Longrightarrow> snd (msg_id m) < s_ns X \<and>
        h_pn (m_header m) = s_pn X \<and> m_opens p (mk_at p ck (unat (snd (msg_id m)))) m"
    and old: "\<And>m. m \<in> set XY \<Longrightarrow> fst (msg_id m) \<noteq> s_dhs_pub X \<Longrightarrow>
        readable p Y m \<and> (on_chain Y (msg_id m) \<longrightarrow> snd (msg_id m) < s_pn X)"
    unfolding ahead_def pending_def by blast
  have mo': "m_opens p (mk_at p ck (unat (s_ns X))) m"
    using mo by (simp add: cks mk_at_add)
  have "snd (msg_id m') < s_ns X' \<and> h_pn (m_header m') = s_pn X' \<and>
      m_opens p (mk_at p ck (unat (snd (msg_id m')))) m'"
    if "m' \<in> set (XY @ [m])" and "fst (msg_id m') = s_dhs_pub X'" for m'
  proof (cases "m' = m")
    case True
    then show ?thesis
      using mo' less_Suc_ns [OF n] by (simp add: id X') (simp add: m hdr)
  next
    case False
    with that show ?thesis
      using new [of m'] less_Suc_ns [OF n] by (simp add: X')
  qed
  moreover have "\<forall>m' \<in> set (XY @ [m]). fst (msg_id m') \<noteq> s_dhs_pub X' \<longrightarrow>
      readable p Y m' \<and> (on_chain Y (msg_id m') \<longrightarrow> snd (msg_id m') < s_pn X')"
    using old by (simp add: X' id)
  moreover have "s_chain_key_send X' = ck_at p ck (unat (s_ns X'))"
    using cks unat_Suc_ns [OF n] by (simp add: X' ck_at_add)
  ultimately have "pending p X' Y (XY @ [m])"
    using z e'(1) unfolding pending_def by (auto simp: X')
  then have "ahead p X' Y (XY @ [m]) YX"
    using ah by (simp add: ahead_def X' known_def)
  moreover have "wire_inv U (XY @ [m])"
    using wi new bx by (intro wire_inv_snoc [OF wi id _ n]) (auto simp: base_inv_def)
  ultimately show ?thesis
    using inv by (simp add: pair_inv_def X')
qed

lemma send_behind:
  assumes h: "hmac_law p" and a: "aead_law p" and l: "length nonce = 12" "length body \<le> kMaxPlaintextBytes"
    and n: "unat (s_ns Y) < 4294967295"
    and e: "ratchet_encrypt p nonce body aad pqk Y = (Y', Inr (hdr, ct))"
    and m: "m = \<lparr>m_header = hdr, m_ct = ct, m_aad = aad, m_pqk = pqk, m_body = body\<rparr>"
    and inv: "pair_inv p U X Y XY YX"
  shows "pair_inv p U X Y' XY (YX @ [m])"
proof -
  note e' = ratchet_encrypt_Inr [OF h a l e]
  note Y' = e'(2) and hdr = e'(3) and op = e'(4)
  have id: "msg_id m = (s_dhs_pub Y, s_ns Y)"
    by (simp add: m msg_id_def header_key_def hdr)
  have mo: "m_opens p (mk_at p (s_chain_key_send Y) 0) m"
    using op by (simp add: m_opens_def m)
  from inv have ah: "ahead p X Y XY YX" and wi: "wire_inv U YX" and bx: "base_inv p U X" "base_inv p U Y"
    by (simp_all add: pair_inv_def)
  from ah e'(1) obtain ck where kn: "s_has_ckr X" "s_nr X \<le> s_ns Y"
      "s_chain_key_send Y = ck_at p ck (unat (s_ns Y))" "s_chain_key_recv X = ck_at p ck (unat (s_nr X))"
    and old: "\<And>m. m \<in> set YX \<Longrightarrow> readable p X m \<and> (fst (msg_id m) = s_dhs_pub Y \<longrightarrow> snd (msg_id m) < s_ns Y)"
    unfolding ahead_def known_def by auto
  have oc: "on_chain X (msg_id m)"
    using ah kn by (simp add: on_chain_def ahead_def id)
  then have "cache X (msg_id m) = None"
    using bx by (auto simp: base_inv_def cache_ok_def)
  then have "rkey p X (msg_id m) = Some (mk_at p (s_chain_key_recv X) (unat (s_ns Y) - unat (s_nr X)))"
    using oc by (simp add: rkey_def id)
  also have "mk_at p (s_chain_key_recv X) (unat (s_ns Y) - unat (s_nr X)) = mk_at p (s_chain_key_send Y) 0"
    using kn by (simp add: mk_at_add word_le_nat_alt)
  finally have rm: "readable p X m"
    using mo by (auto simp: readable_def)
  have le: "s_nr X \<le> s_ns Y + 1"
    using kn(2) unat_Suc_ns [OF n] by (simp add: word_le_nat_alt)
  have "known p Y' X (YX @ [m])"
    unfolding known_def
  proof (intro conjI)
    show "if s_has_cks Y' then s_has_ckr X \<and> s_nr X \<le> s_ns Y' \<and>
          (\<exists>ck. s_chain_key_send Y' = ck_at p ck (unat (s_ns Y')) \<and>
                s_chain_key_recv X = ck_at p ck (unat (s_nr X))) else YX @ [m] = []"
      using kn e'(1) le unat_Suc_ns [OF n] by (auto simp: Y' ck_at_add intro!: exI [of _ ck])
    show "\<forall>m' \<in> set (YX @ [m]). readable p X m' \<and> (fst (msg_id m') = s_dhs_pub Y' \<longrightarrow> snd (msg_id m') < s_ns Y')"
      using old rm less_Suc_ns [OF n] by (auto simp: Y' id)
  qed
  then have "ahead p X Y' XY (YX @ [m])"
    using ah by (simp add: ahead_def Y' pending_def)
  moreover have "wire_inv U (YX @ [m])"
    using wi old bx by (intro wire_inv_snoc [OF wi id _ n]) (auto simp: base_inv_def)
  ultimately show ?thesis
    using inv by (simp add: pair_inv_def Y')
qed

section \<open>Delivering\<close>

lemma wire_inv_erase:
  assumes "wire_inv U w" and "i < length w"
  shows "wire_inv U (erase_at i w)" and "m \<in> set (erase_at i w) \<Longrightarrow> m \<in> set w \<and> msg_id m \<noteq> msg_id (w ! i)"
proof -
  have e: "set (erase_at i w) = {m \<in> set w. msg_id m \<noteq> msg_id (w ! i)}"
    using assms by (intro set_erase_at) (auto simp: wire_inv_def)
  show "wire_inv U (erase_at i w)"
    using assms(1) by (auto simp: wire_inv_def e map_erase_at distinct_erase_at)
  show "m \<in> set (erase_at i w) \<Longrightarrow> m \<in> set w \<and> msg_id m \<noteq> msg_id (w ! i)"
    by (simp add: e)
qed

lemma wire_inv_mono: "wire_inv U w \<Longrightarrow> U \<subseteq> V \<Longrightarrow> wire_inv V w"
  by (auto simp: wire_inv_def)

lemma base_inv_mono: "base_inv p U s \<Longrightarrow> U \<subseteq> V \<Longrightarrow> base_inv p V s"
  by (auto simp: base_inv_def)

lemma readable_remove:
  "readable p s m \<Longrightarrow> rkey p s' = (rkey p s)(i := None) \<Longrightarrow> msg_id m \<noteq> i \<Longrightarrow> readable p s' m"
  by (auto simp: readable_def)

text \<open>The receiver of a message on a known chain; \<open>D\<close> is what the delivery does to it.\<close>

definition received_known :: "prims \<Rightarrow> (nat \<Rightarrow> u64) \<Rightarrow> session \<Rightarrow> wire_msg \<Rightarrow> session \<Rightarrow> bool" where
  "received_known p clk s m s' \<longleftrightarrow> cache_ok s' \<and> rkey p s' = (rkey p s)(msg_id m := None) \<and>
     (\<exists>c l nr. s' = s\<lparr>s_chain_key_recv := c, s_skipped := l, s_nr := nr\<rparr> \<and>
        (nr = s_nr s \<and> c = s_chain_key_recv s \<or>
         on_chain s (msg_id m) \<and> nr = snd (msg_id m) + 1 \<and>
           c = ck_at p (s_chain_key_recv s) (unat (snd (msg_id m)) + 1 - unat (s_nr s))) \<and>
        new_keys_from {clk 2} (if s_has_ckr s then {s_dhr_pub s} else {}) (s_skipped s) l)"

lemma deliver_known:
  assumes bi: "base_inv p U s" and f: "\<forall>k \<in> set (s_skipped s). \<not> stale_key (clk 0) k"
    and n: "unat (snd (msg_id m)) < 4294967295" and r: "readable p s m"
    and d: "ratchet_decrypt p clk rnd (m_header m) (m_ct m) (m_aad m) (m_pqk m) s = (s', res)"
  shows "res = Inr (m_body m) \<and> received_known p clk s m s' \<or>
    res = Inl (RatchetError TooManySkipped) \<and>
      length (s_skipped s) + (unat (snd (msg_id m)) - unat (s_nr s)) > 1000"
proof -
  from r obtain mk where mk: "rkey p s (header_key (m_header m)) = Some mk"
      and op: "opens p mk (m_header m) (m_ct m) (m_aad m) (m_pqk m) (m_body m)"
    by (auto simp: readable_def m_opens_def msg_id_def)
  have ok: "cache_ok s"
    using bi by (simp add: base_inv_def)
  have n': "unat (h_n (m_header m)) < 4294967295"
    using n by (simp add: msg_id_def header_key_def)
  have id: "header_key (m_header m) = msg_id m" and hn: "h_n (m_header m) = snd (msg_id m)"
    by (simp_all add: msg_id_def header_key_def)
  from decrypt_known [where clk = clk and rnd = rnd, OF ok f n' mk op] d show ?thesis
    unfolding id hn received_known_def by (elim disjE [of "\<exists>s1 c l nr. P s1 c l nr" for P]) auto
qed

lemma received_known_base:
  assumes "base_inv p U s" and "received_known p clk s m s'"
  shows "base_inv p U s'"
proof -
  from assms(2) obtain c l nr where s': "s' = s\<lparr>s_chain_key_recv := c, s_skipped := l, s_nr := nr\<rparr>"
      and nk: "new_keys_from {clk 2} (if s_has_ckr s then {s_dhr_pub s} else {}) (s_skipped s) l"
      and ok: "cache_ok s'"
    by (auto simp: received_known_def)
  have "sk_dh_pub k \<in> U" if "k \<in> set l" for k
    using that nk assms(1) by (auto simp: new_keys_from_def base_inv_def split: if_splits)
  with assms(1) ok show ?thesis
    by (simp add: base_inv_def s')
qed

lemma received_known_chain:
  assumes n: "unat (snd (msg_id m)) < 4294967295" and "received_known p clk s m s'" and "on_chain s' i"
  shows "on_chain s i"
proof -
  from assms(2) obtain c l nr where s': "s' = s\<lparr>s_chain_key_recv := c, s_skipped := l, s_nr := nr\<rparr>"
      and nr: "nr = s_nr s \<or> on_chain s (msg_id m) \<and> nr = snd (msg_id m) + 1"
    by (auto simp: received_known_def)
  have "s_nr s \<le> nr"
    using nr unat_Suc_ns [OF n] by (auto simp: on_chain_def word_le_nat_alt)
  with assms(3) show ?thesis
    by (auto simp: on_chain_def s')
qed

lemma deliver_to_ahead:
  assumes inv: "pair_inv p U X Y XY YX"
    and i: "i < length YX" and r: "received_known p clk X (YX ! i) X'"
  shows "pair_inv p U X' Y XY (erase_at i YX)"
proof -
  let ?m = "YX ! i"
  from inv have ah: "ahead p X Y XY YX" and wi: "wire_inv U YX" and bx: "base_inv p U X"
    by (simp_all add: pair_inv_def)
  have mi: "?m \<in> set YX" and n: "unat (snd (msg_id ?m)) < 4294967295"
    using i wi by (auto simp: wire_inv_def)
  from r obtain c l nr where X': "X' = X\<lparr>s_chain_key_recv := c, s_skipped := l, s_nr := nr\<rparr>"
      and nr: "nr = s_nr X \<and> c = s_chain_key_recv X \<or>
         on_chain X (msg_id ?m) \<and> nr = snd (msg_id ?m) + 1 \<and>
           c = ck_at p (s_chain_key_recv X) (unat (snd (msg_id ?m)) + 1 - unat (s_nr X))"
      and rk: "rkey p X' = (rkey p X)(msg_id ?m := None)"
    by (auto simp: received_known_def)
  from ah have kn: "known p Y X YX" and dhr: "s_dhr_pub X = s_dhs_pub Y"
    by (simp_all add: ahead_def)
  have "s_has_cks Y"
    using kn mi by (auto simp: known_def split: if_splits)
  then obtain ck where ck: "s_has_ckr X" "s_nr X \<le> s_ns Y" "s_chain_key_send Y = ck_at p ck (unat (s_ns Y))"
      "s_chain_key_recv X = ck_at p ck (unat (s_nr X))"
    and old: "\<And>m. m \<in> set YX \<Longrightarrow> readable p X m \<and> (fst (msg_id m) = s_dhs_pub Y \<longrightarrow> snd (msg_id m) < s_ns Y)"
    using kn by (auto simp: known_def)
  have "nr \<le> s_ns Y \<and> c = ck_at p ck (unat nr)"
    using nr
  proof (elim disjE conjE)
    assume oc: "on_chain X (msg_id ?m)" and nr: "nr = snd (msg_id ?m) + 1"
      and c: "c = ck_at p (s_chain_key_recv X) (unat (snd (msg_id ?m)) + 1 - unat (s_nr X))"
    from oc dhr have "fst (msg_id ?m) = s_dhs_pub Y" and le: "s_nr X \<le> snd (msg_id ?m)"
      by (simp_all add: on_chain_def)
    with old [OF mi] have "snd (msg_id ?m) < s_ns Y"
      by simp
    then show ?thesis
      using le c nr unat_Suc_ns [OF n]
      by (simp add: ck(4) ck_at_add word_le_nat_alt word_less_nat_alt)
  qed (use ck in simp)
  then have "known p Y X' (erase_at i YX)"
    using \<open>s_has_cks Y\<close> ck old readable_remove [OF _ rk] wire_inv_erase(2) [OF wi i]
    unfolding known_def by (auto simp: X')
  then have "ahead p X' Y XY (erase_at i YX)"
    using ah by (simp add: ahead_def X' pending_def)
  then show ?thesis
    using inv received_known_base [OF bx r] wire_inv_erase(1) [OF wi i] by (simp add: pair_inv_def)
qed

lemma deliver_to_behind:
  assumes inv: "pair_inv p U X Y XY YX"
    and i: "i < length XY" and r: "received_known p clk Y (XY ! i) Y'"
    and old: "fst (msg_id (XY ! i)) \<noteq> s_dhs_pub X"
  shows "pair_inv p U X Y' (erase_at i XY) YX"
proof -
  let ?m = "XY ! i"
  from inv have ah: "ahead p X Y XY YX" and wi: "wire_inv U XY" and bx: "base_inv p U Y"
    by (simp_all add: pair_inv_def)
  have mi: "?m \<in> set XY" and n: "unat (snd (msg_id ?m)) < 4294967295"
    using i wi by (auto simp: wire_inv_def)
  from r obtain c l nr where Y': "Y' = Y\<lparr>s_chain_key_recv := c, s_skipped := l, s_nr := nr\<rparr>"
      and nk: "new_keys_from {clk 2} (if s_has_ckr Y then {s_dhr_pub Y} else {}) (s_skipped Y) l"
      and rk: "rkey p Y' = (rkey p Y)(msg_id ?m := None)"
    by (auto simp: received_known_def)
  have "s_dhs_pub X \<notin> fst ` dom (cache Y')"
  proof
    assume "s_dhs_pub X \<in> fst ` dom (cache Y')"
    then obtain k where k: "k \<in> set l" "sk_dh_pub k = s_dhs_pub X"
      by (auto simp: dom_cache Y' key_of_def)
    then have "k \<in> set (s_skipped Y) \<or> s_has_ckr Y \<and> s_dhs_pub X = s_dhr_pub Y"
      using nk by (auto simp: new_keys_from_def split: if_splits)
    with ah bx k(2) show False
      by (force simp: ahead_def base_inv_def dom_cache key_of_def image_iff)
  qed
  moreover have "pending p X Y' (erase_at i XY)"
  proof -
    have "readable p Y' m \<and> (on_chain Y' (msg_id m) \<longrightarrow> snd (msg_id m) < s_pn X)"
      if m: "m \<in> set (erase_at i XY)" and "fst (msg_id m) \<noteq> s_dhs_pub X" for m
      using wire_inv_erase(2) [OF wi i m] ah that readable_remove [OF _ rk, of m]
        received_known_chain [OF n r, of "msg_id m"]
      by (auto simp: ahead_def pending_def)
    moreover from ah obtain z ck where "x25519_dh p (s_dhs_sk X) (s_dhs_pub Y) = Inr z"
      "kdf_rk p (s_root_key Y) z = Inr (s_root_key X, ck)" "s_has_cks X"
      "s_chain_key_send X = ck_at p ck (unat (s_ns X))"
      "\<forall>m \<in> set XY. fst (msg_id m) = s_dhs_pub X \<longrightarrow> snd (msg_id m) < s_ns X \<and>
        h_pn (m_header m) = s_pn X \<and> m_opens p (mk_at p ck (unat (snd (msg_id m)))) m"
      unfolding ahead_def pending_def by blast
    ultimately show ?thesis
      using wire_inv_erase(2) [OF wi i] unfolding pending_def by (auto simp: Y')
  qed
  ultimately have "ahead p X Y' (erase_at i XY) YX"
    using ah by (simp add: ahead_def Y' known_def)
  then show ?thesis
    using inv received_known_base [OF bx r] wire_inv_erase(1) [OF wi i] by (simp add: pair_inv_def)
qed

section \<open>Delivering the first message of a new chain\<close>

lemma pendingE:
  assumes "pending p X Y XY"
  obtains z ck where "s_has_cks X" "x25519_dh p (s_dhs_sk X) (s_dhs_pub Y) = Inr z"
    "kdf_rk p (s_root_key Y) z = Inr (s_root_key X, ck)" "s_chain_key_send X = ck_at p ck (unat (s_ns X))"
    "\<And>m. m \<in> set XY \<Longrightarrow> fst (msg_id m) = s_dhs_pub X \<Longrightarrow> snd (msg_id m) < s_ns X \<and>
      h_pn (m_header m) = s_pn X \<and> m_opens p (mk_at p ck (unat (snd (msg_id m)))) m"
    "\<And>m. m \<in> set XY \<Longrightarrow> fst (msg_id m) \<noteq> s_dhs_pub X \<Longrightarrow>
      readable p Y m \<and> (on_chain Y (msg_id m) \<longrightarrow> snd (msg_id m) < s_pn X)"
  using assms unfolding pending_def by blast

lemma knownE:
  assumes "known p Y X YX"
  obtains "YX = []" "\<not> s_has_cks Y"
  | ck where "s_has_cks Y" "s_has_ckr X" "s_nr X \<le> s_ns Y" "s_chain_key_send Y = ck_at p ck (unat (s_ns Y))"
      "s_chain_key_recv X = ck_at p ck (unat (s_nr X))"
      "\<And>m. m \<in> set YX \<Longrightarrow> readable p X m \<and> (fst (msg_id m) = s_dhs_pub Y \<longrightarrow> snd (msg_id m) < s_ns Y)"
  using assms unfolding known_def by (auto split: if_splits)

text \<open>What the delivery of a new chain's message does to its receiver.\<close>

definition received_new ::
  "prims \<Rightarrow> bytes set \<Rightarrow> session \<Rightarrow> session \<Rightarrow> wire_msg \<Rightarrow> bytes \<Rightarrow> bytes \<Rightarrow> bytes \<Rightarrow> session \<Rightarrow> bool" where
  "received_new p U X Y m ck pub sk Y' \<longleftrightarrow> cache_ok Y' \<and> rkey p Y' (msg_id m) = None \<and>
     (\<forall>n. n \<noteq> snd (msg_id m) \<longrightarrow> rkey p Y' (s_dhs_pub X, n) = Some (mk_at p ck (unat n))) \<and>
     (\<forall>i mk. fst i \<noteq> s_dhs_pub X \<and> rkey p Y i = Some mk \<and> (on_chain Y i \<longrightarrow> snd i < s_pn X)
        \<longrightarrow> rkey p Y' i = Some mk) \<and>
     (\<exists>z rk cks l. x25519_dh p sk (s_dhs_pub X) = Inr z \<and> kdf_rk p (s_root_key X) z = Inr (rk, cks) \<and>
        Y' = Y\<lparr>s_pn := s_ns Y, s_ns := 0, s_nr := snd (msg_id m) + 1, s_dhr_pub := s_dhs_pub X,
               s_has_dhr := True, s_root_key := rk,
               s_chain_key_recv := ck_at p ck (unat (snd (msg_id m)) + 1), s_has_ckr := True,
               s_dhs_sk := sk, s_dhs_pub := pub, s_chain_key_send := cks, s_has_cks := True,
               s_skipped := l\<rparr> \<and>
        (\<forall>k \<in> set l. sk_dh_pub k \<in> U))"

lemma deliver_new:
  assumes x: "x25519_law p" and inv: "pair_inv p U X Y XY YX"
    and f: "\<forall>k \<in> set (s_skipped Y). \<not> stale_key (clk 0) k"
    and m: "m \<in> set XY" "fst (msg_id m) = s_dhs_pub X"
    and kp: "generate_keypair p rnd = Inr (pub, sk)"
    and z: "x25519_dh p (s_dhs_sk X) (s_dhs_pub Y) = Inr z" "kdf_rk p (s_root_key Y) z = Inr (s_root_key X, ck)"
    and op: "m_opens p (mk_at p ck (unat (snd (msg_id m)))) m" and pn: "h_pn (m_header m) = s_pn X"
    and d: "ratchet_decrypt p clk rnd (m_header m) (m_ct m) (m_aad m) (m_pqk m) Y = (Y', res)"
  shows "res = Inr (m_body m) \<and> received_new p U X Y m ck pub sk Y' \<or>
    res = Inl (RatchetError TooManySkipped) \<and>
      length (s_skipped Y) + unat (h_pn (m_header m)) + unat (snd (msg_id m)) > 1000"
proof -
  from inv have ah: "ahead p X Y XY YX" and wi: "wire_inv U XY"
      and bx: "base_inv p U X" "base_inv p U Y"
    by (simp_all add: pair_inv_def)
  have id: "header_key (m_header m) = msg_id m" and hn: "h_n (m_header m) = snd (msg_id m)"
      and hp: "h_dh_pub (m_header m) = s_dhs_pub X"
    using m(2) by (simp_all add: msg_id_def header_key_def)
  have n: "unat (h_n (m_header m)) < 4294967295"
    using wi m(1) by (auto simp: wire_inv_def hn)
  have px: "x_pair p (s_dhs_pub X) (s_dhs_sk X)" and py: "x_pair p (s_dhs_pub Y) (s_dhs_sk Y)"
      and ok: "cache_ok Y" and hc: "s_has_ckr Y \<longrightarrow> s_has_dhr Y"
    using bx by (simp_all add: base_inv_def)
  have new: "\<not> s_has_dhr Y \<or> h_dh_pub (m_header m) \<noteq> s_dhr_pub Y"
      "h_dh_pub (m_header m) \<notin> fst ` dom (cache Y)"
    using ah by (auto simp: ahead_def hp)
  have dh1: "x25519_dh p (s_dhs_sk Y) (h_dh_pub (m_header m)) = Inr z"
    using dh_commutes [OF x px py] z(1) by (simp add: hp)
  obtain z2 where dh2: "x25519_dh p sk (h_dh_pub (m_header m)) = Inr z2"
    using dh_pair [OF x conjunct1 [OF generate_keypair_pair [OF x kp]] px] by (auto simp: hp)
  obtain rk2 cks where kd2: "kdf_rk p (s_root_key X) z2 = Inr (rk2, cks)"
    using kdf_rk_ok by blast
  have op': "opens p (mk_at p ck (unat (h_n (m_header m)))) (m_header m) (m_ct m) (m_aad m) (m_pqk m) (m_body m)"
    using op by (simp add: m_opens_def hn)
  have nk: "sk_dh_pub k \<in> U"
    if "new_keys_from {clk 1, clk 2} (insert (s_dhs_pub X) (if s_has_ckr Y then {s_dhr_pub Y} else {}))
          (s_skipped Y) l" and "k \<in> set l" for l k
    using that bx unfolding new_keys_from_def base_inv_def by (auto split: if_splits)
  have "(\<exists>s' l. ratchet_decrypt p clk rnd (m_header m) (m_ct m) (m_aad m) (m_pqk m) Y = (s', Inr (m_body m)) \<and>
            received_new p U X Y m ck pub sk s')
     \<or> ratchet_decrypt p clk rnd (m_header m) (m_ct m) (m_aad m) (m_pqk m) Y = (Y, Inl (RatchetError TooManySkipped)) \<and>
        length (s_skipped Y) + unat (h_pn (m_header m)) + unat (h_n (m_header m)) > 1000"
    using decrypt_new_chain [where clk = clk, OF ok f n hc new dh1 z(2) kp dh2 kd2 op']
  proof (elim disjE exE conjE, goal_cases)
    case (1 s' l)
    have "received_new p U X Y m ck pub sk s'"
      unfolding received_new_def
      using 1 dh2 kd2 nk by (auto simp: hp hn pn id)
    then show ?case
      using 1(1) by blast
  next
    case 2
    then show ?case
      by blast
  qed
  then show ?thesis
    using d by (auto simp: hn)
qed

lemma received_new_ahead:
  assumes x: "x25519_law p" and inv: "pair_inv p U X Y XY YX"
    and i: "i < length XY" and m: "fst (msg_id (XY ! i)) = s_dhs_pub X"
    and kp: "generate_keypair p rnd = Inr (pub, sk)" and fresh: "pub \<notin> U"
    and z: "x25519_dh p (s_dhs_sk X) (s_dhs_pub Y) = Inr z" "kdf_rk p (s_root_key Y) z = Inr (s_root_key X, ck)"
    and r: "received_new p U X Y (XY ! i) ck pub sk Y'"
  shows "pair_inv p (insert pub U) Y' X YX (erase_at i XY)"
proof -
  let ?m = "XY ! i"
  from inv have ah: "ahead p X Y XY YX" and wi: "wire_inv U XY" "wire_inv U YX"
      and bx: "base_inv p U X" "base_inv p U Y"
    by (simp_all add: pair_inv_def)
  from r obtain z2 rk cks l where dh2: "x25519_dh p sk (s_dhs_pub X) = Inr z2" "kdf_rk p (s_root_key X) z2 = Inr (rk, cks)"
    and Y': "Y' = Y\<lparr>s_pn := s_ns Y, s_ns := 0, s_nr := snd (msg_id ?m) + 1, s_dhr_pub := s_dhs_pub X,
               s_has_dhr := True, s_root_key := rk,
               s_chain_key_recv := ck_at p ck (unat (snd (msg_id ?m)) + 1), s_has_ckr := True,
               s_dhs_sk := sk, s_dhs_pub := pub, s_chain_key_send := cks, s_has_cks := True,
               s_skipped := l\<rparr>"
    and l: "\<forall>k \<in> set l. sk_dh_pub k \<in> U" and ok': "cache_ok Y'"
    and new: "\<And>n. n \<noteq> snd (msg_id ?m) \<Longrightarrow> rkey p Y' (s_dhs_pub X, n) = Some (mk_at p ck (unat n))"
    and old: "\<And>i mk. fst i \<noteq> s_dhs_pub X \<Longrightarrow> rkey p Y i = Some mk \<Longrightarrow> (on_chain Y i \<longrightarrow> snd i < s_pn X) \<Longrightarrow>
        rkey p Y' i = Some mk"
    unfolding received_new_def by blast
  have mi: "?m \<in> set XY" and n: "unat (snd (msg_id ?m)) < 4294967295"
    using i wi by (auto simp: wire_inv_def)
  from ah have "pending p X Y XY"
    by (simp add: ahead_def)
  then obtain z' ck' where pe: "s_has_cks X" "s_chain_key_send X = ck_at p ck' (unat (s_ns X))"
      "x25519_dh p (s_dhs_sk X) (s_dhs_pub Y) = Inr z'" "kdf_rk p (s_root_key Y) z' = Inr (s_root_key X, ck')"
    and new': "\<And>m. m \<in> set XY \<Longrightarrow> fst (msg_id m) = s_dhs_pub X \<Longrightarrow> snd (msg_id m) < s_ns X \<and>
      h_pn (m_header m) = s_pn X \<and> m_opens p (mk_at p ck' (unat (snd (msg_id m)))) m"
    and old': "\<And>m. m \<in> set XY \<Longrightarrow> fst (msg_id m) \<noteq> s_dhs_pub X \<Longrightarrow>
      readable p Y m \<and> (on_chain Y (msg_id m) \<longrightarrow> snd (msg_id m) < s_pn X)"
    by (rule pendingE) blast
  have ck: "ck' = ck"
    using pe(3,4) z by simp
  have er: "m \<in> set XY \<and> msg_id m \<noteq> msg_id ?m" if "m \<in> set (erase_at i XY)" for m
    using wire_inv_erase(2) [OF wi(1) i that] .
  have lt: "snd (msg_id ?m) < s_ns X"
    using new' [OF mi m] by simp
  have "readable p Y' m' \<and> (fst (msg_id m') = s_dhs_pub X \<longrightarrow> snd (msg_id m') < s_ns X)"
    if "m' \<in> set (erase_at i XY)" for m'
  proof (cases "fst (msg_id m') = s_dhs_pub X")
    case True
    then have e: "msg_id m' = (s_dhs_pub X, snd (msg_id m'))"
      by (metis prod.collapse)
    have "snd (msg_id m') \<noteq> snd (msg_id ?m)"
      using er [OF that] m True by (metis prod.collapse)
    then have "rkey p Y' (msg_id m') = Some (mk_at p ck (unat (snd (msg_id m'))))"
      using new e by metis
    with new' [of m'] er [OF that] True show ?thesis
      by (auto simp: readable_def ck)
  next
    case False
    with old' [of m'] er [OF that] old [OF False] show ?thesis
      by (auto simp: readable_def)
  qed
  moreover have "s_nr Y' \<le> s_ns X"
    using lt unat_Suc_ns [OF n] by (simp add: Y' word_le_nat_alt word_less_nat_alt)
  moreover have "s_chain_key_recv Y' = ck_at p ck (unat (s_nr Y'))"
    using unat_Suc_ns [OF n] by (simp add: Y')
  ultimately have kn: "known p X Y' (erase_at i XY)"
    using pe(1,2) unfolding known_def by (auto simp: ck Y')
  have fr: "fst (msg_id m) \<noteq> pub" if "m \<in> set YX" for m
    using wi(2) fresh that by (auto simp: wire_inv_def)
  have "readable p X m \<and> (on_chain X (msg_id m) \<longrightarrow> snd (msg_id m) < s_pn Y')" if "m \<in> set YX" for m
  proof -
    from ah have "known p Y X YX" and "s_dhr_pub X = s_dhs_pub Y"
      by (simp_all add: ahead_def)
    with that show ?thesis
      by (auto simp: known_def on_chain_def Y')
  qed
  then have "pending p Y' X YX"
    using dh2 fr unfolding pending_def by (auto simp: Y')
  moreover have "\<not> (s_has_dhr X \<and> s_dhr_pub X = s_dhs_pub Y')" and "s_dhs_pub Y' \<notin> fst ` dom (cache X)"
    using bx(1) fresh by (auto simp: base_inv_def Y' dom_cache key_of_def)
  ultimately have "ahead p Y' X YX (erase_at i XY)"
    using kn by (simp add: ahead_def Y')
  moreover have "base_inv p (insert pub U) Y'"
  proof -
    have "x_pair p pub sk"
      using generate_keypair_pair [OF x kp] by simp
    then show ?thesis
      using bx l ok' unfolding base_inv_def by (auto simp: Y')
  qed
  moreover have "base_inv p (insert pub U) X"
    using base_inv_mono [OF bx(1)] by blast
  ultimately show ?thesis
    using wire_inv_erase(1) [OF wi(1) i] wi(2) by (auto simp: pair_inv_def wire_inv_def)
qed

section \<open>Expiry\<close>

text \<open>Expiry keeps the keys of every message that is not lost by it.\<close>

lemma cache_expire:
  assumes "\<not> (\<exists>k \<in> set (s_skipped s). key_of k = i \<and> stale_key now k)"
  shows "cache (fst (expire_skipped_keys now s)) i = cache s i"
proof -
  have "map_of (map (\<lambda>k. (key_of k, sk_message_key k)) (filter (\<lambda>k. \<not> stale_key now k) l)) i =
      map_of (map (\<lambda>k. (key_of k, sk_message_key k)) l) i"
    if "\<not> (\<exists>k \<in> set l. key_of k = i \<and> stale_key now k)" for l
    using that by (induction l) auto
  from this [OF assms] show ?thesis
    by (simp add: expire_fst cache_def)
qed

lemma on_chain_expire [simp]: "on_chain (fst (expire_skipped_keys now s)) = on_chain s"
  by (rule ext) (simp add: expire_fst on_chain_def)

lemma readable_expire:
  "readable p s m \<Longrightarrow> \<not> key_expired now s m \<Longrightarrow> readable p (fst (expire_skipped_keys now s)) m"
proof -
  assume r: "readable p s m" and e: "\<not> key_expired now s m"
  have f: "s_chain_key_recv (fst (expire_skipped_keys now s)) = s_chain_key_recv s"
      "s_nr (fst (expire_skipped_keys now s)) = s_nr s"
    by (simp_all add: expire_fst)
  have c: "cache (fst (expire_skipped_keys now s)) (msg_id m) = cache s (msg_id m)"
    using e by (intro cache_expire) (simp add: key_expired_def)
  have "rkey p (fst (expire_skipped_keys now s)) (msg_id m) = rkey p s (msg_id m)"
    unfolding rkey_def c f on_chain_expire ..
  with r show ?thesis
    by (simp add: readable_def)
qed

lemma dom_cache_expire: "dom (cache (fst (expire_skipped_keys now s))) \<subseteq> dom (cache s)"
  by (auto simp: dom_cache expire_fst)

lemma base_inv_expire: "base_inv p U s \<Longrightarrow> base_inv p U (fst (expire_skipped_keys now s))"
proof -
  assume b: "base_inv p U s"
  have "cache_ok (fst (expire_skipped_keys now s))"
    using b dom_cache_expire [of now s] unfolding base_inv_def cache_ok_def on_chain_expire
    by (auto simp: expire_fst distinct_map_filter)
  with b show ?thesis
    by (auto simp: base_inv_def expire_fst)
qed

lemma wire_inv_filter: "wire_inv U w \<Longrightarrow> wire_inv U (filter P w)"
  by (auto simp: wire_inv_def distinct_map_filter)

lemma expire_ahead:
  assumes inv: "pair_inv p U X Y XY YX"
  shows "pair_inv p U (fst (expire_skipped_keys now X)) Y XY (filter (\<lambda>m. \<not> key_expired now X m) YX)"
proof -
  let ?X = "fst (expire_skipped_keys now X)" and ?YX = "filter (\<lambda>m. \<not> key_expired now X m) YX"
  from inv have ah: "ahead p X Y XY YX"
    by (simp add: pair_inv_def)
  then have "known p Y ?X ?YX"
    using readable_expire [of p X _ now] unfolding ahead_def known_def by (auto simp: expire_fst)
  moreover have "pending p ?X Y XY"
    using ah unfolding ahead_def pending_def by (simp add: expire_fst)
  ultimately have "ahead p ?X Y XY ?YX"
    using ah by (simp add: ahead_def expire_fst)
  then show ?thesis
    using inv base_inv_expire wire_inv_filter by (simp add: pair_inv_def)
qed

lemma expire_behind:
  assumes inv: "pair_inv p U X Y XY YX"
  shows "pair_inv p U X (fst (expire_skipped_keys now Y)) (filter (\<lambda>m. \<not> key_expired now Y m) XY) YX"
proof -
  let ?Y = "fst (expire_skipped_keys now Y)" and ?XY = "filter (\<lambda>m. \<not> key_expired now Y m) XY"
  from inv have ah: "ahead p X Y XY YX"
    by (simp add: pair_inv_def)
  then have pe: "pending p X Y XY" and kn: "known p Y X YX"
    by (simp_all add: ahead_def)
  from kn have "known p ?Y X YX"
    by (simp add: known_def expire_fst)
  moreover have "pending p X ?Y ?XY"
    using pe readable_expire [of p Y _ now] unfolding pending_def on_chain_expire
    by (auto simp: expire_fst)
  moreover have "s_dhs_pub X \<notin> fst ` dom (cache ?Y)"
    using ah dom_cache_expire [of now Y] by (auto simp: ahead_def)
  ultimately have "ahead p X ?Y ?XY YX"
    using ah by (simp add: ahead_def expire_fst)
  then show ?thesis
    using inv base_inv_expire wire_inv_filter by (simp add: pair_inv_def)
qed

lemma expire_net_inv:
  assumes "conv_inv p N"
  shows "conv_inv p (expire_net now y N)"
proof -
  from assms obtain x where pi: "pair_inv p (n_used N) (n_sess N x) (n_sess N (peer x)) (n_wire N x) (n_wire N (peer x))"
    by (auto simp: conv_inv_def)
  consider (self) "y = x" | (other) "y = peer x"
    using peer_cases by blast
  then show ?thesis
  proof cases
    case self
    then show ?thesis
      unfolding conv_inv_def
      by (intro exI [of _ x]) (use expire_ahead [OF pi] in \<open>simp add: expire_net_def\<close>)
  next
    case other
    then show ?thesis
      unfolding conv_inv_def
      by (intro exI [of _ x]) (use expire_behind [OF pi] in \<open>simp add: expire_net_def\<close>)
  qed
qed

text \<open>\<open>ratchet_decrypt\<close> starts by dropping the stale keys, so dropping them first changes nothing.\<close>

lemma expire_idem: "fst (expire_skipped_keys now (fst (expire_skipped_keys now s))) = fst (expire_skipped_keys now s)"
  by (simp add: expire_fst)

lemma decrypt_expired:
  assumes "ratchet_decrypt p clk rnd h ct aad pqk s = (s', res)"
  shows "ratchet_decrypt p clk rnd h ct aad pqk (fst (expire_skipped_keys (clk 0) s)) =
    ((case res of Inl e \<Rightarrow> fst (expire_skipped_keys (clk 0) s) | Inr b \<Rightarrow> s'), res)"
proof -
  have "decrypt_in_place p clk rnd h ct aad pqk (fst (expire_skipped_keys (clk 0) s)) =
      decrypt_in_place p clk rnd h ct aad pqk s"
    by (simp add: decrypt_in_place_def expire_idem)
  with assms show ?thesis
    by (auto simp: ratchet_decrypt_def split: prod.splits sum.splits)
qed

section \<open>Every reachable state\<close>

text \<open>What a delivery from \<open>y\<close> does, whichever party is ahead.\<close>

lemma deliver_cases:
  assumes x: "x25519_law p" and inv: "conv_inv p N"
    and w: "\<forall>k \<in> set (s_skipped (n_sess N (peer y))). \<not> stale_key (clk 0) k"
    and i: "i < length (n_wire N y)" and m: "m = n_wire N y ! i"
    and kp: "generate_keypair p rnd = Inr (pub, sk)" and fresh: "pub \<notin> n_used N"
    and d: "ratchet_decrypt p clk rnd (m_header m) (m_ct m) (m_aad m) (m_pqk m) (n_sess N (peer y)) = (s', res)"
  shows "res = Inr (m_body m) \<and> rkey p s' (msg_id m) = None \<and>
      conv_inv p (N\<lparr>n_sess := (n_sess N)(peer y := s'),
        n_wire := (n_wire N)(y := erase_at i (n_wire N y)), n_used := insert pub (n_used N)\<rparr>)
    \<or> res = Inl (RatchetError TooManySkipped) \<and>
      length (s_skipped (n_sess N (peer y))) + unat (h_pn (m_header m)) + unat (h_n (m_header m)) > 1000"
proof -
  let ?U = "n_used N" and ?V = "insert pub (n_used N)"
  let ?N' = "N\<lparr>n_sess := (n_sess N)(peer y := s'), n_wire := (n_wire N)(y := erase_at i (n_wire N y)), n_used := ?V\<rparr>"
  have hn: "snd (msg_id m) = h_n (m_header m)"
    by (simp add: msg_id_def header_key_def)
  have up: "pair_inv p ?U A B AB BA \<Longrightarrow> pair_inv p ?V A B AB BA" for A B AB BA
    using base_inv_mono [of p ?U _ ?V] wire_inv_mono [of ?U _ ?V] by (auto simp: pair_inv_def)
  from inv obtain x where pi: "pair_inv p ?U (n_sess N x) (n_sess N (peer x)) (n_wire N x) (n_wire N (peer x))"
    by (auto simp: conv_inv_def)
  have mi: "m \<in> set (n_wire N y)"
    using i m by simp
  consider (self) "y = x" | (other) "y = peer x"
    using peer_cases by blast
  then show ?thesis
  proof cases
    case self
    note pi = pi [folded self]
    have "pending p (n_sess N y) (n_sess N (peer y)) (n_wire N y)" and wi: "wire_inv ?U (n_wire N y)"
        and by': "base_inv p ?U (n_sess N (peer y))"
      using pi by (simp_all add: pair_inv_def ahead_def)
    then obtain z ck where z: "x25519_dh p (s_dhs_sk (n_sess N y)) (s_dhs_pub (n_sess N (peer y))) = Inr z"
        "kdf_rk p (s_root_key (n_sess N (peer y))) z = Inr (s_root_key (n_sess N y), ck)"
      and nw: "fst (msg_id m) = s_dhs_pub (n_sess N y) \<Longrightarrow> h_pn (m_header m) = s_pn (n_sess N y) \<and>
          m_opens p (mk_at p ck (unat (snd (msg_id m)))) m"
      and od: "fst (msg_id m) \<noteq> s_dhs_pub (n_sess N y) \<Longrightarrow> readable p (n_sess N (peer y)) m"
      by (elim pendingE) (use mi in blast)
    show ?thesis
    proof (cases "fst (msg_id m) = s_dhs_pub (n_sess N y)")
      case True
      from deliver_new [where clk = clk, OF x pi w mi True kp z conjunct2 [OF nw [OF True]] conjunct1 [OF nw [OF True]] d]
      show ?thesis
      proof (elim disjE conjE)
        assume "res = Inr (m_body m)"
          and r: "received_new p ?U (n_sess N y) (n_sess N (peer y)) m ck pub sk s'"
        moreover have "conv_inv p ?N'"
          unfolding conv_inv_def
          by (rule exI [of _ "peer y"])
            (use received_new_ahead [OF x pi i True [unfolded m] kp fresh z r [unfolded m]] in simp)
        moreover have "rkey p s' (msg_id m) = None"
          using r by (simp add: received_new_def)
        ultimately show ?thesis
          by simp
      qed (simp add: hn)
    next
      case False
      have n: "unat (snd (msg_id m)) < 4294967295"
        using wi mi by (auto simp: wire_inv_def)
      from deliver_known [where clk = clk, OF by' w n od [OF False] d] show ?thesis
      proof (elim disjE conjE)
        assume "res = Inr (m_body m)" and r: "received_known p clk (n_sess N (peer y)) m s'"
        moreover have "conv_inv p ?N'"
          unfolding conv_inv_def
          by (rule exI [of _ y])
            (use up [OF deliver_to_behind [where clk = clk, OF pi i r [unfolded m] False [unfolded m]]] in simp)
        moreover have "rkey p s' (msg_id m) = None"
          using r by (simp add: received_known_def)
        ultimately show ?thesis
          by simp
      qed (simp add: hn)
    qed
  next
    case other
    then have x': "x = peer y"
      by simp
    note pi = pi [unfolded x' peer_peer]
    have bx: "base_inv p ?U (n_sess N (peer y))" and wi: "wire_inv ?U (n_wire N y)"
        and kn: "known p (n_sess N y) (n_sess N (peer y)) (n_wire N y)"
      using pi by (simp_all add: pair_inv_def ahead_def)
    have n: "unat (snd (msg_id m)) < 4294967295" and rd: "readable p (n_sess N (peer y)) m"
      using wi kn mi by (auto simp: wire_inv_def known_def)
    from deliver_known [where clk = clk, OF bx w n rd d] show ?thesis
    proof (elim disjE conjE)
      assume "res = Inr (m_body m)" and r: "received_known p clk (n_sess N (peer y)) m s'"
      moreover have "conv_inv p ?N'"
        unfolding conv_inv_def
        by (rule exI [of _ "peer y"])
          (use up [OF deliver_to_ahead [where clk = clk, OF pi i r [unfolded m]]] in simp)
      moreover have "rkey p s' (msg_id m) = None"
        using r by (simp add: received_known_def)
      ultimately show ?thesis
        by simp
    qed (simp add: hn)
  qed
qed

lemma deliver_expired:
  assumes x: "x25519_law p" and inv: "conv_inv p N"
    and i: "i < length (n_wire (expire_net (clk 0) (peer y) N) y)" and m: "m = n_wire (expire_net (clk 0) (peer y) N) y ! i"
    and kp: "generate_keypair p rnd = Inr (pub, sk)" and fresh: "pub \<notin> n_used N"
    and d: "ratchet_decrypt p clk rnd (m_header m) (m_ct m) (m_aad m) (m_pqk m) (n_sess N (peer y)) = (s', res)"
  shows "res = Inr (m_body m) \<and> rkey p s' (msg_id m) = None \<and>
      (let M = expire_net (clk 0) (peer y) N
       in conv_inv p (M\<lparr>n_sess := (n_sess M)(peer y := s'),
            n_wire := (n_wire M)(y := erase_at i (n_wire M y)), n_used := insert pub (n_used M)\<rparr>))
    \<or> res = Inl (RatchetError TooManySkipped) \<and>
      length (filter (\<lambda>k. \<not> stale_key (clk 0) k) (s_skipped (n_sess N (peer y)))) +
        unat (h_pn (m_header m)) + unat (h_n (m_header m)) > 1000"
proof -
  let ?M = "expire_net (clk 0) (peer y) N" and ?s = "fst (expire_skipped_keys (clk 0) (n_sess N (peer y)))"
  have s: "n_sess ?M (peer y) = ?s" and u: "n_used ?M = n_used N"
    by (simp_all add: expire_net_def)
  have f: "\<forall>k \<in> set (s_skipped (n_sess ?M (peer y))). \<not> stale_key (clk 0) k"
    by (simp add: s expire_fst)
  have d': "ratchet_decrypt p clk rnd (m_header m) (m_ct m) (m_aad m) (m_pqk m) (n_sess ?M (peer y)) =
      ((case res of Inl e \<Rightarrow> ?s | Inr b \<Rightarrow> s'), res)"
    unfolding s by (rule decrypt_expired [OF d])
  have "pub \<notin> n_used ?M"
    by (simp add: u fresh)
  from deliver_cases [where clk = clk, OF x expire_net_inv [OF inv] f i m kp this d'] show ?thesis
    by (elim disjE conjE) (simp_all add: Let_def s expire_fst)
qed

lemma conv_inv_step:
  assumes h: "hmac_law p" and a: "aead_law p" and x: "x25519_law p"
    and inv: "conv_inv p N" and st: "net_step p N N'"
  shows "conv_inv p N'"
  using st
proof (cases rule: net_step.cases)
  case (send nonce body y aad pqk s' hdr ct)
  from inv obtain z where pi: "pair_inv p (n_used N) (n_sess N z) (n_sess N (peer z)) (n_wire N z) (n_wire N (peer z))"
    by (auto simp: conv_inv_def)
  consider (self) "y = z" | (other) "y = peer z"
    using peer_cases by blast
  then show ?thesis
  proof cases
    case self
    show ?thesis
      unfolding conv_inv_def
      by (rule exI [of _ z])
        (use send_ahead [OF h a send(2,3,4,5) refl, of "n_used N"] pi self in \<open>simp add: send(1)\<close>)
  next
    case other
    show ?thesis
      unfolding conv_inv_def
      by (rule exI [of _ z])
        (use send_behind [OF h a send(2,3,4,5) refl, of "n_used N"] pi other in \<open>simp add: send(1)\<close>)
  qed
next
  case (deliver M clk y i m rnd pub sk s' body)
  show ?thesis
    using deliver_expired [where clk = clk, OF x inv, of i y, folded deliver(2), OF deliver(3,4,5,6,7)] deliver(1)
    by auto
next
  case (expire now y)
  then show ?thesis
    using expire_net_inv [OF inv] by simp
qed

lemma conv_inv_start:
  assumes h: "net_start p secret N"
  shows "conv_inv p N"
proof -
  from h obtain ek es bk bs s0 s1 where
      xp: "x_pair p ek es" "x_pair p bk bs" "ek \<noteq> bk"
    and a: "init_sender p secret es ek bk s0 = (n_sess N Alice, Inr ())"
    and b: "n_sess N Bob = init_receiver secret bs bk s1"
    and w: "n_wire N = (\<lambda>_. [])" and u: "n_used N = {ek, bk}"
    by (auto simp: net_start_def)
  from a obtain z rk ck where z: "x25519_dh p es bk = Inr z" "kdf_rk p secret z = Inr (rk, ck)"
    and A: "n_sess N Alice = s0\<lparr>s_dhs_sk := es, s_dhs_pub := ek, s_has_dhs := True, s_dhr_pub := bk,
        s_has_dhr := True, s_root_key := rk, s_chain_key_send := ck, s_has_cks := True,
        s_has_ckr := False, s_ns := 0, s_nr := 0, s_pn := 0, s_skipped := []\<rparr>"
    by (auto simp: init_sender_def bindM_eq_Inr bindR_eq_Inr)
  have ca: "cache (n_sess N Alice) = Map.empty" and cb: "cache (n_sess N Bob) = Map.empty"
    by (simp_all add: A b init_receiver_def cache_def)
  have "pending p (n_sess N Alice) (n_sess N Bob) []"
    using z unfolding pending_def by (auto simp: A b init_receiver_def)
  moreover have "known p (n_sess N Bob) (n_sess N Alice) []"
    by (simp add: known_def b init_receiver_def)
  ultimately have "ahead p (n_sess N Alice) (n_sess N Bob) [] []"
    using cb by (simp add: ahead_def) (simp add: A b init_receiver_def)
  moreover have "base_inv p (n_used N) (n_sess N Alice)" and "base_inv p (n_used N) (n_sess N Bob)"
    using xp ca cb unfolding base_inv_def cache_ok_def by (simp_all add: u) (simp_all add: A b init_receiver_def)
  ultimately show ?thesis
    unfolding conv_inv_def by (intro exI [of _ Alice]) (simp add: pair_inv_def w wire_inv_def)
qed

lemma conv_invariant:
  "hmac_law p \<Longrightarrow> aead_law p \<Longrightarrow> x25519_law p \<Longrightarrow> conv p secret N \<Longrightarrow> conv_inv p N"
  by (rotate_tac 3, induction rule: conv.induct) (auto intro: conv_inv_start conv_inv_step)

text \<open>The message a party would send next is new to its peer, which reads it unless it is beyond the limit.\<close>

lemma next_not_skipped:
  assumes inv: "conv_inv p N" and cks: "s_has_cks (n_sess N y)"
  shows "(s_dhs_pub (n_sess N y), s_ns (n_sess N y)) \<notin> key_of ` set (s_skipped (n_sess N (peer y)))"
proof -
  from inv obtain z where pi: "pair_inv p (n_used N) (n_sess N z) (n_sess N (peer z)) (n_wire N z) (n_wire N (peer z))"
    by (auto simp: conv_inv_def)
  then have ah: "ahead p (n_sess N z) (n_sess N (peer z)) (n_wire N z) (n_wire N (peer z))"
    and bi: "base_inv p (n_used N) (n_sess N z)"
    by (simp_all add: pair_inv_def)
  consider (self) "y = z" | (other) "y = peer z"
    using peer_cases by blast
  then show ?thesis
  proof cases
    case self
    from ah have "s_dhs_pub (n_sess N z) \<notin> fst ` key_of ` set (s_skipped (n_sess N (peer z)))"
      by (simp add: ahead_def dom_cache)
    then show ?thesis
      unfolding self by (metis fst_conv imageI)
  next
    case other
    let ?X = "n_sess N z" and ?i = "(s_dhs_pub (n_sess N y), s_ns (n_sess N y))"
    have "s_has_dhr ?X" "s_dhr_pub ?X = s_dhs_pub (n_sess N y)" and k: "known p (n_sess N y) ?X (n_wire N y)"
      using ah other by (simp_all add: ahead_def)
    moreover have "s_has_ckr ?X" "s_nr ?X \<le> s_ns (n_sess N y)"
      using k cks by (simp_all add: known_def)
    ultimately have "on_chain ?X ?i"
      by (simp add: on_chain_def)
    with bi have "?i \<notin> dom (cache ?X)"
      unfolding base_inv_def cache_ok_def by blast
    then show ?thesis
      using other by (simp add: dom_cache)
  qed
qed

lemma next_message_read:
  assumes laws: "hmac_law p" "aead_law p" "x25519_law p" and inv: "conv_inv p N"
    and l: "length nonce = 12" "length body \<le> kMaxPlaintextBytes" and n: "unat (s_ns (n_sess N y)) < 4294967295"
    and e: "ratchet_encrypt p nonce body aad pqk (n_sess N y) = (s', Inr (hdr, ct))"
    and room: "length (s_skipped (n_sess N (peer y))) + unat (s_pn (n_sess N y)) + unat (s_ns (n_sess N y)) \<le> 1000"
  shows "\<exists>sB. ratchet_decrypt p clk rnd hdr ct aad pqk (n_sess N (peer y)) = (sB, Inr body)"
proof -
  let ?m = "\<lparr>m_header = hdr, m_ct = ct, m_aad = aad, m_pqk = pqk, m_body = body\<rparr>"
  let ?N1 = "N\<lparr>n_sess := (n_sess N)(y := s'), n_wire := (n_wire N)(y := n_wire N y @ [?m])\<rparr>"
  let ?M = "expire_net (clk 0) (peer y) ?N1" and ?S = "fst (expire_skipped_keys (clk 0) (n_sess N (peer y)))"
  note i = ratchet_encrypt_Inr [OF laws(1,2) l e]
  have id: "msg_id ?m = (s_dhs_pub (n_sess N y), s_ns (n_sess N y))"
    by (simp add: msg_id_def header_key_def i(3))
  obtain pub sk where kp: "generate_keypair p rnd = Inr (pub, sk)"
    using generate_keypair_ok [OF laws(3)] by metis
  obtain sB res where d: "ratchet_decrypt p clk rnd hdr ct aad pqk (n_sess N (peer y)) = (sB, res)"
    by fastforce
  have "net_step p N ?N1"
    by (rule net_step.send [OF l n e])
  then have inv2: "conv_inv p ?M"
    using conv_inv_step [OF laws inv] expire_net_inv by blast
  have M: "n_sess ?M (peer y) = ?S" "n_sess ?M y = s'"
    by (simp_all add: expire_net_def)
  have "key_of k \<noteq> msg_id ?m" if "k \<in> set (s_skipped (n_sess N (peer y)))" for k
    using next_not_skipped [OF inv i(1)] that unfolding id by (metis imageI)
  then have mi: "?m \<in> set (n_wire ?M y)"
    by (auto simp: expire_net_def key_expired_def)
  have f: "\<forall>k \<in> set (s_skipped (n_sess ?M (peer y))). \<not> stale_key (clk 0) k"
    unfolding M by (simp add: expire_fst)
  have d2: "ratchet_decrypt p clk rnd (m_header ?m) (m_ct ?m) (m_aad ?m) (m_pqk ?m) (n_sess ?M (peer y)) =
      ((case res of Inl e \<Rightarrow> ?S | Inr b \<Rightarrow> sB), res)"
    unfolding M using decrypt_expired [OF d] by simp
  have "length (s_skipped ?S) \<le> length (s_skipped (n_sess N (peer y)))"
    by (simp add: expire_fst)
  with room have small: "length (s_skipped ?S) + unat (h_pn hdr) + unat (h_n hdr) \<le> 1000"
    unfolding i(3) by simp
  from inv2 obtain z where
    pi: "pair_inv p (n_used ?M) (n_sess ?M z) (n_sess ?M (peer z)) (n_wire ?M z) (n_wire ?M (peer z))"
    unfolding conv_inv_def by blast
  consider (self) "y = z" | (other) "z = peer y"
    using peer_cases [of z y] by blast
  then have "res = Inr body"
  proof cases
    case self
    note pi = pi [folded self]
    have own: "fst (msg_id ?m) = s_dhs_pub (n_sess ?M y)"
      unfolding id M(2) by (simp add: i(2))
    from pi have "pending p (n_sess ?M y) (n_sess ?M (peer y)) (n_wire ?M y)"
      by (simp add: pair_inv_def ahead_def)
    then obtain zz ck where "x25519_dh p (s_dhs_sk (n_sess ?M y)) (s_dhs_pub (n_sess ?M (peer y))) = Inr zz"
        "kdf_rk p (s_root_key (n_sess ?M (peer y))) zz = Inr (s_root_key (n_sess ?M y), ck)"
        "m_opens p (mk_at p ck (unat (snd (msg_id ?m)))) ?m" "h_pn (m_header ?m) = s_pn (n_sess ?M y)"
      by (elim pendingE) (use mi own in blast)
    from deliver_new [where clk = clk, OF laws(3) pi f mi own kp this d2] small show ?thesis
      by (auto simp: M msg_id_def header_key_def)
  next
    case other
    note pi = pi [unfolded other peer_peer]
    have b: "base_inv p (n_used ?M) (n_sess ?M (peer y))" "readable p (n_sess ?M (peer y)) ?m"
      using pi mi by (auto simp: pair_inv_def ahead_def known_def)
    have "unat (snd (msg_id ?m)) < 4294967295"
      using n by (simp add: id)
    from deliver_known [where clk = clk, OF b(1) f this b(2) d2] small show ?thesis
      by (auto simp: M msg_id_def header_key_def)
  qed
  with d show ?thesis
    by blast
qed

section \<open>A conversation for the witnesses\<close>

lemma ratchet_encrypt_ok:
  assumes "hmac_law p" and "aead_law p" and "s_has_cks s" and "length nonce = 12"
    and "length body \<le> kMaxPlaintextBytes"
  shows "\<exists>s' h ct. ratchet_encrypt p nonce body aad None s = (s', Inr (h, ct))"
proof -
  let ?mk = "snd (kdf_ck p (s_chain_key_send s))"
  have l: "length ?mk = 32" "length body \<le> 4194304"
    using kdf_ck_length [OF assms(1)] assms(5) by (simp_all add: kMaxPlaintextBytes_def)
  obtain ra where "header_aad \<lparr>h_dh_pub = s_dhs_pub s, h_pn = s_pn s, h_n = s_ns s\<rparr> = Inr ra"
    by (simp add: header_aad_def put_u32_def put_bytes_def)
  moreover obtain ct where "aead_encrypt p nonce ?mk body (aad @ ra) = Inr ct"
    using aead_roundtrip_message [OF assms(2) l(1) assms(4) l(2)] by blast
  ultimately show ?thesis
    using assms(3)
    by (cases "kdf_ck p (s_chain_key_send s)") (simp add: ratchet_encrypt_def message_aead_key_def Let_def)
qed

text \<open>Alice has written one message that Bob has not read yet.\<close>

lemma sample_conversation:
  "\<exists>N m. conv sample_prims (replicate 32 9) N \<and> n_wire N Alice = [m] \<and> m_body m = [72, 105] \<and>
     h_pn (m_header m) = s_pn session_default \<and> h_n (m_header m) = 0 \<and>
     s_skipped (n_sess N Bob) = [] \<and> n_used N = {replicate 32 1, replicate 32 2}"
proof -
  let ?p = sample_prims and ?sec = "replicate 32 9"
  obtain z where z: "x25519_dh ?p (replicate 32 1) (replicate 32 2) = Inr z"
    by (simp add: x25519_dh_def sample_prims_def)
  obtain rk ck where k: "kdf_rk ?p ?sec z = Inr (rk, ck)"
    using kdf_rk_ok by blast
  let ?A = "session_default\<lparr>s_dhs_sk := replicate 32 1, s_dhs_pub := replicate 32 1, s_has_dhs := True,
    s_dhr_pub := replicate 32 2, s_has_dhr := True, s_root_key := rk, s_chain_key_send := ck,
    s_has_cks := True, s_has_ckr := False, s_ns := 0, s_nr := 0, s_pn := 0, s_skipped := []\<rparr>"
  let ?B = "init_receiver ?sec (replicate 32 2) (replicate 32 2) session_default"
  let ?N = "\<lparr>n_sess = \<lambda>x. if x = Alice then ?A else ?B, n_wire = \<lambda>_. [],
    n_used = {replicate 32 1, replicate 32 2}\<rparr>"
  have "init_sender ?p ?sec (replicate 32 1) (replicate 32 1) (replicate 32 2) session_default = (?A, Inr ())"
    using z k by (simp add: init_sender_def)
  then have st: "net_start ?p ?sec ?N"
    unfolding net_start_def
    by (intro exI [of _ "replicate 32 1"] exI [of _ "replicate 32 2"] exI [of _ session_default])
      (simp add: sample_x_pair)
  obtain s' h ct where e: "ratchet_encrypt ?p (replicate 12 0) [72, 105] [] None ?A = (s', Inr (h, ct))"
    using ratchet_encrypt_ok [OF sample_hmac sample_aead, of ?A "replicate 12 0" "[72, 105]" "[]"]
    by (auto simp: kMaxPlaintextBytes_def)
  then have h: "h_pn h = 0" "h_n h = 0"
    by (auto simp: ratchet_encrypt_def Let_def bindR_eq_Inr split: prod.splits)
  have "net_step ?p ?N (?N\<lparr>n_sess := (n_sess ?N)(Alice := s'), n_wire := (n_wire ?N)(Alice := n_wire ?N Alice @
      [\<lparr>m_header = h, m_ct = ct, m_aad = [], m_pqk = None, m_body = [72, 105]\<rparr>])\<rparr>)"
    by (rule net_step.send [where nonce = "replicate 12 0"]) (use e in \<open>simp_all add: kMaxPlaintextBytes_def\<close>)
  from conv.step [OF conv.start [OF st] this] h show ?thesis
    by (intro exI conjI) (assumption | simp add: session_default_def init_receiver_def)+
qed

section \<open>Properties\<close>

text \<open>C1: The ratchet delivers every message, in any order: in every state that two parties reach from a
  shared secret by sending, by delivering messages in transit in an arbitrary order and by letting
  skipped keys expire at any time, across any number of Diffie-Hellman steps in both directions,
  decrypting a message in transit returns the plaintext it was encrypted from, and its key can no
  longer be reached. There are exactly two other outcomes: the receiver skipped the message and the
  key stashed for it is more than 7 days old by the receiver's clock (the message is lost), or the gap
  is beyond the skipped-key limit, which is refused and leaves the session unchanged. Ratchet keys are
  assumed not to repeat; the clock is arbitrary.\<close>

theorem conversation_delivers:
  assumes "hmac_law p" and "aead_law p" and "x25519_law p"
    and "conv p secret N" and "m \<in> set (n_wire N x)"
    and "generate_keypair p rnd = Inr (pub, sk)" and "pub \<notin> n_used N"
    and "ratchet_decrypt p clk rnd (m_header m) (m_ct m) (m_aad m) (m_pqk m) (n_sess N (peer x)) = (s', res)"
  shows "res = Inr (m_body m) \<and> rkey p s' (header_key (m_header m)) = None \<or>
    (\<exists>k \<in> set (s_skipped (n_sess N (peer x))). key_of k = header_key (m_header m) \<and>
      unat (clk 0) > unat (sk_created_at k) + 7 * 24 * 60 * 60) \<or>
    res = Inl (RatchetError TooManySkipped) \<and> s' = n_sess N (peer x) \<and>
      length (filter (\<lambda>k. \<not> stale_key (clk 0) k) (s_skipped (n_sess N (peer x)))) +
        unat (h_pn (m_header m)) + unat (h_n (m_header m)) > 1000"
proof (cases "key_expired (clk 0) (n_sess N (peer x)) m")
  case True
  then show ?thesis
    by (auto simp: key_expired_def stale_key_iff msg_id_def)
next
  case False
  with assms(5) have "m \<in> set (n_wire (expire_net (clk 0) (peer x) N) x)"
    by (simp add: expire_net_def)
  then obtain i where i: "i < length (n_wire (expire_net (clk 0) (peer x) N) x)"
      "m = n_wire (expire_net (clk 0) (peer x) N) x ! i"
    by (auto simp: in_set_conv_nth)
  from deliver_expired [where clk = clk, OF assms(3) conv_invariant [OF assms(1-4)] i assms(6-8)]
    assms(8) show ?thesis
    by (auto simp: msg_id_def dest: ratchet_decrypt_Inl)
qed

lemma conversation_delivers_witness:
  "\<exists>N m s'. conv sample_prims (replicate 32 9) N \<and> m \<in> set (n_wire N Alice) \<and> m_body m = [72, 105] \<and>
     ratchet_decrypt sample_prims (\<lambda>_. 2000) [7] (m_header m) (m_ct m) (m_aad m) (m_pqk m) (n_sess N Bob)
       = (s', Inr [72, 105])"
proof -
  obtain N m where N: "conv sample_prims (replicate 32 9) N" "n_wire N Alice = [m]" "m_body m = [72, 105]"
      "h_pn (m_header m) = s_pn session_default" "h_n (m_header m) = 0" "s_skipped (n_sess N Bob) = []"
      "n_used N = {replicate 32 1, replicate 32 2}"
    using sample_conversation by blast
  obtain s' res where d: "ratchet_decrypt sample_prims (\<lambda>_. 2000) [7] (m_header m) (m_ct m) (m_aad m) (m_pqk m)
      (n_sess N (peer Alice)) = (s', res)"
    by fastforce
  have g: "generate_keypair sample_prims [7] = Inr (fit 32 [7], fit 32 [7])"
    by (simp add: generate_keypair_def sample_prims_def)
  have f: "fit 32 [7] \<notin> n_used N"
    by (simp add: N(7) fit_def numeral_eq_Suc)
  have "m \<in> set (n_wire N Alice)"
    by (simp add: N(2))
  from conversation_delivers [OF sample_hmac sample_aead sample_x25519 N(1) this g f d]
  have "res = Inr (m_body m)"
    using N(4-6) by (simp add: session_default_def)
  with d N \<open>m \<in> set (n_wire N Alice)\<close> show ?thesis
    by auto
qed

end
