(* ===== verification/Card.thy ===== *)
theory Card
  imports Store_Format
begin

text \<open>
  The contact card of \<open>x3dh.cpp\<close>: \<open>export_card\<close>, \<open>export_hybrid_card\<close> and \<open>import_card\<close>. A card is an
  armoured frame around a body that the identity has signed; the body is built by one function for
  the writer and walked in the same order by the reader, after the signatures have been checked.

  \<open>import_card\<close> is composed of the frame, the head of the body (what has to be read before a
  signature can be checked) and the rest, in the order of the source.
\<close>

section \<open>Export\<close>

definition kCardMagic :: bytes where
  "kCardMagic = [0x52, 0x43, 0x52, 0x43]"

definition kCardVersion :: byte where
  "kCardVersion = 2"

definition kHybridCardVersion :: byte where
  "kHybridCardVersion = 4"

definition kCardContext :: string where
  "kCardContext = ''Ratchet-USB/v2/contact-card''"

definition kHybridCardContext :: string where
  "kHybridCardContext = ''Ratchet-USB/v4/hybrid-contact-card''"

definition kPqPrekeyContext :: string where
  "kPqPrekeyContext = ''Ratchet-USB/v4/ML-KEM-768/signed-prekey''"

definition kMaxCardBytes :: nat where
  "kMaxCardBytes = 2 * 1024 * 1024"

text \<open>The public half of a one-time prekey, as it is written into a body.\<close>

definition put_offer :: "one_time_prekey \<Rightarrow> bytes result" where
  "put_offer k = catR [put_u32 (otpk_id k), put_bytes (otpk_pub k)]"

definition put_pq_offer :: "pq_prekey \<Rightarrow> bytes result" where
  "put_pq_offer k = catR [put_u32 (pqk_id k), put_bytes (pq_public (pqk_key k))]"

definition build_signed_body :: "bytes \<Rightarrow> signed_prekey \<Rightarrow> one_time_prekey list \<Rightarrow> bytes result" where
  "build_signed_body identity_pk k otpks = catR [
     put_str kCardContext, put_bytes identity_pk, put_u32 (spk_id k), put_bytes (spk_pub k),
     put_bytes (spk_signature k), put_counted put_offer otpks]"

definition export_card ::
  "prims \<Rightarrow> bytes \<Rightarrow> bytes \<Rightarrow> signed_prekey \<Rightarrow> one_time_prekey list \<Rightarrow> string result" where
  "export_card p identity_sk identity_pk k otpks =
     bindR (build_signed_body identity_pk k otpks) (\<lambda>signed_body.
     bindR (sign p identity_sk signed_body) (\<lambda>card_sig.
     bindR (catR [put_bytes kCardMagic, put_u8 kCardVersion, put_blob signed_body, put_bytes card_sig])
       (\<lambda>body. Inr (encode_block p ''CARD'' body))))"

text \<open>What both identity keys sign for an ML-KEM signed prekey.\<close>

definition pq_prekey_body :: "u32 \<Rightarrow> bytes \<Rightarrow> bytes result" where
  "pq_prekey_body i pub = catR [put_str kPqPrekeyContext, put_u32 i, put_bytes pub]"

definition build_hybrid_body ::
  "bytes \<Rightarrow> bytes \<Rightarrow> signed_prekey \<Rightarrow> one_time_prekey list \<Rightarrow> pq_prekey \<Rightarrow> bytes \<Rightarrow> bytes \<Rightarrow> pq_prekey list
     \<Rightarrow> bytes result" where
  "build_hybrid_body identity_pk pq_identity_pk k otpks pq_spk ed_sig pq_sig pq_otpks = catR [
     put_str kHybridCardContext, put_u8 (suite_code XWingTripleRatchetV1), put_bytes identity_pk,
     put_bytes pq_identity_pk, put_u32 (spk_id k), put_bytes (spk_pub k), put_bytes (spk_signature k),
     put_counted put_offer otpks,
     put_u32 (pqk_id pq_spk), put_bytes (pq_public (pqk_key pq_spk)), put_bytes ed_sig, put_bytes pq_sig,
     put_counted put_pq_offer pq_otpks]"

definition export_hybrid_card ::
  "prims \<Rightarrow> bytes \<Rightarrow> bytes \<Rightarrow> pq_keypair \<Rightarrow> signed_prekey \<Rightarrow> one_time_prekey list \<Rightarrow> pq_prekey
     \<Rightarrow> pq_prekey list \<Rightarrow> string result" where
  "export_hybrid_card p identity_sk identity_pk pq_identity k otpks pq_spk pq_otpks =
     bindR (pq_prekey_body (pqk_id pq_spk) (pq_public (pqk_key pq_spk))) (\<lambda>prekey_body.
     bindR (sign p identity_sk prekey_body) (\<lambda>pq_spk_ed_sig.
     bindR (ml_dsa_65_sign p (pq_seed pq_identity) prekey_body) (\<lambda>pq_spk_pq_sig.
     bindR (build_hybrid_body identity_pk (pq_public pq_identity) k otpks pq_spk
              pq_spk_ed_sig pq_spk_pq_sig pq_otpks) (\<lambda>signed_body.
     bindR (sign p identity_sk signed_body) (\<lambda>ed_card_sig.
     bindR (ml_dsa_65_sign p (pq_seed pq_identity) signed_body) (\<lambda>pq_card_sig.
     bindR (catR [put_bytes kCardMagic, put_u8 kHybridCardVersion, put_blob signed_body,
                  put_bytes ed_card_sig, put_bytes pq_card_sig]) (\<lambda>body.
     Inr (encode_block p ''CARD'' body))))))))"

section \<open>Import\<close>

record card_frame =
  cf_version :: byte
  cf_body :: bytes
  cf_sig :: bytes
  cf_pq_sig :: bytes

definition read_card_frame :: "bytes \<Rightarrow> card_frame result" where
  "read_card_frame body =
     bindR (get_bytes 4 body) (\<lambda>(magic, zs).
       if magic \<noteq> kCardMagic then Inl (X3dhError NotACard) else
     bindR (get_u8 zs) (\<lambda>(version, zs).
       if version \<noteq> kCardVersion \<and> version \<noteq> kHybridCardVersion then Inl (X3dhError CardVersion) else
     bindR (get_blob zs) (\<lambda>(signed_body, zs).
     bindR (get_bytes 64 zs) (\<lambda>(card_sig, zs).
     bindR (since (version = kHybridCardVersion) (get_bytes 3309) (replicate 3309 0) zs) (\<lambda>(pq_card_sig, zs).
       if zs \<noteq> [] then Inl (X3dhError CardTrailing)
       else Inr \<lparr>cf_version = version, cf_body = signed_body, cf_sig = card_sig, cf_pq_sig = pq_card_sig\<rparr>)))))"

text \<open>The suite a hybrid card may name.\<close>

definition card_suite :: "bytes \<Rightarrow> (protocol_suite \<times> bytes) result" where
  "card_suite zs = bindR (get_u8 zs) (\<lambda>(suite, zs).
     if suite \<noteq> suite_code HybridPqxdhV1 \<and> suite \<noteq> suite_code TripleRatchetV1
        \<and> suite \<noteq> suite_code XWingTripleRatchetV1
     then Inl (X3dhError CardSuite)
     else bindR (of_option (X3dhError CardSuite) (suite_of_code suite)) (\<lambda>s. Inr (s, zs)))"

definition read_card_head :: "byte \<Rightarrow> bytes \<Rightarrow> (protocol_suite \<times> bytes \<times> bytes \<times> bytes) result" where
  "read_card_head version zs =
     bindR (get_str zs) (\<lambda>(context, zs).
       if version = kCardVersion \<and> context \<noteq> kCardContext \<or>
          version = kHybridCardVersion \<and> context \<noteq> kHybridCardContext
       then Inl (X3dhError NotACard) else
     bindR (since (version = kHybridCardVersion) card_suite ClassicV2 zs) (\<lambda>(suite, zs).
     bindR (get_bytes 32 zs) (\<lambda>(identity_pub, zs).
     bindR (since (version = kHybridCardVersion) (get_bytes 1952) (replicate 1952 0) zs) (\<lambda>(pq_identity_pub, zs).
     Inr (suite, identity_pub, pq_identity_pub, zs)))))"

text \<open>The ML-KEM bundle of a hybrid card, with the check of its two signatures.\<close>

definition read_card_bundle :: "prims \<Rightarrow> bytes \<Rightarrow> bytes \<Rightarrow> bytes \<Rightarrow> (peer_pq_bundle option \<times> bytes) result" where
  "read_card_bundle p identity_pub pq_identity_pub zs =
     bindR (read_peer_pq_prekey zs) (\<lambda>(pq_spk, zs).
     bindR (get_bytes 64 zs) (\<lambda>(ed_sig, zs).
     bindR (get_bytes 3309 zs) (\<lambda>(pq_sig, zs).
     bindR (get_counted read_peer_pq_prekey zs) (\<lambda>(pq_otpks, zs).
     bindR (pq_prekey_body (pp_id pq_spk) (pp_pub pq_spk)) (\<lambda>prekey_body.
       if \<not> verify p identity_pub prekey_body ed_sig then Inl (X3dhError HybridPrekeyInvalid) else
     bindR (ml_dsa_65_verify p pq_identity_pub prekey_body pq_sig) (\<lambda>ok.
       if \<not> ok then Inl (X3dhError HybridPrekeyInvalid)
       else Inr (Some \<lparr>pqb_signed_prekey = pq_spk, pqb_ed_signature = ed_sig, pqb_pq_signature = pq_sig,
                       pqb_one_time_prekeys = pq_otpks\<rparr>, zs)))))))"

definition read_card_rest ::
  "prims \<Rightarrow> byte \<Rightarrow> protocol_suite \<Rightarrow> bytes \<Rightarrow> bytes \<Rightarrow> bytes \<Rightarrow> (bytes \<times> peer_card) result" where
  "read_card_rest p version suite identity_pub pq_identity_pub zs =
     bindR (get_u32 zs) (\<lambda>(i, zs).
     bindR (get_bytes 32 zs) (\<lambda>(pub, zs).
     bindR (get_bytes 64 zs) (\<lambda>(sig, zs).
     bindR (get_counted read_peer_otpk zs) (\<lambda>(otpks, zs).
     bindR (since (version = kHybridCardVersion) (read_card_bundle p identity_pub pq_identity_pub) None zs)
       (\<lambda>(bundle, zs).
       if zs \<noteq> [] then Inl (X3dhError CardBodyTrailing) else
     bindR (verify_signed_prekey_signature p identity_pub i pub sig) (\<lambda>ok.
       if \<not> ok then Inl (X3dhError CardPrekeySignature)
       else Inr (identity_pub,
         \<lparr>pc_maximum_suite = suite, pc_spk_id = i, pc_spk_pub = pub, pc_spk_signature = sig,
          pc_one_time_prekeys = otpks, pc_pq_identity_pub = pq_identity_pub, pc_pq_bundle = bundle\<rparr>)))))))"

text \<open>The identity and the card: \<open>ImportedCard\<close>.\<close>

definition import_card :: "prims \<Rightarrow> string \<Rightarrow> (bytes \<times> peer_card) result" where
  "import_card p base64_card =
     bindR (decode_block p ''CARD'' base64_card kMaxCardBytes) (\<lambda>body.
     bindR (read_card_frame body) (\<lambda>fr.
     bindR (read_card_head (cf_version fr) (cf_body fr)) (\<lambda>(suite, identity_pub, pq_identity_pub, zs).
       if \<not> verify p identity_pub (cf_body fr) (cf_sig fr) then Inl (X3dhError CardSignature) else
     bindR (if cf_version fr = kHybridCardVersion
            then ml_dsa_65_verify p pq_identity_pub (cf_body fr) (cf_pq_sig fr) else Inr True) (\<lambda>ok.
       if \<not> ok then Inl (X3dhError CardPqSignature)
       else read_card_rest p (cf_version fr) suite identity_pub pq_identity_pub zs))))"

section \<open>The layout of a signed body\<close>

text \<open>
  The bytes of the body an imported card stands for. The reader never builds them: that they are the
  bytes the signature was checked on is the theorem below.
\<close>

definition card_layout :: "bytes \<Rightarrow> peer_card \<Rightarrow> bytes result" where
  "card_layout identity_pub c = (case pc_pq_bundle c of
     None \<Rightarrow> catR [
       put_str kCardContext, put_bytes identity_pub, put_u32 (pc_spk_id c), put_bytes (pc_spk_pub c),
       put_bytes (pc_spk_signature c), put_counted write_peer_otpk (pc_one_time_prekeys c)]
   | Some b \<Rightarrow> catR [
       put_str kHybridCardContext, put_u8 (suite_code (pc_maximum_suite c)), put_bytes identity_pub,
       put_bytes (pc_pq_identity_pub c), put_u32 (pc_spk_id c), put_bytes (pc_spk_pub c),
       put_bytes (pc_spk_signature c), put_counted write_peer_otpk (pc_one_time_prekeys c),
       write_pq_bundle b])"

definition card_shape :: "bytes \<Rightarrow> peer_card \<Rightarrow> bool" where
  "card_shape identity_pub c \<longleftrightarrow> length identity_pub = 32 \<and> wf_peer_card c \<and>
     (if pc_pq_bundle c = None then pc_maximum_suite c = ClassicV2 \<and> pc_pq_identity_pub c = replicate 1952 0
      else pc_maximum_suite c \<noteq> ClassicV2)"

interpretation offer: canonical_codec write_peer_otpk read_peer_otpk wf_peer_otpk
  by unfold_locales
    (auto simp: write_peer_otpk_def read_peer_otpk_def wf_peer_otpk_def put_u32_def put_bytes_def result_inv)

interpretation offers: canonical_codec "put_counted write_peer_otpk" "get_counted read_peer_otpk"
    "wf_counted wf_peer_otpk"
  by (rule offer.counted_canonical)

interpretation pq_offer: canonical_codec write_peer_pq_prekey read_peer_pq_prekey wf_peer_pq_prekey
  by unfold_locales
    (auto simp: write_peer_pq_prekey_def read_peer_pq_prekey_def wf_peer_pq_prekey_def put_u32_def
      put_bytes_def result_inv)

interpretation pq_offers: canonical_codec "put_counted write_peer_pq_prekey"
    "get_counted read_peer_pq_prekey" "wf_counted wf_peer_pq_prekey"
  by (rule pq_offer.counted_canonical)

declare offers.get_iff [codec_inv] pq_offer.get_iff [codec_inv] pq_offers.get_iff [codec_inv]

lemma card_suite_code [simp]:
  "s \<noteq> ClassicV2 \<Longrightarrow> card_suite (suite_code s # ys) = Inr (s, ys)"
  by (cases s) (simp_all add: card_suite_def suite_of_code_def)

lemma card_suite_Inr:
  "card_suite zs = Inr (s, ys) \<longleftrightarrow> s \<noteq> ClassicV2 \<and> zs = suite_code s # ys"
proof
  assume "card_suite zs = Inr (s, ys)"
  then show "s \<noteq> ClassicV2 \<and> zs = suite_code s # ys"
    by (auto simp: card_suite_def result_inv suite_of_code_def split: if_splits)
qed simp

lemma context_lengths:
  "wf_str kCardContext" "wf_str kHybridCardContext" "wf_str kPqPrekeyContext"
  "kCardContext \<noteq> kHybridCardContext"
  by (simp_all add: wf_str_def kCardContext_def kHybridCardContext_def kPqPrekeyContext_def)

lemma card_versions [simp]: "kCardVersion \<noteq> kHybridCardVersion" "kHybridCardVersion \<noteq> kCardVersion"
  by (simp_all add: kCardVersion_def kHybridCardVersion_def)

section \<open>What the reader accepts\<close>

lemma read_card_bundle_Inr:
  assumes "read_card_bundle p ik pqik zs = Inr (b, ys)"
  obtains pqb bs m where "b = Some pqb" and "wf_pq_bundle pqb"
    and "write_pq_bundle pqb = Inr bs" and "zs = bs @ ys"
    and "pq_prekey_body (pp_id (pqb_signed_prekey pqb)) (pp_pub (pqb_signed_prekey pqb)) = Inr m"
    and "verify p ik m (pqb_ed_signature pqb)"
    and "ml_dsa_65_verify p pqik m (pqb_pq_signature pqb) = Inr True"
  using assms
  by (auto simp: read_card_bundle_def wf_pq_bundle_def write_pq_bundle_def bindR_eq_Inr if_Inl_eq_Inr
      codec_inv wf_bytes_def put_bytes_def)

lemma read_card_head_Inr:
  assumes "read_card_head v zs = Inr (s, ik, pqik, ys)" and "v = kCardVersion \<or> v = kHybridCardVersion"
  obtains (classic) c where "v = kCardVersion" "put_str kCardContext = Inr c" "zs = c @ ik @ ys"
      "length ik = 32" "s = ClassicV2" "pqik = replicate 1952 0"
  | (hybrid) c where "v = kHybridCardVersion" "put_str kHybridCardContext = Inr c"
      "zs = c @ suite_code s # ik @ pqik @ ys" "length ik = 32" "length pqik = 1952" "s \<noteq> ClassicV2"
  using assms
  by (auto simp: read_card_head_def bindR_eq_Inr if_Inl_eq_Inr codec_inv wf_bytes_def put_bytes_def card_suite_Inr)

lemma read_card_rest_Inr:
  assumes "read_card_rest p v s ik pqik zs = Inr (ik', c)"
  obtains os b m where "ik' = ik" and "pc_maximum_suite c = s" and "pc_pq_identity_pub c = pqik"
    and "put_counted write_peer_otpk (pc_one_time_prekeys c) = Inr os"
    and "wf_counted wf_peer_otpk (pc_one_time_prekeys c)"
    and "length (pc_spk_pub c) = 32" and "length (pc_spk_signature c) = 64"
    and "zs = le32 (pc_spk_id c) @ pc_spk_pub c @ pc_spk_signature c @ os @ b"
    and "since (v = kHybridCardVersion) (read_card_bundle p ik pqik) None b = Inr (pc_pq_bundle c, [])"
    and "verify_signed_prekey_signature p ik (pc_spk_id c) (pc_spk_pub c) (pc_spk_signature c) = Inr True"
  using assms
  by (auto simp: read_card_rest_def bindR_eq_Inr if_Inl_eq_Inr codec_inv wf_bytes_def put_bytes_def put_u32_def)

text \<open>The body that was walked is the layout of what was returned.\<close>

lemma read_card_layout:
  assumes h: "read_card_head v zs = Inr (s, ik, pqik, ys)" and v: "v = kCardVersion \<or> v = kHybridCardVersion"
    and r: "read_card_rest p v s ik pqik ys = Inr (ik', c)"
  shows "ik' = ik \<and> card_layout ik c = Inr zs \<and> card_shape ik c \<and> pc_pq_identity_pub c = pqik \<and>
    (pc_pq_bundle c = None \<longleftrightarrow> v = kCardVersion)"
  using h v
proof (cases rule: read_card_head_Inr)
  case (classic a)
  with r show ?thesis
    by (elim read_card_rest_Inr)
      (simp add: card_layout_def card_shape_def wf_peer_card_def put_bytes_def put_u32_def)
next
  case (hybrid a)
  obtain os b where r': "ik' = ik" "pc_maximum_suite c = s" "pc_pq_identity_pub c = pqik"
      "put_counted write_peer_otpk (pc_one_time_prekeys c) = Inr os"
      "wf_counted wf_peer_otpk (pc_one_time_prekeys c)" "length (pc_spk_pub c) = 32"
      "length (pc_spk_signature c) = 64"
      "ys = le32 (pc_spk_id c) @ pc_spk_pub c @ pc_spk_signature c @ os @ b"
      "read_card_bundle p ik pqik b = Inr (pc_pq_bundle c, [])"
    using r hybrid(1) by (elim read_card_rest_Inr) simp
  from r'(9) obtain pqb bs where "pc_pq_bundle c = Some pqb" "wf_pq_bundle pqb"
      "write_pq_bundle pqb = Inr bs" "b = bs"
    by (elim read_card_bundle_Inr) simp
  with hybrid r' show ?thesis
    by (simp add: card_layout_def card_shape_def wf_peer_card_def put_bytes_def put_u32_def put_u8_def)
qed

lemma import_card_steps:
  assumes "import_card p text = Inr (ik, c)"
  obtains body fr where "decode_block p ''CARD'' text kMaxCardBytes = Inr body"
    and "read_card_frame body = Inr fr" and "card_layout ik c = Inr (cf_body fr)" and "card_shape ik c"
    and "verify p ik (cf_body fr) (cf_sig fr)"
    and "pc_pq_bundle c \<noteq> None \<Longrightarrow>
           ml_dsa_65_verify p (pc_pq_identity_pub c) (cf_body fr) (cf_pq_sig fr) = Inr True"
    and "verify_signed_prekey_signature p ik (pc_spk_id c) (pc_spk_pub c) (pc_spk_signature c) = Inr True"
proof -
  from assms obtain body fr s ik0 pqik zs where d: "decode_block p ''CARD'' text kMaxCardBytes = Inr body"
      and f: "read_card_frame body = Inr fr"
      and h: "read_card_head (cf_version fr) (cf_body fr) = Inr (s, ik0, pqik, zs)"
      and e: "verify p ik0 (cf_body fr) (cf_sig fr)"
      and q: "(if cf_version fr = kHybridCardVersion
               then ml_dsa_65_verify p pqik (cf_body fr) (cf_pq_sig fr) else Inr True) = Inr True"
      and r: "read_card_rest p (cf_version fr) s ik0 pqik zs = Inr (ik, c)"
    by (auto simp: import_card_def bindR_eq_Inr if_Inl_eq_Inr)
  from f have v: "cf_version fr = kCardVersion \<or> cf_version fr = kHybridCardVersion"
    by (auto simp: read_card_frame_def bindR_eq_Inr if_Inl_eq_Inr)
  from r have "verify_signed_prekey_signature p ik0 (pc_spk_id c) (pc_spk_pub c) (pc_spk_signature c) = Inr True"
    by (elim read_card_rest_Inr)
  with read_card_layout [OF h v r] d f e q v show thesis
    by (intro that [of body fr]) auto
qed

section \<open>The layout determines the card\<close>

lemma contexts_differ:
  "put_str kCardContext = Inr a \<Longrightarrow> put_str kHybridCardContext = Inr b \<Longrightarrow> a @ xs \<noteq> b @ ys"
  using str.put_prefix [of kCardContext a kHybridCardContext b xs ys] context_lengths by auto

lemma same_rest:
  assumes "wf_counted wf_peer_otpk os" and "wf_counted wf_peer_otpk os'"
    and "put_counted write_peer_otpk os = Inr b" and "put_counted write_peer_otpk os' = Inr b'"
    and "length q = 32" and "length q' = 32" and "length g = 64" and "length g' = 64"
    and "le32 i @ q @ g @ b @ ys = le32 i' @ q' @ g' @ b' @ ys'"
  shows "i = i' \<and> q = q' \<and> g = g' \<and> os = os' \<and> ys = ys'"
proof -
  have "i = i'" and e: "q @ g @ b @ ys = q' @ g' @ b' @ ys'"
    using u32.put_prefix [of i "le32 i" i' "le32 i'"] assms(9) by (simp_all add: put_u32_def)
  with assms(5-8) have "q = q'" and "g = g'" and "b @ ys = b' @ ys'"
    by simp_all
  with \<open>i = i'\<close> peer_otpks.put_prefix [OF assms(3,1,4,2)] show ?thesis
    by simp
qed

lemma card_layout_inj:
  assumes "card_layout ik c = Inr m" and "card_shape ik c"
    and "card_layout ik' c' = Inr m" and "card_shape ik' c'"
  shows "ik = ik' \<and> c = c'"
proof -
  have len: "length ik = 32" "length ik' = 32" "length (pc_pq_identity_pub c) = 1952"
      "length (pc_pq_identity_pub c') = 1952" "length (pc_spk_pub c) = 32" "length (pc_spk_pub c') = 32"
      "length (pc_spk_signature c) = 64" "length (pc_spk_signature c') = 64"
      "wf_counted wf_peer_otpk (pc_one_time_prekeys c)" "wf_counted wf_peer_otpk (pc_one_time_prekeys c')"
    using assms(2,4) by (auto simp: card_shape_def wf_peer_card_def)
  note rest = same_rest [OF len(9,10) _ _ len(5-8)]
  show ?thesis
  proof (cases "pc_pq_bundle c")
    case N: None
    then obtain a os where a: "put_str kCardContext = Inr a"
        and os: "put_counted write_peer_otpk (pc_one_time_prekeys c) = Inr os"
        and m: "m = a @ ik @ le32 (pc_spk_id c) @ pc_spk_pub c @ pc_spk_signature c @ os"
      using assms(1) by (auto simp: card_layout_def bindR_eq_Inr put_u32_def put_bytes_def)
    have "pc_pq_bundle c' = None"
    proof (rule ccontr)
      assume "pc_pq_bundle c' \<noteq> None"
      with assms(3) obtain a' r where "put_str kHybridCardContext = Inr a'" "m = a' @ r"
        by (auto simp: card_layout_def bindR_eq_Inr)
      with contexts_differ [OF a] m show False
        by metis
    qed
    then obtain os' where "put_counted write_peer_otpk (pc_one_time_prekeys c') = Inr os'"
        and "m = a @ ik' @ le32 (pc_spk_id c') @ pc_spk_pub c' @ pc_spk_signature c' @ os'"
      using assms(3) a by (auto simp: card_layout_def bindR_eq_Inr put_u32_def put_bytes_def)
    with rest [OF os, of os' _ "[]" _ "[]"] m len(1,2) N \<open>pc_pq_bundle c' = None\<close> assms(2,4) show ?thesis
      by (simp add: card_shape_def)
  next
    case S: (Some b)
    then obtain a os bs where a: "put_str kHybridCardContext = Inr a"
        and os: "put_counted write_peer_otpk (pc_one_time_prekeys c) = Inr os"
        and bs: "write_pq_bundle b = Inr bs"
        and m: "m = a @ suite_code (pc_maximum_suite c) # ik @ pc_pq_identity_pub c @ le32 (pc_spk_id c) @
                  pc_spk_pub c @ pc_spk_signature c @ os @ bs"
      using assms(1) by (auto simp: card_layout_def bindR_eq_Inr put_u32_def put_u8_def put_bytes_def)
    have "pc_pq_bundle c' \<noteq> None"
    proof
      assume "pc_pq_bundle c' = None"
      with assms(3) obtain a' r where "put_str kCardContext = Inr a'" "m = a' @ r"
        by (auto simp: card_layout_def bindR_eq_Inr)
      with contexts_differ [OF _ a] m show False
        by metis
    qed
    then obtain b' os' bs' where S': "pc_pq_bundle c' = Some b'"
        and os': "put_counted write_peer_otpk (pc_one_time_prekeys c') = Inr os'"
        and bs': "write_pq_bundle b' = Inr bs'"
        and m': "m = a @ suite_code (pc_maximum_suite c') # ik' @ pc_pq_identity_pub c' @ le32 (pc_spk_id c') @
                  pc_spk_pub c' @ pc_spk_signature c' @ os' @ bs'"
      using assms(3) a by (auto simp: card_layout_def bindR_eq_Inr put_u32_def put_u8_def put_bytes_def)
    have "pc_spk_id c = pc_spk_id c' \<and> pc_spk_pub c = pc_spk_pub c' \<and> pc_spk_signature c = pc_spk_signature c' \<and>
        pc_one_time_prekeys c = pc_one_time_prekeys c' \<and> bs = bs'"
      and "ik = ik'" "pc_pq_identity_pub c = pc_pq_identity_pub c'"
      and "suite_code (pc_maximum_suite c) = suite_code (pc_maximum_suite c')"
      using rest [OF os os', of _ bs _ bs'] m m' len(1-4) by simp_all
    moreover have "wf_pq_bundle b" and "wf_pq_bundle b'"
      using assms(2,4) S S' by (simp_all add: card_shape_def wf_peer_card_def)
    ultimately show ?thesis
      using pq_bundle.put_inj [of b b'] bs bs' S S' by (auto dest: suite_code_inj)
  qed
qed

section \<open>What the writer writes\<close>

text \<open>The card a contact sees of what its owner publishes.\<close>

definition offer_of :: "one_time_prekey \<Rightarrow> peer_otpk" where
  "offer_of k = \<lparr>po_id = otpk_id k, po_pub = otpk_pub k\<rparr>"

definition pq_offer_of :: "pq_prekey \<Rightarrow> peer_pq_prekey" where
  "pq_offer_of k = \<lparr>pp_id = pqk_id k, pp_pub = pq_public (pqk_key k)\<rparr>"

definition published_bundle :: "pq_prekey \<Rightarrow> bytes \<Rightarrow> bytes \<Rightarrow> pq_prekey list \<Rightarrow> peer_pq_bundle" where
  "published_bundle pq_spk ed_sig pq_sig pq_otpks =
     \<lparr>pqb_signed_prekey = pq_offer_of pq_spk, pqb_ed_signature = ed_sig, pqb_pq_signature = pq_sig,
      pqb_one_time_prekeys = map pq_offer_of pq_otpks\<rparr>"

definition published_card ::
  "bytes \<Rightarrow> signed_prekey \<Rightarrow> one_time_prekey list \<Rightarrow> peer_pq_bundle \<Rightarrow> peer_card" where
  "published_card pq_identity k otpks b =
     \<lparr>pc_maximum_suite = XWingTripleRatchetV1, pc_spk_id = spk_id k, pc_spk_pub = spk_pub k,
      pc_spk_signature = spk_signature k, pc_one_time_prekeys = map offer_of otpks,
      pc_pq_identity_pub = pq_identity, pc_pq_bundle = Some b\<rparr>"

lemma put_offers: "put_counted put_offer ks = put_counted write_peer_otpk (map offer_of ks)"
  unfolding put_counted_map by (simp add: put_offer_def [abs_def] write_peer_otpk_def offer_of_def)

lemma put_pq_offers: "put_counted put_pq_offer ks = put_counted write_peer_pq_prekey (map pq_offer_of ks)"
  unfolding put_counted_map by (simp add: put_pq_offer_def [abs_def] write_peer_pq_prekey_def pq_offer_of_def)

lemma hybrid_body_layout:
  "build_hybrid_body ik pqik k otpks pq_spk eds pqs pq_otpks =
     card_layout ik (published_card pqik k otpks (published_bundle pq_spk eds pqs pq_otpks))"
  by (simp add: build_hybrid_body_def card_layout_def published_card_def published_bundle_def
      put_offers put_pq_offers write_pq_bundle_def write_peer_pq_prekey_def pq_offer_of_def bindR_assoc
      cong del: bindR_weak_cong)

lemma layout_ok:
  assumes "card_shape ik c"
  shows "\<exists>m. card_layout ik c = Inr m"
proof (cases "pc_pq_bundle c")
  case None
  with assms show ?thesis
    by (simp add: card_layout_def card_shape_def catR_ok codec_put wf_peer_card_def context_lengths
        put_bytes_def del: catR.simps)
next
  case (Some b)
  with assms have "\<exists>bs. write_pq_bundle b = Inr bs"
    by (intro pq_bundle.put_ok) (simp add: card_shape_def wf_peer_card_def)
  with assms Some show ?thesis
    by (simp add: card_layout_def card_shape_def catR_ok codec_put wf_peer_card_def context_lengths
        put_bytes_def put_u8_def del: catR.simps)
qed

lemma length_offers:
  "put_counted write_peer_otpk os = Inr bs \<Longrightarrow> wf_counted wf_peer_otpk os \<Longrightarrow> length bs = 4 + 36 * length os"
  "put_counted write_peer_pq_prekey ps = Inr cs \<Longrightarrow> wf_counted wf_peer_pq_prekey ps \<Longrightarrow>
     length cs = 4 + 1188 * length ps"
  by (erule length_put_counted, clarsimp simp: write_peer_otpk_def write_peer_pq_prekey_def bindR_eq_Inr
      put_u32_def put_bytes_def wf_counted_def list_all_iff wf_peer_otpk_def wf_peer_pq_prekey_def)+

lemma length_card_layout:
  assumes "card_layout ik c = Inr m" and "card_shape ik c" and "pc_pq_bundle c = Some b"
  shows "length m = 6692 + 36 * length (pc_one_time_prekeys c) + 1188 * length (pqb_one_time_prekeys b)"
  using assms
  by (auto simp: card_layout_def card_shape_def wf_peer_card_def wf_pq_bundle_def bindR_eq_Inr put_u32_def
      put_u8_def put_bytes_def write_pq_bundle_def write_peer_pq_prekey_def wf_peer_pq_prekey_def
      length_offers put_str_def put_blob_def kHybridCardContext_def split: if_splits)

text \<open>Reading a laid out hybrid body returns the card, when its signatures verify.\<close>

lemma read_card_layout_back:
  assumes "card_layout ik c = Inr m" and "card_shape ik c" and "pc_pq_bundle c = Some b"
    and pre: "pq_prekey_body (pp_id (pqb_signed_prekey b)) (pp_pub (pqb_signed_prekey b)) = Inr pm"
    and eds: "verify p ik pm (pqb_ed_signature b)"
    and pqs: "ml_dsa_65_verify p (pc_pq_identity_pub c) pm (pqb_pq_signature b) = Inr True"
    and spk: "verify_signed_prekey_signature p ik (pc_spk_id c) (pc_spk_pub c) (pc_spk_signature c) = Inr True"
  obtains ys where
    "read_card_head kHybridCardVersion m = Inr (pc_maximum_suite c, ik, pc_pq_identity_pub c, ys)"
    and "read_card_rest p kHybridCardVersion (pc_maximum_suite c) ik (pc_pq_identity_pub c) ys = Inr (ik, c)"
proof -
  from assms(1,3) obtain a os x bs where a: "put_str kHybridCardContext = Inr a"
      and os: "put_counted write_peer_otpk (pc_one_time_prekeys c) = Inr os"
      and x: "write_peer_pq_prekey (pqb_signed_prekey b) = Inr x"
      and bs: "put_counted write_peer_pq_prekey (pqb_one_time_prekeys b) = Inr bs"
      and m: "m = a @ suite_code (pc_maximum_suite c) # ik @ pc_pq_identity_pub c @ le32 (pc_spk_id c) @
                pc_spk_pub c @ pc_spk_signature c @ os @ x @ pqb_ed_signature b @ pqb_pq_signature b @ bs"
    by (auto simp: card_layout_def write_pq_bundle_def bindR_eq_Inr put_u32_def put_u8_def put_bytes_def)
  let ?zs = "x @ pqb_ed_signature b @ pqb_pq_signature b @ bs"
  let ?ys = "le32 (pc_spk_id c) @ pc_spk_pub c @ pc_spk_signature c @ os @ ?zs"
  have wf: "length ik = 32" "pc_maximum_suite c \<noteq> ClassicV2" "wf_peer_card c" "wf_pq_bundle b"
    using assms(2,3) by (auto simp: card_shape_def wf_peer_card_def)
  have "read_card_head kHybridCardVersion m = Inr (pc_maximum_suite c, ik, pc_pq_identity_pub c, ?ys)"
    using a wf by (simp add: m read_card_head_def codec_get context_lengths wf_peer_card_def wf_bytes_def)
  moreover have "read_card_bundle p ik (pc_pq_identity_pub c) ?zs = Inr (pc_pq_bundle c, [])"
    using wf x bs pre eds pqs assms(3) peer_pq_prekeys.get_end [OF bs]
    by (simp add: read_card_bundle_def codec_get wf_pq_bundle_def wf_bytes_def)
  with wf os spk have "read_card_rest p kHybridCardVersion (pc_maximum_suite c) ik (pc_pq_identity_pub c) ?ys
      = Inr (ik, c)"
    by (simp add: read_card_rest_def codec_get wf_peer_card_def wf_bytes_def)
  ultimately show thesis
    by (rule that)
qed

lemma exported_card_imports:
  assumes "ed25519_law p" and "ml_dsa_law p" and b64: "b64_law p"
    and ids: "derive_identity p seed = Inr (pk, sk)" "derive_pq_identity p seed = Inr kp"
    and spk: "verify_signed_prekey_signature p pk (spk_id k) (spk_pub k) (spk_signature k) = Inr True"
    and wf: "wf_signed_prekey k" "list_all wf_one_time_prekey otpks" "list_all (wf_pq_prekey p) (pq_spk # pq_otpks)"
    and len: "length otpks \<le> 1000" "length pq_otpks \<le> 1000"
  shows "\<exists>block ed_sig pq_sig. export_hybrid_card p sk pk kp k otpks pq_spk pq_otpks = Inr block \<and>
    import_card p block =
      Inr (pk, published_card (pq_public kp) k otpks (published_bundle pq_spk ed_sig pq_sig pq_otpks))"
proof -
  note ed = derive_identity_pair [OF ids(1)] and dsa = derive_pq_identity_pair [OF ids(2)]
  obtain pm where pm: "pq_prekey_body (pqk_id pq_spk) (pq_public (pqk_key pq_spk)) = Inr pm"
    using str.put_ok [OF context_lengths(3)] by (auto simp: pq_prekey_body_def put_u32_def put_bytes_def)
  obtain es where es: "sign p sk pm = Inr es" "verify p pk pm es" "length es = 64"
    using sign_succeeds [OF assms(1) ed] sign_verifies [OF assms(1) ed] by metis
  obtain ps where ps: "ml_dsa_65_sign p (pq_seed kp) pm = Inr ps" "length ps = 3309"
      "ml_dsa_65_verify p (pq_public kp) pm ps = Inr True"
    using dsa_signs [OF assms(2) dsa] .
  define b where "b = published_bundle pq_spk es ps pq_otpks"
  define c where "c = published_card (pq_public kp) k otpks b"
  have "length pk = 32"
    using ed25519_law_D [OF assms(1) ed] by simp
  moreover have "wf_pq_bundle b"
    using wf(3) es(3) ps(2) len(2)
    by (auto simp: b_def published_bundle_def wf_pq_bundle_def wf_peer_pq_prekey_def pq_offer_of_def
        wf_pq_prekey_def wf_counted_def list_all_iff)
  ultimately have shape: "card_shape pk c"
    using wf(1,2) len(1) dsa_public_length [OF dsa]
    by (auto simp: c_def published_card_def card_shape_def wf_peer_card_def wf_signed_prekey_def
        wf_one_time_prekey_def wf_peer_otpk_def offer_of_def wf_counted_def list_all_iff)
  have cb: "pc_pq_bundle c = Some b" "pqb_signed_prekey b = pq_offer_of pq_spk" "pqb_ed_signature b = es"
      "pqb_pq_signature b = ps" "pc_pq_identity_pub c = pq_public kp"
    by (simp_all add: c_def b_def published_card_def published_bundle_def)
  obtain m where m: "card_layout pk c = Inr m"
    using layout_ok [OF shape] by blast
  have lm: "length m \<le> 1300000"
    using length_card_layout [OF m shape cb(1)] len by (simp add: c_def b_def published_card_def published_bundle_def)
  obtain cs where cs: "sign p sk m = Inr cs" "verify p pk m cs" "length cs = 64"
    using sign_succeeds [OF assms(1) ed] sign_verifies [OF assms(1) ed] by metis
  obtain qs where qs: "ml_dsa_65_sign p (pq_seed kp) m = Inr qs" "length qs = 3309"
      "ml_dsa_65_verify p (pq_public kp) m qs = Inr True"
    using dsa_signs [OF assms(2) dsa] .
  obtain bm where bm: "put_blob m = Inr bm" "length bm = length m + 4" "wf_blob m"
    using lm by (simp add: put_blob_def wf_blob_def)
  let ?body = "kCardMagic @ kHybridCardVersion # bm @ cs @ qs"
  have "export_hybrid_card p sk pk kp k otpks pq_spk pq_otpks = Inr (encode_block p ''CARD'' ?body)"
    using pm es(1) ps(1) m cs(1) qs(1) bm(1)
    by (simp add: export_hybrid_card_def hybrid_body_layout c_def b_def put_bytes_def put_u8_def)
  moreover have "decode_block p ''CARD'' (encode_block p ''CARD'' ?body) kMaxCardBytes = Inr ?body"
    using lm bm(2) cs(3) qs(2) by (intro decode_encoded [OF b64]) (simp_all add: kMaxCardBytes_def kCardMagic_def)
  moreover have "read_card_frame ?body =
      Inr \<lparr>cf_version = kHybridCardVersion, cf_body = m, cf_sig = cs, cf_pq_sig = qs\<rparr>"
    using blob.get_eq [OF bm(1,3)] cs(3) qs(2) by (simp add: read_card_frame_def kCardMagic_def get_bytes_def)
  moreover obtain ys where "read_card_head kHybridCardVersion m =
        Inr (pc_maximum_suite c, pk, pc_pq_identity_pub c, ys)"
      and "read_card_rest p kHybridCardVersion (pc_maximum_suite c) pk (pc_pq_identity_pub c) ys = Inr (pk, c)"
    by (rule read_card_layout_back [OF m shape cb(1)])
      (use pm es(2) ps(3) spk in \<open>simp_all add: cb pq_offer_of_def c_def published_card_def\<close>)
  ultimately have "import_card p (encode_block p ''CARD'' ?body) = Inr (pk, c)"
    using cs(2) qs(3) cb(5) by (simp add: import_card_def)
  then show ?thesis
    using \<open>export_hybrid_card p sk pk kp k otpks pq_spk pq_otpks = _\<close> unfolding c_def b_def by blast
qed

text \<open>A published card for the witnesses.\<close>

lemma sample_card:
  "\<exists>sk pk kp k otpk pqk block c. derive_identity sample_prims (replicate 32 3) = Inr (pk, sk) \<and>
     derive_pq_identity sample_prims (replicate 32 3) = Inr kp \<and>
     verify_signed_prekey_signature sample_prims pk (spk_id k) (spk_pub k) (spk_signature k) = Inr True \<and>
     wf_signed_prekey k \<and> wf_one_time_prekey otpk \<and> wf_pq_prekey sample_prims pqk \<and>
     export_hybrid_card sample_prims sk pk kp k [otpk] pqk [pqk] = Inr block \<and>
     import_card sample_prims block = Inr (pk, c) \<and> otpk_id otpk = 7 \<and> spk_id k = 3 \<and>
     pc_one_time_prekeys c = [offer_of otpk] \<and> pc_pq_bundle c \<noteq> None"
proof -
  obtain pk sk where d: "derive_identity sample_prims (replicate 32 3) = Inr (pk, sk)"
    by (auto simp: derive_identity_def hkdf_expand_def sample_prims_def)
  obtain kp where q: "derive_pq_identity sample_prims (replicate 32 3) = Inr kp"
    by (auto simp: derive_pq_identity_def ml_dsa_65_from_seed_def hkdf_expand_def sample_prims_def)
  obtain m where "spk_signing_payload 3 (fit 32 [5]) = Inr m"
    using spk_payload_ok by blast
  then obtain k where k: "generate_signed_prekey sample_prims [5] 100 sk 3 = Inr k"
    by (simp add: generate_signed_prekey_def generate_keypair_def sign_def sample_prims_def)
  note ed = derive_identity_pair [OF d]
  have v: "verify_signed_prekey_signature sample_prims pk (spk_id k) (spk_pub k) (spk_signature k) = Inr True"
    by (rule generated_prekey_verifies [OF sample_ed25519 ed k])
  have w: "wf_signed_prekey k" and i: "spk_id k = 3"
    using k sign_verifies [OF sample_ed25519 ed] generate_keypair_pair [OF sample_x25519]
    by (auto simp: generate_signed_prekey_def wf_signed_prekey_def bindR_eq_Inr)
  let ?o = "\<lparr>otpk_id = 7, otpk_pub = replicate 32 6, otpk_sk = replicate 32 6\<rparr>"
  let ?p = "\<lparr>pqk_id = 4, pqk_key = \<lparr>pq_public = fit 1184 (replicate 64 8), pq_seed = replicate 64 8\<rparr>,
    pqk_created_at = 0\<rparr>"
  have o: "list_all wf_one_time_prekey [?o]"
    by (simp add: wf_one_time_prekey_def)
  have p: "list_all (wf_pq_prekey sample_prims) [?p, ?p]"
    by (simp add: wf_pq_prekey_def ml_kem_768_from_seed_def) (simp add: sample_prims_def)
  obtain block es ps where "export_hybrid_card sample_prims sk pk kp k [?o] ?p [?p] = Inr block"
      and "import_card sample_prims block =
        Inr (pk, published_card (pq_public kp) k [?o] (published_bundle ?p es ps [?p]))"
    using exported_card_imports [OF sample_ed25519 sample_ml_dsa sample_b64 d q v w o p] by auto
  with d q v w o p i show ?thesis
    by (intro exI [of _ sk] exI [of _ pk] exI [of _ kp] exI [of _ k] exI [of _ ?o] exI [of _ ?p]
        exI [of _ block] exI [of _ "published_card (pq_public kp) k [?o] (published_bundle ?p es ps [?p])"])
      (simp add: published_card_def)
qed

section \<open>Properties\<close>

text \<open>C14: Nothing in an imported card is unauthenticated: the body whose signature was checked (by the
  ML-DSA identity too, when the card is hybrid) is exactly the encoding of the returned identity and card,
  and no other identity and card have that encoding, so no id, prekey or suite can be rewritten in
  transit. The signed prekey's own signature verifies as well.\<close>

theorem card_fields_signed:
  assumes "import_card p received = Inr (ik, c)"
  shows "\<exists>body sig pq_sig. card_layout ik c = Inr body \<and> verify p ik body sig \<and>
    (case pc_pq_bundle c of None \<Rightarrow> True
     | Some b \<Rightarrow> ml_dsa_65_verify p (pc_pq_identity_pub c) body pq_sig = Inr True) \<and>
    verify_signed_prekey_signature p ik (pc_spk_id c) (pc_spk_pub c) (pc_spk_signature c) = Inr True \<and>
    card_shape ik c \<and>
    (\<forall>ik' c'. card_shape ik' c' \<and> card_layout ik' c' = Inr body \<longrightarrow> ik' = ik \<and> c' = c)"
  using assms
proof (rule import_card_steps)
  fix fr assume l: "card_layout ik c = Inr (cf_body fr)" and s: "card_shape ik c"
    and rest: "verify p ik (cf_body fr) (cf_sig fr)"
      "verify_signed_prekey_signature p ik (pc_spk_id c) (pc_spk_pub c) (pc_spk_signature c) = Inr True"
      "pc_pq_bundle c \<noteq> None \<Longrightarrow>
         ml_dsa_65_verify p (pc_pq_identity_pub c) (cf_body fr) (cf_pq_sig fr) = Inr True"
  have "\<forall>ik' c'. card_shape ik' c' \<and> card_layout ik' c' = Inr (cf_body fr) \<longrightarrow> ik' = ik \<and> c' = c"
    using card_layout_inj [OF _ _ l s] by blast
  moreover have "case pc_pq_bundle c of None \<Rightarrow> True
      | Some b \<Rightarrow> ml_dsa_65_verify p (pc_pq_identity_pub c) (cf_body fr) (cf_pq_sig fr) = Inr True"
    using rest(3) by (simp split: option.split)
  ultimately show ?thesis
    using l s rest(1,2) by blast
qed

lemma card_fields_signed_witness:
  "\<exists>ik c body sig. card_layout ik c = Inr body \<and> verify sample_prims ik body sig \<and> pc_pq_bundle c \<noteq> None"
proof -
  obtain pk block c where "import_card sample_prims block = Inr (pk, c)" and "pc_pq_bundle c \<noteq> None"
    using sample_card by blast
  with card_fields_signed [of sample_prims block pk c] show ?thesis
    by blast
qed

text \<open>C15: Cards round-trip: an identity can always export its prekeys, and whoever imports the exported block
  gets that identity with exactly the published prekeys, ids and the newest suite, for pools of up to 1000
  one-time prekeys of either kind (more than the program ever publishes).\<close>

theorem card_roundtrip:
  assumes "ed25519_law p" and "ml_dsa_law p" and b64: "b64_law p"
    and ids: "derive_identity p seed = Inr (pk, sk)" "derive_pq_identity p seed = Inr kp"
    and spk: "verify_signed_prekey_signature p pk (spk_id k) (spk_pub k) (spk_signature k) = Inr True"
    and wf: "wf_signed_prekey k" "list_all wf_one_time_prekey otpks" "list_all (wf_pq_prekey p) (pq_spk # pq_otpks)"
    and len: "length otpks \<le> 1000" "length pq_otpks \<le> 1000"
  shows "\<exists>block ed_sig pq_sig. export_hybrid_card p sk pk kp k otpks pq_spk pq_otpks = Inr block \<and>
    import_card p block =
      Inr (pk, published_card (pq_public kp) k otpks (published_bundle pq_spk ed_sig pq_sig pq_otpks))"
  by (rule exported_card_imports [OF assms])

lemma card_roundtrip_witness:
  "\<exists>pk sk kp k otpk pqk block ed_sig pq_sig. export_hybrid_card sample_prims sk pk kp k [otpk] pqk [pqk] = Inr block \<and>
     import_card sample_prims block = Inr (pk,
       published_card (pq_public kp) k [otpk] (published_bundle pqk ed_sig pq_sig [pqk])) \<and> otpk_id otpk = 7"
proof -
  obtain sk pk kp k otpk pqk where "derive_identity sample_prims (replicate 32 3) = Inr (pk, sk)"
      and "derive_pq_identity sample_prims (replicate 32 3) = Inr kp"
      and "verify_signed_prekey_signature sample_prims pk (spk_id k) (spk_pub k) (spk_signature k) = Inr True"
      and "wf_signed_prekey k" and "wf_one_time_prekey otpk" and "wf_pq_prekey sample_prims pqk"
      and "otpk_id otpk = 7"
    using sample_card by blast
  with card_roundtrip [OF sample_ed25519 sample_ml_dsa sample_b64, of "replicate 32 3" pk sk kp k "[otpk]" pqk "[pqk]"]
  show ?thesis
    by (simp, blast)
qed

end
