(* ===== verification/X3dh.thy ===== *)
theory X3dh
  imports Card
begin

text \<open>
  Key agreement of \<open>x3dh.cpp\<close>: the combiners, \<open>initiate\<close> on the initiator's side and \<open>respond\<close>,
  \<open>respond_hybrid\<close> on the responder's. \<open>initiate\<close> mutates the contact, whose card loses the one-time
  prekeys it takes; the mutation is there also when a later step throws, as in the source.

  What \<open>initiate\<close> draws at random is the argument \<open>draws\<close>. The three pointers that are null together
  in \<open>fill_xwing_pair\<close> are options.
\<close>

section \<open>Combining the secrets\<close>

definition kCombineInfo :: string where
  "kCombineInfo = ''Ratchet-USB/v2/x3dh''"

definition derive_shared_secret :: "prims \<Rightarrow> bytes \<Rightarrow> bytes \<Rightarrow> bytes list \<Rightarrow> bytes result" where
  "derive_shared_secret p ik_initiator ik_responder dhs =
     (let ikm = replicate 32 0xFF @ concat dhs;
          ad = [word_of_nat (length dhs)] @ ik_initiator @ ik_responder
      in hkdf_expand p 32 (bytes_of_string kCombineInfo) (hkdf_extract p ad ikm))"

definition kXWingLabel :: bytes where
  "kXWingLabel = [0x5c, 0x2e, 0x2f, 0x2f, 0x5e, 0x5c]"

definition xwing_combine :: "prims \<Rightarrow> bytes \<Rightarrow> bytes \<Rightarrow> bytes \<Rightarrow> bytes \<Rightarrow> bytes result" where
  "xwing_combine p ss_m ss_x ct_x pk_x =
     bindR (of_option (CryptoError XWingFailed) (sha3_256 p (ss_m @ ss_x @ ct_x @ pk_x @ kXWingLabel)))
       (\<lambda>out. if length out \<noteq> 32 then Inl (CryptoError XWingFailed) else Inr out)"

text \<open>\<open>if (ptr) ikm.append(*ptr)\<close>.\<close>

definition append_opt :: "bytes option \<Rightarrow> bytes" where
  "append_opt b = (case b of None \<Rightarrow> [] | Some x \<Rightarrow> x)"

definition combine_hybrid ::
  "prims \<Rightarrow> bytes \<Rightarrow> bytes \<Rightarrow> bytes \<Rightarrow> bytes \<Rightarrow> bytes option \<Rightarrow> bytes result" where
  "combine_hybrid p initiator responder classical pq_static pq_one_time =
     hkdf_expand p 32 (bytes_of_string ''Ratchet-USB/v3/PQXDH/X25519+ML-KEM-768'')
       (hkdf_extract p (initiator @ responder) (classical @ pq_static @ append_opt pq_one_time))"

definition combine_xwing ::
  "prims \<Rightarrow> bytes \<Rightarrow> bytes \<Rightarrow> bytes \<Rightarrow> bytes \<Rightarrow> bytes option \<Rightarrow> bytes result" where
  "combine_xwing p initiator responder classical xwing_static xwing_one_time =
     hkdf_expand p 32 (bytes_of_string ''Ratchet-USB/v4/PQXDH/X-Wing'')
       (hkdf_extract p (initiator @ responder) (classical @ xwing_static @ append_opt xwing_one_time))"

text \<open>The classical one-time prekey comes with its DH value: \<open>dh4\<close> and \<open>otpk_pub\<close> are null together.\<close>

definition fill_xwing_pair ::
  "prims \<Rightarrow> bytes \<Rightarrow> bytes \<Rightarrow> bytes \<Rightarrow> bytes \<Rightarrow> bytes option \<Rightarrow> (bytes \<times> bytes) option
     \<Rightarrow> (bytes \<times> bytes option) result" where
  "fill_xwing_pair p pq_static dh3 ephemeral_pub pre_pub pq_one_time dh4_otpk =
     bindR (xwing_combine p pq_static dh3 ephemeral_pub pre_pub) (\<lambda>xwing_static.
     case pq_one_time of
       None \<Rightarrow> Inr (xwing_static, None)
     | Some ss \<Rightarrow>
         bindR (case dh4_otpk of
                  Some (dh4, one_pub) \<Rightarrow> xwing_combine p ss dh4 ephemeral_pub one_pub
                | None \<Rightarrow> xwing_combine p ss dh3 ephemeral_pub pre_pub)
           (\<lambda>xwing_one_time. Inr (xwing_static, Some xwing_one_time)))"

text \<open>The common end of both sides: which of the two hybrid combiners runs.\<close>

definition combine_pq ::
  "prims \<Rightarrow> bool \<Rightarrow> bytes \<Rightarrow> bytes \<Rightarrow> bytes \<Rightarrow> bytes \<Rightarrow> bytes option \<Rightarrow> bytes \<Rightarrow> bytes \<Rightarrow> bytes
     \<Rightarrow> (bytes \<times> bytes) option \<Rightarrow> bytes result" where
  "combine_pq p use_xwing initiator responder classical pq_static pq_one_time dh3 ephemeral_pub pre_pub dh4_otpk =
     (if use_xwing
      then bindR (fill_xwing_pair p pq_static dh3 ephemeral_pub pre_pub pq_one_time dh4_otpk)
             (\<lambda>(xwing_static, xwing_one_time).
           combine_xwing p initiator responder classical xwing_static xwing_one_time)
      else combine_hybrid p initiator responder classical pq_static pq_one_time)"

section \<open>Initiator\<close>

record draws =
  dr_ephemeral :: bytes
  dr_pick :: "nat \<Rightarrow> nat"  \<comment> \<open>\<open>randombytes_uniform\<close> for the classical pool\<close>
  dr_pick_pq :: "nat \<Rightarrow> nat"
  dr_static_coins :: bytes
  dr_one_time_coins :: bytes

text \<open>\<open>randombytes_uniform(n)\<close> is below \<open>n\<close>.\<close>

definition uniform_law :: "draws \<Rightarrow> bool" where
  "uniform_law d \<longleftrightarrow> (\<forall>n > 0. dr_pick d n < n \<and> dr_pick_pq d n < n)"

record initiator_result =
  ir_shared_secret :: bytes
  ir_ephemeral_sk :: bytes
  ir_ephemeral_pk :: bytes
  ir_spk_id :: u32
  ir_spk_pub :: bytes
  ir_otpk_id :: "u32 option"
  ir_pq_spk_id :: "u32 option"
  ir_pq_spk_ciphertext :: "bytes option"
  ir_pq_otpk_id :: "u32 option"
  ir_pq_otpk_ciphertext :: "bytes option"

definition map_card :: "(peer_card \<Rightarrow> peer_card) \<Rightarrow> contact \<Rightarrow> contact" where
  "map_card f c = c\<lparr>c_card := map_option f (c_card c)\<rparr>"

text \<open>Takes a one-time prekey from the card, if there is one, and runs the fourth exchange with it.\<close>

definition take_otpk ::
  "prims \<Rightarrow> draws \<Rightarrow> bytes \<Rightarrow> peer_card \<Rightarrow> (contact, (u32 \<times> bytes \<times> bytes) option) mut" where
  "take_otpk p d eph_sk cd =
     (if pc_one_time_prekeys cd = [] then returnM None
      else let pick = dr_pick d (length (pc_one_time_prekeys cd));
               otpk = pc_one_time_prekeys cd ! pick
           in bindM (modifyM (map_card (\<lambda>c. c\<lparr>pc_one_time_prekeys := erase_at pick (pc_one_time_prekeys c)\<rparr>))) (\<lambda>_.
              bindM (readM (\<lambda>_. x25519_dh p eph_sk (po_pub otpk))) (\<lambda>dh4.
              returnM (Some (po_id otpk, po_pub otpk, dh4)))))"

text \<open>The same for the ML-KEM pool: key id, ciphertext and shared secret.\<close>

definition drop_pq_otpk :: "nat \<Rightarrow> peer_card \<Rightarrow> peer_card" where
  "drop_pq_otpk pick c = c\<lparr>pc_pq_bundle := map_option
     (\<lambda>b. b\<lparr>pqb_one_time_prekeys := erase_at pick (pqb_one_time_prekeys b)\<rparr>) (pc_pq_bundle c)\<rparr>"

definition take_pq_otpk ::
  "prims \<Rightarrow> draws \<Rightarrow> peer_pq_bundle \<Rightarrow> (contact, (u32 \<times> bytes \<times> bytes) option) mut" where
  "take_pq_otpk p d pqb =
     (if pqb_one_time_prekeys pqb = [] then returnM None
      else let pick = dr_pick_pq d (length (pqb_one_time_prekeys pqb));
               picked = pqb_one_time_prekeys pqb ! pick
           in bindM (modifyM (map_card (drop_pq_otpk pick))) (\<lambda>_.
              bindM (readM (\<lambda>_. ml_kem_768_encapsulate p (pp_pub picked) (dr_one_time_coins d))) (\<lambda>(ct, ss).
              returnM (Some (pp_id picked, ct, ss)))))"

text \<open>The three or four exchanges of the classical handshake, from the initiator's keys.\<close>

definition initiator_dhs :: "prims \<Rightarrow> bytes \<Rightarrow> bytes \<Rightarrow> bytes \<Rightarrow> bytes \<Rightarrow> (bytes \<times> bytes \<times> bytes) result" where
  "initiator_dhs p my_dh_sk eph_sk their_dh_pk pre_pub =
     bindR (x25519_dh p my_dh_sk pre_pub) (\<lambda>dh1.
     bindR (x25519_dh p eph_sk their_dh_pk) (\<lambda>dh2.
     bindR (x25519_dh p eph_sk pre_pub) (\<lambda>dh3. Inr (dh1, dh2, dh3))))"

definition hybrid_initiate ::
  "prims \<Rightarrow> draws \<Rightarrow> bytes \<Rightarrow> bytes \<Rightarrow> bool \<Rightarrow> peer_card \<Rightarrow> bytes \<Rightarrow> bytes \<Rightarrow> (u32 \<times> bytes \<times> bytes) option
     \<Rightarrow> initiator_result \<Rightarrow> (contact, initiator_result) mut" where
  "hybrid_initiate p d my_ik their_ik use_xwing cd dh3 eph_pk otpk r =
     (case pc_pq_bundle cd of
        None \<Rightarrow> returnM r
      | Some pqb \<Rightarrow>
          bindM (readM (\<lambda>_. ml_kem_768_encapsulate p (pp_pub (pqb_signed_prekey pqb)) (dr_static_coins d)))
            (\<lambda>(static_ct, static_secret).
          bindM (take_pq_otpk p d pqb) (\<lambda>one_time.
          bindM (readM (\<lambda>_. combine_pq p use_xwing my_ik their_ik (ir_shared_secret r) static_secret
                   (map_option (\<lambda>(i, ct, ss). ss) one_time) dh3 eph_pk (pc_spk_pub cd)
                   (map_option (\<lambda>(i, pub, dh4). (dh4, pub)) otpk))) (\<lambda>hybrid.
          returnM (r\<lparr>ir_shared_secret := hybrid,
            ir_pq_spk_id := Some (pp_id (pqb_signed_prekey pqb)), ir_pq_spk_ciphertext := Some static_ct,
            ir_pq_otpk_id := map_option (\<lambda>(i, ct, ss). i) one_time,
            ir_pq_otpk_ciphertext := map_option (\<lambda>(i, ct, ss). ct) one_time\<rparr>)))))"

definition initiate ::
  "prims \<Rightarrow> draws \<Rightarrow> bytes \<Rightarrow> bytes \<Rightarrow> bool \<Rightarrow> (contact, initiator_result) mut" where
  "initiate p d my_sk my_ik use_xwing contact =
     (case c_card contact of
        None \<Rightarrow> (contact, Inl (X3dhError NoPrekeyBundle))
      | Some cd \<Rightarrow>
          bindM (readM (\<lambda>c. verify_signed_prekey_signature p (c_identity_pub c) (pc_spk_id cd)
                   (pc_spk_pub cd) (pc_spk_signature cd))) (\<lambda>ok.
            if \<not> ok then throwM (X3dhError StoredCardInvalid) else
            if use_xwing \<and> pc_pq_bundle cd = None then throwM (X3dhError XWingNeedsBundle) else
          bindM (readM (\<lambda>_. identity_dh_keypair p my_sk my_ik)) (\<lambda>(my_dh_sk, my_dh_pk).
          bindM (readM (\<lambda>c. identity_dh_public p (c_identity_pub c))) (\<lambda>their_dh_pk.
          bindM (readM (\<lambda>_. generate_keypair p (dr_ephemeral d))) (\<lambda>(eph_pk, eph_sk).
          bindM (readM (\<lambda>_. initiator_dhs p my_dh_sk eph_sk their_dh_pk (pc_spk_pub cd))) (\<lambda>(dh1, dh2, dh3).
          bindM (take_otpk p d eph_sk cd) (\<lambda>otpk.
          bindM (readM (\<lambda>c. derive_shared_secret p my_ik (c_identity_pub c)
                   ([dh1, dh2, dh3] @ (case otpk of None \<Rightarrow> [] | Some (i, pub, dh4) \<Rightarrow> [dh4])))) (\<lambda>secret.
          hybrid_initiate p d my_ik (c_identity_pub contact) use_xwing cd dh3 eph_pk otpk
            \<lparr>ir_shared_secret = secret, ir_ephemeral_sk = eph_sk, ir_ephemeral_pk = eph_pk,
             ir_spk_id = pc_spk_id cd, ir_spk_pub = pc_spk_pub cd,
             ir_otpk_id = map_option (\<lambda>(i, pub, dh4). i) otpk,
             ir_pq_spk_id = None, ir_pq_spk_ciphertext = None, ir_pq_otpk_id = None,
             ir_pq_otpk_ciphertext = None\<rparr>))))))) contact)"

section \<open>Responder\<close>

definition respond ::
  "prims \<Rightarrow> bytes \<Rightarrow> bytes \<Rightarrow> bytes \<Rightarrow> bytes \<Rightarrow> signed_prekey \<Rightarrow> one_time_prekey option \<Rightarrow> bytes result" where
  "respond p my_sk my_ik their_ik their_ephemeral my_spk my_otpk =
     bindR (identity_dh_keypair p my_sk my_ik) (\<lambda>(my_dh_sk, my_dh_pk).
     bindR (identity_dh_public p their_ik) (\<lambda>their_dh_pk.
     bindR (x25519_dh p (spk_sk my_spk) their_dh_pk) (\<lambda>dh1.
     bindR (x25519_dh p my_dh_sk their_ephemeral) (\<lambda>dh2.
     bindR (x25519_dh p (spk_sk my_spk) their_ephemeral) (\<lambda>dh3.
     bindR (case my_otpk of None \<Rightarrow> Inr []
            | Some ok1 \<Rightarrow> bindR (x25519_dh p (otpk_sk ok1) their_ephemeral) (\<lambda>dh4. Inr [dh4])) (\<lambda>fourth.
     derive_shared_secret p their_ik my_ik ([dh1, dh2, dh3] @ fourth)))))))"

text \<open>The one-time ML-KEM key and its ciphertext are both there or both absent, or the message is rejected.\<close>

definition open_one_time :: "prims \<Rightarrow> pq_prekey option \<Rightarrow> bytes option \<Rightarrow> bytes option result" where
  "open_one_time p my_pq_otpk ct =
     (case (my_pq_otpk, ct) of
        (Some k, Some c) \<Rightarrow> bindR (ml_kem_768_decapsulate p (pq_seed (pqk_key k)) c) (\<lambda>ss. Inr (Some ss))
      | (None, None) \<Rightarrow> Inr None
      | _ \<Rightarrow> Inl (X3dhError OpeningInconsistent))"

text \<open>With the X-Wing combiner the responder computes the two DH values with the ephemeral again.\<close>

definition respond_hybrid ::
  "prims \<Rightarrow> bytes \<Rightarrow> bytes \<Rightarrow> bytes \<Rightarrow> bytes \<Rightarrow> signed_prekey \<Rightarrow> one_time_prekey option \<Rightarrow> pq_prekey
     \<Rightarrow> bytes \<Rightarrow> pq_prekey option \<Rightarrow> bytes option \<Rightarrow> bool \<Rightarrow> bytes result" where
  "respond_hybrid p my_sk my_ik their_ik their_ephemeral my_spk my_otpk my_pq_spk pq_spk_ct
     my_pq_otpk pq_otpk_ct use_xwing =
     bindR (respond p my_sk my_ik their_ik their_ephemeral my_spk my_otpk) (\<lambda>classical.
     bindR (ml_kem_768_decapsulate p (pq_seed (pqk_key my_pq_spk)) pq_spk_ct) (\<lambda>pq_static.
     bindR (open_one_time p my_pq_otpk pq_otpk_ct) (\<lambda>pq_one_time.
       if use_xwing then
         bindR (x25519_dh p (spk_sk my_spk) their_ephemeral) (\<lambda>dh3.
         bindR (case my_otpk of None \<Rightarrow> Inr None
                | Some ok1 \<Rightarrow> bindR (x25519_dh p (otpk_sk ok1) their_ephemeral) (\<lambda>dh4.
                    Inr (Some (dh4, otpk_pub ok1)))) (\<lambda>dh4_otpk.
         bindR (fill_xwing_pair p pq_static dh3 their_ephemeral (spk_pub my_spk) pq_one_time dh4_otpk)
           (\<lambda>(xwing_static, xwing_one_time).
         combine_xwing p their_ik my_ik classical xwing_static xwing_one_time)))
       else combine_hybrid p their_ik my_ik classical pq_static pq_one_time)))"

section \<open>The two sides of the optional exchanges\<close>

text \<open>What the initiator took and what the responder holds for it.\<close>

definition same_fourth :: "prims \<Rightarrow> bytes \<Rightarrow> (u32 \<times> bytes \<times> bytes) option \<Rightarrow> one_time_prekey option \<Rightarrow> bool" where
  "same_fourth p eph_pk res mine \<longleftrightarrow> (case res of
     None \<Rightarrow> mine = None
   | Some (i, pub, dh4) \<Rightarrow> \<exists>k. mine = Some k \<and> otpk_id k = i \<and> otpk_pub k = pub \<and>
       x25519_dh p (otpk_sk k) eph_pk = Inr dh4)"

definition same_one_time :: "prims \<Rightarrow> (u32 \<times> bytes \<times> bytes) option \<Rightarrow> pq_prekey option \<Rightarrow> bool" where
  "same_one_time p res mine \<longleftrightarrow> (case res of
     None \<Rightarrow> mine = None
   | Some (i, ct, ss) \<Rightarrow> \<exists>k. mine = Some k \<and> pqk_id k = i \<and>
       ml_kem_768_decapsulate p (pq_seed (pqk_key k)) ct = Inr ss)"

text \<open>The keys behind a published card, as the responder's vault holds them.\<close>

definition pool_of :: "prims \<Rightarrow> one_time_prekey list \<Rightarrow> peer_otpk list \<Rightarrow> bool" where
  "pool_of p ks os \<longleftrightarrow>
     (\<forall>k \<in> set ks. x_pair p (otpk_pub k) (otpk_sk k)) \<and> set os \<subseteq> offer_of ` set ks"

definition pq_pool_of :: "prims \<Rightarrow> pq_prekey list \<Rightarrow> peer_pq_prekey list \<Rightarrow> bool" where
  "pq_pool_of p ks os \<longleftrightarrow> (\<forall>k \<in> set ks. wf_pq_prekey p k) \<and> set os \<subseteq> pq_offer_of ` set ks"

lemma map_card_simps [simp]:
  "c_identity_pub (map_card f c) = c_identity_pub c"
  "c_alias (map_card f c) = c_alias c"
  "c_verified (map_card f c) = c_verified c"
  "c_minimum_suite (map_card f c) = c_minimum_suite c"
  "c_card (map_card f c) = map_option f (c_card c)"
  by (simp_all add: map_card_def)

lemma take_otpk_ok:
  assumes "x25519_law p" and "uniform_law d" and eph: "x_pair p eph_pk eph_sk"
    and pool: "pool_of p ks (pc_one_time_prekeys cd)"
  obtains c' res mine where "take_otpk p d eph_sk cd c = (c', Inr res)"
    and "c_identity_pub c' = c_identity_pub c" and "same_fourth p eph_pk res mine" and "set_option mine \<subseteq> set ks"
proof (cases "pc_one_time_prekeys cd = []")
  case True
  then show thesis
    by (intro that [of c None None]) (simp_all add: take_otpk_def same_fourth_def)
next
  case False
  let ?i = "dr_pick d (length (pc_one_time_prekeys cd))"
  let ?c = "map_card (\<lambda>c. c\<lparr>pc_one_time_prekeys := erase_at ?i (pc_one_time_prekeys c)\<rparr>) c"
  have "?i < length (pc_one_time_prekeys cd)"
    using False assms(2) by (simp add: uniform_law_def)
  then have "pc_one_time_prekeys cd ! ?i \<in> offer_of ` set ks"
    using pool nth_mem by (auto simp: pool_of_def)
  then obtain k where k: "k \<in> set ks" "pc_one_time_prekeys cd ! ?i = offer_of k"
    by auto
  then have "x_pair p (otpk_pub k) (otpk_sk k)"
    using pool by (simp add: pool_of_def)
  with dh_pair [OF assms(1) eph] obtain z where z: "x25519_dh p eph_sk (otpk_pub k) = Inr z"
      "x25519_dh p (otpk_sk k) eph_pk = Inr z"
    by blast
  show thesis
    by (rule that [of ?c "Some (otpk_id k, otpk_pub k, z)" "Some k"])
      (use False k z in \<open>simp_all add: take_otpk_def same_fourth_def offer_of_def Let_def\<close>)
qed

lemma take_pq_otpk_ok:
  assumes "ml_kem_law p" and "ml_kem_encaps_law p" and "uniform_law d"
    and pool: "pq_pool_of p ks (pqb_one_time_prekeys b)"
  obtains c' res mine where "take_pq_otpk p d b c = (c', Inr res)"
    and "c_identity_pub c' = c_identity_pub c" and "same_one_time p res mine" and "set_option mine \<subseteq> set ks"
    and "pred_option (\<lambda>(i, ct, ss). length ct = 1088 \<and> length ss = 32) res"
proof (cases "pqb_one_time_prekeys b = []")
  case True
  then show thesis
    by (intro that [of c None None]) (simp_all add: take_pq_otpk_def same_one_time_def)
next
  case False
  let ?i = "dr_pick_pq d (length (pqb_one_time_prekeys b))"
  have "?i < length (pqb_one_time_prekeys b)"
    using False assms(3) by (simp add: uniform_law_def)
  then have "pqb_one_time_prekeys b ! ?i \<in> pq_offer_of ` set ks"
    using pool nth_mem by (auto simp: pq_pool_of_def)
  then obtain k where k: "k \<in> set ks" "pqb_one_time_prekeys b ! ?i = pq_offer_of k"
    by auto
  then have "ml_kem_768_from_seed p (pq_seed (pqk_key k)) = Inr (pqk_key k)"
    using pool by (simp add: pq_pool_of_def wf_pq_prekey_def)
  from kem_exchange [OF assms(1,2) this, of "dr_one_time_coins d"] obtain ct ss where
    z: "ml_kem_768_encapsulate p (pq_public (pqk_key k)) (dr_one_time_coins d) = Inr (ct, ss)"
      "ml_kem_768_decapsulate p (pq_seed (pqk_key k)) ct = Inr ss" "length ct = 1088" "length ss = 32" .
  show thesis
    by (rule that [of "map_card (drop_pq_otpk ?i) c" "Some (pqk_id k, ct, ss)" "Some k"])
      (use False k z in \<open>simp_all add: take_pq_otpk_def same_one_time_def pq_offer_of_def Let_def\<close>)
qed

lemma xwing_combine_ok:
  assumes "sha3_law p"
  shows "\<exists>h. xwing_combine p a b c d = Inr h"
proof -
  from assms obtain h where "sha3_256 p (a @ b @ c @ d @ kXWingLabel) = Some h" "length h = 32"
    unfolding sha3_law_def by blast
  then show ?thesis
    by (simp add: xwing_combine_def)
qed

lemma fill_xwing_pair_ok:
  assumes "sha3_law p"
  shows "\<exists>s o'. fill_xwing_pair p ss dh3 e pre m f = Inr (s, o')"
proof -
  from assms obtain h where "xwing_combine p ss dh3 e pre = Inr h"
    using xwing_combine_ok by blast
  moreover have "\<exists>h'. (case f of Some (dh4, one_pub) \<Rightarrow> xwing_combine p x dh4 e one_pub
      | None \<Rightarrow> xwing_combine p x dh3 e pre) = Inr h'" for x
    by (cases f) (use xwing_combine_ok [OF assms] in \<open>auto split: prod.split\<close>)
  ultimately show ?thesis
    by (cases m) (force simp: fill_xwing_pair_def bindR_eq_Inr)+
qed

lemma combine_pq_ok:
  assumes "hmac_law p" and "sha3_law p"
  shows "\<exists>z. combine_pq p x a b cl s m dh3 e pre f = Inr z \<and> length z = 32"
proof -
  have k: "\<exists>z. hkdf_expand p 32 i prk = Inr z \<and> length z = 32" for i prk
    using hkdf_expand_ok [of 32 p i prk] hkdf_expand_length [OF assms(1)] by auto
  obtain q q' where "fill_xwing_pair p s dh3 e pre m f = Inr (q, q')"
    using fill_xwing_pair_ok [OF assms(2)] by blast
  then show ?thesis
    using k by (simp add: combine_pq_def combine_xwing_def combine_hybrid_def)
qed

lemma derive_shared_secret_ok:
  assumes "hmac_law p"
  shows "\<exists>z. derive_shared_secret p a b dhs = Inr z \<and> length z = 32"
proof -
  obtain z where "derive_shared_secret p a b dhs = Inr z"
    using hkdf_expand_ok [of 32 p] by (auto simp: derive_shared_secret_def Let_def)
  then show ?thesis
    using hkdf_expand_length [OF assms] by (auto simp: derive_shared_secret_def Let_def)
qed

section \<open>Both sides compute the same secret\<close>

text \<open>
  The premises of an honest handshake: the responder's keys \<open>k\<close>, \<open>ks\<close>, \<open>q\<close>, \<open>qs\<close> stand behind the
  card the initiator holds.
\<close>

definition card_backed ::
  "prims \<Rightarrow> bytes \<Rightarrow> signed_prekey \<Rightarrow> one_time_prekey list \<Rightarrow> pq_prekey \<Rightarrow> pq_prekey list \<Rightarrow> peer_card
     \<Rightarrow> bool" where
  "card_backed p ik k ks q qs cd \<longleftrightarrow>
     pc_spk_id cd = spk_id k \<and> pc_spk_pub cd = spk_pub k \<and> x_pair p (spk_pub k) (spk_sk k) \<and>
     verify_signed_prekey_signature p ik (pc_spk_id cd) (pc_spk_pub cd) (pc_spk_signature cd) = Inr True \<and>
     pool_of p ks (pc_one_time_prekeys cd) \<and> wf_pq_prekey p q \<and>
     (\<exists>b. pc_pq_bundle cd = Some b \<and> pqb_signed_prekey b = pq_offer_of q \<and>
          pq_pool_of p qs (pqb_one_time_prekeys b))"

definition crypto_laws :: "prims \<Rightarrow> bool" where
  "crypto_laws p \<longleftrightarrow> hmac_law p \<and> x25519_law p \<and> ed25519_law p \<and> ml_kem_law p \<and> ml_kem_encaps_law p \<and> sha3_law p"

lemma respond_eq:
  assumes "identity_dh_keypair p skB pkB = Inr (xb, yb)" and "identity_dh_public p pkA = Inr ya"
    and "x25519_dh p (spk_sk k) ya = Inr dh1" and "x25519_dh p xb eph_pk = Inr dh2"
    and "x25519_dh p (spk_sk k) eph_pk = Inr dh3" and "same_fourth p eph_pk res mine"
  shows "respond p skB pkB pkA eph_pk k mine = derive_shared_secret p pkA pkB
    ([dh1, dh2, dh3] @ (case res of None \<Rightarrow> [] | Some (i, pub, dh4) \<Rightarrow> [dh4]))"
  using assms by (auto simp: respond_def same_fourth_def split: option.splits)

lemma respond_hybrid_eq:
  assumes "respond p skB pkB pkA eph_pk k mine = Inr classical"
    and "ml_kem_768_decapsulate p (pq_seed (pqk_key q)) ct = Inr ss"
    and "x25519_dh p (spk_sk k) eph_pk = Inr dh3"
    and "same_fourth p eph_pk res mine" and "same_one_time p pres pq_mine"
  shows "respond_hybrid p skB pkB pkA eph_pk k mine q ct pq_mine (map_option (\<lambda>(i, ct, ss). ct) pres) xw =
    combine_pq p xw pkA pkB classical ss (map_option (\<lambda>(i, ct, ss). ss) pres) dh3 eph_pk (spk_pub k)
      (map_option (\<lambda>(i, pub, dh4). (dh4, pub)) res)"
proof -
  have o: "open_one_time p pq_mine (map_option (\<lambda>(i, ct, ss). ct) pres) = Inr (map_option (\<lambda>(i, ct, ss). ss) pres)"
    using assms(5) by (auto simp: open_one_time_def same_one_time_def split: option.splits)
  have "(case mine of None \<Rightarrow> Inr None | Some ok1 \<Rightarrow> bindR (x25519_dh p (otpk_sk ok1) eph_pk) (\<lambda>dh4.
      Inr (Some (dh4, otpk_pub ok1)))) = Inr (map_option (\<lambda>(i, pub, dh4). (dh4, pub)) res)"
    using assms(4) by (auto simp: same_fourth_def split: option.splits)
  with assms(1-3) o show ?thesis
    by (simp add: respond_hybrid_def combine_pq_def)
qed

lemma handshake_ok:
  assumes laws: "crypto_laws p" and u: "uniform_law d"
    and A: "ed_pair p pkA skA" and B: "ed_pair p pkB skB"
    and c: "c_card c = Some cd" "c_identity_pub c = pkB" and backed: "card_backed p pkB k ks q qs cd"
  obtains c' r ct mine pq_mine where "initiate p d skA pkA xw c = (c', Inr r)"
    and "respond_hybrid p skB pkB pkA (ir_ephemeral_pk r) k mine q ct pq_mine (ir_pq_otpk_ciphertext r) xw =
           Inr (ir_shared_secret r)"
    and "ir_spk_id r = spk_id k" and "ir_spk_pub r = spk_pub k"
    and "ir_pq_spk_id r = Some (pqk_id q)" and "ir_pq_spk_ciphertext r = Some ct" and "length ct = 1088"
    and "ir_otpk_id r = map_option otpk_id mine" and "set_option mine \<subseteq> set ks"
    and "ir_pq_otpk_id r = map_option pqk_id pq_mine" and "set_option pq_mine \<subseteq> set qs"
    and "ir_pq_otpk_ciphertext r = None \<longleftrightarrow> pq_mine = None"
    and "pred_option (\<lambda>ct. length ct = 1088) (ir_pq_otpk_ciphertext r)"
    and "length (ir_shared_secret r) = 32" and "x_pair p (ir_ephemeral_pk r) (ir_ephemeral_sk r)"
proof -
  have L: "hmac_law p" "x25519_law p" "ed25519_law p" "ml_kem_law p" "ml_kem_encaps_law p" "sha3_law p"
    using laws by (simp_all add: crypto_laws_def)
  obtain b where b: "pc_pq_bundle cd = Some b" "pqb_signed_prekey b = pq_offer_of q"
      "pq_pool_of p qs (pqb_one_time_prekeys b)"
    using backed by (auto simp: card_backed_def)
  have k: "pc_spk_id cd = spk_id k" "pc_spk_pub cd = spk_pub k" "x_pair p (spk_pub k) (spk_sk k)"
      "verify_signed_prekey_signature p pkB (spk_id k) (spk_pub k) (pc_spk_signature cd) = Inr True"
      "pool_of p ks (pc_one_time_prekeys cd)" "wf_pq_prekey p q"
    using backed unfolding card_backed_def by (elim conjE; simp)+
  obtain xa ya where a: "identity_dh_keypair p skA pkA = Inr (xa, ya)" "identity_dh_public p pkA = Inr ya"
      "x_pair p ya xa"
    using identity_pair [OF L(3) A] by blast
  obtain xb yb where bb: "identity_dh_keypair p skB pkB = Inr (xb, yb)" "identity_dh_public p pkB = Inr yb"
      "x_pair p yb xb"
    using identity_pair [OF L(3) B] by blast
  obtain epk esk where e: "generate_keypair p (dr_ephemeral d) = Inr (epk, esk)" "x_pair p epk esk"
    using generate_keypair_ok [OF L(2)] .
  obtain dh1 where dh1: "x25519_dh p xa (spk_pub k) = Inr dh1" "x25519_dh p (spk_sk k) ya = Inr dh1"
    using dh_pair [OF L(2) a(3) k(3)] by blast
  obtain dh2 where dh2: "x25519_dh p esk yb = Inr dh2" "x25519_dh p xb epk = Inr dh2"
    using dh_pair [OF L(2) e(2) bb(3)] by blast
  obtain dh3 where dh3: "x25519_dh p esk (spk_pub k) = Inr dh3" "x25519_dh p (spk_sk k) epk = Inr dh3"
    using dh_pair [OF L(2) e(2) k(3)] by blast
  obtain c1 res mine where t: "take_otpk p d esk cd c = (c1, Inr res)" "c_identity_pub c1 = c_identity_pub c"
      "same_fourth p epk res mine" "set_option mine \<subseteq> set ks"
    by (rule take_otpk_ok [OF L(2) u e(2) k(5)])
  let ?parts = "[dh1, dh2, dh3] @ (case res of None \<Rightarrow> [] | Some (i, pub, dh4) \<Rightarrow> [dh4])"
  obtain cl where cl: "derive_shared_secret p pkA pkB ?parts = Inr cl"
    using derive_shared_secret_ok [OF L(1)] by blast
  have "ml_kem_768_from_seed p (pq_seed (pqk_key q)) = Inr (pqk_key q)"
    using k(6) by (simp add: wf_pq_prekey_def)
  from kem_exchange [OF L(4,5) this, of "dr_static_coins d"] obtain ct ss where
    s: "ml_kem_768_encapsulate p (pq_public (pqk_key q)) (dr_static_coins d) = Inr (ct, ss)"
      "ml_kem_768_decapsulate p (pq_seed (pqk_key q)) ct = Inr ss" "length ct = 1088" .
  obtain c2 pres pq_mine where o: "take_pq_otpk p d b c1 = (c2, Inr pres)" "c_identity_pub c2 = c_identity_pub c1"
      "same_one_time p pres pq_mine" "set_option pq_mine \<subseteq> set qs"
      "pred_option (\<lambda>(i, ct, ss). length ct = 1088 \<and> length ss = 32) pres"
    by (rule take_pq_otpk_ok [OF L(4,5) u b(3)])
  obtain z where z: "combine_pq p xw pkA pkB cl ss (map_option (\<lambda>(i, ct, ss). ss) pres) dh3 epk (spk_pub k)
      (map_option (\<lambda>(i, pub, dh4). (dh4, pub)) res) = Inr z" "length z = 32"
    using combine_pq_ok [OF L(1,6)] by blast
  let ?r = "\<lparr>ir_shared_secret = z, ir_ephemeral_sk = esk, ir_ephemeral_pk = epk, ir_spk_id = spk_id k,
    ir_spk_pub = spk_pub k, ir_otpk_id = map_option (\<lambda>(i, pub, dh4). i) res, ir_pq_spk_id = Some (pqk_id q),
    ir_pq_spk_ciphertext = Some ct, ir_pq_otpk_id = map_option (\<lambda>(i, ct, ss). i) pres,
    ir_pq_otpk_ciphertext = map_option (\<lambda>(i, ct, ss). ct) pres\<rparr>"
  have "initiate p d skA pkA xw c = (c2, Inr ?r)"
    using c k b a(1) bb(2) e dh1 dh2 dh3 t cl s o z
    by (simp add: initiate_def initiator_dhs_def hybrid_initiate_def bindM_def pq_offer_of_def)
  moreover have "respond_hybrid p skB pkB pkA epk k mine q ct pq_mine (map_option (\<lambda>(i, ct, ss). ct) pres) xw = Inr z"
    using respond_hybrid_eq [OF _ s(2) dh3(2) t(3) o(3), of skB pkB pkA cl xw]
      respond_eq [OF bb(1) a(2) dh1(2) dh2(2) dh3(2) t(3)] cl z(1) by simp
  moreover have "map_option (\<lambda>(i, pub, dh4). i) res = map_option otpk_id mine"
    using t(3) by (auto simp: same_fourth_def split: option.splits)
  moreover have "map_option (\<lambda>(i, ct, ss). i) pres = map_option pqk_id pq_mine"
      and "map_option (\<lambda>(i, ct, ss). ct) pres = None \<longleftrightarrow> pq_mine = None"
    using o(3) by (auto simp: same_one_time_def split: option.splits)
  moreover have "pred_option (\<lambda>ct. length ct = 1088) (map_option (\<lambda>(i, ct, ss). ct) pres)"
    using o(5) by (cases pres) auto
  ultimately show thesis
    using s(3) t(4) o(4) z(2) e(2) by (intro that [of c2 ?r mine ct pq_mine]) simp_all
qed

section \<open>What a handshake takes from the stored card\<close>

text \<open>The card after a handshake that ran to its end.\<close>

definition consumed :: "draws \<Rightarrow> peer_card \<Rightarrow> peer_card" where
  "consumed d cd = cd\<lparr>
     pc_one_time_prekeys := erase_at (dr_pick d (length (pc_one_time_prekeys cd))) (pc_one_time_prekeys cd),
     pc_pq_bundle := map_option (\<lambda>b. b\<lparr>pqb_one_time_prekeys :=
       erase_at (dr_pick_pq d (length (pqb_one_time_prekeys b))) (pqb_one_time_prekeys b)\<rparr>) (pc_pq_bundle cd)\<rparr>"

definition picked_id :: "(nat \<Rightarrow> nat) \<Rightarrow> ('a \<Rightarrow> u32) \<Rightarrow> 'a list \<Rightarrow> u32 option" where
  "picked_id pick f xs = (if xs = [] then None else Some (f (xs ! pick (length xs))))"

lemma erase_at_Nil [simp]: "erase_at i [] = []"
  by (simp add: erase_at_def)

lemma take_otpk_Inr:
  assumes "take_otpk p d esk cd c = (c', Inr res)" and "c_card c = Some cd"
  shows "c' = c\<lparr>c_card := Some (cd\<lparr>pc_one_time_prekeys :=
      erase_at (dr_pick d (length (pc_one_time_prekeys cd))) (pc_one_time_prekeys cd)\<rparr>)\<rparr> \<and>
    map_option (\<lambda>(i, pub, dh4). i) res = picked_id (dr_pick d) po_id (pc_one_time_prekeys cd)"
  using assms
  by (auto simp: take_otpk_def picked_id_def Let_def bindM_eq_Inr map_card_def split: if_splits)

lemma take_pq_otpk_Inr:
  assumes "take_pq_otpk p d b c = (c', Inr res)" and "c_card c = Some cd" and "pc_pq_bundle cd = Some b"
  shows "c' = c\<lparr>c_card := Some (cd\<lparr>pc_pq_bundle := Some (b\<lparr>pqb_one_time_prekeys :=
      erase_at (dr_pick_pq d (length (pqb_one_time_prekeys b))) (pqb_one_time_prekeys b)\<rparr>)\<rparr>)\<rparr> \<and>
    map_option (\<lambda>(i, ct, ss). i) res = picked_id (dr_pick_pq d) pp_id (pqb_one_time_prekeys b)"
  using assms
  by (auto simp: take_pq_otpk_def picked_id_def Let_def bindM_eq_Inr map_card_def drop_pq_otpk_def
      split: if_splits)

lemma bindM_readM_Inr: "bindM (readM g) f s = (s', Inr y) \<longleftrightarrow> (\<exists>x. g s = Inr x \<and> f x s = (s', Inr y))"
  by (auto simp: bindM_eq_Inr)

lemma initiate_Inr:
  assumes "initiate p d sk ik xw c = (c', Inr r)"
  obtains cd where "c_card c = Some cd" and "c' = c\<lparr>c_card := Some (consumed d cd)\<rparr>"
    and "ir_otpk_id r = picked_id (dr_pick d) po_id (pc_one_time_prekeys cd)"
    and "ir_pq_otpk_id r = (case pc_pq_bundle cd of None \<Rightarrow> None
           | Some b \<Rightarrow> picked_id (dr_pick_pq d) pp_id (pqb_one_time_prekeys b))"
    and "xw \<Longrightarrow> pc_pq_bundle cd \<noteq> None"
    and "verify_signed_prekey_signature p (c_identity_pub c) (pc_spk_id cd) (pc_spk_pub cd)
           (pc_spk_signature cd) = Inr True"
    and "ir_spk_id r = pc_spk_id cd" and "ir_spk_pub r = pc_spk_pub cd"
proof -
  from assms obtain cd where cd: "c_card c = Some cd"
    by (cases "c_card c") (simp_all add: initiate_def)
  with assms obtain ok dhsk dhpk tpk epk esk dh1 dh2 dh3 c1 res secret where
      ok: "verify_signed_prekey_signature p (c_identity_pub c) (pc_spk_id cd) (pc_spk_pub cd)
           (pc_spk_signature cd) = Inr True" "\<not> (xw \<and> pc_pq_bundle cd = None)"
    and t: "take_otpk p d esk cd c = (c1, Inr res)"
    and h: "hybrid_initiate p d ik (c_identity_pub c) xw cd dh3 epk res
        \<lparr>ir_shared_secret = secret, ir_ephemeral_sk = esk, ir_ephemeral_pk = epk,
         ir_spk_id = pc_spk_id cd, ir_spk_pub = pc_spk_pub cd, ir_otpk_id = map_option (\<lambda>(i, pub, dh4). i) res,
         ir_pq_spk_id = None, ir_pq_spk_ciphertext = None, ir_pq_otpk_id = None,
         ir_pq_otpk_ciphertext = None\<rparr> c1 = (c', Inr r)"
    by (auto simp: initiate_def bindM_readM_Inr bindM_eq_Inr [of "take_otpk _ _ _ _"] throwM_def split: if_splits)
  note t' = take_otpk_Inr [OF t cd]
  show thesis
  proof (cases "pc_pq_bundle cd")
    case None
    with h t' cd ok show thesis
      by (intro that [of cd]) (auto simp: hybrid_initiate_def consumed_def)
  next
    case (Some b)
    with h obtain ct ss c2 pres z where "take_pq_otpk p d b c1 = (c2, Inr pres)" "c' = c2"
        "ir_otpk_id r = map_option (\<lambda>(i, pub, dh4). i) res" "ir_pq_otpk_id r = map_option (\<lambda>(i, ct, ss). i) pres"
        "ir_spk_id r = pc_spk_id cd" "ir_spk_pub r = pc_spk_pub cd"
      by (auto simp: hybrid_initiate_def bindM_readM_Inr bindM_eq_Inr [of "take_pq_otpk _ _ _"])
    with t' cd ok Some show thesis
      by (intro that [of cd]) (auto simp: consumed_def dest!: take_pq_otpk_Inr)
  qed
qed

text \<open>Everything but the pools survives an error as well, and the checks at the start come before any change.\<close>

abbreviation crypto_errors :: "error set" where
  "crypto_errors \<equiv> range CryptoError"

lemma crypto_throws [throws_intro]:
  "throws crypto_errors (x25519_dh p a b)"
  "throws crypto_errors (generate_keypair p r)"
  "throws crypto_errors (identity_dh_public p k)"
  "throws crypto_errors (identity_dh_keypair p sk pk)"
  "throws crypto_errors (ml_kem_768_encapsulate p pk coins)"
  "throws crypto_errors (hkdf_expand p n i prk)"
  "throws crypto_errors (xwing_combine p ss x ct pk)"
  unfolding x25519_dh_def generate_keypair_def identity_dh_public_def identity_dh_keypair_def
    ml_kem_768_encapsulate_def hkdf_expand_def xwing_combine_def
  by (intro throws_intro rangeI | simp only: split_beta)+

lemma agreement_throws [throws_intro]:
  "throws crypto_errors (derive_shared_secret p a b dhs)"
  "throws crypto_errors (initiator_dhs p x e t s)"
  "throws crypto_errors (combine_pq p xw a b cl s m dh3 e pre f)"
  unfolding derive_shared_secret_def initiator_dhs_def combine_pq_def combine_hybrid_def combine_xwing_def
    fill_xwing_pair_def Let_def
  by (intro throws_intro | simp only: split_beta split: option.split | intro conjI impI allI)+

lemma taken_throws [throws_intro]:
  "throwsM crypto_errors (take_otpk p d esk cd)"
  "throwsM crypto_errors (take_pq_otpk p d b)"
  unfolding take_otpk_def take_pq_otpk_def Let_def split_beta
  by (intro throws_intro)+

lemma hybrid_initiate_throws [throws_intro]:
  "throwsM crypto_errors (hybrid_initiate p d a b xw cd dh3 e o4 r)"
  unfolding hybrid_initiate_def split_beta
  by (cases "pc_pq_bundle cd") (simp, intro throws_intro)+

lemma initiate_frame: "preserves (\<lambda>c. c\<lparr>c_card := None\<rparr>) (initiate p d sk ik xw)"
proof -
  have m: "(map_card f s)\<lparr>c_card := None\<rparr> = s\<lparr>c_card := None\<rparr>" for f and s :: contact
    by (simp add: map_card_def)
  have t: "preserves (\<lambda>c. c\<lparr>c_card := None\<rparr>) (take_otpk p d esk cd)"
    "preserves (\<lambda>c. c\<lparr>c_card := None\<rparr>) (take_pq_otpk p d b)" for esk cd b
    unfolding take_otpk_def take_pq_otpk_def Let_def split_beta by (intro frame_intro m)+
  have h: "preserves (\<lambda>c. c\<lparr>c_card := None\<rparr>) (hybrid_initiate p d a b xw cd dh3 e o4 r)" for a b cd dh3 e o4 r
    unfolding hybrid_initiate_def split_beta by (cases "pc_pq_bundle cd") (simp, intro frame_intro t)+
  show ?thesis
    unfolding preserves_def
  proof
    fix c
    show "(fst (initiate p d sk ik xw c))\<lparr>c_card := None\<rparr> = c\<lparr>c_card := None\<rparr>"
    proof (cases "c_card c")
      case (Some cd)
      show ?thesis
        unfolding initiate_def Some option.case split_beta
        by (rule preserves_def [THEN iffD1, THEN spec]) (intro frame_intro t h)
    qed (simp add: initiate_def)
  qed
qed

lemma initiate_early:
  assumes "initiate p d sk ik xw c = (c', Inl (X3dhError e))"
  shows "c' = c"
proof (cases "c_card c")
  case None
  with assms show ?thesis
    by (simp add: initiate_def)
next
  case (Some cd)
  show ?thesis
  proof (rule ccontr)
    assume n: "c' \<noteq> c"
    from assms n Some show False
      unfolding initiate_def option.case
      by (auto simp: bindM_eq_Inl split: if_splits
        dest!: throws_def [THEN iffD1, rule_format, OF agreement_throws(1)] throwsMD [OF taken_throws(1)] throwsMD [OF hybrid_initiate_throws])
  qed
qed

section \<open>A handshake for the witnesses\<close>

definition sample_otpk :: one_time_prekey where
  "sample_otpk = \<lparr>otpk_id = 7, otpk_pub = replicate 32 6, otpk_sk = replicate 32 6\<rparr>"

definition sample_pqk :: pq_prekey where
  "sample_pqk = \<lparr>pqk_id = 4, pqk_key = \<lparr>pq_public = fit 1184 (replicate 64 8), pq_seed = replicate 64 8\<rparr>,
     pqk_created_at = 0\<rparr>"

definition sample_draws :: draws where
  "sample_draws = \<lparr>dr_ephemeral = [9], dr_pick = (\<lambda>n. n - 1), dr_pick_pq = (\<lambda>n. 0), dr_static_coins = [1],
     dr_one_time_coins = [2]\<rparr>"

lemma sample_crypto_laws: "crypto_laws sample_prims"
  by (simp add: crypto_laws_def sample_laws sample_ml_kem_encaps sample_sha3)

lemma sample_uniform: "uniform_law sample_draws"
  by (simp add: uniform_law_def sample_draws_def)

lemma sample_ed_pair: "ed_pair sample_prims (fit 32 s) (fit 32 s @ fit 32 s)"
  by (auto simp: ed_pair_def sample_prims_def)

lemma sample_pqk_wf: "wf_pq_prekey sample_prims sample_pqk"
  by (simp add: wf_pq_prekey_def sample_pqk_def ml_kem_768_from_seed_def) (simp add: sample_prims_def)

lemma sample_card_backed:
  obtains k where "spk_id k = 3" and "wf_signed_prekey k"
    and "card_backed sample_prims (fit 32 s) k [sample_otpk] sample_pqk [sample_pqk]
      (published_card (replicate 1952 0) k [sample_otpk]
        (published_bundle sample_pqk (replicate 64 0) (replicate 3309 0) [sample_pqk]))"
proof -
  let ?sk = "fit 32 s @ fit 32 s"
  obtain m where "spk_signing_payload 3 (fit 32 [5]) = Inr m"
    using spk_payload_ok by blast
  then obtain k where k: "generate_signed_prekey sample_prims [5] 100 ?sk 3 = Inr k"
    by (simp add: generate_signed_prekey_def generate_keypair_def sign_def sample_prims_def)
  have v: "verify_signed_prekey_signature sample_prims (fit 32 s) (spk_id k) (spk_pub k) (spk_signature k) = Inr True"
    by (rule generated_prekey_verifies [OF sample_ed25519 sample_ed_pair k])
  from k obtain msg where w: "spk_id k = 3" "generate_keypair sample_prims [5] = Inr (spk_pub k, spk_sk k)"
      "sign sample_prims ?sk msg = Inr (spk_signature k)"
    by (auto simp: generate_signed_prekey_def bindR_eq_Inr)
  then have w: "spk_id k = 3" "x_pair sample_prims (spk_pub k) (spk_sk k)" "length (spk_signature k) = 64"
    using generate_keypair_pair [OF sample_x25519 w(2)] sign_verifies [OF sample_ed25519 sample_ed_pair w(3)]
    by simp_all
  then have "wf_signed_prekey k"
    using x_pair_length [OF sample_x25519] by (simp add: wf_signed_prekey_def)
  moreover have "pool_of sample_prims [sample_otpk] [offer_of sample_otpk]"
    by (simp add: pool_of_def sample_x_pair) (simp add: sample_otpk_def)
  moreover have "pq_pool_of sample_prims [sample_pqk] [pq_offer_of sample_pqk]"
    by (simp add: pq_pool_of_def sample_pqk_wf)
  ultimately show thesis
    using v w(1,2) sample_pqk_wf
    by (intro that [of k]) (simp_all add: card_backed_def published_card_def published_bundle_def)
qed

section \<open>Properties\<close>

text \<open>C10: The handshake agrees: whenever the card an initiator holds is backed by the responder's keys,
  \<open>initiate\<close> succeeds, names prekeys the responder has, and \<open>respond_hybrid\<close> with those prekeys computes
  the same 32-byte secret, with either combiner, with or without one-time prekeys of either kind.\<close>

theorem handshake_agrees:
  assumes "crypto_laws p" and "uniform_law d"
    and "ed_pair p pkA skA" and "ed_pair p pkB skB"
    and "c_card c = Some cd" and "c_identity_pub c = pkB" and "card_backed p pkB k ks q qs cd"
  shows "\<exists>c' r ct mine pq_mine. initiate p d skA pkA xw c = (c', Inr r) \<and>
    ir_spk_id r = spk_id k \<and> ir_pq_spk_id r = Some (pqk_id q) \<and> ir_pq_spk_ciphertext r = Some ct \<and>
    ir_otpk_id r = map_option otpk_id mine \<and> set_option mine \<subseteq> set ks \<and>
    ir_pq_otpk_id r = map_option pqk_id pq_mine \<and> set_option pq_mine \<subseteq> set qs \<and>
    respond_hybrid p skB pkB pkA (ir_ephemeral_pk r) k mine q ct pq_mine (ir_pq_otpk_ciphertext r) xw =
      Inr (ir_shared_secret r) \<and> length (ir_shared_secret r) = 32"
  by (rule handshake_ok [OF assms, of xw]) blast

lemma handshake_agrees_witness:
  "\<exists>c c' r k ct mine pq_mine. initiate sample_prims sample_draws (fit 32 [1] @ fit 32 [1]) (fit 32 [1]) True c = (c', Inr r) \<and>
     respond_hybrid sample_prims (fit 32 [2] @ fit 32 [2]) (fit 32 [2]) (fit 32 [1]) (ir_ephemeral_pk r) k mine
       sample_pqk ct pq_mine (ir_pq_otpk_ciphertext r) True = Inr (ir_shared_secret r)"
proof -
  obtain k where b: "card_backed sample_prims (fit 32 [2]) k [sample_otpk] sample_pqk [sample_pqk]
      (published_card (replicate 1952 0) k [sample_otpk]
        (published_bundle sample_pqk (replicate 64 0) (replicate 3309 0) [sample_pqk]))"
    by (rule sample_card_backed)
  let ?c = "\<lparr>c_alias = ''bob'', c_identity_pub = fit 32 [2], c_verified = True, c_minimum_suite = HybridPqxdhV1,
    c_card = Some (published_card (replicate 1952 0) k [sample_otpk]
        (published_bundle sample_pqk (replicate 64 0) (replicate 3309 0) [sample_pqk]))\<rparr>"
  have "c_card ?c = Some (published_card (replicate 1952 0) k [sample_otpk]
        (published_bundle sample_pqk (replicate 64 0) (replicate 3309 0) [sample_pqk]))"
    and "c_identity_pub ?c = fit 32 [2]"
    by simp_all
  from handshake_agrees [OF sample_crypto_laws sample_uniform sample_ed_pair sample_ed_pair this b, of "[1]" True]
  show ?thesis
    by blast
qed

text \<open>A completed handshake takes exactly the one-time prekeys it names from the stored card, one of each
  non-empty pool, and changes nothing else of the contact; a stored card that does not verify, or that has
  no ML-KEM bundle when X-Wing is asked for, is refused with the contact untouched.\<close>

theorem initiate_consumes:
  "case initiate p d sk ik xw c of
     (c', Inr r) \<Rightarrow> (\<exists>cd. c_card c = Some cd \<and> c' = c\<lparr>c_card := Some (consumed d cd)\<rparr> \<and>
       ir_otpk_id r = picked_id (dr_pick d) po_id (pc_one_time_prekeys cd) \<and>
       ir_pq_otpk_id r = (case pc_pq_bundle cd of None \<Rightarrow> None
         | Some b \<Rightarrow> picked_id (dr_pick_pq d) pp_id (pqb_one_time_prekeys b)))
   | (c', Inl e) \<Rightarrow> c'\<lparr>c_card := None\<rparr> = c\<lparr>c_card := None\<rparr> \<and>
       (case e of X3dhError x \<Rightarrow> c' = c | _ \<Rightarrow> True)"
proof (cases "initiate p d sk ik xw c")
  case (Pair c' res)
  show ?thesis
  proof (cases res)
    case (Inr r)
    with Pair show ?thesis
      by (auto elim!: initiate_Inr)
  next
    case (Inl e)
    with Pair show ?thesis
      using preservesD [OF initiate_frame Pair] initiate_early by (cases e) auto
  qed
qed

end
