(* ===== verification/Session.thy ===== *)
theory Session
  imports X3dh Ratchet_Props
begin

text \<open>
  \<open>session.cpp\<close>: sending and receiving a message on the vault. Both operations work on copies of the
  session and the contact and adopt them at the end; a value a C++ function builds in a local and
  discards when it throws is run with \<open>on_local\<close>. \<open>receive\<close> is the vault's mutation as it is left,
  also on an error.

  Random bytes and clock readings are arguments: \<open>send_draws\<close> and \<open>recv_draws\<close>.
\<close>

section \<open>Local objects\<close>

text \<open>A mutation of a local: its final value with the result, or only the error.\<close>

definition on_local :: "('s, 'a) mut \<Rightarrow> 's \<Rightarrow> ('s \<times> 'a) result" where
  "on_local m s = (case m s of (s', Inl e) \<Rightarrow> Inl e | (s', Inr x) \<Rightarrow> Inr (s', x))"

lemma on_local_Inr: "on_local m s = Inr (s', x) \<longleftrightarrow> m s = (s', Inr x)"
  by (auto simp: on_local_def split: prod.splits sum.splits)

lemma on_local_eq [simp]: "m s = (s', Inr x) \<Longrightarrow> on_local m s = Inr (s', x)"
  by (simp add: on_local_def)

definition session_id_for :: "prims \<Rightarrow> envelope \<Rightarrow> bytes result" where
  "session_id_for p env = bindR (envelope_aad_prefix env) (\<lambda>transcript. Inr (sha256 p transcript))"

section \<open>Sending\<close>

record send_draws =
  sd_handshake :: draws
  sd_spqr :: bytes
  sd_nonce :: bytes

text \<open>The suite of the session if it has keys, otherwise the newest one the card offers.\<close>

definition selected_suite :: "vault_store \<Rightarrow> nat \<Rightarrow> peer_card \<Rightarrow> protocol_suite" where
  "selected_suite v ci cd = (case find_session v ci of
     Some i \<Rightarrow> if s_has_dhs (v_sessions v ! i) then s_suite (v_sessions v ! i) else pc_maximum_suite cd
   | None \<Rightarrow> pc_maximum_suite cd)"

definition local_session :: "vault_store \<Rightarrow> nat \<Rightarrow> session" where
  "local_session v ci = (case find_session v ci of
     Some i \<Rightarrow> clone_session (v_sessions v ! i) | None \<Rightarrow> session_default)\<lparr>s_contact_index := ci\<rparr>"

text \<open>The guards of \<open>send\<close>, in order; the card, the suite and the session the rest works with.\<close>

definition admit_send :: "vault_store \<Rightarrow> nat \<Rightarrow> bytes \<Rightarrow> (contact \<times> protocol_suite \<times> session) result" where
  "admit_send v ci plaintext =
     (if ci \<ge> length (v_contacts v) then Inl (SendError NoSuchContact)
      else let c = v_contacts v ! ci in
      if \<not> c_verified c then Inl (SendError SendUnverified)
      else if length plaintext > kMaxPlaintextBytes then Inl (RatchetError PlaintextTooLong)
      else case c_card c of
        None \<Rightarrow> Inl (SendError CardRequired)
      | Some cd \<Rightarrow>
          if pc_pq_bundle cd = None then Inl (SendError CardRequired)
          else let suite = selected_suite v ci cd; s = local_session v ci in
          if \<not> suite_at_least suite (c_minimum_suite c) then Inl (SendError SuiteBelowMinimum)
          else if suite \<noteq> HybridPqxdhV1 \<and> \<not> uses_triple_ratchet suite then Inl (SendError CardSuiteUnsupported)
          else if s_legacy_read_only s then Inl (SendError LegacyReadOnly)
          else if s_has_dhs s \<and> s_suite s \<noteq> suite then Inl (SendError ActiveSuiteUnsupported)
          else Inr (c, suite, s))"

text \<open>\<open>split_initial_secret\<close>, the SPQR state and the ratchet of a fresh session.\<close>

definition open_sender ::
  "prims \<Rightarrow> protocol_suite \<Rightarrow> initiator_result \<Rightarrow> session \<Rightarrow> session result" where
  "open_sender p suite hs s =
     (if uses_triple_ratchet suite then
        bindR (split_initial_secret p (ir_shared_secret hs)) (\<lambda>(ec_secret, spqr_secret).
        bindR (spqr_initialize p True spqr_secret) (\<lambda>state.
        bindR (on_local (init_sender p ec_secret (ir_ephemeral_sk hs) (ir_ephemeral_pk hs) (ir_spk_pub hs))
                 (s\<lparr>s_spqr_state := state\<rparr>)) (\<lambda>(s', _). Inr s')))
      else bindR (on_local (init_sender p (ir_shared_secret hs) (ir_ephemeral_sk hs) (ir_ephemeral_pk hs)
                 (ir_spk_pub hs)) s) (\<lambda>(s', _). Inr s'))"

definition initial_of :: "bytes \<Rightarrow> initiator_result \<Rightarrow> initial_fields" where
  "initial_of my_ik hs =
     \<lparr>initiator_identity_pub = my_ik, init_spk_id = ir_spk_id hs, init_otpk_id = ir_otpk_id hs,
      init_pq_spk_id = ir_pq_spk_id hs, init_pq_spk_ciphertext = ir_pq_spk_ciphertext hs,
      init_pq_otpk_id = ir_pq_otpk_id hs, init_pq_otpk_ciphertext = ir_pq_otpk_ciphertext hs\<rparr>"

text \<open>The opening handshake, when the session has no sending chain yet.\<close>

definition open_session ::
  "prims \<Rightarrow> draws \<Rightarrow> bytes \<Rightarrow> bytes \<Rightarrow> protocol_suite \<Rightarrow> contact \<Rightarrow> session
     \<Rightarrow> (contact \<times> session \<times> initial_fields option) result" where
  "open_session p d my_sk my_ik suite c s =
     (if \<not> s_has_cks s then
        bindR (on_local (initiate p d my_sk my_ik (uses_xwing_combiner suite)) c) (\<lambda>(c', hs).
        bindR (open_sender p suite hs s) (\<lambda>s'.
        Inr (c', s'\<lparr>s_suite := suite, s_status := Pending\<rparr>, Some (initial_of my_ik hs))))
      else if s_status s = Closed then Inl (SendError SessionClosed)
      else Inr (c, s, None))"

definition blank_envelope :: "prims \<Rightarrow> bytes \<Rightarrow> protocol_suite \<Rightarrow> initial_fields option \<Rightarrow> envelope" where
  "blank_envelope p my_ik suite initial =
     \<lparr>env_version = (if uses_triple_ratchet suite then 3 else 2), env_suite = suite,
      env_sender_id = sender_id_for p my_ik, env_initial = initial, env_spqr_message = [],
      env_header = \<lparr>h_dh_pub = replicate 32 0, h_pn = 0, h_n = 0\<rparr>, env_ciphertext = []\<rparr>"

text \<open>One SPQR step when the suite has it, and the ratchet's encryption bound to the envelope.\<close>

definition encrypt_into ::
  "prims \<Rightarrow> bytes \<Rightarrow> bytes \<Rightarrow> protocol_suite \<Rightarrow> bytes \<Rightarrow> envelope \<Rightarrow> session \<Rightarrow> (envelope \<times> session) result" where
  "encrypt_into p spqr_rnd nonce suite plaintext env s =
     (if uses_triple_ratchet suite then
        bindR (spqr_send p (s_spqr_state s) spqr_rnd) (\<lambda>step.
        let env1 = env\<lparr>env_spqr_message := sent_message step\<rparr> in
        bindR (envelope_aad_prefix env1) (\<lambda>aad.
        bindR (on_local (ratchet_encrypt p nonce plaintext aad (Some (sent_key step))) s) (\<lambda>(s', h, ct).
        Inr (env1\<lparr>env_header := h, env_ciphertext := ct\<rparr>, s'\<lparr>s_spqr_state := sent_state step\<rparr>))))
      else
        bindR (envelope_aad_prefix env) (\<lambda>aad.
        bindR (on_local (ratchet_encrypt p nonce plaintext aad None) s) (\<lambda>(s', h, ct).
        Inr (env\<lparr>env_header := h, env_ciphertext := ct\<rparr>, s'))))"

definition send ::
  "prims \<Rightarrow> send_draws \<Rightarrow> bytes \<Rightarrow> bytes \<Rightarrow> nat \<Rightarrow> bytes \<Rightarrow> (vault_store, string) mut" where
  "send p d my_sk my_ik ci plaintext =
     bindM (readM (\<lambda>v. admit_send v ci plaintext)) (\<lambda>(c, suite, s).
     bindM (readM (\<lambda>_. open_session p (sd_handshake d) my_sk my_ik suite c s)) (\<lambda>(c', s1, initial).
     bindM (readM (\<lambda>_. encrypt_into p (sd_spqr d) (sd_nonce d) suite plaintext
              (blank_envelope p my_ik suite initial) s1)) (\<lambda>(env, s2).
     bindM (readM (\<lambda>_. if initial = None then Inr s2
              else bindR (session_id_for p env) (\<lambda>i. Inr (s2\<lparr>s_session_id := i\<rparr>)))) (\<lambda>s3.
     bindM (readM (\<lambda>_. message_encode p env)) (\<lambda>block.
     bindM (modifyM (\<lambda>v. case find_session v ci of
              Some i \<Rightarrow> v\<lparr>v_sessions := (v_sessions v)[i := s3]\<rparr>
            | None \<Rightarrow> v\<lparr>v_sessions := v_sessions v @ [s3]\<rparr>)) (\<lambda>_.
     bindM (modifyM (\<lambda>v. v\<lparr>v_contacts := (v_contacts v)[ci := c']\<rparr>)) (\<lambda>_.
     returnM block)))))))"

section \<open>Receiving\<close>

record receive_result =
  rr_contact_index :: nat
  rr_alias :: string
  rr_plaintext :: bytes
  rr_session_established :: bool

record recv_draws =
  rd_clock :: "nat \<Rightarrow> u64"  \<comment> \<open>the readings of the ratchet\<close>
  rd_now :: u64  \<comment> \<open>the reading for the handshake record\<close>
  rd_keypair :: bytes

text \<open>Who the opening is from and whether it may be examined at all. A full history is pruned here.\<close>

definition admit_opening :: "envelope \<Rightarrow> initial_fields \<Rightarrow> (vault_store, nat) mut" where
  "admit_opening env f v =
     (case find_contact_by_identity v (initiator_identity_pub f) of
        None \<Rightarrow> (v, Inl (ReceiveError UnknownContact))
      | Some ci \<Rightarrow>
          if \<not> c_verified (v_contacts v ! ci) then (v, Inl (ReceiveError ReceiveUnverified))
          else if \<not> suite_at_least (env_suite env) (c_minimum_suite (v_contacts v ! ci))
          then (v, Inl (ReceiveError OpeningSuiteBelow))
          else if init_pq_spk_id f = None \<or> init_pq_spk_ciphertext f = None
          then (v, Inl (ReceiveError OpeningNoPqPrekey))
          else if handshake_already_accepted v (initiator_identity_pub f) (h_dh_pub (env_header env))
          then (v, Inl (ReceiveError OpeningReplayed))
          else let v1 = (if length (v_accepted_handshakes v) \<ge> kMaxAcceptedHandshakes
                         then fst (prune_old_handshakes v) else v)
               in if length (v_accepted_handshakes v1) \<ge> kMaxAcceptedHandshakes
                  then (v1, Inl (StoreError HistoryFull)) else (v1, Inr ci))"

text \<open>The prekeys the opening names, by id: the first of the list that has it, with its index.\<close>

record named_keys =
  nk_spk :: signed_prekey
  nk_otpk :: "nat option"
  nk_pq_spk :: pq_prekey
  nk_pq_otpk :: "nat option"

definition find_by_id :: "receive_error \<Rightarrow> ('a \<Rightarrow> u32) \<Rightarrow> 'a list \<Rightarrow> u32 \<Rightarrow> nat result" where
  "find_by_id e f xs i = of_option (ReceiveError e) (find_index (\<lambda>k. f k = i) xs)"

definition lookup_keys :: "vault_store \<Rightarrow> initial_fields \<Rightarrow> named_keys result" where
  "lookup_keys v f =
     bindR (find_by_id SignedPrekeyGone spk_id (v_signed_prekeys v) (init_spk_id f)) (\<lambda>si.
     bindR (case init_otpk_id f of None \<Rightarrow> Inr None
            | Some i \<Rightarrow> bindR (find_by_id OneTimePrekeyGone otpk_id (v_one_time_prekeys v) i) (\<lambda>oi. Inr (Some oi)))
       (\<lambda>oi.
     bindR (of_option (ReceiveError OpeningNoPqPrekey) (init_pq_spk_id f)) (\<lambda>pq_id.
     bindR (find_by_id PqSignedPrekeyGone pqk_id (v_pq_signed_prekeys v) pq_id) (\<lambda>qi.
     bindR (case init_pq_otpk_id f of
              Some i \<Rightarrow> if init_pq_otpk_ciphertext f = None then Inl (ReceiveError OpeningFields)
                else bindR (find_by_id PqOneTimePrekeyGone pqk_id (v_pq_one_time_prekeys v) i) (\<lambda>oi. Inr (Some oi))
            | None \<Rightarrow> if init_pq_otpk_ciphertext f = None then Inr None else Inl (ReceiveError OpeningFields))
       (\<lambda>pi.
     Inr \<lparr>nk_spk = v_signed_prekeys v ! si, nk_otpk = oi, nk_pq_spk = v_pq_signed_prekeys v ! qi,
          nk_pq_otpk = pi\<rparr>)))))"

text \<open>The fresh session of an opening and its plaintext; nothing of the vault has changed yet.\<close>

definition open_receiver ::
  "prims \<Rightarrow> protocol_suite \<Rightarrow> bytes \<Rightarrow> signed_prekey \<Rightarrow> session \<Rightarrow> session result" where
  "open_receiver p suite shared k s =
     (if uses_triple_ratchet suite then
        bindR (split_initial_secret p shared) (\<lambda>(ec_secret, spqr_secret).
        bindR (spqr_initialize p False spqr_secret) (\<lambda>state.
        Inr (init_receiver ec_secret (spk_sk k) (spk_pub k) (s\<lparr>s_spqr_state := state\<rparr>))))
      else Inr (init_receiver shared (spk_sk k) (spk_pub k) s))"

text \<open>The decryption of either kind of message, on a local session.\<close>

definition decrypt_from ::
  "prims \<Rightarrow> recv_draws \<Rightarrow> envelope \<Rightarrow> session \<Rightarrow> (session \<times> bytes) result" where
  "decrypt_from p d env s =
     (if uses_triple_ratchet (env_suite env) then
        bindR (spqr_receive p (s_spqr_state s) (env_spqr_message env)) (\<lambda>(state, key).
        bindR (envelope_aad_prefix env) (\<lambda>aad.
        bindR (on_local (ratchet_decrypt p (rd_clock d) (rd_keypair d) (env_header env) (env_ciphertext env) aad
                 (Some key)) s) (\<lambda>(s', plaintext).
        Inr (s'\<lparr>s_spqr_state := state\<rparr>, plaintext))))
      else
        bindR (envelope_aad_prefix env) (\<lambda>aad.
        on_local (ratchet_decrypt p (rd_clock d) (rd_keypair d) (env_header env) (env_ciphertext env) aad None) s))"

definition accept_opening ::
  "prims \<Rightarrow> recv_draws \<Rightarrow> bytes \<Rightarrow> bytes \<Rightarrow> envelope \<Rightarrow> initial_fields \<Rightarrow> nat \<Rightarrow> vault_store \<Rightarrow> named_keys
     \<Rightarrow> (session \<times> bytes) result" where
  "accept_opening p d my_sk my_ik env f ci v nk =
     bindR (of_option (ReceiveError OpeningNoPqPrekey) (init_pq_spk_ciphertext f)) (\<lambda>ct.
     bindR (respond_hybrid p my_sk my_ik (initiator_identity_pub f) (h_dh_pub (env_header env)) (nk_spk nk)
              (map_option (\<lambda>i. v_one_time_prekeys v ! i) (nk_otpk nk)) (nk_pq_spk nk) ct
              (map_option (\<lambda>i. v_pq_one_time_prekeys v ! i) (nk_pq_otpk nk)) (init_pq_otpk_ciphertext f)
              (uses_xwing_combiner (env_suite env))) (\<lambda>shared.
     bindR (session_id_for p env) (\<lambda>i.
     bindR (open_receiver p (env_suite env) shared (nk_spk nk)
              (session_default\<lparr>s_contact_index := ci, s_suite := env_suite env, s_session_id := i,
                 s_status := Confirmed\<rparr>)) (\<lambda>fresh.
     decrypt_from p d env fresh))))"

text \<open>\<open>std::array::operator<\<close>: lexicographic order on the bytes.\<close>

fun bytes_less :: "bytes \<Rightarrow> bytes \<Rightarrow> bool" where
  "bytes_less (x # xs) (y # ys) \<longleftrightarrow> x < y \<or> x = y \<and> bytes_less xs ys"
| "bytes_less [] (y # ys) \<longleftrightarrow> True"
| "bytes_less xs [] \<longleftrightarrow> False"

definition may_replace :: "vault_store \<Rightarrow> nat \<Rightarrow> session \<Rightarrow> unit result" where
  "may_replace v ci fresh = (case find_session v ci of
     None \<Rightarrow> Inr ()
   | Some i \<Rightarrow> let current = v_sessions v ! i in
       if s_status current = Confirmed then Inl (ReceiveError SessionEstablished)
       else if s_status current = Pending \<and> bytes_less (s_session_id current) (s_session_id fresh)
       then Inl (ReceiveError TieBreakLost) else Inr ())"

text \<open>The updates once the message is known to be genuine: session, spent prekeys, minimum suite.\<close>

definition install_session :: "nat \<Rightarrow> session \<Rightarrow> vault_store \<Rightarrow> vault_store" where
  "install_session ci fresh v = (case find_session v ci of
     Some i \<Rightarrow> v\<lparr>v_sessions := (v_sessions v)[i := fresh]\<rparr>
   | None \<Rightarrow> v\<lparr>v_sessions := v_sessions v @ [fresh]\<rparr>)"

definition erase_opt :: "nat option \<Rightarrow> 'a list \<Rightarrow> 'a list" where
  "erase_opt i xs = (case i of None \<Rightarrow> xs | Some j \<Rightarrow> erase_at j xs)"

definition commit_opening :: "nat \<Rightarrow> protocol_suite \<Rightarrow> named_keys \<Rightarrow> session \<Rightarrow> vault_store \<Rightarrow> vault_store" where
  "commit_opening ci suite nk fresh v =
     (let v1 = install_session ci fresh v;
          v2 = v1\<lparr>v_one_time_prekeys := erase_opt (nk_otpk nk) (v_one_time_prekeys v1)\<rparr>;
          v3 = v2\<lparr>v_pq_one_time_prekeys := erase_opt (nk_pq_otpk nk) (v_pq_one_time_prekeys v2)\<rparr>
      in v3\<lparr>v_contacts := (v_contacts v3)[ci := (v_contacts v3 ! ci)\<lparr>c_minimum_suite := suite\<rparr>]\<rparr>)"

definition receive_opening ::
  "prims \<Rightarrow> recv_draws \<Rightarrow> bytes \<Rightarrow> bytes \<Rightarrow> envelope \<Rightarrow> initial_fields \<Rightarrow> (vault_store, receive_result) mut" where
  "receive_opening p d my_sk my_ik env f =
     bindM (admit_opening env f) (\<lambda>ci.
     bindM (readM (\<lambda>v. lookup_keys v f)) (\<lambda>nk.
     bindM (readM (\<lambda>v. accept_opening p d my_sk my_ik env f ci v nk)) (\<lambda>(fresh, plaintext).
     bindM (readM (\<lambda>v. may_replace v ci fresh)) (\<lambda>_.
     bindM (\<lambda>v. remember_handshake v (initiator_identity_pub f) (h_dh_pub (env_header env)) (rd_now d)
              (init_spk_id f)) (\<lambda>_.
     bindM (modifyM (commit_opening ci (env_suite env) nk fresh)) (\<lambda>_.
     readM (\<lambda>v. Inr \<lparr>rr_contact_index = ci, rr_alias = c_alias (v_contacts v ! ci),
       rr_plaintext = plaintext, rr_session_established = True\<rparr>)))))))"

text \<open>
  A message of an established session. With SPQR the session is advanced on a copy; without it
  \<open>ratchet_decrypt\<close> runs on the vault's own session and leaves it unchanged when it throws.
\<close>

definition set_session :: "nat \<Rightarrow> session \<Rightarrow> vault_store \<Rightarrow> vault_store" where
  "set_session i s v = v\<lparr>v_sessions := (v_sessions v)[i := s]\<rparr>"

definition advance_session :: "prims \<Rightarrow> recv_draws \<Rightarrow> envelope \<Rightarrow> nat \<Rightarrow> (vault_store, bytes) mut" where
  "advance_session p d env i v =
     (if uses_triple_ratchet (env_suite env) then
        case decrypt_from p d env (clone_session (v_sessions v ! i)) of
          Inl e \<Rightarrow> (v, Inl e)
        | Inr (s', plaintext) \<Rightarrow> (set_session i (s'\<lparr>s_status := Confirmed\<rparr>) v, Inr plaintext)
      else case envelope_aad_prefix env of
          Inl e \<Rightarrow> (v, Inl e)
        | Inr aad \<Rightarrow>
            (case ratchet_decrypt p (rd_clock d) (rd_keypair d) (env_header env) (env_ciphertext env) aad None
                    (v_sessions v ! i) of
               (s', Inl e) \<Rightarrow> (set_session i s' v, Inl e)
             | (s', Inr plaintext) \<Rightarrow> (set_session i (s'\<lparr>s_status := Confirmed\<rparr>) v, Inr plaintext)))"

definition receive_established :: "prims \<Rightarrow> recv_draws \<Rightarrow> envelope \<Rightarrow> (vault_store, receive_result) mut" where
  "receive_established p d env v =
     (case find_index (\<lambda>c. sender_id_for p (c_identity_pub c) = env_sender_id env) (v_contacts v) of
        None \<Rightarrow> (v, Inl (ReceiveError UnrecognisedSender))
      | Some ci \<Rightarrow>
          if \<not> c_verified (v_contacts v ! ci) then (v, Inl (ReceiveError ReceiveUnverified))
          else case find_session v ci of
            None \<Rightarrow> (v, Inl (ReceiveError NoSessionYet))
          | Some i \<Rightarrow>
              if \<not> suite_at_least (env_suite env) (c_minimum_suite (v_contacts v ! ci)) \<or>
                 env_suite env \<noteq> s_suite (v_sessions v ! i)
              then (v, Inl (ReceiveError SuiteMismatch))
              else bindM (advance_session p d env i) (\<lambda>plaintext.
                   returnM \<lparr>rr_contact_index = ci, rr_alias = c_alias (v_contacts v ! ci),
                            rr_plaintext = plaintext, rr_session_established = False\<rparr>) v)"

definition receive :: "prims \<Rightarrow> recv_draws \<Rightarrow> bytes \<Rightarrow> bytes \<Rightarrow> string \<Rightarrow> (vault_store, receive_result) mut" where
  "receive p d my_sk my_ik block =
     bindM (readM (\<lambda>_. message_decode p block)) (\<lambda>env.
       case env_initial env of
         Some f \<Rightarrow> receive_opening p d my_sk my_ik env f
       | None \<Rightarrow> receive_established p d env)"

text \<open>The sweep over all sessions: the store and how many keys were dropped.\<close>

definition vault_expire_skipped_keys :: "u64 \<Rightarrow> vault_store \<Rightarrow> vault_store \<times> nat" where
  "vault_expire_skipped_keys now v =
     (let rs = map (expire_skipped_keys now) (v_sessions v)
      in (v\<lparr>v_sessions := map fst rs\<rparr>, sum_list (map snd rs)))"

end
