(* ===== verification/Session_Props.thy ===== *)
theory Session_Props
  imports Session
begin

text \<open>
  What \<open>send\<close> and \<open>receive\<close> do to the vault: nothing when they throw (up to spent handshake records),
  what an accepted opening uses up and records, the minimum suite as a ratchet against downgrade, and
  the delivery of a first message from a card to the other party's vault.
\<close>

section \<open>Errors\<close>

lemma send_error: "send p d sk ik ci m v = (v', Inl e) \<Longrightarrow> v' = v"
  unfolding send_def split_beta by (auto simp: bindM_eq_Inl bindM_eq_Inr split: prod.splits)

lemma set_session_same [simp]: "set_session i (v_sessions v ! i) v = v"
  by (simp add: set_session_def)

lemma advance_session_error:
  assumes "advance_session p d env i v = (v', Inl e)"
  shows "v' = v"
proof (cases "uses_triple_ratchet (env_suite env)")
  case True
  with assms show ?thesis
    by (auto simp: advance_session_def split: sum.splits prod.splits)
next
  case False
  with assms show ?thesis
    by (auto simp: advance_session_def ratchet_decrypt_Inl split: sum.splits prod.splits dest: ratchet_decrypt_Inl)
qed

lemma receive_established_error:
  "receive_established p d env v = (v', Inl e) \<Longrightarrow> v' = v"
  by (auto simp: receive_established_def bindM_eq_Inl split: option.splits if_splits dest: advance_session_error)

text \<open>What \<open>admit_opening\<close> lets pass.\<close>

lemma admit_opening_state:
  assumes "admit_opening env f v = (v1, r)"
  shows "v1 = v \<or> v1 = fst (prune_old_handshakes v) \<and> 512 \<le> length (v_accepted_handshakes v)"
  using assms by (auto simp: admit_opening_def Let_def kMaxAcceptedHandshakes_def split: option.splits if_splits)

lemma admit_opening_Inr:
  assumes "admit_opening env f v = (v1, Inr ci)"
  shows "find_contact_by_identity v (initiator_identity_pub f) = Some ci" and "c_verified (v_contacts v ! ci)"
    and "suite_at_least (env_suite env) (c_minimum_suite (v_contacts v ! ci))"
    and "\<not> handshake_already_accepted v (initiator_identity_pub f) (h_dh_pub (env_header env))"
    and "length (v_accepted_handshakes v1) < 512"
    and "init_pq_spk_id f \<noteq> None" and "init_pq_spk_ciphertext f \<noteq> None"
  using assms by (auto simp: admit_opening_def Let_def kMaxAcceptedHandshakes_def split: option.splits if_splits)

lemma not_accepted_pruned:
  "\<not> handshake_already_accepted v ik ek \<Longrightarrow> \<not> handshake_already_accepted (fst (prune_old_handshakes v)) ik ek"
  by (auto simp: handshake_already_accepted_iff prune_fst)

text \<open>Below the bound, recording a new handshake appends it.\<close>

lemma remember_new:
  assumes "\<not> handshake_already_accepted v ik ek" and "length (v_accepted_handshakes v) < 512"
  shows "remember_handshake v ik ek now i = (v\<lparr>v_accepted_handshakes := v_accepted_handshakes v @
    [\<lparr>ah_initiator_identity = ik, ah_ephemeral_pub = ek, ah_accepted_at = now, ah_spk_id = i\<rparr>]\<rparr>, Inr ())"
  using assms by (simp add: remember_handshake_def kMaxAcceptedHandshakes_def Let_def)

lemma receive_opening_error:
  assumes "receive_opening p d sk ik env f v = (v', Inl e)"
  shows "v' = v \<or> v' = fst (prune_old_handshakes v) \<and> 512 \<le> length (v_accepted_handshakes v)"
proof (cases "admit_opening env f v")
  case (Pair v1 r)
  note st = admit_opening_state [OF Pair]
  have "v' = v1"
  proof (cases r)
    case (Inl x)
    with assms Pair show ?thesis
      by (simp add: receive_opening_def bindM_def)
  next
    case (Inr ci)
    note a = admit_opening_Inr [OF Pair [unfolded Inr]]
    from a(4) st have "\<not> handshake_already_accepted v1 (initiator_identity_pub f) (h_dh_pub (env_header env))"
      using not_accepted_pruned by auto
    note rem = remember_new [OF this a(5)]
    from assms Pair Inr show ?thesis
      by (auto simp: receive_opening_def bindM_eq_Inl bindM_eq_Inr rem split: prod.splits)
  qed
  with st show ?thesis
    by simp
qed

lemma receive_error:
  assumes "receive p d sk ik block v = (v', Inl e)"
  shows "v' = v \<or> v' = fst (prune_old_handshakes v) \<and> 512 \<le> length (v_accepted_handshakes v)"
  using assms
  by (auto simp: receive_def bindM_eq_Inl split: option.splits
      dest: receive_established_error receive_opening_error)

section \<open>An accepted opening\<close>

lemma find_by_id_Inr:
  "find_by_id e f xs i = Inr j \<Longrightarrow> j < length xs \<and> f (xs ! j) = i"
  by (auto simp: find_by_id_def dest: find_index_Some)

lemma lookup_keys_Inr:
  assumes "lookup_keys v f = Inr nk"
  shows "nk_spk nk \<in> set (v_signed_prekeys v)" and "spk_id (nk_spk nk) = init_spk_id f"
    and "case init_otpk_id f of None \<Rightarrow> nk_otpk nk = None
         | Some i \<Rightarrow> \<exists>j. nk_otpk nk = Some j \<and> j < length (v_one_time_prekeys v) \<and> otpk_id (v_one_time_prekeys v ! j) = i"
    and "case init_pq_otpk_id f of None \<Rightarrow> nk_pq_otpk nk = None
         | Some i \<Rightarrow> \<exists>j. nk_pq_otpk nk = Some j \<and> j < length (v_pq_one_time_prekeys v) \<and>
             pqk_id (v_pq_one_time_prekeys v ! j) = i"
    and "nk_pq_spk nk \<in> set (v_pq_signed_prekeys v)" and "Some (pqk_id (nk_pq_spk nk)) = init_pq_spk_id f"
  using assms
  by (auto simp: lookup_keys_def bindR_eq_Inr if_Inl_eq_Inr split: option.splits if_splits dest!: find_by_id_Inr)

text \<open>The steps of an accepted opening, and the vault it leaves.\<close>

lemma receive_opening_Inr:
  assumes "receive_opening p d sk ik env f v = (v', Inr r)"
  obtains ci v1 nk fresh where "admit_opening env f v = (v1, Inr ci)"
    and "lookup_keys v1 f = Inr nk"
    and "accept_opening p d sk ik env f ci v1 nk = Inr (fresh, rr_plaintext r)"
    and "may_replace v1 ci fresh = Inr ()"
    and "v' = commit_opening ci (env_suite env) nk fresh (v1\<lparr>v_accepted_handshakes := v_accepted_handshakes v1 @
           [\<lparr>ah_initiator_identity = initiator_identity_pub f, ah_ephemeral_pub = h_dh_pub (env_header env),
             ah_accepted_at = rd_now d, ah_spk_id = init_spk_id f\<rparr>]\<rparr>)"
    and "rr_contact_index r = ci" and "rr_session_established r"
proof -
  from assms obtain v1 ci where a: "admit_opening env f v = (v1, Inr ci)"
    by (auto simp: receive_opening_def bindM_eq_Inr)
  note a' = admit_opening_Inr [OF a]
  from a'(4) admit_opening_state [OF a]
  have "\<not> handshake_already_accepted v1 (initiator_identity_pub f) (h_dh_pub (env_header env))"
    using not_accepted_pruned by auto
  note rem = remember_new [OF this a'(5)]
  from assms a obtain nk fresh where "lookup_keys v1 f = Inr nk"
    and "accept_opening p d sk ik env f ci v1 nk = Inr (fresh, rr_plaintext r)"
    and "may_replace v1 ci fresh = Inr ()"
    and "v' = commit_opening ci (env_suite env) nk fresh (v1\<lparr>v_accepted_handshakes := v_accepted_handshakes v1 @
           [\<lparr>ah_initiator_identity = initiator_identity_pub f, ah_ephemeral_pub = h_dh_pub (env_header env),
             ah_accepted_at = rd_now d, ah_spk_id = init_spk_id f\<rparr>]\<rparr>)"
    and "rr_contact_index r = ci" and "rr_session_established r"
    by (auto simp: receive_opening_def bindM_eq_Inr rem)
  with a show thesis
    by (rule that)
qed

lemma install_session_simps [simp]:
  "v_contacts (install_session ci s v) = v_contacts v"
  "v_signed_prekeys (install_session ci s v) = v_signed_prekeys v"
  "v_one_time_prekeys (install_session ci s v) = v_one_time_prekeys v"
  "v_pq_one_time_prekeys (install_session ci s v) = v_pq_one_time_prekeys v"
  "v_accepted_handshakes (install_session ci s v) = v_accepted_handshakes v"
  by (simp_all add: install_session_def split: option.split)

lemma commit_opening_simps [simp]:
  "v_signed_prekeys (commit_opening ci su nk s v) = v_signed_prekeys v"
  "v_one_time_prekeys (commit_opening ci su nk s v) = erase_opt (nk_otpk nk) (v_one_time_prekeys v)"
  "v_pq_one_time_prekeys (commit_opening ci su nk s v) = erase_opt (nk_pq_otpk nk) (v_pq_one_time_prekeys v)"
  "v_accepted_handshakes (commit_opening ci su nk s v) = v_accepted_handshakes v"
  "v_contacts (commit_opening ci su nk s v) =
     (v_contacts v)[ci := (v_contacts v ! ci)\<lparr>c_minimum_suite := su\<rparr>]"
  "v_sessions (commit_opening ci su nk s v) = v_sessions (install_session ci s v)"
  by (simp_all add: commit_opening_def Let_def)

lemma prune_simps [simp]:
  "v_contacts (fst (prune_old_handshakes v)) = v_contacts v"
  "v_signed_prekeys (fst (prune_old_handshakes v)) = v_signed_prekeys v"
  "v_one_time_prekeys (fst (prune_old_handshakes v)) = v_one_time_prekeys v"
  "v_pq_one_time_prekeys (fst (prune_old_handshakes v)) = v_pq_one_time_prekeys v"
  "v_pq_signed_prekeys (fst (prune_old_handshakes v)) = v_pq_signed_prekeys v"
  "v_sessions (fst (prune_old_handshakes v)) = v_sessions v"
  by (simp_all add: prune_fst)

lemma admitted_simps:
  assumes "admit_opening env f v = (v1, r)"
  shows "v_contacts v1 = v_contacts v" and "v_signed_prekeys v1 = v_signed_prekeys v"
    and "v_one_time_prekeys v1 = v_one_time_prekeys v" and "v_pq_one_time_prekeys v1 = v_pq_one_time_prekeys v"
    and "v_pq_signed_prekeys v1 = v_pq_signed_prekeys v" and "v_sessions v1 = v_sessions v"
  using admit_opening_state [OF assms] by auto

text \<open>The installed session is found again.\<close>

lemma find_index_append_None: "find_index P xs = None \<Longrightarrow> P x \<Longrightarrow> find_index P (xs @ [x]) = Some (length xs)"
  by (induction xs) (auto split: if_splits)

lemma find_index_update: "find_index P xs = Some i \<Longrightarrow> P x \<Longrightarrow> find_index P (xs[i := x]) = Some i"
proof (induction xs arbitrary: i)
  case (Cons y ys)
  then show ?case
    by (cases i) (auto split: if_splits)
qed simp

lemma installed:
  assumes "s_contact_index s = ci"
  obtains i where "find_session (install_session ci s v) ci = Some i"
    and "v_sessions (install_session ci s v) ! i = s" and "i < length (v_sessions (install_session ci s v))"
proof (cases "find_session v ci")
  case None
  with assms show thesis
    by (intro that [of "length (v_sessions v)"])
      (simp_all add: install_session_def find_session_def find_index_append_None nth_append)
next
  case (Some i)
  with assms show thesis
    by (intro that [of i])
      (auto simp: install_session_def find_session_def find_index_update dest: find_index_Some)
qed

section \<open>What the ratchet leaves alone\<close>

definition session_frame :: "session \<Rightarrow> nat \<times> protocol_suite \<times> session_status \<times> bytes \<times> bool \<times> bytes" where
  "session_frame s = (s_contact_index s, s_suite s, s_status s, s_session_id s, s_legacy_read_only s, s_spqr_state s)"

lemma session_frame_updates [simp]:
  "session_frame (s\<lparr>s_root_key := a\<rparr>) = session_frame s" "session_frame (s\<lparr>s_has_dhs := b\<rparr>) = session_frame s"
  "session_frame (s\<lparr>s_dhs_sk := a\<rparr>) = session_frame s" "session_frame (s\<lparr>s_dhs_pub := a\<rparr>) = session_frame s"
  "session_frame (s\<lparr>s_has_dhr := b\<rparr>) = session_frame s" "session_frame (s\<lparr>s_dhr_pub := a\<rparr>) = session_frame s"
  "session_frame (s\<lparr>s_has_cks := b\<rparr>) = session_frame s" "session_frame (s\<lparr>s_chain_key_send := a\<rparr>) = session_frame s"
  "session_frame (s\<lparr>s_has_ckr := b\<rparr>) = session_frame s" "session_frame (s\<lparr>s_chain_key_recv := a\<rparr>) = session_frame s"
  "session_frame (s\<lparr>s_ns := n\<rparr>) = session_frame s" "session_frame (s\<lparr>s_nr := n\<rparr>) = session_frame s" "session_frame (s\<lparr>s_pn := n\<rparr>) = session_frame s"
  "session_frame (s\<lparr>s_skipped := l\<rparr>) = session_frame s"
  by (simp_all add: session_frame_def)

lemma frame_expire [simp]: "session_frame (fst (expire_skipped_keys now s)) = session_frame s"
  by (simp add: expire_skipped_keys_def Let_def)

lemma frame_skip_loop [simp]: "session_frame (skip_loop p now n s) = session_frame s"
proof (induction p now n s rule: skip_loop.induct)
  case (1 p now n s)
  then show ?case
    by (subst skip_loop.simps) (simp add: stash_key_def split: prod.split)
qed

lemma frame_skip: "preserves session_frame (skip_message_keys p now n)"
  by (simp add: preserves_def skip_message_keys_def Let_def)

lemma frame_next: "preserves session_frame (next_message_key p)"
  by (simp add: preserves_def next_message_key_def split: prod.split)

lemma frame_catch_up: "preserves session_frame (catch_up p clk h ct aad k)"
  unfolding catch_up_def by (intro frame_intro frame_skip frame_next)

lemma frame_dh: "preserves session_frame (dh_ratchet p rnd pub)"
  unfolding dh_ratchet_def split_beta by (intro frame_intro) simp_all

lemma frame_decrypt_next: "preserves session_frame (decrypt_next p clk rnd h ct aad k)"
proof -
  have "preserves session_frame (bindM (skip_message_keys p (clk 1) (h_pn h)) (\<lambda>_.
      bindM (dh_ratchet p rnd (h_dh_pub h)) (\<lambda>_. catch_up p clk h ct aad k)))"
    by (intro frame_intro frame_skip frame_dh frame_catch_up)
  then show ?thesis
    using frame_catch_up [of p clk h ct aad k] unfolding preserves_def decrypt_next_def by simp
qed

lemma frame_decrypt_in_place: "preserves session_frame (decrypt_in_place p clk rnd h ct aad k)"
proof -
  have c: "preserves session_frame (decrypt_cached p i ct a k)" for i a
    unfolding decrypt_cached_def by (intro frame_intro) simp
  have "preserves session_frame (\<lambda>s. case cached_key h s of Some i \<Rightarrow> decrypt_cached p i ct a k s
      | None \<Rightarrow> decrypt_next p clk rnd h ct a k s)" for a
    using c frame_decrypt_next [of p clk rnd h ct a k] by (auto simp: preserves_def split: option.split)
  then show ?thesis
    unfolding decrypt_in_place_def by (intro frame_intro) simp_all
qed

lemma frame_ratchet_decrypt:
  "ratchet_decrypt p clk rnd h ct aad k s = (s', r) \<Longrightarrow> session_frame s' = session_frame s"
  using preservesD [OF frame_decrypt_in_place, of p clk rnd h ct aad k s]
  by (auto simp: ratchet_decrypt_def split: prod.splits sum.splits)

lemma decrypt_from_frame:
  assumes "decrypt_from p d env s = Inr (s', m)"
  shows "s_contact_index s' = s_contact_index s \<and> s_suite s' = s_suite s \<and> s_status s' = s_status s \<and>
    s_session_id s' = s_session_id s"
  using assms
  by (auto simp: decrypt_from_def bindR_eq_Inr on_local_Inr session_frame_def split: if_splits
      dest!: frame_ratchet_decrypt)

lemma open_receiver_frame:
  assumes "open_receiver p su sec k s = Inr s'"
  shows "s_contact_index s' = s_contact_index s \<and> s_suite s' = s_suite s \<and> s_status s' = s_status s \<and>
    s_session_id s' = s_session_id s"
  using assms by (auto simp: open_receiver_def bindR_eq_Inr init_receiver_def split: if_splits)

lemma accept_opening_frame:
  assumes "accept_opening p d sk ik env f ci v nk = Inr (s, m)"
  shows "s_contact_index s = ci" and "s_suite s = env_suite env" and "s_status s = Confirmed"
  using assms
  by (auto simp: accept_opening_def bindR_eq_Inr dest!: decrypt_from_frame open_receiver_frame)

section \<open>The effect of an accepted opening\<close>

lemma find_contact_less:
  "find_contact_by_identity v ik = Some ci \<Longrightarrow> ci < length (v_contacts v) \<and> c_identity_pub (v_contacts v ! ci) = ik"
  unfolding find_contact_by_identity_def by (drule find_index_Some) simp

lemma erased_id:
  assumes "distinct (map f xs)" and "j < length xs" and "f (xs ! j) = i"
  shows "i \<in> f ` set xs" and "i \<notin> f ` set (erase_at j xs)"
proof -
  from assms(2,3) nth_mem show "i \<in> f ` set xs"
    by force
  show "i \<notin> f ` set (erase_at j xs)"
    unfolding set_erase_at [OF assms(1,2)] assms(3) by auto
qed

lemma receive_opening_effect:
  assumes r: "receive_opening p d sk ik env f v = (v', Inr r)"
    and dist: "distinct (map otpk_id (v_one_time_prekeys v))" "distinct (map pqk_id (v_pq_one_time_prekeys v))"
  obtains ci j where "rr_contact_index r = ci"
    and "find_contact_by_identity v (initiator_identity_pub f) = Some ci" and "c_verified (v_contacts v ! ci)"
    and "suite_at_least (env_suite env) (c_minimum_suite (v_contacts v ! ci))"
    and "\<not> handshake_already_accepted v (initiator_identity_pub f) (h_dh_pub (env_header env))"
    and "v_accepted_handshakes v' \<noteq> []" and "last (v_accepted_handshakes v') =
           \<lparr>ah_initiator_identity = initiator_identity_pub f, ah_ephemeral_pub = h_dh_pub (env_header env),
             ah_accepted_at = rd_now d, ah_spk_id = init_spk_id f\<rparr>"
    and "init_spk_id f \<in> spk_id ` set (v_signed_prekeys v)"
    and "\<forall>i. init_otpk_id f = Some i \<longrightarrow>
           i \<in> otpk_id ` set (v_one_time_prekeys v) \<and> i \<notin> otpk_id ` set (v_one_time_prekeys v')"
    and "\<forall>i. init_pq_otpk_id f = Some i \<longrightarrow>
           i \<in> pqk_id ` set (v_pq_one_time_prekeys v) \<and> i \<notin> pqk_id ` set (v_pq_one_time_prekeys v')"
    and "find_session v' ci = Some j" and "s_status (v_sessions v' ! j) = Confirmed"
    and "s_suite (v_sessions v' ! j) = env_suite env"
    and "v_contacts v' = (v_contacts v)[ci := (v_contacts v ! ci)\<lparr>c_minimum_suite := env_suite env\<rparr>]"
    and "\<forall>i. find_session v ci = Some i \<longrightarrow> s_status (v_sessions v ! i) \<noteq> Confirmed"
proof -
  obtain ci v1 nk fresh where a: "admit_opening env f v = (v1, Inr ci)" and l: "lookup_keys v1 f = Inr nk"
    and o: "accept_opening p d sk ik env f ci v1 nk = Inr (fresh, rr_plaintext r)"
    and m: "may_replace v1 ci fresh = Inr ()"
    and v': "v' = commit_opening ci (env_suite env) nk fresh (v1\<lparr>v_accepted_handshakes := v_accepted_handshakes v1 @
           [\<lparr>ah_initiator_identity = initiator_identity_pub f, ah_ephemeral_pub = h_dh_pub (env_header env),
             ah_accepted_at = rd_now d, ah_spk_id = init_spk_id f\<rparr>]\<rparr>)"
    and ci: "rr_contact_index r = ci"
    by (rule receive_opening_Inr [OF r])
  note eq = admitted_simps [OF a] and a' = admit_opening_Inr [OF a] and l' = lookup_keys_Inr [OF l]
  note fr = accept_opening_frame [OF o]
  have o1: "\<forall>i. init_otpk_id f = Some i \<longrightarrow>
      i \<in> otpk_id ` set (v_one_time_prekeys v) \<and> i \<notin> otpk_id ` set (v_one_time_prekeys v')"
  proof (intro allI impI)
    fix i assume "init_otpk_id f = Some i"
    with l'(3) obtain j where j: "nk_otpk nk = Some j" "j < length (v_one_time_prekeys v)"
        "otpk_id (v_one_time_prekeys v ! j) = i"
      by (auto simp: eq)
    with erased_id [OF dist(1) j(2,3)]
    show "i \<in> otpk_id ` set (v_one_time_prekeys v) \<and> i \<notin> otpk_id ` set (v_one_time_prekeys v')"
      by (simp add: v' eq erase_opt_def)
  qed
  have o2: "\<forall>i. init_pq_otpk_id f = Some i \<longrightarrow>
      i \<in> pqk_id ` set (v_pq_one_time_prekeys v) \<and> i \<notin> pqk_id ` set (v_pq_one_time_prekeys v')"
  proof (intro allI impI)
    fix i assume "init_pq_otpk_id f = Some i"
    with l'(4) obtain j where j: "nk_pq_otpk nk = Some j" "j < length (v_pq_one_time_prekeys v)"
        "pqk_id (v_pq_one_time_prekeys v ! j) = i"
      by (auto simp: eq)
    with erased_id [OF dist(2) j(2,3)]
    show "i \<in> pqk_id ` set (v_pq_one_time_prekeys v) \<and> i \<notin> pqk_id ` set (v_pq_one_time_prekeys v')"
      by (simp add: v' eq erase_opt_def)
  qed
  obtain j where j: "find_session v' ci = Some j" "v_sessions v' ! j = fresh"
    using installed [OF fr(1)] unfolding v' by (metis commit_opening_simps(6) find_session_def)
  have s: "\<forall>i. find_session v ci = Some i \<longrightarrow> s_status (v_sessions v ! i) \<noteq> Confirmed"
    using m eq(6) by (auto simp: may_replace_def find_session_def Let_def split: option.splits if_splits)
  have spk: "init_spk_id f \<in> spk_id ` set (v_signed_prekeys v)"
    using l'(1,2) eq(2) by (metis image_eqI)
  have "s_status (v_sessions v' ! j) = Confirmed" and "s_suite (v_sessions v' ! j) = env_suite env"
    by (simp_all add: j(2) fr)
  from that [OF ci a'(1-4) _ _ spk o1 o2 j(1) this _ s] show thesis
    by (simp add: v' eq)
qed

text \<open>A repeated opening, in any vault that still has the record.\<close>

lemma replay_refused:
  assumes "handshake_already_accepted v (initiator_identity_pub f) (h_dh_pub (env_header env))"
  shows "\<exists>e. receive_opening p d sk ik env f v = (v, Inl e)"
  using assms by (auto simp: receive_opening_def bindM_def admit_opening_def split: option.split)

section \<open>The minimum suite\<close>

lemma suite_at_least_refl [simp]: "suite_at_least s s"
  by (simp add: suite_at_least_def)

lemma advance_session_contacts: "advance_session p d env i v = (v', r) \<Longrightarrow> v_contacts v' = v_contacts v"
  by (auto simp: advance_session_def set_session_def split: if_splits sum.splits prod.splits)

lemma receive_established_Inr:
  assumes "receive_established p d env v = (v', Inr r)"
  obtains ci i where "rr_contact_index r = ci" and "ci < length (v_contacts v)"
    and "sender_id_for p (c_identity_pub (v_contacts v ! ci)) = env_sender_id env"
    and "c_verified (v_contacts v ! ci)" and "find_session v ci = Some i"
    and "suite_at_least (env_suite env) (c_minimum_suite (v_contacts v ! ci))"
    and "env_suite env = s_suite (v_sessions v ! i)" and "v_contacts v' = v_contacts v"
    and "advance_session p d env i v = (v', Inr (rr_plaintext r))" and "\<not> rr_session_established r"
proof -
  from assms obtain ci where ci: "find_index (\<lambda>c. sender_id_for p (c_identity_pub c) = env_sender_id env) (v_contacts v) = Some ci"
    by (cases "find_index (\<lambda>c. sender_id_for p (c_identity_pub c) = env_sender_id env) (v_contacts v)")
      (simp_all add: receive_established_def)
  with assms obtain i where i: "find_session v ci = Some i" "c_verified (v_contacts v ! ci)"
      "suite_at_least (env_suite env) (c_minimum_suite (v_contacts v ! ci))"
      "env_suite env = s_suite (v_sessions v ! i)"
    and a: "advance_session p d env i v = (v', Inr (rr_plaintext r))"
    and r: "rr_contact_index r = ci" "\<not> rr_session_established r"
    by (auto simp: receive_established_def bindM_eq_Inr split: option.splits if_splits)
  show thesis
    by (rule that [OF r(1) _ _ i(2,1,3,4) advance_session_contacts [OF a] a r(2)])
      (use find_index_Some [OF ci] in simp_all)
qed

lemma receive_contacts:
  assumes "receive p d sk ik block v = (v', r)"
  shows "length (v_contacts v') = length (v_contacts v) \<and>
    (\<forall>i < length (v_contacts v). suite_at_least (c_minimum_suite (v_contacts v' ! i)) (c_minimum_suite (v_contacts v ! i)))"
proof (cases r)
  case (Inl e)
  then show ?thesis
    using receive_error assms by fastforce
next
  case (Inr x)
  with assms obtain env where e: "message_decode p block = Inr env"
    and s: "(case env_initial env of Some f \<Rightarrow> receive_opening p d sk ik env f
       | None \<Rightarrow> receive_established p d env) v = (v', Inr x)"
    by (auto simp: receive_def bindM_eq_Inr)
  show ?thesis
  proof (cases "env_initial env")
    case None
    with s show ?thesis
      by (auto elim!: receive_established_Inr)
  next
    case (Some f)
    with s obtain ci v1 nk fresh where a: "admit_opening env f v = (v1, Inr ci)"
      and v': "v' = commit_opening ci (env_suite env) nk fresh (v1\<lparr>v_accepted_handshakes := v_accepted_handshakes v1 @
           [\<lparr>ah_initiator_identity = initiator_identity_pub f, ah_ephemeral_pub = h_dh_pub (env_header env),
             ah_accepted_at = rd_now d, ah_spk_id = init_spk_id f\<rparr>]\<rparr>)"
      by (auto elim: receive_opening_Inr)
    have c: "v_contacts v' = (v_contacts v)[ci := (v_contacts v ! ci)\<lparr>c_minimum_suite := env_suite env\<rparr>]"
      by (simp add: v' admitted_simps(1) [OF a])
    show ?thesis
      unfolding c using admit_opening_Inr(3) [OF a] find_contact_less [OF admit_opening_Inr(1) [OF a]]
      by (auto simp: nth_list_update)
  qed
qed

text \<open>Whom a delivered message is from.\<close>

lemma receive_delivers:
  assumes "receive p d sk ik block v = (v', Inr r)"
  shows "rr_contact_index r < length (v_contacts v) \<and> c_verified (v_contacts v ! rr_contact_index r) \<and>
    (\<exists>env. message_decode p block = Inr env \<and>
       suite_at_least (env_suite env) (c_minimum_suite (v_contacts v ! rr_contact_index r)))"
proof -
  from assms obtain env where e: "message_decode p block = Inr env"
    and s: "(case env_initial env of Some f \<Rightarrow> receive_opening p d sk ik env f
       | None \<Rightarrow> receive_established p d env) v = (v', Inr r)"
    by (auto simp: receive_def bindM_eq_Inr)
  show ?thesis
  proof (cases "env_initial env")
    case None
    with s have "receive_established p d env v = (v', Inr r)"
      by simp
    then show ?thesis
      by (rule receive_established_Inr) (use e in auto)
  next
    case (Some f)
    with s have "receive_opening p d sk ik env f v = (v', Inr r)"
      by simp
    then obtain ci v1 where "admit_opening env f v = (v1, Inr ci)" and "rr_contact_index r = ci"
      by (rule receive_opening_Inr)
    with admit_opening_Inr [OF this(1)] find_contact_less e show ?thesis
      by blast
  qed
qed

section \<open>Properties\<close>

text \<open>C36: A session operation that throws leaves the vault as it was: \<open>send\<close> on every error, a handshake
  begun and abandoned included, and \<open>receive\<close> on every error except that a full handshake history has
  been pruned of its spent records.\<close>

theorem session_errors_keep_vault:
  "(case send p sd sk ik ci m v of (v', Inl e) \<Rightarrow> v' = v | (v', Inr block) \<Rightarrow> True) \<and>
   (case receive p rd sk ik block v of
      (v', Inl e) \<Rightarrow> if length (v_accepted_handshakes v) < 512 then v' = v
        else v' \<in> {v, fst (prune_old_handshakes v)}
    | (v', Inr r) \<Rightarrow> True)"
proof
  show "case send p sd sk ik ci m v of (v', Inl e) \<Rightarrow> v' = v | (v', Inr block) \<Rightarrow> True"
    by (auto split: prod.split sum.split dest: send_error)
  show "case receive p rd sk ik block v of
      (v', Inl e) \<Rightarrow> if length (v_accepted_handshakes v) < 512 then v' = v
        else v' \<in> {v, fst (prune_old_handshakes v)}
    | (v', Inr r) \<Rightarrow> True"
    by (auto split: prod.split sum.split dest!: receive_error)
qed

text \<open>C37: Whatever block arrives, \<open>receive\<close> lowers no contact's minimum suite, and what it delivers comes from a
  contact whose fingerprint is verified, in an envelope that decodes, under a suite at least that contact's
  minimum.\<close>

theorem receive_never_downgrades:
  "case receive p d sk ik block v of (v', res) \<Rightarrow>
     list_all2 (\<lambda>c c'. suite_at_least (c_minimum_suite c') (c_minimum_suite c)) (v_contacts v) (v_contacts v') \<and>
     (case res of Inl e \<Rightarrow> True
      | Inr r \<Rightarrow> rr_contact_index r < length (v_contacts v) \<and> c_verified (v_contacts v ! rr_contact_index r) \<and>
          (\<exists>env. message_decode p block = Inr env \<and>
             suite_at_least (env_suite env) (c_minimum_suite (v_contacts v ! rr_contact_index r))))"
proof (cases "receive p d sk ik block v")
  case (Pair v' res)
  have "list_all2 (\<lambda>c c'. suite_at_least (c_minimum_suite c') (c_minimum_suite c)) (v_contacts v) (v_contacts v')"
    using receive_contacts [OF Pair] by (auto simp: list_all2_conv_all_nth)
  moreover have "rr_contact_index r < length (v_contacts v) \<and> c_verified (v_contacts v ! rr_contact_index r) \<and>
      (\<exists>env. message_decode p block = Inr env \<and>
        suite_at_least (env_suite env) (c_minimum_suite (v_contacts v ! rr_contact_index r)))" if "res = Inr r" for r
    using receive_delivers Pair that by blast
  ultimately show ?thesis
    using Pair by (simp split: sum.split)
qed

end
