(* ===== verification/First_Message.thy ===== *)
theory First_Message
  imports Session_Props Ratchet_Conv
begin

text \<open>
  The composition of the components: a card a contact published, the handshake on it, the ratchet's
  first message, the envelope and its armour, and the receiver's vault.
\<close>

section \<open>The first message of the ratchet\<close>

lemma message_aead_key_ok: "\<exists>k. message_aead_key p mk pqk = Inr k"
  using hkdf_expand_ok [of 32 p] by (auto simp: message_aead_key_def combine_message_keys_def split: option.split)

lemma aead_encrypt_length:
  assumes "aead_law p" and "length k = 32" and "length nonce = 12" and "aead_encrypt p nonce k m aad = Inr ct"
  shows "length ct \<le> min 4195356 (2 * length m + 1180)"
proof -
  from assms(4) obtain t c where t: "padded_payload_size (length m) = Inr t"
      and c: "aead_seal p k nonce aad (m @ [0x80] @ replicate (t - (length m + 1)) 0) = Some c" "ct = nonce @ c"
    by (auto simp: aead_encrypt_def bindR_eq_Inr Let_def split: if_splits)
  note b = padded_payload_size_Inr [OF t]
  let ?padded = "m @ [0x80] @ replicate (t - (length m + 1)) (0::byte)"
  have l: "length ?padded = t"
    using b(1) by simp
  then have "length ?padded < 4294967296"
    using b(2) by simp
  from aead_roundtrip [OF assms(1-3) this, of aad] obtain c' where
      "aead_seal p k nonce aad ?padded = Some c'" "length c' = length ?padded + 16" .
  with c l have "length c = t + 16"
    by simp
  then show ?thesis
    using b(2,4) c(2) assms(3) by simp
qed

lemma ratchet_encrypt_succeeds:
  assumes "hmac_law p" and "aead_law p" and "s_has_cks s" and "length nonce = 12"
    and "length body \<le> kMaxPlaintextBytes"
  obtains s' h ct where "ratchet_encrypt p nonce body aad pqk s = (s', Inr (h, ct))"
    and "length ct \<le> min 4195356 (2 * length body + 1180)"
proof -
  let ?mk = "snd (kdf_ck p (s_chain_key_send s))"
  obtain ra where ra: "header_aad \<lparr>h_dh_pub = s_dhs_pub s, h_pn = s_pn s, h_n = s_ns s\<rparr> = Inr ra"
    by (simp add: header_aad_def put_u32_def put_bytes_def)
  obtain k where k: "message_aead_key p ?mk pqk = Inr k"
    using message_aead_key_ok by blast
  have "length ?mk = 32"
    using kdf_ck_length [OF assms(1)] by simp
  then have "length k = 32"
    using k message_aead_key_length [OF assms(1)] by blast
  with assms(2,4,5) obtain ct where "aead_encrypt p nonce k body (aad @ ra) = Inr ct"
    using aead_roundtrip_message [of p k nonce body "aad @ ra"] by (auto simp: kMaxPlaintextBytes_def)
  moreover from this have "length ct \<le> min 4195356 (2 * length body + 1180)"
    by (rule aead_encrypt_length [OF assms(2) \<open>length k = 32\<close> assms(4)])
  ultimately show thesis
    using ra k assms(3)
    by (cases "kdf_ck p (s_chain_key_send s)") (auto simp: ratchet_encrypt_def Let_def intro: that)
qed

lemma init_sender_ok:
  assumes "x25519_law p" and "x_pair p epk esk" and "x_pair p bpk bsk"
  obtains z rk ck where "x25519_dh p esk bpk = Inr z" and "x25519_dh p bsk epk = Inr z"
    and "kdf_rk p sec z = Inr (rk, ck)"
    and "init_sender p sec esk epk bpk s = (s\<lparr>s_dhs_sk := esk, s_dhs_pub := epk, s_has_dhs := True,
           s_dhr_pub := bpk, s_has_dhr := True, s_root_key := rk, s_chain_key_send := ck, s_has_cks := True,
           s_has_ckr := False, s_ns := 0, s_nr := 0, s_pn := 0, s_skipped := []\<rparr>, Inr ())"
proof -
  obtain z where z: "x25519_dh p esk bpk = Inr z" "x25519_dh p bsk epk = Inr z"
    using dh_pair [OF assms] by blast
  obtain rk ck where "kdf_rk p sec z = Inr (rk, ck)"
    using kdf_rk_ok by blast
  with z show thesis
    by (intro that) (simp_all add: init_sender_def)
qed

lemma first_ratchet_message:
  assumes "hmac_law p" and "aead_law p" and x: "x25519_law p"
    and e: "x_pair p epk esk" and b: "x_pair p bpk bsk" and l: "length nonce = 12" "length m \<le> kMaxPlaintextBytes"
    and s: "init_sender p sec esk epk bpk s0 = (sA, Inr ())"
  obtains sA' h ct where "ratchet_encrypt p nonce m aad pqk sA = (sA', Inr (h, ct))"
    and "h = \<lparr>h_dh_pub = epk, h_pn = 0, h_n = 0\<rparr>" and "length ct \<le> min 4195356 (2 * length m + 1180)"
    and "\<And>clk rnd s1. \<exists>sB. ratchet_decrypt p clk rnd h ct aad pqk (init_receiver sec bsk bpk s1) = (sB, Inr m)"
proof -
  obtain z rk ck where z: "x25519_dh p esk bpk = Inr z" "x25519_dh p bsk epk = Inr z" "kdf_rk p sec z = Inr (rk, ck)"
    and sA: "sA = s0\<lparr>s_dhs_sk := esk, s_dhs_pub := epk, s_has_dhs := True,
           s_dhr_pub := bpk, s_has_dhr := True, s_root_key := rk, s_chain_key_send := ck, s_has_cks := True,
           s_has_ckr := False, s_ns := 0, s_nr := 0, s_pn := 0, s_skipped := []\<rparr>"
    using init_sender_ok [OF x e b, of sec s0] s by (metis prod.inject)
  have "s_has_cks sA"
    by (simp add: sA)
  then obtain sA' h ct where enc: "ratchet_encrypt p nonce m aad pqk sA = (sA', Inr (h, ct))"
      and ct: "length ct \<le> min 4195356 (2 * length m + 1180)"
    by (rule ratchet_encrypt_succeeds [OF assms(1,2) _ l])
  note i = ratchet_encrypt_Inr [OF assms(1,2) l enc]
  have h: "h = \<lparr>h_dh_pub = epk, h_pn = 0, h_n = 0\<rparr>"
    using i(3) by (simp add: sA)
  have op: "opens p (mk_at p ck (unat (h_n h))) h ct aad pqk m"
    using i(4) by (simp add: sA h)
  have "\<exists>sB. ratchet_decrypt p clk rnd h ct aad pqk (init_receiver sec bsk bpk s1) = (sB, Inr m)" for clk rnd s1
  proof -
    let ?s = "init_receiver sec bsk bpk s1"
    obtain pub sk where kp: "generate_keypair p rnd = Inr (pub, sk)" "x_pair p pub sk"
      using generate_keypair_ok [OF x] .
    obtain z2 where z2: "x25519_dh p sk epk = Inr z2"
      using dh_pair [OF x kp(2) e] by blast
    obtain rk2 cks where k2: "kdf_rk p rk z2 = Inr (rk2, cks)"
      using kdf_rk_ok by blast
    have "cache_ok ?s" and "\<forall>k \<in> set (s_skipped ?s). \<not> stale_key (clk 0) k" and "unat (h_n h) < 4294967295"
      and "s_has_ckr ?s \<longrightarrow> s_has_dhr ?s" and "\<not> s_has_dhr ?s \<or> h_dh_pub h \<noteq> s_dhr_pub ?s"
      and "h_dh_pub h \<notin> fst ` dom (cache ?s)"
      and "x25519_dh p (s_dhs_sk ?s) (h_dh_pub h) = Inr z" and "kdf_rk p (s_root_key ?s) z = Inr (rk, ck)"
      and "x25519_dh p sk (h_dh_pub h) = Inr z2" and "length (s_skipped ?s) + unat (h_pn h) + unat (h_n h) \<le> 1000"
      using z z2 by (simp_all add: init_receiver_def cache_ok_def cache_def h)
    from decrypt_new_chain [where clk = clk, OF this(1-8) kp(1) this(9) k2 op] this(10) show ?thesis
      by auto
  qed
  with enc h ct show thesis
    by (rule that)
qed

section \<open>The body of an opening\<close>

lemma init_sender_labels:
  "init_sender p sec esk epk bpk s = (s1, Inr ()) \<Longrightarrow>
     init_sender p sec esk epk bpk (s\<lparr>s_suite := a, s_status := b\<rparr>) = (s1\<lparr>s_suite := a, s_status := b\<rparr>, Inr ())"
  by (auto simp: init_sender_def bindM_readM_Inr)

lemma aad_prefix_header [simp]:
  "envelope_aad_prefix (e\<lparr>env_header := h\<rparr>) = envelope_aad_prefix e"
  by (simp add: envelope_aad_prefix_def cong del: bindR_weak_cong)

lemma blank_envelope_simps [simp]:
  "env_suite (blank_envelope p ik su f) = su"
  "env_initial (blank_envelope p ik su f) = f"
  "env_spqr_message (blank_envelope p ik su f) = []"
  by (simp_all add: blank_envelope_def)

lemma split_initial_secret_ok: "\<exists>ec sp. split_initial_secret p sec = Inr (ec, sp)"
  using hkdf_expand_ok [of 64 p] by (auto simp: split_initial_secret_def bindR_eq_Inr)

lemma spqr_first:
  assumes "spqr_law p"
  obtains a b where "spqr_initialize p True sec = Inr a" and "spqr_initialize p False sec = Inr b"
    and "\<And>rnd. \<exists>step b'. spqr_send p a rnd = Inr step \<and> spqr_receive p b (sent_message step) = Inr (b', sent_key step) \<and>
           sent_message step \<noteq> [] \<and> length (sent_message step) \<le> 1048576"
proof -
  from assms obtain a b where ab: "spqr_init p True sec = Some a" "spqr_init p False sec = Some b"
    and st: "\<And>rnd. \<exists>a' msg key b'. spqr_send_step p a rnd = Some (a', msg, key) \<and>
        spqr_recv_step p b msg = Some (b', key) \<and> length key = 32 \<and> msg \<noteq> [] \<and> length msg \<le> 1048576"
    unfolding spqr_law_def by metis
  have "\<exists>step b'. spqr_send p a rnd = Inr step \<and> spqr_receive p b (sent_message step) = Inr (b', sent_key step) \<and>
      sent_message step \<noteq> [] \<and> length (sent_message step) \<le> 1048576" for rnd
  proof -
    from st [of rnd] obtain a' msg key b' where "spqr_send_step p a rnd = Some (a', msg, key)"
        "spqr_recv_step p b msg = Some (b', key)" "length key = 32" "msg \<noteq> []" "length msg \<le> 1048576"
      by blast
    then show ?thesis
      by (intro exI [of _ "\<lparr>sent_state = a', sent_message = msg, sent_key = key\<rparr>"] exI [of _ b'])
        (simp add: spqr_send_def spqr_receive_def)
  qed
  with ab show thesis
    by (intro that) (simp_all add: spqr_initialize_def)
qed

lemma blank_envelope_wf:
  assumes "sha256_law p" and "su \<noteq> ClassicV2" and "wf_initial f" and "length (h_dh_pub h) = 32"
    and "length ct \<le> 4195356" and "uses_triple_ratchet su \<longleftrightarrow> msg \<noteq> []" and "length msg \<le> 1048576"
  shows "wf_envelope ((blank_envelope p ik su (Some f))\<lparr>env_spqr_message := msg, env_header := h, env_ciphertext := ct\<rparr>)"
  using assms
  by (cases su) (auto simp: wf_envelope_def blank_envelope_def wf_header_def uses_triple_ratchet_def
      sender_id_for_def sha256_length)

lemma envelope_aad_ok:
  assumes "wf_envelope (e\<lparr>env_header := h, env_ciphertext := ct\<rparr>)"
  obtains aad where "envelope_aad_prefix e = Inr aad"
  using envelope_aad_prefix_ok [OF assms] by auto

lemma opening_body:
  assumes laws: "hmac_law p" "aead_law p" "x25519_law p" "sha256_law p" "spqr_law p" and su: "su \<noteq> ClassicV2"
    and e: "x_pair p (ir_ephemeral_pk hs) (ir_ephemeral_sk hs)" and k: "x_pair p (spk_pub k) (spk_sk k)"
    and b: "ir_spk_pub hs = spk_pub k" and f: "wf_initial f" and l: "length nonce = 12" "length m \<le> kMaxPlaintextBytes"
  obtains s1 env s2 where "open_sender p su hs s = Inr s1"
    and "encrypt_into p rnd nonce su m (blank_envelope p ik su (Some f)) (s1\<lparr>s_suite := su, s_status := Pending\<rparr>)
           = Inr (env, s2)"
    and "wf_envelope env" and "length (env_ciphertext env) \<le> min 4195356 (2 * length m + 1180)" and "env_initial env = Some f"
    and "env_suite env = su" and "h_dh_pub (env_header env) = ir_ephemeral_pk hs"
    and "\<And>d t. \<exists>sB sB'. open_receiver p su (ir_shared_secret hs) k t = Inr sB \<and> decrypt_from p d env sB = Inr (sB', m)"
proof (cases "uses_triple_ratchet su")
  case True
  obtain ec sp where sp: "split_initial_secret p (ir_shared_secret hs) = Inr (ec, sp)"
    using split_initial_secret_ok by blast
  obtain a b' where ab: "spqr_initialize p True sp = Inr a" "spqr_initialize p False sp = Inr b'"
    and st: "\<And>rnd. \<exists>step b''. spqr_send p a rnd = Inr step \<and> spqr_receive p b' (sent_message step) = Inr (b'', sent_key step) \<and>
           sent_message step \<noteq> [] \<and> length (sent_message step) \<le> 1048576"
    by (rule spqr_first [OF laws(5)]) blast
  from st [of rnd] obtain step b'' where step: "spqr_send p a rnd = Inr step"
    "spqr_receive p b' (sent_message step) = Inr (b'', sent_key step)" "sent_message step \<noteq> []"
    "length (sent_message step) \<le> 1048576"
    by blast
  let ?e = "(blank_envelope p ik su (Some f))\<lparr>env_spqr_message := sent_message step\<rparr>"
  obtain s1 where i: "init_sender p ec (ir_ephemeral_sk hs) (ir_ephemeral_pk hs) (spk_pub k) (s\<lparr>s_spqr_state := a\<rparr>) = (s1, Inr ())"
    using init_sender_ok [OF laws(3) e k] by metis
  then have s1: "s_spqr_state s1 = a"
    by (auto simp: init_sender_def bindM_readM_Inr)
  have dh: "length (ir_ephemeral_pk hs) = 32"
    using x_pair_length [OF laws(3) e] by simp
  have "wf_envelope (?e\<lparr>env_header := \<lparr>h_dh_pub = ir_ephemeral_pk hs, h_pn = 0, h_n = 0\<rparr>, env_ciphertext := []\<rparr>)"
    using blank_envelope_wf [OF laws(4) su f] dh True step(3,4) by simp
  then obtain aad where aad: "envelope_aad_prefix ?e = Inr aad"
    by (rule envelope_aad_ok)
  obtain sA h ct where enc: "ratchet_encrypt p nonce m aad (Some (sent_key step)) (s1\<lparr>s_suite := su, s_status := Pending\<rparr>)
        = (sA, Inr (h, ct))"
    and h: "h = \<lparr>h_dh_pub = ir_ephemeral_pk hs, h_pn = 0, h_n = 0\<rparr>" and ct: "length ct \<le> min 4195356 (2 * length m + 1180)"
    and dec: "\<And>clk rnd t. \<exists>sB. ratchet_decrypt p clk rnd h ct aad (Some (sent_key step))
        (init_receiver ec (spk_sk k) (spk_pub k) t) = (sB, Inr m)"
    by (rule first_ratchet_message [OF laws(1-3) e k l init_sender_labels [OF i], where aad = aad and pqk = "Some (sent_key step)"])
      blast
  let ?env = "?e\<lparr>env_header := h, env_ciphertext := ct\<rparr>"
  have w: "wf_envelope ?env"
    using blank_envelope_wf [OF laws(4) su f] dh True step(3,4) ct h by simp
  have "open_sender p su hs s = Inr s1"
    using True sp ab(1) i b by (simp add: open_sender_def)
  moreover have "encrypt_into p rnd nonce su m (blank_envelope p ik su (Some f)) (s1\<lparr>s_suite := su, s_status := Pending\<rparr>)
      = Inr (?env, sA\<lparr>s_spqr_state := sent_state step\<rparr>)"
    using True step(1) aad enc s1 by (simp add: encrypt_into_def Let_def)
  moreover have "\<exists>sB sB'. open_receiver p su (ir_shared_secret hs) k t = Inr sB \<and> decrypt_from p d ?env sB = Inr (sB', m)" for d t
  proof -
    let ?B = "init_receiver ec (spk_sk k) (spk_pub k) (t\<lparr>s_spqr_state := b'\<rparr>)"
    obtain sB where "ratchet_decrypt p (rd_clock d) (rd_keypair d) h ct aad (Some (sent_key step)) ?B = (sB, Inr m)"
      using dec by blast
    then show ?thesis
      using True sp ab(2) step(2) aad
      by (intro exI [of _ ?B] exI [of _ "sB\<lparr>s_spqr_state := b''\<rparr>"])
        (simp add: open_receiver_def decrypt_from_def init_receiver_def)
  qed
  ultimately show thesis
    using w ct h by (intro that [of s1 ?env]) simp_all
next
  case False
  then have su': "su = HybridPqxdhV1"
    using su by (cases su) (simp_all add: uses_triple_ratchet_def)
  let ?e = "blank_envelope p ik su (Some f)"
  obtain s1 where i: "init_sender p (ir_shared_secret hs) (ir_ephemeral_sk hs) (ir_ephemeral_pk hs) (spk_pub k) s = (s1, Inr ())"
    using init_sender_ok [OF laws(3) e k] by metis
  have dh: "length (ir_ephemeral_pk hs) = 32"
    using x_pair_length [OF laws(3) e] by simp
  have blank: "?e\<lparr>env_spqr_message := []\<rparr> = ?e"
    by (simp add: blank_envelope_def)
  have "wf_envelope (?e\<lparr>env_header := \<lparr>h_dh_pub = ir_ephemeral_pk hs, h_pn = 0, h_n = 0\<rparr>, env_ciphertext := []\<rparr>)"
    using blank_envelope_wf [OF laws(4) su f, where h = "\<lparr>h_dh_pub = ir_ephemeral_pk hs, h_pn = 0, h_n = 0\<rparr>" and
      ct = "[]" and msg = "[]" and ik = ik] dh False unfolding blank by simp
  then obtain aad where aad: "envelope_aad_prefix ?e = Inr aad"
    by (rule envelope_aad_ok)
  obtain sA h ct where enc: "ratchet_encrypt p nonce m aad None (s1\<lparr>s_suite := su, s_status := Pending\<rparr>)
        = (sA, Inr (h, ct))"
    and h: "h = \<lparr>h_dh_pub = ir_ephemeral_pk hs, h_pn = 0, h_n = 0\<rparr>" and ct: "length ct \<le> min 4195356 (2 * length m + 1180)"
    and dec: "\<And>clk rnd t. \<exists>sB. ratchet_decrypt p clk rnd h ct aad None
        (init_receiver (ir_shared_secret hs) (spk_sk k) (spk_pub k) t) = (sB, Inr m)"
    by (rule first_ratchet_message [OF laws(1-3) e k l init_sender_labels [OF i], where aad = aad and pqk = None]) blast
  let ?env = "?e\<lparr>env_header := h, env_ciphertext := ct\<rparr>"
  have w: "wf_envelope ?env"
    using blank_envelope_wf [OF laws(4) su f, where h = h and ct = ct and msg = "[]" and ik = ik] dh False ct h
    unfolding blank by simp
  have "open_sender p su hs s = Inr s1"
    using False i b by (simp add: open_sender_def)
  moreover have "encrypt_into p rnd nonce su m ?e (s1\<lparr>s_suite := su, s_status := Pending\<rparr>) = Inr (?env, sA)"
    using False aad enc by (simp add: encrypt_into_def)
  moreover have "\<exists>sB sB'. open_receiver p su (ir_shared_secret hs) k t = Inr sB \<and> decrypt_from p d ?env sB = Inr (sB', m)" for d t
  proof -
    obtain sB where "ratchet_decrypt p (rd_clock d) (rd_keypair d) h ct aad None
        (init_receiver (ir_shared_secret hs) (spk_sk k) (spk_pub k) t) = (sB, Inr m)"
      using dec by blast
    then show ?thesis
      using False aad by (simp add: open_receiver_def decrypt_from_def)
  qed
  ultimately show thesis
    using w ct h by (intro that [of s1 ?env]) simp_all
qed

section \<open>From one vault to the other\<close>

definition message_laws :: "prims \<Rightarrow> bool" where
  "message_laws p \<longleftrightarrow> crypto_laws p \<and> aead_law p \<and> b64_law p \<and> sha256_law p \<and> spqr_law p"

text \<open>The sender holds a verified card of the receiver and has no session with them yet.\<close>

definition can_open :: "vault_store \<Rightarrow> nat \<Rightarrow> bytes \<Rightarrow> peer_card \<Rightarrow> bool" where
  "can_open v ci pkB cd \<longleftrightarrow> ci < length (v_contacts v) \<and> c_verified (v_contacts v ! ci) \<and>
     c_identity_pub (v_contacts v ! ci) = pkB \<and> c_card (v_contacts v ! ci) = Some cd \<and>
     pc_maximum_suite cd \<noteq> ClassicV2 \<and>
     suite_at_least (pc_maximum_suite cd) (c_minimum_suite (v_contacts v ! ci)) \<and> find_session v ci = None"

text \<open>
  The receiver has verified the sender, accepts the suite, has never heard from them, and still has the
  keys behind the card.
\<close>

definition can_accept :: "prims \<Rightarrow> vault_store \<Rightarrow> nat \<Rightarrow> bytes \<Rightarrow> bytes \<Rightarrow> peer_card \<Rightarrow> bool" where
  "can_accept p v cj pkA pkB cd \<longleftrightarrow> find_contact_by_identity v pkA = Some cj \<and> c_verified (v_contacts v ! cj) \<and>
     suite_at_least (pc_maximum_suite cd) (c_minimum_suite (v_contacts v ! cj)) \<and>
     find_session v cj = None \<and> (\<forall>h \<in> set (v_accepted_handshakes v). ah_initiator_identity h \<noteq> pkA) \<and>
     length (v_accepted_handshakes v) < 512 \<and>
     distinct (map spk_id (v_signed_prekeys v)) \<and> distinct (map otpk_id (v_one_time_prekeys v)) \<and>
     distinct (map pqk_id (v_pq_signed_prekeys v)) \<and> distinct (map pqk_id (v_pq_one_time_prekeys v)) \<and>
     (\<exists>k \<in> set (v_signed_prekeys v). \<exists>q \<in> set (v_pq_signed_prekeys v).
        card_backed p pkB k (v_one_time_prekeys v) q (v_pq_one_time_prekeys v) cd)"

lemma find_by_id_mem:
  assumes "distinct (map f xs)" and "x \<in> set xs"
  obtains j where "find_by_id e f xs (f x) = Inr j" and "j < length xs" and "xs ! j = x"
proof -
  from assms(2) obtain j where j: "j < length xs" "xs ! j = x"
    by (auto simp: in_set_conv_nth)
  have "find_index (\<lambda>k. f k = f x) xs = Some j"
    unfolding find_index_Some_iff using j assms(1) by (auto simp: distinct_conv_nth)
  with j show thesis
    by (intro that [of j]) (simp_all add: find_by_id_def)
qed

lemma find_by_id_opt:
  assumes "distinct (map f xs)" and "set_option mine \<subseteq> set xs"
  obtains oj where "(case map_option f mine of None \<Rightarrow> Inr None
      | Some i \<Rightarrow> bindR (find_by_id e f xs i) (\<lambda>j. Inr (Some j))) = Inr oj"
    and "map_option (\<lambda>j. xs ! j) oj = mine"
proof (cases mine)
  case None
  then show thesis
    by (intro that [of None]) simp_all
next
  case (Some x)
  with assms obtain j where "find_by_id e f xs (f x) = Inr j" "xs ! j = x"
    by (auto elim: find_by_id_mem)
  with Some show thesis
    by (intro that [of "Some j"]) simp_all
qed

lemma lookup_keys_ok:
  assumes d: "distinct (map spk_id (v_signed_prekeys v))" "distinct (map otpk_id (v_one_time_prekeys v))"
      "distinct (map pqk_id (v_pq_signed_prekeys v))" "distinct (map pqk_id (v_pq_one_time_prekeys v))"
    and k: "k \<in> set (v_signed_prekeys v)" "init_spk_id f = spk_id k"
    and q: "q \<in> set (v_pq_signed_prekeys v)" "init_pq_spk_id f = Some (pqk_id q)"
    and m: "init_otpk_id f = map_option otpk_id mine" "set_option mine \<subseteq> set (v_one_time_prekeys v)"
    and n: "init_pq_otpk_id f = map_option pqk_id pq_mine" "set_option pq_mine \<subseteq> set (v_pq_one_time_prekeys v)"
      "init_pq_otpk_ciphertext f = None \<longleftrightarrow> pq_mine = None"
  obtains nk where "lookup_keys v f = Inr nk" and "nk_spk nk = k" and "nk_pq_spk nk = q"
    and "map_option (\<lambda>i. v_one_time_prekeys v ! i) (nk_otpk nk) = mine"
    and "map_option (\<lambda>i. v_pq_one_time_prekeys v ! i) (nk_pq_otpk nk) = pq_mine"
proof -
  obtain si where si: "find_by_id SignedPrekeyGone spk_id (v_signed_prekeys v) (spk_id k) = Inr si"
      "v_signed_prekeys v ! si = k"
    by (rule find_by_id_mem [OF d(1) k(1)])
  obtain qi where qi: "find_by_id PqSignedPrekeyGone pqk_id (v_pq_signed_prekeys v) (pqk_id q) = Inr qi"
      "v_pq_signed_prekeys v ! qi = q"
    by (rule find_by_id_mem [OF d(3) q(1)])
  obtain oi where oi: "(case map_option otpk_id mine of None \<Rightarrow> Inr None
      | Some i \<Rightarrow> bindR (find_by_id OneTimePrekeyGone otpk_id (v_one_time_prekeys v) i) (\<lambda>j. Inr (Some j))) = Inr oi"
      "map_option (\<lambda>j. v_one_time_prekeys v ! j) oi = mine"
    by (rule find_by_id_opt [OF d(2) m(2)])
  obtain pi where pi: "(case map_option pqk_id pq_mine of None \<Rightarrow> Inr None
      | Some i \<Rightarrow> bindR (find_by_id PqOneTimePrekeyGone pqk_id (v_pq_one_time_prekeys v) i) (\<lambda>j. Inr (Some j))) = Inr pi"
      "map_option (\<lambda>j. v_pq_one_time_prekeys v ! j) pi = pq_mine"
    by (rule find_by_id_opt [OF d(4) n(2)])
  have "(case init_pq_otpk_id f of
              Some i \<Rightarrow> if init_pq_otpk_ciphertext f = None then Inl (ReceiveError OpeningFields)
                else bindR (find_by_id PqOneTimePrekeyGone pqk_id (v_pq_one_time_prekeys v) i) (\<lambda>oi. Inr (Some oi))
            | None \<Rightarrow> if init_pq_otpk_ciphertext f = None then Inr None else Inl (ReceiveError OpeningFields)) = Inr pi"
    using pi(1) n(1,3) by (cases pq_mine) auto
  with si qi oi k(2) q(2) m(1) pi(2) show thesis
    by (intro that [of "\<lparr>nk_spk = k, nk_otpk = oi, nk_pq_spk = q, nk_pq_otpk = pi\<rparr>"])
      (simp_all add: lookup_keys_def)
qed

text \<open>The sender's side: everything up to the block.\<close>

lemma send_opening:
  fixes v ci
  defines "s0 \<equiv> session_default\<lparr>s_contact_index := ci\<rparr>"
  assumes c: "can_open v ci pkB cd" "pc_pq_bundle cd \<noteq> None" and m: "length m \<le> kMaxPlaintextBytes"
    and i: "initiate p (sd_handshake d) sk ik (uses_xwing_combiner (pc_maximum_suite cd)) (v_contacts v ! ci) = (c', Inr hs)"
    and o: "open_sender p (pc_maximum_suite cd) hs s0 = Inr s1"
    and e: "encrypt_into p (sd_spqr d) (sd_nonce d) (pc_maximum_suite cd) m
        (blank_envelope p ik (pc_maximum_suite cd) (Some (initial_of ik hs)))
        (s1\<lparr>s_suite := pc_maximum_suite cd, s_status := Pending\<rparr>) = Inr (env, s2)"
    and b: "session_id_for p env = Inr sid" "message_encode p env = Inr block"
  shows "send p d sk ik ci m v = (v\<lparr>v_sessions := v_sessions v @ [s2\<lparr>s_session_id := sid\<rparr>],
    v_contacts := (v_contacts v)[ci := c']\<rparr>, Inr block)"
proof -
  have n: "find_session v ci = None" "pc_maximum_suite cd \<noteq> ClassicV2"
    and c1: "ci < length (v_contacts v)" "c_verified (v_contacts v ! ci)" "c_card (v_contacts v ! ci) = Some cd"
      "suite_at_least (pc_maximum_suite cd) (c_minimum_suite (v_contacts v ! ci))"
    using c(1) unfolding can_open_def by simp_all
  have s0: "\<not> s_has_dhs s0" "\<not> s_has_cks s0" "\<not> s_legacy_read_only s0"
    by (simp_all add: s0_def session_default_def)
  have l: "local_session v ci = s0" "selected_suite v ci cd = pc_maximum_suite cd"
    using n by (simp_all add: local_session_def selected_suite_def s0_def)
  have "pc_maximum_suite cd = HybridPqxdhV1 \<or> uses_triple_ratchet (pc_maximum_suite cd)"
    using n(2) by (cases "pc_maximum_suite cd") (simp_all add: uses_triple_ratchet_def)
  then have a: "admit_send v ci m = Inr (v_contacts v ! ci, pc_maximum_suite cd, s0)"
    using c1 c(2) m s0 l by (auto simp: admit_send_def Let_def)
  have op: "open_session p (sd_handshake d) sk ik (pc_maximum_suite cd) (v_contacts v ! ci) s0 =
      Inr (c', s1\<lparr>s_suite := pc_maximum_suite cd, s_status := Pending\<rparr>, Some (initial_of ik hs))"
    using s0(2) i o by (simp add: open_session_def)
  show ?thesis
    using n(1) by (simp add: send_def a op e b bindM_def)
qed

text \<open>The receiver's side: what \<open>receive\<close> does with the envelope of an opening.\<close>

lemma receive_opening_ok:
  assumes ci: "find_contact_by_identity v (initiator_identity_pub f) = Some ci" "c_verified (v_contacts v ! ci)"
      "suite_at_least (env_suite env) (c_minimum_suite (v_contacts v ! ci))"
    and f: "init_pq_spk_id f \<noteq> None" "init_pq_spk_ciphertext f \<noteq> None"
    and h: "\<not> handshake_already_accepted v (initiator_identity_pub f) (h_dh_pub (env_header env))"
      "length (v_accepted_handshakes v) < 512"
    and l: "lookup_keys v f = Inr nk" and a: "accept_opening p d sk ik env f ci v nk = Inr (fresh, m)"
    and r: "may_replace v ci fresh = Inr ()"
  obtains v' where "receive_opening p d sk ik env f v = (v', Inr \<lparr>rr_contact_index = ci,
      rr_alias = c_alias (v_contacts v ! ci), rr_plaintext = m, rr_session_established = True\<rparr>)"
    and "v_sessions v' = v_sessions (install_session ci fresh v)"
proof -
  have ad: "admit_opening env f v = (v, Inr ci)"
    using ci f h by (simp add: admit_opening_def kMaxAcceptedHandshakes_def)
  note rem = remember_new [OF h]
  have b: "ci < length (v_contacts v)"
    using find_contact_less [OF ci(1)] by simp
  show thesis
    by (rule that, simp add: receive_opening_def bindM_def ad l a r rem b)
      (simp add: install_session_def find_session_def split: option.split)
qed

lemma open_sender_contact:
  assumes "open_sender p su hs s = Inr s1"
  shows "s_contact_index s1 = s_contact_index s"
proof -
  have i: "init_sender p sec a b c t = (t', Inr ()) \<Longrightarrow> s_contact_index t' = s_contact_index t" for sec a b c t t'
    by (auto simp: init_sender_def bindM_readM_Inr)
  from assms show ?thesis
    by (auto simp: open_sender_def bindR_eq_Inr on_local_Inr split: if_splits dest!: i)
qed

lemma encrypt_into_contact:
  assumes "encrypt_into p rnd nonce su m e s = Inr (env, s2)"
  shows "s_contact_index s2 = s_contact_index s"
proof -
  have r: "ratchet_encrypt p n m aad k t = (t', Inr z) \<Longrightarrow> s_contact_index t' = s_contact_index t" for n aad k t t' z
    by (auto simp: ratchet_encrypt_def Let_def split: if_splits prod.splits sum.splits)
  from assms show ?thesis
    by (auto simp: encrypt_into_def bindR_eq_Inr on_local_Inr Let_def split: if_splits dest!: r)
qed

lemma sender_contact:
  assumes "open_sender p su hs s = Inr s1"
    and "encrypt_into p rnd nonce su m e (s1\<lparr>s_suite := x, s_status := y\<rparr>) = Inr (env, s2)"
  shows "s_contact_index s2 = s_contact_index s"
  using open_sender_contact [OF assms(1)] encrypt_into_contact [OF assms(2)] by simp

text \<open>What a successful \<open>send\<close> leaves of the vault: the session and the contact it is about.\<close>

lemma send_effect:
  assumes "send p d sk ik ci m v = (v', Inr block)"
  obtains c' s where "v' = (install_session ci s v)\<lparr>v_contacts := (v_contacts v)[ci := c']\<rparr>"
    and "s_contact_index s = ci" and "ci < length (v_contacts v)"
    and "c_identity_pub c' = c_identity_pub (v_contacts v ! ci)"
proof -
  from assms obtain c su s where a: "admit_send v ci m = Inr (c, su, s)"
    by (auto simp: send_def bindM_eq_Inr)
  with assms obtain c' s1 f where o: "open_session p (sd_handshake d) sk ik su c s = Inr (c', s1, f)"
    by (auto simp: send_def bindM_eq_Inr)
  with assms a obtain env s2 where e: "encrypt_into p (sd_spqr d) (sd_nonce d) su m (blank_envelope p ik su f) s1 = Inr (env, s2)"
    by (auto simp: send_def bindM_eq_Inr)
  define r3 where "r3 = (if f = None then Inr s2 else bindR (session_id_for p env) (\<lambda>i. Inr (s2\<lparr>s_session_id := i\<rparr>)))"
  from assms a o e obtain s3 where r3: "r3 = Inr s3"
    and v': "v' = (case find_session v ci of Some i \<Rightarrow> v\<lparr>v_sessions := (v_sessions v)[i := s3]\<rparr>
        | None \<Rightarrow> v\<lparr>v_sessions := v_sessions v @ [s3]\<rparr>)\<lparr>v_contacts := (v_contacts v)[ci := c']\<rparr>"
    by (auto simp: send_def bindM_eq_Inr simp flip: r3_def split: option.splits)
  have s3: "s_contact_index s3 = s_contact_index s2"
    using r3 by (auto simp: r3_def bindR_eq_Inr split: if_splits)
  have c: "c = v_contacts v ! ci" "ci < length (v_contacts v)" "s_contact_index s = ci"
    using a by (auto simp: admit_send_def Let_def local_session_def split: if_splits option.splits)
  have s1: "s_contact_index s1 = ci \<and> c_identity_pub c' = c_identity_pub c"
  proof (cases "s_has_cks s")
    case True
    with o c show ?thesis
      by (auto simp: open_session_def split: if_splits)
  next
    case False
    with o obtain hs s0 where i: "initiate p (sd_handshake d) sk ik (uses_xwing_combiner su) c = (c', Inr hs)"
      and op: "open_sender p su hs s = Inr s0" and s1: "s1 = s0\<lparr>s_suite := su, s_status := Pending\<rparr>"
      by (auto simp: open_session_def bindR_eq_Inr on_local_Inr)
    from initiate_Inr [OF i] have "c_identity_pub c' = c_identity_pub c"
      by (metis contact.select_convs(2) contact.surjective contact.update_convs(5))
    with open_sender_contact [OF op] c s1 show ?thesis
      by simp
  qed
  have "s_contact_index s3 = ci"
    using s3 s1 encrypt_into_contact [OF e] by simp
  moreover have "v' = (install_session ci s3 v)\<lparr>v_contacts := (v_contacts v)[ci := c']\<rparr>"
    by (simp add: v' install_session_def split: option.split)
  ultimately show thesis
    using c s1 by (intro that [of c' s3]) simp_all
qed

lemma send_keeps_others:
  assumes "send p d sk ik ci m v = (v', Inr block)" and "j \<noteq> ci" and "can_open v j pk cd"
  shows "can_open v' j pk cd"
proof -
  obtain c' s where v': "v' = (install_session ci s v)\<lparr>v_contacts := (v_contacts v)[ci := c']\<rparr>"
    and s: "s_contact_index s = ci"
    by (rule send_effect [OF assms(1)])
  have "find_session v j = None"
    using assms(3) by (simp add: can_open_def)
  then have n: "\<forall>x \<in> set (v_sessions v). s_contact_index x \<noteq> j"
    by (auto simp: find_session_def find_index_None)
  have "\<forall>x \<in> set (v_sessions v'). s_contact_index x \<noteq> j"
    using n s assms(2) by (auto simp: v' install_session_def split: option.split dest: set_update_subset_insert [THEN subsetD])
  then have "find_session v' j = None"
    by (simp add: find_session_def find_index_None)
  with assms(2,3) show ?thesis
    by (simp add: can_open_def v')
qed

lemma accept_opening_ok:
  assumes "init_pq_spk_ciphertext f = Some ct" and "nk_spk nk = k" and "nk_pq_spk nk = q"
    and "map_option (\<lambda>i. v_one_time_prekeys v ! i) (nk_otpk nk) = mine"
    and "map_option (\<lambda>i. v_pq_one_time_prekeys v ! i) (nk_pq_otpk nk) = pq_mine"
    and "respond_hybrid p sk ik (initiator_identity_pub f) (h_dh_pub (env_header env)) k mine q ct pq_mine
      (init_pq_otpk_ciphertext f) (uses_xwing_combiner (env_suite env)) = Inr shared"
    and "session_id_for p env = Inr sid"
    and "\<And>t. \<exists>sB sB'. open_receiver p (env_suite env) shared k t = Inr sB \<and> decrypt_from p d env sB = Inr (sB', m)"
  obtains fresh where "accept_opening p d sk ik env f ci v nk = Inr (fresh, m)" and "s_session_id fresh = sid"
proof -
  let ?t = "session_default\<lparr>s_contact_index := ci, s_suite := env_suite env, s_session_id := sid, s_status := Confirmed\<rparr>"
  obtain sB sB' where o: "open_receiver p (env_suite env) shared k ?t = Inr sB" "decrypt_from p d env sB = Inr (sB', m)"
    using assms(8) by blast
  have "s_session_id sB' = sid"
    using decrypt_from_frame [OF o(2)] open_receiver_frame [OF o(1)] by simp
  with assms(1-7) o show thesis
    by (intro that [of sB']) (simp_all add: accept_opening_def)
qed

lemma first_message:
  assumes laws: "message_laws p" and u: "uniform_law (sd_handshake d)"
    and A: "ed_pair p pkA skA" and B: "ed_pair p pkB skB"
    and a: "can_open vA ci pkB cd" and b: "can_accept p vB cj pkA pkB cd"
    and l: "length (sd_nonce d) = 12" "length m \<le> kMaxPlaintextBytes"
  obtains vA' block vB' r i j where "send p d skA pkA ci m vA = (vA', Inr block)"
    and "receive p rd skB pkB block vB = (vB', Inr r)"
    and "rr_plaintext r = m" and "rr_contact_index r = cj" and "rr_session_established r"
    and "find_session vA' ci = Some i" and "find_session vB' cj = Some j"
    and "s_session_id (v_sessions vA' ! i) = s_session_id (v_sessions vB' ! j)"
    and "length block \<le> 4 * length m + 2107384"
proof -
  let ?su = "pc_maximum_suite cd" and ?c = "v_contacts vA ! ci"
  have L: "crypto_laws p" "hmac_law p" "aead_law p" "b64_law p" "sha256_law p" "spqr_law p" "x25519_law p" "ed25519_law p"
    using laws by (simp_all add: message_laws_def crypto_laws_def)
  have c: "c_card ?c = Some cd" "c_identity_pub ?c = pkB" "?su \<noteq> ClassicV2" "find_session vA ci = None"
    using a by (simp_all add: can_open_def)
  obtain k q where k: "k \<in> set (v_signed_prekeys vB)" and q: "q \<in> set (v_pq_signed_prekeys vB)"
    and backed: "card_backed p pkB k (v_one_time_prekeys vB) q (v_pq_one_time_prekeys vB) cd"
    using b by (auto simp: can_accept_def)
  have bv: "find_contact_by_identity vB pkA = Some cj" "c_verified (v_contacts vB ! cj)"
      "suite_at_least ?su (c_minimum_suite (v_contacts vB ! cj))" "find_session vB cj = None"
      "\<forall>h \<in> set (v_accepted_handshakes vB). ah_initiator_identity h \<noteq> pkA" "length (v_accepted_handshakes vB) < 512"
    and dist: "distinct (map spk_id (v_signed_prekeys vB))" "distinct (map otpk_id (v_one_time_prekeys vB))"
      "distinct (map pqk_id (v_pq_signed_prekeys vB))" "distinct (map pqk_id (v_pq_one_time_prekeys vB))"
    using b by (simp_all add: can_accept_def)
  obtain c' hs ct mine pq_mine where
    i: "initiate p (sd_handshake d) skA pkA (uses_xwing_combiner ?su) ?c = (c', Inr hs)"
    and resp: "respond_hybrid p skB pkB pkA (ir_ephemeral_pk hs) k mine q ct pq_mine (ir_pq_otpk_ciphertext hs)
      (uses_xwing_combiner ?su) = Inr (ir_shared_secret hs)"
    and h: "ir_spk_id hs = spk_id k" "ir_spk_pub hs = spk_pub k" "ir_pq_spk_id hs = Some (pqk_id q)"
      "ir_pq_spk_ciphertext hs = Some ct" "length ct = 1088"
      "ir_otpk_id hs = map_option otpk_id mine" "set_option mine \<subseteq> set (v_one_time_prekeys vB)"
      "ir_pq_otpk_id hs = map_option pqk_id pq_mine" "set_option pq_mine \<subseteq> set (v_pq_one_time_prekeys vB)"
      "ir_pq_otpk_ciphertext hs = None \<longleftrightarrow> pq_mine = None"
      "pred_option (\<lambda>ct. length ct = 1088) (ir_pq_otpk_ciphertext hs)"
    and e: "x_pair p (ir_ephemeral_pk hs) (ir_ephemeral_sk hs)"
    by (rule handshake_ok [OF L(1) u A B c(1,2) backed, of "uses_xwing_combiner ?su"])
  let ?f = "initial_of pkA hs" and ?s0 = "session_default\<lparr>s_contact_index := ci\<rparr>"
  have lA: "length pkA = 32"
    using L(8) A by (simp add: ed25519_law_def)
  have wf: "wf_initial ?f"
    using h lA by (simp add: wf_initial_def initial_of_def)
  have xk: "x_pair p (spk_pub k) (spk_sk k)"
    using backed by (simp add: card_backed_def)
  obtain s1 env s2 where o: "open_sender p ?su hs ?s0 = Inr s1"
    and en: "encrypt_into p (sd_spqr d) (sd_nonce d) ?su m (blank_envelope p pkA ?su (Some ?f))
      (s1\<lparr>s_suite := ?su, s_status := Pending\<rparr>) = Inr (env, s2)"
    and env: "wf_envelope env" "length (env_ciphertext env) \<le> min 4195356 (2 * length m + 1180)" "env_initial env = Some ?f"
      "env_suite env = ?su" "h_dh_pub (env_header env) = ir_ephemeral_pk hs"
    and dec: "\<And>d t. \<exists>sB sB'. open_receiver p ?su (ir_shared_secret hs) k t = Inr sB \<and> decrypt_from p d env sB = Inr (sB', m)"
    by (rule opening_body [OF L(2,3,7,5,6) c(3) e xk h(2) wf l, where s = ?s0 and rnd = "sd_spqr d" and ik = pkA]) blast
  obtain aad where "envelope_aad_prefix env = Inr aad"
    by (rule envelope_aad_ok [where e = env and h = "env_header env" and ct = "env_ciphertext env"]) (use env(1) in simp_all)
  then obtain sid where sid: "session_id_for p env = Inr sid"
    by (simp add: session_id_for_def)
  obtain block where bl: "message_encode p env = Inr block"
    using envelope.put_ok [OF env(1)] by (auto simp: message_encode_def)
  have dcd: "message_decode p block = Inr env"
    by (rule message_decode_encoded [OF L(4) env(1) _ bl]) (use env(2) in simp)
  obtain body where body: "put_envelope env = Inr body" "block = encode_block p ''MESSAGE'' body"
    using bl by (auto simp: message_encode_def bindR_eq_Inr)
  have size: "length block \<le> 4 * length m + 2107384"
    using length_put_envelope [OF env(1) body(1)] length_encode_block [OF L(4), of "''MESSAGE''" body] env(2)
    by (simp add: body(2))
  have "pc_pq_bundle cd \<noteq> None"
    using backed by (auto simp: card_backed_def)
  note snd = send_opening [OF a this l(2) i o en sid bl]
  have f: "initiator_identity_pub ?f = pkA" "init_spk_id ?f = spk_id k" "init_otpk_id ?f = map_option otpk_id mine"
      "init_pq_spk_id ?f = Some (pqk_id q)" "init_pq_spk_ciphertext ?f = Some ct"
      "init_pq_otpk_id ?f = map_option pqk_id pq_mine" "init_pq_otpk_ciphertext ?f = ir_pq_otpk_ciphertext hs"
    using h by (simp_all add: initial_of_def)
  obtain nk where lk: "lookup_keys vB ?f = Inr nk" and nk: "nk_spk nk = k" "nk_pq_spk nk = q"
      "map_option (\<lambda>i. v_one_time_prekeys vB ! i) (nk_otpk nk) = mine"
      "map_option (\<lambda>i. v_pq_one_time_prekeys vB ! i) (nk_pq_otpk nk) = pq_mine"
    by (rule lookup_keys_ok [OF dist k f(2) q f(4) f(3) h(7) f(6) h(9)]) (use f(7) h(10) in simp_all)
  obtain fresh where acc: "accept_opening p rd skB pkB env ?f cj vB nk = Inr (fresh, m)" "s_session_id fresh = sid"
    by (rule accept_opening_ok [OF f(5) nk _ sid, where shared = "ir_shared_secret hs" and d = rd and m = m and sk = skB
        and ik = pkB and ci = cj]) (use resp dec f env(4,5) in simp_all)
  have fr: "may_replace vB cj fresh = Inr ()"
    using bv(4) by (simp add: may_replace_def)
  have na: "\<not> handshake_already_accepted vB (initiator_identity_pub ?f) (h_dh_pub (env_header env))"
    using bv(5) f(1) by (auto simp: handshake_already_accepted_iff)
  obtain vB' where rc: "receive_opening p rd skB pkB env ?f vB = (vB', Inr \<lparr>rr_contact_index = cj,
      rr_alias = c_alias (v_contacts vB ! cj), rr_plaintext = m, rr_session_established = True\<rparr>)"
    and vB': "v_sessions vB' = v_sessions (install_session cj fresh vB)"
    by (rule receive_opening_ok [OF _ bv(2) _ _ _ na bv(6) lk acc(1) fr]) (use bv(1,3) f env(4) in simp_all)
  have ci: "s_contact_index fresh = cj"
    by (rule accept_opening_frame(1) [OF acc(1)])
  obtain j where j: "find_session vB' cj = Some j" "v_sessions vB' ! j = fresh"
    using installed [OF ci] vB' by (metis find_session_def)
  have "receive p rd skB pkB block vB = (vB', Inr \<lparr>rr_contact_index = cj,
      rr_alias = c_alias (v_contacts vB ! cj), rr_plaintext = m, rr_session_established = True\<rparr>)"
    using rc by (simp add: receive_def dcd bindM_def env(3))
  moreover have sc: "s_contact_index s2 = ci"
    using sender_contact [OF o en] by simp
  moreover have "find_session (vA\<lparr>v_sessions := v_sessions vA @ [s2\<lparr>s_session_id := sid\<rparr>],
      v_contacts := (v_contacts vA)[ci := c']\<rparr>) ci = Some (length (v_sessions vA))"
    using c(4) sc by (simp add: find_session_def find_index_append_None)
  ultimately show thesis
    using c(4) j acc(2) size by (intro that [OF snd]) (assumption | simp add: find_session_def)+
qed

section \<open>Property\<close>

text \<open>C2: A first message arrives: when the sender holds a verified card that the receiver's keys stand behind,
  \<open>send\<close> produces a block, \<open>receive\<close> on the other vault returns its plaintext under the right contact and
  reports a new session, and both vaults now hold a session with the same id, whichever suite the card offers.\<close>

theorem first_message_delivered:
  assumes "message_laws p" and "uniform_law (sd_handshake d)" and "ed_pair p pkA skA" and "ed_pair p pkB skB"
    and "can_open vA ci pkB cd" and "can_accept p vB cj pkA pkB cd"
    and "length (sd_nonce d) = 12" and "length m \<le> kMaxPlaintextBytes"
  shows "\<exists>vA' block vB' r i j. send p d skA pkA ci m vA = (vA', Inr block) \<and>
    receive p rd skB pkB block vB = (vB', Inr r) \<and>
    rr_plaintext r = m \<and> rr_contact_index r = cj \<and> rr_session_established r \<and>
    find_session vA' ci = Some i \<and> find_session vB' cj = Some j \<and>
    s_session_id (v_sessions vA' ! i) = s_session_id (v_sessions vB' ! j)"
  by (rule first_message [OF assms, of rd]) blast

definition sample_contact :: "string \<Rightarrow> bytes \<Rightarrow> peer_card option \<Rightarrow> contact" where
  "sample_contact name ik cd = \<lparr>c_alias = name, c_identity_pub = ik, c_verified = True,
     c_minimum_suite = HybridPqxdhV1, c_card = cd\<rparr>"

definition sample_vault :: "signed_prekey list \<Rightarrow> contact \<Rightarrow> vault_store" where
  "sample_vault ks c = \<lparr>v_vault_id = replicate 16 0, v_generation = 1, v_previous_digest = replicate 32 0,
     v_seed = replicate 32 0, v_next_spk_id = 9, v_signed_prekeys = ks, v_next_otpk_id = 9,
     v_one_time_prekeys = [sample_otpk], v_next_pq_prekey_id = 9, v_pq_signed_prekeys = [sample_pqk],
     v_pq_one_time_prekeys = [sample_pqk], v_contacts = [c], v_sessions = [], v_accepted_handshakes = []\<rparr>"

definition sample_send_draws :: send_draws where
  "sample_send_draws = \<lparr>sd_handshake = sample_draws, sd_spqr = [3], sd_nonce = replicate 12 0\<rparr>"

definition sample_recv_draws :: recv_draws where
  "sample_recv_draws = \<lparr>rd_clock = (\<lambda>n. 0), rd_now = 5, rd_keypair = [4]\<rparr>"

lemma sample_message_laws: "message_laws sample_prims"
  by (simp add: message_laws_def sample_crypto_laws sample_laws sample_spqr)

lemma sample_scene:
  obtains vA vB cd where "can_open vA 0 (fit 32 [2]) cd"
    and "can_accept sample_prims vB 0 (fit 32 [1]) (fit 32 [2]) cd"
    and "list_all (\<lambda>k. spk_id k < v_next_spk_id vB) (v_signed_prekeys vB)"
proof -
  obtain k where i: "spk_id k = 3" and b: "card_backed sample_prims (fit 32 [2]) k [sample_otpk] sample_pqk [sample_pqk]
      (published_card (replicate 1952 0) k [sample_otpk]
        (published_bundle sample_pqk (replicate 64 0) (replicate 3309 0) [sample_pqk]))"
    by (rule sample_card_backed)
  let ?cd = "published_card (replicate 1952 0) k [sample_otpk]
        (published_bundle sample_pqk (replicate 64 0) (replicate 3309 0) [sample_pqk])"
  let ?vA = "sample_vault [] (sample_contact ''bob'' (fit 32 [2]) (Some ?cd))"
    and ?vB = "sample_vault [k] (sample_contact ''alice'' (fit 32 [1]) None)"
  have "can_open ?vA 0 (fit 32 [2]) ?cd"
    by (simp add: can_open_def sample_vault_def sample_contact_def published_card_def find_session_def
        suite_at_least_def)
  moreover have "can_accept sample_prims ?vB 0 (fit 32 [1]) (fit 32 [2]) ?cd"
    using b by (auto simp: can_accept_def sample_vault_def sample_contact_def published_card_def find_session_def
        find_contact_by_identity_def suite_at_least_def)
  moreover have "list_all (\<lambda>k. spk_id k < v_next_spk_id ?vB) (v_signed_prekeys ?vB)"
    by (simp add: sample_vault_def i)
  ultimately show thesis
    by (rule that)
qed

lemma sample_sizes: "uniform_law (sd_handshake sample_send_draws)" "length (sd_nonce sample_send_draws) = 12"
    "length [7, 7 :: byte] \<le> kMaxPlaintextBytes"
  by (simp_all add: sample_send_draws_def sample_uniform kMaxPlaintextBytes_def)

lemma first_message_delivered_witness:
  "\<exists>vA vB vA' block vB' r. send sample_prims sample_send_draws (fit 32 [1] @ fit 32 [1]) (fit 32 [1]) 0 [7, 7] vA =
       (vA', Inr block) \<and>
     receive sample_prims sample_recv_draws (fit 32 [2] @ fit 32 [2]) (fit 32 [2]) block vB = (vB', Inr r) \<and>
     rr_plaintext r = [7, 7]"
proof -
  obtain vA vB cd where s: "can_open vA 0 (fit 32 [2]) cd" "can_accept sample_prims vB 0 (fit 32 [1]) (fit 32 [2]) cd"
    by (rule sample_scene)
  from first_message_delivered [OF sample_message_laws sample_sizes(1) sample_ed_pair sample_ed_pair s sample_sizes(2,3),
      of sample_recv_draws] show ?thesis
    by blast
qed

end
