(* ===== verification/Group.thy ===== *)
theory Group
  imports First_Message
begin

text \<open>
  \<open>group.cpp\<close>: a message to several contacts. The content is sealed once under a random key; that key travels
  to every member as an ordinary message of the session with them, sealed once more to their identity so that
  the inner header does not show. The sender signs the header, the wrappers and the content. Both operations
  work on a serialised copy of the vault and adopt it at the end.
\<close>

section \<open>Constants\<close>

definition kGroupMagic :: bytes where "kGroupMagic = bytes_of_string ''RGRP''"
definition kKeyMagic :: bytes where "kKeyMagic = bytes_of_string ''RGK1''"
definition kGroupVersion :: byte where "kGroupVersion = 1"
definition kKeyPayloadBytes :: nat where "kKeyPayloadBytes = 4 + 16 + 32"
definition kSignDomain :: bytes where "kSignDomain = bytes_of_string ''Ratchet-USB/v1/group-sender''"
definition kMaxMembers :: nat where "kMaxMembers = 64"
definition kMaxGroupBlockBytes :: nat where "kMaxGroupBlockBytes = 16 * 1024 * 1024"

section \<open>Payloads\<close>

definition make_key_payload :: "bytes \<Rightarrow> bytes \<Rightarrow> bytes result" where
  "make_key_payload group_id content_key = catR [put_bytes kKeyMagic, put_bytes group_id, put_bytes content_key]"

definition parse_key_payload :: "bytes \<Rightarrow> (bytes \<times> bytes) option" where
  "parse_key_payload payload =
     (if length payload \<noteq> kKeyPayloadBytes then None
      else if take 4 payload \<noteq> kKeyMagic then None
      else Some (take 16 (drop 4 payload), take 32 (drop 20 payload)))"

text \<open>A wrapper is a byte string; \<open>str\<close> writes it as a blob.\<close>

definition content_aad :: "prims \<Rightarrow> bytes \<Rightarrow> bytes \<Rightarrow> bytes list \<Rightarrow> bytes result" where
  "content_aad p group_id sender wrappers =
     bindR (catR (map put_blob wrappers)) (\<lambda>wrapper_bytes.
     catR [put_bytes kGroupMagic, put_u8 kGroupVersion, put_bytes group_id, put_bytes sender,
           put_u32 (word_of_nat (length wrappers)), put_bytes (sha256 p wrapper_bytes)])"

definition derive_wrapper_key :: "prims \<Rightarrow> bytes \<Rightarrow> bytes result" where
  "derive_wrapper_key p shared =
     hkdf_expand p 32 (bytes_of_string ''Ratchet-USB/v1/group-wrapper-key'')
       (hkdf_extract p (bytes_of_string ''Ratchet-USB/v1/group-wrapper'') shared)"

definition seal_wrapper :: "prims \<Rightarrow> bytes \<Rightarrow> bytes \<Rightarrow> bytes \<Rightarrow> string \<Rightarrow> bytes result" where
  "seal_wrapper p rnd nonce recipient_identity inner_block =
     bindR (identity_dh_public p recipient_identity) (\<lambda>recipient_dh.
     bindR (generate_keypair p rnd) (\<lambda>(ephemeral_pub, ephemeral_sk).
     bindR (x25519_dh p ephemeral_sk recipient_dh) (\<lambda>shared.
     bindR (derive_wrapper_key p shared) (\<lambda>key.
     bindR (of_option (GroupError WrapperEncryption)
              (aead_seal p key nonce [] (bytes_of_string inner_block))) (\<lambda>ciphertext.
     catR [put_bytes ephemeral_pub, put_bytes nonce, put_blob ciphertext])))))"

definition get_wrapper_fields :: "bytes \<Rightarrow> (bytes \<times> bytes \<times> bytes) result" where
  "get_wrapper_fields wrapper =
     bindR (get_bytes 32 wrapper) (\<lambda>(ephemeral_pub, zs).
     bindR (get_bytes 12 zs) (\<lambda>(nonce, zs).
     bindR (get_blob zs) (\<lambda>(ciphertext, zs).
       if zs \<noteq> [] then Inl (GroupError WrapperTrailing)
       else if length ciphertext < 16 then Inl (GroupError WrapperTooShort)
       else Inr (ephemeral_pub, nonce, ciphertext))))"

definition unseal_wrapper :: "prims \<Rightarrow> bytes \<Rightarrow> bytes \<Rightarrow> bytes \<Rightarrow> string result" where
  "unseal_wrapper p my_sk my_ik wrapper =
     bindR (get_wrapper_fields wrapper) (\<lambda>(ephemeral_pub, nonce, ciphertext).
     bindR (identity_dh_keypair p my_sk my_ik) (\<lambda>(my_dh_sk, my_dh_pk).
     bindR (x25519_dh p my_dh_sk ephemeral_pub) (\<lambda>shared.
     bindR (derive_wrapper_key p shared) (\<lambda>key.
     bindR (of_option (GroupError WrapperForged) (aead_open p key nonce [] ciphertext)) (\<lambda>plaintext.
     Inr (string_of_bytes plaintext))))))"

definition transcript_digest :: "prims \<Rightarrow> bytes \<Rightarrow> bytes \<Rightarrow> bytes \<Rightarrow> bytes" where
  "transcript_digest p aad ciphertext nonce = sha256 p (kSignDomain @ aad @ nonce @ ciphertext)"

definition encrypt_content :: "prims \<Rightarrow> bytes \<Rightarrow> bytes \<Rightarrow> bytes \<Rightarrow> bytes \<Rightarrow> bytes result" where
  "encrypt_content p content_key plaintext nonce aad =
     bindR (padded_payload_size (length plaintext)) (\<lambda>target_len.
     of_option (GroupError ContentEncryption) (aead_seal p content_key nonce aad
       (plaintext @ [0x80] @ replicate (target_len - (length plaintext + 1)) 0)))"

definition unpad_content :: "bytes \<Rightarrow> bytes result" where
  "unpad_content pt =
     (if length pt = 0 \<or> pt ! (length pt - 1) \<noteq> 0 \<and> pt ! (length pt - 1) \<noteq> 0x80
      then Inl (GroupError ContentPadding)
      else let i = skip_zeros pt (length pt)
           in if i = 0 \<or> pt ! (i - 1) \<noteq> 0x80 then Inl (GroupError ContentPadding)
              else Inr (take (i - 1) pt))"

definition decrypt_content :: "prims \<Rightarrow> bytes \<Rightarrow> bytes \<Rightarrow> bytes \<Rightarrow> bytes \<Rightarrow> bytes result" where
  "decrypt_content p content_key ciphertext nonce aad =
     (if length ciphertext < 16 then Inl (GroupError ContentTooShort)
      else bindR (of_option (GroupError ContentForged) (aead_open p content_key nonce aad ciphertext)) unpad_content)"

text \<open>\<open>text.find(pattern) != npos\<close>.\<close>

definition mentions :: "string \<Rightarrow> string \<Rightarrow> bool" where
  "mentions s pat \<longleftrightarrow> find_sub pat s \<noteq> None"

definition looks_like_group :: "string \<Rightarrow> bool" where
  "looks_like_group s =
     (if mentions s ''-----BEGIN RATCHET GROUP-----'' then True
      else if mentions s ''-----BEGIN RATCHET MESSAGE-----'' then False
      else mentions s ''BEGIN RATCHET GROUP'')"

definition group_id_hex :: "bytes \<Rightarrow> string" where
  "group_id_hex i = concat (map (\<lambda>b. [hex_digit (unat (drop_bit 4 b)), hex_digit (unat (b AND 0x0F))]) i)"

section \<open>Sending\<close>

record group_draws =
  gd_now :: u64  \<comment> \<open>the clock of \<open>parse\<close>\<close>
  gd_id :: bytes
  gd_key :: bytes
  gd_nonce :: bytes
  gd_sends :: "nat \<Rightarrow> send_draws"
  gd_ephemeral :: "nat \<Rightarrow> bytes"
  gd_wrap_nonce :: "nat \<Rightarrow> bytes"

fun check_recipients :: "nat \<Rightarrow> nat list \<Rightarrow> nat list \<Rightarrow> unit result" where
  "check_recipients n seen [] = Inr ()"
| "check_recipients n seen (i # is) =
     (if i \<ge> n then Inl (GroupError NoSuchRecipient)
      else if i \<in> set seen then Inl (GroupError RepeatedRecipient)
      else check_recipients n (i # seen) is)"

definition admit_group :: "nat list \<Rightarrow> bytes \<Rightarrow> vault_store \<Rightarrow> unit result" where
  "admit_group contact_indices plaintext v =
     (if length contact_indices < 2 then Inl (GroupError TooFewRecipients)
      else if length contact_indices > kMaxMembers then Inl (GroupError TooManyRecipients)
      else if length plaintext > kMaxPlaintextBytes then Inl (RatchetError PlaintextTooLong)
      else check_recipients (length (v_contacts v)) [] contact_indices)"

definition copy_vault :: "prims \<Rightarrow> u64 \<Rightarrow> vault_store \<Rightarrow> vault_store result" where
  "copy_vault p now v = bindR (serialize v) (store_parse p now)"

text \<open>The wrapper loop, over the working copy; \<open>k\<close> numbers the recipients.\<close>

fun wrap_all :: "prims \<Rightarrow> group_draws \<Rightarrow> bytes \<Rightarrow> bytes \<Rightarrow> bytes \<Rightarrow> nat \<Rightarrow> nat list \<Rightarrow> (vault_store, bytes list) mut" where
  "wrap_all p d my_sk my_ik payload k [] = returnM []"
| "wrap_all p d my_sk my_ik payload k (i # is) =
     bindM (send p (gd_sends d k) my_sk my_ik i payload) (\<lambda>inner.
     bindM (readM (\<lambda>v. seal_wrapper p (gd_ephemeral d k) (gd_wrap_nonce d k)
              (c_identity_pub (v_contacts v ! i)) inner)) (\<lambda>w.
     bindM (wrap_all p d my_sk my_ik payload (k + 1) is) (\<lambda>ws.
     returnM (w # ws))))"

definition group_body :: "bytes \<Rightarrow> bytes \<Rightarrow> bytes \<Rightarrow> bytes list \<Rightarrow> bytes \<Rightarrow> bytes \<Rightarrow> bytes result" where
  "group_body group_id my_ik nonce wrappers ciphertext signature = catR [
     put_bytes kGroupMagic, put_u8 kGroupVersion, put_bytes group_id, put_bytes my_ik, put_bytes nonce,
     put_counted put_blob wrappers, put_blob ciphertext, put_bytes signature]"

text \<open>The block around the wrappers: content, signature, armour.\<close>

definition seal_group :: "prims \<Rightarrow> group_draws \<Rightarrow> bytes \<Rightarrow> bytes \<Rightarrow> bytes list \<Rightarrow> bytes \<Rightarrow> string result" where
  "seal_group p d my_sk my_ik wrappers plaintext =
     bindR (content_aad p (gd_id d) my_ik wrappers) (\<lambda>aad.
     bindR (encrypt_content p (gd_key d) plaintext (gd_nonce d) aad) (\<lambda>ciphertext.
     bindR (sign p my_sk (transcript_digest p aad ciphertext (gd_nonce d))) (\<lambda>signature.
     bindR (group_body (gd_id d) my_ik (gd_nonce d) wrappers ciphertext signature) (\<lambda>body.
       if length body > kMaxGroupBlockBytes then Inl (GroupError GroupTooLong)
       else Inr (encode_block p ''GROUP'' body)))))"

definition group_send ::
  "prims \<Rightarrow> group_draws \<Rightarrow> bytes \<Rightarrow> bytes \<Rightarrow> nat list \<Rightarrow> bytes \<Rightarrow> (vault_store, string) mut" where
  "group_send p d my_sk my_ik contact_indices plaintext v =
     (case bindR (admit_group contact_indices plaintext v) (\<lambda>_.
           bindR (copy_vault p (gd_now d) v) (\<lambda>working.
           bindR (make_key_payload (gd_id d) (gd_key d)) (\<lambda>key_payload.
           bindR (on_local (wrap_all p d my_sk my_ik key_payload 0 contact_indices) working) (\<lambda>(working', wrappers).
           bindR (seal_group p d my_sk my_ik wrappers plaintext) (\<lambda>block.
           Inr (working', block)))))) of
        Inl e \<Rightarrow> (v, Inl e)
      | Inr (working', block) \<Rightarrow> (working', Inr block))"

section \<open>Receiving\<close>

record group_frame =
  gf_id :: bytes
  gf_sender :: bytes
  gf_nonce :: bytes
  gf_wrappers :: "bytes list"
  gf_ciphertext :: bytes
  gf_signature :: bytes

definition get_wrapper :: "bytes \<Rightarrow> (bytes \<times> bytes) result" where
  "get_wrapper zs = bindR (get_blob zs) (\<lambda>(w, zs).
     if length w > kMaxEnvelopeBytes then Inl (GroupError WrapperTooLong) else Inr (w, zs))"

definition get_group_frame :: "bytes \<Rightarrow> group_frame result" where
  "get_group_frame body =
     bindR (get_bytes 4 body) (\<lambda>(magic, zs).
       if magic \<noteq> kGroupMagic then Inl (GroupError GroupFormat) else
     bindR (get_u8 zs) (\<lambda>(version, zs).
       if version \<noteq> kGroupVersion then Inl (GroupError GroupVersion) else
     bindR (get_bytes 16 zs) (\<lambda>(group_id, zs).
     bindR (get_bytes 32 zs) (\<lambda>(sender, zs).
     bindR (get_bytes 12 zs) (\<lambda>(nonce, zs).
     bindR (get_u32 zs) (\<lambda>(count, zs).
       if count < 2 \<or> unat count > kMaxMembers then Inl (GroupError MemberCount) else
     bindR (get_many get_wrapper (unat count) zs) (\<lambda>(wrappers, zs).
     bindR (get_blob zs) (\<lambda>(ciphertext, zs).
     bindR (get_bytes 64 zs) (\<lambda>(signature, zs).
       if zs \<noteq> [] then Inl (GroupError GroupTrailing)
       else Inr \<lparr>gf_id = group_id, gf_sender = sender, gf_nonce = nonce, gf_wrappers = wrappers,
                 gf_ciphertext = ciphertext, gf_signature = signature\<rparr>)))))))))"

definition open_group :: "prims \<Rightarrow> string \<Rightarrow> group_frame result" where
  "open_group p block = bindR (decode_block p ''GROUP'' block kMaxGroupBlockBytes) get_group_frame"

text \<open>The claimed sender: known, verified, and the signer of the transcript.\<close>

definition check_group_sender :: "prims \<Rightarrow> vault_store \<Rightarrow> group_frame \<Rightarrow> (nat \<times> bytes) result" where
  "check_group_sender p v f =
     (case find_contact_by_identity v (gf_sender f) of
        None \<Rightarrow> Inl (GroupError GroupUnknownSender)
      | Some i \<Rightarrow>
          if \<not> c_verified (v_contacts v ! i) then Inl (GroupError GroupUnverified)
          else bindR (content_aad p (gf_id f) (gf_sender f) (gf_wrappers f)) (\<lambda>aad.
               if \<not> verify p (gf_sender f) (transcript_digest p aad (gf_ciphertext f) (gf_nonce f)) (gf_signature f)
               then Inl (GroupError GroupSignature) else Inr (i, aad)))"

text \<open>
  One wrapper, on its own copy of the vault: \<open>None\<close> if it is not ours. The key is the content key; the vault
  is the copy after the inner message.
\<close>

definition try_wrapper ::
  "prims \<Rightarrow> recv_draws \<Rightarrow> bytes \<Rightarrow> bytes \<Rightarrow> bytes \<Rightarrow> nat \<Rightarrow> vault_store \<Rightarrow> bytes
     \<Rightarrow> (vault_store \<times> receive_result \<times> bytes) option result" where
  "try_wrapper p d my_sk my_ik group_id sender_index working wrapper =
     (case unseal_wrapper p my_sk my_ik wrapper of
        Inl e \<Rightarrow> Inr None
      | Inr inner \<Rightarrow>
          bindR (copy_vault p (rd_now d) working) (\<lambda>attempt.
          case receive p d my_sk my_ik inner attempt of
            (attempt', Inl e) \<Rightarrow> Inr None
          | (attempt', Inr wrapped) \<Rightarrow>
              (case parse_key_payload (rr_plaintext wrapped) of
                 None \<Rightarrow> Inr None
               | Some (wrapped_group, content_key) \<Rightarrow>
                   if wrapped_group \<noteq> group_id then Inl (GroupError GroupHeaderMismatch)
                   else if rr_contact_index wrapped \<noteq> sender_index then Inl (GroupError GroupSenderMismatch)
                   else Inr (Some (attempt', wrapped, content_key)))))"

fun try_wrappers ::
  "prims \<Rightarrow> (nat \<Rightarrow> recv_draws) \<Rightarrow> bytes \<Rightarrow> bytes \<Rightarrow> bytes \<Rightarrow> nat \<Rightarrow> vault_store \<Rightarrow> nat \<Rightarrow> bytes list
     \<Rightarrow> (vault_store \<times> receive_result \<times> bytes) result" where
  "try_wrappers p ds my_sk my_ik group_id sender_index working k [] = Inl (GroupError NotAddressed)"
| "try_wrappers p ds my_sk my_ik group_id sender_index working k (w # ws) =
     bindR (try_wrapper p (ds k) my_sk my_ik group_id sender_index working w) (\<lambda>found.
       case found of
         None \<Rightarrow> try_wrappers p ds my_sk my_ik group_id sender_index working (k + 1) ws
       | Some x \<Rightarrow> Inr x)"

record group_result =
  gr_contact_index :: nat
  gr_alias :: string
  gr_group_id :: bytes
  gr_plaintext :: bytes

definition group_receive ::
  "prims \<Rightarrow> u64 \<Rightarrow> (nat \<Rightarrow> recv_draws) \<Rightarrow> bytes \<Rightarrow> bytes \<Rightarrow> string \<Rightarrow> (vault_store, group_result) mut" where
  "group_receive p now ds my_sk my_ik block v =
     (case bindR (open_group p block) (\<lambda>f.
           bindR (check_group_sender p v f) (\<lambda>(sender_index, aad).
           bindR (copy_vault p now v) (\<lambda>working.
           bindR (try_wrappers p ds my_sk my_ik (gf_id f) sender_index working 0 (gf_wrappers f))
             (\<lambda>(working', wrapped, content_key).
           bindR (decrypt_content p content_key (gf_ciphertext f) (gf_nonce f) aad) (\<lambda>plaintext.
           Inr (working', \<lparr>gr_contact_index = rr_contact_index wrapped, gr_alias = rr_alias wrapped,
                 gr_group_id = gf_id f, gr_plaintext = plaintext\<rparr>)))))) of
        Inl e \<Rightarrow> (v, Inl e)
      | Inr (working', r) \<Rightarrow> (working', Inr r))"

end
