(* ===== verification/Group_Props.thy ===== *)
theory Group_Props
  imports Group
begin

text \<open>
  Group messages are direct messages: on the vault a group message has the effect of the direct messages that
  carry its key, and every member gets the content.
\<close>

section \<open>Copies\<close>

lemma copy_vault_wf: "wf_store p v \<Longrightarrow> copy_vault p now v = Inr v"
  using serialize_ok store_parse_serialized by (fastforce simp: copy_vault_def)

section \<open>Sending is a sequence of direct messages\<close>

fun direct_sends :: "prims \<Rightarrow> (nat \<Rightarrow> send_draws) \<Rightarrow> bytes \<Rightarrow> bytes \<Rightarrow> bytes \<Rightarrow> nat \<Rightarrow> nat list \<Rightarrow> (vault_store, string list) mut" where
  "direct_sends p ds sk ik m k [] = returnM []"
| "direct_sends p ds sk ik m k (i # is) =
     bindM (send p (ds k) sk ik i m) (\<lambda>block.
     bindM (direct_sends p ds sk ik m (k + 1) is) (\<lambda>blocks. returnM (block # blocks)))"

lemma wrap_all_direct:
  "wrap_all p d sk ik m k is v = (v', Inr ws) \<Longrightarrow>
     \<exists>blocks. direct_sends p (gd_sends d) sk ik m k is v = (v', Inr blocks) \<and> length ws = length is \<and>
       length blocks = length is"
proof (induction "is" arbitrary: k v ws)
  case (Cons i "is")
  then obtain v1 inner w ws1 where s: "send p (gd_sends d k) sk ik i m v = (v1, Inr inner)"
    and r: "wrap_all p d sk ik m (k + 1) is v1 = (v', Inr ws1)" and ws: "ws = w # ws1"
    by (auto simp: bindM_eq_Inr)
  from Cons.IH [OF r] s ws show ?case
    by (auto simp: bindM_def)
qed simp

lemma group_send_Inr:
  assumes "group_send p d sk ik is m v = (v', Inr block)"
  obtains v0 key_payload ws where "admit_group is m v = Inr ()" and "copy_vault p (gd_now d) v = Inr v0"
    and "make_key_payload (gd_id d) (gd_key d) = Inr key_payload"
    and "wrap_all p d sk ik key_payload 0 is v0 = (v', Inr ws)" and "seal_group p d sk ik ws m = Inr block"
  using assms
  by (auto simp: group_send_def bindR_eq_Inr on_local_Inr split: sum.splits)

section \<open>Receiving is one direct message\<close>

lemma parse_key_payload_Some:
  assumes "parse_key_payload pl = Some (g, k)"
  shows "make_key_payload g k = Inr pl" and "length g = 16" and "length k = 32"
proof -
  have l: "length pl = 52" and m: "take 4 pl = kKeyMagic" and g: "g = take 16 (drop 4 pl)" "k = take 32 (drop 20 pl)"
    using assms by (auto simp: parse_key_payload_def kKeyPayloadBytes_def split: if_splits)
  show "length g = 16" "length k = 32"
    using l by (simp_all add: g)
  have "take 16 (drop 4 pl) @ drop 16 (drop 4 pl) = drop 4 pl"
    by (rule append_take_drop_id)
  then have "take 16 (drop 4 pl) @ drop 20 pl = drop 4 pl"
    by (simp del: append_take_drop_id)
  then have "pl = take 4 pl @ take 16 (drop 4 pl) @ drop 20 pl"
    by simp
  also have "drop 20 pl = take 32 (drop 20 pl)"
    using l by simp
  finally show "make_key_payload g k = Inr pl"
    using m by (simp add: make_key_payload_def put_bytes_def g)
qed

lemma try_wrapper_Some:
  assumes "wf_store p v" and "try_wrapper p d sk ik gid si v w = Inr (Some (v', wr, key))"
  shows "\<exists>inner. unseal_wrapper p sk ik w = Inr inner \<and> receive p d sk ik inner v = (v', Inr wr) \<and>
    parse_key_payload (rr_plaintext wr) = Some (gid, key) \<and> rr_contact_index wr = si"
  using assms(2)
  by (auto simp: try_wrapper_def copy_vault_wf [OF assms(1)] split: sum.splits prod.splits option.splits if_splits)

lemma try_wrappers_Inr:
  assumes "wf_store p v"
  shows "try_wrappers p ds sk ik gid si v k ws = Inr (v', wr, key) \<Longrightarrow>
    \<exists>j w inner. w \<in> set ws \<and> unseal_wrapper p sk ik w = Inr inner \<and> receive p (ds j) sk ik inner v = (v', Inr wr) \<and>
      parse_key_payload (rr_plaintext wr) = Some (gid, key) \<and> rr_contact_index wr = si"
proof (induction ws arbitrary: k)
  case (Cons w ws)
  from Cons.prems obtain found where f: "try_wrapper p (ds k) sk ik gid si v w = Inr found"
    and n: "(case found of None \<Rightarrow> try_wrappers p ds sk ik gid si v (k + 1) ws | Some x \<Rightarrow> Inr x) = Inr (v', wr, key)"
    by (auto simp: bindR_eq_Inr)
  show ?case
  proof (cases found)
    case None
    with n Cons.IH [of "k + 1"] show ?thesis
      by auto
  next
    case (Some x)
    with n f have "try_wrapper p (ds k) sk ik gid si v w = Inr (Some (v', wr, key))"
      by simp
    from try_wrapper_Some [OF assms this] show ?thesis
      by auto
  qed
qed simp

lemma check_group_sender_Inr:
  assumes "check_group_sender p v f = Inr (i, aad)"
  shows "find_contact_by_identity v (gf_sender f) = Some i" and "c_verified (v_contacts v ! i)"
    and "content_aad p (gf_id f) (gf_sender f) (gf_wrappers f) = Inr aad"
    and "verify p (gf_sender f) (transcript_digest p aad (gf_ciphertext f) (gf_nonce f)) (gf_signature f)"
  using assms by (auto simp: check_group_sender_def bindR_eq_Inr split: option.splits if_splits)

text \<open>The abstract effect of a received group message: one direct receipt, and content its sender signed.\<close>

definition one_direct_message ::
  "prims \<Rightarrow> (nat \<Rightarrow> recv_draws) \<Rightarrow> bytes \<Rightarrow> bytes \<Rightarrow> group_frame \<Rightarrow> vault_store \<Rightarrow> vault_store \<Rightarrow> group_result \<Rightarrow> bool" where
  "one_direct_message p ds sk ik f v v' r \<longleftrightarrow>
     find_contact_by_identity v (gf_sender f) = Some (gr_contact_index r) \<and>
     c_verified (v_contacts v ! gr_contact_index r) \<and> gr_group_id r = gf_id f \<and>
     (\<exists>j w inner wr key aad. w \<in> set (gf_wrappers f) \<and> unseal_wrapper p sk ik w = Inr inner \<and>
        receive p (ds j) sk ik inner v = (v', Inr wr) \<and> rr_contact_index wr = gr_contact_index r \<and>
        make_key_payload (gf_id f) key = Inr (rr_plaintext wr) \<and>
        content_aad p (gf_id f) (gf_sender f) (gf_wrappers f) = Inr aad \<and>
        verify p (gf_sender f) (transcript_digest p aad (gf_ciphertext f) (gf_nonce f)) (gf_signature f) \<and>
        decrypt_content p key (gf_ciphertext f) (gf_nonce f) aad = Inr (gr_plaintext r))"

lemma group_receive_direct:
  assumes "wf_store p v" and "group_receive p now ds sk ik block v = (v', Inr r)"
  obtains f where "open_group p block = Inr f" and "one_direct_message p ds sk ik f v v' r"
proof -
  from assms(2) obtain f i aad wr key where f: "open_group p block = Inr f"
    and c: "check_group_sender p v f = Inr (i, aad)"
    and t: "try_wrappers p ds sk ik (gf_id f) i v 0 (gf_wrappers f) = Inr (v', wr, key)"
    and d: "decrypt_content p key (gf_ciphertext f) (gf_nonce f) aad = Inr (gr_plaintext r)"
    and r: "gr_contact_index r = rr_contact_index wr" "gr_group_id r = gf_id f"
    by (auto simp: group_receive_def bindR_eq_Inr copy_vault_wf [OF assms(1)] split: sum.splits)
  from try_wrappers_Inr [OF assms(1) t] obtain j w inner where w: "w \<in> set (gf_wrappers f)"
      "unseal_wrapper p sk ik w = Inr inner" "receive p (ds j) sk ik inner v = (v', Inr wr)"
      "parse_key_payload (rr_plaintext wr) = Some (gf_id f, key)" "rr_contact_index wr = i"
    by blast
  note k = parse_key_payload_Some(1) [OF w(4)]
  have "one_direct_message p ds sk ik f v v' r"
    unfolding one_direct_message_def
    using check_group_sender_Inr [OF c] w(1-3) d r(2) k r(1) [unfolded w(5)] w(5) by (simp only:) blast
  with f show thesis
    by (rule that)
qed

section \<open>Round trips of the parts\<close>

lemma unpad_content_padding: "unpad_content (xs @ [0x80] @ replicate k 0) = Inr xs"
proof -
  have last: "(xs @ [0x80] @ replicate k 0) ! (length (xs @ [0x80] @ replicate k 0) - 1) \<in> {0, 0x80 :: byte}"
    by (cases k) (auto simp: nth_append nth_Cons')
  show ?thesis
    using last skip_zeros_padding [of xs k]
    by (auto simp: unpad_content_def Let_def nth_append)
qed

lemma content_roundtrip:
  assumes "aead_law p" and "length k = 32" and "length nonce = 12" and "length m \<le> kMaxPlaintextBytes"
  obtains ct where "encrypt_content p k m nonce aad = Inr ct" and "decrypt_content p k ct nonce aad = Inr m"
    and "length ct \<le> 4195344"
proof -
  have "length m \<le> 4194304"
    using assms(4) by (simp add: kMaxPlaintextBytes_def)
  then obtain t where t: "padded_payload_size (length m) = Inr t"
    using padded_payload_size_ok by blast
  note b = padded_payload_size_Inr [OF t]
  let ?padded = "m @ [0x80] @ replicate (t - (length m + 1)) 0"
  have l: "length ?padded = t"
    using b(1) by simp
  then have "length ?padded < 4294967296"
    using b(2) by simp
  from aead_roundtrip [OF assms(1-3) this, of aad] obtain c where
    c: "aead_seal p k nonce aad ?padded = Some c" "length c = length ?padded + 16" "aead_open p k nonce aad c = Some ?padded" .
  show thesis
  proof (rule that)
    show "encrypt_content p k m nonce aad = Inr c"
      using t c(1) by (simp add: encrypt_content_def)
    show "decrypt_content p k c nonce aad = Inr m"
      using c(2,3) unpad_content_padding [of m] by (simp add: decrypt_content_def)
    show "length c \<le> 4195344"
      using c(2) l b(2) by simp
  qed
qed

lemma wrapper_roundtrip:
  assumes laws: "message_laws p" and B: "ed_pair p pk sk" and n: "length nonce = 12" and l: "length inner < 4000000000"
  obtains w where "seal_wrapper p rnd nonce pk inner = Inr w" and "unseal_wrapper p sk pk w = Inr inner"
    and "length w = length inner + 64"
proof -
  have L: "hmac_law p" "aead_law p" "x25519_law p" "ed25519_law p"
    using laws by (simp_all add: message_laws_def crypto_laws_def)
  obtain x y where xy: "identity_dh_keypair p sk pk = Inr (x, y)" "identity_dh_public p pk = Inr y" "x_pair p y x"
    using identity_pair [OF L(4) B] by blast
  obtain epk esk where e: "generate_keypair p rnd = Inr (epk, esk)" "x_pair p epk esk"
    by (rule generate_keypair_ok [OF L(3)])
  obtain z where z: "x25519_dh p esk y = Inr z" "x25519_dh p x epk = Inr z"
    using dh_pair [OF L(3) e(2) xy(3)] by blast
  obtain k where k: "derive_wrapper_key p z = Inr k"
    using hkdf_expand_ok [of 32 p] by (simp add: derive_wrapper_key_def) blast
  have "length k = 32"
    using hkdf_expand_length [OF L(1)] k unfolding derive_wrapper_key_def by blast
  moreover have "length (bytes_of_string inner) < 4294967296"
    using l by simp
  ultimately obtain c where c: "aead_seal p k nonce [] (bytes_of_string inner) = Some c"
      "length c = length (bytes_of_string inner) + 16" "aead_open p k nonce [] c = Some (bytes_of_string inner)"
    by (rule aead_roundtrip [OF L(2) _ n])
  have cl: "\<not> length c > 4294967295"
    using c(2) l by simp
  define w where "w = epk @ nonce @ le32 (word_of_nat (length c)) @ c"
  have "put_blob c = Inr (le32 (word_of_nat (length c)) @ c)"
    using cl by (simp add: put_blob_def)
  then have s: "seal_wrapper p rnd nonce pk inner = Inr w"
    using xy(2) e(1) z(1) k c(1) by (simp add: seal_wrapper_def put_bytes_def w_def)
  have epk: "length epk = 32"
    using x_pair_length [OF L(3) e(2)] by simp
  have "get_blob (le32 (word_of_nat (length c)) @ c) = Inr (c, [])"
    using blob.get_end [of c] cl by (simp add: put_blob_def wf_blob_def)
  then have "get_wrapper_fields w = Inr (epk, nonce, c)"
    using epk n c(2) by (simp add: get_wrapper_fields_def w_def)
  then have "unseal_wrapper p sk pk w = Inr inner"
    using xy(1) z(2) k c(3) by (simp add: unseal_wrapper_def)
  with s show thesis
    by (rule that) (use epk n c(2) in \<open>simp add: w_def\<close>)
qed

lemma key_payload_roundtrip:
  assumes "length gid = 16" and "length key = 32"
  obtains pl where "make_key_payload gid key = Inr pl" and "parse_key_payload pl = Some (gid, key)" and "length pl = 52"
proof -
  have m: "length kKeyMagic = 4"
    by (simp add: kKeyMagic_def)
  show thesis
    by (rule that [of "kKeyMagic @ gid @ key"])
      (use assms m in \<open>simp_all add: make_key_payload_def put_bytes_def parse_key_payload_def kKeyPayloadBytes_def\<close>)
qed

section \<open>The block\<close>

interpretation group_wrapper: codec put_blob get_wrapper "\<lambda>w. length w \<le> kMaxEnvelopeBytes"
proof
  show "\<exists>bs. put_blob w = Inr bs" if "length w \<le> kMaxEnvelopeBytes" for w
    using that by (simp add: put_blob_def kMaxEnvelopeBytes_def)
  show "get_wrapper (bs @ ys) = Inr (w, ys)" if "length w \<le> kMaxEnvelopeBytes" "put_blob w = Inr bs" for w bs ys
    using that blob.get_put [of w bs ys] by (simp add: get_wrapper_def wf_blob_def kMaxEnvelopeBytes_def)
qed

lemma group_frame_roundtrip:
  assumes "length gid = 16" and "length ik = 32" and "length nonce = 12" and "length sig = 64" and "wf_blob ct"
    and "2 \<le> length ws" and "length ws \<le> 64" and "list_all (\<lambda>w. length w \<le> kMaxEnvelopeBytes) ws"
  obtains body where "group_body gid ik nonce ws ct sig = Inr body"
    and "get_group_frame body = Inr \<lparr>gf_id = gid, gf_sender = ik, gf_nonce = nonce, gf_wrappers = ws,
      gf_ciphertext = ct, gf_signature = sig\<rparr>"
    and "length body \<le> 200 + sum_list (map (\<lambda>w. length w + 4) ws) + length ct"
proof -
  obtain wb where wb: "catR (map put_blob ws) = Inr wb"
    using group_wrapper.put_many_ok [OF assms(8)] by blast
  obtain cb where cb: "put_blob ct = Inr cb"
    using blob.put_ok [OF assms(5)] by blast
  let ?n = "word_of_nat (length ws) :: u32"
  let ?body = "kGroupMagic @ kGroupVersion # gid @ ik @ nonce @ le32 ?n @ wb @ cb @ sig"
  have n: "unat ?n = length ws"
    using assms(7) by (simp add: unat_of_nat)
  have "\<not> ?n < 2"
    using n assms(6) by (simp add: word_less_nat_alt)
  have m: "length kGroupMagic = 4"
    by (simp add: kGroupMagic_def)
  have "group_body gid ik nonce ws ct sig = Inr ?body"
    using wb cb by (simp add: group_body_def put_bytes_def put_u8_def put_counted_def put_u32_def)
  moreover have "get_group_frame ?body = Inr \<lparr>gf_id = gid, gf_sender = ik, gf_nonce = nonce, gf_wrappers = ws,
      gf_ciphertext = ct, gf_signature = sig\<rparr>"
    using m assms(1-4,7) n \<open>\<not> ?n < 2\<close> group_wrapper.get_put_many [OF assms(8) wb, of "cb @ sig"]
      blob.get_put [OF assms(5) cb, of sig] get_bytes_append [of sig 64 "[]"]
    by (simp add: get_group_frame_def kMaxMembers_def)
  moreover have "length wb = sum_list (map (\<lambda>w. length w + 4) ws)"
    using wb by (induction ws arbitrary: wb) (auto simp: bindR_eq_Inr put_blob_def split: if_splits)
  moreover have "length cb = length ct + 4"
    using cb by (auto simp: put_blob_def split: if_splits)
  ultimately show thesis
    using m assms(1-4) by (intro that [of ?body]) simp_all
qed

end
