(* ===== verification/Later_Message.thy ===== *)
theory Later_Message
  imports First_Message
begin

text \<open>
  A message of a session that two vaults already share: the ratchet is anywhere in a conversation, the SPQR
  states are in step, and the block the sender makes opens at the receiver. With \<open>First_Message\<close> this covers
  both branches of \<open>send\<close> and of \<open>receive\<close>.
\<close>

section \<open>Sessions in step\<close>

text \<open>What SPQR promises of two states in step: the key of the next message is the one its receiver gets.\<close>

definition spqr_in_step :: "prims \<Rightarrow> bytes \<Rightarrow> bytes \<Rightarrow> bool" where
  "spqr_in_step p a b \<longleftrightarrow> (\<forall>rnd. \<exists>step b'. spqr_send p a rnd = Inr step \<and>
     spqr_receive p b (sent_message step) = Inr (b', sent_key step) \<and>
     sent_message step \<noteq> [] \<and> length (sent_message step) \<le> 1048576)"

text \<open>
  The two ends of one session: some conversation leads to them, and what is skipped and still to be skipped stays
  within the limit. The ratchet neither reads nor writes the contact, the suite, the status, the id and the SPQR
  state of a session, so the conversation can be taken with those the sessions have now.
\<close>

definition sessions_in_step :: "prims \<Rightarrow> session \<Rightarrow> session \<Rightarrow> bool" where
  "sessions_in_step p a b \<longleftrightarrow> s_suite a = s_suite b \<and> s_suite a \<noteq> ClassicV2 \<and>
     (uses_triple_ratchet (s_suite a) \<longrightarrow> spqr_in_step p (s_spqr_state a) (s_spqr_state b)) \<and>
     (\<exists>secret N x. conv p secret N \<and> n_sess N x = a \<and> n_sess N (peer x) = b) \<and>
     unat (s_ns a) < 4294967295 \<and> length (s_skipped b) + unat (s_pn a) + unat (s_ns a) \<le> 1000"

text \<open>The sender can write in the session they have with the contact, which is verified and still has its card.\<close>

definition can_write :: "vault_store \<Rightarrow> nat \<Rightarrow> bytes \<Rightarrow> session \<Rightarrow> bool" where
  "can_write v ci pkB a \<longleftrightarrow> ci < length (v_contacts v) \<and>
     (let c = v_contacts v ! ci in c_verified c \<and> c_identity_pub c = pkB \<and>
        (\<exists>cd. c_card c = Some cd \<and> pc_pq_bundle cd \<noteq> None) \<and> suite_at_least (s_suite a) (c_minimum_suite c)) \<and>
     (\<exists>i. find_session v ci = Some i \<and> v_sessions v ! i = a) \<and>
     s_has_dhs a \<and> s_has_cks a \<and> \<not> s_legacy_read_only a \<and> s_status a \<noteq> Closed"

text \<open>The receiver has verified the sender, is the first to match their sender id, and holds the other end.\<close>

definition can_read :: "prims \<Rightarrow> vault_store \<Rightarrow> nat \<Rightarrow> bytes \<Rightarrow> session \<Rightarrow> bool" where
  "can_read p v cj pkA b \<longleftrightarrow> find_contact_by_identity v pkA = Some cj \<and> c_verified (v_contacts v ! cj) \<and>
     find_index (\<lambda>c. sender_id_for p (c_identity_pub c) = sender_id_for p pkA) (v_contacts v) = Some cj \<and>
     suite_at_least (s_suite b) (c_minimum_suite (v_contacts v ! cj)) \<and>
     (\<exists>j. find_session v cj = Some j \<and> v_sessions v ! j = b)"

section \<open>The body\<close>

lemma plain_envelope_wf:
  assumes "sha256_law p" and "su \<noteq> ClassicV2" and "length (h_dh_pub h) = 32"
    and "length ct \<le> 4195356" and "uses_triple_ratchet su \<longleftrightarrow> msg \<noteq> []" and "length msg \<le> 1048576"
  shows "wf_envelope ((blank_envelope p ik su None)\<lparr>env_spqr_message := msg, env_header := h, env_ciphertext := ct\<rparr>)"
  using assms
  by (cases su) (auto simp: wf_envelope_def blank_envelope_def wf_header_def uses_triple_ratchet_def
      sender_id_for_def sha256_length)

lemma later_ratchet_message:
  assumes laws: "hmac_law p" "aead_law p" "x25519_law p" and st: "sessions_in_step p a b" and cks: "s_has_cks a"
    and l: "length nonce = 12" "length m \<le> kMaxPlaintextBytes"
  obtains s' h ct where "ratchet_encrypt p nonce m aad pqk a = (s', Inr (h, ct))"
    and "length ct \<le> min 4195356 (2 * length m + 1180)" and "length (h_dh_pub h) = 32"
    and "\<And>clk rnd. \<exists>sB. ratchet_decrypt p clk rnd h ct aad pqk b = (sB, Inr m)"
proof -
  obtain secret N x where N: "conv p secret N" "n_sess N x = a" "n_sess N (peer x) = b"
    and n: "unat (s_ns a) < 4294967295" and room: "length (s_skipped b) + unat (s_pn a) + unat (s_ns a) \<le> 1000"
    using st unfolding sessions_in_step_def by blast
  have inv: "conv_inv p N"
    by (rule conv_invariant [OF laws N(1)])
  then have "x_pair p (s_dhs_pub (n_sess N x)) (s_dhs_sk (n_sess N x))"
    using peer_cases [of x] unfolding conv_inv_def pair_inv_def base_inv_def by metis
  then have dh: "length (s_dhs_pub a) = 32"
    using x_pair_length [OF laws(3)] N(2) by simp
  obtain s' h ct where e: "ratchet_encrypt p nonce m aad pqk a = (s', Inr (h, ct))"
      "length ct \<le> min 4195356 (2 * length m + 1180)"
    by (rule ratchet_encrypt_succeeds [OF laws(1,2) cks l])
  have "length (h_dh_pub h) = 32"
    using ratchet_encrypt_Inr(3) [OF laws(1,2) l e(1)] dh by simp
  moreover have "\<exists>sB. ratchet_decrypt p clk rnd h ct aad pqk b = (sB, Inr m)" for clk rnd
    using next_message_read [OF laws inv l, of x aad pqk s' h ct clk rnd] n room e(1) N(2,3) by simp
  ultimately show thesis
    by (rule that [OF e])
qed

lemma later_body:
  assumes laws: "hmac_law p" "aead_law p" "x25519_law p" "sha256_law p" and st: "sessions_in_step p a b"
    and cks: "s_has_cks a" and l: "length nonce = 12" "length m \<le> kMaxPlaintextBytes"
  obtains env s2 where "encrypt_into p rnd nonce (s_suite a) m (blank_envelope p ik (s_suite a) None) a = Inr (env, s2)"
    and "wf_envelope env" and "length (env_ciphertext env) \<le> min 4195356 (2 * length m + 1180)"
    and "env_initial env = None" and "env_suite env = s_suite a" and "env_sender_id env = sender_id_for p ik"
    and "\<And>d. \<exists>s'. decrypt_from p d env b = Inr (s', m)"
proof -
  let ?su = "s_suite a" and ?e = "blank_envelope p ik (s_suite a) None"
  have su: "?su \<noteq> ClassicV2"
    using st unfolding sessions_in_step_def by blast
  define tri where "tri \<longleftrightarrow> uses_triple_ratchet ?su"
  obtain msg pqk a' b' where pq: "tri \<longleftrightarrow> msg \<noteq> []" "length msg \<le> 1048576" "pqk = None \<longleftrightarrow> \<not> tri"
    and step: "tri \<Longrightarrow> spqr_send p (s_spqr_state a) rnd = Inr \<lparr>sent_state = a', sent_message = msg, sent_key = the pqk\<rparr>"
      "tri \<Longrightarrow> spqr_receive p (s_spqr_state b) msg = Inr (b', the pqk)"
  proof (cases tri)
    case True
    with st have "spqr_in_step p (s_spqr_state a) (s_spqr_state b)"
      by (simp add: sessions_in_step_def tri_def)
    then obtain q b' where "spqr_send p (s_spqr_state a) rnd = Inr q" "sent_message q \<noteq> []" "length (sent_message q) \<le> 1048576"
        "spqr_receive p (s_spqr_state b) (sent_message q) = Inr (b', sent_key q)"
      unfolding spqr_in_step_def by blast
    with True show thesis
      by (intro that [of "sent_message q" "Some (sent_key q)" "sent_state q" b']) simp_all
  qed (rule that [of "[]" None], simp_all)
  let ?e1 = "?e\<lparr>env_spqr_message := msg\<rparr>"
  have wf: "wf_envelope (?e1\<lparr>env_header := h, env_ciphertext := ct\<rparr>)"
    if "length (h_dh_pub h) = 32" and "length ct \<le> min 4195356 (2 * length m + 1180)" for h ct
    using plain_envelope_wf [OF laws(4) su that(1) _ _ pq(2), of ct ik] that(2) pq(1) by (simp add: tri_def)
  have "wf_envelope (?e1\<lparr>env_header := \<lparr>h_dh_pub = replicate 32 0, h_pn = 0, h_n = 0\<rparr>, env_ciphertext := []\<rparr>)"
    by (rule wf) simp_all
  then obtain aad where aad: "envelope_aad_prefix ?e1 = Inr aad"
    by (rule envelope_aad_ok)
  obtain s' h ct where enc: "ratchet_encrypt p nonce m aad pqk a = (s', Inr (h, ct))"
    and ct: "length ct \<le> min 4195356 (2 * length m + 1180)" "length (h_dh_pub h) = 32"
    and dec: "\<And>clk rnd. \<exists>sB. ratchet_decrypt p clk rnd h ct aad pqk b = (sB, Inr m)"
    by (rule later_ratchet_message [OF laws(1-3) st cks l, of aad pqk]) blast
  let ?env = "?e1\<lparr>env_header := h, env_ciphertext := ct\<rparr>"
  have same: "?e1 = ?e" if "\<not> tri"
    using that pq(1) by (simp add: blank_envelope_def)
  have "\<exists>s2. encrypt_into p rnd nonce ?su m ?e a = Inr (?env, s2)"
  proof (cases tri)
    case True
    with pq(3) obtain k where k: "pqk = Some k"
      by auto
    from True step(1) aad enc show ?thesis
      by (simp add: encrypt_into_def k Let_def tri_def)
  next
    case False
    with aad enc pq(3) show ?thesis
      unfolding same [OF False] by (simp add: encrypt_into_def tri_def)
  qed
  moreover have "\<exists>s'. decrypt_from p d ?env b = Inr (s', m)" for d
  proof -
    obtain sB where sB: "ratchet_decrypt p (rd_clock d) (rd_keypair d) h ct aad pqk b = (sB, Inr m)"
      using dec by blast
    show ?thesis
    proof (cases tri)
      case True
      with pq(3) obtain k where k: "pqk = Some k"
        by auto
      from True step(2) aad sB show ?thesis
        by (simp add: decrypt_from_def k tri_def)
    next
      case False
      with aad sB pq(3) show ?thesis
        by (simp add: decrypt_from_def tri_def)
    qed
  qed
  ultimately show thesis
    using wf [OF ct(2,1)] ct(1) by (auto intro!: that [of ?env] simp: blank_envelope_def)
qed

section \<open>From one vault to the other\<close>

lemma send_later:
  assumes w: "can_write v ci pkB a" and su: "s_suite a \<noteq> ClassicV2" and m: "length m \<le> kMaxPlaintextBytes"
    and e: "encrypt_into p (sd_spqr d) (sd_nonce d) (s_suite a) m (blank_envelope p ik (s_suite a) None) a = Inr (env, s2)"
    and b: "message_encode p env = Inr block"
  shows "\<exists>v'. send p d sk ik ci m v = (v', Inr block)"
proof -
  let ?c = "v_contacts v ! ci"
  obtain i where i: "find_session v ci = Some i" "v_sessions v ! i = a"
    using w by (auto simp: can_write_def)
  have "s_contact_index a = ci"
    using i unfolding find_session_def by (auto dest: find_index_Some)
  then have "local_session v ci = a"
    using i by (simp add: local_session_def)
  moreover have "selected_suite v ci cd = s_suite a" for cd
    using i w by (simp add: selected_suite_def can_write_def)
  moreover have "s_suite a = HybridPqxdhV1 \<or> uses_triple_ratchet (s_suite a)"
    using su by (cases "s_suite a") (simp_all add: uses_triple_ratchet_def)
  ultimately have "admit_send v ci m = Inr (?c, s_suite a, a)"
    using w m by (auto simp: admit_send_def can_write_def Let_def)
  moreover have "open_session p (sd_handshake d) sk ik (s_suite a) ?c a = Inr (?c, a, None)"
    using w by (simp add: open_session_def can_write_def)
  ultimately show ?thesis
    using e b by (simp add: send_def bindM_def)
qed

lemma receive_later:
  assumes r: "can_read p v cj pkA b" and env: "env_sender_id env = sender_id_for p pkA" "env_suite env = s_suite b"
      "env_initial env = None" "message_decode p block = Inr env"
    and d: "decrypt_from p d env b = Inr (s', m)"
  shows "\<exists>v' r. receive p d sk ik block v = (v', Inr r) \<and> rr_plaintext r = m \<and> rr_contact_index r = cj"
proof -
  obtain j where j: "find_session v cj = Some j" "v_sessions v ! j = b"
    using r by (auto simp: can_read_def)
  have "\<exists>v'. advance_session p d env j v = (v', Inr m)"
  proof (cases "uses_triple_ratchet (env_suite env)")
    case True
    with d j show ?thesis
      by (simp add: advance_session_def)
  next
    case False
    with d obtain aad where "envelope_aad_prefix env = Inr aad"
        "ratchet_decrypt p (rd_clock d) (rd_keypair d) (env_header env) (env_ciphertext env) aad None b = (s', Inr m)"
      by (auto simp: decrypt_from_def bindR_eq_Inr on_local_Inr)
    with False j show ?thesis
      by (simp add: advance_session_def)
  qed
  then obtain v' where a: "advance_session p d env j v = (v', Inr m)" ..
  have "receive_established p d env v = (v', Inr \<lparr>rr_contact_index = cj, rr_alias = c_alias (v_contacts v ! cj),
      rr_plaintext = m, rr_session_established = False\<rparr>)"
    using r j env a by (simp add: receive_established_def can_read_def bindM_def returnM_def)
  with env show ?thesis
    by (simp add: receive_def bindM_def)
qed

lemma later_message:
  assumes laws: "message_laws p" and w: "can_write vA ci pkB a" and r: "can_read p vB cj pkA b"
    and st: "sessions_in_step p a b" and l: "length (sd_nonce d) = 12" "length m \<le> kMaxPlaintextBytes"
  obtains vA' block where "send p d skA pkA ci m vA = (vA', Inr block)" and "length block \<le> 4 * length m + 2107384"
    and "\<And>rd. \<exists>vB' r. receive p rd skB pkB' block vB = (vB', Inr r) \<and> rr_plaintext r = m \<and> rr_contact_index r = cj"
proof -
  have L: "hmac_law p" "aead_law p" "x25519_law p" "sha256_law p" "b64_law p"
    using laws by (simp_all add: message_laws_def crypto_laws_def)
  have cks: "s_has_cks a"
    using w by (simp add: can_write_def)
  have su: "s_suite a = s_suite b" "s_suite a \<noteq> ClassicV2"
    using st unfolding sessions_in_step_def by blast+
  obtain env s2 where en: "encrypt_into p (sd_spqr d) (sd_nonce d) (s_suite a) m (blank_envelope p pkA (s_suite a) None) a = Inr (env, s2)"
    and env: "wf_envelope env" "length (env_ciphertext env) \<le> min 4195356 (2 * length m + 1180)"
      "env_initial env = None" "env_suite env = s_suite a" "env_sender_id env = sender_id_for p pkA"
    and dec: "\<And>d. \<exists>s'. decrypt_from p d env b = Inr (s', m)"
    by (rule later_body [OF L(1-4) st cks l, of "sd_spqr d" pkA]) blast
  obtain block where bl: "message_encode p env = Inr block"
    using envelope.put_ok [OF env(1)] by (auto simp: message_encode_def)
  have dcd: "message_decode p block = Inr env"
    by (rule message_decode_encoded [OF L(5) env(1) _ bl]) (use env(2) in simp)
  obtain body where body: "put_envelope env = Inr body" "block = encode_block p ''MESSAGE'' body"
    using bl by (auto simp: message_encode_def bindR_eq_Inr)
  have size: "length block \<le> 4 * length m + 2107384"
    using length_put_envelope [OF env(1) body(1)] length_encode_block [OF L(5), of "''MESSAGE''" body] env(2)
    by (simp add: body(2))
  obtain vA' where "send p d skA pkA ci m vA = (vA', Inr block)"
    using send_later [OF w su(2) l(2) en bl] by blast
  moreover have "\<exists>vB' r. receive p rd skB pkB' block vB = (vB', Inr r) \<and> rr_plaintext r = m \<and> rr_contact_index r = cj" for rd
    using dec [of rd] receive_later [OF r env(5) _ env(3) dcd] env(4) su(1) by auto
  ultimately show thesis
    using size by (intro that)
qed

text \<open>Writing to one contact leaves what there is with the others as it is.\<close>

lemma find_index_kept:
  "find_index P xs = Some i \<Longrightarrow> \<not> P (xs ! k) \<Longrightarrow> \<not> P y \<Longrightarrow> find_index P (xs[k := y]) = Some i \<and> xs[k := y] ! i = xs ! i"
proof (induction xs arbitrary: i k)
  case (Cons x xs)
  then show ?case
    by (cases k) (auto split: if_splits)
qed simp

lemma find_index_append_Some: "find_index P xs = Some i \<Longrightarrow> find_index P (xs @ ys) = Some i \<and> (xs @ ys) ! i = xs ! i"
  by (induction xs arbitrary: i) (auto split: if_splits)

lemma send_keeps_sessions:
  assumes "send p d sk ik ci m v = (v', Inr block)" and "j \<noteq> ci" and w: "can_write v j pk a"
  shows "can_write v' j pk a"
proof -
  obtain c' s where v': "v' = (install_session ci s v)\<lparr>v_contacts := (v_contacts v)[ci := c']\<rparr>"
    and s: "s_contact_index s = ci"
    by (rule send_effect [OF assms(1)])
  obtain i where i: "find_session v j = Some i" "v_sessions v ! i = a"
    using w by (auto simp: can_write_def)
  have "find_session v' j = Some i \<and> v_sessions v' ! i = a"
  proof (cases "find_session v ci")
    case None
    with i show ?thesis
      using find_index_append_Some [of "\<lambda>s. s_contact_index s = j" "v_sessions v" i "[s]"]
      by (simp add: v' install_session_def find_session_def)
  next
    case (Some k)
    then have "s_contact_index (v_sessions v ! k) = ci"
      unfolding find_session_def by (auto dest: find_index_Some)
    with Some i s assms(2) show ?thesis
      using find_index_kept [of "\<lambda>s. s_contact_index s = j" "v_sessions v" i k s]
      by (simp add: v' install_session_def find_session_def)
  qed
  with w assms(2) show ?thesis
    by (auto simp: can_write_def v')
qed

end
