(* ===== verification/Group_Delivery.thy ===== *)
theory Group_Delivery
  imports Group_Props Later_Message
begin

text \<open>
  The whole path of a group message, from the sender's vault to each member's: every member recovers the content
  from the wrapper made for them. The two properties of group messages stand at the end.
\<close>

section \<open>Members\<close>

text \<open>A member as the sender knows it (an index) and as it is at home (keys, vault, the sender's index there).\<close>

record member =
  m_index :: nat
  m_pk :: bytes
  m_sk :: bytes
  m_card :: peer_card
  m_vault :: vault_store
  m_contact :: nat

text \<open>
  The two ways a member can be reached: first contact, where the sender holds a card the member's keys stand behind
  and neither has a session, or the session both already have, wherever its conversation is.
\<close>

definition first_contact :: "prims \<Rightarrow> vault_store \<Rightarrow> bytes \<Rightarrow> member \<Rightarrow> bool" where
  "first_contact p v pkA b \<longleftrightarrow> can_open v (m_index b) (m_pk b) (m_card b) \<and>
     can_accept p (m_vault b) (m_contact b) pkA (m_pk b) (m_card b)"

definition in_session :: "prims \<Rightarrow> vault_store \<Rightarrow> bytes \<Rightarrow> member \<Rightarrow> bool" where
  "in_session p v pkA b \<longleftrightarrow> (\<exists>mine theirs. can_write v (m_index b) (m_pk b) mine \<and>
     can_read p (m_vault b) (m_contact b) pkA theirs \<and> sessions_in_step p mine theirs)"

definition member_ok :: "prims \<Rightarrow> vault_store \<Rightarrow> bytes \<Rightarrow> member \<Rightarrow> bool" where
  "member_ok p v pkA b \<longleftrightarrow> ed_pair p (m_pk b) (m_sk b) \<and> wf_store p (m_vault b) \<and>
     (first_contact p v pkA b \<or> in_session p v pkA b)"

lemmas member_defs = member_ok_def first_contact_def in_session_def can_open_def can_accept_def can_write_def can_read_def

lemma member_facts:
  assumes "member_ok p v pkA b"
  shows "ed_pair p (m_pk b) (m_sk b)" and "wf_store p (m_vault b)" and "m_index b < length (v_contacts v)"
    and "c_identity_pub (v_contacts v ! m_index b) = m_pk b"
    and "find_contact_by_identity (m_vault b) pkA = Some (m_contact b)"
    and "c_verified (v_contacts (m_vault b) ! m_contact b)"
  using assms by (auto simp: member_defs Let_def)

text \<open>The random draws of one group message, as their generators make them.\<close>

definition draws_ok :: "group_draws \<Rightarrow> bool" where
  "draws_ok d \<longleftrightarrow> length (gd_id d) = 16 \<and> length (gd_key d) = 32 \<and> length (gd_nonce d) = 12 \<and>
     (\<forall>k. uniform_law (sd_handshake (gd_sends d k)) \<and> length (sd_nonce (gd_sends d k)) = 12 \<and>
          length (gd_wrap_nonce d k) = 12)"

text \<open>\<open>w\<close> opens for \<open>b\<close>, and its content is a direct message with this payload, whatever \<open>b\<close> draws.\<close>

definition wrapped_for :: "prims \<Rightarrow> bytes \<Rightarrow> member \<Rightarrow> bytes \<Rightarrow> bool" where
  "wrapped_for p payload b w \<longleftrightarrow> length w \<le> 2107656 \<and>
     (\<exists>inner. unseal_wrapper p (m_sk b) (m_pk b) w = Inr inner \<and>
       (\<forall>rd. \<exists>v' r. receive p rd (m_sk b) (m_pk b) inner (m_vault b) = (v', Inr r) \<and>
          rr_plaintext r = payload \<and> rr_contact_index r = m_contact b))"

lemma direct_message:
  assumes laws: "message_laws p" and A: "ed_pair p pkA skA" and b: "member_ok p v pkA b"
    and d: "uniform_law (sd_handshake d)" "length (sd_nonce d) = 12" and l: "length payload = 52"
  obtains v1 inner where "send p d skA pkA (m_index b) payload v = (v1, Inr inner)" and "length inner \<le> 2107592"
    and "\<And>rd. \<exists>v' r. receive p rd (m_sk b) (m_pk b) inner (m_vault b) = (v', Inr r) \<and> rr_plaintext r = payload \<and>
      rr_contact_index r = m_contact b"
proof -
  have small: "length payload \<le> kMaxPlaintextBytes"
    using l by (simp add: kMaxPlaintextBytes_def)
  from b consider (first) "first_contact p v pkA b" | (later) "in_session p v pkA b"
    by (auto simp: member_ok_def)
  then show thesis
  proof cases
    case first
    then have m: "can_open v (m_index b) (m_pk b) (m_card b)"
        "can_accept p (m_vault b) (m_contact b) pkA (m_pk b) (m_card b)"
      by (simp_all add: first_contact_def)
    note first = first_message [OF laws d(1) A member_facts(1) [OF b] m d(2) small]
    obtain v1 inner where s: "send p d skA pkA (m_index b) payload v = (v1, Inr inner)" and "length inner \<le> 2107592"
      by (rule first) (use l in simp)
    moreover have "\<exists>v' r. receive p rd (m_sk b) (m_pk b) inner (m_vault b) = (v', Inr r) \<and> rr_plaintext r = payload \<and>
        rr_contact_index r = m_contact b" for rd
      by (rule first [of rd]) (use s in auto)
    ultimately show thesis
      by (rule that)
  next
    case later
    then obtain mine theirs where m: "can_write v (m_index b) (m_pk b) mine"
        "can_read p (m_vault b) (m_contact b) pkA theirs" "sessions_in_step p mine theirs"
      by (auto simp: in_session_def)
    obtain v1 inner where "send p d skA pkA (m_index b) payload v = (v1, Inr inner)"
        and "length inner \<le> 4 * length payload + 2107384"
        and "\<And>rd. \<exists>v' r. receive p rd (m_sk b) (m_pk b) inner (m_vault b) = (v', Inr r) \<and> rr_plaintext r = payload \<and>
          rr_contact_index r = m_contact b"
      by (rule later_message [OF laws m d(2) small]) blast
    with l show thesis
      by (intro that [of v1 inner]) simp_all
  qed
qed

lemma send_keeps_members:
  assumes "send p d sk ik (m_index b) m v = (v', Inr block)" and "m_index x \<noteq> m_index b" and "member_ok p v pkA x"
  shows "member_ok p v' pkA x"
  using assms send_keeps_others [OF assms(1,2)] send_keeps_sessions [OF assms(1,2)]
  by (auto simp: member_ok_def first_contact_def in_session_def)

lemma wrap_one:
  assumes laws: "message_laws p" and A: "ed_pair p pkA skA" and d: "draws_ok d" and b: "member_ok p v pkA b"
    and l: "length payload = 52"
  obtains v1 inner w where "send p (gd_sends d k) skA pkA (m_index b) payload v = (v1, Inr inner)"
    and "seal_wrapper p (gd_ephemeral d k) (gd_wrap_nonce d k) (c_identity_pub (v_contacts v1 ! m_index b)) inner = Inr w"
    and "wrapped_for p payload b w"
proof -
  have u: "uniform_law (sd_handshake (gd_sends d k))" "length (sd_nonce (gd_sends d k)) = 12" "length (gd_wrap_nonce d k) = 12"
    using d by (simp_all add: draws_ok_def)
  obtain v1 inner where s: "send p (gd_sends d k) skA pkA (m_index b) payload v = (v1, Inr inner)"
    and size: "length inner \<le> 2107592"
    and rc: "\<And>rd. \<exists>v' r. receive p rd (m_sk b) (m_pk b) inner (m_vault b) = (v', Inr r) \<and> rr_plaintext r = payload \<and>
      rr_contact_index r = m_contact b"
    by (rule direct_message [OF laws A b u(1,2) l]) blast
  have ik: "c_identity_pub (v_contacts v1 ! m_index b) = m_pk b"
    by (rule send_effect [OF s]) (use member_facts(3,4) [OF b] in simp)
  have "length inner < 4000000000"
    using size by simp
  then obtain w where w: "seal_wrapper p (gd_ephemeral d k) (gd_wrap_nonce d k) (m_pk b) inner = Inr w"
      "unseal_wrapper p (m_sk b) (m_pk b) w = Inr inner" "length w = length inner + 64"
    by (rule wrapper_roundtrip [OF laws member_facts(1) [OF b] u(3)])
  then have "wrapped_for p payload b w"
    using rc size by (simp add: wrapped_for_def)
  with s w(1) [folded ik] show thesis
    by (rule that)
qed

lemma wrap_members:
  assumes laws: "message_laws p" and A: "ed_pair p pkA skA" and d: "draws_ok d" and l: "length payload = 52"
  shows "distinct (map m_index bs) \<Longrightarrow> list_all (member_ok p v pkA) bs \<Longrightarrow>
    \<exists>v' ws. wrap_all p d skA pkA payload k (map m_index bs) v = (v', Inr ws) \<and> list_all2 (wrapped_for p payload) bs ws"
proof (induction bs arbitrary: k v)
  case (Cons b bs)
  from Cons.prems have b: "member_ok p v pkA b"
    by simp
  obtain v1 inner w where s: "send p (gd_sends d k) skA pkA (m_index b) payload v = (v1, Inr inner)"
    and w: "seal_wrapper p (gd_ephemeral d k) (gd_wrap_nonce d k) (c_identity_pub (v_contacts v1 ! m_index b)) inner = Inr w"
      "wrapped_for p payload b w"
    by (rule wrap_one [OF laws A d b l])
  have "member_ok p v1 pkA x" if "x \<in> set bs" for x
    by (rule send_keeps_members [OF s]) (use that Cons.prems in \<open>auto simp: list_all_iff image_iff\<close>)
  then have "list_all (member_ok p v1 pkA) bs"
    by (simp add: list_all_iff)
  with Cons.IH [of v1 "k + 1"] Cons.prems obtain v' ws where
    "wrap_all p d skA pkA payload (k + 1) (map m_index bs) v1 = (v', Inr ws)" "list_all2 (wrapped_for p payload) bs ws"
    by auto
  with s w show ?case
    by (auto simp: bindM_def readM_def)
qed (simp add: returnM_def)

section \<open>The block\<close>

lemma wrappers_wf:
  assumes "list_all2 (wrapped_for p payload) bs ws"
  shows "list_all (\<lambda>w. length w \<le> kMaxEnvelopeBytes) ws" and "length ws = length bs"
    and "sum_list (map (\<lambda>w. length w + 4) ws) \<le> length bs * 2107660"
proof -
  have "length w \<le> 2107656" if "w \<in> set ws" for w
    using assms that by (auto simp: list_all2_conv_all_nth in_set_conv_nth wrapped_for_def)
  then have b: "\<forall>w \<in> set ws. length w + 4 \<le> 2107660"
    by auto
  then show "list_all (\<lambda>w. length w \<le> kMaxEnvelopeBytes) ws"
    by (auto simp: list_all_iff kMaxEnvelopeBytes_def)
  show l: "length ws = length bs"
    using assms by (simp add: list_all2_lengthD)
  have "sum_list (map (\<lambda>w. length w + 4) ws) \<le> length ws * 2107660"
    using b by (induction ws) auto
  then show "sum_list (map (\<lambda>w. length w + 4) ws) \<le> length bs * 2107660"
    using l by simp
qed

lemma content_aad_ok:
  assumes "list_all (\<lambda>w. length w \<le> kMaxEnvelopeBytes) ws"
  obtains aad where "content_aad p gid ik ws = Inr aad"
proof -
  obtain wb where "catR (map put_blob ws) = Inr wb"
    using group_wrapper.put_many_ok [OF assms] by blast
  then show thesis
    by (intro that) (simp add: content_aad_def put_bytes_def put_u8_def put_u32_def)
qed

text \<open>What is in a sealed block, and that the sender's mark on it verifies.\<close>

lemma seal_group_ok:
  assumes laws: "message_laws p" and A: "ed_pair p pkA skA" and d: "draws_ok d"
    and n: "2 \<le> length bs" "length bs \<le> 64" and ws: "list_all2 (wrapped_for p payload) bs ws"
    and m: "length m \<le> kMaxPlaintextBytes"
  obtains "5 < length bs" and "seal_group p d skA pkA ws m = Inl (GroupError GroupTooLong)"
  | block f aad where "seal_group p d skA pkA ws m = Inr block" and "open_group p block = Inr f"
    and "gf_id f = gd_id d" and "gf_sender f = pkA" and "gf_wrappers f = ws"
    and "content_aad p (gd_id d) pkA ws = Inr aad"
    and "verify p pkA (transcript_digest p aad (gf_ciphertext f) (gf_nonce f)) (gf_signature f)"
    and "decrypt_content p (gd_key d) (gf_ciphertext f) (gf_nonce f) aad = Inr m"
proof -
  have L: "aead_law p" "b64_law p" "ed25519_law p"
    using laws by (simp_all add: message_laws_def crypto_laws_def)
  have dl: "length (gd_id d) = 16" "length (gd_key d) = 32" "length (gd_nonce d) = 12"
    using d by (simp_all add: draws_ok_def)
  note w = wrappers_wf [OF ws]
  obtain aad where aad: "content_aad p (gd_id d) pkA ws = Inr aad"
    by (rule content_aad_ok [OF w(1)])
  obtain ct where ct: "encrypt_content p (gd_key d) m (gd_nonce d) aad = Inr ct"
      "decrypt_content p (gd_key d) ct (gd_nonce d) aad = Inr m" "length ct \<le> 4195344"
    by (rule content_roundtrip [OF L(1) dl(2,3) m])
  obtain sig where sig: "sign p skA (transcript_digest p aad ct (gd_nonce d)) = Inr sig"
    using sign_succeeds [OF L(3) A] by blast
  note v = sign_verifies [OF L(3) A sig]
  have "length pkA = 32"
    using L(3) A by (simp add: ed25519_law_def)
  moreover have "wf_blob ct"
    using ct(3) by (simp add: wf_blob_def)
  ultimately obtain body where body: "group_body (gd_id d) pkA (gd_nonce d) ws ct sig = Inr body"
      "get_group_frame body = Inr \<lparr>gf_id = gd_id d, gf_sender = pkA, gf_nonce = gd_nonce d, gf_wrappers = ws,
        gf_ciphertext = ct, gf_signature = sig\<rparr>"
      "length body \<le> 200 + sum_list (map (\<lambda>w. length w + 4) ws) + length ct"
    by (rule group_frame_roundtrip [OF dl(1) _ dl(3) conjunct2 [OF v] _ _ _ w(1)]) (use n w(2) in simp_all)
  have s: "seal_group p d skA pkA ws m =
      (if length body > kMaxGroupBlockBytes then Inl (GroupError GroupTooLong) else Inr (encode_block p ''GROUP'' body))"
    using aad ct(1) sig body(1) by (simp add: seal_group_def)
  show thesis
  proof (cases "length body > kMaxGroupBlockBytes")
    case True
    then have "5 < length bs"
      using body(3) w(3) ct(3) by (simp add: kMaxGroupBlockBytes_def)
    then show thesis
      by (rule that(1)) (simp add: s True)
  next
    case False
    then have "decode_block p ''GROUP'' (encode_block p ''GROUP'' body) kMaxGroupBlockBytes = Inr body"
      by (intro decode_encoded [OF L(2)]) simp_all
    then show thesis
      using False s body(2) v ct(2) aad
      by (intro that(2) [of "encode_block p ''GROUP'' body" "\<lparr>gf_id = gd_id d, gf_sender = pkA, gf_nonce = gd_nonce d,
          gf_wrappers = ws, gf_ciphertext = ct, gf_signature = sig\<rparr>" aad]) (simp_all add: open_group_def)
  qed
qed

section \<open>At a member\<close>

text \<open>A wrapper that does not open under a member's identity is somebody else's.\<close>

definition foreign :: "prims \<Rightarrow> member \<Rightarrow> bytes \<Rightarrow> bool" where
  "foreign p b w \<longleftrightarrow> (case unseal_wrapper p (m_sk b) (m_pk b) w of Inl _ \<Rightarrow> True | Inr _ \<Rightarrow> False)"

lemma try_wrappers_skip:
  "list_all (foreign p b) xs \<Longrightarrow> try_wrappers p ds (m_sk b) (m_pk b) gid si v k (xs @ ys) =
     try_wrappers p ds (m_sk b) (m_pk b) gid si v (k + length xs) ys"
  by (induction xs arbitrary: k) (auto simp: foreign_def try_wrapper_def split: sum.splits)

lemma group_receive_ok:
  assumes b: "member_ok p v pkA b" and o: "open_group p block = Inr f" and s: "gf_sender f = pkA"
    and w: "wrapped_for p payload b (gf_wrappers f ! i)" "i < length (gf_wrappers f)"
    and fo: "list_all (foreign p b) (take i (gf_wrappers f))"
    and pl: "parse_key_payload payload = Some (gf_id f, key)"
    and a: "content_aad p (gf_id f) pkA (gf_wrappers f) = Inr aad"
    and ver: "verify p pkA (transcript_digest p aad (gf_ciphertext f) (gf_nonce f)) (gf_signature f)"
    and dec: "decrypt_content p key (gf_ciphertext f) (gf_nonce f) aad = Inr m"
  shows "\<exists>v' r. group_receive p now ds (m_sk b) (m_pk b) block (m_vault b) = (v', Inr r) \<and>
    gr_plaintext r = m \<and> gr_contact_index r = m_contact b \<and> gr_group_id r = gf_id f"
proof -
  let ?v = "m_vault b" and ?ws = "gf_wrappers f"
  note wf = member_facts(2) [OF b] and acc = member_facts(5,6) [OF b]
  obtain inner where un: "unseal_wrapper p (m_sk b) (m_pk b) (?ws ! i) = Inr inner"
    and rc: "\<And>rd. \<exists>v' r. receive p rd (m_sk b) (m_pk b) inner ?v = (v', Inr r) \<and> rr_plaintext r = payload \<and>
      rr_contact_index r = m_contact b"
    using w(1) unfolding wrapped_for_def by blast
  obtain v' r where r: "receive p (ds i) (m_sk b) (m_pk b) inner ?v = (v', Inr r)" "rr_plaintext r = payload"
      "rr_contact_index r = m_contact b"
    using rc by blast
  have "try_wrapper p (ds i) (m_sk b) (m_pk b) (gf_id f) (m_contact b) ?v (?ws ! i) = Inr (Some (v', r, key))"
    using un r pl by (simp add: try_wrapper_def copy_vault_wf [OF wf])
  moreover have "?ws = take i ?ws @ ?ws ! i # drop (Suc i) ?ws"
    using w(2) by (rule id_take_nth_drop)
  ultimately have "try_wrappers p ds (m_sk b) (m_pk b) (gf_id f) (m_contact b) ?v 0 ?ws = Inr (v', r, key)"
    using try_wrappers_skip [OF fo, of ds "gf_id f" "m_contact b" ?v 0 "?ws ! i # drop (Suc i) ?ws"] w(2) by simp
  moreover have "check_group_sender p ?v f = Inr (m_contact b, aad)"
    using acc a ver s by (simp add: check_group_sender_def)
  ultimately show ?thesis
    using o dec r(3) by (simp add: group_receive_def copy_vault_wf [OF wf])
qed

lemma check_recipients_ok:
  "distinct is \<Longrightarrow> set is \<inter> set seen = {} \<Longrightarrow> \<forall>i \<in> set is. i < n \<Longrightarrow> check_recipients n seen is = Inr ()"
  by (induction "is" arbitrary: seen) auto

lemma admit_members:
  assumes "distinct (map m_index bs)" and "list_all (member_ok p v pkA) bs" and "2 \<le> length bs" and "length bs \<le> 64"
    and "length m \<le> kMaxPlaintextBytes"
  shows "admit_group (map m_index bs) m v = Inr ()"
proof -
  have "\<forall>i \<in> set (map m_index bs). i < length (v_contacts v)"
    using assms(2) member_facts(3) by (auto simp: list_all_iff)
  then show ?thesis
    using assms by (simp add: admit_group_def kMaxMembers_def check_recipients_ok)
qed

text \<open>Every member that the sender can address gets the content; the block is only refused for its size.\<close>

lemma group_delivery:
  assumes laws: "message_laws p" and A: "ed_pair p pkA skA" and d: "draws_ok d" and wf: "wf_store p v"
    and bs: "distinct (map m_index bs)" "list_all (member_ok p v pkA) bs" "2 \<le> length bs" "length bs \<le> 64"
    and m: "length m \<le> kMaxPlaintextBytes"
  obtains "5 < length bs" and "group_send p d skA pkA (map m_index bs) m v = (v, Inl (GroupError GroupTooLong))"
  | v' block f where "group_send p d skA pkA (map m_index bs) m v = (v', Inr block)" and "open_group p block = Inr f"
    and "gf_sender f = pkA" and "length (gf_wrappers f) = length bs"
    and "\<And>i now ds. i < length bs \<Longrightarrow> list_all (foreign p (bs ! i)) (take i (gf_wrappers f)) \<Longrightarrow>
      \<exists>vb r. group_receive p now ds (m_sk (bs ! i)) (m_pk (bs ! i)) block (m_vault (bs ! i)) = (vb, Inr r) \<and>
        gr_plaintext r = m \<and> gr_contact_index r = m_contact (bs ! i) \<and> gr_group_id r = gd_id d"
proof -
  have dl: "length (gd_id d) = 16" "length (gd_key d) = 32"
    using d by (simp_all add: draws_ok_def)
  obtain pl where pl: "make_key_payload (gd_id d) (gd_key d) = Inr pl" "parse_key_payload pl = Some (gd_id d, gd_key d)"
      "length pl = 52"
    by (rule key_payload_roundtrip [OF dl])
  obtain v' ws where ws: "wrap_all p d skA pkA pl 0 (map m_index bs) v = (v', Inr ws)" "list_all2 (wrapped_for p pl) bs ws"
    using wrap_members [OF laws A d pl(3) bs(1,2), of 0] by blast
  note pre = admit_members [OF bs m] copy_vault_wf [OF wf, of "gd_now d"] pl(1) ws(1)
  show thesis
  proof (rule seal_group_ok [OF laws A d bs(3,4) ws(2) m])
    assume "5 < length bs" and "seal_group p d skA pkA ws m = Inl (GroupError GroupTooLong)"
    with pre show thesis
      by (intro that(1)) (simp_all add: group_send_def on_local_def)
  next
    fix block f aad
    assume s: "seal_group p d skA pkA ws m = Inr block" and o: "open_group p block = Inr f"
      and f: "gf_id f = gd_id d" "gf_sender f = pkA" "gf_wrappers f = ws"
      and a: "content_aad p (gd_id d) pkA ws = Inr aad"
      and ver: "verify p pkA (transcript_digest p aad (gf_ciphertext f) (gf_nonce f)) (gf_signature f)"
      and dec: "decrypt_content p (gd_key d) (gf_ciphertext f) (gf_nonce f) aad = Inr m"
    have len: "length ws = length bs"
      using ws(2) by (simp add: list_all2_lengthD)
    have "group_send p d skA pkA (map m_index bs) m v = (v', Inr block)"
      using pre s by (simp add: group_send_def on_local_def)
    moreover have "\<exists>vb r. group_receive p now ds (m_sk (bs ! i)) (m_pk (bs ! i)) block (m_vault (bs ! i)) = (vb, Inr r) \<and>
        gr_plaintext r = m \<and> gr_contact_index r = m_contact (bs ! i) \<and> gr_group_id r = gd_id d"
      if i: "i < length bs" and fo: "list_all (foreign p (bs ! i)) (take i (gf_wrappers f))" for i now ds
    proof -
      have "member_ok p v pkA (bs ! i)"
        using bs(2) i by (simp add: list_all_length)
      moreover have "wrapped_for p pl (bs ! i) (gf_wrappers f ! i)"
        using ws(2) i by (simp add: f list_all2_nthD)
      moreover have "i < length (gf_wrappers f)"
        using i len by (simp add: f)
      ultimately show ?thesis
        using group_receive_ok [OF _ o f(2), of v "bs ! i" pl i "gd_key d" aad m now ds] fo pl(2) a ver dec f by simp
    qed
    ultimately show thesis
      using o f len by (intro that(2) [of v' block f]) simp_all
  qed
qed

section \<open>Properties\<close>


text \<open>C6: Group messages refine direct messages: on a well-formed vault \<open>send\<close> does to the vault exactly what
  the direct messages carrying the group key to each recipient in turn do, and \<open>receive\<close> exactly what the receipt
  of one direct message from the verified signer does, whose key opens the content the sender signed; every
  failure, also half way through the recipients, leaves the vault as it was.\<close>

theorem group_refines_direct:
  assumes "wf_store p v"
  shows "(case group_send p d sk ik is m v of
      (v', Inr block) \<Rightarrow> \<exists>key_payload blocks. make_key_payload (gd_id d) (gd_key d) = Inr key_payload \<and>
         direct_sends p (gd_sends d) sk ik key_payload 0 is v = (v', Inr blocks) \<and> length blocks = length is
    | (v', Inl e) \<Rightarrow> v' = v) \<and>
    (case group_receive p now ds sk ik msg v of
      (v', Inr r) \<Rightarrow> \<exists>f. open_group p msg = Inr f \<and> one_direct_message p ds sk ik f v v' r
    | (v', Inl e) \<Rightarrow> v' = v)"
proof (intro conjI)
  obtain v' res where g: "group_send p d sk ik is m v = (v', res)"
    by fastforce
  show "case group_send p d sk ik is m v of
      (v', Inr block) \<Rightarrow> \<exists>key_payload blocks. make_key_payload (gd_id d) (gd_key d) = Inr key_payload \<and>
         direct_sends p (gd_sends d) sk ik key_payload 0 is v = (v', Inr blocks) \<and> length blocks = length is
    | (v', Inl e) \<Rightarrow> v' = v"
  proof (cases res)
    case (Inl e)
    with g show ?thesis
      by (auto simp: group_send_def split: sum.splits prod.splits)
  next
    case (Inr block)
    with g obtain v0 key_payload ws where w: "copy_vault p (gd_now d) v = Inr v0"
        "make_key_payload (gd_id d) (gd_key d) = Inr key_payload"
        "wrap_all p d sk ik key_payload 0 is v0 = (v', Inr ws)"
      by (blast elim: group_send_Inr)
    with wrap_all_direct [OF w(3)] copy_vault_wf [OF assms] g Inr show ?thesis
      by auto
  qed
  obtain v' res where g: "group_receive p now ds sk ik msg v = (v', res)"
    by fastforce
  show "case group_receive p now ds sk ik msg v of
      (v', Inr r) \<Rightarrow> \<exists>f. open_group p msg = Inr f \<and> one_direct_message p ds sk ik f v v' r
    | (v', Inl e) \<Rightarrow> v' = v"
  proof (cases res)
    case (Inl e)
    with g show ?thesis
      by (auto simp: group_receive_def split: sum.splits prod.splits)
  next
    case (Inr r)
    with g show ?thesis
      using group_receive_direct [OF assms] by fastforce
  qed
qed

section \<open>Witnesses\<close>

definition sample_contacts_vault :: "signed_prekey list \<Rightarrow> contact list \<Rightarrow> session list \<Rightarrow> vault_store" where
  "sample_contacts_vault ks cs ss = (sample_vault ks (sample_contact ''x'' [] None))\<lparr>v_contacts := cs, v_sessions := ss\<rparr>"

text \<open>The two ends of a session that has just been opened.\<close>

lemma sample_sessions:
  obtains a b where "sessions_in_step sample_prims a b" and "s_contact_index a = 0" and "s_contact_index b = 0"
    and "s_suite a = HybridPqxdhV1" and "s_has_dhs a" and "s_has_cks a" and "\<not> s_legacy_read_only a" and "s_status a = Pending"
    and "wf_session a" and "wf_session b"
proof -
  let ?p = sample_prims and ?sec = "replicate 32 9" and ?s = "session_default\<lparr>s_suite := HybridPqxdhV1\<rparr>"
  obtain z where z: "x25519_dh ?p (replicate 32 1) (replicate 32 2) = Inr z"
    by (simp add: x25519_dh_def sample_prims_def)
  obtain rk ck where k: "kdf_rk ?p ?sec z = Inr (rk, ck)"
    using kdf_rk_ok by blast
  then have l: "length rk = 32" "length ck = 32"
    using kdf_rk_length [OF sample_hmac] by blast+
  let ?a = "?s\<lparr>s_dhs_sk := replicate 32 1, s_dhs_pub := replicate 32 1, s_has_dhs := True,
    s_dhr_pub := replicate 32 2, s_has_dhr := True, s_root_key := rk, s_chain_key_send := ck,
    s_has_cks := True, s_has_ckr := False, s_ns := 0, s_nr := 0, s_pn := 0, s_skipped := []\<rparr>"
  let ?b = "init_receiver ?sec (replicate 32 2) (replicate 32 2) ?s"
  let ?N = "\<lparr>n_sess = \<lambda>x. if x = Alice then ?a else ?b, n_wire = \<lambda>_. [],
    n_used = {replicate 32 1, replicate 32 2}\<rparr>"
  have "init_sender ?p ?sec (replicate 32 1) (replicate 32 1) (replicate 32 2) ?s = (?a, Inr ())"
    using z k by (simp add: init_sender_def)
  then have st: "net_start ?p ?sec ?N"
    unfolding net_start_def
    by (intro exI [of _ "replicate 32 1"] exI [of _ "replicate 32 2"] exI [of _ ?s]) (simp add: sample_x_pair)
  have "sessions_in_step ?p ?a ?b"
    unfolding sessions_in_step_def
    by (intro conjI exI [of _ ?sec] exI [of _ ?N] exI [of _ Alice] conv.start [OF st])
      (simp_all add: init_receiver_def uses_triple_ratchet_def)
  then show thesis
    by (rule that) (simp_all add: l init_receiver_def session_default_def wf_session_def wf_counted_def)
qed

definition sample_group_draws :: group_draws where
  "sample_group_draws = \<lparr>gd_now = 5, gd_id = replicate 16 7, gd_key = replicate 32 9, gd_nonce = replicate 12 4,
     gd_sends = (\<lambda>k. sample_send_draws), gd_ephemeral = (\<lambda>k. [6]), gd_wrap_nonce = (\<lambda>k. replicate 12 8)\<rparr>"

lemma sample_draws_ok: "draws_ok sample_group_draws"
  using sample_sizes by (simp add: draws_ok_def sample_group_draws_def)

text \<open>Bob is written to in the session with him, Carol for the first time.\<close>

lemma sample_members:
  obtains v b1 b2 where "wf_store sample_prims v" and "list_all (member_ok sample_prims v (fit 32 [1])) [b1, b2]"
    and "distinct (map m_index [b1, b2])" and "in_session sample_prims v (fit 32 [1]) b1"
    and "first_contact sample_prims v (fit 32 [1]) b2"
proof -
  have "\<exists>k. spk_id k = 3 \<and> wf_signed_prekey k \<and> card_backed sample_prims (fit 32 s) k [sample_otpk] sample_pqk [sample_pqk]
      (published_card (replicate 1952 0) k [sample_otpk]
        (published_bundle sample_pqk (replicate 64 0) (replicate 3309 0) [sample_pqk]))" for s
    by (rule sample_card_backed [of s]) blast
  then obtain key where key: "\<And>s. spk_id (key s) = 3" "\<And>s. wf_signed_prekey (key s)"
    and b: "\<And>s. card_backed sample_prims (fit 32 s) (key s) [sample_otpk] sample_pqk [sample_pqk]
      (published_card (replicate 1952 0) (key s) [sample_otpk]
        (published_bundle sample_pqk (replicate 64 0) (replicate 3309 0) [sample_pqk]))"
    by metis
  obtain mine theirs where ses: "sessions_in_step sample_prims mine theirs" "s_contact_index mine = 0" "s_contact_index theirs = 0"
      "s_suite mine = HybridPqxdhV1" "s_has_dhs mine" "s_has_cks mine" "\<not> s_legacy_read_only mine" "s_status mine = Pending"
      "wf_session mine" "wf_session theirs"
    by (rule sample_sessions)
  then have su: "s_suite theirs = HybridPqxdhV1"
    unfolding sessions_in_step_def by simp
  let ?cd = "\<lambda>s. published_card (replicate 1952 0) (key s) [sample_otpk]
        (published_bundle sample_pqk (replicate 64 0) (replicate 3309 0) [sample_pqk])"
  let ?v = "sample_contacts_vault [] [sample_contact ''bob'' (fit 32 [2]) (Some (?cd [2])),
      sample_contact ''carol'' (fit 32 [3]) (Some (?cd [3]))] [mine]"
  let ?w = "\<lambda>s ss. sample_contacts_vault [key s] [sample_contact ''alice'' (fit 32 [1]) None] ss"
  let ?b = "\<lambda>n s ss. \<lparr>m_index = n, m_pk = fit 32 s, m_sk = fit 32 s @ fit 32 s, m_card = ?cd s,
      m_vault = ?w s ss, m_contact = 0\<rparr>"
  have wc: "wf_peer_card (?cd s)" for s
    using key(2) [of s]
    by (simp add: wf_peer_card_def published_card_def published_bundle_def wf_pq_bundle_def wf_counted_def wf_signed_prekey_def
        wf_peer_otpk_def wf_peer_pq_prekey_def sample_otpk_def sample_pqk_def offer_of_def pq_offer_of_def)
  have pools: "wf_one_time_prekey sample_otpk" "wf_pq_prekey sample_prims sample_pqk"
    by (simp_all add: wf_one_time_prekey_def sample_pqk_wf) (simp_all add: sample_otpk_def)
  have wf: "wf_store sample_prims (sample_contacts_vault ks cs ss)"
    if "list_all wf_signed_prekey ks" "length ks < 2" "list_all wf_contact cs" "length cs < 5" "list_all wf_session ss"
      "length ss < 2" for ks cs ss
    using that pools by (simp add: wf_store_def sample_contacts_vault_def sample_vault_def wf_counted_def)
  have one: "in_session sample_prims ?v (fit 32 [1]) (?b 0 [2] [theirs])"
    unfolding in_session_def
  proof (intro exI conjI)
    show "can_write ?v (m_index (?b 0 [2] [theirs])) (m_pk (?b 0 [2] [theirs])) mine"
      using ses by (simp add: can_write_def sample_contacts_vault_def sample_vault_def sample_contact_def published_card_def
          find_session_def suite_at_least_def)
    show "can_read sample_prims (m_vault (?b 0 [2] [theirs])) (m_contact (?b 0 [2] [theirs])) (fit 32 [1]) theirs"
      using ses su by (simp add: can_read_def sample_contacts_vault_def sample_vault_def sample_contact_def
          find_session_def find_contact_by_identity_def suite_at_least_def)
  qed (rule ses(1))
  have two: "first_contact sample_prims ?v (fit 32 [1]) (?b 1 [3] [])"
    unfolding first_contact_def
  proof
    show "can_open ?v (m_index (?b 1 [3] [])) (m_pk (?b 1 [3] [])) (m_card (?b 1 [3] []))"
      using ses(2) by (simp add: can_open_def sample_contacts_vault_def sample_vault_def sample_contact_def published_card_def
          find_session_def suite_at_least_def)
    show "can_accept sample_prims (m_vault (?b 1 [3] [])) (m_contact (?b 1 [3] [])) (fit 32 [1]) (m_pk (?b 1 [3] []))
        (m_card (?b 1 [3] []))"
      using b [of "[3]"] by (auto simp: can_accept_def sample_contacts_vault_def sample_vault_def sample_contact_def
          published_card_def find_session_def find_contact_by_identity_def suite_at_least_def)
  qed
  have "wf_store sample_prims (?w s ss)" if "list_all wf_session ss" "length ss < 2" for s ss
    using key(2) that by (intro wf) (simp_all add: wf_contact_def sample_contact_def)
  then have "list_all (member_ok sample_prims ?v (fit 32 [1])) [?b 0 [2] [theirs], ?b 1 [3] []]"
    using one two ses(10) by (simp add: member_ok_def sample_ed_pair)
  moreover have "wf_store sample_prims ?v"
    using wc ses(9) by (intro wf) (simp_all add: wf_contact_def sample_contact_def)
  ultimately show thesis
    using one two by (intro that) simp_all
qed


lemma group_refines_direct_witness:
  "\<exists>v is v' block key_payload blocks. wf_store sample_prims v \<and>
     group_send sample_prims sample_group_draws (fit 32 [1] @ fit 32 [1]) (fit 32 [1]) is [7, 7] v = (v', Inr block) \<and>
     direct_sends sample_prims (gd_sends sample_group_draws) (fit 32 [1] @ fit 32 [1]) (fit 32 [1]) key_payload 0 is v = (v', Inr blocks)"
proof -
  obtain v b1 b2 where s: "wf_store sample_prims v" "list_all (member_ok sample_prims v (fit 32 [1])) [b1, b2]"
      "distinct (map m_index [b1, b2])"
    by (rule sample_members)
  have n: "2 \<le> length [b1, b2]" "length [b1, b2] \<le> 64"
    by simp_all
  obtain v' block where
    g: "group_send sample_prims sample_group_draws (fit 32 [1] @ fit 32 [1]) (fit 32 [1]) (map m_index [b1, b2]) [7, 7] v = (v', Inr block)"
    by (rule group_delivery [OF sample_message_laws sample_ed_pair sample_draws_ok s(1,3,2) n sample_sizes(3)]) auto
  from group_refines_direct [OF s(1), of sample_group_draws "fit 32 [1] @ fit 32 [1]" "fit 32 [1]" "map m_index [b1, b2]" "[7, 7]"]
  show ?thesis
    using s(1) g by fastforce
qed

end
