(* ===== verification/Maintenance.thy ===== *)
theory Maintenance
  imports Store_Format
begin

text \<open>
  \<open>app.cpp\<close>, the upkeep of the own prekeys: signatures of an old scheme are renewed, a signed prekey is rotated
  after thirty days and only the newest two are kept, the one-time pools are topped up. Clock readings and
  random bytes are arguments.
\<close>

section \<open>Operations\<close>

definition kReplenishThreshold :: nat where "kReplenishThreshold = 5"
definition kSpkMaxAgeSeconds :: u64 where "kSpkMaxAgeSeconds = 30 * 24 * 60 * 60"
definition kDefaultOtpkCount :: nat where "kDefaultOtpkCount = 10"

definition age_seconds :: "u64 \<Rightarrow> u64 \<Rightarrow> u64" where
  "age_seconds now stamped_at = (if now > stamped_at then now - stamped_at else 0)"

text \<open>The loop over the signed prekeys: the list as it is left, and whether anything changed.\<close>

fun resign_loop :: "prims \<Rightarrow> bytes \<Rightarrow> bytes \<Rightarrow> signed_prekey list \<Rightarrow> signed_prekey list \<times> bool result" where
  "resign_loop p pk sk [] = ([], Inr False)"
| "resign_loop p pk sk (k # ks) =
     (case verify_signed_prekey_signature p pk (spk_id k) (spk_pub k) (spk_signature k) of
        Inl e \<Rightarrow> (k # ks, Inl e)
      | Inr True \<Rightarrow> (let (ks', r) = resign_loop p pk sk ks in (k # ks', r))
      | Inr False \<Rightarrow>
          (case resign_signed_prekey p sk k of
             Inl e \<Rightarrow> (k # ks, Inl e)
           | Inr k' \<Rightarrow> (let (ks', r) = resign_loop p pk sk ks in (k' # ks', bindR r (\<lambda>_. Inr True)))))"

definition resign_stale_prekeys :: "prims \<Rightarrow> bytes \<Rightarrow> bytes \<Rightarrow> (vault_store, bool) mut" where
  "resign_stale_prekeys p pk sk v =
     (let (ks, r) = resign_loop p pk sk (v_signed_prekeys v) in (v\<lparr>v_signed_prekeys := ks\<rparr>, r))"

text \<open>The count is the number of random seeds given.\<close>

definition replenish_one_time_prekeys :: "prims \<Rightarrow> bytes list \<Rightarrow> (vault_store, unit) mut" where
  "replenish_one_time_prekeys p rnds =
     bindM (readM (\<lambda>v. generate_one_time_prekeys p rnds (v_next_otpk_id v))) (\<lambda>fresh.
     modifyM (\<lambda>v. v\<lparr>v_next_otpk_id := v_next_otpk_id v + word_of_nat (length rnds),
                     v_one_time_prekeys := v_one_time_prekeys v @ fresh\<rparr>))"

definition generate_ml_kem_768 :: "prims \<Rightarrow> bytes \<Rightarrow> pq_keypair result" where
  "generate_ml_kem_768 p seed = ml_kem_768_from_seed p seed"

text \<open>One new ML-KEM prekey: the id is taken before the key is generated.\<close>

definition new_pq_prekey :: "prims \<Rightarrow> u64 \<Rightarrow> bytes \<Rightarrow> (vault_store, pq_prekey) mut" where
  "new_pq_prekey p now seed =
     bindM (readM (\<lambda>v. Inr (v_next_pq_prekey_id v))) (\<lambda>i.
     bindM (modifyM (\<lambda>v. v\<lparr>v_next_pq_prekey_id := v_next_pq_prekey_id v + 1\<rparr>)) (\<lambda>_.
     bindM (readM (\<lambda>_. generate_ml_kem_768 p seed)) (\<lambda>k.
     returnM \<lparr>pqk_id = i, pqk_key = k, pqk_created_at = now\<rparr>)))"

definition push_pq_one_time :: "prims \<Rightarrow> u64 \<Rightarrow> bytes \<Rightarrow> (vault_store, unit) mut" where
  "push_pq_one_time p now seed =
     bindM (new_pq_prekey p now seed) (\<lambda>k.
     modifyM (\<lambda>v. v\<lparr>v_pq_one_time_prekeys := v_pq_one_time_prekeys v @ [k]\<rparr>))"

text \<open>The \<open>while\<close> loop; \<open>seeds\<close> are the random seeds it draws, in order.\<close>

fun fill_pq_pool :: "prims \<Rightarrow> u64 \<Rightarrow> bytes list \<Rightarrow> (vault_store, unit) mut" where
  "fill_pq_pool p now [] = returnM ()"
| "fill_pq_pool p now (seed # seeds) = bindM (push_pq_one_time p now seed) (\<lambda>_. fill_pq_pool p now seeds)"

definition replenish_pq_prekeys ::
  "prims \<Rightarrow> u64 \<Rightarrow> bytes \<Rightarrow> (nat \<Rightarrow> bytes) \<Rightarrow> nat \<Rightarrow> (vault_store, unit) mut" where
  "replenish_pq_prekeys p now static_seed seeds one_time_count =
     bindM (\<lambda>v. if v_pq_signed_prekeys v = [] then
              bindM (new_pq_prekey p now static_seed) (\<lambda>k.
                modifyM (\<lambda>v. v\<lparr>v_pq_signed_prekeys := v_pq_signed_prekeys v @ [k]\<rparr>)) v
            else (v, Inr ())) (\<lambda>_ v.
     fill_pq_pool p now (map seeds [length (v_pq_one_time_prekeys v)..<one_time_count]) v)"

text \<open>\<open>while (signed_prekeys.size() > 2) erase(begin())\<close>.\<close>

function keep_newest :: "'a list \<Rightarrow> 'a list" where
  "keep_newest xs = (if length xs > 2 then keep_newest (erase_at 0 xs) else xs)"
  by pat_completeness auto
termination
proof (relation "measure length")
  show "(erase_at 0 xs, xs) \<in> measure length" if "length xs > 2" for xs :: "'a list"
    using that by (cases xs) simp_all
qed simp

declare keep_newest.simps [simp del]

definition rotate_signed_prekey :: "prims \<Rightarrow> bytes \<Rightarrow> u64 \<Rightarrow> bytes \<Rightarrow> (vault_store, unit) mut" where
  "rotate_signed_prekey p rnd now sk =
     bindM (readM (\<lambda>v. generate_signed_prekey p rnd now sk (v_next_spk_id v))) (\<lambda>k.
     modifyM (\<lambda>v. v\<lparr>v_signed_prekeys := keep_newest (v_signed_prekeys v @ [k]),
                     v_next_spk_id := v_next_spk_id v + 1\<rparr>))"

record maintenance_report =
  mr_resigned :: bool
  mr_spk_rotated :: bool
  mr_otpk_had :: nat
  mr_otpk_added :: nat

definition mr_changed :: "maintenance_report \<Rightarrow> bool" where
  "mr_changed r \<longleftrightarrow> mr_resigned r \<or> mr_spk_rotated r \<or> mr_otpk_added r > 0"

record upkeep_draws =
  ud_now :: u64
  ud_keypair :: bytes
  ud_created :: u64  \<comment> \<open>the second clock reading, in \<open>generate_signed_prekey\<close>\<close>
  ud_otpks :: "nat \<Rightarrow> bytes"

definition spk_stale :: "u64 \<Rightarrow> vault_store \<Rightarrow> bool" where
  "spk_stale now v \<longleftrightarrow> v_signed_prekeys v = [] \<or>
     age_seconds now (spk_created_at (last (v_signed_prekeys v))) > kSpkMaxAgeSeconds"

definition maintain_prekeys :: "prims \<Rightarrow> upkeep_draws \<Rightarrow> bytes \<Rightarrow> bytes \<Rightarrow> (vault_store, maintenance_report) mut" where
  "maintain_prekeys p d pk sk =
     bindM (resign_stale_prekeys p pk sk) (\<lambda>resigned.
     bindM (readM (\<lambda>v. Inr (spk_stale (ud_now d) v))) (\<lambda>stale.
     bindM (if stale then rotate_signed_prekey p (ud_keypair d) (ud_created d) sk else returnM ()) (\<lambda>_.
     bindM (readM (\<lambda>v. Inr (length (v_one_time_prekeys v)))) (\<lambda>had.
     if had < kReplenishThreshold then
       bindM (replenish_one_time_prekeys p (map (ud_otpks d) [0..<kDefaultOtpkCount])) (\<lambda>_.
       returnM \<lparr>mr_resigned = resigned, mr_spk_rotated = stale, mr_otpk_had = had, mr_otpk_added = kDefaultOtpkCount\<rparr>)
     else returnM \<lparr>mr_resigned = resigned, mr_spk_rotated = stale, mr_otpk_had = 0, mr_otpk_added = 0\<rparr>))))"

section \<open>Lemmas\<close>

lemma keep_newest_eq: "keep_newest xs = drop (length xs - 2) xs"
proof (induction xs rule: keep_newest.induct)
  case (1 xs)
  show ?case
  proof (cases "length xs > 2")
    case True
    then obtain y ys where xs: "xs = y # ys"
      by (cases xs) simp_all
    have "keep_newest (erase_at 0 xs) = drop (length (erase_at 0 xs) - 2) (erase_at 0 xs)"
      by (rule 1 [OF True])
    with True show ?thesis
      by (subst keep_newest.simps) (simp add: xs drop_Cons' numeral_2_eq_2)
  next
    case False
    then show ?thesis
      by (subst keep_newest.simps) simp
  qed
qed

text \<open>The ids of the stored prekeys stay below the counters, and are distinct.\<close>

definition ids_below :: "(u32 \<Rightarrow> bool) \<Rightarrow> u32 list \<Rightarrow> bool" where
  "ids_below P xs \<longleftrightarrow> distinct xs \<and> list_all P xs"

definition prekey_ids_ok :: "vault_store \<Rightarrow> bool" where
  "prekey_ids_ok v \<longleftrightarrow>
     ids_below (\<lambda>i. i < v_next_spk_id v) (map spk_id (v_signed_prekeys v)) \<and>
     ids_below (\<lambda>i. i < v_next_otpk_id v) (map otpk_id (v_one_time_prekeys v)) \<and>
     ids_below (\<lambda>i. i < v_next_pq_prekey_id v) (map pqk_id (v_pq_signed_prekeys v @ v_pq_one_time_prekeys v))"

lemma resign_loop_Cons:
  assumes "resign_loop p pk sk (k # ks) = (out, r)"
  obtains (verify_error) e where "out = k # ks" and "r = Inl e"
  | (good) ks1 where "verify_signed_prekey_signature p pk (spk_id k) (spk_pub k) (spk_signature k) = Inr True"
      and "resign_loop p pk sk ks = (ks1, r)" and "out = k # ks1"
  | (renewed) k1 ks1 r1 where "resign_signed_prekey p sk k = Inr k1"
      and "resign_loop p pk sk ks = (ks1, r1)" and "out = k1 # ks1" and "r = bindR r1 (\<lambda>_. Inr True)"
proof -
  obtain ks1 r1 where rec: "resign_loop p pk sk ks = (ks1, r1)"
    by (cases "resign_loop p pk sk ks")
  show thesis
  proof (cases "verify_signed_prekey_signature p pk (spk_id k) (spk_pub k) (spk_signature k)")
    case (Inl e)
    with assms verify_error [of e] show thesis
      by simp
  next
    case (Inr b)
    show thesis
    proof (cases b)
      case True
      with Inr assms rec show thesis
        by (intro good [of ks1]) simp_all
    next
      case False
      show thesis
      proof (cases "resign_signed_prekey p sk k")
        case (Inl e)
        with Inr False assms verify_error [of e] show thesis
          by simp
      next
        case (Inr k1)
        with \<open>verify_signed_prekey_signature p pk (spk_id k) (spk_pub k) (spk_signature k) = Inr b\<close> False assms rec
        show thesis
          by (intro renewed [of k1 ks1 r1]) simp_all
      qed
    qed
  qed
qed

lemma resign_keeps:
  "resign_signed_prekey p sk k = Inr k' \<Longrightarrow> k'\<lparr>spk_signature := []\<rparr> = k\<lparr>spk_signature := []\<rparr>"
  by (auto simp: resign_signed_prekey_def bindR_eq_Inr)

lemma resign_loop_keeps: "resign_loop p pk sk ks = (ks', r) \<Longrightarrow>
    map (\<lambda>k. k\<lparr>spk_signature := []\<rparr>) ks' = map (\<lambda>k. k\<lparr>spk_signature := []\<rparr>) ks"
proof (induction ks arbitrary: ks' r)
  case (Cons k ks)
  from Cons.prems show ?case
    by (cases rule: resign_loop_Cons) (simp_all add: Cons.IH resign_keeps)
qed simp

lemma resign_loop_ids: "resign_loop p pk sk ks = (ks', r) \<Longrightarrow> map spk_id ks' = map spk_id ks"
proof -
  assume "resign_loop p pk sk ks = (ks', r)"
  then have "map spk_id (map (\<lambda>k. k\<lparr>spk_signature := []\<rparr>) ks') = map spk_id (map (\<lambda>k. k\<lparr>spk_signature := []\<rparr>) ks)"
    by (simp only: resign_loop_keeps)
  then show ?thesis
    by (simp add: comp_def)
qed

lemma resign_loop_verifies:
  assumes "ed25519_law p" and "ed_pair p pk sk"
  shows "resign_loop p pk sk ks = (ks', Inr b) \<Longrightarrow>
    list_all (\<lambda>k. verify_signed_prekey_signature p pk (spk_id k) (spk_pub k) (spk_signature k) = Inr True) ks'"
proof (induction ks arbitrary: ks' b)
  case (Cons k ks)
  from Cons.prems show ?case
  proof (cases rule: resign_loop_Cons)
    case (renewed k1 ks1 r1)
    then obtain b1 where "r1 = Inr b1"
      by (cases r1) simp_all
    with renewed Cons.IH resigned_prekey_verifies(1) [OF assms] show ?thesis
      by simp
  qed (simp_all add: Cons.IH)
qed simp

lemma resign_loop_unchanged: "resign_loop p pk sk ks = (ks', Inr False) \<Longrightarrow> ks' = ks"
proof (induction ks arbitrary: ks')
  case (Cons k ks)
  from Cons.prems show ?case
  proof (cases rule: resign_loop_Cons)
    case (renewed k1 ks1 r1)
    then show ?thesis
      by (cases r1) simp_all
  qed (simp_all add: Cons.IH)
qed simp

lemma generate_signed_prekey_Inr:
  "generate_signed_prekey p rnd now sk i = Inr k \<Longrightarrow> spk_id k = i \<and> spk_created_at k = now"
  by (auto simp: generate_signed_prekey_def bindR_eq_Inr)

lemma rotate_Inr:
  assumes "rotate_signed_prekey p rnd now sk v = (v', Inr ())"
  obtains k where "generate_signed_prekey p rnd now sk (v_next_spk_id v) = Inr k"
    and "v' = v\<lparr>v_signed_prekeys := drop (length (v_signed_prekeys v) - 1) (v_signed_prekeys v) @ [k],
      v_next_spk_id := v_next_spk_id v + 1\<rparr>"
proof (cases "generate_signed_prekey p rnd now sk (v_next_spk_id v)")
  case (Inl e)
  with assms show thesis
    by (simp add: rotate_signed_prekey_def)
next
  case (Inr k)
  let ?ks = "v_signed_prekeys v"
  have "keep_newest (?ks @ [k]) = drop (length ?ks - 1) ?ks @ [k]"
    by (simp add: keep_newest_eq)
  with assms Inr show thesis
    by (intro that [of k]) (simp_all add: rotate_signed_prekey_def)
qed

lemma drop_sublist: "set (drop n xs) \<subseteq> set xs"
  by (rule set_drop_subset)

lemma u32_below_Suc: "v \<noteq> (-1 :: u32) \<Longrightarrow> v < v + 1"
proof -
  assume "v \<noteq> -1"
  then have "1 + v \<noteq> 0"
    by (metis add.commute add_eq_0_iff)
  then have "unat (v + 1) = unat v + 1"
    by (simp add: unatSuc add.commute)
  then show "v < v + 1"
    by (simp add: word_less_nat_alt)
qed

lemma ids_below_step:
  assumes "ids_below (\<lambda>i. i < n) xs" and "n \<noteq> (-1 :: u32)"
  shows "ids_below (\<lambda>i. i < n + 1) (drop k xs @ [n])"
proof -
  have lt: "n < n + 1"
    by (rule u32_below_Suc [OF assms(2)])
  have "i < n" if "i \<in> set xs" for i
    using assms(1) that by (simp add: ids_below_def list_all_iff)
  with lt set_drop_subset [of k xs] have "n \<notin> set (drop k xs)" and "\<forall>i \<in> set (drop k xs). i < n + 1"
    by (auto intro: less_trans)
  with assms(1) lt show ?thesis
    by (auto simp: ids_below_def list_all_iff)
qed

lemma rotate_ids:
  assumes "prekey_ids_ok v" and "v_next_spk_id v \<noteq> -1" and "rotate_signed_prekey p rnd now sk v = (v', Inr ())"
  shows "prekey_ids_ok v'" and "length (v_signed_prekeys v') \<le> 2"
proof -
  obtain k where k: "generate_signed_prekey p rnd now sk (v_next_spk_id v) = Inr k"
    and v': "v' = v\<lparr>v_signed_prekeys := drop (length (v_signed_prekeys v) - 1) (v_signed_prekeys v) @ [k],
      v_next_spk_id := v_next_spk_id v + 1\<rparr>"
    by (rule rotate_Inr [OF assms(3)])
  have "ids_below (\<lambda>i. i < v_next_spk_id v + 1)
      (drop (length (v_signed_prekeys v) - 1) (map spk_id (v_signed_prekeys v)) @ [v_next_spk_id v])"
    by (rule ids_below_step) (use assms(1,2) in \<open>simp_all add: prekey_ids_ok_def\<close>)
  then show "prekey_ids_ok v'"
    using assms(1) generate_signed_prekey_Inr [OF k] by (simp add: prekey_ids_ok_def v' drop_map)
  show "length (v_signed_prekeys v') \<le> 2"
    by (simp add: v')
qed

text \<open>A batch of one-time prekeys takes the next ids.\<close>

lemma unat_below: "unat n + k < 4294967296 \<Longrightarrow> unat (n + word_of_nat k :: u32) = unat n + k"
  by (simp add: unat_word_ariths unat_of_nat)

lemma replenish_ids:
  assumes "prekey_ids_ok v" and "unat (v_next_otpk_id v) + length rnds < 4294967296"
    and "replenish_one_time_prekeys p rnds v = (v', Inr ())"
  shows "prekey_ids_ok v'" and "length (v_one_time_prekeys v') = length (v_one_time_prekeys v) + length rnds"
proof -
  let ?n = "v_next_otpk_id v" and ?old = "map otpk_id (v_one_time_prekeys v)"
  obtain fresh where f: "generate_one_time_prekeys p rnds ?n = Inr fresh"
    and v': "v' = v\<lparr>v_next_otpk_id := ?n + word_of_nat (length rnds), v_one_time_prekeys := v_one_time_prekeys v @ fresh\<rparr>"
    using assms(3) by (cases "generate_one_time_prekeys p rnds ?n") (simp_all add: replenish_one_time_prekeys_def)
  note ids = one_time_prekey_ids [OF f]
  have u: "unat (?n + word_of_nat k) = unat ?n + k" if "k \<le> length rnds" for k
    by (rule unat_below) (use that assms(2) in simp)
  have "inj_on (\<lambda>k. ?n + word_of_nat k) {0..<length rnds}"
    by (rule inj_onI) (metis add_left_cancel atLeastLessThan_iff less_imp_le u)
  then have d: "distinct (map otpk_id fresh)"
    using ids by (simp add: distinct_map)
  have old: "i < ?n" if "i \<in> set ?old" for i
    using assms(1) that by (auto simp: prekey_ids_ok_def ids_below_def list_all_iff)
  have new: "?n \<le> i \<and> i < ?n + word_of_nat (length rnds)" if "i \<in> set (map otpk_id fresh)" for i
    using that ids u by (auto simp: word_le_nat_alt word_less_nat_alt)
  have "?n \<le> ?n + word_of_nat (length rnds)"
    using u by (simp add: word_le_nat_alt)
  then have "ids_below (\<lambda>i. i < ?n + word_of_nat (length rnds)) (?old @ map otpk_id fresh)"
    using assms(1) d old new by (fastforce simp: prekey_ids_ok_def ids_below_def list_all_iff)
  then show "prekey_ids_ok v'"
    using assms(1) by (simp add: prekey_ids_ok_def v')
  show "length (v_one_time_prekeys v') = length (v_one_time_prekeys v) + length rnds"
    using ids by (simp add: v')
qed

text \<open>ML-KEM prekeys share one counter.\<close>

lemma new_pq_prekey_Inr:
  assumes "new_pq_prekey p now seed v = (v', Inr k)"
  shows "v' = v\<lparr>v_next_pq_prekey_id := v_next_pq_prekey_id v + 1\<rparr> \<and> pqk_id k = v_next_pq_prekey_id v"
  using assms by (cases "generate_ml_kem_768 p seed") (auto simp: new_pq_prekey_def)

lemma ids_below_insert:
  assumes "ids_below (\<lambda>i. i < n) (xs @ ys)" and "n \<noteq> (-1 :: u32)"
  shows "ids_below (\<lambda>i. i < n + 1) (xs @ ys @ [n])" and "ids_below (\<lambda>i. i < n + 1) (xs @ n # ys)"
proof -
  show a: "ids_below (\<lambda>i. i < n + 1) (xs @ ys @ [n])"
    using ids_below_step [OF assms, of 0] by simp
  then show "ids_below (\<lambda>i. i < n + 1) (xs @ n # ys)"
    by (auto simp: ids_below_def)
qed

lemma push_pq_ids:
  assumes "prekey_ids_ok v" and "v_next_pq_prekey_id v \<noteq> -1" and "push_pq_one_time p now seed v = (v', Inr ())"
  shows "prekey_ids_ok v'" and "v_next_pq_prekey_id v' = v_next_pq_prekey_id v + 1"
    and "length (v_pq_one_time_prekeys v') = length (v_pq_one_time_prekeys v) + 1"
proof -
  obtain k where k: "new_pq_prekey p now seed v = (v\<lparr>v_next_pq_prekey_id := v_next_pq_prekey_id v + 1\<rparr>, Inr k)"
    and v': "v' = v\<lparr>v_next_pq_prekey_id := v_next_pq_prekey_id v + 1,
      v_pq_one_time_prekeys := v_pq_one_time_prekeys v @ [k]\<rparr>"
  proof -
    obtain v1 k where k: "new_pq_prekey p now seed v = (v1, Inr k)"
      and v': "v' = v1\<lparr>v_pq_one_time_prekeys := v_pq_one_time_prekeys v1 @ [k]\<rparr>"
      using assms(3) unfolding push_pq_one_time_def bindM_eq_Inr by auto
    show thesis
      using new_pq_prekey_Inr [OF k] k v' by (intro that [of k]) simp_all
  qed
  show "prekey_ids_ok v'"
    using assms(1) ids_below_insert(1) [OF _ assms(2), of "map pqk_id (v_pq_signed_prekeys v)" "map pqk_id (v_pq_one_time_prekeys v)"]
      new_pq_prekey_Inr [OF k] by (simp add: prekey_ids_ok_def v')
  show "v_next_pq_prekey_id v' = v_next_pq_prekey_id v + 1"
    and "length (v_pq_one_time_prekeys v') = length (v_pq_one_time_prekeys v) + 1"
    by (simp_all add: v')
qed

text \<open>What each operation leaves of the ids, whether or not it throws.\<close>

lemma resign_ids: "prekey_ids_ok v \<Longrightarrow> prekey_ids_ok (fst (resign_stale_prekeys p pk sk v))"
  by (auto simp: resign_stale_prekeys_def prekey_ids_ok_def split: prod.split dest!: resign_loop_ids)

lemma resign_fields [simp]:
  "v_next_spk_id (fst (resign_stale_prekeys p pk sk v)) = v_next_spk_id v"
  "v_next_otpk_id (fst (resign_stale_prekeys p pk sk v)) = v_next_otpk_id v"
  "v_one_time_prekeys (fst (resign_stale_prekeys p pk sk v)) = v_one_time_prekeys v"
  by (simp_all add: resign_stale_prekeys_def split: prod.split)

lemma rotate_Inl: "rotate_signed_prekey p rnd now sk v = (v', Inl e) \<Longrightarrow> v' = v"
  by (auto simp: rotate_signed_prekey_def bindM_read split: sum.splits)

lemma replenish_Inl: "replenish_one_time_prekeys p rnds v = (v', Inl e) \<Longrightarrow> v' = v"
  by (auto simp: replenish_one_time_prekeys_def bindM_read split: sum.splits)

lemma rotate_ids_any:
  assumes "prekey_ids_ok v" and "v_next_spk_id v \<noteq> -1"
  shows "prekey_ids_ok (fst (rotate_signed_prekey p rnd now sk v))"
    and "v_next_otpk_id (fst (rotate_signed_prekey p rnd now sk v)) = v_next_otpk_id v"
proof -
  obtain v' r where vr: "rotate_signed_prekey p rnd now sk v = (v', r)"
    by (cases "rotate_signed_prekey p rnd now sk v")
  show "prekey_ids_ok (fst (rotate_signed_prekey p rnd now sk v))"
    using assms vr rotate_ids(1) [OF assms, of p rnd now sk v'] by (cases r) (auto dest: rotate_Inl)
  show "v_next_otpk_id (fst (rotate_signed_prekey p rnd now sk v)) = v_next_otpk_id v"
    using vr by (cases r) (auto elim: rotate_Inr dest: rotate_Inl)
qed

lemma replenish_ids_any:
  assumes "prekey_ids_ok v" and "unat (v_next_otpk_id v) + length rnds < 4294967296"
  shows "prekey_ids_ok (fst (replenish_one_time_prekeys p rnds v))"
proof -
  obtain v' r where vr: "replenish_one_time_prekeys p rnds v = (v', r)"
    by (cases "replenish_one_time_prekeys p rnds v")
  then show ?thesis
    using assms replenish_ids(1) [OF assms, of p v'] by (cases r) (auto dest: replenish_Inl)
qed

lemma fst_bindM: "fst (bindM m f s) = (case m s of (s1, Inl e) \<Rightarrow> s1 | (s1, Inr x) \<Rightarrow> fst (f x s1))"
  by (simp add: bindM_def split: prod.split sum.split)

text \<open>The steps of a maintenance run.\<close>

lemma maintain_cases:
  assumes "maintain_prekeys p d pk sk v = (v', r)"
  obtains (stopped) e where "v' = fst (resign_stale_prekeys p pk sk v)" and "r = Inl e"
  | (stuck) v1 resigned e where "resign_stale_prekeys p pk sk v = (v1, Inr resigned)"
      and "spk_stale (ud_now d) v1" and "rotate_signed_prekey p (ud_keypair d) (ud_created d) sk v1 = (v', Inl e)"
      and "r = Inl e"
  | (went_on) v1 v2 resigned x where "resign_stale_prekeys p pk sk v = (v1, Inr resigned)"
      and "(if spk_stale (ud_now d) v1 then rotate_signed_prekey p (ud_keypair d) (ud_created d) sk v1
            else (v1, Inr ())) = (v2, Inr ())"
      and "(if length (v_one_time_prekeys v2) < kReplenishThreshold
            then replenish_one_time_prekeys p (map (ud_otpks d) [0..<kDefaultOtpkCount]) v2 else (v2, Inr ())) = (v', x)"
      and "case x of Inl e \<Rightarrow> r = Inl e
           | Inr y \<Rightarrow> \<exists>rep. r = Inr rep \<and> mr_resigned rep = resigned \<and> mr_spk_rotated rep = spk_stale (ud_now d) v1 \<and>
               (mr_otpk_added rep > 0 \<longleftrightarrow> length (v_one_time_prekeys v2) < kReplenishThreshold)"
proof -
  obtain v1 r1 where a: "resign_stale_prekeys p pk sk v = (v1, r1)"
    by (cases "resign_stale_prekeys p pk sk v")
  show thesis
  proof (cases r1)
    case (Inl e)
    with a assms show thesis
      by (intro stopped [of e]) (simp_all add: maintain_prekeys_def bindM_def)
  next
    case (Inr resigned)
    note a1 = a [unfolded Inr]
    let ?rot = "if spk_stale (ud_now d) v1 then rotate_signed_prekey p (ud_keypair d) (ud_created d) sk v1
      else (v1, Inr ())"
    obtain v2 r2 where b: "?rot = (v2, r2)"
      by (cases ?rot)
    let ?fill = "if length (v_one_time_prekeys v2) < kReplenishThreshold
      then replenish_one_time_prekeys p (map (ud_otpks d) [0..<kDefaultOtpkCount]) v2 else (v2, Inr ())"
    obtain v3 r3 where c: "?fill = (v3, r3)"
      by (cases ?fill)
    show thesis
    proof (cases r2)
      case (Inl e)
      have st: "spk_stale (ud_now d) v1" and rot: "rotate_signed_prekey p (ud_keypair d) (ud_created d) sk v1 = (v2, Inl e)"
        using b Inl by (simp_all split: if_splits)
      have "v' = v2" "r = Inl e"
        using assms a1 st rot by (simp_all add: maintain_prekeys_def bindM_def)
      with a1 st rot show thesis
        by (intro stuck [of v1 resigned e]) simp_all
    next
      case (Inr u)
      have b1: "?rot = (v2, Inr ())"
        using b Inr by simp
      have m: "(v', r) = (case ?fill of (v3, Inl e) \<Rightarrow> (v3, Inl e) | (v3, Inr y) \<Rightarrow>
        (v3, Inr \<lparr>mr_resigned = resigned, mr_spk_rotated = spk_stale (ud_now d) v1,
           mr_otpk_had = (if length (v_one_time_prekeys v2) < kReplenishThreshold then length (v_one_time_prekeys v2) else 0),
           mr_otpk_added = (if length (v_one_time_prekeys v2) < kReplenishThreshold then kDefaultOtpkCount else 0)\<rparr>))"
        using assms a1 b1
        by (simp add: maintain_prekeys_def bindM_def split: if_splits) (simp split: prod.splits sum.splits)+
      show thesis
      proof (rule went_on [OF a1 b1])
        show "?fill = (v', r3)" "case r3 of Inl e \<Rightarrow> r = Inl e
           | Inr y \<Rightarrow> \<exists>rep. r = Inr rep \<and> mr_resigned rep = resigned \<and> mr_spk_rotated rep = spk_stale (ud_now d) v1 \<and>
               (mr_otpk_added rep > 0 \<longleftrightarrow> length (v_one_time_prekeys v2) < kReplenishThreshold)"
          using m c by (cases r3; simp add: kDefaultOtpkCount_def)+
      qed
    qed
  qed
qed

lemma maintain_ids:
  assumes ok: "prekey_ids_ok v" and spk: "v_next_spk_id v \<noteq> -1" and otpk: "unat (v_next_otpk_id v) + 10 < 4294967296"
  shows "prekey_ids_ok (fst (maintain_prekeys p d pk sk v))"
proof -
  have ok1: "prekey_ids_ok (fst (resign_stale_prekeys p pk sk v))"
    by (rule resign_ids [OF ok])
  obtain v' r where m: "maintain_prekeys p d pk sk v = (v', r)"
    by (cases "maintain_prekeys p d pk sk v")
  then have "prekey_ids_ok v'"
  proof (cases rule: maintain_cases)
    case stopped
    with ok1 show ?thesis
      by simp
  next
    case (stuck v1 resigned e)
    with ok1 show ?thesis
      by (auto dest: rotate_Inl)
  next
    case (went_on v1 v2 resigned x)
    have v1: "prekey_ids_ok v1" "v_next_spk_id v1 = v_next_spk_id v" "v_next_otpk_id v1 = v_next_otpk_id v"
      using ok1 resign_fields [of p pk sk v] went_on(1) by simp_all
    have v2: "prekey_ids_ok v2" "v_next_otpk_id v2 = v_next_otpk_id v"
      using v1 spk rotate_ids_any [of v1 p "ud_keypair d" "ud_created d" sk] went_on(2) by (auto split: if_splits)
    show ?thesis
      using v2 otpk replenish_ids_any [of v2 "map (ud_otpks d) [0..<kDefaultOtpkCount]" p] went_on(3)
      by (auto simp: kDefaultOtpkCount_def split: if_splits)
  qed
  with m show ?thesis
    by simp
qed

lemma u32_not_top: "unat n + k < 4294967296 \<Longrightarrow> 0 < k \<Longrightarrow> n \<noteq> (-1 :: u32)"
proof
  assume a: "unat n + k < 4294967296" "0 < k" "n = -1"
  have "unat (-1 :: u32) = 4294967295"
    by transfer (simp add: mask_eq_exp_minus_1)
  with a show False
    by simp
qed

text \<open>A taken id that no key was stored under is only skipped.\<close>

lemma prekey_ids_skip:
  assumes "prekey_ids_ok v" and "v_next_pq_prekey_id v \<noteq> -1"
  shows "prekey_ids_ok (v\<lparr>v_next_pq_prekey_id := v_next_pq_prekey_id v + 1\<rparr>)"
proof -
  have "i < v_next_pq_prekey_id v + 1" if "i < v_next_pq_prekey_id v" for i
    using that u32_below_Suc [OF assms(2)] by (rule less_trans)
  with assms(1) show ?thesis
    by (simp add: prekey_ids_ok_def ids_below_def list_all_iff)
qed

lemma fill_pq_ids:
  assumes "prekey_ids_ok v" and "unat (v_next_pq_prekey_id v) + length seeds < 4294967296"
  shows "prekey_ids_ok (fst (fill_pq_pool p now seeds v))"
  using assms
proof (induction seeds arbitrary: v)
  case (Cons seed seeds)
  have top: "v_next_pq_prekey_id v \<noteq> -1"
    by (rule u32_not_top [OF Cons.prems(2)]) simp
  have up: "unat (v_next_pq_prekey_id v + 1) = unat (v_next_pq_prekey_id v) + 1"
    using unat_below [of "v_next_pq_prekey_id v" 1] Cons.prems(2) by simp
  show ?case
  proof (cases "generate_ml_kem_768 p seed")
    case (Inl e)
    with prekey_ids_skip [OF Cons.prems(1) top] show ?thesis
      by (simp add: bindM_def push_pq_one_time_def new_pq_prekey_def)
  next
    case (Inr k)
    define v1 where "v1 = v\<lparr>v_next_pq_prekey_id := v_next_pq_prekey_id v + 1,
      v_pq_one_time_prekeys := v_pq_one_time_prekeys v @
        [\<lparr>pqk_id = v_next_pq_prekey_id v, pqk_key = k, pqk_created_at = now\<rparr>]\<rparr>"
    have push: "push_pq_one_time p now seed v = (v1, Inr ())"
      using Inr by (simp add: push_pq_one_time_def new_pq_prekey_def bindM_def v1_def)
    have ok: "prekey_ids_ok v1"
      by (rule push_pq_ids(1) [OF Cons.prems(1) top push])
    have "unat (v_next_pq_prekey_id v1) + length seeds < 4294967296"
      using up Cons.prems(2) by (simp add: v1_def)
    from Cons.IH [OF ok this] show ?thesis
      by (simp add: bindM_def push v1_def)
  qed
qed simp

lemma fill_pq_Inr:
  "fill_pq_pool p now seeds v = (v', Inr u) \<Longrightarrow>
     length (v_pq_one_time_prekeys v') = length (v_pq_one_time_prekeys v) + length seeds \<and>
     v_pq_signed_prekeys v' = v_pq_signed_prekeys v"
proof (induction seeds arbitrary: v)
  case (Cons seed seeds)
  then obtain k where k: "generate_ml_kem_768 p seed = Inr k"
    by (cases "generate_ml_kem_768 p seed") (simp_all add: push_pq_one_time_def new_pq_prekey_def bindM_def)
  from Cons.prems have "fill_pq_pool p now seeds (v\<lparr>v_next_pq_prekey_id := v_next_pq_prekey_id v + 1,
      v_pq_one_time_prekeys := v_pq_one_time_prekeys v @
        [\<lparr>pqk_id = v_next_pq_prekey_id v, pqk_key = k, pqk_created_at = now\<rparr>]\<rparr>) = (v', Inr u)"
    by (simp add: push_pq_one_time_def new_pq_prekey_def bindM_def k)
  from Cons.IH [OF this] show ?case
    by simp
qed simp

lemma replenish_pq_ids:
  assumes ok: "prekey_ids_ok v" and room: "unat (v_next_pq_prekey_id v) + 1 + n < 4294967296"
  shows "prekey_ids_ok (fst (replenish_pq_prekeys p now s seeds n v))"
    and "replenish_pq_prekeys p now s seeds n v = (v', Inr u) \<Longrightarrow>
       v_pq_signed_prekeys v' \<noteq> [] \<and> n \<le> length (v_pq_one_time_prekeys v')"
proof -
  have "prekey_ids_ok (fst (replenish_pq_prekeys p now s seeds n v)) \<and>
    (\<forall>v'. replenish_pq_prekeys p now s seeds n v = (v', Inr u) \<longrightarrow>
       v_pq_signed_prekeys v' \<noteq> [] \<and> n \<le> length (v_pq_one_time_prekeys v'))"
  proof (cases "v_pq_signed_prekeys v = []")
    case False
    let ?s = "map seeds [length (v_pq_one_time_prekeys v)..<n]"
    have r: "replenish_pq_prekeys p now s seeds n v = fill_pq_pool p now ?s v"
      using False by (simp add: replenish_pq_prekeys_def bindM_def)
    have "unat (v_next_pq_prekey_id v) + length ?s < 4294967296"
      using room by simp
    from fill_pq_ids [OF ok this, of p now] False show ?thesis
      unfolding r by (auto dest!: fill_pq_Inr)
  next
    case True
    have top: "v_next_pq_prekey_id v \<noteq> -1"
      by (rule u32_not_top [of _ "1 + n"]) (use room in simp_all)
    have up: "unat (v_next_pq_prekey_id v + 1) = unat (v_next_pq_prekey_id v) + 1"
      using unat_below [of "v_next_pq_prekey_id v" 1] room by simp
    show ?thesis
    proof (cases "generate_ml_kem_768 p s")
      case (Inl e)
      with True prekey_ids_skip [OF ok top] show ?thesis
        by (simp add: replenish_pq_prekeys_def bindM_def new_pq_prekey_def)
    next
      case (Inr k)
      define v1 where "v1 = v\<lparr>v_next_pq_prekey_id := v_next_pq_prekey_id v + 1,
        v_pq_signed_prekeys := [\<lparr>pqk_id = v_next_pq_prekey_id v, pqk_key = k, pqk_created_at = now\<rparr>]\<rparr>"
      let ?s = "map seeds [length (v_pq_one_time_prekeys v1)..<n]"
      have r: "replenish_pq_prekeys p now s seeds n v = fill_pq_pool p now ?s v1"
        using True Inr by (simp add: replenish_pq_prekeys_def bindM_def new_pq_prekey_def v1_def)
      have ok1: "prekey_ids_ok v1"
        using ok ids_below_insert(2) [OF _ top, of "[]" "map pqk_id (v_pq_one_time_prekeys v)"] True
        by (simp add: prekey_ids_ok_def v1_def)
      have q: "v_pq_signed_prekeys v1 \<noteq> []"
        by (simp add: v1_def)
      have "unat (v_next_pq_prekey_id v1) + length ?s < 4294967296"
        using up room by (simp add: v1_def)
      from fill_pq_ids [OF ok1 this, of p now] q show ?thesis
        unfolding r by (auto dest!: fill_pq_Inr)
    qed
  qed
  then show "prekey_ids_ok (fst (replenish_pq_prekeys p now s seeds n v))"
    and "replenish_pq_prekeys p now s seeds n v = (v', Inr u) \<Longrightarrow>
       v_pq_signed_prekeys v' \<noteq> [] \<and> n \<le> length (v_pq_one_time_prekeys v')"
    by blast+
qed

text \<open>What each step of maintenance establishes when it succeeds.\<close>

lemma resigned_all:
  assumes "ed25519_law p" and "ed_pair p pk sk" and "resign_stale_prekeys p pk sk v = (v1, Inr b)"
  shows "list_all (\<lambda>k. verify_signed_prekey_signature p pk (spk_id k) (spk_pub k) (spk_signature k) = Inr True)
      (v_signed_prekeys v1) \<and> (b \<or> v1 = v)"
proof -
  obtain ks where l: "resign_loop p pk sk (v_signed_prekeys v) = (ks, Inr b)" and v1: "v1 = v\<lparr>v_signed_prekeys := ks\<rparr>"
    using assms(3) by (auto simp: resign_stale_prekeys_def split: prod.splits)
  have "v1 = v" if "\<not> b"
    using resign_loop_unchanged l that by (simp add: v1)
  with resign_loop_verifies [OF assms(1,2) l] show ?thesis
    by (auto simp: v1)
qed

lemma rotated_all:
  assumes "ed25519_law p" and "ed_pair p pk sk"
    and "list_all (\<lambda>k. verify_signed_prekey_signature p pk (spk_id k) (spk_pub k) (spk_signature k) = Inr True)
      (v_signed_prekeys v1)"
    and "(if spk_stale now v1 then rotate_signed_prekey p rnd t sk v1 else (v1, Inr ())) = (v2, Inr ())"
  shows "list_all (\<lambda>k. verify_signed_prekey_signature p pk (spk_id k) (spk_pub k) (spk_signature k) = Inr True)
      (v_signed_prekeys v2) \<and> v_signed_prekeys v2 \<noteq> [] \<and>
    (spk_created_at (last (v_signed_prekeys v2)) = t \<or>
     age_seconds now (spk_created_at (last (v_signed_prekeys v2))) \<le> kSpkMaxAgeSeconds) \<and>
    (spk_stale now v1 \<or> v2 = v1)"
proof (cases "spk_stale now v1")
  case True
  with assms(4) have "rotate_signed_prekey p rnd t sk v1 = (v2, Inr ())"
    by simp
  then obtain k where k: "generate_signed_prekey p rnd t sk (v_next_spk_id v1) = Inr k"
    and v2: "v2 = v1\<lparr>v_signed_prekeys := drop (length (v_signed_prekeys v1) - 1) (v_signed_prekeys v1) @ [k],
      v_next_spk_id := v_next_spk_id v1 + 1\<rparr>"
    by (rule rotate_Inr)
  from True assms(3) generated_prekey_verifies [OF assms(1,2) k] generate_signed_prekey_Inr [OF k]
    set_drop_subset [of "length (v_signed_prekeys v1) - 1" "v_signed_prekeys v1"]
  show ?thesis
    by (auto simp: v2 list_all_iff)
next
  case False
  with assms(3,4) show ?thesis
    by (auto simp: spk_stale_def)
qed

lemma replenished_all:
  assumes "(if length (v_one_time_prekeys v2) < kReplenishThreshold
      then replenish_one_time_prekeys p (map f [0..<kDefaultOtpkCount]) v2 else (v2, Inr ())) = (v', Inr ())"
  shows "v_signed_prekeys v' = v_signed_prekeys v2 \<and> 5 \<le> length (v_one_time_prekeys v') \<and>
    (length (v_one_time_prekeys v2) < kReplenishThreshold \<or> v' = v2)"
proof (cases "length (v_one_time_prekeys v2) < kReplenishThreshold")
  case True
  with assms obtain fresh where f: "generate_one_time_prekeys p (map f [0..<kDefaultOtpkCount]) (v_next_otpk_id v2) = Inr fresh"
    and v': "v' = v2\<lparr>v_next_otpk_id := v_next_otpk_id v2 + word_of_nat kDefaultOtpkCount,
      v_one_time_prekeys := v_one_time_prekeys v2 @ fresh\<rparr>"
    by (auto simp: replenish_one_time_prekeys_def bindM_read split: sum.splits)
  from one_time_prekey_ids [OF f] have "length fresh = 10"
    by (simp add: kDefaultOtpkCount_def)
  with True show ?thesis
    by (simp add: v')
qed (use assms in \<open>simp add: kReplenishThreshold_def\<close>)

section \<open>Properties\<close>

text \<open>C38: Maintenance, whatever it meets, keeps every stored prekey's id distinct from the others of its kind and
  below its counter, so no id is handed out twice while the 32-bit counters do not wrap. When it returns, every
  signed prekey's signature verifies under the identity, there is a newest signed prekey at most thirty days old
  by the clock it read (or made in this run), at least five one-time prekeys are stocked, and the report says
  "unchanged" only when the vault is unchanged.\<close>

theorem maintained_prekeys_usable:
  assumes "ed25519_law p" and "ed_pair p pk sk" and "prekey_ids_ok v" and "v_next_spk_id v \<noteq> -1"
    and "unat (v_next_otpk_id v) + 10 < 4294967296"
    and "maintain_prekeys p d pk sk v = (v', r)"
  shows "prekey_ids_ok v' \<and>
    (case r of Inl e \<Rightarrow> True
     | Inr rep \<Rightarrow>
         list_all (\<lambda>k. verify_signed_prekey_signature p pk (spk_id k) (spk_pub k) (spk_signature k) = Inr True)
           (v_signed_prekeys v') \<and>
         v_signed_prekeys v' \<noteq> [] \<and>
         (let t = spk_created_at (last (v_signed_prekeys v'))
          in t = ud_created d \<or> age_seconds (ud_now d) t \<le> kSpkMaxAgeSeconds) \<and>
         5 \<le> length (v_one_time_prekeys v') \<and>
         (mr_changed rep \<or> v' = v))"
proof
  show "prekey_ids_ok v'"
    using maintain_ids [OF assms(3-5), of p d pk sk] assms(6) by simp
next
  let ?ok = "\<lambda>k. verify_signed_prekey_signature p pk (spk_id k) (spk_pub k) (spk_signature k) = Inr True"
  show "case r of Inl e \<Rightarrow> True | Inr rep \<Rightarrow> list_all ?ok (v_signed_prekeys v') \<and> v_signed_prekeys v' \<noteq> [] \<and>
         (let t = spk_created_at (last (v_signed_prekeys v'))
          in t = ud_created d \<or> age_seconds (ud_now d) t \<le> kSpkMaxAgeSeconds) \<and>
         5 \<le> length (v_one_time_prekeys v') \<and> (mr_changed rep \<or> v' = v)"
    using assms(6)
  proof (cases rule: maintain_cases)
    case (went_on v1 v2 resigned x)
    show ?thesis
    proof (cases x)
      case (Inl e)
      with went_on(4) show ?thesis
        by simp
    next
      case (Inr u)
      have v1: "list_all ?ok (v_signed_prekeys v1)" "resigned \<or> v1 = v"
        using resigned_all [OF assms(1,2) went_on(1)] by simp_all
      have v2: "list_all ?ok (v_signed_prekeys v2) \<and> v_signed_prekeys v2 \<noteq> [] \<and>
          (spk_created_at (last (v_signed_prekeys v2)) = ud_created d \<or>
           age_seconds (ud_now d) (spk_created_at (last (v_signed_prekeys v2))) \<le> kSpkMaxAgeSeconds) \<and>
          (spk_stale (ud_now d) v1 \<or> v2 = v1)"
        using rotated_all [OF assms(1,2) v1(1)] went_on(2) by blast
      have v': "v_signed_prekeys v' = v_signed_prekeys v2 \<and> 5 \<le> length (v_one_time_prekeys v') \<and>
          (length (v_one_time_prekeys v2) < kReplenishThreshold \<or> v' = v2)"
        using replenished_all went_on(3) Inr by (cases u) blast
      from went_on(4) Inr obtain rep where r: "r = Inr rep" and rep: "mr_resigned rep = resigned"
          "mr_spk_rotated rep = spk_stale (ud_now d) v1"
          "mr_otpk_added rep > 0 \<longleftrightarrow> length (v_one_time_prekeys v2) < kReplenishThreshold"
        by auto
      have "mr_changed rep \<or> v' = v"
        using v1(2) v2 v' rep by (auto simp: mr_changed_def)
      with v2 v' show ?thesis
        by (simp add: r Let_def)
    qed
  qed simp_all
qed

lemma maintained_prekeys_usable_witness:
  "\<exists>pk sk d v' rep. derive_identity sample_prims [1] = Inr (pk, sk) \<and>
     maintain_prekeys sample_prims d pk sk
       (sample_store\<lparr>v_signed_prekeys := [], v_next_spk_id := 2, v_one_time_prekeys := [], v_next_otpk_id := 2,
          v_pq_signed_prekeys := [], v_pq_one_time_prekeys := []\<rparr>) = (v', Inr rep) \<and>
     v_signed_prekeys v' \<noteq> [] \<and> 5 \<le> length (v_one_time_prekeys v') \<and> prekey_ids_ok v'"
proof -
  obtain pk sk where id: "derive_identity sample_prims [1] = Inr (pk, sk)"
    by (auto simp: derive_identity_def hkdf_expand_def sample_prims_def)
  let ?v = "sample_store\<lparr>v_signed_prekeys := [], v_next_spk_id := 2, v_one_time_prekeys := [], v_next_otpk_id := 2,
    v_pq_signed_prekeys := [], v_pq_one_time_prekeys := []\<rparr>"
  let ?d = "\<lparr>ud_now = 100, ud_keypair = [5], ud_created = 100, ud_otpks = \<lambda>i. [6]\<rparr>"
  obtain m where "spk_signing_payload 2 (fit 32 [5]) = Inr m"
    using spk_payload_ok by blast
  then obtain k where k: "generate_signed_prekey sample_prims [5] 100 sk 2 = Inr k"
    by (simp add: generate_signed_prekey_def generate_keypair_def sign_def sample_prims_def)
  have "\<exists>out. generate_one_time_prekeys sample_prims rnds i = Inr out" for rnds i
    by (induction rnds arbitrary: i) (auto simp: generate_keypair_def sample_prims_def bindR_eq_Inr)
  then obtain ks where ks: "generate_one_time_prekeys sample_prims (map (ud_otpks ?d) [0..<kDefaultOtpkCount]) 2 = Inr ks"
    by blast
  obtain v' rep where m: "maintain_prekeys sample_prims ?d pk sk ?v = (v', Inr rep)"
    using k ks by (simp add: maintain_prekeys_def resign_stale_prekeys_def rotate_signed_prekey_def spk_stale_def
        replenish_one_time_prekeys_def bindM_def kReplenishThreshold_def keep_newest_eq)
  have ok: "prekey_ids_ok ?v"
    by (simp add: prekey_ids_ok_def ids_below_def)
  have "v_next_spk_id ?v \<noteq> -1"
    by (rule u32_not_top [of _ 1]) simp_all
  from maintained_prekeys_usable [OF sample_ed25519 derive_identity_pair [OF id] ok this _ m]
  have "v_signed_prekeys v' \<noteq> [] \<and> 5 \<le> length (v_one_time_prekeys v') \<and> prekey_ids_ok v'"
    by simp
  with id m show ?thesis
    by blast
qed

end
