(* ===== verification/Lifetime.thy ===== *)
theory Lifetime
  imports First_Message Maintenance
begin

text \<open>
  The life of a vault between opening and closing: any sequence of sends, receipts, maintenance and edits of
  contacts. The replay record of an accepted opening may be pruned once its signed prekey is gone, so "accepted
  at most once" is a property of the session code, the prune of the store and the id counters together.
\<close>

section \<open>The operations as steps\<close>

inductive vault_step :: "prims \<Rightarrow> vault_store \<Rightarrow> vault_store \<Rightarrow> bool" for p where
  sent: "send p sd sk ik ci m v = (v', res) \<Longrightarrow> vault_step p v v'"
| received: "receive p rd sk ik block v = (v', res') \<Longrightarrow> vault_step p v v'"
| resigned: "resign_stale_prekeys p ik sk v = (v', res'') \<Longrightarrow> vault_step p v v'"
| rotated: "v_next_spk_id v \<noteq> -1 \<Longrightarrow> rotate_signed_prekey p rnd now sk v = (v', u) \<Longrightarrow> vault_step p v v'"
| maintained: "v_next_spk_id v \<noteq> -1 \<Longrightarrow> maintain_prekeys p d ik sk v = (v', rep) \<Longrightarrow> vault_step p v v'"
| replenished: "replenish_one_time_prekeys p rnds v = (v', u) \<Longrightarrow> vault_step p v v'"
| pq_replenished: "replenish_pq_prekeys p now s seeds n v = (v', u) \<Longrightarrow> vault_step p v v'"
| expired: "vault_expire_skipped_keys now v = (v', dropped) \<Longrightarrow> vault_step p v v'"
| edited: "vault_step p v (v\<lparr>v_contacts := cs, v_sessions := ss\<rparr>)"
| saved: "vault_step p v (v\<lparr>v_vault_id := i, v_generation := g, v_previous_digest := h\<rparr>)"

text \<open>What a step may do to the signed prekeys and to the replay history.\<close>

definition spks_below :: "vault_store \<Rightarrow> bool" where
  "spks_below v \<longleftrightarrow> list_all (\<lambda>k. spk_id k < v_next_spk_id v) (v_signed_prekeys v)"

definition history_step :: "vault_store \<Rightarrow> vault_store \<Rightarrow> bool" where
  "history_step v v' \<longleftrightarrow> v_next_spk_id v \<le> v_next_spk_id v' \<and>
     (\<forall>k \<in> set (v_signed_prekeys v'). (spk_id k \<in> spk_id ` set (v_signed_prekeys v) \<or> v_next_spk_id v \<le> spk_id k) \<and>
        (spks_below v \<longrightarrow> spk_id k < v_next_spk_id v')) \<and>
     (\<forall>h \<in> set (v_accepted_handshakes v). spent_handshake v h \<or> h \<in> set (v_accepted_handshakes v'))"

lemma history_step_same:
  assumes "v_signed_prekeys v' = v_signed_prekeys v" and "v_next_spk_id v' = v_next_spk_id v"
    and "\<And>h. h \<in> set (v_accepted_handshakes v) \<Longrightarrow> spent_handshake v h \<or> h \<in> set (v_accepted_handshakes v')"
  shows "history_step v v'"
  using assms by (simp add: history_step_def spks_below_def list_all_iff)

lemma history_step_refl: "history_step v v"
  by (rule history_step_same) simp_all

lemma history_step_trans:
  assumes "history_step v1 v2" and "history_step v2 v3"
    and "v_accepted_handshakes v2 = v_accepted_handshakes v1" and "v_accepted_handshakes v3 = v_accepted_handshakes v2"
  shows "history_step v1 v3"
  using assms by (fastforce simp: history_step_def spks_below_def list_all_iff)

lemma send_history:
  assumes "send p d sk ik ci m v = (v', r)"
  shows "history_step v v'"
proof (cases r)
  case (Inl e)
  with assms send_error show ?thesis
    by (metis history_step_refl)
next
  case (Inr block)
  have "v_signed_prekeys v' = v_signed_prekeys v \<and> v_next_spk_id v' = v_next_spk_id v \<and>
      v_accepted_handshakes v' = v_accepted_handshakes v"
    using assms unfolding Inr send_def split_beta
    by (auto simp: bindM_eq_Inr split: option.splits)
  then show ?thesis
    by (intro history_step_same) simp_all
qed

lemma pruned_history: "history_step v (fst (prune_old_handshakes v))"
  by (rule history_step_same) (auto simp: prune_fst)

lemma commit_next_spk [simp]: "v_next_spk_id (commit_opening ci su nk s v) = v_next_spk_id v"
  by (simp add: commit_opening_def install_session_def Let_def split: option.split)

lemma advance_history:
  assumes "advance_session p d env i v = (v', r)"
  shows "history_step v v'"
  by (rule history_step_same)
    (use assms in \<open>auto simp: advance_session_def set_session_def split: if_splits sum.splits prod.splits\<close>)

lemma receive_history:
  assumes "receive p d sk ik block v = (v', r)"
  shows "history_step v v'"
proof (cases r)
  case (Inl e)
  with assms receive_error show ?thesis
    by (metis history_step_refl pruned_history)
next
  case (Inr x)
  with assms obtain env where e: "message_decode p block = Inr env"
    and s: "(case env_initial env of Some f \<Rightarrow> receive_opening p d sk ik env f
       | None \<Rightarrow> receive_established p d env) v = (v', Inr x)"
    by (auto simp: receive_def bindM_eq_Inr)
  show ?thesis
  proof (cases "env_initial env")
    case None
    with s advance_history show ?thesis
      by (auto elim!: receive_established_Inr)
  next
    case (Some f)
    with s obtain ci v1 nk fresh where a: "admit_opening env f v = (v1, Inr ci)"
      and v': "v' = commit_opening ci (env_suite env) nk fresh (v1\<lparr>v_accepted_handshakes := v_accepted_handshakes v1 @
           [\<lparr>ah_initiator_identity = initiator_identity_pub f, ah_ephemeral_pub = h_dh_pub (env_header env),
             ah_accepted_at = rd_now d, ah_spk_id = init_spk_id f\<rparr>]\<rparr>)"
      by (auto elim: receive_opening_Inr)
    show ?thesis
      by (rule history_step_same)
        (use admit_opening_state [OF a] in \<open>auto simp: v' prune_fst\<close>)
  qed
qed

text \<open>Maintenance leaves the history alone and takes new ids from the counter.\<close>

definition quiet_step :: "vault_store \<Rightarrow> vault_store \<Rightarrow> bool" where
  "quiet_step v v' \<longleftrightarrow> history_step v v' \<and> v_accepted_handshakes v' = v_accepted_handshakes v"

lemma quiet_refl: "quiet_step v v"
  by (simp add: quiet_step_def history_step_refl)

lemma quiet_trans: "quiet_step v1 v2 \<Longrightarrow> quiet_step v2 v3 \<Longrightarrow> quiet_step v1 v3"
  unfolding quiet_step_def using history_step_trans by auto

lemma quiet_same:
  "v_signed_prekeys v' = v_signed_prekeys v \<Longrightarrow> v_next_spk_id v' = v_next_spk_id v \<Longrightarrow>
   v_accepted_handshakes v' = v_accepted_handshakes v \<Longrightarrow> quiet_step v v'"
  by (simp add: quiet_step_def history_step_same)

lemma resign_quiet: "quiet_step v (fst (resign_stale_prekeys p pk sk v))"
proof -
  obtain ks r where l: "resign_loop p pk sk (v_signed_prekeys v) = (ks, r)"
    by (cases "resign_loop p pk sk (v_signed_prekeys v)")
  have "spk_id ` set ks = spk_id ` set (v_signed_prekeys v)"
    using resign_loop_ids [OF l] by (metis list.set_map)
  then have "spk_id k \<in> spk_id ` set (v_signed_prekeys v)" if "k \<in> set ks" for k
    using that by blast
  with l show ?thesis
    by (fastforce simp: quiet_step_def history_step_def resign_stale_prekeys_def spks_below_def list_all_iff)
qed

lemma rotate_quiet:
  assumes "v_next_spk_id v \<noteq> -1"
  shows "quiet_step v (fst (rotate_signed_prekey p rnd now sk v))"
proof -
  obtain v' r where vr: "rotate_signed_prekey p rnd now sk v = (v', r)"
    by (cases "rotate_signed_prekey p rnd now sk v")
  show ?thesis
  proof (cases r)
    case (Inl e)
    with vr show ?thesis
      by (auto dest: rotate_Inl simp: quiet_refl)
  next
    case (Inr u)
    with vr obtain k where k: "generate_signed_prekey p rnd now sk (v_next_spk_id v) = Inr k"
      and v': "v' = v\<lparr>v_signed_prekeys := drop (length (v_signed_prekeys v) - 1) (v_signed_prekeys v) @ [k],
        v_next_spk_id := v_next_spk_id v + 1\<rparr>"
      by (auto elim: rotate_Inr)
    note lt = u32_below_Suc [OF assms]
    have "spk_id c \<in> spk_id ` set (v_signed_prekeys v) \<and> (spks_below v \<longrightarrow> spk_id c < v_next_spk_id v + 1)"
      if "c \<in> set (drop (length (v_signed_prekeys v) - 1) (v_signed_prekeys v))" for c
      using that set_drop_subset less_trans [OF _ lt] by (fastforce simp: spks_below_def list_all_iff)
    with lt generate_signed_prekey_Inr [OF k] show ?thesis
      by (auto simp: vr v' quiet_step_def history_step_def intro: less_imp_le)
  qed
qed

lemma replenish_quiet: "quiet_step v (fst (replenish_one_time_prekeys p rnds v))"
  by (rule quiet_same) (simp_all add: replenish_one_time_prekeys_def bindM_read split: sum.split)

lemma fill_pq_quiet: "quiet_step v (fst (fill_pq_pool p now seeds v))"
proof (induction seeds arbitrary: v)
  case (Cons seed seeds)
  have q: "quiet_step v (fst (push_pq_one_time p now seed v))"
    by (rule quiet_same) (simp_all add: push_pq_one_time_def new_pq_prekey_def bindM_def split: sum.split)
  show ?case
  proof (cases "push_pq_one_time p now seed v")
    case (Pair v1 r)
    with q show ?thesis
      by (cases r) (auto simp: bindM_def intro: quiet_trans Cons.IH)
  qed
qed (simp add: quiet_refl)

lemma replenish_pq_quiet: "quiet_step v (fst (replenish_pq_prekeys p now s seeds n v))"
proof -
  let ?first = "\<lambda>v. if v_pq_signed_prekeys v = [] then
      bindM (new_pq_prekey p now s) (\<lambda>k. modifyM (\<lambda>v. v\<lparr>v_pq_signed_prekeys := v_pq_signed_prekeys v @ [k]\<rparr>)) v
    else (v, Inr ())"
  have q: "quiet_step v (fst (?first v))"
    by (rule quiet_same) (simp_all add: new_pq_prekey_def bindM_def split: sum.split)
  show ?thesis
  proof (cases "?first v")
    case (Pair v1 r)
    with q show ?thesis
      by (cases r) (auto simp: replenish_pq_prekeys_def bindM_def intro: quiet_trans fill_pq_quiet)
  qed
qed

lemma maintain_quiet:
  assumes "v_next_spk_id v \<noteq> -1"
  shows "quiet_step v (fst (maintain_prekeys p d pk sk v))"
proof -
  obtain v' r where m: "maintain_prekeys p d pk sk v = (v', r)"
    by (cases "maintain_prekeys p d pk sk v")
  then have "quiet_step v v'"
  proof (cases rule: maintain_cases)
    case (stuck v1 resigned e)
    with resign_quiet [of v p pk sk] show ?thesis
      by (auto dest: rotate_Inl)
  next
    case (went_on v1 v2 resigned x)
    have 1: "quiet_step v v1" and n: "v_next_spk_id v1 \<noteq> -1"
      using resign_quiet [of v p pk sk] resign_fields(1) [of p pk sk v] went_on(1) assms by simp_all
    have 2: "quiet_step v1 v2"
      using rotate_quiet [OF n, of p "ud_keypair d" "ud_created d" sk] went_on(2) quiet_refl
      by (auto split: if_splits)
    have 3: "quiet_step v2 v'"
      using replenish_quiet [of v2 p "map (ud_otpks d) [0..<kDefaultOtpkCount]"] went_on(3) quiet_refl
      by (auto split: if_splits)
    show ?thesis
      using 1 2 3 quiet_trans by blast
  qed (simp add: resign_quiet)
  with m show ?thesis
    by simp
qed

lemma vault_step_history: "vault_step p v v' \<Longrightarrow> history_step v v'"
proof (induction rule: vault_step.induct)
  case (sent sd sk ik ci m v v' res)
  then show ?case
    by (rule send_history)
next
  case (received rd sk ik block v v' res')
  then show ?case
    by (rule receive_history)
next
  case (resigned ik sk v v' res'')
  then show ?case
    using resign_quiet [of v p ik sk] by (simp add: quiet_step_def)
next
  case (rotated v rnd now sk v' u)
  then show ?case
    using rotate_quiet [of v p rnd now sk] by (simp add: quiet_step_def)
next
  case (maintained v d ik sk v' rep)
  then show ?case
    using maintain_quiet [of v p d ik sk] by (simp add: quiet_step_def)
next
  case (replenished rnds v v' u)
  then show ?case
    using replenish_quiet [of v p rnds] by (simp add: quiet_step_def)
next
  case (pq_replenished now s seeds n v v' u)
  then show ?case
    using replenish_pq_quiet [of v p now s seeds n] by (simp add: quiet_step_def)
qed (auto simp: vault_expire_skipped_keys_def Let_def intro: history_step_same)

section \<open>An opening is accepted once\<close>

text \<open>What identifies an opening: the initiator, its ephemeral key, and the signed prekey it was made for.\<close>

definition opening_of :: "prims \<Rightarrow> string \<Rightarrow> (bytes \<times> bytes \<times> u32) option" where
  "opening_of p block = (case message_decode p block of
     Inl e \<Rightarrow> None
   | Inr env \<Rightarrow> map_option (\<lambda>f. (initiator_identity_pub f, h_dh_pub (env_header env), init_spk_id f)) (env_initial env))"

text \<open>An opening is used up: it is on record, or its signed prekey is gone and its id will not come back.\<close>

fun used_up :: "bytes \<times> bytes \<times> u32 \<Rightarrow> vault_store \<Rightarrow> bool" where
  "used_up (ik, ek, i) v \<longleftrightarrow> spks_below v \<and> i < v_next_spk_id v \<and>
     (list_ex (\<lambda>h. ah_initiator_identity h = ik \<and> ah_ephemeral_pub h = ek \<and> ah_spk_id h = i) (v_accepted_handshakes v) \<or>
      i \<notin> spk_id ` set (v_signed_prekeys v))"

lemma used_up_step:
  assumes "used_up (ik, ek, i) v" and "history_step v v'"
  shows "used_up (ik, ek, i) v'"
proof -
  have below: "spks_below v'" "i < v_next_spk_id v'"
    using assms by (auto simp: history_step_def spks_below_def [of v'] list_all_iff)
  have gone: "i \<notin> spk_id ` set (v_signed_prekeys v')" if "i \<notin> spk_id ` set (v_signed_prekeys v)"
    using that assms by (fastforce simp: history_step_def)
  show ?thesis
  proof (cases "i \<in> spk_id ` set (v_signed_prekeys v)")
    case True
    then obtain h where h: "h \<in> set (v_accepted_handshakes v)" "ah_initiator_identity h = ik"
        "ah_ephemeral_pub h = ek" "ah_spk_id h = i"
      using assms(1) by (auto simp: list_ex_iff)
    with True have "\<not> spent_handshake v h"
      by (simp add: spent_handshake_iff)
    with h assms(2) have "h \<in> set (v_accepted_handshakes v')"
      by (auto simp: history_step_def)
    with h below show ?thesis
      by (auto simp: list_ex_iff)
  qed (use gone below in simp)
qed

lemma used_up_run: "(vault_step p)\<^sup>*\<^sup>* v v' \<Longrightarrow> used_up w v \<Longrightarrow> used_up w v'"
proof (induction rule: rtranclp_induct)
  case (step v1 v2)
  with used_up_step vault_step_history show ?case
    by (cases w) blast
qed

text \<open>A used-up opening is refused; an accepted one is used up.\<close>

lemma used_up_refused:
  assumes "used_up w v" and "opening_of p block = Some w"
  shows "\<exists>v' e. receive p d sk ik block v = (v', Inl e)"
proof (cases "receive p d sk ik block v")
  case (Pair v' r)
  obtain env f where e: "message_decode p block = Inr env" "env_initial env = Some f"
    and w: "w = (initiator_identity_pub f, h_dh_pub (env_header env), init_spk_id f)"
    using assms(2) by (auto simp: opening_of_def split: sum.splits)
  have "False" if r: "r = Inr x" for x
  proof -
    have "receive_opening p d sk ik env f v = (v', Inr x)"
      using Pair e r by (simp add: receive_def bindM_def)
    then obtain ci v1 nk where a: "admit_opening env f v = (v1, Inr ci)" and l: "lookup_keys v1 f = Inr nk"
      by (auto elim: receive_opening_Inr)
    have "init_spk_id f \<in> spk_id ` set (v_signed_prekeys v)"
      using lookup_keys_Inr(1,2) [OF l] admitted_simps(2) [OF a] by force
    with assms(1) w have "handshake_already_accepted v (initiator_identity_pub f) (h_dh_pub (env_header env))"
      by (auto simp: handshake_already_accepted_iff list_ex_iff)
    with admit_opening_Inr(4) [OF a] show False
      by simp
  qed
  with Pair show ?thesis
    by (cases r) auto
qed

lemma accepted_used_up:
  assumes "receive p d sk ik block v = (v', Inr r)" and "opening_of p block = Some w" and "spks_below v"
  shows "used_up w v'"
proof -
  obtain env f where e: "message_decode p block = Inr env" "env_initial env = Some f"
    and w: "w = (initiator_identity_pub f, h_dh_pub (env_header env), init_spk_id f)"
    using assms(2) by (auto simp: opening_of_def split: sum.splits)
  have o: "receive_opening p d sk ik env f v = (v', Inr r)"
    using assms(1) e by (simp add: receive_def bindM_def)
  then obtain ci v1 nk fresh where a: "admit_opening env f v = (v1, Inr ci)" and l: "lookup_keys v1 f = Inr nk"
    and v': "v' = commit_opening ci (env_suite env) nk fresh (v1\<lparr>v_accepted_handshakes := v_accepted_handshakes v1 @
           [\<lparr>ah_initiator_identity = initiator_identity_pub f, ah_ephemeral_pub = h_dh_pub (env_header env),
             ah_accepted_at = rd_now d, ah_spk_id = init_spk_id f\<rparr>]\<rparr>)"
    by (auto elim: receive_opening_Inr)
  have "init_spk_id f \<in> spk_id ` set (v_signed_prekeys v)"
    using lookup_keys_Inr(1,2) [OF l] admitted_simps(2) [OF a] by force
  then have lt: "init_spk_id f < v_next_spk_id v"
    using assms(3) by (auto simp: spks_below_def list_all_iff)
  have hs: "history_step v v'"
    by (rule receive_history [OF assms(1)])
  have "spks_below v'" "init_spk_id f < v_next_spk_id v'"
    using hs assms(3) lt by (auto simp: history_step_def spks_below_def [of v'] list_all_iff)
  then show ?thesis
    by (simp add: w) (simp add: v')
qed

text \<open>C3: No opening is accepted twice in the life of a vault: once \<open>receive\<close> has accepted one, then after any
  sequence of sends, receipts, saves, contact edits, prekey rotations and maintenance, a block with the same
  initiator, ephemeral key and signed prekey is refused, also when its record has been pruned. The prekey ids
  must lie below their counter at the start, which the operations keep, and rotation must not wrap the counter.\<close>

theorem opening_accepted_once:
  assumes "spks_below v" and "receive p d sk ik block v = (v1, Inr r)" and "opening_of p block = Some w"
    and "(vault_step p)\<^sup>*\<^sup>* v1 v2" and "opening_of p block' = Some w"
  shows "\<exists>v3 e. receive p d' sk' ik' block' v2 = (v3, Inl e)"
  by (rule used_up_refused [OF used_up_run [OF assms(4) accepted_used_up [OF assms(2,3,1)]] assms(5)])

lemma established_opening:
  assumes "receive p d sk ik block v = (v1, Inr r)" and "rr_session_established r"
  obtains w where "opening_of p block = Some w"
proof -
  obtain env where e: "message_decode p block = Inr env"
    and s: "(case env_initial env of Some f \<Rightarrow> receive_opening p d sk ik env f
       | None \<Rightarrow> receive_established p d env) v = (v1, Inr r)"
    using assms(1) by (auto simp: receive_def bindM_eq_Inr)
  have "env_initial env \<noteq> None"
  proof
    assume "env_initial env = None"
    with s have "receive_established p d env v = (v1, Inr r)"
      by simp
    then show False
      by (rule receive_established_Inr) (use assms(2) in simp)
  qed
  then show thesis
    using e that by (auto simp: opening_of_def)
qed

lemma opening_accepted_once_witness:
  "\<exists>v block v1 r v3 e. receive sample_prims sample_recv_draws (fit 32 [2] @ fit 32 [2]) (fit 32 [2]) block v = (v1, Inr r) \<and>
     receive sample_prims sample_recv_draws (fit 32 [2] @ fit 32 [2]) (fit 32 [2]) block
       (v1\<lparr>v_vault_id := [], v_generation := 7, v_previous_digest := []\<rparr>) = (v3, Inl e)"
proof -
  obtain vA vB cd where s: "can_open vA 0 (fit 32 [2]) cd" "can_accept sample_prims vB 0 (fit 32 [1]) (fit 32 [2]) cd"
    and b: "list_all (\<lambda>k. spk_id k < v_next_spk_id vB) (v_signed_prekeys vB)"
    by (rule sample_scene)
  obtain vA' block vB' r where rc: "receive sample_prims sample_recv_draws (fit 32 [2] @ fit 32 [2]) (fit 32 [2]) block vB = (vB', Inr r)"
    and est: "rr_session_established r"
    by (rule first_message [OF sample_message_laws sample_sizes(1) sample_ed_pair sample_ed_pair s sample_sizes(2,3),
      of sample_recv_draws])
  obtain w where w: "opening_of sample_prims block = Some w"
    by (rule established_opening [OF rc est])
  have run: "(vault_step sample_prims)\<^sup>*\<^sup>* vB' (vB'\<lparr>v_vault_id := [], v_generation := 7, v_previous_digest := []\<rparr>)"
    by (rule r_into_rtranclp, rule saved)
  from opening_accepted_once [OF b [folded spks_below_def] rc w run w] rc show ?thesis
    by blast
qed

end
