(* ===== verification/Vault.thy ===== *)
theory Vault
  imports Sample_Prims Serial
begin

text \<open>
  \<open>vault.cpp\<close>, the container: a 41-byte header in clear, authenticated as additional data, and the
  sealed contents. The salt and the nonce that \<open>seal\<close> draws are arguments. The file operations of the
  same source file are in \<open>Drive\<close>.
\<close>

section \<open>Constants and records\<close>

text \<open>The four characters \<open>RCHT\<close>.\<close>

definition kVaultMagic :: bytes where
  "kVaultMagic = [0x52, 0x43, 0x48, 0x54]"

definition kLegacyVersion :: byte where "kLegacyVersion = 2"
definition kVersion :: byte where "kVersion = 3"
definition kWordVersion :: byte where "kWordVersion = 4"

definition uses_word_passphrase :: "byte \<Rightarrow> bool" where
  "uses_word_passphrase version \<longleftrightarrow> version = kWordVersion"

definition kHeaderBytes :: nat where "kHeaderBytes = 41"
definition kTagBytes :: nat where "kTagBytes = 16"
definition kMaxVaultBytes :: nat where "kMaxVaultBytes = 64 * 1024 * 1024"

definition kMinTimeCost :: u32 where "kMinTimeCost = 3"
definition kMaxTimeCost :: u32 where "kMaxTimeCost = 10"
definition kMinMemCostKb :: u32 where "kMinMemCostKb = 64 * 1024"
definition kMaxMemCostKb :: u32 where "kMaxMemCostKb = 1024 * 1024"

record vault_header =
  vh_magic :: bytes
  vh_version :: byte
  vh_salt :: bytes
  vh_time_cost :: u32
  vh_mem_cost_kb :: u32
  vh_nonce :: bytes

record params =
  pr_time_cost :: u32
  pr_mem_cost_kb :: u32

section \<open>Operations\<close>

definition put_u32_le :: "u32 \<Rightarrow> bytes" where
  "put_u32_le v = [ucast (v AND 0xFF), ucast (drop_bit 8 v AND 0xFF),
     ucast (drop_bit 16 v AND 0xFF), ucast (drop_bit 24 v AND 0xFF)]"

text \<open>The four bytes from an offset of the buffer.\<close>

definition get_u32_le :: "bytes \<Rightarrow> nat \<Rightarrow> u32" where
  "get_u32_le d off = ucast (d ! off) OR push_bit 8 (ucast (d ! (off + 1)))
     OR push_bit 16 (ucast (d ! (off + 2))) OR push_bit 24 (ucast (d ! (off + 3)))"

definition check_params :: "u32 \<Rightarrow> u32 \<Rightarrow> unit result" where
  "check_params time_cost mem_cost_kb =
     (if time_cost < kMinTimeCost \<or> time_cost > kMaxTimeCost then Inl (VaultError TimeCostRange)
      else if mem_cost_kb < kMinMemCostKb \<or> mem_cost_kb > kMaxMemCostKb then Inl (VaultError MemCostRange)
      else Inr ())"

definition derive_vault_key :: "prims \<Rightarrow> bytes \<Rightarrow> vault_header \<Rightarrow> bytes result" where
  "derive_vault_key p passphrase h =
     bindR (check_params (vh_time_cost h) (vh_mem_cost_kb h)) (\<lambda>_.
     of_option (VaultError Argon2Memory)
       (argon2id p passphrase (vh_salt h) (vh_time_cost h) (unat (vh_mem_cost_kb h) * 1024)))"

definition serialize_header :: "vault_header \<Rightarrow> bytes result" where
  "serialize_header h =
     (let out = vh_magic h @ [vh_version h] @ vh_salt h @ put_u32_le (vh_time_cost h)
                @ put_u32_le (vh_mem_cost_kb h) @ vh_nonce h
      in if length out \<noteq> kHeaderBytes then Inl (VaultError HeaderSize) else Inr out)"

definition parse_header :: "bytes \<Rightarrow> vault_header result" where
  "parse_header d =
     (if length d < kHeaderBytes then Inl (VaultError HeaderIncomplete)
      else if take 4 d \<noteq> kVaultMagic then Inl (VaultError BadVaultMagic)
      else let version = d ! 4 in
        if version \<noteq> kVersion \<and> version \<noteq> kWordVersion \<and> version \<noteq> kLegacyVersion
        then Inl (VaultError BadVaultVersion)
        else let h = \<lparr>vh_magic = take 4 d, vh_version = version, vh_salt = take 16 (drop 5 d),
                      vh_time_cost = get_u32_le d 21, vh_mem_cost_kb = get_u32_le d 25,
                      vh_nonce = take 12 (drop 29 d)\<rparr>
             in bindR (check_params (vh_time_cost h) (vh_mem_cost_kb h)) (\<lambda>_. Inr h))"

definition seal ::
  "prims \<Rightarrow> bytes \<Rightarrow> bytes \<Rightarrow> bytes \<Rightarrow> bytes \<Rightarrow> params \<Rightarrow> byte \<Rightarrow> bytes result" where
  "seal p salt nonce plaintext passphrase params version =
     bindR (check_params (pr_time_cost params) (pr_mem_cost_kb params)) (\<lambda>_.
       if passphrase = [] then Inl (VaultError EmptyPassphrase)
       else if version \<noteq> kVersion \<and> version \<noteq> kWordVersion then Inl (VaultError SealVersion)
       else let h = \<lparr>vh_magic = kVaultMagic, vh_version = version, vh_salt = salt,
                     vh_time_cost = pr_time_cost params, vh_mem_cost_kb = pr_mem_cost_kb params,
                     vh_nonce = nonce\<rparr>
       in bindR (serialize_header h) (\<lambda>aad.
          bindR (derive_vault_key p passphrase h) (\<lambda>key.
          bindR (of_option (VaultError VaultEncryption) (aead_seal p key nonce aad plaintext)) (\<lambda>ct.
            if length ct \<noteq> length plaintext + kTagBytes then Inl (VaultError VaultCiphertextSize)
            else Inr (aad @ ct)))))"

definition unseal :: "prims \<Rightarrow> bytes \<Rightarrow> bytes \<Rightarrow> bytes result" where
  "unseal p d passphrase =
     (if length d < kHeaderBytes + kTagBytes then Inl (VaultError VaultTooShort)
      else if length d > kMaxVaultBytes then Inl (VaultError VaultTooLong)
      else bindR (parse_header d) (\<lambda>h.
           bindR (serialize_header h) (\<lambda>aad.
           bindR (derive_vault_key p passphrase h) (\<lambda>key.
           of_option (VaultError WrongPassphrase)
             (aead_open p key (vh_nonce h) aad (drop kHeaderBytes d))))))"

section \<open>The header codec\<close>

lemma put_u32_le_eq [simp]: "put_u32_le v = le32 v"
  by (simp only: put_u32_le_def le32_def)

lemma get_u32_le_at:
  assumes "off + 4 \<le> length d"
  shows "take 4 (drop off d) = le32 (get_u32_le d off)"
proof -
  have "get_u32 (drop off d) = Inr (get_u32_le d off, drop 4 (drop off d))"
    using assms by (simp add: get_u32_def get_u32_le_def)
  then have "drop off d = le32 (get_u32_le d off) @ drop 4 (drop off d)"
    by (simp only: get_u32_Inr)
  then have "take 4 (drop off d) = take 4 (le32 (get_u32_le d off) @ drop 4 (drop off d))"
    by simp
  then show ?thesis
    by (simp only: take_append length_le32) simp
qed

definition wf_vault_header :: "vault_header \<Rightarrow> bool" where
  "wf_vault_header h \<longleftrightarrow> vh_magic h = kVaultMagic \<and> vh_version h \<in> {kVersion, kWordVersion, kLegacyVersion} \<and>
     length (vh_salt h) = 16 \<and> length (vh_nonce h) = 12 \<and>
     check_params (vh_time_cost h) (vh_mem_cost_kb h) = Inr ()"

lemma take_split: "take (m + n) d = take m d @ take n (drop m d)"
  by (rule take_add)

lemma parse_header_Inr:
  "parse_header d = Inr h \<longleftrightarrow> 41 \<le> length d \<and> wf_vault_header h \<and>
     take 41 d = kVaultMagic @ [vh_version h] @ vh_salt h @ le32 (vh_time_cost h) @ le32 (vh_mem_cost_kb h) @ vh_nonce h"
proof
  assume r: "parse_header d = Inr h"
  then have l: "41 \<le> length d" and m: "take 4 d = kVaultMagic"
    and h: "h = \<lparr>vh_magic = take 4 d, vh_version = d ! 4, vh_salt = take 16 (drop 5 d),
       vh_time_cost = get_u32_le d 21, vh_mem_cost_kb = get_u32_le d 25, vh_nonce = take 12 (drop 29 d)\<rparr>"
    and v: "d ! 4 \<in> {kVersion, kWordVersion, kLegacyVersion}"
    and c: "check_params (get_u32_le d 21) (get_u32_le d 25) = Inr ()"
    by (auto simp: parse_header_def kHeaderBytes_def Let_def bindR_eq_Inr split: if_splits)
  have "take 41 d = take 4 d @ take 1 (drop 4 d) @ take 16 (drop 5 d) @ take 4 (drop 21 d) @ take 4 (drop 25 d) @ take 12 (drop 29 d)"
    using take_add [of 4 37 d] take_add [of 1 36 "drop 4 d"] take_add [of 16 20 "drop 5 d"]
      take_add [of 4 16 "drop 21 d"] take_add [of 4 12 "drop 25 d"] by simp
  moreover have "take 1 (drop 4 d) = [d ! 4]"
    using l by (simp add: take_Suc_conv_app_nth)
  moreover have "take 4 (drop 21 d) = le32 (get_u32_le d 21)" and "take 4 (drop 25 d) = le32 (get_u32_le d 25)"
    by (rule get_u32_le_at, use l in simp)+
  ultimately show "41 \<le> length d \<and> wf_vault_header h \<and>
     take 41 d = kVaultMagic @ [vh_version h] @ vh_salt h @ le32 (vh_time_cost h) @ le32 (vh_mem_cost_kb h) @ vh_nonce h"
    using l m v c by (simp add: h wf_vault_header_def)
next
  assume a: "41 \<le> length d \<and> wf_vault_header h \<and>
     take 41 d = kVaultMagic @ [vh_version h] @ vh_salt h @ le32 (vh_time_cost h) @ le32 (vh_mem_cost_kb h) @ vh_nonce h"
  then obtain rest where d: "d = kVaultMagic @ [vh_version h] @ vh_salt h @ le32 (vh_time_cost h) @
      le32 (vh_mem_cost_kb h) @ vh_nonce h @ rest"
    by (metis append.assoc append_take_drop_id)
  have w: "length (vh_salt h) = 16" "length (vh_nonce h) = 12" "length kVaultMagic = 4"
    using a by (simp_all add: wf_vault_header_def kVaultMagic_def)
  have "take 4 (drop 21 d) = le32 (vh_time_cost h)" and "take 4 (drop 25 d) = le32 (vh_mem_cost_kb h)"
    using w by (simp_all add: d)
  then have "le32 (get_u32_le d 21) = le32 (vh_time_cost h)" and "le32 (get_u32_le d 25) = le32 (vh_mem_cost_kb h)"
    using a by (simp_all add: get_u32_le_at)
  then have "get_u32_le d 21 = vh_time_cost h" and "get_u32_le d 25 = vh_mem_cost_kb h"
    by (metis get_u32_end sum.inject(2) prod.inject)+
  moreover have "take 4 d = kVaultMagic" "d ! 4 = vh_version h" "take 16 (drop 5 d) = vh_salt h"
      "take 12 (drop 29 d) = vh_nonce h"
    using w by (simp_all add: d nth_append)
  ultimately show "parse_header d = Inr h"
    using a by (auto simp: parse_header_def kHeaderBytes_def wf_vault_header_def)
qed

text \<open>The header as one field of a file: \<open>parse_header\<close> on what is left to read.\<close>

definition take_vault_header :: "bytes \<Rightarrow> (vault_header \<times> bytes) result" where
  "take_vault_header zs = bindR (parse_header zs) (\<lambda>h. Inr (h, drop kHeaderBytes zs))"

lemma serialize_header_Inr:
  assumes "wf_vault_header h"
  shows "serialize_header h = Inr (kVaultMagic @ [vh_version h] @ vh_salt h @ le32 (vh_time_cost h) @
    le32 (vh_mem_cost_kb h) @ vh_nonce h)"
  using assms by (simp add: serialize_header_def wf_vault_header_def kHeaderBytes_def kVaultMagic_def)

interpretation vault_header: canonical_codec serialize_header take_vault_header wf_vault_header
proof
  fix h assume "wf_vault_header h"
  then show "\<exists>bs. serialize_header h = Inr bs"
    by (simp add: serialize_header_Inr)
next
  fix h bs ys assume w: "wf_vault_header h" and s: "serialize_header h = Inr bs"
  then have bs: "bs = kVaultMagic @ [vh_version h] @ vh_salt h @ le32 (vh_time_cost h) @
      le32 (vh_mem_cost_kb h) @ vh_nonce h"
    by (simp add: serialize_header_Inr)
  have l: "length bs = 41"
    unfolding bs using w by (simp add: wf_vault_header_def kVaultMagic_def)
  then have "take 41 (bs @ ys) = bs"
    by simp
  then have "parse_header (bs @ ys) = Inr h"
    using w l by (simp add: parse_header_Inr bs)
  then show "take_vault_header (bs @ ys) = Inr (h, ys)"
    using l by (simp add: take_vault_header_def kHeaderBytes_def)
next
  fix zs h ys assume "take_vault_header zs = Inr (h, ys)"
  then have "parse_header zs = Inr h" and "ys = drop 41 zs"
    by (auto simp: take_vault_header_def bindR_eq_Inr kHeaderBytes_def)
  then show "wf_vault_header h \<and> (\<exists>bs. serialize_header h = Inr bs \<and> zs = bs @ ys)"
    by (metis append_take_drop_id parse_header_Inr serialize_header_Inr)
qed

section \<open>Sealing and unsealing\<close>

text \<open>
  Argon2id with enough memory yields a 32-byte key; an AEAD ciphertext that opens is the one sealing its
  plaintext gives. Both are documented of the primitives.
\<close>

definition argon2_law :: "prims \<Rightarrow> bool" where
  "argon2_law p \<longleftrightarrow> (\<forall>pass salt t m. \<exists>k. argon2id p pass salt t m = Some k \<and> length k = 32)"


lemma derive_vault_key_ok:
  assumes "argon2_law p" and "check_params (vh_time_cost h) (vh_mem_cost_kb h) = Inr ()"
  obtains k where "derive_vault_key p pw h = Inr k" and "length k = 32"
proof -
  obtain k where "argon2id p pw (vh_salt h) (vh_time_cost h) (unat (vh_mem_cost_kb h) * 1024) = Some k" "length k = 32"
    using assms(1) unfolding argon2_law_def by blast
  with assms(2) show thesis
    by (intro that) (simp_all add: derive_vault_key_def)
qed

definition sealed_header :: "bytes \<Rightarrow> bytes \<Rightarrow> params \<Rightarrow> byte \<Rightarrow> vault_header" where
  "sealed_header salt nonce pr version = \<lparr>vh_magic = kVaultMagic, vh_version = version, vh_salt = salt,
     vh_time_cost = pr_time_cost pr, vh_mem_cost_kb = pr_mem_cost_kb pr, vh_nonce = nonce\<rparr>"

lemma length_serialized: "serialize_header h = Inr bs \<Longrightarrow> length bs = 41"
  unfolding serialize_header_def Let_def kHeaderBytes_def by (metis sum.simps(4) sum.inject(2))

lemma vault_header_file:
  assumes "wf_vault_header h" and "serialize_header h = Inr aad"
  shows "parse_header (aad @ c) = Inr h"
proof -
  have "take_vault_header (aad @ c) = Inr (h, c)"
    by (rule vault_header.get_eq [OF assms(2,1)])
  then show ?thesis
    by (auto simp: take_vault_header_def bindR_eq_Inr)
qed

lemma seal_ok:
  assumes laws: "aead_law p" "argon2_law p" and l: "length salt = 16" "length nonce = 12"
    and pr: "check_params (pr_time_cost pr) (pr_mem_cost_kb pr) = Inr ()"
    and pw: "pw \<noteq> []" and v: "version = kVersion \<or> version = kWordVersion" and m: "length m + 57 \<le> kMaxVaultBytes"
  obtains d where "seal p salt nonce m pw pr version = Inr d" and "unseal p d pw = Inr m"
    and "length d = length m + 57" and "parse_header d = Inr (sealed_header salt nonce pr version)"
proof -
  let ?h = "sealed_header salt nonce pr version"
  have w: "wf_vault_header ?h"
    using l pr v by (auto simp: wf_vault_header_def sealed_header_def)
  obtain aad where aad: "serialize_header ?h = Inr aad"
    using vault_header.put_ok [OF w] by blast
  have "check_params (vh_time_cost ?h) (vh_mem_cost_kb ?h) = Inr ()"
    using pr by (simp add: sealed_header_def)
  then obtain k where k: "derive_vault_key p pw ?h = Inr k" "length k = 32"
    by (rule derive_vault_key_ok [OF laws(2)])
  have "length m < 4294967296"
    using m by (simp add: kMaxVaultBytes_def)
  from aead_roundtrip [OF laws(1) k(2) l(2) this, of aad] obtain c where
    c: "aead_seal p k nonce aad m = Some c" "length c = length m + 16" "aead_open p k nonce aad c = Some m" .
  have ph: "parse_header (aad @ c) = Inr ?h"
    by (rule vault_header_file [OF w aad])
  have la: "length aad = 41"
    by (rule length_serialized [OF aad])
  have "seal p salt nonce m pw pr version = Inr (aad @ c)"
    using pr pw v aad k(1) c(1,2) by (auto simp: seal_def Let_def kTagBytes_def sealed_header_def)
  moreover have "unseal p (aad @ c) pw = Inr m"
    using m la c(2,3) ph aad k(1)
    by (simp add: unseal_def kHeaderBytes_def kTagBytes_def kMaxVaultBytes_def) (simp add: sealed_header_def)
  ultimately show thesis
    using c(2) la ph by (intro that [of "aad @ c"]) simp_all
qed



section \<open>Properties\<close>

text \<open>C18: A sealed vault opens again: with costs in range, a non-empty passphrase and contents within the format
  limit, \<open>seal\<close> succeeds, \<open>unseal\<close> with the same passphrase returns the contents, and the header in clear
  tells the version and the costs; the file is the contents and 57 bytes.\<close>

theorem vault_roundtrip:
  assumes "aead_law p" and "argon2_law p" and "length salt = 16" and "length nonce = 12"
    and "check_params (pr_time_cost pr) (pr_mem_cost_kb pr) = Inr ()"
    and "pw \<noteq> []" and "version = kVersion \<or> version = kWordVersion" and "length m + 57 \<le> kMaxVaultBytes"
  shows "\<exists>d. seal p salt nonce m pw pr version = Inr d \<and> unseal p d pw = Inr m \<and> length d = length m + 57 \<and>
    parse_header d = Inr (sealed_header salt nonce pr version)"
  by (rule seal_ok [OF assms]) blast

definition sample_params :: params where
  "sample_params = \<lparr>pr_time_cost = 3, pr_mem_cost_kb = 262144\<rparr>"

lemma sample_params_ok: "check_params (pr_time_cost sample_params) (pr_mem_cost_kb sample_params) = Inr ()"
  by (simp add: sample_params_def check_params_def kMinTimeCost_def kMaxTimeCost_def kMinMemCostKb_def kMaxMemCostKb_def)

lemma sample_argon2: "argon2_law sample_prims"
  by (simp add: argon2_law_def sample_prims_def)


lemma vault_roundtrip_witness:
  "\<exists>d. seal sample_prims (replicate 16 1) (replicate 12 2) [1, 2, 3] [65] sample_params kWordVersion = Inr d \<and>
     unseal sample_prims d [65] = Inr [1, 2, 3] \<and> length d = 60"
proof -
  have "length [1, 2, 3 :: byte] + 57 \<le> kMaxVaultBytes"
    by (simp add: kMaxVaultBytes_def)
  from vault_roundtrip [OF sample_aead sample_argon2 _ _ sample_params_ok _ _ this,
      of "replicate 16 1" "replicate 12 2" "[65]" kWordVersion]
  show ?thesis
    by auto
qed



end
