(* ===== verification/Drive.thy ===== *)
theory Drive
  imports Vault
begin

text \<open>
  \<open>vault.cpp\<close>, the files: how a vault is written, read and promoted. The directory is a map from names to
  entries; the answers of the operating system to the calls of one operation are a script, the argument of
  that operation. A writing operation yields every directory state it goes through, so a statement about all
  of them is a statement about a process killed, or a drive pulled, at any point. A script that ends inside
  the write loop is a process killed there: there is then no result.

  Not modelled: the page cache (a state is what the directory shows, \<open>fsync\<close> only has its error), and the
  file lock.
\<close>

section \<open>The directory\<close>

record dir_entry =
  de_regular :: bool
  de_owned :: bool
  de_links :: nat
  de_bytes :: bytes

type_synonym dir = "string \<rightharpoonup> dir_entry"

definition fresh_entry :: "bytes \<Rightarrow> dir_entry" where
  "fresh_entry bs = \<lparr>de_regular = True, de_owned = True, de_links = 1, de_bytes = bs\<rparr>"

definition safe_entry :: "dir_entry \<Rightarrow> bool" where
  "safe_entry e \<longleftrightarrow> de_regular e \<and> de_owned e \<and> de_links e = 1"

lemma fresh_entry_simps [simp]: "safe_entry (fresh_entry bs)" "de_bytes (fresh_entry bs) = bs"
  "de_regular (fresh_entry bs)" "de_owned (fresh_entry bs)" "de_links (fresh_entry bs) = 1"
  by (simp_all add: safe_entry_def fresh_entry_def)

section \<open>Scripts\<close>

text \<open>One answer of \<open>write\<close> or \<open>read\<close>.\<close>

datatype io_event = Interrupted | IoFailed | Moved nat

record write_script =
  ws_open_dir :: bool
  ws_inspect :: bool  \<comment> \<open>\<open>fstatat\<close> answers: the entry, or that there is none\<close>
  ws_suffix :: string
  ws_create :: bool
  ws_writes :: "io_event list"
  ws_sync :: bool
  ws_close :: bool
  ws_rename :: bool
  ws_unlink :: bool  \<comment> \<open>\<open>unlinkat\<close> of the temporary file, whose result the code ignores\<close>
  ws_sync_dir :: bool
  ws_close_dir :: bool

record read_script =
  rs_open_dir :: bool
  rs_open :: bool
  rs_stat :: bool
  rs_reads :: "io_event list"

datatype loop_end = Finished | Broken | Killed

section \<open>Writing\<close>

text \<open>The \<open>write\<close> loop: how much is written after each call that wrote something, and how it ended.\<close>

fun write_loop :: "nat \<Rightarrow> nat \<Rightarrow> io_event list \<Rightarrow> nat list \<times> loop_end" where
  "write_loop goal written evs =
     (if written \<ge> goal then ([], Finished)
      else case evs of
        [] \<Rightarrow> ([], Killed)
      | Interrupted # es \<Rightarrow> write_loop goal written es
      | IoFailed # es \<Rightarrow> ([], Broken)
      | Moved n # es \<Rightarrow>
          (let w = written + min n (goal - written); (ws, e) = write_loop goal w es in (w # ws, e)))"

declare write_loop.simps [simp del]

definition tmp_name :: "write_script \<Rightarrow> string \<Rightarrow> string" where
  "tmp_name sc name = name @ ''.tmp.'' @ ws_suffix sc"

text \<open>From the temporary file to the rename: the states, and the result unless the process was killed.\<close>

definition write_temporary :: "write_script \<Rightarrow> string \<Rightarrow> bytes \<Rightarrow> dir \<Rightarrow> dir list \<times> unit result option" where
  "write_temporary sc name bs d =
     (let tmp = tmp_name sc name;
          with_tmp = (\<lambda>n. d(tmp \<mapsto> fresh_entry (take n bs)));
          (ws, e) = write_loop (length bs) 0 (ws_writes sc);
          ds = map with_tmp (0 # ws);
          removed = (if ws_unlink sc then ds @ [d(tmp := None)] else ds, Some (Inl (DriveError CallFailed)))
      in case e of
           Killed \<Rightarrow> (ds, None)
         | Broken \<Rightarrow> removed
         | Finished \<Rightarrow>
             if \<not> ws_sync sc then removed
             else if \<not> ws_close sc then removed
             else if \<not> ws_rename sc then removed
             else (ds @ [d(tmp := None, name \<mapsto> fresh_entry bs)],
                   Some (if \<not> ws_sync_dir sc then Inl (DriveError CallFailed)
                         else if \<not> ws_close_dir sc then Inl (DriveError CallFailed) else Inr ())))"

definition write_file :: "write_script \<Rightarrow> string \<Rightarrow> bytes \<Rightarrow> bool \<Rightarrow> dir \<Rightarrow> dir list \<times> unit result option" where
  "write_file sc name bs overwrite d =
     (if length bs > kMaxVaultBytes then ([], Some (Inl (DriveError VaultWriteTooLong)))
      else if \<not> ws_open_dir sc then ([], Some (Inl (DriveError CallFailed)))
      else if \<not> ws_inspect sc then ([], Some (Inl (DriveError CallFailed)))
      else if d name \<noteq> None \<and> \<not> overwrite then ([], Some (Inl (DriveError OverwriteRefused)))
      else if \<not> pred_option safe_entry (d name) then ([], Some (Inl (DriveError UnsafeVaultPath)))
      else if \<not> ws_create sc \<or> d (tmp_name sc name) \<noteq> None then ([], Some (Inl (DriveError CallFailed)))
      else write_temporary sc name bs d)"

text \<open>The directory an operation leaves.\<close>

definition left_by :: "dir \<Rightarrow> dir list \<times> 'a \<Rightarrow> dir" where
  "left_by d t = last (d # fst t)"

section \<open>Reading\<close>

fun read_loop :: "nat \<Rightarrow> nat \<Rightarrow> io_event list \<Rightarrow> loop_end" where
  "read_loop goal got evs =
     (if got \<ge> goal then Finished
      else case evs of
        [] \<Rightarrow> Killed
      | Interrupted # es \<Rightarrow> read_loop goal got es
      | IoFailed # es \<Rightarrow> Broken
      | Moved n # es \<Rightarrow> if n = 0 then Broken else read_loop goal (got + min n (goal - got)) es)"

declare read_loop.simps [simp del]

definition read_file :: "read_script \<Rightarrow> string \<Rightarrow> dir \<Rightarrow> bytes result option" where
  "read_file sc name d =
     (if \<not> rs_open_dir sc then Some (Inl (DriveError CallFailed))
      else case d name of
        None \<Rightarrow> Some (Inl (DriveError CallFailed))
      | Some e \<Rightarrow>
          if \<not> rs_open sc then Some (Inl (DriveError CallFailed))
          else if \<not> rs_stat sc then Some (Inl (DriveError CallFailed))
          else if \<not> de_regular e \<or> de_links e \<noteq> 1 then Some (Inl (DriveError UnsafeVaultPath))
          else if \<not> de_owned e then Some (Inl (DriveError UnsafeVaultPath))
          else let goal = length (de_bytes e) in
          if goal < kHeaderBytes + kTagBytes then Some (Inl (VaultError VaultTooShort))
          else if goal > kMaxVaultBytes then Some (Inl (VaultError VaultTooLong))
          else case read_loop goal 0 (rs_reads sc) of
                 Finished \<Rightarrow> Some (Inr (de_bytes e))
               | Broken \<Rightarrow> Some (Inl (DriveError ShortRead))
               | Killed \<Rightarrow> None)"

section \<open>Promoting\<close>

type_synonym path = "string \<times> string"  \<comment> \<open>parent directory and file name\<close>

definition promote_prepared :: "write_script \<Rightarrow> path \<Rightarrow> path \<Rightarrow> dir \<Rightarrow> dir list \<times> unit result option" where
  "promote_prepared sc prepared target d =
     (if fst prepared \<noteq> fst target then ([], Some (Inl (DriveError PreparedElsewhere)))
      else if \<not> ws_open_dir sc then ([], Some (Inl (DriveError CallFailed)))
      else case d (snd prepared) of
        None \<Rightarrow> ([], Some (Inl (DriveError CallFailed)))
      | Some e \<Rightarrow>
          if \<not> ws_rename sc then ([], Some (Inl (DriveError CallFailed)))
          else ([d(snd prepared := None, snd target \<mapsto> e)],
                Some (if \<not> ws_sync_dir sc then Inl (DriveError CallFailed)
                      else if \<not> ws_close_dir sc then Inl (DriveError CallFailed) else Inr ())))"

section \<open>Lemmas\<close>

lemma tmp_name_other [simp]: "tmp_name sc name \<noteq> name" "name \<noteq> tmp_name sc name"
  by (simp_all add: tmp_name_def)

lemma write_loop_bound: "write_loop goal w evs = (ws, e) \<Longrightarrow> list_all (\<lambda>n. n \<le> goal) ws"
proof (induction goal w evs arbitrary: ws e rule: write_loop.induct)
  case (1 goal w evs)
  show ?case
  proof (cases "w \<ge> goal")
    case True
    with 1(3) show ?thesis
      by (subst (asm) write_loop.simps) simp
  next
    case False
    with 1 show ?thesis
      by (subst (asm) (3) write_loop.simps) (auto simp: Let_def split: list.splits io_event.splits prod.splits)
  qed
qed

text \<open>Every state of the temporary phase: the target is untouched, or complete after the rename.\<close>

definition intact :: "write_script \<Rightarrow> string \<Rightarrow> bytes \<Rightarrow> dir \<Rightarrow> dir \<Rightarrow> bool" where
  "intact sc name bs d x \<longleftrightarrow> x name \<in> {d name, Some (fresh_entry bs)} \<and>
     x |` (- {name, tmp_name sc name}) = d |` (- {name, tmp_name sc name})"

lemma intactI:
  assumes "x name = d name \<or> x name = Some (fresh_entry bs)" and "\<And>n. n \<noteq> name \<Longrightarrow> n \<noteq> tmp_name sc name \<Longrightarrow> x n = d n"
  shows "intact sc name bs d x"
  using assms by (auto simp: intact_def restrict_map_def)

lemma write_temporary_intact: "list_all (intact sc name bs d) (fst (write_temporary sc name bs d))"
proof -
  obtain ws e where w: "write_loop (length bs) 0 (ws_writes sc) = (ws, e)"
    by fastforce
  have t: "intact sc name bs d (d(tmp_name sc name \<mapsto> x))" "intact sc name bs d (d(tmp_name sc name := None))"
      "intact sc name bs d (d(tmp_name sc name := None, name \<mapsto> fresh_entry bs))" for x
    by (rule intactI; simp)+
  show ?thesis
    by (cases e) (auto simp: write_temporary_def w t list_all_iff Let_def)
qed

lemma write_file_intact: "list_all (intact sc name bs d) (fst (write_file sc name bs ov d))"
  using write_temporary_intact [of sc name bs d] by (simp add: write_file_def)


text \<open>What is left when an operation returns: after an error the old directory, or the new one when only
  the flush after the rename failed, or the old one with the beginning of the new bytes in the temporary
  file when removing that failed too.\<close>

definition written_as :: "write_script \<Rightarrow> string \<Rightarrow> bytes \<Rightarrow> dir \<Rightarrow> dir list \<times> unit result option \<Rightarrow> bool" where
  "written_as sc name bs d t \<longleftrightarrow> (case snd t of
     None \<Rightarrow> True
   | Some (Inl e) \<Rightarrow> left_by d t = d \<or>
       left_by d t = d(name \<mapsto> fresh_entry bs) \<and> ws_rename sc \<and> \<not> (ws_sync_dir sc \<and> ws_close_dir sc) \<or>
       (\<exists>n. left_by d t = d(tmp_name sc name \<mapsto> fresh_entry (take n bs))) \<and> \<not> ws_unlink sc
   | Some (Inr _) \<Rightarrow> left_by d t = d(name \<mapsto> fresh_entry bs))"

lemma write_temporary_left:
  assumes "d (tmp_name sc name) = None"
  shows "written_as sc name bs d (write_temporary sc name bs d)"
proof -
  have u: "d(tmp_name sc name := None) = d"
    using assms by auto
  obtain ws e where w: "write_loop (length bs) 0 (ws_writes sc) = (ws, e)"
    by fastforce
  let ?f = "\<lambda>n. d(tmp_name sc name \<mapsto> fresh_entry (take n bs))"
  have l: "\<exists>n. last (d # map ?f (0 # ws)) = ?f n"
    by (cases ws rule: rev_cases) (auto intro: exI [of _ 0])
  show ?thesis
    using l by (cases e) (auto simp: written_as_def left_by_def write_temporary_def w u Let_def)
qed

lemma write_file_left: "written_as sc name bs d (write_file sc name bs ov d)"
proof -
  have "written_as sc name bs d ([], Some (Inl e))" for e
    by (simp add: written_as_def left_by_def)
  then show ?thesis
    using write_temporary_left [of d sc name bs] by (auto simp: write_file_def)
qed

text \<open>A script of calls that all succeed.\<close>

definition all_well :: "write_script \<Rightarrow> nat \<Rightarrow> bool" where
  "all_well sc n \<longleftrightarrow> ws_open_dir sc \<and> ws_inspect sc \<and> ws_create sc \<and> ws_sync sc \<and> ws_close sc \<and> ws_rename sc \<and>
     ws_sync_dir sc \<and> ws_close_dir sc \<and> snd (write_loop n 0 (ws_writes sc)) = Finished"

lemma write_file_ok:
  assumes "all_well sc (length bs)" and "length bs \<le> kMaxVaultBytes" and "pred_option safe_entry (d name)"
    and "d (tmp_name sc name) = None"
  obtains ds where "write_file sc name bs True d = (ds, Some (Inr ()))"
    and "left_by d (write_file sc name bs True d) = d(name \<mapsto> fresh_entry bs)"
proof -
  obtain ws where w: "write_loop (length bs) 0 (ws_writes sc) = (ws, Finished)"
    using assms(1) by (cases "write_loop (length bs) 0 (ws_writes sc)") (simp add: all_well_def)
  have u: "d(tmp_name sc name := None) = d"
    using assms(4) by auto
  show thesis
    using assms w
    by (intro that [of "map (\<lambda>n. d(tmp_name sc name \<mapsto> fresh_entry (take n bs))) (0 # ws) @ [d(name \<mapsto> fresh_entry bs)]"])
      (simp_all add: write_file_def write_temporary_def all_well_def Let_def u left_by_def)
qed

lemma read_file_bytes: "read_file sc name d = Some (Inr bs) \<Longrightarrow> \<exists>e. d name = Some e \<and> bs = de_bytes e \<and> safe_entry e"
  by (auto simp: read_file_def safe_entry_def Let_def split: if_splits option.splits loop_end.splits)

definition reads_well :: "read_script \<Rightarrow> nat \<Rightarrow> bool" where
  "reads_well sc n \<longleftrightarrow> rs_open_dir sc \<and> rs_open sc \<and> rs_stat sc \<and> read_loop n 0 (rs_reads sc) = Finished"

lemma read_file_ok:
  assumes "reads_well sc (length bs)" and "d name = Some (fresh_entry bs)" and "57 \<le> length bs" "length bs \<le> kMaxVaultBytes"
  shows "read_file sc name d = Some (Inr bs)"
  using assms by (simp add: read_file_def reads_well_def Let_def kHeaderBytes_def kTagBytes_def)

section \<open>Properties\<close>

text \<open>C8: Replacing the vault file is atomic: in every state the directory goes through the target has its old
  contents or all of the new ones and no other file but the temporary one differs; on success the new
  contents are there, without the temporary file, and reading returns exactly them; on an error the
  directory is the old one, or the new one when only the flush after the rename failed, or, when the drive
  also refuses to remove the temporary file, the old one with a beginning of the new contents in that file.\<close>

theorem write_file_atomic:
  "case write_file sc name bs ov d of (ds, r) \<Rightarrow>
     list_all (intact sc name bs d) ds \<and> written_as sc name bs d (ds, r) \<and>
     (case (r, read_file rs name (left_by d (ds, r))) of
        (Some (Inr _), Some (Inr found)) \<Rightarrow> found = bs
      | _ \<Rightarrow> True)"
proof (cases "write_file sc name bs ov d")
  case (Pair ds r)
  have w: "written_as sc name bs d (ds, r)"
    using write_file_left [of sc name bs d ov] Pair by simp
  have "found = bs" if "r = Some (Inr ())" "read_file rs name (left_by d (ds, r)) = Some (Inr found)" for found
    using w that read_file_bytes [OF that(2)] by (auto simp: written_as_def)
  with w write_file_intact [of sc name bs d ov] Pair show ?thesis
    by (auto split: option.split sum.split)
qed

end
