(* ===== verification/Rollback.thy ===== *)
theory Rollback
  imports Store
begin

text \<open>
  \<open>rollback.cpp\<close>: the anchor a host keeps of a vault's generation, so that an older copy of the drive is
  noticed. The Secret Service is a map from attribute values to stored texts with flags for what the service
  does; the MAC key is derived from the master seed.
\<close>

section \<open>The record\<close>

definition kLegacyAnchorMagic :: bytes where
  "kLegacyAnchorMagic = bytes_of_string ''RANCHOR1''"

definition kMacMagic :: bytes where
  "kMacMagic = bytes_of_string ''RANCHOR2''"

definition kMacInfo :: bytes where
  "kMacInfo = bytes_of_string ''Ratchet-USB/v4/rollback-anchor''"

record anchor_record =
  ar_vault_id :: bytes
  ar_generation :: u64
  ar_vault_digest :: bytes
  ar_authenticated :: bool
  ar_mac :: bytes

text \<open>The default members: an unauthenticated record with a zero tag.\<close>

definition new_anchor :: "bytes \<Rightarrow> u64 \<Rightarrow> bytes \<Rightarrow> anchor_record" where
  "new_anchor i g dg = \<lparr>ar_vault_id = i, ar_generation = g, ar_vault_digest = dg, ar_authenticated = False,
     ar_mac = replicate 32 0\<rparr>"

datatype status = Protected | Unprotected | AdvancedAfterCrash

section \<open>Operations\<close>

definition write_fields :: "bytes \<Rightarrow> anchor_record \<Rightarrow> bytes result" where
  "write_fields magic r = catR [put_bytes magic, put_bytes (ar_vault_id r), put_u64 (ar_generation r),
     put_bytes (ar_vault_digest r)]"

definition mac_message :: "anchor_record \<Rightarrow> bytes result" where
  "mac_message r = write_fields kMacMagic r"

definition derive_mac_key :: "prims \<Rightarrow> bytes \<Rightarrow> bytes result" where
  "derive_mac_key p seed = hkdf_expand p 32 kMacInfo (hkdf_extract p [] seed)"

definition vault_digest :: "prims \<Rightarrow> bytes \<Rightarrow> bytes" where
  "vault_digest p bs = sha256 p bs"

definition vault_id_text :: "bytes \<Rightarrow> string" where
  "vault_id_text i = concat (map (\<lambda>b. [hex_digit (unat (drop_bit 4 b)), hex_digit (unat (b AND 0x0F))]) i)"

definition authenticate :: "prims \<Rightarrow> anchor_record \<Rightarrow> bytes \<Rightarrow> anchor_record result" where
  "authenticate p r seed =
     bindR (derive_mac_key p seed) (\<lambda>key.
     bindR (mac_message r) (\<lambda>msg.
     Inr (r\<lparr>ar_mac := hmac_sha256 p key msg, ar_authenticated := True\<rparr>)))"

definition mac_verifies :: "prims \<Rightarrow> anchor_record \<Rightarrow> bytes \<Rightarrow> bool result" where
  "mac_verifies p r seed =
     bindR (derive_mac_key p seed) (\<lambda>key.
     bindR (mac_message r) (\<lambda>msg.
     Inr (ar_mac r = hmac_sha256 p key msg)))"

definition authentic_for :: "prims \<Rightarrow> anchor_record \<Rightarrow> vault_store \<Rightarrow> bool result" where
  "authentic_for p a usb =
     (if \<not> ar_authenticated a then Inr False
      else if ar_vault_id a \<noteq> v_vault_id usb then Inr False
      else mac_verifies p a (v_seed usb))"

definition encode_anchor :: "prims \<Rightarrow> anchor_record \<Rightarrow> string result" where
  "encode_anchor p r =
     bindR (if ar_authenticated r then bindR (mac_message r) (\<lambda>msg. Inr (msg @ ar_mac r))
            else write_fields kLegacyAnchorMagic r) (\<lambda>raw.
     Inr (b64url_encode p raw))"

definition get_anchor :: "bytes \<Rightarrow> (anchor_record \<times> bytes) result" where
  "get_anchor zs =
     bindR (get_bytes 8 zs) (\<lambda>(magic, zs).
     let authenticated = (magic = kMacMagic) in
       if \<not> authenticated \<and> magic \<noteq> kLegacyAnchorMagic then Inl (RollbackError AnchorFormat)
       else bindR (get_bytes 16 zs) (\<lambda>(i, zs).
            bindR (get_u64 zs) (\<lambda>(g, zs).
            bindR (get_bytes 32 zs) (\<lambda>(dg, zs).
            bindR (if authenticated then get_bytes 32 zs else Inr (replicate 32 0, zs)) (\<lambda>(mac, zs).
            Inr (\<lparr>ar_vault_id = i, ar_generation = g, ar_vault_digest = dg, ar_authenticated = authenticated,
                  ar_mac = mac\<rparr>, zs))))))"

definition decode_anchor :: "prims \<Rightarrow> string \<Rightarrow> anchor_record result" where
  "decode_anchor p t =
     bindR (of_option (RollbackError AnchorCorrupt) (b64url_decode p t)) (\<lambda>raw.
     bindR (get_anchor raw) (\<lambda>(r, rest).
       if rest \<noteq> [] then Inl (RollbackError AnchorTrailing) else Inr r))"

definition validate :: "prims \<Rightarrow> anchor_record \<Rightarrow> vault_store \<Rightarrow> bytes \<Rightarrow> status result" where
  "validate p a usb usb_digest =
     (if \<not> ar_authenticated a then Inl (RollbackError AnchorUnsigned)
      else if ar_vault_id a \<noteq> v_vault_id usb then Inl (RollbackError AnchorForeign)
      else bindR (mac_verifies p a (v_seed usb)) (\<lambda>ok.
        if \<not> ok then Inl (RollbackError AnchorForged)
        else if v_generation usb < ar_generation a then Inl (RollbackError RollbackDetected)
        else if v_generation usb = ar_generation a then
          (if ar_vault_digest a \<noteq> usb_digest then Inl (RollbackError ForkDetected) else Inr Protected)
        else if ar_generation a \<noteq> -1 \<and> v_generation usb = ar_generation a + 1 \<and>
                v_previous_digest usb = ar_vault_digest a
        then Inr AdvancedAfterCrash
        else Inl (RollbackError GenerationGap)))"

section \<open>The host service\<close>

record host =
  h_backend :: bool   \<comment> \<open>compiled with the Secret Service\<close>
  h_readable :: bool  \<comment> \<open>the lookup does not fail\<close>
  h_writable :: bool
  h_secrets :: "string \<rightharpoonup> string"

definition load_anchor :: "prims \<Rightarrow> bytes \<Rightarrow> host \<Rightarrow> anchor_record option result" where
  "load_anchor p i h =
     (if \<not> h_backend h then Inr None
      else if \<not> h_readable h then Inr None
      else case h_secrets h (vault_id_text i) of
        None \<Rightarrow> Inr None
      | Some t \<Rightarrow> bindR (decode_anchor p t) (\<lambda>r. Inr (if \<not> ar_authenticated r then None else Some r)))"

definition store_anchor :: "prims \<Rightarrow> anchor_record \<Rightarrow> bytes \<Rightarrow> (host, unit) mut" where
  "store_anchor p r seed =
     bindM (readM (\<lambda>_. authenticate p r seed)) (\<lambda>a.
     bindM (readM (\<lambda>_. encode_anchor p a)) (\<lambda>t.
     bindM (readM (\<lambda>h. if \<not> h_backend h \<or> \<not> h_writable h then Inl (RollbackError AnchorService) else Inr ())) (\<lambda>_.
     modifyM (\<lambda>h. h\<lparr>h_secrets := (h_secrets h)(vault_id_text (ar_vault_id a) \<mapsto> t)\<rparr>))))"

definition enroll :: "prims \<Rightarrow> vault_store \<Rightarrow> bytes \<Rightarrow> (host, unit) mut" where
  "enroll p usb usb_digest =
     bindM (readM (\<lambda>h. if \<not> h_backend h then Inl (RollbackError AnchorService) else Inr ())) (\<lambda>_.
     bindM (readM (\<lambda>h. load_anchor p (v_vault_id usb) h)) (\<lambda>existing.
       if pred_option (\<lambda>a. ar_generation a < v_generation usb) existing
       then store_anchor p (new_anchor (v_vault_id usb) (v_generation usb) usb_digest) (v_seed usb)
       else throwM (RollbackError AnchorExists)))"

section \<open>Encoding\<close>

definition wf_anchor :: "anchor_record \<Rightarrow> bool" where
  "wf_anchor r \<longleftrightarrow> length (ar_vault_id r) = 16 \<and> length (ar_vault_digest r) = 32 \<and> length (ar_mac r) = 32 \<and>
     (ar_authenticated r \<or> ar_mac r = replicate 32 0)"

definition put_anchor :: "anchor_record \<Rightarrow> bytes result" where
  "put_anchor r = (if ar_authenticated r then bindR (mac_message r) (\<lambda>msg. Inr (msg @ ar_mac r))
     else write_fields kLegacyAnchorMagic r)"

lemma magics [simp]: "length kMacMagic = 8" "length kLegacyAnchorMagic = 8"
  by (simp_all add: kMacMagic_def kLegacyAnchorMagic_def)

lemma magics_differ [simp]: "kLegacyAnchorMagic \<noteq> kMacMagic" "kMacMagic \<noteq> kLegacyAnchorMagic"
proof -
  have "bytes_of_string ''RANCHOR1'' \<noteq> bytes_of_string ''RANCHOR2''"
  proof
    assume "bytes_of_string ''RANCHOR1'' = bytes_of_string ''RANCHOR2''"
    then have "string_of_bytes (bytes_of_string ''RANCHOR1'') = string_of_bytes (bytes_of_string ''RANCHOR2'')"
      by (rule arg_cong)
    then have "''RANCHOR1'' = ''RANCHOR2''"
      by (simp only: string_of_bytes_of_string)
    then show False
      by simp
  qed
  then show "kLegacyAnchorMagic \<noteq> kMacMagic" "kMacMagic \<noteq> kLegacyAnchorMagic"
    by (simp_all add: kMacMagic_def kLegacyAnchorMagic_def)
qed

lemma write_fields_eq: "write_fields magic r = Inr (magic @ ar_vault_id r @ le64 (ar_generation r) @ ar_vault_digest r)"
  by (simp add: write_fields_def put_bytes_def put_u64_def)

lemmas mac_message_eq = mac_message_def [unfolded write_fields_eq]

lemma put_anchor_eq: "put_anchor r = Inr ((if ar_authenticated r then kMacMagic else kLegacyAnchorMagic) @
    ar_vault_id r @ le64 (ar_generation r) @ ar_vault_digest r @ (if ar_authenticated r then ar_mac r else []))"
  by (simp add: put_anchor_def mac_message_eq write_fields_eq)

interpretation anchor: canonical_codec put_anchor get_anchor wf_anchor
proof
  fix r assume "wf_anchor r"
  then show "\<exists>bs. put_anchor r = Inr bs"
    by (simp add: put_anchor_eq)
next
  fix r bs ys assume "wf_anchor r" and "put_anchor r = Inr bs"
  then show "get_anchor (bs @ ys) = Inr (r, ys)"
    by (cases r) (auto simp: put_anchor_eq get_anchor_def wf_anchor_def Let_def)
next
  fix zs r ys assume "get_anchor zs = Inr (r, ys)"
  then show "wf_anchor r \<and> (\<exists>bs. put_anchor r = Inr bs \<and> zs = bs @ ys)"
    by (auto simp: get_anchor_def Let_def put_anchor_eq wf_anchor_def result_inv split: if_splits)
qed

lemma encode_anchor_eq: "encode_anchor p r = bindR (put_anchor r) (\<lambda>raw. Inr (b64url_encode p raw))"
  by (simp add: encode_anchor_def put_anchor_def)

lemma decode_encoded_anchor:
  assumes "b64url_law p" and "wf_anchor r"
  obtains t where "encode_anchor p r = Inr t" and "decode_anchor p t = Inr r"
proof -
  obtain raw where raw: "put_anchor r = Inr raw"
    using anchor.put_ok [OF assms(2)] by blast
  then show thesis
    using assms(1) anchor.get_end [OF raw assms(2)]
    by (intro that [of "b64url_encode p raw"]) (simp_all add: encode_anchor_eq decode_anchor_def b64url_law_def)
qed

text \<open>The attribute under which an anchor is kept identifies the vault.\<close>

lemma vault_id_text_eq: "vault_id_text i = to_hex i"
proof -
  have "unat (drop_bit 4 b) = unat b div 16" and "unat (b AND 0x0F) = unat b mod 16" for b :: byte
  proof -
    show "unat (drop_bit 4 b) = unat b div 16"
      by (simp add: drop_bit_eq_div unat_div)
    have "b AND 0x0F = take_bit 4 b"
      by (simp add: take_bit_eq_mask mask_eq_exp_minus_1)
    then show "unat (b AND 0x0F) = unat b mod 16"
      by (simp add: take_bit_eq_mod unat_mod)
  qed
  then show ?thesis
    by (simp add: vault_id_text_def to_hex_def)
qed

lemma vault_id_text_inj: "vault_id_text i = vault_id_text j \<Longrightarrow> i = j"
  by (simp add: vault_id_text_eq to_hex_inj)

section \<open>Authentic anchors\<close>

lemma mac_message_labels [simp]: "mac_message (r\<lparr>ar_mac := m, ar_authenticated := b\<rparr>) = mac_message r"
  by (simp add: mac_message_eq)

lemma derive_mac_key_ok: "\<exists>k. derive_mac_key p seed = Inr k"
  using hkdf_expand_ok [of 32 p] by (simp add: derive_mac_key_def)

definition tag_of :: "prims \<Rightarrow> bytes \<Rightarrow> anchor_record \<Rightarrow> bytes" where
  "tag_of p seed r = (case (derive_mac_key p seed, mac_message r) of
     (Inr k, Inr msg) \<Rightarrow> hmac_sha256 p k msg | _ \<Rightarrow> [])"

lemma authenticate_eq: "authenticate p r seed = Inr (r\<lparr>ar_mac := tag_of p seed r, ar_authenticated := True\<rparr>)"
  using derive_mac_key_ok [of p seed] by (auto simp: authenticate_def tag_of_def mac_message_eq)

lemma mac_verifies_eq: "mac_verifies p r seed = Inr (ar_mac r = tag_of p seed r)"
  using derive_mac_key_ok [of p seed] by (auto simp: mac_verifies_def tag_of_def mac_message_eq)

lemma tag_of_labels [simp]: "tag_of p seed (r\<lparr>ar_mac := m, ar_authenticated := b\<rparr>) = tag_of p seed r"
  by (simp add: tag_of_def)

lemma length_tag: "hmac_law p \<Longrightarrow> length (tag_of p seed r) = 32"
  using derive_mac_key_ok [of p seed] by (auto simp: tag_of_def mac_message_eq hmac_length)

definition anchor_for :: "prims \<Rightarrow> vault_store \<Rightarrow> u64 \<Rightarrow> bytes \<Rightarrow> anchor_record" where
  "anchor_for p v g dg = (new_anchor (v_vault_id v) g dg)
     \<lparr>ar_mac := tag_of p (v_seed v) (new_anchor (v_vault_id v) g dg), ar_authenticated := True\<rparr>"

lemma anchor_for_simps [simp]:
  "ar_vault_id (anchor_for p v g dg) = v_vault_id v" "ar_generation (anchor_for p v g dg) = g"
  "ar_vault_digest (anchor_for p v g dg) = dg" "ar_authenticated (anchor_for p v g dg)"
  by (simp_all add: anchor_for_def new_anchor_def)

lemma authentic_for_eq:
  "authentic_for p a usb = Inr (ar_authenticated a \<and> ar_vault_id a = v_vault_id usb \<and> ar_mac a = tag_of p (v_seed usb) a)"
  by (simp add: authentic_for_def mac_verifies_eq)

lemma anchor_for_authentic [simp]:
  "v_vault_id usb = v_vault_id v \<Longrightarrow> v_seed usb = v_seed v \<Longrightarrow> authentic_for p (anchor_for p v g dg) usb = Inr True"
  by (simp add: authentic_for_eq) (simp add: anchor_for_def)

text \<open>\<open>validate\<close> on an authentic anchor, by generation.\<close>

lemma validate_authentic:
  assumes "authentic_for p a usb = Inr True"
  shows "validate p a usb dg =
    (if v_generation usb < ar_generation a then Inl (RollbackError RollbackDetected)
     else if v_generation usb = ar_generation a then
       (if ar_vault_digest a \<noteq> dg then Inl (RollbackError ForkDetected) else Inr Protected)
     else if ar_generation a \<noteq> -1 \<and> v_generation usb = ar_generation a + 1 \<and>
             v_previous_digest usb = ar_vault_digest a
     then Inr AdvancedAfterCrash else Inl (RollbackError GenerationGap))"
  using assms by (simp add: validate_def authentic_for_eq mac_verifies_eq)

lemma unat_Suc_u64: "x \<noteq> -1 \<Longrightarrow> unat (x + 1 :: u64) = unat x + 1"
proof -
  assume "x \<noteq> -1"
  then have "1 + x \<noteq> 0"
    by (metis add.commute add_eq_0_iff)
  then show "unat (x + 1) = unat x + 1"
    by (simp add: unatSuc add.commute)
qed

lemma validate_Inr:
  "validate p a usb dg = Inr st \<longleftrightarrow> authentic_for p a usb = Inr True \<and>
     (st = Protected \<and> v_generation usb = ar_generation a \<and> dg = ar_vault_digest a \<or>
      st = AdvancedAfterCrash \<and> unat (v_generation usb) = unat (ar_generation a) + 1 \<and>
        v_previous_digest usb = ar_vault_digest a)"
proof (cases "authentic_for p a usb = Inr True")
  case False
  then show ?thesis
    by (auto simp: validate_def authentic_for_eq mac_verifies_eq)
next
  case True
  have next_gen: "ar_generation a \<noteq> -1 \<and> v_generation usb = ar_generation a + 1 \<longleftrightarrow>
      unat (v_generation usb) = unat (ar_generation a) + 1"
  proof
    assume "ar_generation a \<noteq> -1 \<and> v_generation usb = ar_generation a + 1"
    then show "unat (v_generation usb) = unat (ar_generation a) + 1"
      by (simp add: unat_Suc_u64)
  next
    assume u: "unat (v_generation usb) = unat (ar_generation a) + 1"
    then have "unat (ar_generation a) + 1 < 18446744073709551616"
      using unat_u64_less by metis
    then have "ar_generation a \<noteq> -1"
      by (auto simp: unsigned_minus_1_eq_mask mask_eq_exp_minus_1)
    then have "unat (ar_generation a + 1) = unat (v_generation usb)"
      using u by (simp add: unat_Suc_u64)
    with \<open>ar_generation a \<noteq> -1\<close> show "ar_generation a \<noteq> -1 \<and> v_generation usb = ar_generation a + 1"
      by (simp add: word_unat_eq_iff)
  qed
  show ?thesis
    unfolding validate_authentic [OF True]
    using True next_gen by (auto simp: word_less_nat_alt word_unat_eq_iff)
qed

section \<open>The service\<close>

lemma store_anchor_ok:
  assumes laws: "b64url_law p" "hmac_law p" and h: "h_backend h" "h_readable h" "h_writable h"
    and l: "length (v_vault_id v) = 16" "length dg = 32"
  obtains h' where "store_anchor p (new_anchor (v_vault_id v) g dg) (v_seed v) h = (h', Inr ())"
    and "\<And>j. load_anchor p j h' = (if j = v_vault_id v then Inr (Some (anchor_for p v g dg)) else load_anchor p j h)"
    and "h_backend h'" and "h_readable h'" and "h_writable h'"
proof -
  let ?a = "anchor_for p v g dg"
  have w: "wf_anchor ?a"
    using l length_tag [OF laws(2)] by (simp add: wf_anchor_def) (simp add: anchor_for_def)
  obtain t where t: "encode_anchor p ?a = Inr t" "decode_anchor p t = Inr ?a"
    by (rule decode_encoded_anchor [OF laws(1) w])
  let ?h = "h\<lparr>h_secrets := (h_secrets h)(vault_id_text (v_vault_id v) \<mapsto> t)\<rparr>"
  have "authenticate p (new_anchor (v_vault_id v) g dg) (v_seed v) = Inr ?a"
    by (simp add: authenticate_eq anchor_for_def)
  then have "store_anchor p (new_anchor (v_vault_id v) g dg) (v_seed v) h = (?h, Inr ())"
    using h t(1) by (simp add: store_anchor_def)
  moreover have "load_anchor p j ?h = (if j = v_vault_id v then Inr (Some ?a) else load_anchor p j h)" for j
    using h t(2) vault_id_text_inj by (auto simp: load_anchor_def split: option.split)
  ultimately show thesis
    using h by (intro that [of ?h]) simp_all
qed

text \<open>A keyring that cannot be read looks like one without an anchor, so enrolling then replaces any anchor.\<close>

lemma enroll_unread_overwrites:
  "\<not> h_readable h \<Longrightarrow> h_backend h \<Longrightarrow>
   enroll p v dg h = store_anchor p (new_anchor (v_vault_id v) (v_generation v) dg) (v_seed v) h"
  by (simp add: enroll_def bindM_def load_anchor_def)

section \<open>Properties\<close>

text \<open>C35: \<open>validate\<close> accepts exactly what it should: the anchor carries the tag of this vault's seed, and either
  the drive is in the very state the anchor names or it is the next generation written over that state,
  counted without wrap-around; an older drive, a fork, a gap and a forged, foreign or legacy anchor all throw.\<close>

theorem validate_exact:
  "validate p a usb dg = Inr st \<longleftrightarrow> authentic_for p a usb = Inr True \<and>
     (st = Protected \<and> v_generation usb = ar_generation a \<and> dg = ar_vault_digest a \<or>
      st = AdvancedAfterCrash \<and> unat (v_generation usb) = unat (ar_generation a) + 1 \<and>
        v_previous_digest usb = ar_vault_digest a)"
  by (rule validate_Inr)

text \<open>An anchor stored on a host whose service works is loaded again, validates the state it was made for, and
  leaves the anchors of all other vaults as they were.\<close>

theorem anchor_roundtrip:
  assumes "b64url_law p" and "hmac_law p" and "h_backend h" and "h_readable h" and "h_writable h"
    and "length (v_vault_id v) = 16" and "length dg = 32"
  shows "\<exists>h' a. store_anchor p (new_anchor (v_vault_id v) (v_generation v) dg) (v_seed v) h = (h', Inr ()) \<and>
    validate p a v dg = Inr Protected \<and>
    load_anchor p j h' = (if j = v_vault_id v then Inr (Some a) else load_anchor p j h)"
proof -
  obtain h' where "store_anchor p (new_anchor (v_vault_id v) (v_generation v) dg) (v_seed v) h = (h', Inr ())"
    and "\<And>j. load_anchor p j h' = (if j = v_vault_id v then Inr (Some (anchor_for p v (v_generation v) dg)) else load_anchor p j h)"
    by (rule store_anchor_ok [OF assms]) blast
  moreover have "validate p (anchor_for p v (v_generation v) dg) v dg = Inr Protected"
    by (simp add: validate_Inr)
  ultimately show ?thesis
    by blast
qed

definition sample_host :: host where
  "sample_host = \<lparr>h_backend = True, h_readable = True, h_writable = True, h_secrets = Map.empty\<rparr>"

lemma anchor_roundtrip_witness:
  "\<exists>h' a. store_anchor sample_prims (new_anchor (v_vault_id sample_store) (v_generation sample_store) (replicate 32 4))
       (v_seed sample_store) sample_host = (h', Inr ()) \<and>
     load_anchor sample_prims (v_vault_id sample_store) h' = Inr (Some a) \<and>
     validate sample_prims a sample_store (replicate 32 4) = Inr Protected"
proof -
  have "length (v_vault_id sample_store) = 16"
    by (simp add: sample_store_def)
  from anchor_roundtrip [OF sample_b64url sample_hmac _ _ _ this, of sample_host "replicate 32 4" "v_vault_id sample_store"]
  show ?thesis
    by (auto simp: sample_host_def)
qed

end
