(* ===== verification/App.thy ===== *)
theory App
  imports Store_Format Drive Rollback
begin

text \<open>
  \<open>app.cpp\<close>, the vault on the drive and its anchor on the host: opening, saving and changing the passphrase.
  The state is the store in memory, the vault's directory and the host service; random bytes and the
  operating system's answers are arguments. A process killed inside an operation ends it with
  \<open>ProcessKilled\<close>, which no handler of the program sees. The prekey maintenance of the same file is in
  \<open>Maintenance\<close>.
\<close>

section \<open>State\<close>

record app_state =
  as_store :: vault_store
  as_dir :: dir
  as_host :: host

text \<open>\<open>try { m } catch (const Error& e) { h }\<close>.\<close>

definition catchM :: "('s, 'a) mut \<Rightarrow> (error \<Rightarrow> ('s, 'a) mut) \<Rightarrow> ('s, 'a) mut" where
  "catchM m handler s = (case m s of (s', Inl e) \<Rightarrow> handler e s' | (s', Inr x) \<Rightarrow> (s', Inr x))"

definition on_host :: "(host, 'a) mut \<Rightarrow> (app_state, 'a) mut" where
  "on_host m st = (case m (as_host st) of (h, r) \<Rightarrow> (st\<lparr>as_host := h\<rparr>, r))"

text \<open>The result of a call that may also never return.\<close>

definition ended :: "'a result option \<Rightarrow> 'a result" where
  "ended r = (case r of None \<Rightarrow> Inl (DriveError ProcessKilled) | Some x \<Rightarrow> x)"

definition write_vault :: "write_script \<Rightarrow> string \<Rightarrow> bytes \<Rightarrow> (app_state, unit) mut" where
  "write_vault sc name bs st =
     (let t = write_file sc name bs True (as_dir st)
      in (st\<lparr>as_dir := left_by (as_dir st) t\<rparr>, ended (snd t)))"

section \<open>Opening\<close>

record vault_file =
  vf_bytes :: bytes
  vf_header :: vault_header
  vf_digest :: bytes

definition read_vault :: "prims \<Rightarrow> read_script \<Rightarrow> string \<Rightarrow> dir \<Rightarrow> vault_file result" where
  "read_vault p rs name d =
     bindR (ended (read_file rs name d)) (\<lambda>bs.
     bindR (parse_header bs) (\<lambda>h.
     Inr \<lparr>vf_bytes = bs, vf_header = h, vf_digest = vault_digest p bs\<rparr>))"

record opened_vault =
  ov_store :: vault_store
  ov_params :: params
  ov_passphrase :: bytes
  ov_status :: status
  ov_digest :: bytes
  ov_version :: byte

text \<open>
  What an opened vault does with the anchor of the host: a drive ahead of an anchor that is genuinely its own
  moves the anchor on, anything else that does not validate is refused.
\<close>

definition check_anchor :: "prims \<Rightarrow> vault_store \<Rightarrow> bytes \<Rightarrow> anchor_record option \<Rightarrow> (host, status) mut" where
  "check_anchor p v dg anchor =
     (case anchor of
        None \<Rightarrow> returnM Unprotected
      | Some a \<Rightarrow>
          bindM (readM (\<lambda>_. case validate p a v dg of
              Inr st \<Rightarrow> Inr (Some st)
            | Inl e \<Rightarrow> bindR (authentic_for p a v) (\<lambda>ok.
                if \<not> ok \<or> v_generation v \<le> ar_generation a then Inl e else Inr None))) (\<lambda>validated.
          if validated = None \<or> validated = Some AdvancedAfterCrash then
            catchM (bindM (store_anchor p (new_anchor (v_vault_id v) (v_generation v) dg) (v_seed v)) (\<lambda>_.
                      returnM Protected))
              (\<lambda>e. returnM Unprotected)
          else returnM (the validated)))"

definition open_vault :: "prims \<Rightarrow> u64 \<Rightarrow> vault_file \<Rightarrow> bytes \<Rightarrow> bool \<Rightarrow> (host, opened_vault) mut" where
  "open_vault p now f pw allow_legacy =
     bindM (readM (\<lambda>_. if vh_version (vf_header f) = kLegacyVersion \<and> \<not> allow_legacy
                       then Inl (RollbackError LegacyVault) else Inr ())) (\<lambda>_.
     bindM (readM (\<lambda>_. unseal p (vf_bytes f) pw)) (\<lambda>plain.
     bindM (readM (\<lambda>_. store_parse p now plain)) (\<lambda>v.
     bindM (readM (load_anchor p (v_vault_id v))) (\<lambda>anchor.
     bindM (check_anchor p v (vf_digest f) anchor) (\<lambda>st.
     returnM \<lparr>ov_store = v,
       ov_params = \<lparr>pr_time_cost = vh_time_cost (vf_header f), pr_mem_cost_kb = vh_mem_cost_kb (vf_header f)\<rparr>,
       ov_passphrase = pw, ov_status = st, ov_digest = vf_digest f, ov_version = vh_version (vf_header f)\<rparr>)))))"

section \<open>Saving\<close>

record save_script =
  ss_vault_id :: bytes
  ss_salt :: bytes
  ss_nonce :: bytes
  ss_read :: read_script
  ss_write :: write_script

text \<open>Anchors the state in memory under the given digest.\<close>

definition anchor_now :: "prims \<Rightarrow> bytes \<Rightarrow> (app_state, unit) mut" where
  "anchor_now p dg st =
     on_host (store_anchor p (new_anchor (v_vault_id (as_store st)) (v_generation (as_store st)) dg)
       (v_seed (as_store st))) st"

definition settle_anchor :: "prims \<Rightarrow> anchor_record \<Rightarrow> bytes \<Rightarrow> (app_state, unit) mut" where
  "settle_anchor p a dg =
     catchM (bindM (readM (\<lambda>st. validate p a (as_store st) dg)) (\<lambda>s.
               if s = AdvancedAfterCrash then anchor_now p dg else returnM ()))
       (\<lambda>e. bindM (readM (\<lambda>st. bindR (authentic_for p a (as_store st)) (\<lambda>ok.
               if \<not> ok \<or> v_generation (as_store st) \<le> ar_generation a then Inl e else Inr ()))) (\<lambda>_. returnM ()))"

text \<open>The file that is about to be replaced: its version, and the anchor once it agrees with that file.\<close>

definition check_previous :: "prims \<Rightarrow> save_script \<Rightarrow> string \<Rightarrow> (app_state, byte \<times> anchor_record option) mut" where
  "check_previous p sc name =
     bindM (readM (\<lambda>st. ended (read_file (ss_read sc) name (as_dir st)))) (\<lambda>previous.
     bindM (readM (\<lambda>_. parse_header previous)) (\<lambda>h.
     bindM (readM (\<lambda>st. load_anchor p (v_vault_id (as_store st)) (as_host st))) (\<lambda>anchor.
     bindM (case anchor of None \<Rightarrow> returnM () | Some a \<Rightarrow> settle_anchor p a (vault_digest p previous)) (\<lambda>_.
     bindM (modifyM (\<lambda>st. st\<lparr>as_store := (as_store st)\<lparr>v_previous_digest := vault_digest p previous\<rparr>\<rparr>)) (\<lambda>_.
     returnM (vh_version h, anchor))))))"

definition fill_vault_id :: "bytes \<Rightarrow> vault_store \<Rightarrow> vault_store" where
  "fill_vault_id fresh v = (if list_all (\<lambda>b. b = 0) (v_vault_id v) then v\<lparr>v_vault_id := fresh\<rparr> else v)"

definition bump_generation :: "app_state \<Rightarrow> app_state" where
  "bump_generation st = st\<lparr>as_store := (as_store st)\<lparr>v_generation := v_generation (as_store st) + 1\<rparr>\<rparr>"

text \<open>The new file, and its anchor if the old one had one.\<close>

definition seal_and_write ::
  "prims \<Rightarrow> save_script \<Rightarrow> string \<Rightarrow> params \<Rightarrow> bytes \<Rightarrow> byte \<Rightarrow> bool \<Rightarrow> (app_state, unit) mut" where
  "seal_and_write p sc name params pw version enrolled =
     bindM (readM (\<lambda>st. serialize (as_store st))) (\<lambda>plaintext.
     bindM (readM (\<lambda>_. seal p (ss_salt sc) (ss_nonce sc) plaintext pw params version)) (\<lambda>file.
     bindM (write_vault (ss_write sc) name file) (\<lambda>_.
     if \<not> enrolled then returnM () else anchor_now p (vault_digest p file))))"

definition save_vault :: "prims \<Rightarrow> save_script \<Rightarrow> string \<Rightarrow> params \<Rightarrow> bytes \<Rightarrow> (app_state, unit) mut" where
  "save_vault p sc name params pw =
     bindM (modifyM (\<lambda>st. st\<lparr>as_store := fill_vault_id (ss_vault_id sc) (as_store st)\<rparr>)) (\<lambda>_.
     bindM (\<lambda>st. if as_dir st name \<noteq> None then check_previous p sc name st else (st, Inr (kVersion, None)))
       (\<lambda>(version, anchor).
     bindM (readM (\<lambda>st. if v_generation (as_store st) = -1 then Inl (RollbackError GenerationExhausted) else Inr ())) (\<lambda>_.
     bindM (modifyM bump_generation) (\<lambda>_.
     seal_and_write p sc name params pw version (anchor \<noteq> None)))))"

section \<open>Changing the passphrase\<close>

definition kRekeyPreparedFilename :: string where
  "kRekeyPreparedFilename = ''vault.bin.rekey-prepared''"

record rekey_script =
  rk_salt :: bytes
  rk_nonce :: bytes
  rk_write :: write_script
  rk_read :: read_script
  rk_promote :: write_script
  rk_now :: u64

definition same_vault :: "vault_store \<Rightarrow> vault_store \<Rightarrow> bool" where
  "same_vault a b \<longleftrightarrow> v_vault_id a = v_vault_id b \<and> v_generation a = v_generation b \<and> v_seed a = v_seed b \<and>
     length (v_contacts a) = length (v_contacts b) \<and> length (v_sessions a) = length (v_sessions b)"

definition promote_vault :: "write_script \<Rightarrow> string \<Rightarrow> string \<Rightarrow> (app_state, unit) mut" where
  "promote_vault sc prepared name st =
     (let t = promote_prepared sc ([], prepared) ([], name) (as_dir st)
      in (st\<lparr>as_dir := left_by (as_dir st) t\<rparr>, ended (snd t)))"

text \<open>Everything up to the promotion, which the guard watches; the bytes now on the drive.\<close>

definition rekey_body :: "prims \<Rightarrow> rekey_script \<Rightarrow> string \<Rightarrow> params \<Rightarrow> bytes \<Rightarrow> (app_state, bytes) mut" where
  "rekey_body p sc name params pw =
     bindM (readM (\<lambda>st. serialize (as_store st))) (\<lambda>plaintext.
     bindM (readM (\<lambda>_. seal p (rk_salt sc) (rk_nonce sc) plaintext pw params kWordVersion)) (\<lambda>file.
     bindM (write_vault (rk_write sc) kRekeyPreparedFilename file) (\<lambda>_.
     bindM (readM (\<lambda>st. ended (read_file (rk_read sc) kRekeyPreparedFilename (as_dir st)))) (\<lambda>written.
     bindM (readM (\<lambda>_. parse_header written)) (\<lambda>h.
     bindM (readM (\<lambda>_. if vh_version h \<noteq> kWordVersion then Inl (AppError RekeyVersion) else Inr ())) (\<lambda>_.
     bindM (readM (\<lambda>_. unseal p written pw)) (\<lambda>reopened.
     bindM (readM (\<lambda>_. store_parse p (rk_now sc) reopened)) (\<lambda>verified.
     bindM (readM (\<lambda>st. if \<not> same_vault verified (as_store st) then Inl (AppError RekeyIdentity) else Inr ())) (\<lambda>_.
     bindM (promote_vault (rk_promote sc) kRekeyPreparedFilename name) (\<lambda>_.
     returnM written))))))))))"

text \<open>After the commit: an anchor that exists moves to the new digest.\<close>

definition re_anchor :: "prims \<Rightarrow> bytes \<Rightarrow> (app_state, unit) mut" where
  "re_anchor p written st =
     (if h_backend (as_host st) then
        bindM (readM (\<lambda>st. load_anchor p (v_vault_id (as_store st)) (as_host st))) (\<lambda>anchor.
          if anchor = None then returnM () else anchor_now p (vault_digest p written)) st
      else (st, Inr ()))"

definition rekey_vault :: "prims \<Rightarrow> rekey_script \<Rightarrow> string \<Rightarrow> params \<Rightarrow> bytes \<Rightarrow> (app_state, unit) mut" where
  "rekey_vault p sc name params pw st =
     (let previous = v_generation (as_store st) in
      if previous = -1 then (st, Inl (RollbackError GenerationExhausted))
      else case rekey_body p sc name params pw (bump_generation st) of
        (st', Inl e) \<Rightarrow> (st'\<lparr>as_store := (as_store st')\<lparr>v_generation := previous\<rparr>\<rparr>, Inl e)
      | (st', Inr written) \<Rightarrow> re_anchor p written st')"

definition enroll_rollback_anchor :: "prims \<Rightarrow> opened_vault \<Rightarrow> (host, unit) mut" where
  "enroll_rollback_anchor p ov = enroll p (ov_store ov) (ov_digest ov)"

end
