(* ===== verification/App_Props.thy ===== *)
theory App_Props
  imports App
begin

text \<open>
  The vault and its anchor over the life of a program: what opening accepts, that the anchor never goes back
  and never gets ahead of the store in memory, that a save can be opened again, and what a failed save leaves.
\<close>

section \<open>The host under the operations\<close>

definition host_laws :: "prims \<Rightarrow> bool" where
  "host_laws p \<longleftrightarrow> b64url_law p \<and> hmac_law p \<and> sha256_law p"

lemma store_anchor_cases:
  assumes "host_laws p" and "h_readable h" and "length (v_vault_id v) = 16" and "length dg = 32"
    and "store_anchor p (new_anchor (v_vault_id v) g dg) (v_seed v) h = (h', r)"
  obtains (stored) "r = Inr ()" and "h_readable h'"
      and "\<And>j. load_anchor p j h' = (if j = v_vault_id v then Inr (Some (anchor_for p v g dg)) else load_anchor p j h)"
    | (refused) e where "r = Inl e" and "h' = h"
proof (cases "h_backend h \<and> h_writable h")
  case True
  obtain h2 where s: "store_anchor p (new_anchor (v_vault_id v) g dg) (v_seed v) h = (h2, Inr ())" "h_readable h2"
      "\<And>j. load_anchor p j h2 = (if j = v_vault_id v then Inr (Some (anchor_for p v g dg)) else load_anchor p j h)"
    by (rule store_anchor_ok [of p h v dg g]) (use assms True in \<open>auto simp: host_laws_def\<close>)
  with assms(5) stored show thesis
    by simp
next
  case False
  obtain t where "encode_anchor p (anchor_for p v g dg) = Inr t"
    by (simp add: encode_anchor_eq put_anchor_eq)
  moreover have "authenticate p (new_anchor (v_vault_id v) g dg) (v_seed v) = Inr (anchor_for p v g dg)"
    by (simp add: authenticate_eq anchor_for_def)
  ultimately have "store_anchor p (new_anchor (v_vault_id v) g dg) (v_seed v) h = (h, Inl (RollbackError AnchorService))"
    using False by (simp add: store_anchor_def)
  with assms(5) show thesis
    by (intro refused [of "RollbackError AnchorService"]) simp_all
qed

text \<open>
  The generation a host remembers of a vault, and what it means that it has not gone back: no anchor is lost,
  and none is older than it was.
\<close>

definition anchored :: "prims \<Rightarrow> bytes \<Rightarrow> host \<Rightarrow> u64 option" where
  "anchored p i h = (case load_anchor p i h of Inr (Some a) \<Rightarrow> Some (ar_generation a) | _ \<Rightarrow> None)"

definition moved_on :: "prims \<Rightarrow> host \<Rightarrow> host \<Rightarrow> bool" where
  "moved_on p h h' \<longleftrightarrow> h_readable h' = h_readable h \<and>
     (\<forall>i g. anchored p i h = Some g \<longrightarrow> (\<exists>g'. anchored p i h' = Some g' \<and> g \<le> g'))"

lemma moved_on_refl [simp]: "moved_on p h h"
  by (simp add: moved_on_def)

lemma moved_on_trans: "moved_on p h h1 \<Longrightarrow> moved_on p h1 h2 \<Longrightarrow> moved_on p h h2"
proof -
  assume a: "moved_on p h h1" "moved_on p h1 h2"
  have "\<exists>g2. anchored p i h2 = Some g2 \<and> g \<le> g2" if g: "anchored p i h = Some g" for i g
  proof -
    obtain g1 where "anchored p i h1 = Some g1" "g \<le> g1"
      using a(1) g unfolding moved_on_def by blast
    moreover from this(1) obtain g2 where "anchored p i h2 = Some g2" "g1 \<le> g2"
      using a(2) unfolding moved_on_def by blast
    ultimately show ?thesis
      by (metis order_trans)
  qed
  with a show ?thesis
    by (simp add: moved_on_def)
qed

text \<open>The store in memory is never behind its anchor.\<close>

definition in_step :: "prims \<Rightarrow> vault_store \<Rightarrow> host \<Rightarrow> bool" where
  "in_step p v h \<longleftrightarrow> (\<forall>g. anchored p (v_vault_id v) h = Some g \<longrightarrow> g \<le> v_generation v)"

lemma store_anchor_moves_on:
  fixes v :: vault_store
  assumes "host_laws p" and "h_readable h" and "length (v_vault_id v) = 16" and "length dg = 32"
    and "store_anchor p (new_anchor (v_vault_id v) g dg) (v_seed v) h = (h', r)"
    and "\<And>g0. anchored p (v_vault_id v) h = Some g0 \<Longrightarrow> g0 \<le> g"
  shows "moved_on p h h'" and "anchored p (v_vault_id v) h' = Some g \<or> h' = h"
proof -
  show "anchored p (v_vault_id v) h' = Some g \<or> h' = h"
    by (rule store_anchor_cases [OF assms(1-5)]) (auto simp: anchored_def)
  show "moved_on p h h'"
  proof (rule store_anchor_cases [OF assms(1-5)])
    assume stored: "h_readable h'"
      "\<And>j. load_anchor p j h' = (if j = v_vault_id v then Inr (Some (anchor_for p v g dg)) else load_anchor p j h)"
    then have "anchored p j h' = (if j = v_vault_id v then Some g else anchored p j h)" for j
      by (simp add: anchored_def)
    with stored(1) assms(2,6) show ?thesis
      by (auto simp: moved_on_def)
  qed simp
qed

section \<open>Opening\<close>

lemma catchM_Inr: "catchM m f s = (s', Inr x) \<longleftrightarrow> m s = (s', Inr x) \<or> (\<exists>s1 e. m s = (s1, Inl e) \<and> f e s1 = (s', Inr x))"
  by (auto simp: catchM_def split: prod.splits sum.splits)

text \<open>A drive that is accepted is not behind the anchor.\<close>

lemma check_anchor_cases:
  assumes "check_anchor p v dg (Some a) h = (h', r)"
  obtains (refused) e where "r = Inl e" and "h' = h"
  | (agrees) "r = Inr Protected" and "h' = h" and "authentic_for p a v = Inr True"
      and "v_generation v = ar_generation a" and "dg = ar_vault_digest a"
  | (ahead) r1 where "authentic_for p a v = Inr True" and "ar_generation a < v_generation v"
      and "store_anchor p (new_anchor (v_vault_id v) (v_generation v) dg) (v_seed v) h = (h', r1)"
      and "r = Inr (case r1 of Inl e \<Rightarrow> Unprotected | Inr x \<Rightarrow> Protected)"
proof -
  obtain h1 r1 where s: "store_anchor p (new_anchor (v_vault_id v) (v_generation v) dg) (v_seed v) h = (h1, r1)"
    by fastforce
  have re: "catchM (bindM (store_anchor p (new_anchor (v_vault_id v) (v_generation v) dg) (v_seed v))
      (\<lambda>_. returnM Protected)) (\<lambda>e. returnM Unprotected) h = (h1, Inr (case r1 of Inl e \<Rightarrow> Unprotected | Inr x \<Rightarrow> Protected))"
    by (cases r1) (simp_all add: catchM_def bindM_def s)
  show thesis
  proof (cases "validate p a v dg")
    case (Inr st)
    then have v: "authentic_for p a v = Inr True" "st = Protected \<and> v_generation v = ar_generation a \<and> dg = ar_vault_digest a \<or>
        st = AdvancedAfterCrash \<and> unat (v_generation v) = unat (ar_generation a) + 1"
      by (auto simp: validate_Inr)
    then consider "st = Protected" "v_generation v = ar_generation a" "dg = ar_vault_digest a"
      | "st = AdvancedAfterCrash" "ar_generation a < v_generation v"
      by (auto simp: word_less_nat_alt)
    then show thesis
    proof cases
      case 1
      with Inr v assms show thesis
        by (intro agrees) (simp_all add: check_anchor_def)
    next
      case 2
      with Inr v assms re show thesis
        by (intro ahead [OF v(1) 2(2)]) (auto simp: check_anchor_def s)
    qed
  next
    case (Inl e)
    show thesis
    proof (cases "authentic_for p a v = Inr True \<and> ar_generation a < v_generation v")
      case True
      with Inl assms re show thesis
        by (intro ahead) (auto simp: check_anchor_def s not_le)
    next
      case False
      then have "(case validate p a v dg of Inr st \<Rightarrow> Inr (Some st) | Inl e \<Rightarrow> bindR (authentic_for p a v) (\<lambda>ok.
          if \<not> ok \<or> v_generation v \<le> ar_generation a then Inl e else Inr None)) = Inl e"
        using Inl by (auto simp: authentic_for_eq not_le)
      with assms show thesis
        by (intro refused [of e]) (simp_all add: check_anchor_def)
    qed
  qed
qed

lemma open_vault_Inr:
  assumes "open_vault p now f pw legacy h = (h', Inr ov)"
  obtains plain anchor where "unseal p (vf_bytes f) pw = Inr plain" and "store_parse p now plain = Inr (ov_store ov)"
    and "load_anchor p (v_vault_id (ov_store ov)) h = Inr anchor"
    and "check_anchor p (ov_store ov) (vf_digest f) anchor h = (h', Inr (ov_status ov))"
    and "ov_passphrase ov = pw" and "ov_digest ov = vf_digest f" and "ov_version ov = vh_version (vf_header f)"
  using assms by (auto simp: open_vault_def bindM_eq_Inr)

text \<open>
  What opening does with an anchor it accepts: the same generation must be the very file that was anchored;
  a drive ahead of the anchor is believed, and the anchor is moved to it if the host can store it.
\<close>

definition accepted_by :: "prims \<Rightarrow> opened_vault \<Rightarrow> host \<Rightarrow> anchor_record \<Rightarrow> host \<Rightarrow> bool" where
  "accepted_by p ov h a h' \<longleftrightarrow> (let v = ov_store ov in authentic_for p a v = Inr True \<and>
     (v_generation v = ar_generation a \<and> ov_digest ov = ar_vault_digest a \<and> ov_status ov = Protected \<and> h' = h \<or>
      ar_generation a < v_generation v \<and>
        (\<exists>r. store_anchor p (new_anchor (v_vault_id v) (v_generation v) (ov_digest ov)) (v_seed v) h = (h', r) \<and>
             ov_status ov = (case r of Inl e \<Rightarrow> Unprotected | Inr _ \<Rightarrow> Protected))))"

lemma open_vault_accepted:
  assumes "open_vault p now f pw legacy h = (h', Inr ov)"
  shows "(load_anchor p (v_vault_id (ov_store ov)) h = Inr None \<and> h' = h \<and> ov_status ov = Unprotected) \<or>
    (\<exists>a. load_anchor p (v_vault_id (ov_store ov)) h = Inr (Some a) \<and> accepted_by p ov h a h')"
proof -
  obtain anchor where l: "load_anchor p (v_vault_id (ov_store ov)) h = Inr anchor"
    and c: "check_anchor p (ov_store ov) (vf_digest f) anchor h = (h', Inr (ov_status ov))"
    and d: "ov_digest ov = vf_digest f"
    by (rule open_vault_Inr [OF assms])
  show ?thesis
  proof (cases anchor)
    case None
    with l c show ?thesis
      by (simp add: check_anchor_def)
  next
    case (Some a)
    from c [unfolded Some] have "accepted_by p ov h a h'"
      by (cases rule: check_anchor_cases) (auto simp: accepted_by_def d split: sum.splits)
    with l Some show ?thesis
      by simp
  qed
qed

lemma open_vault_Inl:
  assumes "open_vault p now f pw legacy h = (h', Inl e)"
  shows "h' = h"
proof -
  have c: "h1 = h" if "check_anchor p v dg anchor h = (h1, Inl e1)" for v dg anchor h1 e1
  proof (cases anchor)
    case None
    with that show ?thesis
      by (simp add: check_anchor_def)
  next
    case (Some a)
    from that [unfolded Some] show ?thesis
      by (cases rule: check_anchor_cases) simp_all
  qed
  from assms show ?thesis
    by (auto simp: open_vault_def bindM_def split: if_splits sum.splits prod.splits dest: c)
qed


section \<open>The anchor over the life of a program\<close>

definition settled :: "prims \<Rightarrow> app_state \<Rightarrow> bool" where
  "settled p st \<longleftrightarrow> h_readable (as_host st) \<and> length (v_vault_id (as_store st)) = 16 \<and>
     in_step p (as_store st) (as_host st)"

text \<open>An operation that keeps the store settled and moves no anchor back.\<close>

definition sound_step :: "prims \<Rightarrow> app_state \<Rightarrow> app_state \<Rightarrow> bool" where
  "sound_step p st st' \<longleftrightarrow> settled p st' \<and> moved_on p (as_host st) (as_host st')"

lemma sound_step_refl: "settled p st \<Longrightarrow> sound_step p st st"
  by (simp add: sound_step_def)

lemma sound_step_trans: "sound_step p st st1 \<Longrightarrow> sound_step p st1 st2 \<Longrightarrow> sound_step p st st2"
  unfolding sound_step_def using moved_on_trans by blast

lemma sound_step_same:
  assumes "settled p st" and "as_host st' = as_host st" and "v_vault_id (as_store st') = v_vault_id (as_store st)"
    and "v_generation (as_store st) \<le> v_generation (as_store st')"
  shows "sound_step p st st'"
  using assms by (auto simp: sound_step_def settled_def in_step_def intro: order_trans)

lemma anchor_now_step:
  assumes laws: "host_laws p" and s: "settled p st" and dg: "length dg = 32" and r: "anchor_now p dg st = (st', r)"
  shows "sound_step p st st'" and "as_store st' = as_store st" and "as_dir st' = as_dir st"
proof -
  obtain h' where h: "store_anchor p (new_anchor (v_vault_id (as_store st)) (v_generation (as_store st)) dg)
      (v_seed (as_store st)) (as_host st) = (h', r)" and st': "st' = st\<lparr>as_host := h'\<rparr>"
    using r by (auto simp: anchor_now_def on_host_def split: prod.splits)
  have i: "h_readable (as_host st)" "length (v_vault_id (as_store st)) = 16"
    and "\<And>g0. anchored p (v_vault_id (as_store st)) (as_host st) = Some g0 \<Longrightarrow> g0 \<le> v_generation (as_store st)"
    using s by (simp_all add: settled_def in_step_def)
  note m = store_anchor_moves_on [OF laws i dg h this(3)]
  then show "sound_step p st st'"
    using s by (auto simp: sound_step_def settled_def st' in_step_def moved_on_def)
  show "as_store st' = as_store st" and "as_dir st' = as_dir st"
    by (simp_all add: st')
qed

lemma settle_anchor_step:
  assumes "host_laws p" and "settled p st" and "length dg = 32" and "settle_anchor p a dg st = (st', r)"
  shows "sound_step p st st'" and "as_store st' = as_store st" and "as_dir st' = as_dir st"
proof -
  obtain st1 r1 where a: "anchor_now p dg st = (st1, r1)"
    by fastforce
  have "st' = st \<or> st' = st1"
    using assms(4) by (auto simp: settle_anchor_def catchM_def bindM_def a split: prod.splits sum.splits if_splits)
  then show "sound_step p st st'" and "as_store st' = as_store st" and "as_dir st' = as_dir st"
    using sound_step_refl [OF assms(2)] anchor_now_step [OF assms(1-3) a] by auto
qed

lemma length_vault_digest: "host_laws p \<Longrightarrow> length (vault_digest p bs) = 32"
  by (simp add: host_laws_def vault_digest_def sha256_length)

lemma check_previous_step:
  assumes laws: "host_laws p" and s: "settled p st" and r: "check_previous p sc name st = (st', r)"
  shows "sound_step p st st'" and "v_generation (as_store st') = v_generation (as_store st)"
    and "v_vault_id (as_store st') = v_vault_id (as_store st)" and "as_dir st' = as_dir st"
proof -
  have "\<exists>st1. sound_step p st st1 \<and> as_store st1 = as_store st \<and> as_dir st1 = as_dir st \<and>
      (st' = st1 \<or> (\<exists>dg. st' = st1\<lparr>as_store := (as_store st1)\<lparr>v_previous_digest := dg\<rparr>\<rparr>))"
  proof (cases "ended (read_file (ss_read sc) name (as_dir st))")
    case (Inl e)
    with r sound_step_refl [OF s] show ?thesis
      by (auto simp: check_previous_def)
  next
    case prev: (Inr previous)
    show ?thesis
    proof (cases "bindR (parse_header previous) (\<lambda>h. load_anchor p (v_vault_id (as_store st)) (as_host st))")
      case (Inl e)
      with r prev sound_step_refl [OF s] show ?thesis
        by (auto simp: check_previous_def bindM_read bindR_eq_Inl split: sum.splits)
    next
      case anc: (Inr anchor)
      then obtain h where h: "parse_header previous = Inr h"
          "load_anchor p (v_vault_id (as_store st)) (as_host st) = Inr anchor"
        by (auto simp: bindR_eq_Inr)
      obtain st1 r1 where a: "(case anchor of None \<Rightarrow> returnM () | Some a \<Rightarrow> settle_anchor p a (vault_digest p previous)) st
          = (st1, r1)"
        by fastforce
      have "sound_step p st st1 \<and> as_store st1 = as_store st \<and> as_dir st1 = as_dir st"
        using a settle_anchor_step [OF laws s length_vault_digest [OF laws]] sound_step_refl [OF s]
        by (cases anchor) auto
      moreover have "st' = st1 \<or> (\<exists>dg. st' = st1\<lparr>as_store := (as_store st1)\<lparr>v_previous_digest := dg\<rparr>\<rparr>)"
        using r prev h a by (auto simp: check_previous_def bindM_def split: sum.splits)
      ultimately show ?thesis
        by blast
    qed
  qed
  then obtain st1 where st1: "sound_step p st st1" "as_store st1 = as_store st" "as_dir st1 = as_dir st"
    and st': "st' = st1 \<or> (\<exists>dg. st' = st1\<lparr>as_store := (as_store st1)\<lparr>v_previous_digest := dg\<rparr>\<rparr>)"
    by blast
  have "settled p st1"
    using st1(1) by (simp add: sound_step_def)
  then have "sound_step p st1 st'"
    by (rule sound_step_same) (use st' in auto)
  with st1(1) show "sound_step p st st'"
    by (rule sound_step_trans)
  show "v_generation (as_store st') = v_generation (as_store st)"
    and "v_vault_id (as_store st') = v_vault_id (as_store st)" and "as_dir st' = as_dir st"
    using st1 st' by auto
qed

lemma bump_step:
  assumes "settled p st" and "v_generation (as_store st) \<noteq> -1"
  shows "sound_step p st (bump_generation st)"
proof (rule sound_step_same [OF assms(1)])
  have "unat (v_generation (as_store st)) \<le> unat (v_generation (as_store st) + 1)"
    using assms(2) by (simp add: unat_Suc_u64)
  then show "v_generation (as_store st) \<le> v_generation (as_store (bump_generation st))"
    by (simp add: bump_generation_def word_le_nat_alt)
qed (simp_all add: bump_generation_def)

text \<open>Writing to the drive changes neither the store nor the host.\<close>

lemma write_vault_same:
  "write_vault sc name bs st = (st', r) \<Longrightarrow> as_store st' = as_store st \<and> as_host st' = as_host st"
  "promote_vault sc' q name st = (st', r') \<Longrightarrow> as_store st' = as_store st \<and> as_host st' = as_host st"
  by (auto simp: write_vault_def promote_vault_def Let_def)

definition fresh_id :: "prims \<Rightarrow> save_script \<Rightarrow> app_state \<Rightarrow> bool" where
  "fresh_id p sc st \<longleftrightarrow> length (ss_vault_id sc) = 16 \<and>
     (list_all (\<lambda>b. b = 0) (v_vault_id (as_store st)) \<longrightarrow> anchored p (ss_vault_id sc) (as_host st) = None)"

lemma fill_step:
  assumes "settled p st" and "fresh_id p sc st"
  shows "sound_step p st (st\<lparr>as_store := fill_vault_id (ss_vault_id sc) (as_store st)\<rparr>)"
  using assms by (auto simp: sound_step_def settled_def in_step_def fresh_id_def fill_vault_id_def)

lemma seal_and_write_step:
  assumes laws: "host_laws p" and s: "settled p st"
    and r: "seal_and_write p sc name pr pw version enrolled st = (st', r)"
  shows "sound_step p st st'"
proof (cases "bindR (serialize (as_store st)) (\<lambda>plain. seal p (ss_salt sc) (ss_nonce sc) plain pw pr version)")
  case (Inl e)
  with r have "st' = st"
    by (auto simp: seal_and_write_def bindM_read bindR_eq_Inl split: sum.splits)
  with sound_step_refl [OF s] show ?thesis
    by simp
next
  case (Inr bs)
  then have r: "bindM (write_vault (ss_write sc) name bs)
      (\<lambda>_. if \<not> enrolled then returnM () else anchor_now p (vault_digest p bs)) st = (st', r)"
    using r by (auto simp: seal_and_write_def bindR_eq_Inr)
  obtain st1 r1 where w: "write_vault (ss_write sc) name bs st = (st1, r1)"
    by fastforce
  note same = write_vault_same(1) [OF w]
  have s1: "sound_step p st st1"
    by (rule sound_step_same [OF s]) (use same in simp_all)
  then have "settled p st1"
    by (simp add: sound_step_def)
  then show ?thesis
    using r w s1 anchor_now_step(1) [OF laws _ length_vault_digest [OF laws]] sound_step_trans [OF s1]
    by (auto simp: bindM_def split: sum.splits if_splits)
qed

lemma save_vault_step:
  assumes laws: "host_laws p" and s: "settled p st" and f: "fresh_id p sc st"
    and r: "save_vault p sc name pr pw st = (st', r)"
  shows "sound_step p st st'"
proof -
  let ?st0 = "st\<lparr>as_store := fill_vault_id (ss_vault_id sc) (as_store st)\<rparr>"
  have s0: "sound_step p st ?st0" and s0': "settled p ?st0"
    using fill_step [OF s f] by (simp_all add: sound_step_def)
  obtain st1 r1 where c: "(if as_dir ?st0 name \<noteq> None then check_previous p sc name ?st0 else (?st0, Inr (kVersion, None))) = (st1, r1)"
    by fastforce
  have s1: "sound_step p ?st0 st1"
    using c check_previous_step(1) [OF laws s0'] sound_step_refl [OF s0'] by (auto split: if_splits)
  note s01 = sound_step_trans [OF s0 s1]
  then have s1': "settled p st1"
    by (simp add: sound_step_def)
  show ?thesis
  proof (cases r1)
    case (Inl e)
    with r c s01 show ?thesis
      by (simp add: save_vault_def bindM_def)
  next
    case (Inr va)
    obtain version anchor where va: "va = (version, anchor)"
      by fastforce
    show ?thesis
    proof (cases "v_generation (as_store st1) = -1")
      case True
      with r c Inr va s01 show ?thesis
        by (simp add: save_vault_def bindM_def)
    next
      case False
      note s2 = bump_step [OF s1' this]
      then have s2': "settled p (bump_generation st1)"
        by (simp add: sound_step_def)
      have "seal_and_write p sc name pr pw version (anchor \<noteq> None) (bump_generation st1) = (st', r)"
        using r c Inr va False by (simp add: save_vault_def bindM_def)
      then have "sound_step p (bump_generation st1) st'"
        by (rule seal_and_write_step [OF laws s2'])
      with s01 s2 show ?thesis
        by (meson sound_step_trans)
    qed
  qed
qed

section \<open>Changing the passphrase\<close>

lemma write_left_intact: "intact sc name bs d (left_by d (write_file sc name bs ov d))"
proof -
  have "intact sc name bs d d"
    by (rule intactI) simp_all
  then show ?thesis
    using write_file_intact [of sc name bs d ov] last_in_set [of "fst (write_file sc name bs ov d)"]
    by (auto simp: left_by_def list_all_iff)
qed

lemma intact_other: "intact sc name bs d x \<Longrightarrow> n \<noteq> name \<Longrightarrow> n \<noteq> tmp_name sc name \<Longrightarrow> x n = d n"
  unfolding intact_def by (metis ComplI insertE restrict_in singletonD)

definition kVaultFilename :: string where
  "kVaultFilename = ''vault.bin''"

lemma prepared_names [simp]:
  "kVaultFilename \<noteq> kRekeyPreparedFilename" "kVaultFilename \<noteq> tmp_name sc kRekeyPreparedFilename"
  by (simp_all add: kVaultFilename_def kRekeyPreparedFilename_def tmp_name_def)

lemma rekey_body_frame: "preserves (\<lambda>st. (as_store st, as_host st)) (rekey_body p sc name pr pw)"
proof -
  have "preserves (\<lambda>st. (as_store st, as_host st)) (write_vault sc' n bs)"
      "preserves (\<lambda>st. (as_store st, as_host st)) (promote_vault sc' q n)" for sc' q n bs
    by (simp_all add: preserves_def write_vault_def promote_vault_def Let_def)
  then show ?thesis
    unfolding rekey_body_def by (intro frame_intro)
qed

text \<open>A container that opens under the new passphrase to the same vault.\<close>

definition verified_copy :: "prims \<Rightarrow> u64 \<Rightarrow> bytes \<Rightarrow> vault_store \<Rightarrow> dir_entry option \<Rightarrow> bool" where
  "verified_copy p now pw v e \<longleftrightarrow> (\<exists>bs plain w. e = Some (fresh_entry bs) \<and> unseal p bs pw = Inr plain \<and>
     store_parse p now plain = Inr w \<and> same_vault w v)"

lemma write_vault_Inr:
  assumes "write_vault sc name bs st = (st', Inr ())"
  shows "as_dir st' = (as_dir st)(name \<mapsto> fresh_entry bs)"
proof -
  obtain ds r where w: "write_file sc name bs True (as_dir st) = (ds, r)"
    by fastforce
  then have "r = Some (Inr ())"
    using assms by (auto simp: write_vault_def Let_def ended_def split: option.splits)
  then show ?thesis
    using assms write_file_left [of sc name bs "as_dir st" True] w by (auto simp: write_vault_def Let_def written_as_def)
qed

lemma promote_vault_cases:
  assumes "promote_vault sc q name st = (st', r)"
  shows "as_dir st' = as_dir st \<and> (\<exists>e. r = Inl e) \<or>
    as_dir st' = (as_dir st)(q := None, name := as_dir st q)"
  using assms
  by (auto simp: promote_vault_def promote_prepared_def Let_def left_by_def ended_def split: if_splits option.splits)

lemma rekey_body_dir:
  assumes r: "rekey_body p sc kVaultFilename pr pw st = (st', r)"
  shows "(as_dir st' kVaultFilename = as_dir st kVaultFilename \<and> (\<exists>e. r = Inl e)) \<or>
    verified_copy p (rk_now sc) pw (as_store st) (as_dir st' kVaultFilename)"
proof -
  have un: "as_dir st1 kVaultFilename = as_dir st kVaultFilename"
    if "write_vault (rk_write sc) kRekeyPreparedFilename bs st = (st1, r1)" for bs st1 r1
    using that intact_other [OF write_left_intact] by (auto simp: write_vault_def Let_def)
  show ?thesis
  proof (cases "\<exists>plain bs st1. serialize (as_store st) = Inr plain \<and>
      seal p (rk_salt sc) (rk_nonce sc) plain pw pr kWordVersion = Inr bs \<and>
      write_vault (rk_write sc) kRekeyPreparedFilename bs st = (st1, Inr ())")
    case False
    then show ?thesis
      using r un by (auto simp: rekey_body_def bindM_def split: sum.splits prod.splits; metis)
  next
    case True
    then obtain plain bs st1 where s: "serialize (as_store st) = Inr plain"
        "seal p (rk_salt sc) (rk_nonce sc) plain pw pr kWordVersion = Inr bs"
        "write_vault (rk_write sc) kRekeyPreparedFilename bs st = (st1, Inr ())"
      by blast
    note d1 = write_vault_Inr [OF s(3)] and same = write_vault_same(1) [OF s(3)]
    let ?checks = "bindR (ended (read_file (rk_read sc) kRekeyPreparedFilename (as_dir st1))) (\<lambda>written.
      bindR (parse_header written) (\<lambda>h.
      bindR (if vh_version h \<noteq> kWordVersion then Inl (AppError RekeyVersion) else Inr ()) (\<lambda>_.
      bindR (unseal p written pw) (\<lambda>reopened.
      bindR (store_parse p (rk_now sc) reopened) (\<lambda>verified.
      bindR (if \<not> same_vault verified (as_store st1) then Inl (AppError RekeyIdentity) else Inr ()) (\<lambda>_. Inr written))))))"
    show ?thesis
    proof (cases ?checks)
      case (Inl e)
      with r s have "st' = st1 \<and> (\<exists>e. r = Inl e)"
        by (auto simp: rekey_body_def bindM_def bindR_eq_Inl split: sum.splits if_splits; metis)
      with un [OF s(3)] show ?thesis
        by simp
    next
      case (Inr written)
      then obtain reopened verified h where c: "ended (read_file (rk_read sc) kRekeyPreparedFilename (as_dir st1)) = Inr written"
          "parse_header written = Inr h" "vh_version h = kWordVersion" "unseal p written pw = Inr reopened"
          "store_parse p (rk_now sc) reopened = Inr verified" "same_vault verified (as_store st1)"
        by (auto simp: bindR_eq_Inr split: if_splits)
      have "read_file (rk_read sc) kRekeyPreparedFilename (as_dir st1) = Some (Inr written)"
        using c(1) by (auto simp: ended_def split: option.splits)
      then have w: "written = bs"
        using read_file_bytes d1 by fastforce
      obtain st2 r2 where pr: "promote_vault (rk_promote sc) kRekeyPreparedFilename kVaultFilename st1 = (st2, r2)"
        by fastforce
      have "rekey_body p sc kVaultFilename pr pw st = (st2, case r2 of Inl e \<Rightarrow> Inl e | Inr x \<Rightarrow> Inr written)"
        by (cases r2) (simp_all add: rekey_body_def bindM_def s c pr)
      then have "st' = st2" and "(\<exists>e. r = Inl e) \<longleftrightarrow> (\<exists>e. r2 = Inl e)"
        using r by (auto split: sum.splits)
      with promote_vault_cases [OF pr] un [OF s(3)] d1 c(4-6) same w show ?thesis
        by (auto simp: verified_copy_def)
    qed
  qed
qed

lemma re_anchor_same: "re_anchor p bs st = (st', r) \<Longrightarrow> as_store st' = as_store st \<and> as_dir st' = as_dir st"
  by (auto simp: re_anchor_def bindM_def anchor_now_def on_host_def split: if_splits sum.splits prod.splits)

lemma rekey_vault_cases:
  assumes "rekey_vault p sc name pr pw st = (st', r)"
  obtains (full) "v_generation (as_store st) = -1" and "st' = st" and "\<exists>e. r = Inl e"
  | (failed) st1 e where "v_generation (as_store st) \<noteq> -1"
      and "rekey_body p sc name pr pw (bump_generation st) = (st1, Inl e)"
      and "st' = st1\<lparr>as_store := as_store st\<rparr>" and "as_host st' = as_host st" and "r = Inl e"
  | (committed) st1 written where "v_generation (as_store st) \<noteq> -1"
      and "rekey_body p sc name pr pw (bump_generation st) = (st1, Inr written)"
      and "as_store st1 = as_store (bump_generation st)" and "as_host st1 = as_host st"
      and "re_anchor p written st1 = (st', r)"
proof (cases "v_generation (as_store st) = -1")
  case True
  then have "rekey_vault p sc name pr pw st = (st, Inl (RollbackError GenerationExhausted))"
    by (simp add: rekey_vault_def)
  with assms have "st' = st" and "r = Inl (RollbackError GenerationExhausted)"
    by simp_all
  with True show thesis
    by (intro full) blast+
next
  case False
  obtain st1 r1 where b: "rekey_body p sc name pr pw (bump_generation st) = (st1, r1)"
    by fastforce
  have same: "as_store st1 = as_store (bump_generation st)" "as_host st1 = as_host st"
    using preservesD [OF rekey_body_frame b] by (simp_all add: bump_generation_def)
  show thesis
  proof (cases r1)
    case (Inl e)
    have g: "(as_store (bump_generation st))\<lparr>v_generation := v_generation (as_store st)\<rparr> = as_store st"
      by (simp add: bump_generation_def)
    have "rekey_vault p sc name pr pw st =
        (st1\<lparr>as_store := (as_store st1)\<lparr>v_generation := v_generation (as_store st)\<rparr>\<rparr>, Inl e)"
      using False b Inl by (simp add: rekey_vault_def)
    then have st': "st' = st1\<lparr>as_store := as_store st\<rparr>" and re: "r = Inl e"
      using assms by (simp_all add: same(1) g)
    show thesis
      by (rule failed [OF False b [unfolded Inl] st' _ re]) (simp add: st' same(2))
  next
    case (Inr written)
    with assms False b same show thesis
      by (intro committed [of st1 written]) (simp_all add: rekey_vault_def)
  qed
qed

lemma rekey_vault_step:
  assumes laws: "host_laws p" and s: "settled p st" and r: "rekey_vault p sc name pr pw st = (st', r)"
  shows "sound_step p st st'"
  using r
proof (cases rule: rekey_vault_cases)
  case full
  with sound_step_refl [OF s] show ?thesis
    by simp
next
  case (failed st1 e)
  show ?thesis
    by (rule sound_step_same [OF s failed(4)]) (simp_all add: failed(3))
next
  case (committed st1 written)
  have "sound_step p st st1"
  proof (rule sound_step_trans [OF bump_step [OF s committed(1)]])
    have "settled p (bump_generation st)"
      using bump_step [OF s committed(1)] by (simp add: sound_step_def)
    then show "sound_step p (bump_generation st) st1"
      by (rule sound_step_same) (simp_all add: committed(3,4), simp add: bump_generation_def)
  qed
  moreover from this have "settled p st1"
    by (simp add: sound_step_def)
  then have "sound_step p st1 st'"
    using committed(5) anchor_now_step(1) [OF laws _ length_vault_digest [OF laws]] sound_step_refl
    by (auto simp: re_anchor_def bindM_read split: if_splits sum.splits)
  ultimately show ?thesis
    by (rule sound_step_trans)
qed

lemma enroll_step:
  assumes laws: "host_laws p" and s: "settled p st" and dg: "length dg = 32"
    and r: "enroll p (as_store st) dg (as_host st) = (h, res)"
  shows "sound_step p st (st\<lparr>as_host := h\<rparr>)"
proof -
  obtain st1 r1 where a: "anchor_now p dg st = (st1, r1)"
    by fastforce
  have "h = as_host st \<or> h = as_host st1"
    using r a by (auto simp: enroll_def bindM_read anchor_now_def on_host_def split: if_splits sum.splits prod.splits)
  then have "st\<lparr>as_host := h\<rparr> = st \<or> st\<lparr>as_host := h\<rparr> = st1"
    using a by (auto simp: anchor_now_def on_host_def split: prod.splits)
  then show ?thesis
    using sound_step_refl [OF s] anchor_now_step(1) [OF laws s dg a] by metis
qed

text \<open>
  What a program does with an opened vault: any change of the store that keeps its identity and generation
  (messages, contacts, prekeys), and any change of the drive from outside; saves and changes of the passphrase
  that succeed, fail or are cut off; enrolment.
\<close>

inductive lifecycle :: "prims \<Rightarrow> app_state \<Rightarrow> app_state \<Rightarrow> bool" where
  opened: "lifecycle p st st"
| edit: "lifecycle p st st1 \<Longrightarrow> as_host st2 = as_host st1 \<Longrightarrow>
    v_vault_id (as_store st2) = v_vault_id (as_store st1) \<Longrightarrow>
    v_generation (as_store st2) = v_generation (as_store st1) \<Longrightarrow> lifecycle p st st2"
| save: "lifecycle p st st1 \<Longrightarrow> fresh_id p sc st1 \<Longrightarrow> save_vault p sc name pr pw st1 = (st2, r) \<Longrightarrow>
    lifecycle p st st2"
| rekey: "lifecycle p st st1 \<Longrightarrow> rekey_vault p rk name pr pw st1 = (st2, r) \<Longrightarrow> lifecycle p st st2"
| enrol: "lifecycle p st st1 \<Longrightarrow> length dg = 32 \<Longrightarrow> enroll p (as_store st1) dg (as_host st1) = (h, r) \<Longrightarrow>
    lifecycle p st (st1\<lparr>as_host := h\<rparr>)"

lemma lifecycle_sound:
  assumes "lifecycle p st st'" and "host_laws p" and "settled p st"
  shows "sound_step p st st'"
  using assms
proof induction
  case (opened p st)
  then show ?case
    by (simp add: sound_step_refl)
next
  case (edit p st st1 st2)
  from edit.IH [OF edit.prems] have s: "sound_step p st st1" .
  then have "settled p st1"
    by (simp add: sound_step_def)
  then have "sound_step p st1 st2"
    by (rule sound_step_same) (use edit.hyps in simp_all)
  with s show ?case
    by (rule sound_step_trans)
next
  case (save p st st1 sc name pr pw st2 r)
  from save.IH [OF save.prems] have s: "sound_step p st st1" .
  then have "settled p st1"
    by (simp add: sound_step_def)
  from sound_step_trans [OF s save_vault_step [OF save.prems(1) this save.hyps(2,3)]] show ?case .
next
  case (rekey p st st1 rk name pr pw st2 r)
  from rekey.IH [OF rekey.prems] have s: "sound_step p st st1" .
  then have "settled p st1"
    by (simp add: sound_step_def)
  from sound_step_trans [OF s rekey_vault_step [OF rekey.prems(1) this rekey.hyps(2)]] show ?case .
next
  case (enrol p st st1 dg h r)
  from enrol.IH [OF enrol.prems] have s: "sound_step p st st1" .
  then have "settled p st1"
    by (simp add: sound_step_def)
  from sound_step_trans [OF s enroll_step [OF enrol.prems(1) this enrol.hyps(2,3)]] show ?case .
qed

text \<open>Opening establishes the invariant.\<close>

lemma open_vault_sound:
  assumes laws: "host_laws p" and h: "h_readable h" and dg: "length (vf_digest f) = 32"
    and r: "open_vault p now f pw legacy h = (h', Inr ov)"
  shows "moved_on p h h'" and "settled p \<lparr>as_store = ov_store ov, as_dir = d, as_host = h'\<rparr>"
proof -
  let ?v = "ov_store ov"
  obtain plain anchor where s: "store_parse p now plain = Inr ?v" "load_anchor p (v_vault_id ?v) h = Inr anchor"
    and c: "check_anchor p ?v (vf_digest f) anchor h = (h', Inr (ov_status ov))"
    by (rule open_vault_Inr [OF r])
  have l: "length (v_vault_id ?v) = 16"
    using store_parse_wf [OF s(1)] by (simp add: wf_store_def)
  have "moved_on p h h' \<and> in_step p ?v h'"
  proof (cases anchor)
    case None
    with s(2) c show ?thesis
      by (simp add: check_anchor_def in_step_def anchored_def)
  next
    case (Some a)
    then have an: "anchored p (v_vault_id ?v) h = Some (ar_generation a)"
      using s(2) by (simp add: anchored_def)
    from c [unfolded Some] show ?thesis
    proof (cases rule: check_anchor_cases)
      case agrees
      with an show ?thesis
        by (simp add: in_step_def)
    next
      case (ahead r1)
      have "g0 \<le> v_generation ?v" if "anchored p (v_vault_id ?v) h = Some g0" for g0
        using that an ahead(2) by simp
      from store_anchor_moves_on [OF laws h l dg ahead(3) this] an ahead(2) show ?thesis
        by (auto simp: in_step_def)
    qed simp
  qed
  then show "moved_on p h h'" and "settled p \<lparr>as_store = ov_store ov, as_dir = d, as_host = h'\<rparr>"
    using h l by (simp_all add: settled_def moved_on_def)
qed

section \<open>A save that succeeds\<close>

text \<open>The store as \<open>save_vault\<close> writes it over the file \<open>old\<close>.\<close>

definition next_store :: "prims \<Rightarrow> bytes \<Rightarrow> vault_store \<Rightarrow> vault_store" where
  "next_store p old v = v\<lparr>v_previous_digest := vault_digest p old, v_generation := v_generation v + 1\<rparr>"

text \<open>
  The conditions of an ordinary save: a readable vault file of a current version, room for the new one, a
  directory and a host that do what they are asked, and no anchor or one that agrees with the file.
\<close>

definition save_ready ::
  "prims \<Rightarrow> save_script \<Rightarrow> string \<Rightarrow> params \<Rightarrow> bytes \<Rightarrow> bytes \<Rightarrow> bytes \<Rightarrow> app_state \<Rightarrow> bool" where
  "save_ready p sc name pr pw old plain st \<longleftrightarrow>
     length (ss_salt sc) = 16 \<and> length (ss_nonce sc) = 12 \<and> pw \<noteq> [] \<and>
     check_params (pr_time_cost pr) (pr_mem_cost_kb pr) = Inr () \<and>
     as_dir st name = Some (fresh_entry old) \<and> read_file (ss_read sc) name (as_dir st) = Some (Inr old) \<and>
     (\<exists>h. parse_header old = Inr h \<and> vh_version h \<noteq> kLegacyVersion) \<and>
     wf_store p (as_store st) \<and> \<not> list_all (\<lambda>b. b = 0) (v_vault_id (as_store st)) \<and>
     v_generation (as_store st) \<noteq> -1 \<and>
     serialize (next_store p old (as_store st)) = Inr plain \<and> length plain + 57 \<le> kMaxVaultBytes \<and>
     all_well (ss_write sc) (length plain + 57) \<and> as_dir st (tmp_name (ss_write sc) name) = None \<and>
     h_backend (as_host st) \<and> h_readable (as_host st) \<and> h_writable (as_host st) \<and>
     (case load_anchor p (v_vault_id (as_store st)) (as_host st) of
        Inl e \<Rightarrow> False | Inr None \<Rightarrow> True
      | Inr (Some a) \<Rightarrow> validate p a (as_store st) (vault_digest p old) = Inr Protected)"

lemma save_ok:
  assumes laws: "host_laws p" "aead_law p" "argon2_law p" and rd: "save_ready p sc name pr pw old plain st"
  obtains bs h where "save_vault p sc name pr pw st = (\<lparr>as_store = next_store p old (as_store st),
      as_dir = (as_dir st)(name \<mapsto> fresh_entry bs), as_host = h\<rparr>, Inr ())"
    and "unseal p bs pw = Inr plain" and "length bs = length plain + 57"
    and "\<exists>hdr. parse_header bs = Inr hdr \<and> vh_version hdr \<noteq> kLegacyVersion"
    and "load_anchor p (v_vault_id (as_store st)) h = Inr (if load_anchor p (v_vault_id (as_store st)) (as_host st) = Inr None
      then None else Some (anchor_for p (next_store p old (as_store st)) (v_generation (as_store st) + 1) (vault_digest p bs)))"
proof -
  let ?v = "as_store st" and ?w = "next_store p old (as_store st)"
  have c: "length (ss_salt sc) = 16" "length (ss_nonce sc) = 12" "pw \<noteq> []"
      "check_params (pr_time_cost pr) (pr_mem_cost_kb pr) = Inr ()" "as_dir st name = Some (fresh_entry old)"
      "read_file (ss_read sc) name (as_dir st) = Some (Inr old)" "\<not> list_all (\<lambda>b. b = 0) (v_vault_id ?v)"
      "v_generation ?v \<noteq> -1" "serialize ?w = Inr plain" "length plain + 57 \<le> kMaxVaultBytes"
      "all_well (ss_write sc) (length plain + 57)" "as_dir st (tmp_name (ss_write sc) name) = None"
      "h_backend (as_host st)" "h_readable (as_host st)" "h_writable (as_host st)" "length (v_vault_id ?v) = 16"
    using rd unfolding save_ready_def wf_store_def by blast+
  obtain hdr where hdr: "parse_header old = Inr hdr" "vh_version hdr \<noteq> kLegacyVersion"
    using rd by (auto simp: save_ready_def)
  obtain anchor where an: "load_anchor p (v_vault_id ?v) (as_host st) = Inr anchor"
    and va: "\<And>a. anchor = Some a \<Longrightarrow> validate p a ?v (vault_digest p old) = Inr Protected"
    using rd by (cases "load_anchor p (v_vault_id ?v) (as_host st)") (auto simp: save_ready_def split: option.splits)
  have ver: "vh_version hdr = kVersion \<or> vh_version hdr = kWordVersion"
    using hdr by (auto simp: parse_header_Inr wf_vault_header_def)
  obtain bs where bs: "seal p (ss_salt sc) (ss_nonce sc) plain pw pr (vh_version hdr) = Inr bs" "unseal p bs pw = Inr plain"
      "length bs = length plain + 57" "parse_header bs = Inr (sealed_header (ss_salt sc) (ss_nonce sc) pr (vh_version hdr))"
    by (rule seal_ok [OF laws(2,3) c(1,2,4,3) ver c(10)])
  let ?st1 = "st\<lparr>as_store := ?v\<lparr>v_previous_digest := vault_digest p old\<rparr>\<rparr>"
  have settle: "(case anchor of None \<Rightarrow> returnM () | Some a \<Rightarrow> settle_anchor p a (vault_digest p old)) st = (st, Inr ())"
    using va by (cases anchor) (simp_all add: settle_anchor_def catchM_def)
  have prev: "check_previous p sc name st = (?st1, Inr (vh_version hdr, anchor))"
    using c(6) hdr(1) an settle by (simp add: check_previous_def ended_def bindM_def)
  have fill: "st\<lparr>as_store := fill_vault_id (ss_vault_id sc) ?v\<rparr> = st"
    using c(7) by (simp add: fill_vault_id_def)
  let ?st2 = "\<lparr>as_store = ?w, as_dir = as_dir st, as_host = as_host st\<rparr>"
  have bump: "bump_generation ?st1 = ?st2"
    by (simp add: bump_generation_def next_store_def)
  let ?st3 = "\<lparr>as_store = ?w, as_dir = (as_dir st)(name \<mapsto> fresh_entry bs), as_host = as_host st\<rparr>"
  obtain ds where "write_file (ss_write sc) name bs True (as_dir st) = (ds, Some (Inr ()))"
      "left_by (as_dir st) (write_file (ss_write sc) name bs True (as_dir st)) = (as_dir st)(name \<mapsto> fresh_entry bs)"
    by (rule write_file_ok [of "ss_write sc" bs "as_dir st" name]) (use c(5,10-12) bs(3) in simp_all)
  then have wr: "write_vault (ss_write sc) name bs ?st2 = (?st3, Inr ())"
    by (simp add: write_vault_def ended_def)
  have ldg: "length (vault_digest p bs) = 32"
    by (rule length_vault_digest [OF laws(1)])
  have "h_backend (as_host st)" and "length (v_vault_id ?w) = 16" and "b64url_law p" and "hmac_law p"
    using c laws(1) by (simp_all add: next_store_def host_laws_def)
  from store_anchor_ok [OF this(3,4,1) c(14,15) this(2) ldg, of "v_generation ?w"]
  obtain h' where h': "store_anchor p (new_anchor (v_vault_id ?w) (v_generation ?w) (vault_digest p bs)) (v_seed ?w)
      (as_host st) = (h', Inr ())"
    "\<And>j. load_anchor p j h' = (if j = v_vault_id ?w then Inr (Some (anchor_for p ?w (v_generation ?w) (vault_digest p bs)))
       else load_anchor p j (as_host st))"
    by blast
  let ?h = "if anchor = None then as_host st else h'"
  have "seal_and_write p sc name pr pw (vh_version hdr) (anchor \<noteq> None) ?st2 = (\<lparr>as_store = ?w,
      as_dir = (as_dir st)(name \<mapsto> fresh_entry bs), as_host = ?h\<rparr>, Inr ())"
    using c(9) bs(1) wr h'(1) by (simp add: seal_and_write_def bindM_def anchor_now_def on_host_def)
  then have "save_vault p sc name pr pw st = (\<lparr>as_store = ?w,
      as_dir = (as_dir st)(name \<mapsto> fresh_entry bs), as_host = ?h\<rparr>, Inr ())"
    using c(5,8) prev bump by (simp add: save_vault_def fill bindM_def)
  moreover have "load_anchor p (v_vault_id ?v) ?h = Inr (if load_anchor p (v_vault_id ?v) (as_host st) = Inr None then None
      else Some (anchor_for p ?w (v_generation ?v + 1) (vault_digest p bs)))"
    using an h'(2) [of "v_vault_id ?v"] by (auto simp: next_store_def)
  moreover have "\<exists>hdr. parse_header bs = Inr hdr \<and> vh_version hdr \<noteq> kLegacyVersion"
    using bs(4) hdr(2) by (simp add: sealed_header_def)
  ultimately show thesis
    using bs(2,3) by (intro that)
qed

lemma saved_opens:
  assumes laws: "host_laws p" "aead_law p" "argon2_law p" and rd: "save_ready p sc name pr pw old plain st"
    and rs: "reads_well rs (length plain + 57)"
  obtains st' f ov where "save_vault p sc name pr pw st = (st', Inr ())"
    and "read_vault p rs name (as_dir st') = Inr f"
    and "open_vault p now f pw False (as_host st') = (as_host st', Inr ov)"
    and "ov_store ov = next_store p old (as_store st)" and "as_store st' = next_store p old (as_store st)"
    and "ov_status ov = (if load_anchor p (v_vault_id (as_store st)) (as_host st) = Inr None then Unprotected else Protected)"
proof -
  let ?v = "as_store st" and ?w = "next_store p old (as_store st)"
  obtain bs h where s: "save_vault p sc name pr pw st = (\<lparr>as_store = ?w,
      as_dir = (as_dir st)(name \<mapsto> fresh_entry bs), as_host = h\<rparr>, Inr ())"
    and b: "unseal p bs pw = Inr plain" "length bs = length plain + 57"
    and hdr: "\<exists>hdr. parse_header bs = Inr hdr \<and> vh_version hdr \<noteq> kLegacyVersion"
    and l: "load_anchor p (v_vault_id ?v) h = Inr (if load_anchor p (v_vault_id ?v) (as_host st) = Inr None
      then None else Some (anchor_for p ?w (v_generation ?v + 1) (vault_digest p bs)))"
    by (rule save_ok [OF laws rd])
  from hdr obtain hdr where hdr: "parse_header bs = Inr hdr" "vh_version hdr \<noteq> kLegacyVersion"
    by blast
  have w: "wf_store p ?w" and pl: "serialize ?w = Inr plain" "length plain + 57 \<le> kMaxVaultBytes"
    using rd length_vault_digest [OF laws(1)] by (simp_all add: save_ready_def wf_store_def next_store_def)
  have parse: "store_parse p now plain = Inr ?w"
    by (rule store_parse_serialized [OF w pl(1)])
  let ?f = "\<lparr>vf_bytes = bs, vf_header = hdr, vf_digest = vault_digest p bs\<rparr>"
  let ?st' = "\<lparr>as_store = ?w, as_dir = (as_dir st)(name \<mapsto> fresh_entry bs), as_host = h\<rparr>"
  have "read_file rs name (as_dir ?st') = Some (Inr bs)"
    by (rule read_file_ok) (use rs b(2) pl(2) in simp_all)
  then have "read_vault p rs name (as_dir ?st') = Inr ?f"
    using hdr(1) by (simp add: read_vault_def ended_def)
  moreover
  let ?status = "if load_anchor p (v_vault_id ?v) (as_host st) = Inr None then Unprotected else Protected"
  have i: "v_vault_id ?w = v_vault_id ?v"
    by (simp add: next_store_def)
  have "validate p (anchor_for p ?w (v_generation ?v + 1) (vault_digest p bs)) ?w (vault_digest p bs) = Inr Protected"
    by (simp add: validate_Inr) (simp add: next_store_def)
  then have "check_anchor p ?w (vault_digest p bs) (if load_anchor p (v_vault_id ?v) (as_host st) = Inr None then None
      else Some (anchor_for p ?w (v_generation ?v + 1) (vault_digest p bs))) h = (h, Inr ?status)"
    by (simp add: check_anchor_def)
  then have "open_vault p now ?f pw False (as_host ?st') = (as_host ?st', Inr \<lparr>ov_store = ?w,
      ov_params = \<lparr>pr_time_cost = vh_time_cost hdr, pr_mem_cost_kb = vh_mem_cost_kb hdr\<rparr>,
      ov_passphrase = pw, ov_status = ?status, ov_digest = vault_digest p bs, ov_version = vh_version hdr\<rparr>)"
    using hdr(2) b(1) parse l by (simp add: open_vault_def i bindM_def)
  ultimately show thesis
    by (rule that [OF s]) simp_all
qed

section \<open>A save that fails\<close>

text \<open>The drive is gone, full or read-only: no temporary file can be made, so nothing is written.\<close>

definition write_refused :: "write_script \<Rightarrow> string \<Rightarrow> dir \<Rightarrow> bool" where
  "write_refused sc name d \<longleftrightarrow> \<not> (ws_open_dir sc \<and> ws_inspect sc \<and> ws_create sc \<and> d (tmp_name sc name) = None)"

lemma write_vault_cut: "write_refused sc name (as_dir st) \<Longrightarrow> \<exists>e. write_vault sc name bs st = (st, Inl e)"
  by (auto simp: write_vault_def write_file_def left_by_def ended_def write_refused_def)

lemma seal_and_write_cut:
  assumes "write_refused (ss_write sc) name (as_dir st)"
  shows "\<exists>e. seal_and_write p sc name pr pw version enrolled st = (st, Inl e)"
proof (cases "bindR (serialize (as_store st)) (\<lambda>plain. seal p (ss_salt sc) (ss_nonce sc) plain pw pr version)")
  case (Inl e)
  then show ?thesis
    by (auto simp: seal_and_write_def bindM_read bindR_eq_Inl)
next
  case (Inr bs)
  moreover obtain e where "write_vault (ss_write sc) name bs st = (st, Inl e)"
    using write_vault_cut [OF assms] by blast
  ultimately show ?thesis
    by (auto simp: seal_and_write_def bindR_eq_Inr bindM_def)
qed



section \<open>A vault for the witnesses\<close>

definition sample_read :: "nat \<Rightarrow> read_script" where
  "sample_read n = \<lparr>rs_open_dir = True, rs_open = True, rs_stat = True, rs_reads = [Interrupted, Moved n]\<rparr>"

definition sample_write :: "bool \<Rightarrow> nat \<Rightarrow> write_script" where
  "sample_write present n = \<lparr>ws_open_dir = present, ws_inspect = True, ws_suffix = ''ab'', ws_create = True,
     ws_writes = [Interrupted, Moved n], ws_sync = True, ws_close = True, ws_rename = True, ws_unlink = True,
     ws_sync_dir = True, ws_close_dir = True\<rparr>"

definition sample_save :: "bool \<Rightarrow> nat \<Rightarrow> nat \<Rightarrow> save_script" where
  "sample_save present n m = \<lparr>ss_vault_id = replicate 16 7, ss_salt = replicate 16 1, ss_nonce = replicate 12 2,
     ss_read = sample_read n, ss_write = sample_write present m\<rparr>"

lemma sample_reads_well: "n > 0 \<Longrightarrow> reads_well (sample_read n) n"
  by (simp add: reads_well_def sample_read_def read_loop.simps)

lemma sample_writes_well: "n > 0 \<Longrightarrow> all_well (sample_write True n) n"
  by (simp add: all_well_def sample_write_def write_loop.simps)

lemma sample_host_laws: "host_laws sample_prims"
  by (simp add: host_laws_def sample_laws)

lemma sample_plain:
  assumes "serialize (sample_store\<lparr>v_previous_digest := dg, v_generation := g\<rparr>) = Inr plain" and "length dg = 32"
  shows "length plain < 100000"
  using assms
  by (simp add: serialize_def sample_store_def put_counted_def write_signed_prekey_def write_one_time_prekey_def
      write_contact_def write_session_def write_handshake_def session_default_def put_blob_def put_str_def put_flagged_def
      put_bool_def put_u8_def put_u32_def put_u64_def put_bytes_def kStoreMagic_def kMaxSpqrState_def)
   auto

text \<open>The sample store sealed in a file, and a host that has it anchored.\<close>

lemma sample_saved:
  obtains plain old hdr h a where "serialize sample_store = Inr plain" and "unseal sample_prims old [65] = Inr plain"
    and "parse_header old = Inr hdr" and "vh_version hdr \<noteq> kLegacyVersion" and "57 \<le> length old" and "length old < 200000"
    and "h_backend h" and "h_readable h" and "h_writable h"
    and "load_anchor sample_prims (v_vault_id sample_store) h = Inr (Some a)"
    and "validate sample_prims a sample_store (vault_digest sample_prims old) = Inr Protected"
proof -
  obtain plain where p: "serialize sample_store = Inr plain"
    using serialize_ok [OF sample_store_wf] by blast
  have "sample_store\<lparr>v_previous_digest := replicate 32 2, v_generation := 5\<rparr> = sample_store"
    by (simp add: sample_store_def)
  with p have l: "length plain < 100000"
    using sample_plain [where dg = "replicate 32 2" and g = 5 and plain = plain] by simp
  then have "length plain + 57 \<le> kMaxVaultBytes"
    by (simp add: kMaxVaultBytes_def)
  from seal_ok [OF sample_aead sample_argon2 _ _ sample_params_ok _ _ this, of "replicate 16 1" "replicate 12 2" "[65]" kWordVersion]
  obtain old where o: "unseal sample_prims old [65] = Inr plain" "length old = length plain + 57"
      "parse_header old = Inr (sealed_header (replicate 16 1) (replicate 12 2) sample_params kWordVersion)"
    by auto
  let ?dg = "vault_digest sample_prims old"
  have "h_backend sample_host" and "h_readable sample_host" and "h_writable sample_host"
    by (simp_all add: sample_host_def)
  moreover have "length (v_vault_id sample_store) = 16" and "length ?dg = 32"
    using length_vault_digest [OF sample_host_laws] by (simp_all add: sample_store_def)
  ultimately obtain h where "\<And>j. load_anchor sample_prims j h = (if j = v_vault_id sample_store
      then Inr (Some (anchor_for sample_prims sample_store (v_generation sample_store) ?dg))
      else load_anchor sample_prims j sample_host)" and h: "h_backend h" "h_readable h" "h_writable h"
    by (rule store_anchor_ok [OF sample_b64url sample_hmac, where g = "v_generation sample_store"]) blast
  then have "load_anchor sample_prims (v_vault_id sample_store) h =
      Inr (Some (anchor_for sample_prims sample_store (v_generation sample_store) ?dg))"
    by simp
  moreover have "validate sample_prims (anchor_for sample_prims sample_store (v_generation sample_store) ?dg) sample_store ?dg
      = Inr Protected"
    by (simp add: validate_Inr)
  ultimately show thesis
    using p o l h
    by (intro that [of plain old "sealed_header (replicate 16 1) (replicate 12 2) sample_params kWordVersion" h
        "anchor_for sample_prims sample_store (v_generation sample_store) ?dg"])
      (simp_all add: sealed_header_def kWordVersion_def kLegacyVersion_def)
qed

definition sample_state :: "bytes \<Rightarrow> host \<Rightarrow> app_state" where
  "sample_state old h = \<lparr>as_store = sample_store, as_dir = [kVaultFilename \<mapsto> fresh_entry old], as_host = h\<rparr>"

lemma sample_state_simps [simp]:
  "as_store (sample_state old h) = sample_store" "as_dir (sample_state old h) = [kVaultFilename \<mapsto> fresh_entry old]"
  "as_host (sample_state old h) = h"
  by (simp_all add: sample_state_def)

lemma sample_read_ok:
  assumes "57 \<le> length old" and "length old < 200000"
  shows "read_file (sample_read (length old)) kVaultFilename [kVaultFilename \<mapsto> fresh_entry old] = Some (Inr old)"
proof (rule read_file_ok)
  have "length old > 0"
    using assms(1) by auto
  then show "reads_well (sample_read (length old)) (length old)"
    by (rule sample_reads_well)
qed (use assms in \<open>simp_all add: kMaxVaultBytes_def\<close>)

lemma sample_id: "\<not> list_all (\<lambda>b. b = 0) (v_vault_id sample_store)" "length (v_vault_id sample_store) = 16"
  by (simp_all add: sample_store_def numeral_eq_Suc)

lemma sample_ready:
  assumes "57 \<le> length old" and "length old < 200000" and "parse_header old = Inr hdr" and "vh_version hdr \<noteq> kLegacyVersion"
    and "h_backend h" and "h_readable h" and "h_writable h"
    and "load_anchor sample_prims (v_vault_id sample_store) h = Inr (Some a)"
    and "validate sample_prims a sample_store (vault_digest sample_prims old) = Inr Protected"
  obtains plain where "save_ready sample_prims (sample_save True (length old) (length plain + 57)) kVaultFilename sample_params [65]
    old plain (sample_state old h)" and "reads_well (sample_read (length plain + 57)) (length plain + 57)"
proof -
  let ?w = "next_store sample_prims old sample_store"
  have dg: "length (vault_digest sample_prims old) = 32"
    by (rule length_vault_digest [OF sample_host_laws])
  then have "wf_store sample_prims ?w"
    using sample_store_wf [of sample_prims] by (simp add: wf_store_def next_store_def)
  then obtain plain where p: "serialize ?w = Inr plain"
    using serialize_ok by blast
  have "length plain < 100000"
    by (rule sample_plain [OF p [unfolded next_store_def] dg])
  moreover have "v_generation sample_store \<noteq> -1"
    by (simp add: sample_store_def)
  moreover have "all_well (sample_write True (length plain + 57)) (length plain + 57)"
      and "reads_well (sample_read (length plain + 57)) (length plain + 57)"
    by (simp_all add: sample_writes_well sample_reads_well)
  ultimately show thesis
    using assms p sample_id sample_store_wf sample_params_ok
    by (intro that [of plain]) (simp_all add: save_ready_def sample_save_def sample_read_ok kMaxVaultBytes_def)
qed

section \<open>Properties\<close>

text \<open>C4: A save can be opened again: when the save's conditions hold (\<open>save_ready\<close>), it succeeds, and reading the
  drive and opening it with the same passphrase, at any later time, gives exactly the store that is in memory,
  one generation on and chained to the old file, protected by the host if it was anchored there.\<close>

theorem save_then_open:
  assumes "host_laws p" and "aead_law p" and "argon2_law p" and "save_ready p sc name pr pw old plain st"
    and "reads_well rs (length plain + 57)"
  shows "\<exists>st' f ov. save_vault p sc name pr pw st = (st', Inr ()) \<and> read_vault p rs name (as_dir st') = Inr f \<and>
    open_vault p now f pw False (as_host st') = (as_host st', Inr ov) \<and>
    ov_store ov = as_store st' \<and> as_store st' = next_store p old (as_store st) \<and>
    ov_status ov = (if load_anchor p (v_vault_id (as_store st)) (as_host st) = Inr None then Unprotected else Protected)"
  by (rule saved_opens [OF assms, of now]) auto

lemma save_then_open_witness:
  "\<exists>st sc rs st' f ov. save_vault sample_prims sc kVaultFilename sample_params [65] st = (st', Inr ()) \<and>
     read_vault sample_prims rs kVaultFilename (as_dir st') = Inr f \<and>
     open_vault sample_prims 99 f [65] False (as_host st') = (as_host st', Inr ov) \<and>
     ov_store ov = as_store st' \<and> v_generation (as_store st') = 6 \<and> ov_status ov = Protected"
proof -
  obtain plain0 old hdr h a where s: "parse_header old = Inr hdr" "vh_version hdr \<noteq> kLegacyVersion" "57 \<le> length old"
    "length old < 200000" "h_backend h" "h_readable h" "h_writable h"
    "load_anchor sample_prims (v_vault_id sample_store) h = Inr (Some a)"
    "validate sample_prims a sample_store (vault_digest sample_prims old) = Inr Protected"
    by (rule sample_saved)
  obtain plain where r: "save_ready sample_prims (sample_save True (length old) (length plain + 57)) kVaultFilename
      sample_params [65] old plain (sample_state old h)" "reads_well (sample_read (length plain + 57)) (length plain + 57)"
    by (rule sample_ready [OF s(3,4,1,2,5-9)])
  have "v_generation (next_store sample_prims old sample_store) = 6"
    by (simp add: next_store_def sample_store_def)
  with save_then_open [OF sample_host_laws sample_aead sample_argon2 r, of 99] s(8) show ?thesis
    by (simp only: sample_state_simps) (metis Inr_inject option.distinct(1))
qed

text \<open>C7: What opening does with the anchor: a refused vault changes nothing on the host; a vault that opens
  either has no anchor that could be read there, and says it is unprotected, or its anchor carries the tag
  of its own seed and the drive is not behind it. In the same generation the file is the very one that was
  anchored, and is protected. A drive that is ahead, by one state of the chain or by any gap, is accepted
  without looking at its history, and the anchor is moved to it; if the host cannot store that, the vault
  opens as unprotected.\<close>

theorem open_respects_anchor:
  "case open_vault p now f pw legacy h of
     (h', Inl e) \<Rightarrow> h' = h
   | (h', Inr ov) \<Rightarrow>
       (case load_anchor p (v_vault_id (ov_store ov)) h of
          Inl e \<Rightarrow> False
        | Inr None \<Rightarrow> ov_status ov = Unprotected \<and> h' = h
        | Inr (Some a) \<Rightarrow>
            let v = ov_store ov in authentic_for p a v = Inr True \<and>
            (v_generation v = ar_generation a \<and> vf_digest f = ar_vault_digest a \<and> ov_status ov = Protected \<and> h' = h \<or>
             ar_generation a < v_generation v \<and>
               (\<exists>r. store_anchor p (new_anchor (v_vault_id v) (v_generation v) (vf_digest f)) (v_seed v) h = (h', r) \<and>
                    ov_status ov = (case r of Inl e \<Rightarrow> Unprotected | Inr _ \<Rightarrow> Protected))))"
proof (cases "open_vault p now f pw legacy h")
  case (Pair h' r)
  show ?thesis
  proof (cases r)
    case (Inl e)
    with Pair open_vault_Inl [of p now f pw legacy h h' e] show ?thesis
      by simp
  next
    case (Inr ov)
    then have d: "ov_digest ov = vf_digest f"
      using open_vault_Inr [of p now f pw legacy h h' ov] Pair by blast
    from Inr Pair open_vault_accepted [of p now f pw legacy h h' ov] show ?thesis
      by (auto simp: accepted_by_def d)
  qed
qed

text \<open>C16: While the host's keyring can be read, the anchor only moves forward: from the opening of a vault
  through any sequence of edits, saves, passphrase changes (completed, failed or cut off) and enrolments, even
  with the drive changed from outside, no anchor of any vault on the host is lost or lowered, and the anchor
  of the open vault is never ahead of the store in memory. A save that gives an old vault its id is assumed
  to draw one that no vault on the host has (\<open>fresh_id\<close>). When the keyring cannot be read the claim does not
  hold: \<open>enroll_unread_overwrites\<close>.\<close>

theorem anchor_moves_forward:
  assumes "host_laws p" and "h_readable h" and "length (vf_digest f) = 32"
    and "open_vault p now f pw legacy h = (h', Inr ov)"
    and "lifecycle p \<lparr>as_store = ov_store ov, as_dir = d, as_host = h'\<rparr> st'"
  shows "moved_on p h (as_host st') \<and> in_step p (as_store st') (as_host st')"
proof -
  note o = open_vault_sound [OF assms(1-4)]
  from lifecycle_sound [OF assms(5,1) o(2)] o(1) show ?thesis
    using moved_on_trans by (auto simp: sound_step_def settled_def)
qed


lemma anchor_moves_forward_witness:
  "\<exists>f h ov sc e st'. open_vault sample_prims 99 f [65] False h = (h, Inr ov) \<and>
     save_vault sample_prims sc kVaultFilename sample_params [65]
       \<lparr>as_store = ov_store ov, as_dir = Map.empty, as_host = h\<rparr> = (st', Inl e) \<and>
     moved_on sample_prims h (as_host st') \<and> in_step sample_prims (as_store st') (as_host st')"
proof -
  obtain plain old hdr h a where s: "serialize sample_store = Inr plain" "unseal sample_prims old [65] = Inr plain"
    "parse_header old = Inr hdr" "vh_version hdr \<noteq> kLegacyVersion" "h_readable h"
    "load_anchor sample_prims (v_vault_id sample_store) h = Inr (Some a)"
    "validate sample_prims a sample_store (vault_digest sample_prims old) = Inr Protected"
    by (rule sample_saved)
  let ?f = "\<lparr>vf_bytes = old, vf_header = hdr, vf_digest = vault_digest sample_prims old\<rparr>"
  let ?sc = "sample_save False 2 2"
  have "store_parse sample_prims 99 plain = Inr sample_store"
    by (rule store_parse_serialized [OF sample_store_wf s(1)])
  then obtain ov where ov: "open_vault sample_prims 99 ?f [65] False h = (h, Inr ov)" "ov_store ov = sample_store"
    using s by (simp add: open_vault_def bindM_def check_anchor_def)
  let ?st = "\<lparr>as_store = ov_store ov, as_dir = Map.empty :: dir, as_host = h\<rparr>"
  have cut: "write_refused (ss_write ?sc) kVaultFilename (as_dir (bump_generation ?st))"
    by (simp add: sample_save_def sample_write_def write_refused_def)
  obtain e where "seal_and_write sample_prims ?sc kVaultFilename sample_params [65] kVersion False (bump_generation ?st) =
      (bump_generation ?st, Inl e)"
    using seal_and_write_cut [OF cut] by blast
  then have sv: "save_vault sample_prims ?sc kVaultFilename sample_params [65] ?st = (bump_generation ?st, Inl e)"
    using sample_id by (simp add: save_vault_def fill_vault_id_def ov(2) bindM_def) (simp add: sample_store_def)
  have "fresh_id sample_prims ?sc ?st"
    using sample_id by (simp add: fresh_id_def ov(2)) (simp add: sample_save_def)
  then have "lifecycle sample_prims ?st (bump_generation ?st)"
    using lifecycle.save [OF lifecycle.opened _ sv] by blast
  moreover have "length (vf_digest ?f) = 32"
    using length_vault_digest [OF sample_host_laws] by simp
  ultimately show ?thesis
    using anchor_moves_forward [OF sample_host_laws s(5) _ ov(1)] ov(1) sv by blast
qed

text \<open>C9: A passphrase change is recoverable: whatever fails, \<open>vault.bin\<close> is either untouched or a complete
  container that opens under the new passphrase to the same vault, the latter always when the change reports
  success; a failure before the commit leaves the store in memory as it was.\<close>

theorem rekey_recoverable:
  "case rekey_vault p sc kVaultFilename pr pw st of (st', r) \<Rightarrow>
     (if v_generation (as_store st) = -1 then st' = st \<and> r = Inl (RollbackError GenerationExhausted)
      else (case r of
          Inr _ \<Rightarrow> as_store st' = as_store (bump_generation st) \<and>
            verified_copy p (rk_now sc) pw (as_store st') (as_dir st' kVaultFilename)
        | Inl e \<Rightarrow> (as_store st' = as_store st \<or>
              as_store st' = as_store (bump_generation st) \<and>
              verified_copy p (rk_now sc) pw (as_store st') (as_dir st' kVaultFilename)) \<and>
            (as_dir st' kVaultFilename = as_dir st kVaultFilename \<or>
             verified_copy p (rk_now sc) pw (as_store (bump_generation st)) (as_dir st' kVaultFilename))))"
proof (cases "rekey_vault p sc kVaultFilename pr pw st")
  case (Pair st' r)
  have b: "as_dir (bump_generation st) = as_dir st"
    by (simp add: bump_generation_def)
  from Pair show ?thesis
  proof (cases rule: rekey_vault_cases)
    case full
    with Pair show ?thesis
      by (auto simp: rekey_vault_def)
  next
    case (failed st1 e)
    with Pair rekey_body_dir [OF failed(2)] b show ?thesis
      by auto
  next
    case (committed st1 written)
    have "as_store st' = as_store (bump_generation st)" and "as_dir st' = as_dir st1"
      using re_anchor_same [OF committed(5)] committed(3) by simp_all
    with Pair rekey_body_dir [OF committed(2)] committed(1) show ?thesis
      by (auto split: sum.split)
  qed
qed



end
