(* ===== verification/Display_Text.thy ===== *)
theory Display_Text
  imports Identity
begin

text \<open>
  Text on its way to the screen: the Unicode helpers of \<open>secure.cpp\<close>, the escaping of \<open>terminal.cpp\<close> and the
  measuring, cutting and wrapping of \<open>screen.cpp\<close>. A \<open>std::string\<close> is a list of bytes, written as a \<open>string\<close>;
  a position in it is the rest of the string from there on. Aliases and messages are written by other people,
  and the lemmas say what such text can no longer do once it has passed through here.
\<close>

section \<open>UTF-8\<close>

definition is_unicode_format_char :: "u32 \<Rightarrow> bool" where
  "is_unicode_format_char codepoint \<longleftrightarrow>
     (codepoint \<ge> 0x80 \<and> codepoint \<le> 0x9F) \<or> codepoint = 0x061C \<or> codepoint = 0x200B \<or> codepoint = 0x200E \<or>
     codepoint = 0x200F \<or> (codepoint \<ge> 0x202A \<and> codepoint \<le> 0x202E) \<or> codepoint = 0x2028 \<or> codepoint = 0x2029 \<or>
     codepoint = 0x2060 \<or> (codepoint \<ge> 0x2066 \<and> codepoint \<le> 0x2069) \<or>
     (codepoint \<ge> 0x206A \<and> codepoint \<le> 0x206F) \<or> codepoint = 0xFEFF"

definition is_continuation :: "char \<Rightarrow> bool" where
  "is_continuation c \<longleftrightarrow> byte_of_char c AND 0xC0 = 0x80"

text \<open>The length, first bits and smallest value a lead byte announces; \<open>None\<close> for a byte that leads nothing.\<close>

definition utf8_lead :: "char \<Rightarrow> (nat \<times> u32 \<times> u32) option" where
  "utf8_lead c = (let lead = byte_of_char c in
     if lead < 0x80 then Some (1, ucast lead, 0)
     else if lead AND 0xE0 = 0xC0 then Some (2, ucast (lead AND 0x1F), 0x80)
     else if lead AND 0xF0 = 0xE0 then Some (3, ucast (lead AND 0x0F), 0x800)
     else if lead AND 0xF8 = 0xF0 then Some (4, ucast (lead AND 0x07), 0x10000)
     else None)"

text \<open>The loop over the continuation bytes; running out of text fails too.\<close>

fun utf8_tail :: "nat \<Rightarrow> u32 \<Rightarrow> string \<Rightarrow> u32 option" where
  "utf8_tail 0 value s = Some value"
| "utf8_tail (Suc k) value [] = None"
| "utf8_tail (Suc k) value (c # s) =
     (if \<not> is_continuation c then None
      else utf8_tail k (push_bit 6 value OR ucast (byte_of_char c AND 0x3F)) s)"

text \<open>The character at the front and its length in bytes, for a well-formed canonical sequence.\<close>

fun decode_utf8 :: "string \<Rightarrow> (u32 \<times> nat) option" where
  "decode_utf8 [] = None"
| "decode_utf8 (c # s) =
     (case utf8_lead c of None \<Rightarrow> None
      | Some (len, first, minimum) \<Rightarrow>
          if len = 1 then Some (first, 1)
          else (case utf8_tail (len - 1) first s of None \<Rightarrow> None
            | Some value \<Rightarrow>
                if value < minimum \<or> value > 0x10FFFF \<or> (value \<ge> 0xD800 \<and> value \<le> 0xDFFF) then None
                else Some (value, len)))"

lemma utf8_lead_length: "utf8_lead c = Some (len, x, y) \<Longrightarrow> 0 < len \<and> len \<le> 4"
  by (auto simp: utf8_lead_def Let_def split: if_splits)

lemma decode_utf8_Some: "decode_utf8 s = Some (cp, n) \<Longrightarrow> 0 < n \<and> s \<noteq> []"
  by (cases s) (auto split: option.splits if_splits dest: utf8_lead_length)

declare decode_utf8.simps(2) [simp del]

section \<open>Format characters\<close>

definition u_escape :: "u32 \<Rightarrow> string" where
  "u_escape codepoint = CHR 0x5C # CHR ''u'' # map (\<lambda>k. hex_digit (unat (drop_bit k codepoint AND 0xF))) [12, 8, 4, 0]"

function escape_unicode_format_chars :: "string \<Rightarrow> string" where
  "escape_unicode_format_chars s =
     (case s of [] \<Rightarrow> []
      | c # rest \<Rightarrow>
          (case decode_utf8 s of
             None \<Rightarrow> c # escape_unicode_format_chars rest
           | Some (codepoint, n) \<Rightarrow>
               (if is_unicode_format_char codepoint then u_escape codepoint else take n s)
               @ escape_unicode_format_chars (drop n s)))"
  by pat_completeness auto

termination
  by (relation "measure length") (auto dest: decode_utf8_Some)

function has_unicode_format_chars :: "string \<Rightarrow> bool" where
  "has_unicode_format_chars s =
     (case s of [] \<Rightarrow> False
      | c # rest \<Rightarrow>
          (case decode_utf8 s of
             None \<Rightarrow> has_unicode_format_chars rest
           | Some (codepoint, n) \<Rightarrow>
               if is_unicode_format_char codepoint then True else has_unicode_format_chars (drop n s)))"
  by pat_completeness auto

termination
  by (relation "measure length") (auto dest: decode_utf8_Some)

declare escape_unicode_format_chars.simps [simp del] has_unicode_format_chars.simps [simp del]

datatype alias_problem =
    AliasEmpty         \<comment> \<open>contact alias must not be empty\<close>
  | AliasLimit         \<comment> \<open>contact alias exceeds the 128-byte limit\<close>
  | AliasControlChars  \<comment> \<open>contact alias contains a control character\<close>
  | AliasFormatChars   \<comment> \<open>contact alias contains an invisible formatting character\<close>

definition kMaxContactAliasBytes :: nat where "kMaxContactAliasBytes = 128"

definition is_control :: "char \<Rightarrow> bool" where
  "is_control c \<longleftrightarrow> byte_of_char c < 0x20 \<or> byte_of_char c = 0x7F"

definition contact_alias_problem :: "string \<Rightarrow> alias_problem option" where
  "contact_alias_problem alias =
     (if alias = [] then Some AliasEmpty
      else if length alias > kMaxContactAliasBytes then Some AliasLimit
      else if list_ex is_control alias then Some AliasControlChars
      else if has_unicode_format_chars alias then Some AliasFormatChars
      else None)"

section \<open>Control characters\<close>

definition escape_byte :: "bool \<Rightarrow> char \<Rightarrow> string" where
  "escape_byte keep_newline_and_tab c =
     (let printable_control = keep_newline_and_tab \<and> (c = CHR 0x0A \<or> c = CHR 0x09)
      in if is_control c \<and> \<not> printable_control
         then [CHR 0x5C, CHR ''x'', hex_digit (unat (drop_bit 4 (byte_of_char c))), hex_digit (unat (byte_of_char c AND 0x0F))]
         else [c])"

definition escape_control_chars_impl :: "string \<Rightarrow> bool \<Rightarrow> string" where
  "escape_control_chars_impl s keep_newline_and_tab =
     escape_unicode_format_chars (concat (map (escape_byte keep_newline_and_tab) s))"

definition escape_control_chars :: "string \<Rightarrow> string" where
  "escape_control_chars s = escape_control_chars_impl s True"

definition escape_line_control_chars :: "string \<Rightarrow> string" where
  "escape_line_control_chars s = escape_control_chars_impl s False"

definition sanitize_line :: "string \<Rightarrow> string" where
  "sanitize_line s = escape_unicode_format_chars (concat (map (escape_byte False) s))"

section \<open>Measuring and cutting\<close>

definition display_width :: "string \<Rightarrow> nat" where
  "display_width s = length (filter (\<lambda>c. \<not> is_continuation c) s)"

text \<open>The loop of \<open>truncate_to_width\<close>: the longest front with \<open>keep\<close> characters.\<close>

fun keep_width :: "nat \<Rightarrow> string \<Rightarrow> string" where
  "keep_width keep [] = []"
| "keep_width keep (c # s) =
     (if is_continuation c then c # keep_width keep s
      else if keep = 0 then []
      else c # keep_width (keep - 1) s)"

definition truncate_to_width :: "string \<Rightarrow> nat \<Rightarrow> string" where
  "truncate_to_width s max_width =
     (if display_width s \<le> max_width then s
      else if max_width \<le> 3 then take max_width ''...''
      else keep_width (max_width - 3) s @ ''...'')"

section \<open>Wrapping\<close>

definition sequence_length :: "char \<Rightarrow> nat" where
  "sequence_length c = (let lead = byte_of_char c in
     if lead < 0x80 then 1
     else if lead AND 0xE0 = 0xC0 then 2
     else if lead AND 0xF0 = 0xE0 then 3
     else if lead AND 0xF8 = 0xF0 then 4
     else 0)"

text \<open>The locals of \<open>wrap_text\<close>: the finished lines, and the line being filled with its last break point.\<close>

record wrapping =
  wr_out :: "string list"
  wr_line :: string
  wr_width :: nat
  wr_space :: "nat option"

definition flush_line :: "nat \<Rightarrow> wrapping \<Rightarrow> wrapping" where
  "flush_line keep_bytes w =
     (let rest = dropWhile (\<lambda>c. c = CHR '' '') (drop keep_bytes (wr_line w))
      in \<lparr>wr_out = wr_out w @ [take keep_bytes (wr_line w)], wr_line = rest, wr_width = display_width rest,
          wr_space = None\<rparr>)"

definition step_length :: "string \<Rightarrow> nat" where
  "step_length s = (let n = sequence_length (hd s) in if n = 0 \<or> length s < n then 1 else n)"

definition wrap_newline :: "wrapping \<Rightarrow> wrapping" where
  "wrap_newline w = \<lparr>wr_out = wr_out w @ [wr_line w], wr_line = [], wr_width = 0, wr_space = None\<rparr>"

definition wrap_char :: "nat \<Rightarrow> string \<Rightarrow> wrapping \<Rightarrow> wrapping" where
  "wrap_char width ch w =
     (let space = (if hd ch = CHR '' '' then Some (length (wr_line w)) else wr_space w);
          w = w\<lparr>wr_space := space, wr_line := wr_line w @ ch, wr_width := wr_width w + 1\<rparr>
      in if wr_width w > width
         then (case space of
                 Some p \<Rightarrow> if p > 0 then flush_line p w else flush_line (length (wr_line w) - length ch) w
               | None \<Rightarrow> flush_line (length (wr_line w) - length ch) w)
         else w)"

function wrap_loop :: "nat \<Rightarrow> string \<Rightarrow> wrapping \<Rightarrow> wrapping" where
  "wrap_loop width s w =
     (if s = [] then w
      else if hd s = CHR 0x0A then wrap_loop width (tl s) (wrap_newline w)
      else wrap_loop width (drop (step_length s) s) (wrap_char width (take (step_length s) s) w))"
  by pat_completeness auto

termination
  by (relation "measure (\<lambda>(width, s, w). length s)") (auto simp: step_length_def Let_def)

declare wrap_loop.simps [simp del]

definition wrap_text :: "string \<Rightarrow> nat \<Rightarrow> string list" where
  "wrap_text s width =
     (if width = 0 then []
      else let w = wrap_loop width s \<lparr>wr_out = [], wr_line = [], wr_width = 0, wr_space = None\<rparr>
           in wr_out w @ [wr_line w])"

section \<open>Bytes\<close>

lemma and_widen: "(b :: byte) AND m = v \<Longrightarrow> b AND (m AND n) = v AND n"
  by (metis and.assoc)

lemma lead_classes:
  fixes b :: byte
  shows "b < 0x80 \<Longrightarrow> b AND 0xC0 \<noteq> 0x80" and "b AND 0xE0 = 0xC0 \<Longrightarrow> b AND 0xC0 = 0xC0"
    and "b AND 0xF0 = 0xE0 \<Longrightarrow> b AND 0xC0 = 0xC0" and "b AND 0xF8 = 0xF0 \<Longrightarrow> b AND 0xC0 = 0xC0"
proof -
  show "b < 0x80 \<Longrightarrow> b AND 0xC0 \<noteq> 0x80"
    using word_and_le2 [of b "0xC0"] by auto
qed (use and_widen [of b "0xE0" _ "0xC0"] and_widen [of b "0xF0" _ "0xC0"] and_widen [of b "0xF8" _ "0xC0"] in simp_all)

lemma continuation_classes:
  assumes "is_continuation c"
  shows "utf8_lead c = None" and "sequence_length c = 0"
  using assms lead_classes [of "byte_of_char c"]
  by (auto simp: is_continuation_def utf8_lead_def sequence_length_def Let_def split: if_splits)

lemma ascii_lead: "byte_of_char c < 0x80 \<Longrightarrow> utf8_lead c = Some (1, ucast (byte_of_char c), 0)"
  by (simp add: utf8_lead_def)

lemma ascii_decode: "byte_of_char c < 0x80 \<Longrightarrow> decode_utf8 (c # s) = Some (ucast (byte_of_char c), 1)"
  by (simp add: decode_utf8.simps(2) ascii_lead)

lemma unat_ucast_byte: "unat (ucast (b :: byte) :: u32) = unat b"
proof -
  have "unat b < 2 ^ LENGTH(8)"
    by (rule unsigned_less)
  then show ?thesis
    by (simp add: unsigned_ucast_eq take_bit_nat_eq_self_iff)
qed

lemma ascii_not_format: "b < 0x80 \<Longrightarrow> \<not> is_unicode_format_char (ucast (b :: byte))"
  by (auto simp: is_unicode_format_char_def word_less_nat_alt word_le_nat_alt word_unat_eq_iff unat_ucast_byte)

section \<open>What a decoded character depends on\<close>

lemma utf8_tail_run: "utf8_tail k v (takeWhile is_continuation s) = utf8_tail k v s"
  by (induction k v s rule: utf8_tail.induct) auto

lemma decode_run: "decode_utf8 (c # takeWhile is_continuation s) = decode_utf8 (c # s)"
  by (simp add: decode_utf8.simps(2) utf8_tail_run split: option.split)

lemma decode_same_run:
  "takeWhile is_continuation s = takeWhile is_continuation s' \<Longrightarrow> decode_utf8 (c # s) = decode_utf8 (c # s')"
  by (metis decode_run)

lemma utf8_tail_prefix: "utf8_tail k v s = Some x \<Longrightarrow> k \<le> length s \<and> list_all is_continuation (take k s) \<and>
    utf8_tail k v (take k s @ s') = Some x"
  by (induction k v s rule: utf8_tail.induct) (auto split: if_splits)

lemma decode_prefix:
  assumes "decode_utf8 s = Some (cp, n)"
  shows "n \<le> length s" and "decode_utf8 (take n s @ s') = Some (cp, n)"
proof -
  obtain c0 s0 where s: "s = c0 # s0"
    using assms by (cases s) auto
  obtain len v m where l: "utf8_lead c0 = Some (len, v, m)"
    using assms by (cases "utf8_lead c0") (auto simp: s decode_utf8.simps(2))
  have "0 < len"
    using utf8_lead_length [OF l] by simp
  then obtain k where k: "len = Suc k"
    by (cases len) auto
  have "n \<le> length s \<and> decode_utf8 (take n s @ s') = Some (cp, n)"
  proof (cases "k = 0")
    case True
    with assms l k show ?thesis
      by (auto simp: s decode_utf8.simps(2))
  next
    case False
    with assms l k obtain x where "utf8_tail k v s0 = Some x" "n = len" "cp = x"
        "\<not> (x < m \<or> x > 0x10FFFF \<or> (x \<ge> 0xD800 \<and> x \<le> 0xDFFF))"
      by (auto simp: s decode_utf8.simps(2) split: option.splits if_splits)
    with utf8_tail_prefix [of k v s0 x s'] l k False show ?thesis
      by (auto simp: s decode_utf8.simps(2))
  qed
  then show "n \<le> length s" and "decode_utf8 (take n s @ s') = Some (cp, n)"
    by simp_all
qed

lemma decode_continuation: "is_continuation c \<Longrightarrow> decode_utf8 (c # s) = None"
  by (simp add: decode_utf8.simps(2) continuation_classes(1))

lemma has_format_simps [simp]:
  "\<not> has_unicode_format_chars []"
  "decode_utf8 (c # s) = None \<Longrightarrow> has_unicode_format_chars (c # s) \<longleftrightarrow> has_unicode_format_chars s"
  by (subst has_unicode_format_chars.simps, simp)+

lemma has_format_Some:
  "decode_utf8 s = Some (cp, n) \<Longrightarrow>
     has_unicode_format_chars s \<longleftrightarrow> is_unicode_format_char cp \<or> has_unicode_format_chars (drop n s)"
  using decode_utf8_Some [of s cp n] by (subst has_unicode_format_chars.simps) (auto split: list.split)

lemma escape_simps:
  "escape_unicode_format_chars [] = []"
  "decode_utf8 (c # s) = None \<Longrightarrow> escape_unicode_format_chars (c # s) = c # escape_unicode_format_chars s"
  by (subst escape_unicode_format_chars.simps, simp)+

lemma escape_Some:
  "decode_utf8 s = Some (cp, n) \<Longrightarrow> escape_unicode_format_chars s =
     (if is_unicode_format_char cp then u_escape cp else take n s) @ escape_unicode_format_chars (drop n s)"
  using decode_utf8_Some [of s cp n] by (subst escape_unicode_format_chars.simps) (auto split: list.split)

section \<open>Escaping is complete and idempotent\<close>

definition is_ascii :: "char \<Rightarrow> bool" where
  "is_ascii c \<longleftrightarrow> byte_of_char c < 0x80"

lemma ascii_not_continuation: "is_ascii c \<Longrightarrow> \<not> is_continuation c"
  by (simp add: is_ascii_def is_continuation_def lead_classes(1))

lemma has_format_ascii: "list_all is_ascii a \<Longrightarrow> has_unicode_format_chars (a @ s) \<longleftrightarrow> has_unicode_format_chars s"
  by (induction a) (auto simp: is_ascii_def has_format_Some [OF ascii_decode] ascii_not_format)

lemma hex_digit_ascii:
  assumes "n < 16"
  shows "is_ascii (hex_digit n)" and "\<not> is_control (hex_digit n)"
proof -
  have "list_all (\<lambda>c. is_ascii c \<and> \<not> is_control c) ''0123456789abcdef''"
    by (simp add: is_ascii_def is_control_def byte_of_char_def)
  moreover have "hex_digit n \<in> set ''0123456789abcdef''"
    unfolding hex_digit_def using assms by (intro nth_mem) simp
  ultimately show "is_ascii (hex_digit n)" and "\<not> is_control (hex_digit n)"
    unfolding list_all_iff by blast+
qed

lemma nibble_less: "unat ((x :: 'a :: len word) AND 0xF) < 16"
proof -
  have "x AND 0xF = take_bit 4 x"
    by (simp add: take_bit_eq_mask mask_eq_exp_minus_1)
  then show ?thesis
    using take_bit_nat_less_exp [of 4 "unat x"] by (simp add: unsigned_take_bit_eq)
qed

lemma u_escape_ascii: "list_all (\<lambda>c. is_ascii c \<and> \<not> is_control c) (u_escape cp)"
  using hex_digit_ascii nibble_less
  by (auto simp: u_escape_def is_ascii_def is_control_def byte_of_char_def)

lemma u_escape_Cons: "\<exists>xs. u_escape cp = CHR 0x5C # xs"
  by (simp add: u_escape_def)

lemma backslash: "is_ascii (CHR 0x5C)" "\<not> is_continuation (CHR 0x5C)"
  by (simp_all add: is_ascii_def is_continuation_def byte_of_char_def)

text \<open>Induction along the characters of a string, the undecodable bytes one at a time.\<close>

lemma utf8_induct [case_names Nil Byte Char]:
  assumes "P []" and byte: "\<And>c s. decode_utf8 (c # s) = None \<Longrightarrow> P s \<Longrightarrow> P (c # s)"
    and char: "\<And>s cp n. decode_utf8 s = Some (cp, n) \<Longrightarrow> s \<noteq> [] \<Longrightarrow> 0 < n \<Longrightarrow> P (drop n s) \<Longrightarrow> P s"
  shows "P s"
proof (induction s rule: length_induct)
  case (1 s)
  show ?case
  proof (cases s)
    case (Cons c r)
    show ?thesis
    proof (cases "decode_utf8 s")
      case None
      then show ?thesis
        using 1 byte [of c r] by (simp add: Cons)
    next
      case (Some x)
      then obtain cp n where d: "decode_utf8 s = Some (cp, n)"
        by (cases x) auto
      note p = decode_utf8_Some [OF d]
      then have "length (drop n s) < length s"
        by simp
      with 1 p show ?thesis
        by (intro char [OF d]) blast+
    qed
  qed (simp add: assms(1))
qed

lemma decode_first: "decode_utf8 s = Some (cp, n) \<Longrightarrow> \<not> is_continuation (hd s)"
  by (cases s) (auto simp: decode_continuation)

lemma run_Nil: "s \<noteq> [] \<Longrightarrow> \<not> is_continuation (hd s) \<Longrightarrow> takeWhile is_continuation s = []"
  by (cases s) simp_all

lemma escape_run: "takeWhile is_continuation (escape_unicode_format_chars s) = takeWhile is_continuation s"
proof (induction s rule: utf8_induct)
  case (Char s cp n)
  have "\<not> is_continuation (hd s)"
    by (rule decode_first [OF Char(1)])
  moreover obtain xs where "u_escape cp = CHR 0x5C # xs"
    using u_escape_Cons by blast
  moreover have "take n s \<noteq> []" "hd (take n s) = hd s"
    using Char(2,3) by simp_all
  ultimately show ?case
    using Char(2) by (simp add: escape_Some [OF Char(1)] backslash run_Nil)
qed (simp_all add: escape_simps)

lemma escape_no_format: "\<not> has_unicode_format_chars (escape_unicode_format_chars s)"
proof (induction s rule: utf8_induct)
  case (Byte c s)
  then have "decode_utf8 (c # escape_unicode_format_chars s) = None"
    using decode_same_run [OF escape_run [of s]] by simp
  with Byte show ?case
    by (simp add: escape_simps)
next
  case (Char s cp n)
  show ?case
  proof (cases "is_unicode_format_char cp")
    case True
    moreover have "list_all is_ascii (u_escape cp)"
      using u_escape_ascii [of cp] by (simp add: list_all_iff)
    ultimately show ?thesis
      using Char(4) by (simp add: escape_Some [OF Char(1)] has_format_ascii)
  next
    case False
    note p = decode_prefix [OF Char(1)]
    have "drop n (take n s @ escape_unicode_format_chars (drop n s)) = escape_unicode_format_chars (drop n s)"
      using p(1) by simp
    with False Char(4) has_format_Some [OF p(2)] show ?thesis
      by (simp add: escape_Some [OF Char(1)])
  qed
qed (simp add: escape_simps)

lemma escape_id: "\<not> has_unicode_format_chars s \<Longrightarrow> escape_unicode_format_chars s = s"
proof (induction s rule: utf8_induct)
  case (Char s cp n)
  then show ?case
    using has_format_Some [OF Char(1)] by (simp add: escape_Some [OF Char(1)])
qed (simp_all add: escape_simps)

lemma escape_idem: "escape_unicode_format_chars (escape_unicode_format_chars s) = escape_unicode_format_chars s"
  using escape_id [OF escape_no_format] .

lemma escape_set:
  assumes "\<And>c. is_ascii c \<Longrightarrow> \<not> is_control c \<Longrightarrow> P c"
  shows "list_all P s \<Longrightarrow> list_all P (escape_unicode_format_chars s)"
proof (induction s rule: utf8_induct)
  case (Char s cp n)
  have "list_all P (take n s)" "list_all P (drop n s)"
    using Char(5) by (auto simp: list_all_iff dest: in_set_takeD in_set_dropD)
  moreover have "list_all P (u_escape cp)"
    using u_escape_ascii [of cp] assms by (auto simp: list_all_iff)
  ultimately show ?case
    using Char(4) by (simp add: escape_Some [OF Char(1)])
qed (simp_all add: escape_simps)

text \<open>A row of the screen: no control characters, no format characters.\<close>

definition row_safe :: "string \<Rightarrow> bool" where
  "row_safe s \<longleftrightarrow> list_all (\<lambda>c. \<not> is_control c) s \<and> \<not> has_unicode_format_chars s"

lemma high_nibble_less: "unat (drop_bit 4 (b :: byte)) < 16"
proof -
  have "unat b < 2 ^ LENGTH(8)"
    by (rule unsigned_less)
  moreover from this have "unat (drop_bit 4 b) = drop_bit 4 (unat b)"
    by (simp add: unsigned_drop_bit_eq take_bit_nat_eq_self)
  ultimately show ?thesis
    by (simp add: drop_bit_eq_div less_mult_imp_div_less)
qed

lemma escape_byte_plain: "list_all (\<lambda>c. \<not> is_control c) (escape_byte False c)"
proof -
  have "\<not> is_control (CHR 0x5C)" "\<not> is_control (CHR ''x'')"
    by (simp_all add: is_control_def byte_of_char_def)
  then show ?thesis
    using hex_digit_ascii(2) [OF nibble_less [of "byte_of_char c"]] hex_digit_ascii(2) [OF high_nibble_less [of "byte_of_char c"]]
    by (simp add: escape_byte_def)
qed

lemma sanitize_safe: "row_safe (sanitize_line s)"
proof -
  have "list_all (\<lambda>c. \<not> is_control c) (concat (map (escape_byte False) s))"
    using escape_byte_plain by (auto simp: list_all_iff)
  then show ?thesis
    by (simp add: row_safe_def sanitize_line_def escape_no_format escape_set)
qed

lemma sanitize_id: "row_safe s \<Longrightarrow> sanitize_line s = s"
proof -
  assume r: "row_safe s"
  then have "list_all (\<lambda>c. \<not> is_control c) s"
    by (simp add: row_safe_def)
  then have "concat (map (escape_byte False) s) = s"
    by (induction s) (auto simp: escape_byte_def)
  with r show ?thesis
    by (simp add: sanitize_line_def row_safe_def escape_id)
qed

section \<open>Cutting keeps a row safe\<close>

lemma run_append: "b = [] \<or> \<not> is_continuation (hd b) \<Longrightarrow> takeWhile is_continuation (a @ b) = takeWhile is_continuation a"
  by (induction a; cases b) auto

lemma decode_append:
  "b = [] \<or> \<not> is_continuation (hd b) \<Longrightarrow> a \<noteq> [] \<Longrightarrow> decode_utf8 (a @ b) = decode_utf8 a"
  using run_append [of b "tl a"] decode_same_run [of "tl a @ b" "tl a" "hd a"] by (cases a) simp_all

lemma cut_format:
  assumes "list_all is_ascii z" and b: "b = [] \<or> \<not> is_continuation (hd b)"
  shows "\<not> has_unicode_format_chars (a @ b) \<Longrightarrow> \<not> has_unicode_format_chars (a @ z)"
proof (induction a rule: utf8_induct)
  case Nil
  show ?case
    using has_format_ascii [OF assms(1), of "[]"] by simp
next
  case (Byte c s)
  have z: "z = [] \<or> \<not> is_continuation (hd z)"
    using assms(1) by (cases z) (simp_all add: ascii_not_continuation)
  show ?case
    using Byte decode_append [OF b, of "c # s"] decode_append [OF z, of "c # s"] by simp
next
  case (Char s cp n)
  have z: "z = [] \<or> \<not> is_continuation (hd z)"
    using assms(1) by (cases z) (simp_all add: ascii_not_continuation)
  have "decode_utf8 (s @ b) = Some (cp, n)" "decode_utf8 (s @ z) = Some (cp, n)"
    using Char(1,2) decode_append [OF b, of s] decode_append [OF z, of s] by simp_all
  note d = this [THEN has_format_Some]
  show ?case
    using Char(4,5) d decode_prefix(1) [OF Char(1)] by simp
qed

lemma keep_width_prefix:
  "\<exists>b. s = keep_width k s @ b \<and> (b = [] \<or> \<not> is_continuation (hd b))"
  by (induction k s rule: keep_width.induct) auto

lemma display_width_append [simp]: "display_width (a @ b) = display_width a + display_width b"
  by (simp add: display_width_def)

lemma display_width_ascii: "list_all is_ascii s \<Longrightarrow> display_width s = length s"
  by (simp add: display_width_def ascii_not_continuation list_all_iff)

lemma display_width_keep: "display_width (keep_width k s) \<le> k"
  by (induction k s rule: keep_width.induct) (auto simp: display_width_def)

lemma dots: "list_all is_ascii ''...''" "list_all (\<lambda>c. \<not> is_control c) ''...''"
  by (simp_all add: is_ascii_def is_control_def byte_of_char_def)

lemma ascii_free: "list_all is_ascii z \<Longrightarrow> \<not> has_unicode_format_chars z"
  using has_format_ascii [of z "[]"] by simp

lemma truncate_safe:
  assumes "row_safe s"
  shows "row_safe (truncate_to_width s w)" and "display_width (truncate_to_width s w) \<le> w"
proof -
  obtain b where b: "s = keep_width (w - 3) s @ b" "b = [] \<or> \<not> is_continuation (hd b)"
    using keep_width_prefix by blast
  have c: "list_all (\<lambda>c. \<not> is_control c) (keep_width (w - 3) s @ b)" "\<not> has_unicode_format_chars (keep_width (w - 3) s @ b)"
    using assms unfolding b(1) [symmetric] by (simp_all add: row_safe_def)
  have t: "list_all is_ascii (take w ''...'')" "list_all (\<lambda>c. \<not> is_control c) (take w ''...'')"
    using dots by (auto simp: list_all_iff dest: in_set_takeD)
  show "row_safe (truncate_to_width s w)"
    using assms c(1) t dots(2) cut_format [OF dots(1) b(2) c(2)] ascii_free [OF t(1)]
    by (simp add: truncate_to_width_def row_safe_def)
  show "display_width (truncate_to_width s w) \<le> w"
    using display_width_keep [of "w - 3" s] display_width_ascii [OF dots(1)] display_width_ascii [OF t(1)]
    by (auto simp: truncate_to_width_def)
qed

section \<open>Wrapping loses nothing\<close>

definition visible :: "string \<Rightarrow> string" where
  "visible s = filter (\<lambda>c. c \<noteq> CHR '' '' \<and> c \<noteq> CHR 0x0A) s"

definition wrapped :: "wrapping \<Rightarrow> string" where
  "wrapped w = visible (concat (wr_out w)) @ visible (wr_line w)"

lemma visible_append [simp]: "visible (a @ b) = visible a @ visible b"
  by (simp add: visible_def)

lemma visible_simps [simp]:
  "visible [] = []" "visible (CHR '' '' # s) = visible s" "visible (CHR 0x0A # s) = visible s"
  by (simp_all add: visible_def)

lemma visible_dropWhile: "visible (dropWhile (\<lambda>c. c = CHR '' '') s) = visible s"
  by (induction s) (simp_all add: visible_def)

lemma wrapped_flush: "wrapped (flush_line k w) = wrapped w"
  by (simp add: wrapped_def flush_line_def Let_def visible_dropWhile flip: visible_append)

lemma wrapped_char: "wrapped (wrap_char width ch w) = wrapped w @ visible ch"
  by (simp add: wrap_char_def Let_def wrapped_flush split: option.split) (simp add: wrapped_def)

lemma wrapped_loop: "wrapped (wrap_loop width s w) = wrapped w @ visible s"
proof (induction width s w rule: wrap_loop.induct)
  case (1 width s w)
  have s: "visible (take n s) @ visible (drop n s) = visible s" for n
    by (simp flip: visible_append)
  show ?case
  proof (cases s)
    case Nil
    then show ?thesis
      by (subst wrap_loop.simps) simp
  next
    case (Cons c r)
    show ?thesis
    proof (cases "c = CHR 0x0A")
      case True
      with Cons 1(1) show ?thesis
        by (subst wrap_loop.simps) (simp add: wrapped_def wrap_newline_def)
    next
      case False
      with Cons 1(2) s [of "step_length s"] show ?thesis
        by (subst wrap_loop.simps) (simp add: wrapped_char)
    qed
  qed
qed

lemma wrap_text_visible: "0 < width \<Longrightarrow> visible (concat (wrap_text s width)) = visible s"
  using wrapped_loop [of width s] by (simp add: wrap_text_def Let_def wrapped_def visible_def)

end
