(* ===== verification/Frame.thy ===== *)
theory Frame
  imports Display_Text
begin

text \<open>
  The frame buffer of \<open>screen.cpp\<close>: rows of styled text, at most as many as the terminal is high, each cut to its
  width, and the bytes that draw them. \<open>sane\<close> is the invariant of every row a frame ever holds.
\<close>

section \<open>Styles\<close>

datatype style = Normal | Title | Dim | Accent | Good | Warn | Bad | Selected | MenuActive

fun sgr_for :: "style \<Rightarrow> string" where
  "sgr_for Normal = []"
| "sgr_for Title = ''1;36''"
| "sgr_for Dim = ''2''"
| "sgr_for Accent = ''36''"
| "sgr_for Good = ''32''"
| "sgr_for Warn = ''33''"
| "sgr_for Bad = ''1;31''"
| "sgr_for Selected = ''7''"
| "sgr_for MenuActive = ''1;7''"

text \<open>\<open>\033\<close>, and the sequences the file emits.\<close>

definition esc :: string where "esc = [CHR 0x1B]"
definition kCursorHide :: string where "kCursorHide = esc @ ''[?25l''"
definition kCursorShow :: string where "kCursorShow = esc @ ''[?25h''"
definition kHome :: string where "kHome = esc @ ''[H''"
definition kEraseLine :: string where "kEraseLine = esc @ ''[2K''"
definition kEraseBelow :: string where "kEraseBelow = esc @ ''[J''"
definition kResetStyle :: string where "kResetStyle = esc @ ''[0m''"

section \<open>The frame\<close>

record span =
  sp_text :: string
  sp_style :: style

record frame =
  fr_width :: nat
  fr_height :: nat
  fr_color :: bool
  fr_rows :: "span list list"
  fr_lines :: "string list"
  fr_cursor_row :: nat
  fr_cursor_col :: nat

definition new_frame :: "nat \<Rightarrow> nat \<Rightarrow> bool \<Rightarrow> frame" where
  "new_frame w h color = \<lparr>fr_width = w, fr_height = h, fr_color = color, fr_rows = [], fr_lines = [],
     fr_cursor_row = 0, fr_cursor_col = 0\<rparr>"

definition clear_frame :: "frame \<Rightarrow> frame" where
  "clear_frame f = f\<lparr>fr_rows := [], fr_lines := [], fr_cursor_row := 0, fr_cursor_col := 0\<rparr>"

definition push_row :: "span list \<Rightarrow> frame \<Rightarrow> frame" where
  "push_row parts f =
     (if length (fr_rows f) \<ge> fr_height f then f
      else f\<lparr>fr_rows := fr_rows f @ [parts], fr_lines := fr_lines f @ [concat (map sp_text parts)]\<rparr>)"

text \<open>\<open>Frame::line\<close>; the selected row is filled up with spaces.\<close>

definition line_body :: "nat \<Rightarrow> string \<Rightarrow> style \<Rightarrow> string" where
  "line_body width s st =
     (let body = truncate_to_width (sanitize_line s) width
      in if st = Selected then (let drawn = display_width body in
           if drawn < width then body @ replicate (width - drawn) (CHR '' '') else body)
         else body)"

definition line :: "string \<Rightarrow> style \<Rightarrow> frame \<Rightarrow> frame" where
  "line s st f = push_row [\<lparr>sp_text = line_body (fr_width f) s st, sp_style = st\<rparr>] f"

definition blank :: "frame \<Rightarrow> frame" where
  "blank f = line [] Normal f"

fun span_row :: "nat \<Rightarrow> nat \<Rightarrow> span list \<Rightarrow> span list" where
  "span_row width used [] = []"
| "span_row width used (part # parts) =
     (if used \<ge> width then []
      else let s = truncate_to_width (sanitize_line (sp_text part)) (width - used)
           in \<lparr>sp_text = s, sp_style = sp_style part\<rparr> # span_row width (used + display_width s) parts)"

definition spans :: "span list \<Rightarrow> frame \<Rightarrow> frame" where
  "spans parts f = push_row (span_row (fr_width f) 0 parts) f"

definition highlight :: "string \<Rightarrow> frame \<Rightarrow> frame" where
  "highlight s f = line s Selected f"

definition set_cursor :: "nat \<Rightarrow> nat \<Rightarrow> frame \<Rightarrow> frame" where
  "set_cursor row col f = f\<lparr>fr_cursor_row := row, fr_cursor_col := col\<rparr>"

text \<open>\<open>std::to_string\<close>.\<close>

fun to_string :: "nat \<Rightarrow> string" where
  "to_string n = (if n < 10 then [char_of (48 + n)] else to_string (n div 10) @ [char_of (48 + n mod 10)])"

declare to_string.simps [simp del]

definition render_span :: "bool \<Rightarrow> span \<Rightarrow> string" where
  "render_span color part =
     (let sgr = if color then sgr_for (sp_style part) else []
      in if sgr = [] then sp_text part
         else esc @ ''['' @ sgr @ ''m'' @ sp_text part @ kResetStyle)"

fun render_rows :: "bool \<Rightarrow> span list list \<Rightarrow> string" where
  "render_rows color [] = []"
| "render_rows color (row # rows) =
     kEraseLine @ concat (map (render_span color) row) @ (if rows = [] then [] else [CHR 0x0A]) @ render_rows color rows"

definition render_frame :: "frame \<Rightarrow> string" where
  "render_frame f =
     kHome @ render_rows (fr_color f) (fr_rows f) @ [CHR 0x0A] @ kEraseBelow @
     (if fr_cursor_row f > 0 \<and> fr_cursor_col f > 0
      then esc @ ''['' @ to_string (fr_cursor_row f) @ '';'' @ to_string (fr_cursor_col f) @ ''H'' @ kCursorShow
      else kCursorHide)"

section \<open>What a frame holds\<close>

definition row_width :: "span list \<Rightarrow> nat" where
  "row_width row = sum_list (map (\<lambda>part. display_width (sp_text part)) row)"

definition sane :: "frame \<Rightarrow> bool" where
  "sane f \<longleftrightarrow> length (fr_rows f) \<le> fr_height f \<and> fr_lines f = map (\<lambda>row. concat (map sp_text row)) (fr_rows f) \<and>
     (\<forall>row \<in> set (fr_rows f). row_width row \<le> fr_width f \<and> (\<forall>part \<in> set row. row_safe (sp_text part)))"

lemma has_format_spaces: "\<not> has_unicode_format_chars s \<Longrightarrow> \<not> has_unicode_format_chars (s @ replicate n (CHR '' ''))"
  using cut_format [of "replicate n (CHR '' '')" "[]" s] by (simp add: list_all_iff is_ascii_def byte_of_char_def)

lemma spaces_safe: "row_safe s \<Longrightarrow> row_safe (s @ replicate n (CHR '' ''))"
proof -
  have "\<not> is_control (CHR '' '')"
    by (simp add: is_control_def byte_of_char_def)
  then show "row_safe s \<Longrightarrow> row_safe (s @ replicate n (CHR '' ''))"
    by (auto simp: row_safe_def has_format_spaces list_all_iff)
qed

lemma line_body_safe: "row_safe (line_body w s st)" "display_width (line_body w s st) \<le> w"
proof -
  have sp: "display_width (replicate n (CHR '' '')) = n" for n
    using display_width_ascii [of "replicate n (CHR '' '')"] by (simp add: list_all_iff is_ascii_def byte_of_char_def)
  show "row_safe (line_body w s st)" "display_width (line_body w s st) \<le> w"
    using truncate_safe [OF sanitize_safe, of s w] by (auto simp: line_body_def Let_def spaces_safe sp)
qed

lemma span_row_safe:
  "used \<le> width \<Longrightarrow> used + row_width (span_row width used parts) \<le> width \<and>
     (\<forall>part \<in> set (span_row width used parts). row_safe (sp_text part))"
proof (induction width used parts rule: span_row.induct)
  case (2 width used part parts)
  let ?s = "truncate_to_width (sanitize_line (sp_text part)) (width - used)"
  have "display_width ?s \<le> width - used" "row_safe ?s"
    using truncate_safe [OF sanitize_safe] by blast+
  moreover from this 2 have "used < width \<Longrightarrow> used + display_width ?s +
      row_width (span_row width (used + display_width ?s) parts) \<le> width \<and>
      (\<forall>part \<in> set (span_row width (used + display_width ?s) parts). row_safe (sp_text part))"
    by simp
  ultimately show ?case
    using 2(2) by (auto simp: row_width_def Let_def)
qed (simp add: row_width_def)

lemma sane_push:
  assumes "sane f" and "row_width parts \<le> fr_width f" and "\<forall>part \<in> set parts. row_safe (sp_text part)"
  shows "sane (push_row parts f)"
  using assms by (auto simp: sane_def push_row_def)

text \<open>\<open>g\<close> is \<open>f\<close> with more drawn on it; a drawing extends every frame.\<close>

definition extends :: "frame \<Rightarrow> frame \<Rightarrow> bool" where
  "extends f g \<longleftrightarrow> fr_width g = fr_width f \<and> fr_height g = fr_height f \<and> fr_color g = fr_color f \<and>
     (sane f \<longrightarrow> sane g) \<and> (\<exists>new. fr_lines g = fr_lines f @ new)"

definition only_draws :: "(frame \<Rightarrow> frame) \<Rightarrow> bool" where
  "only_draws d \<longleftrightarrow> (\<forall>f. extends f (d f))"

lemma extends_refl: "extends f f"
  by (simp add: extends_def)

lemma extends_trans: "extends f g \<Longrightarrow> extends g h \<Longrightarrow> extends f h"
  unfolding extends_def by (elim conjE exE) simp

lemma extendsD:
  assumes "extends f g"
  shows "fr_width g = fr_width f" and "fr_height g = fr_height f" and "sane f \<Longrightarrow> sane g"
    and "\<exists>new. fr_lines g = fr_lines f @ new"
  using assms unfolding extends_def by blast+

lemma drawsD: "only_draws d \<Longrightarrow> extends f (d f)"
  by (simp add: only_draws_def)

lemma draws_comp: "only_draws d \<Longrightarrow> only_draws e \<Longrightarrow> only_draws (\<lambda>f. e (d f))"
  unfolding only_draws_def by (blast intro: extends_trans)

lemma draws_push:
  assumes "\<And>f. row_width (parts f) \<le> fr_width f" and "\<And>f part. part \<in> set (parts f) \<Longrightarrow> row_safe (sp_text part)"
  shows "only_draws (\<lambda>f. push_row (parts f) f)"
  unfolding only_draws_def extends_def
proof (intro allI conjI impI)
  fix f :: frame
  assume "sane f"
  then show "sane (push_row (parts f) f)"
    using assms by (intro sane_push) blast+
qed (simp_all add: push_row_def)

lemma draws_line: "only_draws (line s st)"
proof -
  have "only_draws (\<lambda>f. push_row [\<lparr>sp_text = line_body (fr_width f) s st, sp_style = st\<rparr>] f)"
    using line_body_safe by (intro draws_push) (auto simp: row_width_def)
  then show ?thesis
    by (simp add: line_def [abs_def])
qed

lemma draws_spans: "only_draws (spans parts)"
proof -
  have "only_draws (\<lambda>f. push_row (span_row (fr_width f) 0 parts) f)"
    by (rule draws_push) (use span_row_safe [of 0 _ parts] in auto)
  then show ?thesis
    by (simp add: spans_def [abs_def])
qed

lemma draws_blank: "only_draws blank" and draws_highlight: "only_draws (highlight s)"
  using draws_line by (simp_all add: blank_def [abs_def] highlight_def [abs_def])

lemma draws_id: "only_draws (\<lambda>f. f)"
  by (simp add: only_draws_def extends_refl)

lemma draws_fold: "(\<And>x. x \<in> set xs \<Longrightarrow> only_draws (d x)) \<Longrightarrow> only_draws (fold d xs)"
proof (induction xs)
  case (Cons x xs)
  then have "only_draws (\<lambda>f. fold d xs (d x f))"
    using draws_comp [of "d x" "fold d xs"] by simp
  then show ?case
    by (simp add: comp_def)
qed (simp add: draws_id id_def)

lemma draws_if: "only_draws d \<Longrightarrow> only_draws e \<Longrightarrow> only_draws (if b then d else e)"
  by simp

section \<open>What reaches the terminal\<close>

text \<open>The escape sequences \<open>render\<close> may emit.\<close>

definition vocabulary :: "string set" where
  "vocabulary = {kHome, kEraseLine, kEraseBelow, kResetStyle, kCursorShow, kCursorHide, [CHR 0x0A]}
     \<union> {esc @ ''['' @ sgr_for st @ ''m'' | st. True}
     \<union> {esc @ ''['' @ to_string r @ '';'' @ to_string c @ ''H'' | r c. True}"

text \<open>A sequence of bytes cut into pieces that are known sequences or safe text.\<close>

definition drawn :: "string \<Rightarrow> bool" where
  "drawn out \<longleftrightarrow> (\<exists>pieces. out = concat pieces \<and> (\<forall>piece \<in> set pieces. piece \<in> vocabulary \<or> row_safe piece))"

lemma drawn_Nil: "drawn []"
  by (auto simp: drawn_def intro: exI [of _ "[]"])

lemma drawn_append: "drawn a \<Longrightarrow> drawn b \<Longrightarrow> drawn (a @ b)"
  unfolding drawn_def by (metis UnE concat_append set_append)

lemma drawn_piece: "s \<in> vocabulary \<or> row_safe s \<Longrightarrow> drawn s"
  by (auto simp: drawn_def intro!: exI [of _ "[s]"])

lemma drawn_concat: "(\<And>x. x \<in> set xs \<Longrightarrow> drawn x) \<Longrightarrow> drawn (concat xs)"
  by (induction xs) (auto intro: drawn_Nil drawn_append)

lemma drawn_span:
  assumes "row_safe (sp_text part)"
  shows "drawn (render_span color part)"
proof -
  have "drawn (esc @ ''['' @ sgr_for (sp_style part) @ ''m'')" "drawn (sp_text part)" "drawn kResetStyle"
    using assms by (auto intro!: drawn_piece simp: vocabulary_def)
  note d = this
  have "drawn ((esc @ ''['' @ sgr_for (sp_style part) @ ''m'') @ sp_text part @ kResetStyle)"
    by (rule drawn_append [OF d(1) drawn_append [OF d(2,3)]])
  then show ?thesis
    using assms drawn_piece [of "sp_text part"] by (simp add: render_span_def Let_def)
qed

lemma drawn_rows:
  "(\<And>row part. row \<in> set rows \<Longrightarrow> part \<in> set row \<Longrightarrow> row_safe (sp_text part)) \<Longrightarrow> drawn (render_rows color rows)"
proof (induction rows)
  case (Cons row rows)
  have "drawn (concat (map (render_span color) row))"
    using Cons.prems by (intro drawn_concat) (auto intro: drawn_span)
  moreover have "drawn (render_rows color rows)"
    by (rule Cons.IH) (use Cons.prems in auto)
  moreover have "drawn kEraseLine" "drawn [CHR 0x0A]"
    by (auto intro!: drawn_piece simp: vocabulary_def)
  ultimately show ?case
    by (auto simp del: append_Cons append_assoc intro!: drawn_append drawn_Nil)
qed (simp add: drawn_Nil)

lemma drawn_frame: "sane f \<Longrightarrow> drawn (render_frame f)"
proof -
  assume "sane f"
  then have "drawn (render_rows (fr_color f) (fr_rows f))"
    by (intro drawn_rows) (auto simp: sane_def)
  moreover have "drawn kHome" "drawn [CHR 0x0A]" "drawn kEraseBelow" "drawn kCursorHide" "drawn kCursorShow"
    by (auto intro!: drawn_piece simp: vocabulary_def)
  moreover have "drawn (esc @ ''['' @ to_string r @ '';'' @ to_string c @ ''H'')" for r c
    by (intro drawn_piece) (auto simp: vocabulary_def)
  then have "drawn (esc @ ''['' @ to_string r @ '';'' @ to_string c @ ''H'' @ kCursorShow)" for r c
    using drawn_append [OF _ \<open>drawn kCursorShow\<close>] by fastforce
  ultimately show ?thesis
    unfolding render_frame_def by (intro drawn_append) (auto intro!: drawn_append)
qed

section \<open>How far a frame moves the terminal\<close>

definition newlines :: "string \<Rightarrow> nat" where
  "newlines s = length (filter (\<lambda>c. c = CHR 0x0A) s)"

lemma newlines_simps [simp]:
  "newlines [] = 0" "newlines (c # s) = (if c = CHR 0x0A then 1 else 0) + newlines s"
  "newlines (s @ t) = newlines s + newlines t"
  by (simp_all add: newlines_def)

lemma newlines_safe: "row_safe s \<Longrightarrow> newlines s = 0"
  by (induction s) (auto simp: newlines_def row_safe_def is_control_def byte_of_char_def list_all_iff filter_empty_conv)

lemma newlines_to_string: "newlines (to_string n) = 0"
proof (induction n rule: to_string.induct)
  case (1 n)
  have "char_of (48 + d) \<noteq> CHR 0x0A" if "d < 10" for d :: nat
  proof
    assume "char_of (48 + d) = CHR 0x0A"
    then have "of_char (char_of (48 + d) :: char) = (of_char (CHR 0x0A) :: nat)"
      by simp
    with that show False
      by simp
  qed
  with 1 show ?case
    by (subst to_string.simps) simp
qed

lemma newlines_sequences [simp]: "newlines kHome = 0" "newlines kEraseLine = 0" "newlines kEraseBelow = 0"
  "newlines kResetStyle = 0" "newlines kCursorShow = 0" "newlines kCursorHide = 0" "newlines esc = 0"
  by (simp_all add: kHome_def kEraseLine_def kEraseBelow_def kResetStyle_def kCursorShow_def kCursorHide_def esc_def)

lemma newlines_span: "row_safe (sp_text part) \<Longrightarrow> newlines (render_span color part) = 0"
  by (cases "sp_style part") (simp_all add: render_span_def Let_def newlines_safe)

lemma newlines_spans: "(\<And>part. part \<in> set row \<Longrightarrow> row_safe (sp_text part)) \<Longrightarrow>
    newlines (concat (map (render_span color) row)) = 0"
  by (induction row) (simp_all add: newlines_span)

lemma newlines_rows:
  "(\<And>row part. row \<in> set rows \<Longrightarrow> part \<in> set row \<Longrightarrow> row_safe (sp_text part)) \<Longrightarrow>
    newlines (render_rows color rows) = length rows - 1"
proof (induction rows)
  case (Cons row rows)
  have "newlines (concat (map (render_span color) row)) = 0"
    by (rule newlines_spans) (use Cons.prems in auto)
  moreover have "newlines (render_rows color rows) = length rows - 1"
    by (rule Cons.IH) (use Cons.prems in auto)
  ultimately show ?case
    by (cases rows) simp_all
qed simp

lemma newlines_frame: "sane f \<Longrightarrow> newlines (render_frame f) = max 1 (length (fr_rows f))"
proof -
  assume s: "sane f"
  have "newlines (render_rows (fr_color f) (fr_rows f)) = length (fr_rows f) - 1"
    by (rule newlines_rows) (use s in \<open>auto simp: sane_def\<close>)
  moreover have "Suc (n - Suc 0) = max (Suc 0) n" for n
    by (cases n) simp_all
  ultimately show ?thesis
    by (simp add: render_frame_def newlines_to_string)
qed

end
