(* ===== verification/Keys.thy ===== *)
theory Keys
  imports Display_Text
begin

text \<open>
  The key decoder of \<open>screen.cpp\<close>: bytes arrive from the terminal in chunks of any size, and \<open>decode_key\<close> takes
  one key off the front, or reports that it has to see more. The lemmas show that it always makes progress and
  that the chunks do not matter.
\<close>

section \<open>The decoder\<close>

datatype key_code =
    KNone | KChar | KEnter | KBackspace | KTab | KEscape | KUp | KDown | KLeft | KRight | KHome | KEnd | KDelete
  | KPageUp | KPageDown | KCtrlC | KCtrlD | KCtrlL | KCtrlP | KCtrlU | KCtrlV | KCtrlW | KPasteBegin | KPasteEnd

record key =
  k_code :: key_code
  k_text :: string

definition kMaxEscapeSequence :: nat where "kMaxEscapeSequence = 16"

definition csi_to_key :: "string \<Rightarrow> char \<Rightarrow> key_code" where
  "csi_to_key params final_byte =
     (if params = [] then
        (if final_byte = CHR ''A'' then KUp
         else if final_byte = CHR ''B'' then KDown
         else if final_byte = CHR ''C'' then KRight
         else if final_byte = CHR ''D'' then KLeft
         else if final_byte = CHR ''H'' then KHome
         else if final_byte = CHR ''F'' then KEnd
         else KNone)
      else if final_byte = CHR ''~'' then
        (if params = ''1'' \<or> params = ''7'' then KHome
         else if params = ''3'' then KDelete
         else if params = ''4'' \<or> params = ''8'' then KEnd
         else if params = ''5'' then KPageUp
         else if params = ''6'' then KPageDown
         else if params = ''200'' then KPasteBegin
         else if params = ''201'' then KPasteEnd
         else KNone)
      else KNone)"

text \<open>The scan for the final byte: \<open>i\<close> is the position, \<open>n\<close> what is left up to the limit.\<close>

datatype scan = Final nat | Broken nat | Ran_Out

fun scan_csi :: "nat \<Rightarrow> nat \<Rightarrow> string \<Rightarrow> scan" where
  "scan_csi 0 i s = Ran_Out"
| "scan_csi (Suc n) i [] = Ran_Out"
| "scan_csi (Suc n) i (c # s) =
     (if byte_of_char c \<ge> 0x40 \<and> byte_of_char c \<le> 0x7E then Final i
      else if byte_of_char c < 0x20 \<or> byte_of_char c > 0x3F then Broken i
      else scan_csi n (i + 1) s)"

text \<open>Both decoders return the bytes used, 0 for an incomplete sequence, and the key code.\<close>

definition decode_escape :: "string \<Rightarrow> bool \<Rightarrow> nat \<times> key_code" where
  "decode_escape inp flush =
     (if length inp = 1 then (if \<not> flush then (0, KNone) else (1, KEscape))
      else let introducer = inp ! 1 in
        if introducer \<noteq> CHR ''['' \<and> introducer \<noteq> CHR ''O'' then (2, KNone)
        else (case scan_csi (min (length inp) kMaxEscapeSequence - 2) 2 (drop 2 inp) of
                Final i \<Rightarrow> (i + 1, csi_to_key (take (i - 2) (drop 2 inp)) (inp ! i))
              | Broken i \<Rightarrow> (i, KNone)
              | Ran_Out \<Rightarrow>
                  if length inp \<ge> kMaxEscapeSequence then (kMaxEscapeSequence, KNone)
                  else if flush then (length inp, KNone)
                  else (0, KNone)))"

definition control_key :: "byte \<Rightarrow> key_code option" where
  "control_key lead =
     (if lead = 0x0D \<or> lead = 0x0A then Some KEnter
      else if lead = 0x09 then Some KTab
      else if lead = 0x7F \<or> lead = 0x08 then Some KBackspace
      else if lead = 0x03 then Some KCtrlC
      else if lead = 0x04 then Some KCtrlD
      else if lead = 0x0C then Some KCtrlL
      else if lead = 0x10 then Some KCtrlP
      else if lead = 0x15 then Some KCtrlU
      else if lead = 0x16 then Some KCtrlV
      else if lead = 0x17 then Some KCtrlW
      else None)"

definition decode_key :: "string \<Rightarrow> bool \<Rightarrow> nat \<times> key" where
  "decode_key inp flush =
     (if inp = [] then (0, \<lparr>k_code = KNone, k_text = []\<rparr>)
      else let lead = byte_of_char (hd inp) in
        if lead = 0x1B then
          (case decode_escape inp flush of (n, code) \<Rightarrow> (n, \<lparr>k_code = code, k_text = []\<rparr>))
        else (case control_key lead of
                Some code \<Rightarrow> (1, \<lparr>k_code = code, k_text = []\<rparr>)
              | None \<Rightarrow>
                  if lead < 0x20 then (1, \<lparr>k_code = KNone, k_text = []\<rparr>)
                  else let needed = sequence_length (hd inp) in
                    if needed = 0 then (1, \<lparr>k_code = KNone, k_text = []\<rparr>)
                    else if length inp < needed then
                      (if \<not> flush then (0, \<lparr>k_code = KNone, k_text = []\<rparr>)
                       else (length inp, \<lparr>k_code = KNone, k_text = []\<rparr>))
                    else if \<not> list_all is_continuation (take (needed - 1) (tl inp)) then
                      (1, \<lparr>k_code = KNone, k_text = []\<rparr>)
                    else (needed, \<lparr>k_code = KChar, k_text = take needed inp\<rparr>)))"

section \<open>Progress\<close>

lemma scan_csi_bound:
  "scan_csi n i s = Final j \<Longrightarrow> i \<le> j \<and> j < i + min n (length s)"
  "scan_csi n i s = Broken j \<Longrightarrow> i \<le> j \<and> j < i + min n (length s)"
  by (induction n i s rule: scan_csi.induct) (auto split: if_splits)

lemma scan_csi_more:
  "scan_csi n i s \<noteq> Ran_Out \<Longrightarrow> n \<le> length s \<Longrightarrow> n \<le> m \<Longrightarrow> scan_csi m i (s @ t) = scan_csi n i s"
proof (induction n i s arbitrary: m rule: scan_csi.induct)
  case (3 n i c s)
  then show ?case
    by (cases m) (auto split: if_splits)
qed auto

lemma decode_escape_bound: "inp \<noteq> [] \<Longrightarrow> fst (decode_escape inp flush) \<le> length inp"
  using scan_csi_bound [of "min (length inp) kMaxEscapeSequence - 2" 2 "drop 2 inp"]
  by (cases inp; cases "tl inp")
    (auto simp: decode_escape_def Let_def kMaxEscapeSequence_def min_def split: scan.splits if_splits)

lemma decode_key_bound: "fst (decode_key inp flush) \<le> length inp"
  using decode_escape_bound [of inp flush]
  by (cases inp) (auto simp: decode_key_def Let_def split: prod.split option.split)

lemma decode_escape_progress: "inp \<noteq> [] \<Longrightarrow> 0 < fst (decode_escape inp True)"
  using scan_csi_bound [of "min (length inp) kMaxEscapeSequence - 2" 2 "drop 2 inp"]
  by (auto simp: decode_escape_def Let_def kMaxEscapeSequence_def split: scan.splits if_splits)

lemma decode_key_progress: "inp \<noteq> [] \<Longrightarrow> 0 < fst (decode_key inp True)"
  using decode_escape_progress [of inp]
  by (auto simp: decode_key_def Let_def split: prod.split option.split)

section \<open>Chunks\<close>

text \<open>Once the decoder has an answer, more input and the flush do not change it.\<close>

lemma scan_csi_append: "n \<le> length s \<Longrightarrow> scan_csi n i (s @ t) = scan_csi n i s"
  by (induction n i s rule: scan_csi.induct) auto

lemma decode_escape_more:
  assumes two: "2 \<le> length inp" and used: "0 < fst (decode_escape inp False)"
  shows "decode_escape (inp @ t) flush = decode_escape inp False"
proof -
  let ?n = "\<lambda>l. min l kMaxEscapeSequence - 2"
  have d: "drop 2 (inp @ t) = drop 2 inp @ t" and i: "(inp @ t) ! 1 = inp ! 1"
    using two by (simp_all add: nth_append)
  have n: "?n (length inp) \<le> length (drop 2 inp)" "?n (length inp) \<le> ?n (length (inp @ t))"
    by auto
  show ?thesis
  proof (cases "scan_csi (?n (length inp)) 2 (drop 2 inp)")
    case (Final j)
    have "scan_csi (?n (length (inp @ t))) 2 (drop 2 inp @ t) = Final j"
      using scan_csi_more [OF _ n] Final by simp
    moreover have "j < length inp"
      using scan_csi_bound(1) [OF Final] two by auto
    ultimately show ?thesis
      using two Final d i by (auto simp: decode_escape_def Let_def nth_append)
  next
    case (Broken j)
    have "scan_csi (?n (length (inp @ t))) 2 (drop 2 inp @ t) = Broken j"
      using scan_csi_more [OF _ n] Broken by simp
    then show ?thesis
      using two Broken d i by (auto simp: decode_escape_def Let_def)
  next
    case Ran_Out
    show ?thesis
    proof (cases "length inp \<ge> kMaxEscapeSequence")
      case True
      then have "?n (length (inp @ t)) = ?n (length inp)"
        by simp
      then have "scan_csi (?n (length (inp @ t))) 2 (drop 2 inp @ t) = Ran_Out"
        using scan_csi_append [OF n(1)] Ran_Out by simp
      then show ?thesis
        using two True Ran_Out d i by (auto simp: decode_escape_def Let_def kMaxEscapeSequence_def)
    next
      case False
      with used two Ran_Out have "inp ! 1 \<noteq> CHR ''['' \<and> inp ! 1 \<noteq> CHR ''O''"
        by (auto simp: decode_escape_def Let_def split: if_splits)
      then show ?thesis
        using two i by (auto simp: decode_escape_def Let_def)
    qed
  qed
qed

lemma decode_key_more:
  assumes "0 < fst (decode_key inp False)"
  shows "decode_key (inp @ t) flush = decode_key inp False"
proof (cases "byte_of_char (hd inp) = 0x1B")
  case True
  from assms have "inp \<noteq> []"
    by (auto simp: decode_key_def)
  moreover have "length inp \<noteq> 1"
    using assms True \<open>inp \<noteq> []\<close> by (intro notI) (simp add: decode_key_def decode_escape_def)
  ultimately have "2 \<le> length inp"
    by (cases inp; cases "tl inp") auto
  moreover have "0 < fst (decode_escape inp False)"
    using assms True \<open>inp \<noteq> []\<close> by (auto simp: decode_key_def Let_def split: prod.splits)
  ultimately show ?thesis
    using True \<open>inp \<noteq> []\<close> decode_escape_more [of inp t flush] by (simp add: decode_key_def)
next
  case False
  from assms obtain c r where c: "inp = c # r"
    by (cases inp) (auto simp: decode_key_def)
  let ?lead = "byte_of_char c" and ?n = "sequence_length c"
  show ?thesis
  proof (cases "control_key ?lead = None \<and> \<not> ?lead < 0x20 \<and> ?n \<noteq> 0")
    case True
    then have "?n \<le> length inp"
      using assms False c by (simp add: decode_key_def Let_def split: if_splits)
    moreover from this have "take (?n - 1) (r @ t) = take (?n - 1) r" "take ?n (c # r @ t) = take ?n (c # r)"
      using c take_append [of ?n "c # r" t] by simp_all
    ultimately show ?thesis
      using True False c by (simp add: decode_key_def Let_def)
  next
    case other: False
    then show ?thesis
      using False c by (cases "control_key ?lead") (auto simp: decode_key_def)
  qed
qed

section \<open>A stream of keys\<close>

text \<open>What the loop of the driver takes from \<open>pending\<close> before it has to wait for more.\<close>

function drain :: "string \<Rightarrow> key list \<times> string" where
  "drain s =
     (case decode_key s False of (n, k) \<Rightarrow>
        if n = 0 then ([], s) else (case drain (drop n s) of (ks, rest) \<Rightarrow> (k # ks, rest)))"
  by pat_completeness auto

termination
proof (relation "measure length")
  fix s n and k :: key
  assume "(n, k) = decode_key s False" and "n \<noteq> 0"
  then show "(drop n s, s) \<in> measure length"
    using decode_key_bound [of s False] by (cases s) (auto simp: decode_key_def split: prod.splits)
qed simp

declare drain.simps [simp del]

text \<open>The chunks one \<open>read\<close> after the other.\<close>

fun feed :: "string \<Rightarrow> string list \<Rightarrow> key list \<times> string" where
  "feed pending [] = ([], pending)"
| "feed pending (chunk # chunks) =
     (case drain (pending @ chunk) of (ks, rest) \<Rightarrow>
       (case feed rest chunks of (ks', rest') \<Rightarrow> (ks @ ks', rest')))"

text \<open>When nothing more arrives, what is pending is final: one turn of the loop, and the whole of it.\<close>

definition next_key :: "string \<Rightarrow> nat \<times> key" where
  "next_key s = (let r = decode_key s False in if fst r = 0 then decode_key s True else r)"

lemma next_key_bound: "s \<noteq> [] \<Longrightarrow> 0 < fst (next_key s) \<and> fst (next_key s) \<le> length s"
  using decode_key_bound [of s] decode_key_progress [of s] by (simp add: next_key_def Let_def)

function drain_all :: "string \<Rightarrow> key list" where
  "drain_all s = (if s = [] then [] else case next_key s of (n, k) \<Rightarrow> k # drain_all (drop n s))"
  by pat_completeness auto

termination
proof (relation "measure length")
  fix s n and k :: key
  assume "s \<noteq> []" and "(n, k) = next_key s"
  then show "(drop n s, s) \<in> measure length"
    using next_key_bound [of s] by (auto simp: prod_eq_iff)
qed simp

declare drain_all.simps [simp del]

lemma drain_append: "drain (s @ t) = (case drain s of (ks, rest) \<Rightarrow> (ks @ fst (drain (rest @ t)), snd (drain (rest @ t))))"
proof (induction s rule: drain.induct)
  case (1 s)
  obtain n k where d: "decode_key s False = (n, k)"
    by fastforce
  show ?case
  proof (cases "n = 0")
    case True
    have "drain s = ([], s)"
      using d True by (subst drain.simps) simp
    then show ?thesis
      by simp
  next
    case False
    have m: "decode_key (s @ t) False = (n, k)"
      using decode_key_more [of s t False] d False by simp
    have "n \<le> length s"
      using decode_key_bound [of s False] d by simp
    then have e: "drop n (s @ t) = drop n s @ t"
      by simp
    have a: "drain (s @ t) = (case drain (drop n s @ t) of (ks, rest) \<Rightarrow> (k # ks, rest))"
      using m False by (subst drain.simps) (simp add: e del: drop_append)
    have b: "drain s = (case drain (drop n s) of (ks, rest) \<Rightarrow> (k # ks, rest))"
      using d False by (subst drain.simps) simp
    show ?thesis
      using 1 [OF d [symmetric] False] by (simp add: a b split: prod.split)
  qed
qed

lemma drain_step:
  "decode_key s False = (n, k) \<Longrightarrow> n \<noteq> 0 \<Longrightarrow> drain s = (k # fst (drain (drop n s)), snd (drain (drop n s)))"
  by (subst drain.simps) (simp split: prod.split)

lemma drain_stuck: "decode_key s False = (0, k) \<Longrightarrow> drain s = ([], s)"
  by (subst drain.simps) simp

lemma drain_rest: "drain (snd (drain s)) = ([], snd (drain s))"
proof (induction s rule: drain.induct)
  case (1 s)
  obtain n k where d: "decode_key s False = (n, k)"
    by fastforce
  show ?case
  proof (cases "n = 0")
    case True
    have "drain s = ([], s)"
      by (rule drain_stuck) (rule d [unfolded True])
    then show ?thesis
      by simp
  next
    case False
    show ?thesis
      unfolding drain_step [OF d False] snd_conv by (rule 1 [OF d [symmetric] False])
  qed
qed

lemma feed_drain: "feed rest chunks = drain (rest @ concat chunks)" if "drain rest = ([], rest)"
  using that
proof (induction chunks arbitrary: rest)
  case (Cons chunk chunks)
  obtain ks r where d: "drain (rest @ chunk) = (ks, r)"
    by fastforce
  have "drain r = ([], r)"
    using drain_rest [of "rest @ chunk"] d by simp
  note IH = Cons.IH [OF this]
  obtain ks' r' where e: "drain (r @ concat chunks) = (ks', r')"
    by fastforce
  have "feed rest (chunk # chunks) = (ks @ ks', r')"
    by (simp only: feed.simps d IH e prod.case)
  also have "\<dots> = drain ((rest @ chunk) @ concat chunks)"
    using drain_append [of "rest @ chunk" "concat chunks"] by (simp only: d e prod.case fst_conv snd_conv)
  finally show ?case
    by simp
qed simp

lemma drain_all_step: "next_key s = (n, k) \<Longrightarrow> s \<noteq> [] \<Longrightarrow> drain_all s = k # drain_all (drop n s)"
  by (subst drain_all.simps) simp

lemma drain_all_drain: "drain_all s = fst (drain s) @ drain_all (snd (drain s))"
proof (induction s rule: drain.induct)
  case (1 s)
  obtain n k where d: "decode_key s False = (n, k)"
    by fastforce
  show ?case
  proof (cases "n = 0")
    case False
    then have "s \<noteq> []" "next_key s = (n, k)"
      using d by (auto simp: next_key_def decode_key_def)
    then have "drain_all s = k # drain_all (drop n s)"
      by (intro drain_all_step)
    also have "drain_all (drop n s) = fst (drain (drop n s)) @ drain_all (snd (drain (drop n s)))"
      by (rule 1 [OF d [symmetric] False])
    finally show ?thesis
      by (simp only: drain_step [OF d False] fst_conv snd_conv append_Cons)
  next
    case True
    have "drain s = ([], s)"
      by (rule drain_stuck) (rule d [unfolded True])
    then show ?thesis
      by simp
  qed
qed

text \<open>The bytes the keys came from, and how many turns it takes.\<close>

fun turns :: "nat \<Rightarrow> string \<Rightarrow> string" where
  "turns 0 s = s"
| "turns (Suc i) s = turns i (drop (fst (next_key s)) s)"

lemma turns_empty: "length s \<le> i \<Longrightarrow> turns i s = []"
proof (induction i arbitrary: s)
  case (Suc i)
  show ?case
  proof (cases "s = []")
    case True
    then show ?thesis
      using Suc.IH [of "[]"] by simp
  next
    case False
    then have "length (drop (fst (next_key s)) s) \<le> i"
      using next_key_bound [of s] Suc.prems by (cases "fst (next_key s)") auto
    with Suc.IH show ?thesis
      by simp
  qed
qed simp

section \<open>Property\<close>

text \<open>C24: Key decoding ends and does not depend on the chunks: with nothing more to read, at most one turn per
  pending byte empties the buffer; and however the input is cut into reads, the keys taken as they become
  complete followed by the final ones are the keys of the whole input.\<close>

theorem keys_decode_completely:
  "turns (length s) s = [] \<and>
   (case feed [] chunks of (ks, rest) \<Rightarrow> ks @ drain_all rest = drain_all (concat chunks))"
proof -
  have "drain [] = ([], [])"
    by (rule drain_stuck) (simp add: decode_key_def)
  then have "feed [] chunks = drain (concat chunks)"
    using feed_drain [of "[]"] by simp
  then show ?thesis
    using drain_all_drain [of "concat chunks"] by (simp add: turns_empty split: prod.split)
qed

end
