(* ===== verification/Localised.thy ===== *)
theory Localised
  imports Display_Text
begin

text \<open>
  \<open>i18n.hpp\<close> and \<open>i18n.cpp\<close>: the strings of the interface, in the order of the list they are declared in. An
  enumerator is its name; \<open>t\<close> (here \<open>i18n_t\<close>) finds a string by it.
\<close>

datatype lang = En | It

type_synonym str = string

definition strings_1 :: "(str \<times> string \<times> string) list" where
  "strings_1 = [
     (''Subtitle'', ''encrypted messages, no server'',
       ''messaggi cifrati, senza server''),
     (''ErrorPrefix'', ''error'',
       ''errore''),
     (''ChooseDrive'', ''Choose the drive to use:'',
       ''Scegli l'' @ [CHR 0x27] @ ''unita'' @ [CHR 0x27] @ '' da usare:''),
     (''NoDrivesFound'', ''No removable drive was found.'',
       ''Non e'' @ [CHR 0x27] @ '' stata trovata nessuna unita'' @ [CHR 0x27] @ '' rimovibile.''),
     (''DriveHasVault'', ''vault'',
       ''vault''),
     (''DriveEmpty'', ''empty'',
       ''vuota''),
     (''TypePath'', ''Path of the drive:'',
       ''Percorso dell'' @ [CHR 0x27] @ ''unita'' @ [CHR 0x27] @ '':''),
     (''PressPForPath'', ''Press p to type in the path of one.'',
       ''Premi p per scrivere il percorso di una.''),
     (''KeysDrive'', ''up/down list   left/right menu   Enter choose'',
       ''su/giu'' @ [CHR 0x27] @ '' elenco   sinistra/destra menu   Invio scegli''),
     (''NoVaultHere'', ''There is no vault on this drive.'',
       ''Su questa unita'' @ [CHR 0x27] @ '' non c'' @ [CHR 0x27] @ ''e'' @ [CHR 0x27] @ '' nessun vault.''),
     (''SetupNew'', ''n   set up a new identity here'',
       ''n   crea qui una nuova identita'' @ [CHR 0x27]),
     (''SetupRestore'', ''r   restore an identity from its 12 recovery words'',
       ''r   ripristina un'' @ [CHR 0x27] @ ''identita'' @ [CHR 0x27] @ '' dalle sue 12 parole''),
     (''KeysSetup'', ''left/right menu   Enter choose   Esc back'',
       ''sinistra/destra menu   Invio scegli   Esc indietro''),
     (''YourFingerprint'', ''Your fingerprint:'',
       ''La tua impronta:''),
     (''Contacts'', ''Contacts:'',
       ''Contatti:''),
     (''NoContacts'', ''You have no contacts yet.'',
       ''Non hai ancora nessun contatto.''),
     (''NoContactsHint'', ''Press a to add one, once somebody has given you a card.'',
       ''Premi a per aggiungerne uno, quando qualcuno ti ha dato una card.''),
     (''Verified'', ''verified'',
       ''verificato''),
     (''Unverified'', ''NOT verified'',
       ''NON verificato''),
     (''HasSession'', ''session open'',
       ''sessione aperta'')]"

definition strings_2 :: "(str \<times> string \<times> string) list" where
  "strings_2 = [
     (''NoSession'', ''no session yet'',
       ''nessuna sessione''),
     (''KeysHome'', ''up/down contacts   Space select   g group   left/right menu   Enter choose'',
       ''su/giu'' @ [CHR 0x27] @ '' contatti   Spazio seleziona   g gruppo   sinistra/destra menu   Invio scegli''),
     (''GroupSelectHint'', ''Space marks a contact for a group; g writes to them.'',
       ''Spazio segna un contatto per un gruppo; g scrive a quelli segnati.''),
     (''GroupSelected'', ''selected for group'',
       ''selezionati per il gruppo''),
     (''GroupNeedsTwo'', ''Mark at least two verified contacts with Space before writing a group message.'',
       ''Segna almeno due contatti verificati con Spazio prima di scrivere un messaggio di gruppo.''),
     (''GroupNeedsVerified'', ''Only verified contacts can be added to a group.'',
       ''Solo i contatti verificati possono essere aggiunti a un gruppo.''),
     (''Fingerprint'', ''Fingerprint:'',
       ''Impronta:''),
     (''VerifyHint'', ''Read this out to them in person or by phone. If it matches, press t.'',
       ''Leggigliela di persona o al telefono. Se combacia, premi t.''),
     (''KeysContact'', ''left/right menu   Enter choose   Esc back'',
       ''sinistra/destra menu   Invio scegli   Esc indietro''),
     (''WritingTo'', ''Writing to'',
       ''Stai scrivendo a''),
     (''ComposeHint'', ''Type your message. Enter starts a new line.'',
       ''Scrivi il messaggio. Invio va a capo.''),
     (''WritingToGroup'', ''Writing to group:'',
       ''Stai scrivendo al gruppo:''),
     (''ComposeGroupHint'', ''Type your message. Ctrl-D sends it to every marked contact.'',
       ''Scrivi il messaggio. Ctrl-D lo invia a tutti i contatti segnati.''),
     (''KeysCompose'', ''Ctrl-D send   Ctrl-P file   Esc cancel   Ctrl-C quit'',
       ''Ctrl-D invia   Ctrl-P file   Esc annulla   Ctrl-C esci''),
     (''CopyBlock'', ''Press y to copy this whole block, then paste it wherever you like:'',
       ''Premi y per copiare tutto il blocco, poi incollalo dove vuoi:''),
     (''YourCard'', ''Your contact card'',
       ''La tua card''),
     (''MessageBlock'', ''Your encrypted message'',
       ''Il tuo messaggio cifrato''),
     (''GroupMessageBlock'', ''Your encrypted group message'',
       ''Il tuo messaggio cifrato di gruppo''),
     (''KeysBlock'', ''y copy   up/down scroll   Esc or q back'',
       ''y copia   su/giu'' @ [CHR 0x27] @ '' scorri   Esc o q indietro''),
     (''KeysMessage'', ''up/down scroll   Esc or q back'',
       ''su/giu'' @ [CHR 0x27] @ '' scorri   Esc o q indietro'')]"

definition strings_3 :: "(str \<times> string \<times> string) list" where
  "strings_3 = [
     (''PasteBlock'', ''Paste the block here, then press Ctrl-D.'',
       ''Incolla qui il blocco, poi premi Ctrl-D.''),
     (''PasteCard'', ''Paste their contact card here, then press Ctrl-D.'',
       ''Incolla qui la sua card, poi premi Ctrl-D.''),
     (''CharsReceived'', ''characters received'',
       ''caratteri ricevuti''),
     (''NothingPasted'', ''nothing pasted yet'',
       ''non hai ancora incollato niente''),
     (''KeysPaste'', ''Ctrl-D confirm   Esc cancel   Ctrl-C quit'',
       ''Ctrl-D conferma   Esc annulla   Ctrl-C esci''),
     (''AliasPrompt'', ''What do you want to call this contact?'',
       ''Come vuoi chiamare questo contatto?''),
     (''KeysText'', ''Enter confirm   Esc back   Ctrl-C quit'',
       ''Invio conferma   Esc indietro   Ctrl-C esci''),
     (''MessageFrom'', ''Message from'',
       ''Messaggio da''),
     (''GroupMessageFrom'', ''Group message from'',
       ''Messaggio di gruppo da''),
     (''SessionOpened'', ''This message opened a new session.'',
       ''Questo messaggio ha aperto una nuova sessione.''),
     (''WarnUnverified'', ''This contact is NOT verified: you have not checked their fingerprint.'',
       ''Questo contatto NON e'' @ [CHR 0x27] @ '' verificato: non hai ancora controllato la sua impronta.''),
     (''Deriving'', ''Opening the vault with Argon2id, this takes a moment...'',
       ''Sto aprendo il vault con Argon2id, ci vuole un attimo...''),
     (''WrongPassphrase'', ''Wrong passphrase, or the file has been altered.'',
       ''Passphrase sbagliata, oppure il file e'' @ [CHR 0x27] @ '' stato modificato.''),
     (''Locked'', ''Locked. The vault is closed and the keys are gone from memory.'',
       ''Bloccato. Il vault e'' @ [CHR 0x27] @ '' chiuso e le chiavi non sono piu'' @ [CHR 0x27] @ '' in memoria.''),
     (''IdleLocked'', ''Locked automatically after being left idle.'',
       ''Bloccato da solo dopo un po'' @ [CHR 0x27] @ '' di inattivita'' @ [CHR 0x27] @ ''.''),
     (''ContactAdded'', ''added. Check their fingerprint before you trust it.'',
       ''aggiunto. Controlla la sua impronta prima di fidarti.''),
     (''MarkedVerified'', ''marked as verified.'',
       ''segnato come verificato.''),
     (''MessageReady'', ''Message encrypted.'',
       ''Messaggio cifrato.''),
     (''GroupMessageReady'', ''Group message encrypted.'',
       ''Messaggio di gruppo cifrato.''),
     (''Copied'', ''Block copied to the clipboard.'',
       ''Blocco copiato negli appunti.'')]"

definition strings_4 :: "(str \<times> string \<times> string) list" where
  "strings_4 = [
     (''EmptyMessage'', ''An empty message is not sent.'',
       ''Un messaggio vuoto non viene inviato.''),
     (''NothingToRead'', ''Nothing was pasted, so there is nothing to read.'',
       ''Non hai incollato niente, quindi non c'' @ [CHR 0x27] @ ''e'' @ [CHR 0x27] @ '' niente da leggere.''),
     (''HostDiskWarning'', ''warning: this looks like the computer'' @ [CHR 0x27] @ ''s own disk, not a removable drive.'',
       ''attenzione: sembra il disco del computer, non un'' @ [CHR 0x27] @ ''unita'' @ [CHR 0x27] @ '' rimovibile.''),
     (''PressEnter'', ''Press ENTER to carry on.'',
       ''Premi INVIO per andare avanti.''),
     (''MenuOpen'', ''Open'',
       ''Apri''),
     (''MenuSelect'', ''Select'',
       ''Seleziona''),
     (''MenuGroup'', ''Group message'',
       ''Messaggio di gruppo''),
     (''MenuAdd'', ''Add contact'',
       ''Aggiungi''),
     (''MenuCard'', ''My card'',
       ''La mia card''),
     (''MenuRead'', ''Read message'',
       ''Leggi''),
     (''MenuWrite'', ''Write'',
       ''Scrivi''),
     (''MenuVerify'', ''Mark as verified'',
       ''Segna verificato''),
     (''MenuPassphrase'', ''Change passphrase'',
       ''Cambia passphrase''),
     (''MenuLock'', ''Lock'',
       ''Blocca''),
     (''MenuQuit'', ''Quit'',
       ''Esci''),
     (''MenuUseDrive'', ''Use this drive'',
       ''Usa questa unita'' @ [CHR 0x27]),
     (''MenuTypePath'', ''Type a path'',
       ''Scrivi un percorso''),
     (''MenuNewIdentity'', ''Set up a new identity'',
       ''Crea una nuova identita'' @ [CHR 0x27]),
     (''MenuRestore'', ''Restore from words'',
       ''Ripristina dalle parole''),
     (''MenuBack'', ''Back'',
       ''Indietro'')]"

definition strings_5 :: "(str \<times> string \<times> string) list" where
  "strings_5 = [
     (''MenuCopy'', ''Copy block'',
       ''Copia blocco''),
     (''PassphrasePrompt'', ''Vault passphrase: '',
       ''Passphrase del vault: ''),
     (''PassphraseWordsPrompt'', ''Vault passphrase (one word per line; empty line or Ctrl-D to finish): '',
       ''Passphrase del vault (una parola per riga; riga vuota o Ctrl-D per finire): ''),
     (''PassphraseConfirm'', ''Press ENTER to confirm the change, Esc to cancel: '',
       ''Premi INVIO per confermare il cambio, Esc per annullare: ''),
     (''PassphraseCancelled'', ''Passphrase change cancelled. The vault is unchanged.'',
       ''Cambio di passphrase annullato. Il vault e'' @ [CHR 0x27] @ '' invariato.''),
     (''PassphraseHeading'', ''Vault passphrase (write it down, it is shown once):'',
       ''Passphrase del vault (scrivila, viene mostrata una volta sola):''),
     (''PassphraseNote'', ''These words unlock the vault. Type them back one per line, in order,'' @ [CHR 0x0A] @ ''when the vault asks for its passphrase. They are not the recovery'' @ [CHR 0x0A] @ ''phrase: they cannot restore contacts or sessions, and nobody -- not even'' @ [CHR 0x0A] @ ''this program -- can show them again.'',
       ''Queste parole aprono il vault. Riscrivile una per riga, in ordine,'' @ [CHR 0x0A] @ ''quando il vault chiede la passphrase. Non sono la frase di recupero:'' @ [CHR 0x0A] @ ''non riportano contatti o sessioni, e nessuno -- nemmeno questo'' @ [CHR 0x0A] @ ''programma -- puo'' @ [CHR 0x27] @ '' mostrarle di nuovo.''),
     (''PassphraseChanged'', ''Vault passphrase changed. The old passphrase no longer opens this vault.'',
       ''Passphrase del vault cambiata. La vecchia non apre piu'' @ [CHR 0x27] @ '' questo vault.''),
     (''RecoveryWordsPrompt'', ''The 12 recovery words, separated by spaces: '',
       ''Le 12 parole di recupero, separate da spazi: ''),
     (''WroteDownWords'', ''Press ENTER once you have written them down... '',
       ''Premi INVIO quando le hai scritte... ''),
     (''SettingUp'', ''Setting up a new identity on'',
       ''Sto creando una nuova identita'' @ [CHR 0x27] @ '' su''),
     (''RestoringIdentity'', ''Restoring an identity from its recovery words on'',
       ''Sto ripristinando un'' @ [CHR 0x27] @ ''identita'' @ [CHR 0x27] @ '' dalle sue parole su''),
     (''RestoreNote'', ''The words rebuild the identity only: this vault starts with no contacts and no chat history, because those only ever lived in the old vault.bin.'',
       ''Le parole ricostruiscono solo l'' @ [CHR 0x27] @ ''identita'' @ [CHR 0x27] @ '': questo vault parte senza contatti e senza cronologia, perche'' @ [CHR 0x27] @ '' quelli stavano solo nel vecchio vault.bin.''),
     (''RecoveryHeading'', ''Recovery phrase (12 words, BIP-39):'',
       ''Frase di recupero (12 parole, BIP-39):''),
     (''RecoveryNote'', ''Write these words down on paper, in order. They are the only'' @ [CHR 0x0A] @ ''way to recover the seed and identity if the drive is lost; a'' @ [CHR 0x0A] @ ''vault restored from them alone starts with no prekeys, no'' @ [CHR 0x0A] @ ''contacts and no sessions -- those live only in vault.bin.'',
       ''Scrivi queste parole su un foglio, in ordine. Sono l'' @ [CHR 0x27] @ ''unico modo'' @ [CHR 0x0A] @ ''per recuperare il seme e l'' @ [CHR 0x27] @ ''identita'' @ [CHR 0x27] @ '' se perdi l'' @ [CHR 0x27] @ ''unita'' @ [CHR 0x27] @ ''; un vault'' @ [CHR 0x0A] @ ''ricostruito solo da queste parte senza prekey, senza contatti e'' @ [CHR 0x0A] @ ''senza sessioni -- quelli stanno solo dentro vault.bin.''),
     (''VaultCreated'', ''Vault created. Unlocking it now.'',
       ''Vault creato. Ora lo apro.''),
     (''DerivingKey'', ''Deriving the vault key with Argon2id...'',
       ''Sto derivando la chiave del vault con Argon2id...''),
     (''MenuSendFile'', ''Send file'',
       ''Invia file''),
     (''FilePathPrompt'', ''Path to the file:'',
       ''Percorso del file:''),
     (''FilePathHint'', ''Type the full path to the file -- an image, a document, anything -- then press Enter.'',
       ''Scrivi il percorso completo del file -- un'' @ [CHR 0x27] @ ''immagine, un documento, qualsiasi cosa -- poi premi Invio.'')]"

definition strings_6 :: "(str \<times> string \<times> string) list" where
  "strings_6 = [
     (''KeysFilePick'', ''Enter confirm   Esc cancel   Ctrl-C quit'',
       ''Invio conferma   Esc annulla   Ctrl-C esci''),
     (''FileReady'', ''File encrypted.'',
       ''File cifrato.''),
     (''FileReceived'', ''File received from'',
       ''File ricevuto da''),
     (''FileHint'', ''Opens a temporary folder, removed when ratchet-usb closes.'',
       ''Apre una cartella temporanea, rimossa alla chiusura di ratchet-usb.''),
     (''FileType'', ''File type:'',
       ''Tipo di file:''),
     (''FileDangerous'', ''This file type can run code, so it is not opened. Inspect it yourself if you trust the sender.'',
       ''Questo tipo di file puo'' @ [CHR 0x27] @ '' eseguire codice, quindi non viene aperto. Controllalo tu stesso se ti fidi del mittente.''),
     (''MenuOpenFile'', ''Open folder'',
       ''Apri cartella''),
     (''KeysFile'', ''Enter open   Esc back   Ctrl-C quit'',
       ''Invio apri   Esc indietro   Ctrl-C esci''),
     (''FileOpenFailed'', ''Could not open the file (xdg-open not found).'',
       ''Non riesco ad aprire il file (xdg-open non trovato).''),
     (''FilePathRequired'', ''No file path was given.'',
       ''Non hai indicato il percorso di nessun file.'')]"

definition strings :: "(str \<times> string \<times> string) list" where
  "strings = strings_1 @ strings_2 @ strings_3 @ strings_4 @ strings_5 @ strings_6"

definition i18n_t :: "lang \<Rightarrow> str \<Rightarrow> string" where
  "i18n_t lang i = (case map_of strings i of None \<Rightarrow> []
     | Some (english, italian) \<Rightarrow> (case lang of It \<Rightarrow> italian | En \<Rightarrow> english))"

definition is_valid_choice :: "string \<Rightarrow> bool" where
  "is_valid_choice choice \<longleftrightarrow> choice = ''en'' \<or> choice = ''it''"

text \<open>\<open>detect\<close>; the environment is a function, an unset variable reads as the empty string.\<close>

definition detect_loop :: "string list \<Rightarrow> lang" where
  "detect_loop values = (case filter (\<lambda>v. v \<noteq> []) values of [] \<Rightarrow> En
     | v # _ \<Rightarrow> if take 2 v = ''it'' then It else En)"

definition detect :: "(string \<Rightarrow> string) \<Rightarrow> string \<Rightarrow> lang" where
  "detect env choice =
     (if choice = ''it'' then It else if choice = ''en'' then En
      else detect_loop [env ''LC_ALL'', env ''LANG''])"

end
