(* ===== verification/Interface.thy ===== *)
theory Interface
  imports Frame Keys Localised
begin

text \<open>
  \<open>ui_model.cpp\<close>: the terminal interface as a state machine without input or output. The driver tells it what
  the vault holds (\<open>show_...\<close>) and gives it keys (\<open>handle_key\<close>, which answers with the action it wants done);
  \<open>render\<close> draws the current screen into a frame. The buffers the code wipes are simply gone from the state.
\<close>

section \<open>State\<close>

datatype screen = Drive | DrivePath | Setup | Home | Contact | Compose | Block | Alias | Paste | Message | FilePick | File

datatype action =
    ANone | Quit | Lock | UseDrive | UseTypedPath | CreateIdentity | RestoreIdentity | ShowCard | ImportCard | Trust
  | ChangePassphrase | Send | Receive | SendFile | OpenFile | CopyBlock | PasteClipboard

record drive_entry =
  de_path :: string
  de_has_vault :: bool

datatype focus = Body | Menu

record menu_entry =
  me_label :: str
  me_code :: key_code
  me_shortcut :: char

record contact_row =
  row_alias :: string
  row_fingerprint :: string
  row_verified :: bool
  row_has_session :: bool

record group_recipient =
  rec_alias :: string
  rec_fingerprint :: string

record ui =
  ui_lang :: lang
  ui_screen :: screen
  ui_unlocked :: bool
  ui_drives :: "drive_entry list"
  ui_contacts :: "contact_row list"
  ui_drive_path :: string
  ui_fingerprint :: string
  ui_selected :: nat
  ui_contact_index :: nat
  ui_group_selected :: "bool list"
  ui_group_mode :: bool
  ui_group_recipients :: "group_recipient list"
  ui_focus :: focus
  ui_menu_index :: nat
  ui_text :: string
  ui_alias :: string
  ui_status :: string
  ui_status_style :: style
  ui_pasting_card :: bool
  ui_in_paste :: bool
  ui_pager :: "string list"
  ui_pager_heading :: string
  ui_pager_top :: nat
  ui_pager_notes :: "string list"
  ui_file_ext :: string
  ui_file_dangerous :: bool

text \<open>The constructor, \<open>Model(lang)\<close>.\<close>

definition new_ui :: "lang \<Rightarrow> ui" where
  "new_ui lang = \<lparr>ui_lang = lang, ui_screen = Drive, ui_unlocked = False, ui_drives = [], ui_contacts = [],
     ui_drive_path = [], ui_fingerprint = [], ui_selected = 0, ui_contact_index = 0, ui_group_selected = [],
     ui_group_mode = False, ui_group_recipients = [], ui_focus = Body, ui_menu_index = 0, ui_text = [], ui_alias = [],
     ui_status = [], ui_status_style = Normal, ui_pasting_card = False, ui_in_paste = False, ui_pager = [],
     ui_pager_heading = [], ui_pager_top = 0, ui_pager_notes = [], ui_file_ext = [], ui_file_dangerous = False\<rparr>"

definition ui_t :: "ui \<Rightarrow> str \<Rightarrow> string" where
  "ui_t m i = i18n_t (ui_lang m) i"

section \<open>From the driver\<close>

definition go :: "screen \<Rightarrow> ui \<Rightarrow> ui" where
  "go next m =
     (let m = m\<lparr>ui_screen := next\<rparr>;
          m = (if next \<noteq> Compose \<and> next \<noteq> FilePick then m\<lparr>ui_group_mode := False, ui_group_recipients := []\<rparr> else m);
          m = m\<lparr>ui_focus := Body, ui_menu_index := 0\<rparr>;
          m = (if next \<in> {Alias, Compose, Paste, DrivePath, FilePick} then m\<lparr>ui_text := []\<rparr> else m)
      in m\<lparr>ui_in_paste := False\<rparr>)"

definition show_drives :: "drive_entry list \<Rightarrow> ui \<Rightarrow> ui" where
  "show_drives drives m = go Drive (m\<lparr>ui_drives := drives, ui_selected := 0\<rparr>)"

definition show_drive_path :: "ui \<Rightarrow> ui" where
  "show_drive_path m = go DrivePath m"

definition show_setup :: "string \<Rightarrow> ui \<Rightarrow> ui" where
  "show_setup drive_path m = go Setup (m\<lparr>ui_drive_path := drive_path\<rparr>)"

definition same_contact :: "contact_row \<Rightarrow> contact_row \<Rightarrow> bool" where
  "same_contact a b \<longleftrightarrow> row_alias a = row_alias b \<and> row_fingerprint a = row_fingerprint b"

definition replace_contacts :: "contact_row list \<Rightarrow> bool \<Rightarrow> ui \<Rightarrow> ui" where
  "replace_contacts contacts preserve_group_selection m =
     (let next = (if preserve_group_selection
                  then map (\<lambda>i. i < length (ui_contacts m) \<and> i < length (ui_group_selected m) \<and>
                         ui_group_selected m ! i \<and> same_contact (ui_contacts m ! i) (contacts ! i)) [0..<length contacts]
                  else replicate (length contacts) False)
      in m\<lparr>ui_contacts := contacts, ui_group_selected := next\<rparr>)"

definition show_home :: "string \<Rightarrow> string \<Rightarrow> contact_row list \<Rightarrow> ui \<Rightarrow> ui" where
  "show_home drive_path fp contacts m =
     (let m = replace_contacts contacts False (m\<lparr>ui_drive_path := drive_path, ui_fingerprint := fp\<rparr>)
      in go Home (m\<lparr>ui_selected := 0, ui_unlocked := True\<rparr>))"

definition show_contacts :: "contact_row list \<Rightarrow> ui \<Rightarrow> ui" where
  "show_contacts contacts m =
     (let m = replace_contacts contacts True m
      in if ui_selected m \<ge> length (ui_contacts m)
         then m\<lparr>ui_selected := (if ui_contacts m = [] then 0 else length (ui_contacts m) - 1)\<rparr> else m)"

definition group_recipient_list :: "ui \<Rightarrow> string" where
  "group_recipient_list m =
     foldl (\<lambda>out r. (if out \<noteq> [] then out @ '', '' else out) @ rec_alias r) [] (ui_group_recipients m)"

definition show_block :: "string \<Rightarrow> string \<Rightarrow> ui \<Rightarrow> ui" where
  "show_block heading block m =
     go Block (m\<lparr>ui_pager_heading := heading, ui_pager_notes := [], ui_pager := wrap_text block 4096, ui_pager_top := 0\<rparr>)"

definition notes_for :: "ui \<Rightarrow> bool \<Rightarrow> bool \<Rightarrow> string list" where
  "notes_for m session_opened unverified =
     (if session_opened then [ui_t m ''SessionOpened''] else []) @ (if unverified then [ui_t m ''WarnUnverified''] else [])"

definition show_message :: "string \<Rightarrow> string \<Rightarrow> bool \<Rightarrow> bool \<Rightarrow> string \<Rightarrow> ui \<Rightarrow> ui" where
  "show_message sender body session_opened unverified group_id m =
     (let heading = (if group_id = [] then ui_t m ''MessageFrom'' @ '' '' @ sender
                     else ui_t m ''GroupMessageFrom'' @ '' '' @ sender @ '' ('' @ group_id @ '')'')
      in go Message (m\<lparr>ui_pager_heading := heading, ui_pager_notes := notes_for m session_opened unverified,
           ui_pager := wrap_text body 76, ui_pager_top := 0\<rparr>))"

definition show_file :: "string \<Rightarrow> string \<Rightarrow> bool \<Rightarrow> bool \<Rightarrow> bool \<Rightarrow> ui \<Rightarrow> ui" where
  "show_file sender ext dangerous session_opened unverified m =
     go File (m\<lparr>ui_pager_heading := ui_t m ''FileReceived'' @ '' '' @ sender,
       ui_pager_notes := notes_for m session_opened unverified, ui_file_ext := ext, ui_file_dangerous := dangerous,
       ui_pager := [], ui_pager_top := 0\<rparr>)"

definition set_status :: "string \<Rightarrow> style \<Rightarrow> ui \<Rightarrow> ui" where
  "set_status s st m = m\<lparr>ui_status := s, ui_status_style := st\<rparr>"

definition set_status_str :: "str \<Rightarrow> style \<Rightarrow> ui \<Rightarrow> ui" where
  "set_status_str i st m = m\<lparr>ui_status := ui_t m i, ui_status_style := st\<rparr>"

definition forget :: "ui \<Rightarrow> ui" where
  "forget m = go Drive (m\<lparr>ui_text := [], ui_pager := [], ui_pager_notes := [], ui_pager_heading := [], ui_pager_top := 0,
     ui_file_ext := [], ui_file_dangerous := False, ui_contacts := [], ui_group_selected := [],
     ui_group_recipients := [], ui_group_mode := False, ui_fingerprint := [], ui_alias := [], ui_selected := 0,
     ui_contact_index := 0, ui_in_paste := False, ui_pasting_card := False, ui_unlocked := False,
     ui_status_style := Normal\<rparr>)"

definition clear_text :: "ui \<Rightarrow> ui" where "clear_text m = m\<lparr>ui_text := []\<rparr>"

definition insert_text :: "string \<Rightarrow> ui \<Rightarrow> ui" where "insert_text utf8 m = m\<lparr>ui_text := ui_text m @ utf8\<rparr>"

definition paste_text :: "string \<Rightarrow> ui \<Rightarrow> ui" where "paste_text utf8 m = insert_text utf8 m"

fun join_lines :: "string list \<Rightarrow> string" where
  "join_lines [] = []"
| "join_lines [l] = l"
| "join_lines (l # ls) = l @ [CHR 0x0A] @ join_lines ls"

definition pager_text :: "ui \<Rightarrow> string" where "pager_text m = join_lines (ui_pager m)"

definition selected_drive :: "ui \<Rightarrow> drive_entry option" where
  "selected_drive m =
     (if ui_screen m \<noteq> Drive \<or> ui_selected m \<ge> length (ui_drives m) then None else Some (ui_drives m ! ui_selected m))"

definition selected_contact :: "ui \<Rightarrow> contact_row option" where
  "selected_contact m =
     (let index = (if ui_screen m = Home then ui_selected m else ui_contact_index m)
      in if index \<ge> length (ui_contacts m) then None else Some (ui_contacts m ! index))"

section \<open>Keys\<close>

definition move_selection :: "int \<Rightarrow> nat \<Rightarrow> ui \<Rightarrow> ui" where
  "move_selection delta count m =
     (if count = 0 then m\<lparr>ui_selected := 0\<rparr>
      else if delta < 0 then m\<lparr>ui_selected := (if ui_selected m = 0 then count - 1 else ui_selected m - 1)\<rparr>
      else m\<lparr>ui_selected := (if ui_selected m + 1 \<ge> count then 0 else ui_selected m + 1)\<rparr>)"

fun cut_at :: "string \<Rightarrow> nat \<Rightarrow> nat" where
  "cut_at s 0 = 0"
| "cut_at s (Suc n) = (if is_continuation (s ! Suc n) then cut_at s n else Suc n)"

definition backspace :: "ui \<Rightarrow> ui" where
  "backspace m = (if ui_text m = [] then m
     else m\<lparr>ui_text := take (cut_at (ui_text m) (length (ui_text m) - 1)) (ui_text m)\<rparr>)"

definition is_key :: "key \<Rightarrow> char \<Rightarrow> bool" where
  "is_key k c \<longleftrightarrow> k_code k = KChar \<and> k_text k = [c]"

text \<open>The mark of the selected contact.\<close>

definition sized_marks :: "ui \<Rightarrow> ui" where
  "sized_marks m = (if length (ui_group_selected m) \<noteq> length (ui_contacts m)
     then m\<lparr>ui_group_selected := replicate (length (ui_contacts m)) False\<rparr> else m)"

definition toggle_mark :: "ui \<Rightarrow> ui" where
  "toggle_mark m =
     (if ui_selected m \<ge> length (ui_contacts m) then m
      else if \<not> row_verified (ui_contacts m ! ui_selected m) then set_status_str ''GroupNeedsVerified'' Warn m
      else let m = sized_marks m;
               m = m\<lparr>ui_group_selected := (ui_group_selected m)[ui_selected m := \<not> ui_group_selected m ! ui_selected m]\<rparr>;
               picked_count = length (filter id (ui_group_selected m))
           in set_status (to_string picked_count @ '' '' @ ui_t m ''GroupSelected'')
                (if picked_count = 0 then Dim else Good) m)"

text \<open>The marked contacts; \<open>None\<close> if one of them is not verified.\<close>

fun pick_group :: "bool list \<Rightarrow> contact_row list \<Rightarrow> group_recipient list option" where
  "pick_group (mark # marks) (c # cs) =
     (if mark then
        (if \<not> row_verified c then None
         else map_option ((#) \<lparr>rec_alias = row_alias c, rec_fingerprint = row_fingerprint c\<rparr>) (pick_group marks cs))
      else pick_group marks cs)"
| "pick_group _ _ = Some []"

definition start_group :: "ui \<Rightarrow> ui" where
  "start_group m =
     (let m = sized_marks m
      in case pick_group (ui_group_selected m) (ui_contacts m) of
           None \<Rightarrow> set_status_str ''GroupNeedsVerified'' Warn m
         | Some picked \<Rightarrow>
             if length picked < 2 then set_status_str ''GroupNeedsTwo'' Warn m
             else go Compose (m\<lparr>ui_group_mode := True, ui_group_recipients := picked\<rparr>))"

definition key_in_drive :: "key \<Rightarrow> ui \<Rightarrow> action \<times> ui" where
  "key_in_drive k m =
     (if k_code k = KEnter \<and> ui_drives m \<noteq> [] then (UseDrive, m)
      else if is_key k (CHR ''p'') then (ANone, go DrivePath m)
      else if is_key k (CHR ''q'') then (Quit, m)
      else (ANone, m))"

definition key_in_home :: "key \<Rightarrow> ui \<Rightarrow> action \<times> ui" where
  "key_in_home k m =
     (if k_code k = KEnter \<and> ui_contacts m \<noteq> [] then (ANone, go Contact (m\<lparr>ui_contact_index := ui_selected m\<rparr>))
      else if is_key k (CHR '' '') then (ANone, toggle_mark m)
      else if is_key k (CHR ''g'') then (ANone, start_group m)
      else if is_key k (CHR ''a'') then (ANone, go Alias m)
      else if is_key k (CHR ''c'') then (ShowCard, m)
      else if is_key k (CHR ''r'') then (ANone, go Paste (m\<lparr>ui_pasting_card := False\<rparr>))
      else if is_key k (CHR ''l'') then (Lock, m)
      else if is_key k (CHR ''p'') then (ChangePassphrase, m)
      else if is_key k (CHR ''q'') then (Quit, m)
      else (ANone, m))"

definition key_in_list :: "key \<Rightarrow> ui \<Rightarrow> action \<times> ui" where
  "key_in_list k m =
     (let count = (if ui_screen m = Drive then length (ui_drives m) else length (ui_contacts m))
      in if k_code k = KUp then (ANone, move_selection (- 1) count m)
         else if k_code k = KDown then (ANone, move_selection 1 count m)
         else if ui_screen m = Drive then key_in_drive k m
         else key_in_home k m)"

definition enter_in_text :: "ui \<Rightarrow> action \<times> ui" where
  "enter_in_text m =
     (if ui_screen m = DrivePath then (if ui_text m = [] then ANone else UseTypedPath, m)
      else if ui_screen m = FilePick then (if ui_text m = [] then ANone else SendFile, m)
      else if ui_screen m = Alias then
        (if ui_text m = [] then (ANone, m)
         else (ANone, go Paste (m\<lparr>ui_alias := ui_text m, ui_pasting_card := True\<rparr>)))
      else (ANone, insert_text [CHR 0x0A] m))"

definition leave_text :: "ui \<Rightarrow> ui" where
  "leave_text m =
     (let m = clear_text m
      in if ui_screen m = FilePick then go Compose m else go (if ui_unlocked m then Home else Drive) m)"

definition key_in_text :: "key \<Rightarrow> ui \<Rightarrow> action \<times> ui" where
  "key_in_text k m =
     (case k_code k of
        KPasteBegin \<Rightarrow> (ANone, m\<lparr>ui_in_paste := True\<rparr>)
      | KPasteEnd \<Rightarrow> (ANone, m\<lparr>ui_in_paste := False\<rparr>)
      | KChar \<Rightarrow> (ANone, insert_text (k_text k) m)
      | KBackspace \<Rightarrow> (ANone, backspace m)
      | KCtrlU \<Rightarrow> (ANone, clear_text m)
      | KCtrlV \<Rightarrow> (PasteClipboard, m)
      | KEnter \<Rightarrow> enter_in_text m
      | KCtrlP \<Rightarrow> (ANone, if ui_screen m = Compose then go FilePick m else m)
      | KCtrlD \<Rightarrow> (if ui_screen m = Compose then (Send, m)
                 else if ui_screen m = Paste then (if ui_pasting_card m then ImportCard else Receive, m)
                 else (ANone, m))
      | KEscape \<Rightarrow> (ANone, leave_text m)
      | _ \<Rightarrow> (ANone, m))"

definition close_pager :: "ui \<Rightarrow> ui" where
  "close_pager m = go Home (m\<lparr>ui_pager := [], ui_pager_notes := [], ui_pager_heading := [], ui_pager_top := 0\<rparr>)"

definition key_in_pager :: "key \<Rightarrow> ui \<Rightarrow> action \<times> ui" where
  "key_in_pager k m =
     (let last = (if ui_pager m = [] then 0 else length (ui_pager m) - 1)
      in case k_code k of
           KUp \<Rightarrow> (ANone, if ui_pager_top m > 0 then m\<lparr>ui_pager_top := ui_pager_top m - 1\<rparr> else m)
         | KDown \<Rightarrow> (ANone, if ui_pager_top m < last then m\<lparr>ui_pager_top := ui_pager_top m + 1\<rparr> else m)
         | KPageUp \<Rightarrow> (ANone, m\<lparr>ui_pager_top := (if ui_pager_top m > 10 then ui_pager_top m - 10 else 0)\<rparr>)
         | KPageDown \<Rightarrow> (ANone, m\<lparr>ui_pager_top := min last (ui_pager_top m + 10)\<rparr>)
         | KEscape \<Rightarrow> (ANone, close_pager m)
         | KEnter \<Rightarrow> (ANone, close_pager m)
         | KChar \<Rightarrow> if ui_screen m = Block \<and> k_text k = ''y'' then (CopyBlock, m)
                    else (ANone, if k_text k = ''q'' then close_pager m else m)
         | _ \<Rightarrow> (ANone, m))"

section \<open>The menu\<close>

definition ch :: "str \<Rightarrow> char \<Rightarrow> menu_entry" where
  "ch label c = \<lparr>me_label = label, me_code = KChar, me_shortcut = c\<rparr>"

definition code_entry :: "str \<Rightarrow> key_code \<Rightarrow> menu_entry" where
  "code_entry label c = \<lparr>me_label = label, me_code = c, me_shortcut = CHR 0x00\<rparr>"

definition menu :: "ui \<Rightarrow> menu_entry list" where
  "menu m =
     (case ui_screen m of
        Drive \<Rightarrow> (if ui_drives m \<noteq> [] then [code_entry ''MenuUseDrive'' KEnter] else []) @
          [ch ''MenuTypePath'' (CHR ''p''), ch ''MenuQuit'' (CHR ''q'')]
      | Setup \<Rightarrow> [ch ''MenuNewIdentity'' (CHR ''n''), ch ''MenuRestore'' (CHR ''r''), code_entry ''MenuBack'' KEscape]
      | Home \<Rightarrow> (if ui_contacts m \<noteq> [] then [code_entry ''MenuOpen'' KEnter] else []) @
          [ch ''MenuAdd'' (CHR ''a''), ch ''MenuSelect'' (CHR '' ''), ch ''MenuGroup'' (CHR ''g''),
           ch ''MenuCard'' (CHR ''c''), ch ''MenuRead'' (CHR ''r''), ch ''MenuPassphrase'' (CHR ''p''),
           ch ''MenuLock'' (CHR ''l''), ch ''MenuQuit'' (CHR ''q'')]
      | Contact \<Rightarrow> [ch ''MenuWrite'' (CHR ''w'')] @
          (case selected_contact m of
             None \<Rightarrow> []
           | Some contact \<Rightarrow> if \<not> row_verified contact then [ch ''MenuVerify'' (CHR ''t'')] else []) @
          [code_entry ''MenuSendFile'' KCtrlP, code_entry ''MenuBack'' KEscape]
      | Block \<Rightarrow> [ch ''MenuCopy'' (CHR ''y''), code_entry ''MenuBack'' KEscape]
      | Message \<Rightarrow> [code_entry ''MenuBack'' KEscape]
      | File \<Rightarrow> [code_entry ''MenuOpenFile'' KEnter, code_entry ''MenuBack'' KEscape]
      | Compose \<Rightarrow> [code_entry ''MenuSendFile'' KCtrlP, code_entry ''MenuBack'' KEscape]
      | _ \<Rightarrow> [])"

definition menu_selection :: "nat \<Rightarrow> ui \<Rightarrow> nat" where
  "menu_selection count m = (if count = 0 then 0 else if ui_menu_index m < count then ui_menu_index m else count - 1)"

section \<open>Dispatch\<close>

definition key_in_file :: "key \<Rightarrow> ui \<Rightarrow> action \<times> ui" where
  "key_in_file k m =
     (if k_code k = KEnter then (OpenFile, m)
      else (ANone, if k_code k = KEscape \<or> is_key k (CHR ''q'') then go Home m else m))"

definition key_in_setup :: "key \<Rightarrow> ui \<Rightarrow> action \<times> ui" where
  "key_in_setup k m =
     (if k_code k = KEscape then (ANone, go Drive m)
      else if is_key k (CHR ''n'') then (CreateIdentity, m)
      else if is_key k (CHR ''r'') then (RestoreIdentity, m)
      else (ANone, m))"

definition key_in_contact :: "key \<Rightarrow> ui \<Rightarrow> action \<times> ui" where
  "key_in_contact k m =
     (if k_code k = KEscape then (ANone, go Home m)
      else if is_key k (CHR ''w'') then (ANone, go Compose m)
      else if k_code k = KCtrlP then (ANone, go FilePick m)
      else if is_key k (CHR ''t'') then (Trust, m)
      else (ANone, m))"

definition dispatch :: "key \<Rightarrow> ui \<Rightarrow> action \<times> ui" where
  "dispatch k m =
     (case ui_screen m of
        Drive \<Rightarrow> key_in_list k m
      | Home \<Rightarrow> key_in_list k m
      | DrivePath \<Rightarrow> key_in_text k m
      | Alias \<Rightarrow> key_in_text k m
      | Compose \<Rightarrow> key_in_text k m
      | Paste \<Rightarrow> key_in_text k m
      | FilePick \<Rightarrow> key_in_text k m
      | Block \<Rightarrow> key_in_pager k m
      | Message \<Rightarrow> key_in_pager k m
      | File \<Rightarrow> key_in_file k m
      | Setup \<Rightarrow> key_in_setup k m
      | Contact \<Rightarrow> key_in_contact k m)"

definition synthetic :: "menu_entry \<Rightarrow> key" where
  "synthetic item = \<lparr>k_code = me_code item, k_text = (if me_code item = KChar then [me_shortcut item] else [])\<rparr>"

definition menu_left :: "nat \<Rightarrow> ui \<Rightarrow> ui" where
  "menu_left n m =
     (if ui_focus m \<noteq> Menu then m\<lparr>ui_focus := Menu, ui_menu_index := n - 1\<rparr>
      else let at = menu_selection n m in m\<lparr>ui_menu_index := (if at = 0 then n - 1 else at - 1)\<rparr>)"

definition menu_right :: "nat \<Rightarrow> ui \<Rightarrow> ui" where
  "menu_right n m =
     (if ui_focus m \<noteq> Menu then m\<lparr>ui_focus := Menu, ui_menu_index := 0\<rparr>
      else m\<lparr>ui_menu_index := (menu_selection n m + 1) mod n\<rparr>)"

definition menu_key :: "menu_entry list \<Rightarrow> key \<Rightarrow> ui \<Rightarrow> action \<times> ui" where
  "menu_key items k m =
     (case k_code k of
        KTab \<Rightarrow> (ANone, m\<lparr>ui_focus := (if ui_focus m = Menu then Body else Menu)\<rparr>)
      | KLeft \<Rightarrow> (ANone, menu_left (length items) m)
      | KRight \<Rightarrow> (ANone, menu_right (length items) m)
      | KUp \<Rightarrow> dispatch k (m\<lparr>ui_focus := Body\<rparr>)
      | KDown \<Rightarrow> dispatch k (m\<lparr>ui_focus := Body\<rparr>)
      | KEnter \<Rightarrow> (if ui_focus m = Menu then dispatch (synthetic (items ! menu_selection (length items) m)) m
                 else dispatch k m)
      | _ \<Rightarrow> dispatch k m)"

definition handle_key :: "key \<Rightarrow> ui \<Rightarrow> action \<times> ui" where
  "handle_key k m =
     (if k_code k = KCtrlC then (Quit, m)
      else if k_code k = KNone then (ANone, m)
      else let m = m\<lparr>ui_status := [], ui_status_style := Normal\<rparr>; items = menu m
           in if items \<noteq> [] then menu_key items k m else dispatch k m)"

end
