(* ===== verification/Drawing.thy ===== *)
theory Drawing
  imports Interface
begin

text \<open>
  The second half of \<open>ui_model.cpp\<close>: \<open>render\<close> draws the current screen into a frame, header, body, menu and footer.
  A drawing is a function on frames; \<open>before\<close> is the number of lines when the body begins.
\<close>

section \<open>Pieces\<close>

definition kProgram :: string where "kProgram = ''ratchet-usb''"
definition kProgramVersion :: string where "kProgramVersion = ''0.5.0-dev''"
definition kPlainHeaderRows :: nat where "kPlainHeaderRows = 2"
definition kBannerExtraRows :: nat where "kBannerExtraRows = 2"
definition kFooterRows :: nat where "kFooterRows = 3"
definition kBannerMinHeight :: nat where "kBannerMinHeight = 20"
definition kIndent :: string where "kIndent = ''  ''"

definition indent :: "string \<Rightarrow> string" where "indent s = kIndent @ s"

definition rule_line :: "nat \<Rightarrow> string" where "rule_line width = replicate width (CHR ''-'')"

definition banner :: "string list" where
  "banner = [
     '' ____       _       _          _         _   _ ____  ____  '',
     ''|  _ '' @ [CHR 0x5C] @ '' __ _| |_ ___| |__   ___| |_      | | | / ___|| __ ) '',
     ''| |_) / _` | __/ __| '' @ [CHR 0x27] @ ''_ '' @ [CHR 0x5C] @ '' / _ '' @ [CHR 0x5C] @ '' __|_____| | | '' @ [CHR 0x5C] @ ''___ '' @ [CHR 0x5C] @ ''|  _ '' @ [CHR 0x5C] @ '' '',
     ''|  _ < (_| | || (__| | | |  __/ ||_____|| |_| |___) | |_) |'',
     ''|_| '' @ [CHR 0x5C] @ ''_'' @ [CHR 0x5C] @ ''__,_|'' @ [CHR 0x5C] @ ''__'' @ [CHR 0x5C] @ ''___|_| |_|'' @ [CHR 0x5C] @ ''___|'' @ [CHR 0x5C] @ ''__|      '' @ [CHR 0x5C] @ ''___/|____/|____/ '']"

definition banner_width :: nat where "banner_width = length (hd banner)"

definition sp :: "string \<Rightarrow> style \<Rightarrow> span" where "sp s st = \<lparr>sp_text = s, sp_style = st\<rparr>"

text \<open>A sequence of drawings, one after the other.\<close>

definition draw_all :: "(frame \<Rightarrow> frame) list \<Rightarrow> frame \<Rightarrow> frame" where
  "draw_all ds f = fold (\<lambda>d f. d f) ds f"

definition say :: "ui \<Rightarrow> str \<Rightarrow> style \<Rightarrow> frame \<Rightarrow> frame" where
  "say m i st = line (indent (ui_t m i)) st"

definition footer_keys :: "ui \<Rightarrow> string" where
  "footer_keys m = ui_t m (case ui_screen m of
       Drive \<Rightarrow> ''KeysDrive'' | DrivePath \<Rightarrow> ''KeysText'' | Alias \<Rightarrow> ''KeysText'' | Setup \<Rightarrow> ''KeysSetup''
     | Home \<Rightarrow> ''KeysHome'' | Contact \<Rightarrow> ''KeysContact'' | Compose \<Rightarrow> ''KeysCompose'' | Paste \<Rightarrow> ''KeysPaste''
     | Block \<Rightarrow> ''KeysBlock'' | Message \<Rightarrow> ''KeysMessage'' | FilePick \<Rightarrow> ''KeysFilePick'' | File \<Rightarrow> ''KeysFile'')"

section \<open>Header\<close>

definition show_banner :: "ui \<Rightarrow> frame \<Rightarrow> bool" where
  "show_banner m f \<longleftrightarrow> \<not> ui_unlocked m \<and> fr_width f \<ge> banner_width + length kIndent * 2 \<and> fr_height f \<ge> kBannerMinHeight"

definition header_rows :: "ui \<Rightarrow> frame \<Rightarrow> nat" where
  "header_rows m f = (if show_banner m f then length banner + kBannerExtraRows + 1 else kPlainHeaderRows)"

definition title :: string where "title = kProgram @ '' '' @ kProgramVersion"

definition title_row :: "ui \<Rightarrow> nat \<Rightarrow> span list" where
  "title_row m width =
     (if ui_drive_path m \<noteq> [] \<and> ui_unlocked m
      then let room = (if width > length title + 4 then width - length title - 4 else 0);
               path = truncate_to_width (ui_drive_path m) room;
               used = length title + display_width path + 4
           in [sp (indent title) Title, sp (replicate (if width > used then width - used else 1) (CHR '' '')) Normal,
               sp path Dim]
      else [sp (indent title) Title, sp (''  -  '' @ ui_t m ''Subtitle'') Dim])"

definition render_header :: "ui \<Rightarrow> frame \<Rightarrow> frame" where
  "render_header m f =
     (if show_banner m f
      then draw_all (map (\<lambda>art. line (indent art) Title) banner @
             [say m ''Subtitle'' Dim, blank, line (rule_line (fr_width f)) Dim]) f
      else draw_all [spans (title_row m (fr_width f)), line (rule_line (fr_width f)) Dim] f)"

section \<open>Bodies\<close>

definition inner :: "frame \<Rightarrow> nat" where
  "inner f = (if fr_width f > length kIndent * 2 then fr_width f - length kIndent * 2 else 1)"

text \<open>The rows of a list around the selected one: \<open>[top, top + room)\<close>.\<close>

definition window :: "nat \<Rightarrow> nat \<Rightarrow> nat \<Rightarrow> nat list" where
  "window sel room n = (let top = (if sel \<ge> room then sel - room + 1 else 0) in [top ..< min n (top + room)])"

definition drive_row :: "ui \<Rightarrow> nat \<Rightarrow> frame \<Rightarrow> frame" where
  "drive_row m i =
     (let drive = ui_drives m ! i;
          badge = ''   ['' @ ui_t m (if de_has_vault drive then ''DriveHasVault'' else ''DriveEmpty'') @ '']''
      in if i = ui_selected m then highlight (kIndent @ de_path drive @ badge)
         else spans [sp (kIndent @ de_path drive) Normal, sp badge (if de_has_vault drive then Good else Dim)])"

definition body_drive :: "ui \<Rightarrow> nat \<Rightarrow> frame \<Rightarrow> frame" where
  "body_drive m rows =
     (if ui_drives m = [] then draw_all [say m ''NoDrivesFound'' Normal, blank, say m ''PressPForPath'' Dim]
      else draw_all ([say m ''ChooseDrive'' Accent, blank] @
        map (drive_row m) (window (ui_selected m) (if rows > 3 then rows - 3 else 1) (length (ui_drives m)))))"

definition body_drive_path :: "ui \<Rightarrow> frame \<Rightarrow> frame" where
  "body_drive_path m = draw_all [say m ''TypePath'' Accent, blank, line (indent (''> '' @ ui_text m)) Normal]"

definition body_setup :: "ui \<Rightarrow> frame \<Rightarrow> frame" where
  "body_setup m = draw_all [line (indent (ui_drive_path m)) Accent, blank, say m ''NoVaultHere'' Normal, blank,
     say m ''SetupNew'' Dim, say m ''SetupRestore'' Dim]"

definition trust_badge :: "ui \<Rightarrow> contact_row \<Rightarrow> string" where
  "trust_badge m c = ''['' @ ui_t m (if row_verified c then ''Verified'' else ''Unverified'') @ '']''"

definition session_badge :: "ui \<Rightarrow> contact_row \<Rightarrow> string" where
  "session_badge m c = '' ['' @ ui_t m (if row_has_session c then ''HasSession'' else ''NoSession'') @ '']''"

definition marked :: "ui \<Rightarrow> nat \<Rightarrow> bool" where
  "marked m i \<longleftrightarrow> i < length (ui_group_selected m) \<and> ui_group_selected m ! i"

definition home_row :: "ui \<Rightarrow> nat \<Rightarrow> frame \<Rightarrow> frame" where
  "home_row m i =
     (let c = ui_contacts m ! i; mark = (if marked m i then ''[x] '' else ''[ ] '')
      in if i = ui_selected m
         then highlight (kIndent @ mark @ trust_badge m c @ session_badge m c @ '' '' @ row_alias c)
         else spans [sp (kIndent @ mark) (if marked m i then Accent else Dim),
                sp (trust_badge m c) (if row_verified c then Good else Bad), sp (session_badge m c) Dim,
                sp ('' '' @ row_alias c) Normal])"

definition body_home :: "ui \<Rightarrow> nat \<Rightarrow> frame \<Rightarrow> frame" where
  "body_home m rows = draw_all ([say m ''YourFingerprint'' Dim, line (indent (ui_fingerprint m)) Accent, blank,
       say m ''Contacts'' Dim] @
     (if ui_contacts m = [] then [blank, say m ''NoContacts'' Normal, say m ''NoContactsHint'' Dim]
      else [say m ''GroupSelectHint'' Dim] @
        map (home_row m) (window (ui_selected m) (if rows > 6 then rows - 6 else 1) (length (ui_contacts m)))))"

definition body_contact :: "ui \<Rightarrow> frame \<Rightarrow> frame" where
  "body_contact m f =
     (case selected_contact m of None \<Rightarrow> f
      | Some c \<Rightarrow> draw_all ([spans [sp kIndent Normal, sp (trust_badge m c) (if row_verified c then Good else Bad),
            sp ('' '' @ row_alias c) Normal], blank, say m ''Fingerprint'' Dim] @
          map (\<lambda>l. line (indent l) Accent) (wrap_text (row_fingerprint c) (inner f)) @
          [blank] @ (if \<not> row_verified c then [say m ''VerifyHint'' Warn] else [])) f)"

definition compose_heading :: "ui \<Rightarrow> nat \<Rightarrow> (frame \<Rightarrow> frame) list" where
  "compose_heading m inr =
     (if ui_group_mode m
      then map (\<lambda>l. line (indent l) Normal) (wrap_text (ui_t m ''WritingToGroup'' @ '' '' @ group_recipient_list m) inr) @
           [say m ''ComposeGroupHint'' Dim]
      else [line (indent (ui_t m ''WritingTo'' @ '' '' @
              (case selected_contact m of None \<Rightarrow> [] | Some c \<Rightarrow> row_alias c))) Normal, say m ''ComposeHint'' Dim])"

definition body_compose :: "ui \<Rightarrow> nat \<Rightarrow> frame \<Rightarrow> frame" where
  "body_compose m rows f0 =
     (let f = draw_all (compose_heading m (inner f0) @ [blank]) f0;
          lines = wrap_text (ui_text m) (inner f0);
          used = length (fr_lines f) - length (fr_lines f0);
          room = (if rows > used then rows - used else 1);
          top = (if length lines > room then length lines - room else 0)
      in draw_all (map (\<lambda>l. line (indent l) Normal) (drop top lines)) f)"

definition body_alias :: "ui \<Rightarrow> frame \<Rightarrow> frame" where
  "body_alias m = draw_all [say m ''AliasPrompt'' Accent, blank, line (indent (''> '' @ ui_text m)) Normal]"

definition body_paste :: "ui \<Rightarrow> frame \<Rightarrow> frame" where
  "body_paste m = draw_all [say m (if ui_pasting_card m then ''PasteCard'' else ''PasteBlock'') Accent, blank,
     if ui_text m = [] then say m ''NothingPasted'' Dim
     else line (indent (to_string (length (ui_text m)) @ '' '' @ ui_t m ''CharsReceived'')) Normal]"

definition note_line :: "ui \<Rightarrow> string \<Rightarrow> frame \<Rightarrow> frame" where
  "note_line m note = line (indent note) (if note = ui_t m ''WarnUnverified'' then Bad else Dim)"

definition body_pager :: "ui \<Rightarrow> nat \<Rightarrow> frame \<Rightarrow> frame" where
  "body_pager m rows f0 =
     (let f = draw_all ([line (indent (ui_pager_heading m)) Accent] @ map (note_line m) (ui_pager_notes m) @
            (if ui_screen m = Block then [say m ''CopyBlock'' Dim] else []) @ [blank]) f0;
          used = length (fr_lines f) - length (fr_lines f0);
          room = (if rows > used then rows - used else 1)
      in draw_all (map (\<lambda>l. line (indent l) Normal) (take room (drop (ui_pager_top m) (ui_pager m)))) f)"

definition body_file_pick :: "ui \<Rightarrow> frame \<Rightarrow> frame" where
  "body_file_pick m = draw_all [say m ''FilePathPrompt'' Accent, blank, say m ''FilePathHint'' Dim, blank,
     line (indent (''> '' @ ui_text m)) Normal]"

definition body_file :: "ui \<Rightarrow> frame \<Rightarrow> frame" where
  "body_file m = draw_all ([line (indent (ui_pager_heading m)) Accent] @ map (note_line m) (ui_pager_notes m) @
     [blank, line (indent (ui_t m ''FileType'' @ '' .'' @ ui_file_ext m)) Normal] @
     (if ui_file_dangerous m then [say m ''FileDangerous'' Bad] else []) @ [blank, say m ''FileHint'' Normal])"

definition body_of :: "ui \<Rightarrow> nat \<Rightarrow> frame \<Rightarrow> frame" where
  "body_of m rows = (case ui_screen m of
       Drive \<Rightarrow> body_drive m rows | DrivePath \<Rightarrow> body_drive_path m | Setup \<Rightarrow> body_setup m
     | Home \<Rightarrow> body_home m rows | Contact \<Rightarrow> body_contact m | Compose \<Rightarrow> body_compose m rows
     | Alias \<Rightarrow> body_alias m | Paste \<Rightarrow> body_paste m | Block \<Rightarrow> body_pager m rows | Message \<Rightarrow> body_pager m rows
     | FilePick \<Rightarrow> body_file_pick m | File \<Rightarrow> body_file m)"

definition render_body :: "ui \<Rightarrow> nat \<Rightarrow> frame \<Rightarrow> frame" where
  "render_body m rows f0 =
     (let f = body_of m rows f0
      in draw_all (replicate (rows - (length (fr_lines f) - length (fr_lines f0))) blank) f)"

section \<open>Menu and footer\<close>

definition menu_label :: "ui \<Rightarrow> menu_entry \<Rightarrow> string" where
  "menu_label m item = ''[ '' @ ui_t m (me_label item) @ '' ]''"

text \<open>The loop of \<open>menu_rows\<close>: finished rows, the row being filled, its width, the index of the entry.\<close>

fun menu_loop :: "ui \<Rightarrow> nat \<Rightarrow> nat \<Rightarrow> nat \<Rightarrow> span list \<Rightarrow> nat \<Rightarrow> menu_entry list \<Rightarrow> span list list" where
  "menu_loop m inr sel i row used [] = [row]"
| "menu_loop m inr sel i row used (item # items) =
     (let label = menu_label m item; active = (ui_focus m = Menu \<and> i = sel);
          entry = [sp label (if active then MenuActive else Normal), sp '' '' Normal]
      in if used > 0 \<and> used + length label + 1 > inr
         then row # menu_loop m inr sel (i + 1) ([sp kIndent Normal] @ entry) (length label + 1) items
         else menu_loop m inr sel (i + 1) (row @ entry) (used + length label + 1) items)"

definition menu_rows :: "ui \<Rightarrow> nat \<Rightarrow> span list list" where
  "menu_rows m width =
     (let items = menu m;
          inr = (if width > length kIndent * 2 then width - length kIndent * 2 else 1)
      in if items = [] then []
         else menu_loop m inr (menu_selection (length items) m) 0 [sp kIndent Normal] 0 items)"

definition render_menu :: "ui \<Rightarrow> frame \<Rightarrow> frame" where
  "render_menu m f = draw_all (map spans (menu_rows m (fr_width f))) f"

definition render_footer :: "ui \<Rightarrow> frame \<Rightarrow> frame" where
  "render_footer m f = draw_all [line (rule_line (fr_width f)) Dim, line (indent (ui_status m)) (ui_status_style m),
     line (indent (footer_keys m)) Dim] f"

definition place_cursor :: "ui \<Rightarrow> nat \<Rightarrow> frame \<Rightarrow> frame" where
  "place_cursor m head_rows f =
     (if ui_screen m = DrivePath \<or> ui_screen m = Alias
      then set_cursor (head_rows + (if ui_screen m = Alias then 3 else 2)) (length kIndent + 3 + display_width (ui_text m)) f
      else f)"

definition body_rows :: "ui \<Rightarrow> frame \<Rightarrow> nat" where
  "body_rows m f =
     (let foot = kFooterRows + length (menu_rows m (fr_width f))
      in if fr_height f > header_rows m f + foot then fr_height f - header_rows m f - foot else 1)"

definition render :: "ui \<Rightarrow> frame \<Rightarrow> frame" where
  "render m f0 =
     (let f = clear_frame f0; head_rows = header_rows m f; rows = body_rows m f
      in place_cursor m head_rows (render_footer m (render_menu m (render_body m rows (render_header m f)))))"

end
