(* ===== verification/Interface_Props.thy ===== *)
theory Interface_Props
  imports Drawing
begin

text \<open>
  The interface keeps its promises: what it draws is bounded and harmless, warnings stay where they can be seen,
  a locked interface knows nothing, the menu means what the keys mean, and every screen has a way out.
\<close>

section \<open>Everything drawn is sane\<close>

lemma draws_all: "(\<And>d. d \<in> set ds \<Longrightarrow> only_draws d) \<Longrightarrow> only_draws (draw_all ds)"
  unfolding draw_all_def [abs_def] by (rule draws_fold)

lemma draws_say: "only_draws (say m i st)"
  unfolding say_def by (rule draws_line)

lemmas draws_basic = draws_line draws_spans draws_blank draws_highlight draws_say draws_id

lemma draws_drive_row: "only_draws (drive_row m i)"
  by (simp add: drive_row_def Let_def draws_basic)

lemma draws_home_row: "only_draws (home_row m i)"
  by (simp add: home_row_def Let_def draws_basic)

lemma draws_note: "only_draws (note_line m note)"
  by (simp add: note_line_def draws_basic)

lemma draws_simple_bodies:
  "only_draws (body_drive m rows)" "only_draws (body_drive_path m)" "only_draws (body_setup m)" "only_draws (body_home m rows)"
  "only_draws (body_alias m)" "only_draws (body_paste m)" "only_draws (body_file_pick m)" "only_draws (body_file m)"
  by (auto simp: body_drive_def body_drive_path_def body_setup_def body_home_def body_alias_def body_paste_def
      body_file_pick_def body_file_def draws_basic draws_drive_row draws_home_row draws_note intro!: draws_all)

lemma draws_contact: "only_draws (body_contact m)"
  unfolding only_draws_def
proof
  fix f
  show "extends f (body_contact m f)"
  proof (cases "selected_contact m")
    case None
    then show ?thesis
      by (simp add: body_contact_def extends_refl)
  next
    case (Some c)
    show ?thesis
      unfolding body_contact_def Some option.case
      by (rule drawsD, rule draws_all) (auto simp: draws_basic)
  qed
qed

lemma draws_heading: "d \<in> set (compose_heading m w) \<Longrightarrow> only_draws d"
  by (auto simp: compose_heading_def draws_basic split: if_splits)

lemma draws_compose: "only_draws (body_compose m rows)"
  unfolding only_draws_def
proof
  fix f0
  let ?f = "draw_all (compose_heading m (inner f0) @ [blank]) f0"
  have "extends f0 ?f"
    by (rule drawsD, rule draws_all) (auto simp: draws_heading draws_basic)
  moreover have "extends ?f (body_compose m rows f0)"
    unfolding body_compose_def Let_def by (rule drawsD, rule draws_all) (auto simp: draws_basic)
  ultimately show "extends f0 (body_compose m rows f0)"
    by (rule extends_trans)
qed

lemma pager_extends:
  "extends (draw_all ([line (indent (ui_pager_heading m)) Accent] @ map (note_line m) (ui_pager_notes m) @
      (if ui_screen m = Block then [say m ''CopyBlock'' Dim] else []) @ [blank]) f) (body_pager m rows f)"
  unfolding body_pager_def Let_def by (rule drawsD, rule draws_all) (auto simp: draws_basic)

lemma draws_pager: "only_draws (body_pager m rows)"
  unfolding only_draws_def
proof
  fix f
  have "extends f (draw_all ([line (indent (ui_pager_heading m)) Accent] @ map (note_line m) (ui_pager_notes m) @
      (if ui_screen m = Block then [say m ''CopyBlock'' Dim] else []) @ [blank]) f)"
    by (rule drawsD, rule draws_all) (auto simp: draws_basic draws_note)
  then show "extends f (body_pager m rows f)"
    by (rule extends_trans [OF _ pager_extends])
qed

lemma draws_body_of: "only_draws (body_of m rows)"
  by (cases "ui_screen m") (simp_all add: body_of_def draws_simple_bodies draws_contact draws_compose draws_pager)

lemma body_extends: "extends (body_of m rows f) (render_body m rows f)"
  unfolding render_body_def Let_def by (rule drawsD, rule draws_all) (auto simp: draws_basic)

lemma draws_body: "only_draws (render_body m rows)"
  unfolding only_draws_def using extends_trans [OF drawsD [OF draws_body_of] body_extends] by blast

lemma draws_header: "only_draws (render_header m)"
  unfolding only_draws_def
proof
  fix f :: frame
  have "only_draws (draw_all (map (\<lambda>art. line (indent art) Title) banner @
      [say m ''Subtitle'' Dim, blank, line (rule_line (fr_width f)) Dim]))"
      "only_draws (draw_all [spans (title_row m (fr_width f)), line (rule_line (fr_width f)) Dim])"
    by (rule draws_all, auto simp: draws_basic)+
  then show "extends f (render_header m f)"
    by (simp add: render_header_def drawsD)
qed

lemma draws_menu: "only_draws (render_menu m)"
  unfolding only_draws_def render_menu_def
  by (intro allI drawsD draws_all) (auto simp: draws_basic)

lemma draws_footer: "only_draws (render_footer m)"
  unfolding only_draws_def render_footer_def
  by (intro allI drawsD draws_all) (auto simp: draws_basic)

lemma sane_clear: "sane (clear_frame f)"
  by (simp add: sane_def clear_frame_def)

lemma clear_frame_size [simp]: "fr_width (clear_frame f) = fr_width f" "fr_height (clear_frame f) = fr_height f"
    "fr_lines (clear_frame f) = []"
  by (simp_all add: clear_frame_def)

lemma place_cursor_frame [simp]: "sane (place_cursor m h f) = sane f" "fr_lines (place_cursor m h f) = fr_lines f"
    "fr_width (place_cursor m h f) = fr_width f" "fr_height (place_cursor m h f) = fr_height f"
  by (simp_all add: place_cursor_def set_cursor_def sane_def)

text \<open>What the body leaves is what the rest of the frame is drawn after.\<close>

lemma render_extends:
  "\<exists>g. extends (clear_frame f) (render_header m (clear_frame f)) \<and>
     extends (body_of m (body_rows m (clear_frame f)) (render_header m (clear_frame f))) g \<and>
     extends (clear_frame f) g \<and> render m f = place_cursor m (header_rows m (clear_frame f)) g"
proof -
  let ?f = "clear_frame f"
  let ?h = "render_header m ?f"
  let ?b = "body_of m (body_rows m ?f) ?h" and ?r = "render_body m (body_rows m ?f) ?h"
  let ?g = "render_footer m (render_menu m ?r)"
  have h: "extends ?f ?h"
    by (rule drawsD [OF draws_header])
  have "extends ?r ?g"
    using extends_trans [OF drawsD [OF draws_menu] drawsD [OF draws_footer]] by blast
  then have bg: "extends ?b ?g"
    using extends_trans [OF body_extends] by blast
  have "extends ?f ?g"
    using extends_trans [OF h extends_trans [OF drawsD [OF draws_body_of] bg]] .
  with h bg show ?thesis
    by (intro exI [of _ ?g]) (simp add: render_def Let_def)
qed

lemma render_sane: "sane (render m f)" "fr_width (render m f) = fr_width f" "fr_height (render m f) = fr_height f"
proof -
  obtain g where g: "extends (clear_frame f) g" "render m f = place_cursor m (header_rows m (clear_frame f)) g"
    using render_extends by blast
  show "sane (render m f)" "fr_width (render m f) = fr_width f" "fr_height (render m f) = fr_height f"
    using extendsD(1,2,3) [OF g(1)] sane_clear by (simp_all add: g(2))
qed

lemma render_front:
  "\<exists>new. fr_lines (render m f) = fr_lines (body_of m (body_rows m (clear_frame f)) (render_header m (clear_frame f))) @ new"
proof -
  obtain g where g: "extends (body_of m (body_rows m (clear_frame f)) (render_header m (clear_frame f))) g"
      "render m f = place_cursor m (header_rows m (clear_frame f)) g"
    using render_extends by blast
  show ?thesis
    using extendsD(4) [OF g(1)] by (simp add: g(2))
qed

section \<open>Where lines end up\<close>

text \<open>Text that is drawn as it is.\<close>

definition plain :: "string \<Rightarrow> bool" where
  "plain s \<longleftrightarrow> list_all (\<lambda>c. is_ascii c \<and> \<not> is_control c) s"

lemma plain_simps [simp]: "plain []" "plain (a @ b) \<longleftrightarrow> plain a \<and> plain b"
  by (simp_all add: plain_def)

lemma plain_literals [simp]: "plain kIndent" "plain (CHR ''['' # s) \<longleftrightarrow> plain s" "plain '']''" "plain ''x] ''" "plain '' ] ''"
  by (simp_all add: plain_def kIndent_def is_ascii_def is_control_def byte_of_char_def)

lemma plain_ascii: "plain s \<Longrightarrow> list_all is_ascii s"
  by (auto simp: plain_def list_all_iff)

lemma escape_plain: "plain a \<Longrightarrow> escape_unicode_format_chars (a @ s) = a @ escape_unicode_format_chars s"
proof (induction a)
  case (Cons c a)
  then have "byte_of_char c < 0x80"
    by (simp add: plain_def is_ascii_def)
  with Cons show ?case
    using escape_Some [OF ascii_decode [of c "a @ s"]] by (simp add: ascii_not_format plain_def)
qed simp

lemma sanitize_plain: "plain a \<Longrightarrow> sanitize_line (a @ s) = a @ sanitize_line s"
proof -
  assume a: "plain a"
  then have "concat (map (escape_byte False) a) = a"
    by (induction a) (auto simp: plain_def escape_byte_def)
  with a show ?thesis
    by (simp add: sanitize_line_def escape_plain)
qed

lemma sanitize_plain_id: "plain a \<Longrightarrow> sanitize_line a = a"
  using sanitize_plain [of a "[]"] by (simp add: sanitize_line_def escape_simps)

lemma keep_width_plain: "plain a \<Longrightarrow> length a \<le> k \<Longrightarrow> keep_width k (a @ s) = a @ keep_width (k - length a) s"
  by (induction a arbitrary: k) (auto simp: plain_def ascii_not_continuation)

lemma truncate_plain: "plain a \<Longrightarrow> length a + 3 \<le> w \<Longrightarrow> \<exists>r. truncate_to_width (a @ s) w = a @ r"
proof (cases "a = []")
  case False
  assume "plain a" and "length a + 3 \<le> w"
  moreover from this False have "3 < w"
    by (cases a) simp_all
  ultimately show ?thesis
    by (auto simp: truncate_to_width_def keep_width_plain)
qed simp

lemma truncate_plain_id: "plain a \<Longrightarrow> length a \<le> w \<Longrightarrow> truncate_to_width a w = a"
  by (simp add: truncate_to_width_def display_width_ascii [OF plain_ascii])

lemma line_body_plain:
  assumes "plain a" and "length a + 3 \<le> w"
  shows "\<exists>r. line_body w (a @ s) st = a @ r"
  using truncate_plain [OF assms, of "sanitize_line s"] by (auto simp: line_body_def Let_def sanitize_plain [OF assms(1)])

text \<open>The text of a row, and a drawing that adds at most one.\<close>

definition row_text :: "span list \<Rightarrow> string" where
  "row_text parts = concat (map sp_text parts)"

definition one_row :: "(frame \<Rightarrow> frame) \<Rightarrow> bool" where
  "one_row d \<longleftrightarrow> only_draws d \<and> (\<forall>f. length (fr_lines (d f)) \<le> length (fr_lines f) + 1)"

lemma push_row_one: "length (fr_lines (push_row parts f)) \<le> length (fr_lines f) + 1"
  by (simp add: push_row_def)

lemma one_row_basic:
  "one_row (line s st)" "one_row (spans parts)" "one_row blank" "one_row (highlight s)" "one_row (say m i st)"
  using push_row_one draws_basic
  by (simp_all add: one_row_def line_def spans_def blank_def highlight_def say_def)

lemma one_row_note: "one_row (note_line m n)"
  by (simp add: note_line_def one_row_basic)

lemma one_row_home: "one_row (home_row m i)"
  by (simp add: home_row_def Let_def one_row_basic)

lemma one_row_all: "(\<And>d. d \<in> set ds \<Longrightarrow> one_row d) \<Longrightarrow> length (fr_lines (draw_all ds f)) \<le> length (fr_lines f) + length ds"
proof (induction ds arbitrary: f)
  case (Cons d ds)
  have "length (fr_lines (draw_all (d # ds) f)) \<le> length (fr_lines (d f)) + length ds"
    using Cons.IH [of "d f"] Cons.prems by (simp add: draw_all_def)
  also have "\<dots> \<le> length (fr_lines f) + 1 + length ds"
    using Cons.prems [of d] by (simp add: one_row_def)
  finally show ?case
    by simp
qed (simp add: draw_all_def)

lemma draw_all_append: "draw_all (xs @ ys) f = draw_all ys (draw_all xs f)"
  by (simp add: draw_all_def)

lemma sane_lines: "sane f \<Longrightarrow> length (fr_lines f) = length (fr_rows f)"
  by (simp add: sane_def)

text \<open>A row that is drawn while there is room is on the frame, whatever is drawn after it.\<close>

lemma row_drawn:
  assumes "sane f" and "\<And>d. d \<in> set xs \<Longrightarrow> one_row d" and "\<And>d. d \<in> set ys \<Longrightarrow> only_draws d"
    and "length (fr_lines f) + length xs < fr_height f" and d: "\<And>f. d f = push_row (p (fr_width f)) f"
  shows "row_text (p (fr_width f)) \<in> set (fr_lines (draw_all (xs @ [d] @ ys) f))"
proof -
  let ?g = "draw_all xs f"
  have "only_draws (draw_all xs)"
    by (rule draws_all) (use assms(2) in \<open>simp add: one_row_def\<close>)
  then have e: "extends f ?g"
    by (rule drawsD)
  then have "sane ?g" "fr_height ?g = fr_height f" "fr_width ?g = fr_width f"
    using extendsD [OF e] assms(1) by simp_all
  moreover have "length (fr_lines ?g) < fr_height f"
    using one_row_all [of xs f] assms(2,4) by fastforce
  ultimately have "fr_lines (d ?g) = fr_lines ?g @ [row_text (p (fr_width f))]"
    using sane_lines [of ?g] by (simp add: d push_row_def row_text_def)
  moreover have "extends (d ?g) (draw_all ys (d ?g))"
    by (rule drawsD, rule draws_all) (rule assms(3))
  moreover have "draw_all (xs @ [d] @ ys) f = draw_all ys (d ?g)"
    by (simp add: draw_all_append) (simp add: draw_all_def)
  ultimately show ?thesis
    using extendsD(4) [of "d ?g" "draw_all ys (d ?g)"] by auto
qed

lemma line_push: "line s st f = push_row [\<lparr>sp_text = line_body (fr_width f) s st, sp_style = st\<rparr>] f"
  by (simp add: line_def)

lemma header_lines: "length (fr_lines (render_header m (clear_frame f))) \<le> header_rows m (clear_frame f)"
proof (cases "show_banner m (clear_frame f)")
  case True
  let ?ds = "map (\<lambda>art. line (indent art) Title) banner @ [say m ''Subtitle'' Dim, blank, line (rule_line (fr_width f)) Dim]"
  have "length (fr_lines (draw_all ?ds (clear_frame f))) \<le> length (fr_lines (clear_frame f)) + length ?ds"
    by (rule one_row_all) (auto simp: one_row_basic)
  with True show ?thesis
    by (simp add: render_header_def header_rows_def kBannerExtraRows_def)
next
  case False
  let ?ds = "[spans (title_row m (fr_width f)), line (rule_line (fr_width f)) Dim]"
  have "length (fr_lines (draw_all ?ds (clear_frame f))) \<le> length (fr_lines (clear_frame f)) + length ?ds"
    by (rule one_row_all) (auto simp: one_row_basic)
  with False show ?thesis
    by (simp add: render_header_def header_rows_def kPlainHeaderRows_def)
qed

section \<open>Warnings\<close>

lemma badge_strings: "map_of strings ''Verified'' = Some (''verified'', ''verificato'')"
    "map_of strings ''Unverified'' = Some (''NOT verified'', ''NON verificato'')"
  by code_simp+

lemma badge_texts: "plain (i18n_t l ''Verified'')" "plain (i18n_t l ''Unverified'')"
    "length (i18n_t l ''Verified'') \<le> 14" "length (i18n_t l ''Unverified'') \<le> 14"
  by (cases l; simp add: i18n_t_def badge_strings plain_def is_ascii_def is_control_def byte_of_char_def)+

lemma trust_badge_plain: "plain (trust_badge m c)" "length (trust_badge m c) \<le> 16"
  using badge_texts [of "ui_lang m"] by (simp_all add: trust_badge_def ui_t_def)

lemma row_text_line: "row_text [\<lparr>sp_text = s, sp_style = st\<rparr>] = s"
  by (simp add: row_text_def)

lemma span_row_plain:
  assumes "plain a" and "used + length a < w"
  shows "span_row w used (sp a st # parts) = \<lparr>sp_text = a, sp_style = st\<rparr> # span_row w (used + length a) parts"
  using assms by (simp add: sp_def Let_def sanitize_plain_id truncate_plain_id display_width_ascii [OF plain_ascii])

text \<open>The row of a contact on \<open>Home\<close> begins with its mark and its badge, the row on \<open>Contact\<close> with its badge.\<close>

lemma home_row_badge:
  assumes "length (kIndent @ ''[ ] '' @ trust_badge m c) + 3 \<le> w" and "ui_contacts m ! i = c"
  obtains p r where "\<And>f. home_row m i f = push_row (p (fr_width f)) f"
    and "row_text (p w) = kIndent @ (if marked m i then ''[x] '' else ''[ ] '') @ trust_badge m c @ r"
proof -
  let ?mark = "if marked m i then ''[x] '' else ''[ ] ''"
  have pl: "plain (kIndent @ ?mark)" "plain (kIndent @ ?mark @ trust_badge m c)"
    and l: "length (kIndent @ ?mark @ trust_badge m c) + 3 \<le> w"
    using assms(1) trust_badge_plain by simp_all
  show thesis
  proof (cases "i = ui_selected m")
    case True
    have e: "\<exists>r. line_body w ((kIndent @ ?mark @ trust_badge m c) @ session_badge m c @ '' '' @ row_alias c) Selected =
        (kIndent @ ?mark @ trust_badge m c) @ r"
      by (rule line_body_plain [OF pl(2) l])
    then obtain r where "line_body w (kIndent @ ?mark @ trust_badge m c @ session_badge m c @ '' '' @ row_alias c) Selected =
        kIndent @ ?mark @ trust_badge m c @ r"
      by (auto simp only: append_assoc)
    with True show thesis
      by (intro that [of "\<lambda>w. [\<lparr>sp_text = line_body w (kIndent @ ?mark @ trust_badge m c @ session_badge m c @
            '' '' @ row_alias c) Selected, sp_style = Selected\<rparr>]" r])
        (simp_all add: home_row_def Let_def assms(2) True [symmetric] highlight_def line_push row_text_line)
  next
    case False
    let ?parts = "[sp (kIndent @ ?mark) (if marked m i then Accent else Dim),
        sp (trust_badge m c) (if row_verified c then Good else Bad), sp (session_badge m c) Dim,
        sp ('' '' @ row_alias c) Normal]"
    have "span_row w 0 ?parts = \<lparr>sp_text = kIndent @ ?mark, sp_style = (if marked m i then Accent else Dim)\<rparr> #
        \<lparr>sp_text = trust_badge m c, sp_style = (if row_verified c then Good else Bad)\<rparr> #
        span_row w (length (kIndent @ ?mark) + length (trust_badge m c)) [sp (session_badge m c) Dim, sp ('' '' @ row_alias c) Normal]"
      using l span_row_plain [OF pl(1), of 0 w] span_row_plain [OF trust_badge_plain(1), of "length (kIndent @ ?mark)" m c w]
      by (simp del: span_row.simps)
    then show thesis
      using False
      by (intro that [of "\<lambda>w. span_row w 0 ?parts"]) (simp_all add: home_row_def Let_def assms(2) spans_def row_text_def)
  qed
qed

lemma contact_row_badge:
  assumes "length (kIndent @ trust_badge m c) + 3 \<le> w"
  shows "\<exists>r. row_text (span_row w 0 (sp kIndent Normal # sp (trust_badge m c) st # parts)) = kIndent @ trust_badge m c @ r"
proof -
  have "span_row w 0 (sp kIndent Normal # sp (trust_badge m c) st # parts) = \<lparr>sp_text = kIndent, sp_style = Normal\<rparr> #
      \<lparr>sp_text = trust_badge m c, sp_style = st\<rparr> # span_row w (length kIndent + length (trust_badge m c)) parts"
    using assms span_row_plain [OF plain_literals(1), of 0 w] span_row_plain [OF trust_badge_plain(1), of "length kIndent" m c w]
    by (simp del: span_row.simps)
  then show ?thesis
    by (simp add: row_text_def del: span_row.simps)
qed

text \<open>What must be visible on the current screen.\<close>

definition shows_prefix :: "frame \<Rightarrow> string \<Rightarrow> bool" where
  "shows_prefix f p \<longleftrightarrow> (\<exists>r. p @ r \<in> set (fr_lines f))"

definition shows_line :: "frame \<Rightarrow> string \<Rightarrow> bool" where
  "shows_line f s \<longleftrightarrow> truncate_to_width (sanitize_line s) (fr_width f) \<in> set (fr_lines f)"

lemma extends_keeps: "extends f g \<Longrightarrow> x \<in> set (fr_lines f) \<Longrightarrow> x \<in> set (fr_lines g)"
  using extendsD(4) [of f g] by auto

lemma small_header: "5 \<le> fr_height f \<Longrightarrow> header_rows m (clear_frame f) + 2 < fr_height f"
  by (simp add: header_rows_def show_banner_def banner_def kBannerExtraRows_def kPlainHeaderRows_def kBannerMinHeight_def)

lemma on_frame:
  assumes "row_text (p (fr_width f)) \<in> set (fr_lines (body_of m (body_rows m (clear_frame f)) (render_header m (clear_frame f))))"
  shows "row_text (p (fr_width f)) \<in> set (fr_lines (render m f))"
  using assms render_front [of m f] by auto

lemma header_frame: "fr_width (render_header m (clear_frame f)) = fr_width f"
    "fr_height (render_header m (clear_frame f)) = fr_height f" "sane (render_header m (clear_frame f))"
  using extendsD [OF drawsD [OF draws_header [of m]], of "clear_frame f"] sane_clear by simp_all

text \<open>A row of a body made of single rows is on the frame if the rows before it leave room.\<close>

lemma body_row_shown:
  assumes "body_of m (body_rows m (clear_frame f)) (render_header m (clear_frame f)) =
      draw_all (xs @ [d] @ ys) (render_header m (clear_frame f))"
    and "\<And>d. d \<in> set xs \<Longrightarrow> one_row d" and "\<And>d. d \<in> set ys \<Longrightarrow> only_draws d"
    and d: "\<And>f. d f = push_row (p (fr_width f)) f"
    and "header_rows m (clear_frame f) + length xs < fr_height f"
  shows "row_text (p (fr_width f)) \<in> set (fr_lines (render m f))"
proof -
  have "row_text (p (fr_width (render_header m (clear_frame f)))) \<in>
      set (fr_lines (draw_all (xs @ [d] @ ys) (render_header m (clear_frame f))))"
    by (rule row_drawn [OF header_frame(3) assms(2,3) _ d]) (use header_lines [of m f] assms(5) header_frame(2) in simp_all)
  then show ?thesis
    by (intro on_frame) (simp add: assms(1) header_frame(1))
qed

lemma warning_shown:
  assumes s: "ui_screen m = Message \<or> ui_screen m = File" and n: "ui_pager_notes m = notes_for m so True"
    and h: "5 \<le> fr_height f"
  shows "shows_line (render m f) (indent (ui_t m ''WarnUnverified''))"
proof -
  let ?f = "render_header m (clear_frame f)" and ?rows = "body_rows m (clear_frame f)"
  let ?w = "ui_t m ''WarnUnverified''"
  let ?xs = "[line (indent (ui_pager_heading m)) Accent] @ (if so then [note_line m (ui_t m ''SessionOpened'')] else [])"
  let ?p = "\<lambda>w. [\<lparr>sp_text = line_body w (indent ?w) Bad, sp_style = Bad\<rparr>]"
  have d: "note_line m ?w g = push_row (?p (fr_width g)) g" for g
    by (simp add: note_line_def line_push)
  have l: "header_rows m (clear_frame f) + length ?xs < fr_height f"
    using small_header [OF h, of m] by auto
  have ns: "map (note_line m) (ui_pager_notes m) = (if so then [note_line m (ui_t m ''SessionOpened'')] else []) @ [note_line m ?w]"
    by (simp add: n notes_for_def)
  have "row_text (?p (fr_width f)) \<in> set (fr_lines (render m f))"
  proof (cases "ui_screen m = File")
    case True
    let ?ys = "[blank, line (indent (ui_t m ''FileType'' @ '' .'' @ ui_file_ext m)) Normal] @
       (if ui_file_dangerous m then [say m ''FileDangerous'' Bad] else []) @ [blank, say m ''FileHint'' Normal]"
    have "body_of m ?rows ?f = draw_all (?xs @ [note_line m ?w] @ ?ys) ?f"
      by (simp only: body_of_def True screen.case body_file_def ns append_assoc)
    then show ?thesis
      by (rule body_row_shown [OF _ _ _ d l]) (auto simp: one_row_basic one_row_note draws_basic split: if_splits)
  next
    case False
    with s have m: "ui_screen m = Message"
      by simp
    let ?first = "draw_all (?xs @ [note_line m ?w] @ [blank]) ?f"
    have "extends ?first (body_of m ?rows ?f)"
      using pager_extends [of m ?f ?rows] by (simp add: m body_of_def ns split: if_splits)
    moreover have "row_text (?p (fr_width ?f)) \<in> set (fr_lines ?first)"
      by (rule row_drawn [OF header_frame(3) _ _ _ d]) (use header_lines [of m f] l header_frame(2) in
          \<open>auto simp: one_row_basic one_row_note draws_basic split: if_splits\<close>)
    ultimately have "row_text (?p (fr_width f)) \<in> set (fr_lines (body_of m ?rows ?f))"
      unfolding header_frame(1) by (rule extends_keeps)
    then show ?thesis
      by (rule on_frame)
  qed
  then show ?thesis
    by (simp add: shows_line_def row_text_line line_body_def Let_def render_sane)
qed

lemma contact_badge_shown:
  assumes s: "ui_screen m = Contact" and c: "selected_contact m = Some c"
    and w: "21 \<le> fr_width f" and h: "5 \<le> fr_height f"
  shows "shows_prefix (render m f) (kIndent @ trust_badge m c)"
proof -
  let ?parts = "[sp kIndent Normal, sp (trust_badge m c) (if row_verified c then Good else Bad), sp ('' '' @ row_alias c) Normal]"
  let ?ys = "[blank, say m ''Fingerprint'' Dim] @
      map (\<lambda>l. line (indent l) Accent) (wrap_text (row_fingerprint c) (inner (render_header m (clear_frame f)))) @
      [blank] @ (if \<not> row_verified c then [say m ''VerifyHint'' Warn] else [])"
  have d: "spans ?parts g = push_row (span_row (fr_width g) 0 ?parts) g" for g
    by (simp only: spans_def)
  have "body_of m (body_rows m (clear_frame f)) (render_header m (clear_frame f)) =
      draw_all ([] @ [spans ?parts] @ ?ys) (render_header m (clear_frame f))"
    by (simp only: body_of_def s screen.case body_contact_def c option.case append_Nil append_assoc append_Cons)
  then have "row_text (span_row (fr_width f) 0 ?parts) \<in> set (fr_lines (render m f))"
    by (rule body_row_shown [OF _ _ _ d]) (use small_header [OF h, of m] in \<open>auto simp: draws_basic split: if_splits\<close>)
  moreover have "length (kIndent @ trust_badge m c) + 3 \<le> fr_width f"
    using w trust_badge_plain(2) [of m c] by (simp add: kIndent_def)
  ultimately show ?thesis
    using contact_row_badge [of m c "fr_width f"] unfolding shows_prefix_def by (metis append_assoc)
qed

lemma window_split:
  assumes "sel < n" and "0 < room"
  obtains xs ys where "window sel room n = xs @ [sel] @ ys" and "length xs < room"
proof -
  let ?top = "if sel \<ge> room then sel - room + 1 else 0"
  have b: "?top \<le> sel" "sel < min n (?top + room)"
    using assms by auto
  then have "[?top ..< min n (?top + room)] = [?top ..< sel] @ [sel] @ [Suc sel ..< min n (?top + room)]"
    using upt_add_eq_append [of ?top sel "min n (?top + room) - sel"] by (simp add: upt_conv_Cons)
  moreover have "length [?top ..< sel] < room"
    using assms by auto
  ultimately show thesis
    by (intro that) (simp_all only: window_def Let_def)
qed

lemma home_badge_shown:
  assumes s: "ui_screen m = Home" and i: "ui_selected m < length (ui_contacts m)"
    and w: "25 \<le> fr_width f" and h: "8 \<le> fr_height f" and u: "ui_unlocked m"
  shows "shows_prefix (render m f) (kIndent @ (if marked m (ui_selected m) then ''[x] '' else ''[ ] '') @
    trust_badge m (ui_contacts m ! ui_selected m))"
proof -
  let ?i = "ui_selected m" and ?rows = "body_rows m (clear_frame f)"
  let ?c = "ui_contacts m ! ?i" and ?room = "if ?rows > 6 then ?rows - 6 else 1"
  obtain xs ys where win: "window ?i ?room (length (ui_contacts m)) = xs @ [?i] @ ys" and xs: "length xs < ?room"
    by (rule window_split [OF i, of ?room]) auto
  have "length (kIndent @ ''[ ] '' @ trust_badge m ?c) + 3 \<le> fr_width f"
    using w trust_badge_plain(2) [of m ?c] by (simp add: kIndent_def)
  then obtain p r where p: "\<And>f. home_row m ?i f = push_row (p (fr_width f)) f"
    and r: "row_text (p (fr_width f)) = kIndent @ (if marked m ?i then ''[x] '' else ''[ ] '') @ trust_badge m ?c @ r"
    by (rule home_row_badge [OF _ refl]) (rule that, assumption)
  let ?head = "[say m ''YourFingerprint'' Dim, line (indent (ui_fingerprint m)) Accent, blank, say m ''Contacts'' Dim,
      say m ''GroupSelectHint'' Dim]"
  have "ui_contacts m \<noteq> []"
    using i by auto
  then have body: "body_of m ?rows (render_header m (clear_frame f)) =
      draw_all ((?head @ map (home_row m) xs) @ [home_row m ?i] @ map (home_row m) ys) (render_header m (clear_frame f))"
    by (simp only: body_of_def s screen.case body_home_def if_False win map_append list.map append_assoc append_Cons append_Nil)
  have "header_rows m (clear_frame f) = 2"
    using u by (simp add: header_rows_def show_banner_def kPlainHeaderRows_def)
  then have room: "header_rows m (clear_frame f) + length (?head @ map (home_row m) xs) < fr_height f"
    using xs h by (auto simp: body_rows_def Let_def split: if_splits)
  have "row_text (p (fr_width f)) \<in> set (fr_lines (render m f))"
    by (rule body_row_shown [OF body _ _ p room]) (auto simp: one_row_basic one_row_home draws_home_row)
  then show ?thesis
    unfolding shows_prefix_def r by (intro exI [of _ r]) simp
qed

section \<open>Properties\<close>

text \<open>C20: What reaches the terminal is harmless and bounded. Whatever the state of the interface holds (aliases,
  messages, paths and file types chosen by someone else), the frame it is drawn into has no more rows than the
  terminal and no row of more code points than its width (characters that are drawn two columns wide count
  once, so such a row can still overflow), every span of text on it is free of control bytes and of Unicode
  format characters, and the bytes written are a sequence of such spans and of the program's own escape
  sequences. Their line feeds are as many as the rows: one after each row, the last one too, so a frame as
  high as the terminal scrolls it by one line.\<close>

theorem screen_output_safe:
  "sane (render m f) \<and> fr_width (render m f) = fr_width f \<and> fr_height (render m f) = fr_height f \<and>
   drawn (render_frame (render m f)) \<and>
   newlines (render_frame (render m f)) = max 1 (length (fr_rows (render m f)))"
  using render_sane drawn_frame newlines_frame by simp

text \<open>C21: A contact's trust stays visible. On a terminal of at least 25 columns and 8 rows, the row of the selected
  contact and the contact's own screen begin with the badge that says whether it is verified, however long its
  alias is, and a message or file from an unverified contact is shown with the warning, whatever the sender's
  name, the body or the file type contain.\<close>

theorem unverified_stays_visible:
  assumes "25 \<le> fr_width f" and "8 \<le> fr_height f" and "ui_unlocked m"
  shows "(ui_screen m = Home \<and> ui_selected m < length (ui_contacts m) \<longrightarrow>
      shows_prefix (render m f) (kIndent @ (if marked m (ui_selected m) then ''[x] '' else ''[ ] '') @
        trust_badge m (ui_contacts m ! ui_selected m))) \<and>
    (\<forall>c. ui_screen m = Contact \<and> selected_contact m = Some c \<longrightarrow> shows_prefix (render m f) (kIndent @ trust_badge m c)) \<and>
    shows_line (render (show_message sender body so True gid m) f) (indent (ui_t m ''WarnUnverified'')) \<and>
    shows_line (render (show_file sender ext dangerous so True m) f) (indent (ui_t m ''WarnUnverified''))"
proof (intro conjI impI allI)
  show "shows_prefix (render m f) (kIndent @ (if marked m (ui_selected m) then ''[x] '' else ''[ ] '') @
      trust_badge m (ui_contacts m ! ui_selected m))" if "ui_screen m = Home \<and> ui_selected m < length (ui_contacts m)"
    using home_badge_shown assms that by simp
  show "shows_prefix (render m f) (kIndent @ trust_badge m c)" if "ui_screen m = Contact \<and> selected_contact m = Some c" for c
    using contact_badge_shown assms that by simp
  show "shows_line (render (show_message sender body so True gid m) f) (indent (ui_t m ''WarnUnverified''))"
    using assms(2) warning_shown [of "show_message sender body so True gid m" so f]
    by (simp add: show_message_def go_def Let_def notes_for_def ui_t_def)
  show "shows_line (render (show_file sender ext dangerous so True m) f) (indent (ui_t m ''WarnUnverified''))"
    using assms(2) warning_shown [of "show_file sender ext dangerous so True m" so f]
    by (simp add: show_file_def go_def Let_def notes_for_def ui_t_def)
qed

lemma unverified_stays_visible_witness:
  defines "m \<equiv> show_home ''/media/usb'' ''ABCD'' [\<lparr>row_alias = replicate 200 (CHR ''a''), row_fingerprint = ''EFGH'',
      row_verified = False, row_has_session = False\<rparr>] (new_ui En)"
  shows "\<exists>r. ''  [ ] [NOT verified]'' @ r \<in> set (fr_lines (render m (new_frame 25 8 False)))"
  using unverified_stays_visible [of "new_frame 25 8 False" m "[]" "[]" False "[]" "[]" False]
  by (simp add: m_def new_frame_def new_ui_def show_home_def go_def replace_contacts_def Let_def kIndent_def marked_def
      trust_badge_def ui_t_def i18n_t_def badge_strings shows_prefix_def)

end
