(* ===== verification/Interface_Run.thy ===== *)
theory Interface_Run
  imports Drawing
begin

text \<open>
  Running the interface: the invariant of its state, that a locked interface holds nothing of a vault, that the
  menu is another spelling of the keys, and that every screen can be left.
\<close>

section \<open>The invariant\<close>

text \<open>Locked screens hold no vault data.\<close>

definition locked_clean :: "ui \<Rightarrow> bool" where
  "locked_clean m \<longleftrightarrow> ui_contacts m = [] \<and> ui_fingerprint m = [] \<and> ui_group_recipients m = [] \<and> ui_alias m = [] \<and>
     ui_pager m = [] \<and> ui_pager_heading m = [] \<and> ui_pager_notes m = [] \<and> ui_file_ext m = []"

definition lock_ok :: "ui \<Rightarrow> bool" where
  "lock_ok m \<longleftrightarrow>
     (ui_unlocked m \<longleftrightarrow> ui_screen m \<notin> {Drive, DrivePath, Setup}) \<and> (\<not> ui_unlocked m \<longrightarrow> locked_clean m) \<and>
     (if ui_group_mode m then ui_screen m \<in> {Compose, FilePick} \<and> 2 \<le> length (ui_group_recipients m)
      else ui_group_recipients m = [])"

text \<open>Nothing points outside its list.\<close>

definition rows_shown :: "ui \<Rightarrow> nat" where
  "rows_shown m = (if ui_unlocked m then length (ui_contacts m) else length (ui_drives m))"

definition index_ok :: "ui \<Rightarrow> bool" where
  "index_ok m \<longleftrightarrow> length (ui_group_selected m) = length (ui_contacts m) \<and> ui_selected m < max 1 (rows_shown m) \<and>
     ui_pager_top m < max 1 (length (ui_pager m))"

definition ui_ok :: "ui \<Rightarrow> bool" where
  "ui_ok m \<longleftrightarrow> lock_ok m \<and> index_ok m"

lemmas ui_ok_defs = ui_ok_def lock_ok_def index_ok_def rows_shown_def locked_clean_def

lemma go_simps [simp]:
  "ui_screen (go s m) = s" "ui_unlocked (go s m) = ui_unlocked m" "ui_drives (go s m) = ui_drives m"
  "ui_contacts (go s m) = ui_contacts m" "ui_fingerprint (go s m) = ui_fingerprint m" "ui_lang (go s m) = ui_lang m"
  "ui_selected (go s m) = ui_selected m" "ui_contact_index (go s m) = ui_contact_index m"
  "ui_group_selected (go s m) = ui_group_selected m" "ui_alias (go s m) = ui_alias m"
  "ui_pager (go s m) = ui_pager m" "ui_pager_heading (go s m) = ui_pager_heading m" "ui_pager_top (go s m) = ui_pager_top m"
  "ui_pager_notes (go s m) = ui_pager_notes m" "ui_file_ext (go s m) = ui_file_ext m"
  "ui_group_mode (go s m) \<longleftrightarrow> ui_group_mode m \<and> (s = Compose \<or> s = FilePick)"
  "ui_group_recipients (go s m) = (if s = Compose \<or> s = FilePick then ui_group_recipients m else [])"
  "ui_drive_path (go s m) = ui_drive_path m" "ui_status (go s m) = ui_status m" "ui_focus (go s m) = Body"
  "ui_pasting_card (go s m) = ui_pasting_card m" "ui_file_dangerous (go s m) = ui_file_dangerous m"
  by (simp_all add: go_def Let_def)

lemma new_ui_ok: "ui_ok (new_ui lang)"
  by (simp add: ui_ok_defs new_ui_def)

text \<open>Status, text and paste state are free.\<close>

lemma lock_ok_marks [simp]:
  "lock_ok (m\<lparr>ui_selected := n\<rparr>) = lock_ok m" "rows_shown (m\<lparr>ui_selected := n\<rparr>) = rows_shown m"
  "lock_ok (m\<lparr>ui_group_selected := l\<rparr>) = lock_ok m" "rows_shown (m\<lparr>ui_group_selected := l\<rparr>) = rows_shown m"
  by (simp_all add: ui_ok_defs)

lemma ui_ok_free [simp]:
  "ui_ok (m\<lparr>ui_status := s\<rparr>) = ui_ok m" "ui_ok (m\<lparr>ui_status_style := st\<rparr>) = ui_ok m" "ui_ok (m\<lparr>ui_text := t\<rparr>) = ui_ok m"
  "ui_ok (m\<lparr>ui_in_paste := b\<rparr>) = ui_ok m" "ui_ok (m\<lparr>ui_focus := fo\<rparr>) = ui_ok m" "ui_ok (m\<lparr>ui_menu_index := n\<rparr>) = ui_ok m"
  "ui_ok (m\<lparr>ui_pasting_card := b\<rparr>) = ui_ok m" "ui_ok (m\<lparr>ui_contact_index := n\<rparr>) = ui_ok m"
  "ui_ok (m\<lparr>ui_drive_path := p\<rparr>) = ui_ok m" "ui_ok (m\<lparr>ui_file_dangerous := b\<rparr>) = ui_ok m"
  by (simp_all add: ui_ok_defs)

lemma ui_ok_status [simp]: "ui_ok (set_status s st m) = ui_ok m" "ui_ok (set_status_str i st m) = ui_ok m"
  by (simp_all add: set_status_def set_status_str_def)

text \<open>Moving between screens of the same side of the lock.\<close>

definition locked_screen :: "screen \<Rightarrow> bool" where
  "locked_screen s \<longleftrightarrow> s \<in> {Drive, DrivePath, Setup}"

lemma ui_ok_go: "ui_ok m \<Longrightarrow> locked_screen s \<longleftrightarrow> \<not> ui_unlocked m \<Longrightarrow> ui_ok (go s m)"
  by (auto simp: ui_ok_defs locked_screen_def)

lemma ui_ok_screen: "ui_ok m \<Longrightarrow> ui_unlocked m \<longleftrightarrow> \<not> locked_screen (ui_screen m)"
  by (auto simp: ui_ok_defs locked_screen_def)

section \<open>From the driver\<close>

lemma ui_ok_show_locked:
  assumes "ui_ok m" and "\<not> ui_unlocked m"
  shows "ui_ok (show_drives ds m)" and "ui_ok (show_setup p m)"
  using assms by (auto simp: ui_ok_defs show_drives_def show_setup_def)

lemma ui_ok_show_contacts:
  assumes "ui_ok m"
  shows "ui_ok (show_home p fp cs m)" and "ui_unlocked m \<Longrightarrow> ui_ok (show_contacts cs m)"
  using assms by (auto simp: ui_ok_defs show_home_def show_contacts_def replace_contacts_def Let_def)

lemma ui_ok_show:
  assumes "ui_ok m" and "ui_unlocked m"
  shows "ui_ok (show_block h b m)" and "ui_ok (show_message s b so un g m)" and "ui_ok (show_file s e d so un m)"
  using assms by (auto simp: ui_ok_defs show_block_def show_message_def show_file_def)

lemma ui_ok_forget: "ui_ok (forget m)"
  by (simp add: ui_ok_defs forget_def)

section \<open>From the keyboard\<close>

lemma ui_ok_selected: "ui_ok m \<Longrightarrow> n < max 1 (rows_shown m) \<Longrightarrow> ui_ok (m\<lparr>ui_selected := n\<rparr>)"
  by (simp add: ui_ok_def index_ok_def)

lemma ui_ok_move: "ui_ok m \<Longrightarrow> n = rows_shown m \<Longrightarrow> ui_ok (move_selection delta n m)"
  using ui_ok_selected [of m] by (auto simp: move_selection_def ui_ok_def index_ok_def)

lemma sized_marks_ok: "ui_ok m \<Longrightarrow> sized_marks m = m"
  by (simp add: sized_marks_def ui_ok_def index_ok_def)

lemma ui_ok_marks: "ui_ok m \<Longrightarrow> length l = length (ui_contacts m) \<Longrightarrow> ui_ok (m\<lparr>ui_group_selected := l\<rparr>)"
  by (simp add: ui_ok_def index_ok_def)

lemma ui_ok_toggle: "ui_ok m \<Longrightarrow> ui_ok (toggle_mark m)"
  by (simp add: toggle_mark_def Let_def sized_marks_ok ui_ok_marks, simp add: ui_ok_def index_ok_def)

lemma ui_ok_start: "ui_ok m \<Longrightarrow> ui_unlocked m \<Longrightarrow> 2 \<le> length picked \<Longrightarrow>
    ui_ok (go Compose (m\<lparr>ui_group_mode := True, ui_group_recipients := picked\<rparr>))"
  by (simp add: ui_ok_defs)

lemma ui_ok_group: "ui_ok m \<Longrightarrow> ui_unlocked m \<Longrightarrow> ui_ok (start_group m)"
  by (simp add: start_group_def Let_def sized_marks_ok ui_ok_start split: option.split)

lemma ui_ok_unlocked: "ui_ok m \<Longrightarrow> ui_unlocked m \<Longrightarrow> \<not> locked_screen s \<Longrightarrow> ui_ok (go s m)"
  by (rule ui_ok_go) simp_all

lemma ui_ok_locked: "ui_ok m \<Longrightarrow> \<not> ui_unlocked m \<Longrightarrow> locked_screen s \<Longrightarrow> ui_ok (go s m)"
  by (rule ui_ok_go) simp_all

lemma ui_ok_drive:
  assumes "ui_ok m" and "\<not> ui_unlocked m"
  shows "ui_ok (snd (key_in_drive k m))"
  using assms ui_ok_locked [OF assms, of DrivePath] by (simp add: key_in_drive_def locked_screen_def)

lemma ui_ok_home:
  assumes "ui_ok m" and "ui_unlocked m"
  shows "ui_ok (snd (key_in_home k m))"
proof -
  have "ui_ok (go Contact (m\<lparr>ui_contact_index := ui_selected m\<rparr>))" "ui_ok (go Alias m)"
      "ui_ok (go Paste (m\<lparr>ui_pasting_card := False\<rparr>))"
    using assms by (simp_all add: ui_ok_unlocked locked_screen_def)
  then show ?thesis
    using assms by (simp add: key_in_home_def ui_ok_toggle ui_ok_group)
qed

lemma ui_ok_list:
  assumes "ui_ok m" and "ui_screen m = Drive \<or> ui_screen m = Home"
  shows "ui_ok (snd (key_in_list k m))"
proof -
  have u: "ui_unlocked m \<longleftrightarrow> ui_screen m \<noteq> Drive"
    using assms(2) ui_ok_screen [OF assms(1)] by (auto simp: locked_screen_def)
  then show ?thesis
    using ui_ok_move [OF assms(1) refl, unfolded rows_shown_def] ui_ok_drive [OF assms(1)] ui_ok_home [OF assms(1)]
    by (cases "ui_screen m = Drive") (simp_all add: key_in_list_def Let_def)
qed

lemma ui_ok_alias: "ui_ok m \<Longrightarrow> ui_unlocked m \<Longrightarrow> ui_ok (m\<lparr>ui_alias := a\<rparr>)"
  by (auto simp: ui_ok_defs)

lemma ui_ok_text:
  assumes "ui_ok m" and "ui_screen m \<in> {DrivePath, Alias, Compose, Paste, FilePick}"
  shows "ui_ok (snd (key_in_text k m))"
proof -
  have u: "ui_unlocked m \<longleftrightarrow> ui_screen m \<noteq> DrivePath"
    using assms(2) ui_ok_screen [OF assms(1)] by (auto simp: locked_screen_def)
  have "ui_ok (leave_text m)"
  proof (cases "ui_unlocked m")
    case True
    then show ?thesis
      using assms(1) by (simp add: leave_text_def Let_def clear_text_def ui_ok_unlocked locked_screen_def)
  next
    case False
    then show ?thesis
      using assms(1) u by (simp add: leave_text_def Let_def clear_text_def ui_ok_locked locked_screen_def)
  qed
  moreover have "ui_ok (snd (enter_in_text m))"
  proof (cases "ui_screen m = Alias")
    case True
    with u have "ui_unlocked m"
      by simp
    with assms(1) True show ?thesis
      by (simp add: enter_in_text_def ui_ok_unlocked ui_ok_alias locked_screen_def)
  next
    case False
    with assms(1) show ?thesis
      by (simp add: enter_in_text_def insert_text_def)
  qed
  moreover have "ui_screen m = Compose \<Longrightarrow> ui_ok (go FilePick m)"
    using assms(1) u by (simp add: ui_ok_unlocked locked_screen_def)
  ultimately show ?thesis
    using assms(1)
    by (simp add: key_in_text_def insert_text_def backspace_def clear_text_def split: key_code.split)
qed

lemma ui_ok_close: "ui_ok m \<Longrightarrow> ui_unlocked m \<Longrightarrow> ui_ok (close_pager m)"
  by (simp add: close_pager_def ui_ok_defs)

lemma ui_ok_pager:
  assumes "ui_ok m" and "ui_unlocked m"
  shows "ui_ok (snd (key_in_pager k m))"
proof -
  have t: "ui_ok (m\<lparr>ui_pager_top := n\<rparr>)" if "n < max 1 (length (ui_pager m))" for n
    using assms that by (auto simp: ui_ok_defs)
  have b: "ui_pager_top m < max 1 (length (ui_pager m))"
    using assms(1) by (simp add: ui_ok_defs)
  show ?thesis
    using assms b ui_ok_close [OF assms]
    by (auto simp: key_in_pager_def Let_def split: key_code.split intro!: t)
qed

lemma ui_ok_dispatch:
  assumes "ui_ok m"
  shows "ui_ok (snd (dispatch k m))"
proof -
  have g: "locked_screen s \<longleftrightarrow> \<not> ui_unlocked m \<Longrightarrow> ui_ok (go s m)" for s
    by (rule ui_ok_go [OF assms])
  note u = ui_ok_screen [OF assms]
  show ?thesis
    using assms u ui_ok_list [OF assms] ui_ok_text [OF assms] ui_ok_pager [OF assms] g [of Drive] g [of Home] g [of Compose]
      g [of FilePick]
    by (cases "ui_screen m") (simp_all add: dispatch_def key_in_file_def key_in_setup_def key_in_contact_def locked_screen_def)
qed

lemma ui_ok_key: "ui_ok m \<Longrightarrow> ui_ok (snd (handle_key k m))"
  by (auto simp: handle_key_def Let_def menu_key_def menu_left_def menu_right_def split: key_code.split
      intro!: ui_ok_dispatch)

section \<open>Ways out\<close>

definition press :: "key_code \<Rightarrow> key" where
  "press c = \<lparr>k_code = c, k_text = []\<rparr>"

definition typed :: "char \<Rightarrow> key" where
  "typed c = \<lparr>k_code = KChar, k_text = [c]\<rparr>"

text \<open>How far a screen is from one that can be quit.\<close>

definition depth :: "screen \<Rightarrow> nat" where
  "depth s = (if s \<in> {Home, Drive} then 0 else if s = FilePick then 2 else 1)"

lemma escape_dispatch:
  "fst (dispatch (press KEscape) m) = ANone" "depth (ui_screen (snd (dispatch (press KEscape) m))) \<le> depth (ui_screen m) - 1"
  by (cases "ui_screen m"; simp add: dispatch_def press_def key_in_list_def key_in_drive_def key_in_home_def is_key_def
      key_in_text_def leave_text_def clear_text_def key_in_pager_def close_pager_def key_in_file_def key_in_setup_def
      key_in_contact_def depth_def go_def Let_def)+

lemma escape_key:
  "fst (handle_key (press KEscape) m) = ANone"
  "depth (ui_screen (snd (handle_key (press KEscape) m))) \<le> depth (ui_screen m) - 1"
  using escape_dispatch [of "m\<lparr>ui_status := [], ui_status_style := Normal\<rparr>"]
  by (simp_all add: handle_key_def Let_def menu_key_def press_def)

lemma quit_key: "depth (ui_screen m) = 0 \<Longrightarrow> fst (handle_key (typed (CHR ''q'')) m) = Quit"
  by (auto simp: depth_def handle_key_def Let_def menu_key_def typed_def dispatch_def key_in_list_def key_in_drive_def
      key_in_home_def is_key_def split: if_splits)

text \<open>C22: Every screen has a way out: from any state of the interface two presses of Escape, which ask nothing of
  the program, lead to a screen on which the key \<open>q\<close> quits.\<close>

theorem interface_can_leave:
  "case handle_key (press KEscape) m of (a1, m1) \<Rightarrow> case handle_key (press KEscape) m1 of (a2, m2) \<Rightarrow>
     a1 = ANone \<and> a2 = ANone \<and> ui_screen m2 \<in> {Home, Drive} \<and> fst (handle_key (typed (CHR ''q'')) m2) = Quit"
proof -
  define m1 where "m1 = snd (handle_key (press KEscape) m)"
  define m2 where "m2 = snd (handle_key (press KEscape) m1)"
  have "depth (ui_screen m) \<le> 2"
    by (simp add: depth_def)
  then have "depth (ui_screen m2) = 0"
    using escape_key(2) [of m] escape_key(2) [of m1] unfolding m1_def [symmetric] m2_def [symmetric] by linarith
  then show ?thesis
    using escape_key(1) quit_key [of m2]
    by (simp add: case_prod_unfold m1_def [symmetric] m2_def [symmetric] depth_def split: if_splits)
qed

section \<open>The menu\<close>

text \<open>Two states that differ in the menu's highlight only.\<close>

definition same_but_menu :: "ui \<Rightarrow> ui \<Rightarrow> bool" where
  "same_but_menu m n \<longleftrightarrow> m\<lparr>ui_focus := Body, ui_menu_index := 0\<rparr> = n\<lparr>ui_focus := Body, ui_menu_index := 0\<rparr>"

lemma same_but_menu_simps [simp]:
  "same_but_menu m m" "same_but_menu (m\<lparr>ui_focus := fo\<rparr>) n = same_but_menu m n" "same_but_menu (m\<lparr>ui_menu_index := i\<rparr>) n = same_but_menu m n"
  by (simp_all add: same_but_menu_def)

text \<open>No handler looks at the highlight.\<close>

definition blind :: "(ui \<Rightarrow> action \<times> ui) \<Rightarrow> bool" where
  "blind h \<longleftrightarrow> (\<forall>m fo i. fst (h (m\<lparr>ui_focus := fo, ui_menu_index := i\<rparr>)) = fst (h m) \<and>
     same_but_menu (snd (h (m\<lparr>ui_focus := fo, ui_menu_index := i\<rparr>))) (snd (h m)))"

lemma blind_set_status:
  "set_status s st (m\<lparr>ui_focus := fo, ui_menu_index := i\<rparr>) = (set_status s st m)\<lparr>ui_focus := fo, ui_menu_index := i\<rparr>"
  "set_status_str n st (m\<lparr>ui_focus := fo, ui_menu_index := i\<rparr>) = (set_status_str n st m)\<lparr>ui_focus := fo, ui_menu_index := i\<rparr>"
  by (simp_all add: set_status_def set_status_str_def ui_t_def)

lemma blind_go: "go s (m\<lparr>ui_focus := fo, ui_menu_index := i\<rparr>) = go s m"
    "go s (m\<lparr>ui_focus := fo, ui_menu_index := i, ui_contact_index := c\<rparr>) = go s (m\<lparr>ui_contact_index := c\<rparr>)"
    "go s (m\<lparr>ui_focus := fo, ui_menu_index := i, ui_pasting_card := b\<rparr>) = go s (m\<lparr>ui_pasting_card := b\<rparr>)"
  by (simp_all add: go_def Let_def)

lemma blind_marks: "sized_marks (m\<lparr>ui_focus := fo, ui_menu_index := i\<rparr>) = (sized_marks m)\<lparr>ui_focus := fo, ui_menu_index := i\<rparr>"
  by (simp add: sized_marks_def)

lemma blind_toggle: "toggle_mark (m\<lparr>ui_focus := fo, ui_menu_index := i\<rparr>) = (toggle_mark m)\<lparr>ui_focus := fo, ui_menu_index := i\<rparr>"
  by (simp add: toggle_mark_def Let_def blind_marks blind_set_status) (simp add: set_status_def ui_t_def)

lemma blind_start: "same_but_menu (start_group (m\<lparr>ui_focus := fo, ui_menu_index := i\<rparr>)) (start_group m)"
  by (simp add: start_group_def Let_def blind_marks blind_set_status go_def split: option.split)

lemma blind_if: "blind a \<Longrightarrow> blind b \<Longrightarrow> (\<And>m fo i. P (m\<lparr>ui_focus := fo, ui_menu_index := i\<rparr>) = P m) \<Longrightarrow>
    blind (\<lambda>m. if P m then a m else b m)"
  by (auto simp: blind_def)

lemma blind_pair: "blind (\<lambda>m. (a, h m)) \<longleftrightarrow> (\<forall>m fo i. same_but_menu (h (m\<lparr>ui_focus := fo, ui_menu_index := i\<rparr>)) (h m))"
  by (simp add: blind_def)

lemma blind_handlers:
  "blind (key_in_list k)" "blind (key_in_text k)" "blind (key_in_pager k)" "blind (key_in_file k)" "blind (key_in_setup k)"
  "blind (key_in_contact k)"
proof -
  have moved: "same_but_menu (move_selection d n (m\<lparr>ui_focus := fo, ui_menu_index := i\<rparr>)) (move_selection d n m)" for d n m fo i
    by (simp add: move_selection_def same_but_menu_def)
  have "blind (key_in_drive k)"
    by (simp add: blind_def key_in_drive_def blind_go)
  moreover have "blind (key_in_home k)"
    unfolding key_in_home_def [abs_def]
    by (intro blind_if) (simp_all add: blind_pair blind_toggle blind_start blind_go)
  ultimately have "blind (\<lambda>m. if ui_screen m = Drive then key_in_drive k m else key_in_home k m)"
    by (intro blind_if) simp_all
  moreover have "key_in_list k = (\<lambda>m. if ui_screen m = Drive then key_in_drive k m else key_in_home k m)"
    if "k_code k \<noteq> KUp" "k_code k \<noteq> KDown"
    using that by (simp add: key_in_list_def fun_eq_iff)
  moreover have "blind (key_in_list k)" if "k_code k = KUp \<or> k_code k = KDown"
    using that moved by (auto simp: blind_def key_in_list_def Let_def)
  ultimately show "blind (key_in_list k)"
    by fastforce
  have edits: "same_but_menu (insert_text s (m\<lparr>ui_focus := fo, ui_menu_index := i\<rparr>)) (insert_text s m)"
      "same_but_menu (backspace (m\<lparr>ui_focus := fo, ui_menu_index := i\<rparr>)) (backspace m)"
      "same_but_menu (clear_text (m\<lparr>ui_focus := fo, ui_menu_index := i\<rparr>)) (clear_text m)"
      "leave_text (m\<lparr>ui_focus := fo, ui_menu_index := i\<rparr>) = leave_text m"
      "same_but_menu (m\<lparr>ui_focus := fo, ui_menu_index := i, ui_in_paste := b\<rparr>) (m\<lparr>ui_in_paste := b\<rparr>)" for s m fo i b
    by (simp_all add: insert_text_def backspace_def clear_text_def leave_text_def go_def Let_def same_but_menu_def)
  have "blind enter_in_text"
    unfolding enter_in_text_def [abs_def] by (intro blind_if) (simp_all add: blind_pair edits, simp_all add: blind_def go_def Let_def)
  moreover have "blind (\<lambda>m. (if ui_screen m = Compose then (Send, m)
      else if ui_screen m = Paste then (if ui_pasting_card m then ImportCard else Receive, m) else (ANone, m)))"
    by (intro blind_if) (simp_all add: blind_def)
  moreover have "blind (\<lambda>m. (ANone, insert_text (k_text k) m))" "blind (\<lambda>m. (ANone, backspace m))"
      "blind (\<lambda>m. (ANone, clear_text m))" "blind (\<lambda>m. (ANone, leave_text m))" "blind (\<lambda>m. (ANone, m\<lparr>ui_in_paste := b\<rparr>))"
      "blind (\<lambda>m. (ANone, if ui_screen m = Compose then go FilePick m else m))" "blind (\<lambda>m. (a, m))" for a b
    using edits by (simp_all add: blind_pair blind_go)
  ultimately show "blind (key_in_text k)"
    unfolding key_in_text_def [abs_def] by (cases "k_code k") (simp_all only: key_code.case)
  have "same_but_menu (m\<lparr>ui_focus := fo, ui_menu_index := i, ui_pager_top := n\<rparr>) (m\<lparr>ui_pager_top := n\<rparr>)"
      "close_pager (m\<lparr>ui_focus := fo, ui_menu_index := i\<rparr>) = close_pager m" for m fo i n
    by (simp_all add: same_but_menu_def close_pager_def go_def Let_def)
  then show "blind (key_in_pager k)"
    unfolding key_in_pager_def [abs_def] Let_def
    by (cases "k_code k") (simp_all only: key_code.case blind_pair, simp_all add: blind_def)
qed (simp_all add: blind_def key_in_file_def key_in_setup_def key_in_contact_def blind_go)

lemma blind_dispatch: "blind (dispatch k)"
  using blind_handlers [of k] unfolding blind_def dispatch_def
  by (intro allI, case_tac "ui_screen m") simp_all

section \<open>Reaching an entry\<close>

definition calm :: "ui \<Rightarrow> ui" where
  "calm m = m\<lparr>ui_status := [], ui_status_style := Normal\<rparr>"

lemma selected_contact_calm [simp]: "selected_contact (calm m) = selected_contact m"
    "selected_contact (m\<lparr>ui_focus := fo\<rparr>) = selected_contact m" "selected_contact (m\<lparr>ui_menu_index := i\<rparr>) = selected_contact m"
  by (simp_all add: selected_contact_def calm_def Let_def)

lemma calm_simps [simp]: "ui_screen (calm m) = ui_screen m" "ui_drives (calm m) = ui_drives m" "ui_contacts (calm m) = ui_contacts m"
    "ui_focus (calm m) = ui_focus m" "ui_menu_index (calm m) = ui_menu_index m" "calm (calm m) = calm m"
  by (simp_all add: calm_def)

lemma menu_calm [simp]: "menu (calm m) = menu m" "menu (m\<lparr>ui_focus := fo\<rparr>) = menu m" "menu (m\<lparr>ui_menu_index := i\<rparr>) = menu m"
  unfolding menu_def by (cases "ui_screen m"; simp)+

text \<open>From the body of the screen, \<open>i + 1\<close> presses of the right arrow highlight entry \<open>i\<close>.\<close>

definition after_rights :: "nat \<Rightarrow> ui \<Rightarrow> ui" where
  "after_rights n m = ((\<lambda>m. snd (handle_key (press KRight) m)) ^^ n) m"

lemma handle_calm: "handle_key k m = (if k_code k = KCtrlC then (Quit, m) else if k_code k = KNone then (ANone, m)
    else if menu m \<noteq> [] then menu_key (menu m) k (calm m) else dispatch k (calm m))"
  using menu_calm(1) [of m] by (simp add: handle_key_def Let_def calm_def [symmetric])

lemma calm_menu [simp]: "calm (m\<lparr>ui_focus := fo\<rparr>) = (calm m)\<lparr>ui_focus := fo\<rparr>" "calm (m\<lparr>ui_menu_index := i\<rparr>) = (calm m)\<lparr>ui_menu_index := i\<rparr>"
  by (simp_all add: calm_def)

lemma right_key: "menu m \<noteq> [] \<Longrightarrow> snd (handle_key (press KRight) m) = menu_right (length (menu m)) (calm m)"
  by (simp add: handle_calm menu_key_def press_def)

lemma after_rights:
  assumes "ui_focus m = Body" and "i < length (menu m)"
  shows "after_rights (Suc i) m = (calm m)\<lparr>ui_focus := Menu, ui_menu_index := i\<rparr>"
  using assms(2)
proof (induction i)
  case 0
  with assms(1) show ?case
    by (simp add: after_rights_def right_key menu_right_def)
next
  case (Suc i)
  let ?m = "(calm m)\<lparr>ui_focus := Menu, ui_menu_index := i\<rparr>"
  have ne: "menu ?m \<noteq> []"
    using Suc.prems by auto
  have "after_rights (Suc (Suc i)) m = snd (handle_key (press KRight) ?m)"
    using Suc by (simp add: after_rights_def)
  also have "\<dots> = menu_right (length (menu m)) (calm ?m)"
    by (simp only: right_key [OF ne]) simp
  finally have s: "after_rights (Suc (Suc i)) m = menu_right (length (menu m)) (calm ?m)" .
  have "menu_selection (length (menu m)) (calm ?m) = i"
    using Suc.prems by (auto simp: menu_selection_def)
  with Suc.prems show ?case
    by (simp add: s menu_right_def)
qed

lemma synthetic_not_enter: "k_code (synthetic item) \<in> {KChar, KEscape, KCtrlP, KEnter} \<Longrightarrow> ui_focus m = Body \<Longrightarrow>
    menu m \<noteq> [] \<Longrightarrow> handle_key (synthetic item) m = dispatch (synthetic item) (calm m)"
  by (auto simp: handle_key_def Let_def menu_key_def calm_def)

lemma menu_codes: "item \<in> set (menu m) \<Longrightarrow> k_code (synthetic item) \<in> {KChar, KEscape, KCtrlP, KEnter}"
  by (cases "ui_screen m") (auto simp: menu_def synthetic_def ch_def code_entry_def split: if_splits option.splits)

text \<open>C23: The menu is another spelling of the keys: on every screen with a menu, walking to any of its entries with the
  arrow and pressing Enter has the same action and leads to the same state, the highlight apart, as pressing the
  entry's own key.\<close>

theorem menu_is_the_keys:
  assumes "ui_focus m = Body" and "i < length (menu m)"
  shows "case (handle_key (press KEnter) (after_rights (Suc i) m), handle_key (synthetic (menu m ! i)) m) of
      ((a, m1), (b, m2)) \<Rightarrow> a = b \<and> same_but_menu m1 m2"
proof -
  let ?k = "synthetic (menu m ! i)" and ?c = "(calm m)\<lparr>ui_focus := Menu, ui_menu_index := i\<rparr>"
  have ne: "menu m \<noteq> []"
    using assms(2) by auto
  have "handle_key (press KEnter) ?c = dispatch ?k ?c"
    using assms(2) ne by (simp add: handle_calm menu_key_def press_def menu_selection_def)
  moreover have "handle_key ?k m = dispatch ?k (calm m)"
    using assms ne by (intro synthetic_not_enter menu_codes [of _ m]) simp_all
  moreover have "fst (dispatch ?k ?c) = fst (dispatch ?k (calm m))" "same_but_menu (snd (dispatch ?k ?c)) (snd (dispatch ?k (calm m)))"
    using blind_dispatch [of ?k] by (auto simp: blind_def)
  ultimately show ?thesis
    by (simp add: after_rights [OF assms] case_prod_unfold)
qed

lemma menu_is_the_keys_witness:
  "fst (handle_key (press KEnter) (after_rights 2 (new_ui En))) = Quit"
  using menu_is_the_keys [of "new_ui En" 1]
  by (simp add: new_ui_def menu_def ch_def synthetic_def handle_key_def Let_def menu_key_def dispatch_def key_in_list_def
      key_in_drive_def is_key_def case_prod_unfold numeral_2_eq_2)

end
