(* ===== verification/File.thy ===== *)
theory File
  imports Keys Serial
begin

text \<open>
  \<open>file.cpp\<close>: files as message payloads. A file is framed as one type byte, the length of its extension, the
  extension and the bytes; the receiver reduces the extension to a safe alphabet before it becomes part of a
  path, and types a desktop may execute are never staged. The answers of the operating system (opening,
  \<open>fstat\<close>, the reads, the created names) are arguments. Not modelled: the helper process that removes the
  staging folder, and starting the file manager.
\<close>

section \<open>Extensions\<close>

definition kMaxFileBytes :: nat where "kMaxFileBytes = 4 * 1024 * 1024 - 64"
definition kPayloadTypeFile :: byte where "kPayloadTypeFile = 0x02"
definition kMaxExtensionLength :: nat where "kMaxExtensionLength = 16"
definition kJpegMagic :: bytes where "kJpegMagic = [0xFF, 0xD8, 0xFF]"
definition kPngMagic :: bytes where "kPngMagic = [0x89, 0x50, 0x4E, 0x47, 0x0D, 0x0A, 0x1A, 0x0A]"

definition starts_with :: "bytes \<Rightarrow> bytes \<Rightarrow> bool" where
  "starts_with buf magic \<longleftrightarrow> \<not> length buf < length magic \<and> take (length magic) buf = magic"

definition lower_char :: "char \<Rightarrow> char" where
  "lower_char c = (if byte_of_char c \<ge> byte_of_char (CHR ''A'') \<and> byte_of_char c \<le> byte_of_char (CHR ''Z'')
     then char_of_byte (byte_of_char c - byte_of_char (CHR ''A'') + byte_of_char (CHR ''a'')) else c)"

definition wire_char :: "char \<Rightarrow> bool" where
  "wire_char c \<longleftrightarrow> (byte_of_char c \<ge> byte_of_char (CHR ''a'') \<and> byte_of_char c \<le> byte_of_char (CHR ''z'')) \<or>
     (byte_of_char c \<ge> byte_of_char (CHR ''0'') \<and> byte_of_char c \<le> byte_of_char (CHR ''9''))"

text \<open>The loop of \<open>sanitized_extension\<close>, with what it has collected.\<close>

fun sanitize_loop :: "string \<Rightarrow> string \<Rightarrow> string" where
  "sanitize_loop out [] = out"
| "sanitize_loop out (c # cs) =
     (let c = lower_char c;
          out = (if wire_char c then out @ [c] else out)
      in if length out = kMaxExtensionLength then out else sanitize_loop out cs)"

definition sanitized_extension :: "string \<Rightarrow> string" where
  "sanitized_extension ext =
     sanitize_loop [] (if ext \<noteq> [] \<and> hd ext = CHR ''.'' then tl ext else ext)"

text \<open>\<open>std::filesystem::path::extension\<close> of a path: from the last dot of the file name, unless it starts it.\<close>

definition file_name :: "string \<Rightarrow> string" where
  "file_name path = rev (takeWhile (\<lambda>c. c \<noteq> CHR ''/'') (rev path))"

definition path_extension :: "string \<Rightarrow> string" where
  "path_extension path =
     (let name = file_name path;
          after = rev (takeWhile (\<lambda>c. c \<noteq> CHR ''.'') (rev name))
      in if length after + 1 < length name \<and> name \<noteq> ''..'' then CHR ''.'' # after else [])"

definition extension_for :: "string \<Rightarrow> bytes \<Rightarrow> string" where
  "extension_for path raw =
     (if starts_with raw kJpegMagic then ''jpg''
      else if starts_with raw kPngMagic then ''png''
      else let ext = sanitized_extension (path_extension path) in if ext = [] then ''bin'' else ext)"

definition kDangerous :: "string list" where
  "kDangerous =
     [''desktop'', ''sh'', ''bash'', ''zsh'', ''ksh'', ''csh'', ''tcsh'',
      ''fish'', ''py'', ''pyw'', ''pl'', ''rb'', ''js'', ''mjs'',
      ''jar'', ''class'', ''exe'', ''com'', ''bat'', ''cmd'', ''scr'',
      ''vbs'', ''vbe'', ''ps1'', ''psm1'', ''run'', ''service'',
      ''appimage'', ''deb'', ''rpm'', ''apk'', ''elf'', ''so'', ''dll'']"

definition is_dangerous_extension :: "string \<Rightarrow> bool" where
  "is_dangerous_extension ext \<longleftrightarrow> list_ex (\<lambda>denied. ext = denied) kDangerous"

section \<open>Framing\<close>

record file_payload =
  fp_ext :: string
  fp_bytes :: bytes

definition put_ext_length :: "u32 \<Rightarrow> bytes" where
  "put_ext_length v = [ucast (v AND 0xFF), ucast (drop_bit 8 v AND 0xFF), ucast (drop_bit 16 v AND 0xFF),
     ucast (drop_bit 24 v AND 0xFF)]"

definition get_ext_length :: "bytes \<Rightarrow> u32" where
  "get_ext_length p = ucast (p ! 0) OR push_bit 8 (ucast (p ! 1)) OR push_bit 16 (ucast (p ! 2)) OR push_bit 24 (ucast (p ! 3))"

definition encode_file_payload :: "bytes \<Rightarrow> string \<Rightarrow> bytes result" where
  "encode_file_payload raw ext =
     (if ext = [] \<or> length ext > kMaxExtensionLength then Inl (FileError BadExtension)
      else if raw = [] then Inl (FileError EmptyFile)
      else Inr ([kPayloadTypeFile] @ put_ext_length (word_of_nat (length ext)) @ bytes_of_string ext @ raw))"

definition decode_file_payload :: "bytes \<Rightarrow> file_payload option result" where
  "decode_file_payload plaintext =
     (if plaintext = [] \<or> plaintext ! 0 \<noteq> kPayloadTypeFile then Inr None
      else if length plaintext < 7 then Inl (FileError FilePayloadTooShort)
      else let ext_len = unat (get_ext_length (drop 1 plaintext)) in
      if ext_len = 0 \<or> ext_len > kMaxExtensionLength then Inl (FileError BadExtensionLength)
      else if length plaintext < 1 + 4 + ext_len + 1 then Inl (FileError FilePayloadTruncated)
      else let ext = sanitized_extension (string_of_bytes (take ext_len (drop 5 plaintext)))
           in Inr (Some \<lparr>fp_ext = (if ext = [] then ''bin'' else ext), fp_bytes = drop (5 + ext_len) plaintext\<rparr>))"

section \<open>Reading and staging\<close>

text \<open>What the system says of the path: whether it opens, the type and owner, its bytes, and the reads.\<close>

datatype host_read = ReadInterrupted | ReadFailed | ReadBytes nat

record host_file =
  hf_opens :: bool
  hf_stat :: bool
  hf_regular :: bool
  hf_owned :: bool
  hf_bytes :: bytes
  hf_reads :: "host_read list"

text \<open>The read loop; the reads that are not answered are a process that never returns.\<close>

fun load_loop :: "nat \<Rightarrow> nat \<Rightarrow> host_read list \<Rightarrow> bool option" where
  "load_loop goal got rs =
     (if got \<ge> goal then Some True
      else case rs of
        [] \<Rightarrow> None
      | ReadInterrupted # rs \<Rightarrow> load_loop goal got rs
      | ReadFailed # rs \<Rightarrow> Some False
      | ReadBytes n # rs \<Rightarrow> if n = 0 then Some False else load_loop goal (got + min n (goal - got)) rs)"

declare load_loop.simps [simp del]

definition load_file :: "host_file \<Rightarrow> bytes result option" where
  "load_file f =
     (if \<not> hf_opens f then Some (Inl (FileError FileCallFailed))
      else if \<not> hf_stat f then Some (Inl (FileError FileCallFailed))
      else if \<not> hf_regular f then Some (Inl (FileError NotRegular))
      else if \<not> hf_owned f then Some (Inl (FileError NotOwned))
      else let n = length (hf_bytes f) in
      if n = 0 then Some (Inl (FileError EmptyHostFile))
      else if n > kMaxFileBytes then Some (Inl (FileError HostFileTooLarge))
      else case load_loop n 0 (hf_reads f) of
          None \<Rightarrow> None
        | Some False \<Rightarrow> Some (Inl (FileError HostShortRead))
        | Some True \<Rightarrow> Some (Inr (hf_bytes f)))"

text \<open>
  \<open>write_all\<close>, as what has been written when it stops. \<open>stage_file\<close>: the staging folder (empty if none could
  be made), the characters \<open>mkostemps\<close> puts in the template, if it succeeds, and the answers to the writes;
  the path and the bytes of the staged file.
\<close>

fun write_all :: "bytes \<Rightarrow> host_read list \<Rightarrow> bool option" where
  "write_all bs ws =
     (if bs = [] then Some True
      else case ws of
        [] \<Rightarrow> None
      | ReadInterrupted # ws \<Rightarrow> write_all bs ws
      | ReadFailed # ws \<Rightarrow> Some False
      | ReadBytes n # ws \<Rightarrow> write_all (drop n bs) ws)"

declare write_all.simps [simp del]

record staging =
  sg_dir :: string
  sg_made :: "string option"
  sg_writes :: "host_read list"

definition stage_file :: "staging \<Rightarrow> file_payload \<Rightarrow> (string \<times> bytes) result option" where
  "stage_file sg f =
     (if is_dangerous_extension (fp_ext f) then Some (Inl (FileError DangerousExtension))
      else if sg_dir sg = [] then Some (Inl (FileError NoStagingFolder))
      else case sg_made sg of
          None \<Rightarrow> Some (Inl (FileError FileCallFailed))
        | Some xs \<Rightarrow>
            (case write_all (fp_bytes f) (sg_writes sg) of
               None \<Rightarrow> None
             | Some False \<Rightarrow> Some (Inl (FileError FileCallFailed))
             | Some True \<Rightarrow> Some (Inr (sg_dir sg @ ''/ratchet-file-'' @ xs @ ''.'' @ fp_ext f, fp_bytes f))))"

section \<open>Lemmas\<close>

text \<open>An extension as the receiver may use it.\<close>

definition safe_ext :: "string \<Rightarrow> bool" where
  "safe_ext ext \<longleftrightarrow> ext \<noteq> [] \<and> length ext \<le> kMaxExtensionLength \<and> list_all wire_char ext"

lemma wire_fixed:
  assumes "wire_char c"
  shows "lower_char c = c" and "c \<noteq> CHR ''.''" and "c \<noteq> CHR ''/''"
proof -
  have "\<not> byte_of_char c \<le> byte_of_char (CHR ''Z'') \<or> \<not> byte_of_char (CHR ''A'') \<le> byte_of_char c"
    using assms unfolding wire_char_def byte_of_char_def by (auto simp: word_le_nat_alt)
  then show "lower_char c = c"
    by (auto simp: lower_char_def)
  have "\<not> wire_char (CHR ''.'')" "\<not> wire_char (CHR ''/'')"
    by (simp_all add: wire_char_def byte_of_char_def)
  with assms show "c \<noteq> CHR ''.''" "c \<noteq> CHR ''/''"
    by auto
qed

lemma sanitize_loop_wire:
  "list_all wire_char out \<Longrightarrow> length out < kMaxExtensionLength \<Longrightarrow>
   list_all wire_char (sanitize_loop out cs) \<and> length (sanitize_loop out cs) \<le> kMaxExtensionLength"
  by (induction cs arbitrary: out) (simp_all add: Let_def)

lemma sanitize_loop_id:
  "list_all wire_char cs \<Longrightarrow> length out + length cs \<le> kMaxExtensionLength \<Longrightarrow> sanitize_loop out cs = out @ cs"
proof (induction cs arbitrary: out)
  case (Cons c cs)
  then have "cs = []" if "Suc (length out) = kMaxExtensionLength"
    using that by (cases cs) simp_all
  with Cons show ?case
    by (auto simp: Let_def wire_fixed)
qed simp

lemma sanitized_wire: "list_all wire_char (sanitized_extension ext) \<and> length (sanitized_extension ext) \<le> kMaxExtensionLength"
  unfolding sanitized_extension_def by (rule sanitize_loop_wire) (simp_all add: kMaxExtensionLength_def)

lemma sanitized_id: "safe_ext ext \<Longrightarrow> sanitized_extension ext = ext"
  by (cases ext) (simp_all add: sanitized_extension_def safe_ext_def wire_fixed sanitize_loop_id del: sanitize_loop.simps)

lemma safe_names: "safe_ext ''jpg''" "safe_ext ''png''" "safe_ext ''bin''"
  by (simp_all add: safe_ext_def wire_char_def byte_of_char_def kMaxExtensionLength_def)

lemma extension_safe: "safe_ext (extension_for path raw)"
  using sanitized_wire [of "path_extension path"] safe_names
  by (auto simp: extension_for_def Let_def safe_ext_def)

lemma u32_le: "put_ext_length v = le32 v" "4 \<le> length zs \<Longrightarrow> get_u32 zs = Inr (get_ext_length zs, drop 4 zs)"
  by (simp_all add: put_ext_length_def le32_def get_u32_def get_ext_length_def)

lemma get_put_le: "get_ext_length (put_ext_length v @ zs) = v"
  using u32_le(2) [of "le32 v @ zs"] by (simp add: u32_le(1))

lemma decode_encode:
  assumes "safe_ext ext" and "raw \<noteq> []"
  obtains bs where "encode_file_payload raw ext = Inr bs" and "decode_file_payload bs = Inr (Some \<lparr>fp_ext = ext, fp_bytes = raw\<rparr>)"
    and "length bs = 5 + length ext + length raw" and "bs \<noteq> []"
proof -
  let ?bs = "[kPayloadTypeFile] @ put_ext_length (word_of_nat (length ext)) @ bytes_of_string ext @ raw"
  have l: "length (put_ext_length (word_of_nat (length ext))) = 4" and n: "unat (word_of_nat (length ext) :: u32) = length ext"
    and r: "1 \<le> length raw" "1 \<le> length ext"
    using assms by (auto simp: put_ext_length_def safe_ext_def kMaxExtensionLength_def unat_of_nat Suc_le_eq)
  have d: "drop (5 + length ext) ?bs = raw" "take (length ext) (drop 5 ?bs) = bytes_of_string ext"
    using l by (simp_all add: drop_Cons' numeral_eq_Suc)
  have "encode_file_payload raw ext = Inr ?bs"
    using assms by (simp add: encode_file_payload_def safe_ext_def)
  moreover have "decode_file_payload ?bs = Inr (Some \<lparr>fp_ext = ext, fp_bytes = raw\<rparr>)"
    using assms l n d add_mono [OF r]
    by (simp add: decode_file_payload_def get_put_le Let_def sanitized_id safe_ext_def [of ext] Suc_le_eq)
  ultimately show thesis
    using l by (intro that [of ?bs]) simp_all
qed

lemma decode_Some:
  assumes "decode_file_payload bs = Inr (Some f)"
  shows "safe_ext (fp_ext f)" and "hd bs = kPayloadTypeFile" and "bs \<noteq> []" and "fp_bytes f \<noteq> []"
  using assms sanitized_wire safe_names(3)
  by (auto simp: decode_file_payload_def Let_def safe_ext_def hd_conv_nth split: if_splits)

text \<open>A staged file: in the staging folder itself, under a name that ends in the sanitised extension.\<close>

definition staged_inside :: "string \<Rightarrow> string \<Rightarrow> string \<Rightarrow> bool" where
  "staged_inside folder ext path \<longleftrightarrow>
     (\<exists>name. path = folder @ CHR ''/'' # name \<and> CHR ''/'' \<notin> set name \<and> file_name path = name \<and> path_extension path = CHR ''.'' # ext)"

lemma takeWhile_up_to: "x \<notin> set xs \<Longrightarrow> takeWhile (\<lambda>c. c \<noteq> x) (xs @ x # ys) = xs"
  by (induction xs) auto

lemma stage_inside:
  assumes "safe_ext (fp_ext f)" and "stage_file sg f = Some (Inr (path, bs))" and "\<And>xs. sg_made sg = Some xs \<Longrightarrow> CHR ''/'' \<notin> set xs"
  shows "staged_inside (sg_dir sg) (fp_ext f) path" and "bs = fp_bytes f" and "\<not> is_dangerous_extension (fp_ext f)"
proof -
  let ?ext = "fp_ext f"
  obtain xs where xs: "sg_made sg = Some xs" and path: "path = sg_dir sg @ ''/ratchet-file-'' @ xs @ ''.'' @ ?ext"
    and rest: "bs = fp_bytes f" "\<not> is_dangerous_extension ?ext"
    using assms(2) by (auto simp: stage_file_def split: if_splits option.splits bool.splits)
  let ?name = "''ratchet-file-'' @ xs @ ''.'' @ ?ext"
  have no: "CHR ''/'' \<notin> set ?ext" "CHR ''.'' \<notin> set ?ext"
    using assms(1) wire_fixed by (auto simp: safe_ext_def list_all_iff)
  have n: "CHR ''/'' \<notin> set ?name"
    using no assms(3) [OF xs] by simp
  have "rev path = rev ?name @ CHR ''/'' # rev (sg_dir sg)"
    by (simp add: path)
  with takeWhile_up_to [of "CHR ''/''" "rev ?name"] n have fn: "file_name path = ?name"
    unfolding file_name_def by (simp only: set_rev rev_rev_ident simp_thms)
  have "takeWhile (\<lambda>c. c \<noteq> CHR ''.'') (rev ?name) = rev ?ext"
    using takeWhile_up_to [of "CHR ''.''" "rev ?ext" "rev (''ratchet-file-'' @ xs)"] no(2) by simp
  then have "path_extension path = CHR ''.'' # ?ext"
    unfolding path_extension_def fn Let_def by simp
  with fn n show "staged_inside (sg_dir sg) ?ext path"
    by (auto simp: staged_inside_def path)
qed (use assms(2) in \<open>auto simp: stage_file_def split: if_splits option.splits bool.splits\<close>)

text \<open>Text typed on the keyboard is never framed as a file: no key inserts the type byte.\<close>

lemma not_a_char: "csi_to_key params c \<noteq> KChar" "decode_escape inp flush = (n, code) \<Longrightarrow> code \<noteq> KChar"
    "control_key lead = Some code \<Longrightarrow> code \<noteq> KChar"
proof -
  show c: "csi_to_key params c \<noteq> KChar" for params c
    by (simp add: csi_to_key_def)
  show "decode_escape inp flush = (n, code) \<Longrightarrow> code \<noteq> KChar"
    using c by (auto simp: decode_escape_def Let_def split: if_splits scan.splits)
  show "control_key lead = Some code \<Longrightarrow> code \<noteq> KChar"
    by (auto simp: control_key_def split: if_splits)
qed

lemma decoded_char:
  assumes "decode_key inp flush = (n, k)" and "k_code k = KChar"
  shows "k_text k \<noteq> []" and "0x20 \<le> byte_of_char (hd (k_text k))"
proof -
  have "k_text k = take n inp \<and> 0 < n \<and> inp \<noteq> [] \<and> 0x20 \<le> byte_of_char (hd inp)"
    using assms not_a_char by (auto simp: decode_key_def Let_def not_less split: if_splits prod.splits option.splits)
  then show "k_text k \<noteq> []" "0x20 \<le> byte_of_char (hd (k_text k))"
    by (cases inp; simp; cases n; simp)+
qed

lemma typed_text_is_text:
  assumes "s \<noteq> []" and "0x20 \<le> byte_of_char (hd s) \<or> hd s = CHR 0x0A"
  shows "decode_file_payload (bytes_of_string s) = Inr None"
proof -
  have "byte_of_char (hd s) \<noteq> 0x02"
    using assms(2) by (auto simp: byte_of_char_def word_le_nat_alt)
  with assms(1) show ?thesis
    by (cases s) (auto simp: decode_file_payload_def bytes_of_string_def kPayloadTypeFile_def)
qed

section \<open>Properties\<close>

text \<open>C33: A file arrives as it was sent: whatever its name and contents, if it is not empty it is framed under the
  extension chosen for it, and the receiver gets back exactly that extension and those bytes. What the receiver
  may stage is contained: a payload from anybody that is accepted at all has an extension of one to sixteen
  lower-case letters and digits, and if it is staged then under a name directly in the staging folder with
  exactly that extension, never one of a type the desktop may run.\<close>

theorem file_payload_contained:
  assumes "\<And>xs. sg_made sg = Some xs \<Longrightarrow> CHR ''/'' \<notin> set xs"
  shows "(raw \<noteq> [] \<longrightarrow> (\<exists>bs. encode_file_payload raw (extension_for path raw) = Inr bs \<and>
       decode_file_payload bs = Inr (Some \<lparr>fp_ext = extension_for path raw, fp_bytes = raw\<rparr>))) \<and>
     (\<forall>f staged bs'. decode_file_payload plaintext = Inr (Some f) \<and> stage_file sg f = Some (Inr (staged, bs')) \<longrightarrow>
       safe_ext (fp_ext f) \<and> staged_inside (sg_dir sg) (fp_ext f) staged \<and> bs' = fp_bytes f \<and> fp_ext f \<notin> set kDangerous)"
proof (intro conjI impI allI)
  show "\<exists>bs. encode_file_payload raw (extension_for path raw) = Inr bs \<and>
      decode_file_payload bs = Inr (Some \<lparr>fp_ext = extension_for path raw, fp_bytes = raw\<rparr>)" if "raw \<noteq> []"
    by (rule decode_encode [OF extension_safe [of path raw] that]) blast
  fix f staged bs'
  assume f: "decode_file_payload plaintext = Inr (Some f) \<and> stage_file sg f = Some (Inr (staged, bs'))"
  then show s: "safe_ext (fp_ext f)"
    using decode_Some(1) by blast
  from f have g: "stage_file sg f = Some (Inr (staged, bs'))"
    by simp
  show "staged_inside (sg_dir sg) (fp_ext f) staged"
    by (rule stage_inside(1) [OF s g]) (rule assms)
  show "bs' = fp_bytes f"
    by (rule stage_inside(2) [OF s g]) (rule assms)
  have "\<not> is_dangerous_extension (fp_ext f)"
    by (rule stage_inside(3) [OF s g]) (rule assms)
  then show "fp_ext f \<notin> set kDangerous"
    by (auto simp: is_dangerous_extension_def list_ex_iff)
qed

lemma file_payload_contained_witness:
  "\<exists>bs. encode_file_payload [1] (extension_for ''/tmp/.a/Foto.PDF'' [1]) = Inr bs \<and>
     decode_file_payload bs = Inr (Some \<lparr>fp_ext = ''pdf'', fp_bytes = [1]\<rparr>)"
proof -
  have "extension_for ''/tmp/.a/Foto.PDF'' [1] = ''pdf''"
    by code_simp
  moreover have "CHR ''/'' \<notin> set xs" if "sg_made \<lparr>sg_dir = ''/run'', sg_made = Some ''aB3'', sg_writes = [ReadBytes 1]\<rparr> = Some xs" for xs
    using that by auto
  ultimately show ?thesis
    using file_payload_contained [of "\<lparr>sg_dir = ''/run'', sg_made = Some ''aB3'', sg_writes = [ReadBytes 1]\<rparr>" "[1]" "''/tmp/.a/Foto.PDF''" "[]"]
    by auto
qed

end
