(* ===== verification/Command_Line.thy ===== *)
theory Command_Line
  imports Localised Vault
begin

text \<open>
  \<open>cli.cpp\<close>: the command line grammar. \<open>parse_args\<close> is a function from the arguments, without the program's
  name, to the options or an error; which command takes which options is the table \<open>specs\<close>.
\<close>

section \<open>Options\<close>

datatype usage_error =
    NeedsValue          \<comment> \<open>... needs a value\<close>
  | NotANumber          \<comment> \<open>... expects a positive integer\<close>
  | CountTooLarge       \<comment> \<open>--otpk-count and --replenish-otpk are at most 1000\<close>
  | WordsOutOfRange     \<comment> \<open>--passphrase-words is between 6 and 12\<close>
  | EmptyPayload        \<comment> \<open>--stdin-payload expects a positive byte count\<close>
  | BadLanguage         \<comment> \<open>--lang takes en or it\<close>
  | IdleTooLong         \<comment> \<open>--idle-lock is at most 86400 seconds\<close>
  | UnknownArgument     \<comment> \<open>unknown argument\<close>
  | CommandNotFirst     \<comment> \<open>the command has to come first\<close>
  | NoCommand           \<comment> \<open>no command given\<close>
  | UnknownCommand      \<comment> \<open>unknown command\<close>
  | NotAnOption         \<comment> \<open>... is not an option of ...\<close>
  | SurplusArgument     \<comment> \<open>unexpected argument\<close>

definition kMaxOtpkCount :: nat where "kMaxOtpkCount = 1000"
definition kDefaultIdleLockSeconds :: nat where "kDefaultIdleLockSeconds = 180"
definition kMaxIdleLockSeconds :: nat where "kMaxIdleLockSeconds = 24 * 60 * 60"
definition kMinWords :: nat where "kMinWords = 6"
definition kMaxWords :: nat where "kMaxWords = 12"
definition kDefaultWords :: nat where "kDefaultWords = 12"
definition kDefaultTimeCost :: u32 where "kDefaultTimeCost = 3"
definition kDefaultMemCostKb :: u32 where "kDefaultMemCostKb = 256 * 1024"

record options =
  op_command :: string
  op_usb_path :: string
  op_force :: bool
  op_params :: params
  op_otpk_count :: nat
  op_rotate_spk :: bool
  op_replenish_otpk :: nat
  op_fingerprint_only :: bool
  op_from_mnemonic :: bool
  op_structured_output :: bool
  op_commit :: bool
  op_assume_yes :: bool
  op_confirmed :: bool
  op_expect_fingerprint :: "string option"
  op_show_fingerprint :: bool
  op_stage_received :: bool
  op_passphrase_words :: nat
  op_name :: string
  op_to :: string
  op_group_members :: "string list"
  op_card_file :: string
  op_file_path :: string
  op_message :: "string option"
  op_stdin_payload_bytes :: "nat option"
  op_lang :: string
  op_idle_lock_seconds :: nat
  op_no_arguments :: bool

definition default_options :: options where
  "default_options = \<lparr>op_command = [], op_usb_path = [], op_force = False,
     op_params = \<lparr>pr_time_cost = kDefaultTimeCost, pr_mem_cost_kb = kDefaultMemCostKb\<rparr>, op_otpk_count = 10,
     op_rotate_spk = False, op_replenish_otpk = 0, op_fingerprint_only = False, op_from_mnemonic = False,
     op_structured_output = False, op_commit = False, op_assume_yes = False, op_confirmed = False,
     op_expect_fingerprint = None, op_show_fingerprint = False, op_stage_received = False,
     op_passphrase_words = kDefaultWords, op_name = [], op_to = [], op_group_members = [], op_card_file = [],
     op_file_path = [], op_message = None, op_stdin_payload_bytes = None, op_lang = [],
     op_idle_lock_seconds = kDefaultIdleLockSeconds, op_no_arguments = False\<rparr>"

section \<open>Parsing\<close>

record command_spec =
  cs_name :: string
  cs_options :: "string list"
  cs_max_positional :: nat

definition spec_row :: "string \<Rightarrow> string list \<Rightarrow> nat \<Rightarrow> command_spec" where
  "spec_row n os k = \<lparr>cs_name = n, cs_options = os, cs_max_positional = k\<rparr>"

definition specs :: "command_spec list" where
  "specs =
     [spec_row ''init'' [''--usb-path'', ''--force'', ''--otpk-count'', ''--argon2-time'', ''--argon2-mem-kb'',
        ''--from-mnemonic'', ''--passphrase-words'', ''--structured-output''] 0,
      spec_row ''unlock'' [''--usb-path''] 0,
      spec_row ''passphrase'' [''--usb-path'', ''--passphrase-words'', ''--structured-output''] 0,
      spec_row ''anchor'' [''--usb-path''] 0,
      spec_row ''migrate'' [''--usb-path'', ''--commit''] 0,
      spec_row ''card'' [''--usb-path'', ''--fingerprint'', ''--rotate-spk'', ''--replenish-otpk''] 0,
      spec_row ''add'' [''--usb-path'', ''--card''] 1,
      spec_row ''contacts'' [''--usb-path''] 0,
      spec_row ''trust'' [''--usb-path'', ''--confirmed'', ''--show-fingerprint'', ''--expect-fingerprint''] 1,
      spec_row ''reset-session'' [''--usb-path''] 1,
      spec_row ''remove'' [''--usb-path'', ''--yes''] 1,
      spec_row ''send'' [''--usb-path'', ''--file'', ''--stdin-payload''] 2,
      spec_row ''group-send'' [''--usb-path'', ''--to'', ''--stdin-payload''] 1,
      spec_row ''outbox'' [''--usb-path''] 0,
      spec_row ''recv'' [''--usb-path'', ''--stage-file'', ''--stdin-payload'', ''--structured-output''] 1,
      spec_row ''ui'' [''--usb-path'', ''--lang'', ''--idle-lock''] 0]"

definition find_spec :: "string \<Rightarrow> command_spec option" where
  "find_spec command = find (\<lambda>s. cs_name s = command) specs"

text \<open>\<open>std::from_chars\<close> over the whole text: digits only, no sign, in 32 bits.\<close>

definition digit_value :: "char \<Rightarrow> nat" where
  "digit_value c = unat (byte_of_char c) - 48"

definition is_digit :: "char \<Rightarrow> bool" where
  "is_digit c \<longleftrightarrow> 48 \<le> unat (byte_of_char c) \<and> unat (byte_of_char c) \<le> 57"

definition parse_u32 :: "string \<Rightarrow> usage_error + nat" where
  "parse_u32 s =
     (let v = foldl (\<lambda>n c. 10 * n + digit_value c) 0 s
      in if s = [] \<or> \<not> list_all is_digit s \<or> v \<ge> 2 ^ 32 then Inl NotANumber else Inr v)"

definition number_option ::
  "(nat \<Rightarrow> usage_error option) \<Rightarrow> (nat \<Rightarrow> options \<Rightarrow> options) \<Rightarrow> string \<Rightarrow> options \<Rightarrow> usage_error + options" where
  "number_option check store v opts =
     (case parse_u32 v of Inl e \<Rightarrow> Inl e
      | Inr n \<Rightarrow> (case check n of Some e \<Rightarrow> Inl e | None \<Rightarrow> Inr (store n opts)))"

definition at_most :: "nat \<Rightarrow> usage_error \<Rightarrow> nat \<Rightarrow> usage_error option" where
  "at_most k e n = (if n > k then Some e else None)"

text \<open>The flags without a value.\<close>

definition flag_option :: "string \<Rightarrow> (options \<Rightarrow> options) option" where
  "flag_option arg =
     (if arg = ''--force'' then Some (op_force_update (\<lambda>_. True))
      else if arg = ''--rotate-spk'' then Some (op_rotate_spk_update (\<lambda>_. True))
      else if arg = ''--fingerprint'' then Some (op_fingerprint_only_update (\<lambda>_. True))
      else if arg = ''--from-mnemonic'' then Some (op_from_mnemonic_update (\<lambda>_. True))
      else if arg = ''--structured-output'' then Some (op_structured_output_update (\<lambda>_. True))
      else if arg = ''--commit'' then Some (op_commit_update (\<lambda>_. True))
      else if arg = ''--yes'' then Some (op_assume_yes_update (\<lambda>_. True))
      else if arg = ''--confirmed'' then Some (op_confirmed_update (\<lambda>_. True))
      else if arg = ''--show-fingerprint'' then Some (op_show_fingerprint_update (\<lambda>_. True))
      else if arg = ''--stage-file'' then Some (op_stage_received_update (\<lambda>_. True))
      else None)"

text \<open>The options with a value, applied to it.\<close>

definition valued_option :: "string \<Rightarrow> (string \<Rightarrow> options \<Rightarrow> usage_error + options) option" where
  "valued_option arg =
     (if arg = ''--usb-path'' then Some (\<lambda>v opts. Inr (opts\<lparr>op_usb_path := v\<rparr>))
      else if arg = ''--otpk-count'' then
        Some (number_option (at_most kMaxOtpkCount CountTooLarge) (\<lambda>n opts. opts\<lparr>op_otpk_count := n\<rparr>))
      else if arg = ''--argon2-time'' then Some (number_option (\<lambda>_. None)
        (\<lambda>n opts. opts\<lparr>op_params := (op_params opts)\<lparr>pr_time_cost := word_of_nat n\<rparr>\<rparr>))
      else if arg = ''--argon2-mem-kb'' then Some (number_option (\<lambda>_. None)
        (\<lambda>n opts. opts\<lparr>op_params := (op_params opts)\<lparr>pr_mem_cost_kb := word_of_nat n\<rparr>\<rparr>))
      else if arg = ''--replenish-otpk'' then
        Some (number_option (at_most kMaxOtpkCount CountTooLarge) (\<lambda>n opts. opts\<lparr>op_replenish_otpk := n\<rparr>))
      else if arg = ''--passphrase-words'' then
        Some (number_option (\<lambda>n. if n < kMinWords \<or> n > kMaxWords then Some WordsOutOfRange else None)
          (\<lambda>n opts. opts\<lparr>op_passphrase_words := n\<rparr>))
      else if arg = ''--expect-fingerprint'' then Some (\<lambda>v opts. Inr (opts\<lparr>op_expect_fingerprint := Some v\<rparr>))
      else if arg = ''--stdin-payload'' then
        Some (number_option (\<lambda>n. if n = 0 then Some EmptyPayload else None)
          (\<lambda>n opts. opts\<lparr>op_stdin_payload_bytes := Some n\<rparr>))
      else if arg = ''--lang'' then
        Some (\<lambda>v opts. if \<not> is_valid_choice v then Inl BadLanguage else Inr (opts\<lparr>op_lang := v\<rparr>))
      else if arg = ''--idle-lock'' then
        Some (number_option (at_most kMaxIdleLockSeconds IdleTooLong) (\<lambda>n opts. opts\<lparr>op_idle_lock_seconds := n\<rparr>))
      else if arg = ''--to'' then Some (\<lambda>v opts. Inr (opts\<lparr>op_group_members := op_group_members opts @ [v]\<rparr>))
      else if arg = ''--card'' then Some (\<lambda>v opts. Inr (opts\<lparr>op_card_file := v\<rparr>))
      else if arg = ''--file'' then Some (\<lambda>v opts. Inr (opts\<lparr>op_file_path := v\<rparr>))
      else None)"

definition begins :: "string \<Rightarrow> string \<Rightarrow> bool" where
  "begins p s \<longleftrightarrow> take (length p) s = p"

text \<open>
  The loop: options, positional arguments and options seen so far, and whether a bare \<open>--\<close> has come. It stops
  early at \<open>--help\<close> and \<open>--version\<close>, which is the last component of the result.
\<close>

fun parse_loop ::
  "bool \<Rightarrow> options \<Rightarrow> string list \<Rightarrow> string list \<Rightarrow> string list \<Rightarrow>
     usage_error + (options \<times> string list \<times> string list \<times> bool)" where
  "parse_loop flags_done opts pos seen [] = Inr (opts, pos, seen, False)"
| "parse_loop flags_done opts pos seen (arg # args) =
     (if arg = ''--'' then parse_loop True opts pos seen args
      else if flags_done then parse_loop True opts (pos @ [arg]) seen args
      else if begins ''-----BEGIN'' arg then parse_loop False opts (pos @ [arg]) seen args
      else if arg = ''-h'' \<or> arg = ''--help'' then Inr (opts\<lparr>op_command := ''help''\<rparr>, pos, seen, True)
      else if arg = ''-V'' \<or> arg = ''--version'' then Inr (opts\<lparr>op_command := ''version''\<rparr>, pos, seen, True)
      else case flag_option arg of
        Some apply_to \<Rightarrow> parse_loop False (apply_to opts) pos (seen @ [arg]) args
      | None \<Rightarrow>
          (case valued_option arg of
             Some apply_to \<Rightarrow>
               (case args of
                  [] \<Rightarrow> Inl NeedsValue
                | v # rest \<Rightarrow>
                    (case apply_to v opts of
                       Inl e \<Rightarrow> Inl e
                     | Inr opts' \<Rightarrow> parse_loop False opts' pos (seen @ [arg]) rest))
           | None \<Rightarrow>
               if begins ''-'' arg \<and> arg \<noteq> ''-'' then Inl UnknownArgument
               else parse_loop False opts (pos @ [arg]) seen args))"

definition assign_positional :: "options \<Rightarrow> string list \<Rightarrow> options" where
  "assign_positional opts pos =
     (if op_command opts \<in> {''add'', ''trust'', ''reset-session'', ''remove''} then
        (case pos of v # _ \<Rightarrow> opts\<lparr>op_name := v\<rparr> | [] \<Rightarrow> opts)
      else if op_command opts = ''group-send'' then (case pos of v # _ \<Rightarrow> opts\<lparr>op_message := Some v\<rparr> | [] \<Rightarrow> opts)
      else if op_command opts = ''send'' then
        (case pos of
           [] \<Rightarrow> opts
         | [v] \<Rightarrow> opts\<lparr>op_to := v\<rparr>
         | v # w # _ \<Rightarrow> opts\<lparr>op_to := v, op_message := Some w\<rparr>)
      else if op_command opts = ''recv'' then (case pos of v # _ \<Rightarrow> opts\<lparr>op_message := Some v\<rparr> | [] \<Rightarrow> opts)
      else opts)"

definition finish_args :: "options \<Rightarrow> string list \<Rightarrow> string list \<Rightarrow> usage_error + options" where
  "finish_args opts pos seen =
     (if op_command opts = [] then Inl (if pos \<noteq> [] then CommandNotFirst else NoCommand)
      else case find_spec (op_command opts) of
        None \<Rightarrow> Inl UnknownCommand
      | Some spec \<Rightarrow>
          if \<not> list_all (\<lambda>s. s \<in> set (cs_options spec)) seen then Inl NotAnOption
          else if length pos > cs_max_positional spec then Inl SurplusArgument
          else Inr (assign_positional opts pos))"

definition parse_args :: "string list \<Rightarrow> usage_error + options" where
  "parse_args args =
     (if args = [] then Inr (default_options\<lparr>op_command := ''ui'', op_no_arguments := True\<rparr>)
      else let (opts, rest) = (if \<not> begins ''-'' (hd args) then (default_options\<lparr>op_command := hd args\<rparr>, tl args)
                               else (default_options, args))
           in case parse_loop False opts [] [] rest of
                Inl e \<Rightarrow> Inl e
              | Inr (opts', pos, seen, True) \<Rightarrow> Inr opts'
              | Inr (opts', pos, seen, False) \<Rightarrow> finish_args opts' pos seen)"

section \<open>What an option can do\<close>

text \<open>The part of the options an option may set.\<close>

definition only_seen :: "string list \<Rightarrow> options \<Rightarrow> bool" where
  "only_seen seen opts \<longleftrightarrow>
     (op_force opts \<longrightarrow> ''--force'' \<in> set seen) \<and>
     (op_rotate_spk opts \<longrightarrow> ''--rotate-spk'' \<in> set seen) \<and>
     (op_replenish_otpk opts \<noteq> 0 \<longrightarrow> ''--replenish-otpk'' \<in> set seen) \<and>
     (op_fingerprint_only opts \<longrightarrow> ''--fingerprint'' \<in> set seen) \<and>
     (op_from_mnemonic opts \<longrightarrow> ''--from-mnemonic'' \<in> set seen) \<and>
     (op_structured_output opts \<longrightarrow> ''--structured-output'' \<in> set seen) \<and>
     (op_commit opts \<longrightarrow> ''--commit'' \<in> set seen) \<and>
     (op_assume_yes opts \<longrightarrow> ''--yes'' \<in> set seen) \<and>
     (op_confirmed opts \<longrightarrow> ''--confirmed'' \<in> set seen) \<and>
     (op_expect_fingerprint opts \<noteq> None \<longrightarrow> ''--expect-fingerprint'' \<in> set seen) \<and>
     (op_show_fingerprint opts \<longrightarrow> ''--show-fingerprint'' \<in> set seen) \<and>
     (op_stage_received opts \<longrightarrow> ''--stage-file'' \<in> set seen) \<and>
     (op_group_members opts \<noteq> [] \<longrightarrow> ''--to'' \<in> set seen) \<and>
     (op_card_file opts \<noteq> [] \<longrightarrow> ''--card'' \<in> set seen) \<and>
     (op_file_path opts \<noteq> [] \<longrightarrow> ''--file'' \<in> set seen) \<and>
     (op_stdin_payload_bytes opts \<noteq> None \<longrightarrow> ''--stdin-payload'' \<in> set seen) \<and>
     (op_idle_lock_seconds opts \<noteq> kDefaultIdleLockSeconds \<longrightarrow> ''--idle-lock'' \<in> set seen)"

definition within_limits :: "options \<Rightarrow> bool" where
  "within_limits opts \<longleftrightarrow> op_otpk_count opts \<le> kMaxOtpkCount \<and> op_replenish_otpk opts \<le> kMaxOtpkCount \<and>
     kMinWords \<le> op_passphrase_words opts \<and> op_passphrase_words opts \<le> kMaxWords \<and>
     op_idle_lock_seconds opts \<le> kMaxIdleLockSeconds \<and> op_stdin_payload_bytes opts \<noteq> Some 0 \<and>
     (op_lang opts = [] \<or> is_valid_choice (op_lang opts))"

lemma only_seen_more: "only_seen seen opts \<Longrightarrow> only_seen (seen @ xs) opts"
  by (auto simp: only_seen_def)

definition sets_only :: "string \<Rightarrow> (options \<Rightarrow> options) \<Rightarrow> bool" where
  "sets_only arg f \<longleftrightarrow> (\<forall>seen opts. only_seen seen opts \<and> arg \<in> set seen \<and> within_limits opts \<longrightarrow> only_seen seen (f opts) \<and> within_limits (f opts))"

lemma flags_set_only:
  "sets_only ''--force'' (op_force_update (\<lambda>_. True))" "sets_only ''--rotate-spk'' (op_rotate_spk_update (\<lambda>_. True))"
  "sets_only ''--fingerprint'' (op_fingerprint_only_update (\<lambda>_. True))"
  "sets_only ''--from-mnemonic'' (op_from_mnemonic_update (\<lambda>_. True))"
  "sets_only ''--structured-output'' (op_structured_output_update (\<lambda>_. True))"
  "sets_only ''--commit'' (op_commit_update (\<lambda>_. True))" "sets_only ''--yes'' (op_assume_yes_update (\<lambda>_. True))"
  "sets_only ''--confirmed'' (op_confirmed_update (\<lambda>_. True))"
  "sets_only ''--show-fingerprint'' (op_show_fingerprint_update (\<lambda>_. True))"
  "sets_only ''--stage-file'' (op_stage_received_update (\<lambda>_. True))"
  by (simp_all add: sets_only_def only_seen_def within_limits_def)

lemma only_seen_set: "set a = set b \<Longrightarrow> only_seen a opts = only_seen b opts"
  by (simp add: only_seen_def)

lemma only_seen_subset:
  assumes "only_seen seen opts" and "set seen \<subseteq> set os"
  shows "only_seen os opts"
proof -
  have "set (seen @ os) = set os"
    using assms(2) by auto
  from only_seen_set [OF this, of opts] only_seen_more [OF assms(1), of os] show ?thesis
    by simp
qed

lemma flag_option_only: "flag_option arg = Some f \<Longrightarrow> sets_only arg f"
proof -
  have step: "(if arg = a then Some g else r) = Some f \<Longrightarrow> sets_only a g \<Longrightarrow> (r = Some f \<Longrightarrow> sets_only arg f) \<Longrightarrow> sets_only arg f" for a g r
    by (cases "arg = a") simp_all
  show "flag_option arg = Some f \<Longrightarrow> sets_only arg f"
    unfolding flag_option_def
    by (erule step, rule flags_set_only)+ simp
qed

definition sets_valued :: "string \<Rightarrow> (string \<Rightarrow> options \<Rightarrow> usage_error + options) \<Rightarrow> bool" where
  "sets_valued arg g \<longleftrightarrow> (\<forall>v seen opts opts'. only_seen seen opts \<and> arg \<in> set seen \<and> within_limits opts \<and> g v opts = Inr opts' \<longrightarrow>
     only_seen seen opts' \<and> within_limits opts')"

lemma number_option_Inr:
  "number_option check store v opts = Inr opts' \<longleftrightarrow> (\<exists>n. parse_u32 v = Inr n \<and> check n = None \<and> opts' = store n opts)"
  by (auto simp: number_option_def split: sum.splits option.splits)

lemma number_only:
  assumes "\<And>seen opts n. only_seen seen opts \<Longrightarrow> arg \<in> set seen \<Longrightarrow> within_limits opts \<Longrightarrow> check n = None \<Longrightarrow>
      only_seen seen (store n opts) \<and> within_limits (store n opts)"
  shows "sets_valued arg (number_option check store)"
  using assms by (auto simp: sets_valued_def number_option_Inr)

lemma at_most_None: "at_most k e n = None \<longleftrightarrow> n \<le> k"
  by (simp add: at_most_def)

lemma numbers_set_only:
  "sets_valued ''--otpk-count'' (number_option (at_most kMaxOtpkCount CountTooLarge) (\<lambda>n opts. opts\<lparr>op_otpk_count := n\<rparr>))"
  "sets_valued ''--argon2-time'' (number_option (\<lambda>_. None) (\<lambda>n opts. opts\<lparr>op_params := (op_params opts)\<lparr>pr_time_cost := word_of_nat n\<rparr>\<rparr>))"
  "sets_valued ''--argon2-mem-kb'' (number_option (\<lambda>_. None) (\<lambda>n opts. opts\<lparr>op_params := (op_params opts)\<lparr>pr_mem_cost_kb := word_of_nat n\<rparr>\<rparr>))"
  "sets_valued ''--replenish-otpk'' (number_option (at_most kMaxOtpkCount CountTooLarge) (\<lambda>n opts. opts\<lparr>op_replenish_otpk := n\<rparr>))"
  "sets_valued ''--passphrase-words'' (number_option (\<lambda>n. if n < kMinWords \<or> n > kMaxWords then Some WordsOutOfRange else None)
     (\<lambda>n opts. opts\<lparr>op_passphrase_words := n\<rparr>))"
  "sets_valued ''--stdin-payload'' (number_option (\<lambda>n. if n = 0 then Some EmptyPayload else None)
     (\<lambda>n opts. opts\<lparr>op_stdin_payload_bytes := Some n\<rparr>))"
  "sets_valued ''--idle-lock'' (number_option (at_most kMaxIdleLockSeconds IdleTooLong) (\<lambda>n opts. opts\<lparr>op_idle_lock_seconds := n\<rparr>))"
  by (rule number_only; simp add: only_seen_def within_limits_def at_most_None split: if_split_asm)+

lemma texts_set_only:
  "sets_valued ''--usb-path'' (\<lambda>v opts. Inr (opts\<lparr>op_usb_path := v\<rparr>))"
  "sets_valued ''--expect-fingerprint'' (\<lambda>v opts. Inr (opts\<lparr>op_expect_fingerprint := Some v\<rparr>))"
  "sets_valued ''--lang'' (\<lambda>v opts. if \<not> is_valid_choice v then Inl BadLanguage else Inr (opts\<lparr>op_lang := v\<rparr>))"
  "sets_valued ''--to'' (\<lambda>v opts. Inr (opts\<lparr>op_group_members := op_group_members opts @ [v]\<rparr>))"
  "sets_valued ''--card'' (\<lambda>v opts. Inr (opts\<lparr>op_card_file := v\<rparr>))"
  "sets_valued ''--file'' (\<lambda>v opts. Inr (opts\<lparr>op_file_path := v\<rparr>))"
  by (simp_all add: sets_valued_def only_seen_def within_limits_def)

lemma valued_option_only: "valued_option arg = Some g \<Longrightarrow> sets_valued arg g"
proof -
  have step: "(if arg = a then Some h else r) = Some g \<Longrightarrow> sets_valued a h \<Longrightarrow> (r = Some g \<Longrightarrow> sets_valued arg g) \<Longrightarrow> sets_valued arg g" for a h r
    by (cases "arg = a") simp_all
  show "valued_option arg = Some g \<Longrightarrow> sets_valued arg g"
    unfolding valued_option_def
    by (erule step, (rule numbers_set_only | rule texts_set_only))+ simp
qed

text \<open>One turn of the loop, with its tests kept whole.\<close>

definition is_help :: "string \<Rightarrow> bool" where "is_help arg \<longleftrightarrow> arg = ''-h'' \<or> arg = ''--help''"
definition is_version :: "string \<Rightarrow> bool" where "is_version arg \<longleftrightarrow> arg = ''-V'' \<or> arg = ''--version''"
definition is_separator :: "string \<Rightarrow> bool" where "is_separator arg \<longleftrightarrow> arg = ''--''"
definition is_pasted :: "string \<Rightarrow> bool" where "is_pasted arg \<longleftrightarrow> begins ''-----BEGIN'' arg"
definition is_unknown :: "string \<Rightarrow> bool" where "is_unknown arg \<longleftrightarrow> begins ''-'' arg \<and> arg \<noteq> ''-''"

lemma parse_Cons: "parse_loop flags_done opts pos seen (arg # args) =
     (if is_separator arg then parse_loop True opts pos seen args
      else if flags_done then parse_loop True opts (pos @ [arg]) seen args
      else if is_pasted arg then parse_loop False opts (pos @ [arg]) seen args
      else if is_help arg then Inr (opts\<lparr>op_command := ''help''\<rparr>, pos, seen, True)
      else if is_version arg then Inr (opts\<lparr>op_command := ''version''\<rparr>, pos, seen, True)
      else case (flag_option arg, valued_option arg, args) of
        (Some f, _, _) \<Rightarrow> parse_loop False (f opts) pos (seen @ [arg]) args
      | (None, Some g, []) \<Rightarrow> Inl NeedsValue
      | (None, Some g, v # rest) \<Rightarrow>
          (case g v opts of Inl e \<Rightarrow> Inl e | Inr opts' \<Rightarrow> parse_loop False opts' pos (seen @ [arg]) rest)
      | (None, None, _) \<Rightarrow> if is_unknown arg then Inl UnknownArgument else parse_loop False opts (pos @ [arg]) seen args)"
  unfolding is_help_def is_version_def is_separator_def is_pasted_def is_unknown_def
  by (subst parse_loop.simps) (cases "flag_option arg"; cases "valued_option arg"; cases args; simp only: option.case list.case prod.case)

declare parse_loop.simps [simp del]

lemma parse_loop_end: "parse_loop flags_done opts pos seen [] = Inr (opts, pos, seen, False)"
  by (simp add: parse_loop.simps)

lemmas parse_tests = is_help_def is_version_def is_separator_def is_pasted_def is_unknown_def

lemma parse_loop_only:
  assumes "parse_loop flags_done opts pos seen args = Inr (opts', pos', seen', stopped)"
    and "only_seen seen opts" and "within_limits opts"
  shows "only_seen seen' opts' \<and> within_limits opts' \<and> (stopped \<longrightarrow> op_command opts' \<in> {''help'', ''version''})"
  using assms
proof (induction "length args" arbitrary: flags_done opts pos seen args rule: less_induct)
  case less
  show ?case
  proof (cases args)
    case Nil
    with less.prems show ?thesis
      by (auto simp: parse_loop_end)
  next
    case (Cons arg rest)
    have more: "only_seen (seen @ [arg]) opts"
      by (rule only_seen_more [OF less.prems(2)])
    have cmd: "only_seen seen (opts\<lparr>op_command := c\<rparr>) \<and> within_limits (opts\<lparr>op_command := c\<rparr>)" for c
      using less.prems(2,3) by (simp add: only_seen_def within_limits_def)
    have shorter: "length rest < length args" "v # tail = rest \<Longrightarrow> length tail < length args" for v tail
      using Cons by auto
    show ?thesis
    proof (cases "is_separator arg \<or> flags_done \<or> is_pasted arg \<or> is_help arg \<or> is_version arg")
      case True
      then show ?thesis
        using less.prems cmd less.hyps [OF shorter(1)]
        unfolding Cons parse_Cons by (auto split: if_split_asm)
    next
      case False
      then have n: "\<not> is_separator arg" "\<not> flags_done" "\<not> is_pasted arg" "\<not> is_help arg" "\<not> is_version arg"
        by simp_all
      note r = less.prems(1) [unfolded Cons parse_Cons, simplified n if_False]
      show ?thesis
      proof (cases "flag_option arg")
        case (Some f)
        have "only_seen (seen @ [arg]) (f opts) \<and> within_limits (f opts)"
          using flag_option_only [OF Some] less.prems(3) more unfolding sets_only_def by (metis in_set_conv_decomp)
        moreover have "parse_loop False (f opts) pos (seen @ [arg]) rest = Inr (opts', pos', seen', stopped)"
          using r Some by simp
        ultimately show ?thesis
          using less.hyps [OF shorter(1)] by blast
      next
        case None
        show ?thesis
        proof (cases "valued_option arg")
          case n': None
          with r None have "parse_loop False opts (pos @ [arg]) seen rest = Inr (opts', pos', seen', stopped)"
            by (simp split: if_split_asm)
          then show ?thesis
            using less.hyps [OF shorter(1)] less.prems(2,3) by blast
        next
          case (Some g)
          with r None obtain v tail opts1 where a: "rest = v # tail" and g: "g v opts = Inr opts1"
            and r': "parse_loop False opts1 pos (seen @ [arg]) tail = Inr (opts', pos', seen', stopped)"
            by (simp split: list.splits sum.splits)
          have "only_seen (seen @ [arg]) opts1 \<and> within_limits opts1"
            using valued_option_only [OF Some] less.prems(3) g more unfolding sets_valued_def by (metis in_set_conv_decomp)
          with less.hyps [OF shorter(2) [OF a [symmetric]]] r' show ?thesis
            by blast
        qed
      qed
    qed
  qed
qed

text \<open>The commands that take the options with consequences.\<close>

definition spec_ok :: "command_spec \<Rightarrow> bool" where
  "spec_ok s \<longleftrightarrow>
     (''--force'' \<in> set (cs_options s) \<or> ''--from-mnemonic'' \<in> set (cs_options s) \<longrightarrow> cs_name s = ''init'') \<and>
     (''--commit'' \<in> set (cs_options s) \<longrightarrow> cs_name s = ''migrate'') \<and>
     (''--yes'' \<in> set (cs_options s) \<longrightarrow> cs_name s = ''remove'') \<and>
     (''--confirmed'' \<in> set (cs_options s) \<or> ''--show-fingerprint'' \<in> set (cs_options s) \<longrightarrow> cs_name s = ''trust'') \<and>
     (''--to'' \<in> set (cs_options s) \<longrightarrow> cs_name s = ''group-send'') \<and>
     (''--stdin-payload'' \<in> set (cs_options s) \<longrightarrow> cs_name s \<in> {''send'', ''group-send'', ''recv''})"

lemma specs_ok: "list_all spec_ok specs"
  by code_simp

lemma find_spec_ok: "find_spec c = Some s \<Longrightarrow> cs_name s = c \<and> spec_ok s"
  using specs_ok by (auto simp: find_spec_def find_Some_iff list_all_length)

lemma spec_okD:
  assumes "spec_ok s"
  shows "''--force'' \<in> set (cs_options s) \<Longrightarrow> cs_name s = ''init''" and "''--from-mnemonic'' \<in> set (cs_options s) \<Longrightarrow> cs_name s = ''init''"
    and "''--commit'' \<in> set (cs_options s) \<Longrightarrow> cs_name s = ''migrate''" and "''--yes'' \<in> set (cs_options s) \<Longrightarrow> cs_name s = ''remove''"
    and "''--confirmed'' \<in> set (cs_options s) \<Longrightarrow> cs_name s = ''trust''"
    and "''--show-fingerprint'' \<in> set (cs_options s) \<Longrightarrow> cs_name s = ''trust''"
    and "''--to'' \<in> set (cs_options s) \<Longrightarrow> cs_name s = ''group-send''"
    and "''--stdin-payload'' \<in> set (cs_options s) \<Longrightarrow> cs_name s \<in> {''send'', ''group-send'', ''recv''}"
  using assms by (simp_all add: spec_ok_def)

lemma only_seenD:
  assumes "only_seen seen opts"
  shows "op_force opts \<Longrightarrow> ''--force'' \<in> set seen" and "op_from_mnemonic opts \<Longrightarrow> ''--from-mnemonic'' \<in> set seen"
    and "op_commit opts \<Longrightarrow> ''--commit'' \<in> set seen" and "op_assume_yes opts \<Longrightarrow> ''--yes'' \<in> set seen"
    and "op_confirmed opts \<Longrightarrow> ''--confirmed'' \<in> set seen" and "op_show_fingerprint opts \<Longrightarrow> ''--show-fingerprint'' \<in> set seen"
    and "op_group_members opts \<noteq> [] \<Longrightarrow> ''--to'' \<in> set seen" and "op_stdin_payload_bytes opts \<noteq> None \<Longrightarrow> ''--stdin-payload'' \<in> set seen"
  using assms by (simp_all add: only_seen_def)

lemma spec_only:
  assumes "spec_ok s" and "only_seen (cs_options s) opts"
  shows "op_force opts \<or> op_from_mnemonic opts \<longrightarrow> cs_name s = ''init''" and "op_commit opts \<longrightarrow> cs_name s = ''migrate''"
    and "op_assume_yes opts \<longrightarrow> cs_name s = ''remove''"
    and "op_confirmed opts \<or> op_show_fingerprint opts \<longrightarrow> cs_name s = ''trust''"
    and "op_group_members opts \<noteq> [] \<longrightarrow> cs_name s = ''group-send''"
    and "op_stdin_payload_bytes opts \<noteq> None \<longrightarrow> cs_name s \<in> {''send'', ''group-send'', ''recv''}"
proof -
  note d = spec_okD [OF assms(1)] and o = only_seenD [OF assms(2)]
  show "op_force opts \<or> op_from_mnemonic opts \<longrightarrow> cs_name s = ''init''"
    by (intro impI, elim disjE) (rule d(1) [OF o(1)] d(2) [OF o(2)], assumption)+
  show "op_commit opts \<longrightarrow> cs_name s = ''migrate''" "op_assume_yes opts \<longrightarrow> cs_name s = ''remove''"
      "op_group_members opts \<noteq> [] \<longrightarrow> cs_name s = ''group-send''"
      "op_stdin_payload_bytes opts \<noteq> None \<longrightarrow> cs_name s \<in> {''send'', ''group-send'', ''recv''}"
    by (intro impI, (rule d(3) [OF o(3)] d(4) [OF o(4)] d(7) [OF o(7)] d(8) [OF o(8)], assumption))+
  show "op_confirmed opts \<or> op_show_fingerprint opts \<longrightarrow> cs_name s = ''trust''"
    by (intro impI, elim disjE) (rule d(5) [OF o(5)] d(6) [OF o(6)], assumption)+
qed

lemma assign_positional_only [simp]:
  "only_seen seen (assign_positional opts pos) = only_seen seen opts"
  "within_limits (assign_positional opts pos) = within_limits opts" "op_command (assign_positional opts pos) = op_command opts"
  by (auto simp: assign_positional_def only_seen_def within_limits_def split: list.split)

lemma default_only: "only_seen [] (default_options\<lparr>op_command := c\<rparr>)" "within_limits (default_options\<lparr>op_command := c\<rparr>)"
  by (simp_all add: only_seen_def within_limits_def default_options_def kMaxOtpkCount_def kMinWords_def kMaxWords_def
      kDefaultWords_def kMaxIdleLockSeconds_def kDefaultIdleLockSeconds_def)

lemma parse_args_Inr:
  assumes "parse_args args = Inr opts" and "op_command opts \<notin> {''help'', ''version''}"
  obtains (none) "args = []" and "opts = default_options\<lparr>op_command := ''ui'', op_no_arguments := True\<rparr>"
  | (some) spec seen where "find_spec (op_command opts) = Some spec" and "set seen \<subseteq> set (cs_options spec)"
      and "only_seen seen opts" and "within_limits opts"
proof (cases "args = []")
  case True
  with assms none show thesis
    by (simp add: parse_args_def)
next
  case False
  define start where "start = (if \<not> begins ''-'' (hd args) then (default_options\<lparr>op_command := hd args\<rparr>, tl args) else (default_options, args))"
  have d: "default_options\<lparr>op_command := []\<rparr> = default_options"
    by (simp add: default_options_def)
  have s: "only_seen [] (fst start)" "within_limits (fst start)"
    using default_only [of "hd args"] default_only [of "[]"] by (simp_all add: start_def d)
  obtain opts1 pos seen stopped where l: "parse_loop False (fst start) [] [] (snd start) = Inr (opts1, pos, seen, stopped)"
    and r: "(case stopped of True \<Rightarrow> Inr opts1 | False \<Rightarrow> finish_args opts1 pos seen) = Inr opts"
    using assms(1) False unfolding parse_args_def start_def
    by (auto split: sum.splits prod.splits bool.splits)
  have o: "only_seen seen opts1" "within_limits opts1"
    and stop: "stopped \<longrightarrow> op_command opts1 \<in> {''help'', ''version''}"
    using parse_loop_only [OF l s] by simp_all
  show thesis
  proof (cases stopped)
    case True
    with r stop assms(2) show thesis
      by simp
  next
    case False
    with r obtain spec where f: "find_spec (op_command opts1) = Some spec" "set seen \<subseteq> set (cs_options spec)"
      and "opts = assign_positional opts1 pos"
      by (auto simp: finish_args_def list_all_iff split: if_splits option.splits)
    with o show thesis
      by (intro some [of spec seen]) simp_all
  qed
qed

text \<open>C34: An option has an effect only on a command that takes it. Whatever is on the command line, if it is accepted
  for anything but help and version then the command exists, every option that differs from its default was given
  and is in the command's list, and the numbers are within their limits; so \<open>--force\<close> can only reach \<open>init\<close>,
  \<open>--yes\<close> only \<open>remove\<close>, \<open>--confirmed\<close> only \<open>trust\<close>, and no command reads a payload it was not meant to.\<close>

theorem options_respect_command:
  assumes "parse_args args = Inr opts" and "op_command opts \<notin> {''help'', ''version''}"
  shows "\<exists>spec. find_spec (op_command opts) = Some spec \<and> only_seen (cs_options spec) opts \<and> within_limits opts \<and>
    (op_force opts \<or> op_from_mnemonic opts \<longrightarrow> op_command opts = ''init'') \<and>
    (op_commit opts \<longrightarrow> op_command opts = ''migrate'') \<and> (op_assume_yes opts \<longrightarrow> op_command opts = ''remove'') \<and>
    (op_confirmed opts \<or> op_show_fingerprint opts \<longrightarrow> op_command opts = ''trust'') \<and>
    (op_group_members opts \<noteq> [] \<longrightarrow> op_command opts = ''group-send'') \<and>
    (op_stdin_payload_bytes opts \<noteq> None \<longrightarrow> op_command opts \<in> {''send'', ''group-send'', ''recv''})"
  using assms
proof (cases rule: parse_args_Inr)
  case none
  obtain spec where "find_spec ''ui'' = Some spec"
    by (simp add: find_spec_def specs_def spec_row_def)
  with none default_only [of "''ui''"] show ?thesis
    by (intro exI [of _ spec]) (simp add: only_seen_def within_limits_def default_options_def)
next
  case (some spec seen)
  have o: "only_seen (cs_options spec) opts"
    by (rule only_seen_subset [OF some(3,2)])
  have s: "cs_name spec = op_command opts" "spec_ok spec"
    using find_spec_ok [OF some(1)] by simp_all
  show ?thesis
    by (intro exI [of _ spec] conjI) (rule some(1) o some(4) spec_only [OF s(2) o, unfolded s(1)])+
qed

lemma options_respect_command_witness:
  "\<exists>opts. parse_args [''remove'', ''--yes'', ''bob''] = Inr opts \<and> op_assume_yes opts \<and> op_command opts = ''remove''"
proof -
  have r: "parse_args [''remove'', ''--yes'', ''bob''] =
      Inr (default_options\<lparr>op_command := ''remove'', op_assume_yes := True, op_name := ''bob''\<rparr>)"
    by (simp add: parse_args_def parse_Cons parse_loop_end parse_tests begins_def flag_option_def valued_option_def
        finish_args_def find_spec_def specs_def spec_row_def assign_positional_def default_options_def)
  let ?o = "default_options\<lparr>op_command := ''remove'', op_assume_yes := True, op_name := ''bob''\<rparr>"
  have o: "op_command ?o \<notin> {''help'', ''version''}" "op_assume_yes ?o"
    by (simp_all add: default_options_def)
  from options_respect_command [OF r o(1)] have "op_assume_yes ?o \<longrightarrow> op_command ?o = ''remove''"
    by (elim exE conjE)
  with r o(2) show ?thesis
    by blast
qed

text \<open>After a bare \<open>--\<close> a second one is dropped: the text \<open>--\<close> cannot be given as an argument.\<close>

lemma second_dashes_dropped: "parse_args [''send'', ''--'', ''bob'', ''--''] = parse_args [''send'', ''bob'']"
  by (simp add: parse_args_def parse_Cons parse_loop_end parse_tests begins_def flag_option_def valued_option_def)

end
