(* ===== verification/Gui_Format.thy ===== *)
theory Gui_Format
  imports File Frame "HOL-Library.Sublist"
begin

text \<open>
  \<open>gui_format.hpp\<close> and \<open>gui_format.cpp\<close>: the block a command prints for the desktop interface, and the escaping that
  keeps a sender's text apart from it. A writer returns what it puts on the stream, or \<open>None\<close> when it refuses the
  result before the first byte.
\<close>

section \<open>Result blocks\<close>

definition kBegin :: string where "kBegin = ''-----BEGIN RATCHET GUI RESULT-----''"
definition kEnd :: string where "kEnd = ''-----END RATCHET GUI RESULT-----''"
definition kGuiVersion :: string where "kGuiVersion = ''1''"
definition kMinPassphraseWords :: nat where "kMinPassphraseWords = 6"
definition kMaxPassphraseWords :: nat where "kMaxPassphraseWords = 12"
definition kRecoveryWords :: nat where "kRecoveryWords = 12"

definition nl :: char where "nl = CHR 0x0A"

definition lower :: "char \<Rightarrow> bool" where
  "lower c \<longleftrightarrow> byte_of_char c \<ge> byte_of_char (CHR ''a'') \<and> byte_of_char c \<le> byte_of_char (CHR ''z'')"

text \<open>The scan of \<open>valid_phrase\<close>: how many words there are, if each is one or more lower-case letters.\<close>

function count_words :: "string \<Rightarrow> nat option" where
  "count_words s =
     (let word = takeWhile (\<lambda>c. c \<noteq> CHR '' '') s; rest = dropWhile (\<lambda>c. c \<noteq> CHR '' '') s
      in if word = [] \<or> \<not> list_all lower word then None
         else if rest = [] then Some 1
         else map_option Suc (count_words (tl rest)))"
  by pat_completeness auto

termination
proof (relation "measure length")
  fix s word rest :: string
  assume "rest = dropWhile (\<lambda>c. c \<noteq> CHR '' '') s" and "rest \<noteq> []"
  then have "length rest \<le> length s" and "0 < length rest"
    by (simp_all add: length_dropWhile_le)
  then show "(tl rest, s) \<in> measure length"
    by (cases rest) simp_all
qed simp

declare count_words.simps [simp del]

definition valid_phrase :: "string \<Rightarrow> nat \<Rightarrow> bool" where
  "valid_phrase phrase expected_words \<longleftrightarrow>
     \<not> (expected_words = 0 \<or> phrase = [] \<or> length phrase > 1024) \<and> count_words phrase = Some expected_words"

record gui_result =
  gu_command :: string
  gu_status :: string
  gu_source :: string
  gu_passphrase :: string
  gu_passphrase_words :: nat
  gu_recovery :: string
  gu_recovery_words :: nat

definition valid_status :: "string \<Rightarrow> bool" where
  "valid_status status \<longleftrightarrow> status = ''ok'' \<or> status = ''cancelled''"

definition valid_command :: "string \<Rightarrow> bool" where
  "valid_command command \<longleftrightarrow> command = ''init'' \<or> command = ''passphrase''"

definition valid_result :: "gui_result \<Rightarrow> bool" where
  "valid_result r =
     (if \<not> valid_command (gu_command r) \<or> \<not> valid_status (gu_status r) then False
      else if gu_status r = ''cancelled'' then
        gu_command r = ''passphrase'' \<and> gu_source r = [] \<and> gu_passphrase r = [] \<and> gu_passphrase_words r = 0 \<and>
        gu_recovery r = [] \<and> gu_recovery_words r = 0
      else if gu_passphrase_words r < kMinPassphraseWords \<or> gu_passphrase_words r > kMaxPassphraseWords \<or>
              \<not> valid_phrase (gu_passphrase r) (gu_passphrase_words r) then False
      else if gu_command r = ''passphrase'' then gu_source r = [] \<and> gu_recovery r = [] \<and> gu_recovery_words r = 0
      else if gu_source r = ''generated'' then
        gu_recovery_words r = kRecoveryWords \<and> valid_phrase (gu_recovery r) (gu_recovery_words r)
      else if gu_source r = ''mnemonic'' then gu_recovery r = [] \<and> gu_recovery_words r = 0
      else False)"

definition put_line :: "string \<Rightarrow> string" where
  "put_line s = s @ [nl]"

definition write_result :: "gui_result \<Rightarrow> string option" where
  "write_result r =
     (if \<not> valid_result r then None
      else Some (put_line kBegin @ put_line (''version='' @ kGuiVersion) @ put_line (''command='' @ gu_command r) @
        put_line (''status='' @ gu_status r) @
        (if gu_status r = ''ok'' then
           (if gu_command r = ''init'' then put_line (''source='' @ gu_source r) else []) @
           put_line (''passphrase_words='' @ to_string (gu_passphrase_words r)) @
           put_line (''passphrase='' @ gu_passphrase r) @
           (if gu_recovery r \<noteq> [] then
              put_line (''recovery_words='' @ to_string (gu_recovery_words r)) @ put_line (''recovery='' @ gu_recovery r)
            else [])
         else []) @
        put_line kEnd))"

section \<open>The block of a received message\<close>

definition kRecvText :: string where "kRecvText = ''text''"
definition kRecvFile :: string where "kRecvFile = ''file''"
definition kMarkerPercentHex :: string where "kMarkerPercentHex = ''percent-hex''"

record recv_result =
  rx_kind :: string
  rx_ext :: string
  rx_staged :: bool
  rx_path :: string

definition valid_extension :: "string \<Rightarrow> bool" where
  "valid_extension ext \<longleftrightarrow> \<not> (ext = [] \<or> length ext > 16) \<and> list_all wire_char ext"

text \<open>The text after the last dot, empty without one.\<close>

definition after_dot :: "string \<Rightarrow> string" where
  "after_dot path = (if CHR ''.'' \<in> set path then rev (takeWhile (\<lambda>c. c \<noteq> CHR ''.'') (rev path)) else [])"

definition valid_staged_path :: "string \<Rightarrow> bool" where
  "valid_staged_path path =
     (if path = [] \<or> hd path \<noteq> CHR ''/'' then False
      else if length path > 4096 then False
      else if CHR '' '' \<in> set path then False
      else if \<not> valid_extension (after_dot path) then False
      else list_all (\<lambda>c. \<not> (byte_of_char c < 0x20 \<or> byte_of_char c = 0x7F)) path)"

definition valid_recv :: "recv_result \<Rightarrow> bool" where
  "valid_recv r =
     (if rx_kind r = kRecvText then rx_ext r = [] \<and> \<not> rx_staged r \<and> rx_path r = []
      else if rx_kind r = kRecvFile then
        valid_extension (rx_ext r) \<and> (rx_staged r \<longleftrightarrow> rx_path r \<noteq> []) \<and> (rx_staged r \<longrightarrow> valid_staged_path (rx_path r))
      else False)"

definition write_recv_result :: "recv_result \<Rightarrow> string option" where
  "write_recv_result r =
     (if \<not> valid_recv r then None
      else Some (put_line kBegin @ put_line (''version='' @ kGuiVersion) @ put_line ''command=recv'' @
        put_line (''kind='' @ rx_kind r) @ put_line ''marker=percent-hex'' @
        (if rx_kind r = kRecvFile then
           put_line (''ext='' @ rx_ext r) @ put_line (''staged='' @ (if rx_staged r then ''yes'' else ''no'')) @
           (if rx_staged r then put_line (''path='' @ rx_path r) else [])
         else []) @
        put_line kEnd))"

section \<open>The body before the block\<close>

definition hex_pair :: "char \<Rightarrow> string" where
  "hex_pair c = [hex_digit (unat (drop_bit 4 (byte_of_char c))), hex_digit (unat (byte_of_char c AND 0x0F))]"

fun marker_spelling :: "string \<Rightarrow> string" where
  "marker_spelling [] = []"
| "marker_spelling [c] = hex_pair c"
| "marker_spelling (c # cs) = hex_pair c @ '':'' @ marker_spelling cs"

definition starts :: "string \<Rightarrow> string \<Rightarrow> bool" where
  "starts p s \<longleftrightarrow> take (length p) s = p"

definition ordinary :: "char \<Rightarrow> bool" where
  "ordinary c \<longleftrightarrow> c \<noteq> CHR ''%'' \<and> c \<noteq> CHR ''-''"

function write_body_escaped :: "string \<Rightarrow> string" where
  "write_body_escaped s =
     (if s = [] then []
      else if starts kBegin s then ''%'' @ marker_spelling kBegin @ write_body_escaped (drop (length kBegin) s)
      else if starts kEnd s then ''%'' @ marker_spelling kEnd @ write_body_escaped (drop (length kEnd) s)
      else if hd s = CHR ''%'' then ''%%'' @ write_body_escaped (tl s)
      else hd s # takeWhile ordinary (tl s) @ write_body_escaped (dropWhile ordinary (tl s)))"
  by pat_completeness auto

termination
proof (relation "measure length")
  fix s :: string
  assume s: "s \<noteq> []"
  then show "(drop (length kBegin) s, s) \<in> measure length" "(drop (length kEnd) s, s) \<in> measure length"
    by (simp_all add: kBegin_def kEnd_def)
  show "(tl s, s) \<in> measure length" "(dropWhile ordinary (tl s), s) \<in> measure length"
    using s length_dropWhile_le [of ordinary "tl s"] by (cases s; simp)+
qed simp

declare write_body_escaped.simps [simp del]

function unescape_body :: "string \<Rightarrow> string" where
  "unescape_body s =
     (if s = [] then []
      else if hd s \<noteq> CHR ''%'' then hd s # unescape_body (tl s)
      else if tl s \<noteq> [] \<and> hd (tl s) = CHR ''%'' then ''%'' @ unescape_body (drop 2 s)
      else if starts (marker_spelling kBegin) (tl s) then kBegin @ unescape_body (drop (1 + length (marker_spelling kBegin)) s)
      else if starts (marker_spelling kEnd) (tl s) then kEnd @ unescape_body (drop (1 + length (marker_spelling kEnd)) s)
      else ''%'' @ unescape_body (tl s))"
  by pat_completeness auto

termination
  by (relation "measure length") auto

declare unescape_body.simps [simp del]

section \<open>Lemmas\<close>

lemma starts_prefix: "starts p s \<longleftrightarrow> prefix p s"
  unfolding starts_def by (metis append_eq_conv_conj append_take_drop_id prefixE prefixI)

lemma spelling_begin: "\<exists>x. marker_spelling kBegin = CHR ''2'' # x" and spelling_end: "\<exists>x. marker_spelling kEnd = CHR ''2'' # x"
  by (simp_all add: kBegin_def kEnd_def hex_pair_def byte_of_char_def hex_digit_def)

lemma spellings_differ: "\<not> prefix (marker_spelling kBegin) (marker_spelling kEnd @ r)"
  by (simp add: kBegin_def kEnd_def hex_pair_def byte_of_char_def hex_digit_def)

lemma of_char_bound: "(of_char c :: nat) < 256"
  using unat_byte_of_char [of c] unsigned_less [of "byte_of_char c"] by (metis of_char_mod_256 mod_less_divisor zero_less_numeral)

lemma spelling_chars: "set (marker_spelling s) \<subseteq> set ''0123456789abcdef:''"
proof (induction s rule: marker_spelling.induct)
  have h: "hex_digit n \<in> set ''0123456789abcdef''" if "n < 16" for n
    using that unfolding hex_digit_def by (intro nth_mem) simp
  have p: "set (hex_pair c) \<subseteq> set ''0123456789abcdef:''" for c
  proof -
    have "unat (drop_bit 4 (byte_of_char c)) < 16"
      using of_char_bound [of c] unfolding unat_drop_bit_eq unat_byte_of_char by (simp add: drop_bit_eq_div less_mult_imp_div_less)
    moreover have "byte_of_char c AND 0x0F \<le> 0x0F"
      by (rule word_and_le1)
    then have "unat (byte_of_char c AND 0x0F) < 16"
      by (simp add: word_le_nat_alt)
    ultimately have "hex_digit (unat (drop_bit 4 (byte_of_char c))) \<in> set ''0123456789abcdef''"
        "hex_digit (unat (byte_of_char c AND 0x0F)) \<in> set ''0123456789abcdef''"
      using h by blast+
    then show ?thesis
      by (auto simp: hex_pair_def)
  qed
  { case 1 then show ?case by simp }
  { case (2 c) then show ?case using p by simp }
  { case (3 c d cs) then show ?case using p [of c] by auto }
qed

lemma unescape_plain: "CHR ''%'' \<notin> set x \<Longrightarrow> unescape_body (x @ r) = x @ unescape_body r"
proof (induction x)
  case (Cons c x)
  then show ?case
    by (subst unescape_body.simps) auto
qed simp

lemma unescape_percent: "unescape_body (''%%'' @ r) = CHR ''%'' # unescape_body r"
  by (subst unescape_body.simps) simp

lemma unescape_begin: "unescape_body (''%'' @ marker_spelling kBegin @ r) = kBegin @ unescape_body r"
  using spelling_begin by (subst unescape_body.simps) (auto simp: starts_def)

lemma unescape_end: "unescape_body (''%'' @ marker_spelling kEnd @ r) = kEnd @ unescape_body r"
  using spelling_end spellings_differ [of r] by (subst unescape_body.simps) (auto simp: starts_prefix)

lemma starts_drop: "starts p s \<Longrightarrow> s = p @ drop (length p) s"
  unfolding starts_def by (metis append_take_drop_id)

lemma body_cases:
  obtains "s = []" | (front) "starts kBegin s" "s \<noteq> []" "write_body_escaped s = ''%'' @ marker_spelling kBegin @ write_body_escaped (drop (length kBegin) s)"
  | (rear) "\<not> starts kBegin s" "starts kEnd s" "s \<noteq> []" "write_body_escaped s = ''%'' @ marker_spelling kEnd @ write_body_escaped (drop (length kEnd) s)"
  | (percent) r where "s = CHR ''%'' # r" "\<not> starts kBegin s" "\<not> starts kEnd s" "write_body_escaped s = ''%%'' @ write_body_escaped r"
  | (other) c r where "s = c # r" "c \<noteq> CHR ''%''" "\<not> starts kBegin s" "\<not> starts kEnd s"
      "write_body_escaped s = (c # takeWhile ordinary r) @ write_body_escaped (dropWhile ordinary r)"
proof -
  note e = write_body_escaped.simps [of s]
  show thesis
  proof (cases "s = [] \<or> starts kBegin s \<or> starts kEnd s")
    case True
    with that(1-3) e show ?thesis
      by (auto split: if_splits)
  next
    case False
    then obtain c r where s: "s = c # r"
      by (cases s) auto
    with False that(4) [of r] that(5) [of c r] e show ?thesis
      by (cases "c = CHR ''%''") auto
  qed
qed

lemma ordinary_run: "x \<in> set (takeWhile ordinary r) \<Longrightarrow> x \<noteq> CHR ''%'' \<and> x \<noteq> CHR ''-''"
  by (auto dest: set_takeWhileD simp: ordinary_def)

lemma unescape_escaped: "unescape_body (write_body_escaped s) = s"
proof (induction s rule: write_body_escaped.induct)
  case (1 s)
  show ?case
  proof (cases s rule: body_cases)
    case 1
    then show ?thesis
      by (simp add: write_body_escaped.simps unescape_body.simps)
  next
    case front
    then show ?thesis
      using "1.IH"(1) starts_drop [OF front(1)] unescape_begin by simp
  next
    case rear
    then show ?thesis
      using "1.IH"(2) starts_drop [OF rear(2)] unescape_end by simp
  next
    case (percent r)
    then show ?thesis
      using "1.IH"(3) unescape_percent by simp
  next
    case (other c r)
    have "CHR ''%'' \<notin> set (c # takeWhile ordinary r)"
      using other(2) ordinary_run by fastforce
    then have "unescape_body (write_body_escaped s) = (c # takeWhile ordinary r) @ unescape_body (write_body_escaped (dropWhile ordinary r))"
      unfolding other(5) by (rule unescape_plain)
    then show ?thesis
      using "1.IH"(4) other by simp
  qed
qed

lemma escaped_prefix: "prefix x (write_body_escaped s) \<Longrightarrow> CHR ''%'' \<notin> set x \<Longrightarrow> prefix x s"
proof (induction s arbitrary: x rule: write_body_escaped.induct)
  case (1 s)
  show ?case
  proof (cases s rule: body_cases)
    case 1
    with "1.prems" show ?thesis
      by (simp add: write_body_escaped.simps)
  next
    case (other c r)
    have "prefix x (c # takeWhile ordinary r) \<or>
        (\<exists>y. x = (c # takeWhile ordinary r) @ y \<and> prefix y (write_body_escaped (dropWhile ordinary r)))"
      using "1.prems"(1) unfolding other(5) prefix_append by blast
    then show ?thesis
    proof (elim disjE exE conjE)
      assume "prefix x (c # takeWhile ordinary r)"
      moreover have "prefix (c # takeWhile ordinary r) s"
        by (simp add: other(1) takeWhile_is_prefix)
      ultimately show ?thesis
        by (rule prefix_order.trans)
    next
      fix y assume y: "x = (c # takeWhile ordinary r) @ y" "prefix y (write_body_escaped (dropWhile ordinary r))"
      then have "prefix y (dropWhile ordinary (tl s))"
        using "1.IH"(4) other "1.prems"(2) by simp
      then have "prefix x ((c # takeWhile ordinary r) @ dropWhile ordinary r)"
        by (simp only: y(1) other(1) same_prefix_prefix list.sel)
      then show ?thesis
        using other(1) by simp
    qed
  qed (use "1.prems" in \<open>cases x; simp\<close>)+
qed

text \<open>An occurrence of a marker starts at a dash, so it lies in what a part of the body became.\<close>

lemma sublist_skip: "sublist (a # m) (x @ y) \<Longrightarrow> a \<notin> set x \<Longrightarrow> sublist (a # m) y"
proof (induction x)
  case (Cons b x)
  then show ?case
    by (auto simp: sublist_Cons_right)
qed simp

lemma escaped_no_marker:
  assumes "M = CHR ''-'' # M'" and "CHR ''%'' \<notin> set M" and "\<And>s. prefix M s \<Longrightarrow> starts kBegin s \<or> starts kEnd s"
  shows "\<not> sublist M (write_body_escaped s)"
proof (induction s rule: write_body_escaped.induct)
  case (1 s)
  have sp: "CHR ''-'' \<notin> set (''%'' @ marker_spelling m)" for m
    using spelling_chars [of m] by auto
  show ?case
  proof (cases s rule: body_cases)
    case 1
    then show ?thesis
      by (simp add: write_body_escaped.simps assms(1))
  next
    case front
    have "\<not> sublist M (write_body_escaped (drop (length kBegin) s))"
      using "1.IH"(1) front by simp
    then show ?thesis
      unfolding front(3) using sublist_skip [of "CHR ''-''" M' "''%'' @ marker_spelling kBegin"] sp assms(1) by auto
  next
    case rear
    have "\<not> sublist M (write_body_escaped (drop (length kEnd) s))"
      using "1.IH"(2) rear by simp
    then show ?thesis
      unfolding rear(4) using sublist_skip [of "CHR ''-''" M' "''%'' @ marker_spelling kEnd"] sp assms(1) by auto
  next
    case (percent r)
    have "\<not> sublist M (write_body_escaped r)"
      using "1.IH"(3) percent by simp
    then show ?thesis
      unfolding percent(4) using sublist_skip [of "CHR ''-''" M' "''%%''"] assms(1) by auto
  next
    case (other c r)
    have IH: "\<not> sublist M (write_body_escaped (dropWhile ordinary r))"
      using "1.IH"(4) other by simp
    show ?thesis
    proof
      assume "sublist M (write_body_escaped s)"
      then have "prefix M (write_body_escaped s) \<or> sublist M (takeWhile ordinary r @ write_body_escaped (dropWhile ordinary r))"
        unfolding other(5) by (simp add: sublist_Cons_right)
      moreover have "\<not> prefix M (write_body_escaped s)"
        using escaped_prefix [of M s] assms(2,3) other(3,4) by blast
      moreover have "CHR ''-'' \<notin> set (takeWhile ordinary r)"
        using ordinary_run by blast
      ultimately show False
        using sublist_skip [of "CHR ''-''" M' "takeWhile ordinary r"] IH assms(1) by blast
    qed
  qed
qed

end
