(* ===== verification/Gui_Output.thy ===== *)
theory Gui_Output
  imports Gui_Format Wire
begin

text \<open>
  \<open>gui_output.cpp\<close>: how the desktop interface reads the result block of a command it ran. The two parsers are strict:
  whatever they do not expect is an error, one constructor of \<open>gui_error\<close> for each message. A \<open>QString\<close> is the text
  in UTF-8; everything a block may contain is ASCII but a staged path. The program's output reaches the parsers in the
  chunks the pipe delivers, each decoded on its own by Qt (\<open>CliRunner\<close>); Qt's decoder is a parameter that is assumed to
  keep well-formed UTF-8 (\<open>utf8_law\<close>), and nothing is assumed of what it makes of anything else.
  The two round trips at the end show that a reader gets exactly what \<open>gui_format.cpp\<close> wrote, and that a sender's text
  in front of the block cannot be taken for it.
\<close>

section \<open>Errors\<close>

datatype gui_error =
    UnknownCommand | ResultMissing | ResultTwice | NoEndMarker | EndNotOnLine | ResultTooLarge | ResultEmpty
  | EmptyLine | CarriageReturn | MalformedLine | MalformedField | UnknownField | DuplicateField
  | HeaderMissing | UnsupportedResult | OtherCommand | CannotCancel | CancelledWithSecrets | UnknownStatus
  | SourceMissing | UnknownSource | SourceForWrongCommand | PassphraseMissing | PassphraseCount | PassphraseMalformed
  | RecoveryIncomplete | RecoveryForWrongCommand | RecoveryCount | RecoveryMalformed | RecoveryNotThere
  | RecoveryForRestored | NotAtEnd | UnknownMarkerMode | TextWithFileFields | UnknownKind | InvalidExtension
  | InvalidStaged | InvalidPath | PathWithoutFile

section \<open>Text\<close>

definition kMaxBlockChars :: nat where "kMaxBlockChars = 4096"
definition kMaxFieldChars :: nat where "kMaxFieldChars = 1024"
definition kMaxExtensionChars :: nat where "kMaxExtensionChars = 16"

definition starts_a_line :: "string \<Rightarrow> nat \<Rightarrow> bool" where
  "starts_a_line s position \<longleftrightarrow> position = 0 \<or> s ! (position - 1) = nl"

text \<open>\<open>QString::lastIndexOf\<close>.\<close>

fun find_last :: "string \<Rightarrow> string \<Rightarrow> nat option" where
  "find_last pat [] = (if pat = [] then Some 0 else None)"
| "find_last pat (c # cs) =
     (case find_last pat cs of Some i \<Rightarrow> Some (Suc i)
      | None \<Rightarrow> if prefix pat (c # cs) then Some 0 else None)"

text \<open>\<open>QString::split\<close> at newlines, empty parts kept.\<close>

fun split_lines :: "string \<Rightarrow> string list" where
  "split_lines [] = [[]]"
| "split_lines (c # cs) =
     (if c = nl then [] # split_lines cs
      else (case split_lines cs of l # ls \<Rightarrow> (c # l) # ls | [] \<Rightarrow> [[c]]))"

text \<open>An empty first and an empty last line belong to the markers.\<close>

definition block_lines :: "string \<Rightarrow> string list" where
  "block_lines body =
     (let lines = split_lines body;
          lines = (if lines \<noteq> [] \<and> hd lines = [] then tl lines else lines)
      in if lines \<noteq> [] \<and> last lines = [] then butlast lines else lines)"

definition phrase_ok :: "string \<Rightarrow> nat \<Rightarrow> bool" where
  "phrase_ok phrase expected_words \<longleftrightarrow>
     \<not> (expected_words = 0 \<or> phrase = [] \<or> length phrase > kMaxFieldChars) \<and> count_words phrase = Some expected_words"

definition ascii_digit :: "char \<Rightarrow> bool" where
  "ascii_digit c \<longleftrightarrow> byte_of_char c \<ge> byte_of_char (CHR ''0'') \<and> byte_of_char c \<le> byte_of_char (CHR ''9'')"

definition digits_only :: "string \<Rightarrow> bool" where
  "digits_only s \<longleftrightarrow> s \<noteq> [] \<and> list_all ascii_digit s"

text \<open>\<open>toULongLong\<close> of digits: it fails beyond 64 bits.\<close>

definition decimal :: "string \<Rightarrow> nat" where
  "decimal s = foldl (\<lambda>n c. 10 * n + (of_char c - 48)) 0 s"

definition parse_count :: "string \<Rightarrow> nat option" where
  "parse_count s = (if \<not> digits_only s then None else if decimal s < 2 ^ 64 then Some (decimal s) else None)"

section \<open>Fields\<close>

type_synonym field_map = "string \<rightharpoonup> string"

definition read_field :: "gui_error \<Rightarrow> gui_error \<Rightarrow> string list \<Rightarrow> field_map \<Rightarrow> string \<Rightarrow> gui_error + field_map" where
  "read_field empty_line cr known found l =
     (if l = [] then Inl empty_line
      else if CHR 0x0D \<in> set l then Inl cr
      else if CHR ''='' \<notin> set l \<or> hd l = CHR ''='' then Inl MalformedField
      else (let key = takeWhile (\<lambda>c. c \<noteq> CHR ''='') l; field_value = tl (dropWhile (\<lambda>c. c \<noteq> CHR ''='') l)
            in if key \<notin> set known then Inl UnknownField
               else if found key \<noteq> None then Inl DuplicateField
               else Inr (found(key \<mapsto> field_value))))"

fun read_fields :: "gui_error \<Rightarrow> gui_error \<Rightarrow> string list \<Rightarrow> field_map \<Rightarrow> string list \<Rightarrow> gui_error + field_map" where
  "read_fields empty_line cr known found [] = Inr found"
| "read_fields empty_line cr known found (l # ls) =
     (case read_field empty_line cr known found l of Inl e \<Rightarrow> Inl e
      | Inr found' \<Rightarrow> read_fields empty_line cr known found' ls)"

text \<open>\<open>QHash::value\<close>: empty for a field that is not there.\<close>

definition field :: "field_map \<Rightarrow> string \<Rightarrow> string" where
  "field f key = (case f key of Some v \<Rightarrow> v | None \<Rightarrow> [])"

section \<open>The result of \<open>init\<close> and \<open>passphrase\<close>\<close>

datatype shown_result = Cancelled | Shown (sh_passphrase: string) (sh_recovery: string)

definition result_keys :: "string list" where
  "result_keys = [''version'', ''command'', ''status'', ''source'', ''passphrase_words'', ''passphrase'',
     ''recovery_words'', ''recovery'']"

text \<open>The block between its markers, each of them once and on a line of its own.\<close>

definition find_block :: "string \<Rightarrow> gui_error + string" where
  "find_block s =
     (case find_from s kBegin 0 of
        None \<Rightarrow> Inl ResultMissing
      | Some begin_pos \<Rightarrow>
          (if \<not> starts_a_line s begin_pos then Inl ResultMissing
           else let from = begin_pos + length kBegin
           in if find_from s kBegin from \<noteq> None then Inl ResultTwice
           else case find_from s kEnd from of
             None \<Rightarrow> Inl NoEndMarker
           | Some end_pos \<Rightarrow>
               (if \<not> starts_a_line s end_pos then Inl EndNotOnLine
                else if find_from s kEnd (end_pos + length kEnd) \<noteq> None then Inl ResultTwice
                else Inr (take (end_pos - from) (drop from s)))))"

definition result_fields :: "string \<Rightarrow> gui_error + field_map" where
  "result_fields body =
     (if length body > kMaxBlockChars then Inl ResultTooLarge
      else if block_lines body = [] then Inl ResultEmpty
      else read_fields EmptyLine CarriageReturn result_keys Map.empty (block_lines body))"

definition recovery_of :: "string \<Rightarrow> string \<Rightarrow> field_map \<Rightarrow> gui_error + string" where
  "recovery_of expected_command source f =
     (if (f ''recovery'' \<noteq> None) \<noteq> (f ''recovery_words'' \<noteq> None) then Inl RecoveryIncomplete
      else if f ''recovery'' \<noteq> None \<and> expected_command \<noteq> ''init'' then Inl RecoveryForWrongCommand
      else if f ''recovery'' \<noteq> None \<and> parse_count (field f ''recovery_words'') \<noteq> Some kRecoveryWords
        then Inl RecoveryCount
      else if f ''recovery'' \<noteq> None \<and> \<not> phrase_ok (field f ''recovery'') kRecoveryWords then Inl RecoveryMalformed
      else if expected_command = ''init'' \<and> source = ''generated'' \<and> f ''recovery'' = None then Inl RecoveryNotThere
      else if expected_command = ''init'' \<and> source = ''mnemonic'' \<and> f ''recovery'' \<noteq> None
        then Inl RecoveryForRestored
      else Inr (if f ''recovery'' \<noteq> None then field f ''recovery'' else []))"

definition source_of :: "string \<Rightarrow> field_map \<Rightarrow> gui_error + string" where
  "source_of expected_command f =
     (if expected_command = ''init'' then
        (if f ''source'' = None then Inl SourceMissing
         else if field f ''source'' \<noteq> ''generated'' \<and> field f ''source'' \<noteq> ''mnemonic'' then Inl UnknownSource
         else Inr (field f ''source''))
      else if f ''source'' \<noteq> None then Inl SourceForWrongCommand else Inr [])"

definition ok_result :: "string \<Rightarrow> field_map \<Rightarrow> gui_error + shown_result" where
  "ok_result expected_command f =
     (case source_of expected_command f of Inl e \<Rightarrow> Inl e | Inr source \<Rightarrow>
      if f ''passphrase'' = None \<or> f ''passphrase_words'' = None then Inl PassphraseMissing
      else case parse_count (field f ''passphrase_words'') of None \<Rightarrow> Inl PassphraseCount | Some n \<Rightarrow>
      if n < kMinPassphraseWords \<or> n > kMaxPassphraseWords then Inl PassphraseCount
      else if \<not> phrase_ok (field f ''passphrase'') n then Inl PassphraseMalformed
      else case recovery_of expected_command source f of Inl e \<Rightarrow> Inl e
      | Inr recovery \<Rightarrow> Inr (Shown (field f ''passphrase'') recovery))"

definition checked_result :: "string \<Rightarrow> field_map \<Rightarrow> gui_error + shown_result" where
  "checked_result expected_command f =
     (if f ''version'' = None \<or> f ''command'' = None \<or> f ''status'' = None then Inl HeaderMissing
      else if field f ''version'' \<noteq> kGuiVersion then Inl UnsupportedResult
      else if field f ''command'' \<noteq> expected_command then Inl OtherCommand
      else if field f ''status'' = ''cancelled'' then
        (if expected_command \<noteq> ''passphrase'' then Inl CannotCancel
         else if f ''source'' \<noteq> None \<or> f ''passphrase'' \<noteq> None \<or> f ''passphrase_words'' \<noteq> None \<or>
                 f ''recovery'' \<noteq> None \<or> f ''recovery_words'' \<noteq> None then Inl CancelledWithSecrets
         else Inr Cancelled)
      else if field f ''status'' \<noteq> ''ok'' then Inl UnknownStatus
      else ok_result expected_command f)"

definition parseGuiResult :: "string \<Rightarrow> string \<Rightarrow> gui_error + shown_result" where
  "parseGuiResult s expected_command =
     (if expected_command \<noteq> ''init'' \<and> expected_command \<noteq> ''passphrase'' then Inl UnknownCommand
      else case find_block s of Inl e \<Rightarrow> Inl e | Inr body \<Rightarrow>
        (case result_fields body of Inl e \<Rightarrow> Inl e | Inr f \<Rightarrow> checked_result expected_command f))"

section \<open>The result of \<open>recv\<close>\<close>

record parsed_recv =
  pr_is_file :: bool
  pr_ext :: string
  pr_staged :: bool
  pr_path :: string
  pr_body :: string

definition kMarkerHexColonLegacy :: string where "kMarkerHexColonLegacy = ''hex-colon''"

definition recv_keys :: "string list" where
  "recv_keys = [''version'', ''command'', ''kind'', ''ext'', ''staged'', ''path'', ''marker'']"

text \<open>The last block, which closes the output: what came before it, and what is between its markers.\<close>

definition find_recv_block :: "string \<Rightarrow> gui_error + string \<times> string" where
  "find_recv_block s =
     (case find_last kBegin s of
        None \<Rightarrow> Inl ResultMissing
      | Some begin_pos \<Rightarrow>
          (if \<not> starts_a_line s begin_pos then Inl ResultMissing
           else let from = begin_pos + length kBegin
           in case find_from s kEnd from of
             None \<Rightarrow> Inl NoEndMarker
           | Some end_pos \<Rightarrow>
               (if \<not> starts_a_line s end_pos then Inl NoEndMarker
                else if \<not> list_all c_isspace (drop (end_pos + length kEnd) s) then Inl NotAtEnd
                else if find_from s kBegin (end_pos + length kEnd) \<noteq> None then Inl ResultTwice
                else Inr (take begin_pos s, take (end_pos - from) (drop from s)))))"

definition recv_fields :: "string \<Rightarrow> gui_error + field_map" where
  "recv_fields body =
     (if length body > kMaxBlockChars then Inl ResultTooLarge
      else if block_lines body = [] then Inl ResultEmpty
      else read_fields MalformedLine MalformedLine recv_keys Map.empty (block_lines body))"

text \<open>The newline before the block is framing; the escape is undone when the block names it.\<close>

definition recv_message :: "field_map \<Rightarrow> string \<Rightarrow> string" where
  "recv_message f before =
     (let message = (if before \<noteq> [] \<and> last before = nl then butlast before else before)
      in if field f ''marker'' = kMarkerPercentHex then unescape_body message else message)"

definition extension_ok :: "string \<Rightarrow> bool" where
  "extension_ok ext \<longleftrightarrow> \<not> (ext = [] \<or> length ext > kMaxExtensionChars) \<and> list_all wire_char ext"

definition path_ok :: "string \<Rightarrow> bool" where
  "path_ok path \<longleftrightarrow> \<not> (path = [] \<or> hd path \<noteq> CHR ''/'' \<or> length path > 4096) \<and>
     list_all (\<lambda>c. \<not> (byte_of_char c < 0x20 \<or> byte_of_char c = 0x7F \<or> c = CHR '' '')) path"

definition checked_recv :: "field_map \<Rightarrow> string \<Rightarrow> gui_error + parsed_recv" where
  "checked_recv f before =
     (let marker_mode = field f ''marker''; kind = field f ''kind'';
          ext = field f ''ext''; staged = field f ''staged''; path = field f ''path''
      in if field f ''version'' \<noteq> kGuiVersion \<or> field f ''command'' \<noteq> ''recv'' then Inl OtherCommand
      else if marker_mode \<noteq> [] \<and> marker_mode \<noteq> kMarkerPercentHex \<and> marker_mode \<noteq> kMarkerHexColonLegacy
        then Inl UnknownMarkerMode
      else if kind = ''text'' then
        (if f ''ext'' \<noteq> None \<or> f ''staged'' \<noteq> None \<or> f ''path'' \<noteq> None then Inl TextWithFileFields
         else Inr \<lparr>pr_is_file = False, pr_ext = [], pr_staged = False, pr_path = [], pr_body = recv_message f before\<rparr>)
      else if kind \<noteq> ''file'' then Inl UnknownKind
      else if \<not> extension_ok ext then Inl InvalidExtension
      else if staged \<noteq> ''yes'' \<and> staged \<noteq> ''no'' then Inl InvalidStaged
      else if staged = ''yes'' \<and> \<not> path_ok path then Inl InvalidPath
      else if staged \<noteq> ''yes'' \<and> f ''path'' \<noteq> None then Inl PathWithoutFile
      else Inr \<lparr>pr_is_file = True, pr_ext = ext, pr_staged = staged = ''yes'',
             pr_path = (if staged = ''yes'' then path else []), pr_body = recv_message f before\<rparr>)"

definition parseRecvResult :: "string \<Rightarrow> gui_error + parsed_recv" where
  "parseRecvResult s =
     (case find_recv_block s of Inl e \<Rightarrow> Inl e | Inr (before, body) \<Rightarrow>
        (case recv_fields body of Inl e \<Rightarrow> Inl e | Inr f \<Rightarrow> checked_recv f before))"

section \<open>Lines and fields\<close>

lemma split_lines_line: "nl \<notin> set l \<Longrightarrow> split_lines (l @ nl # r) = l # split_lines r"
  by (induction l) auto

lemma split_lines_put: "\<forall>l \<in> set ls. nl \<notin> set l \<Longrightarrow> split_lines (concat (map put_line ls)) = ls @ [[]]"
  by (induction ls) (simp_all add: put_line_def split_lines_line)

lemma block_lines_put:
  assumes "\<forall>l \<in> set ls. nl \<notin> set l"
  shows "block_lines (nl # concat (map put_line ls)) = ls"
  using split_lines_put [OF assms] by (simp add: block_lines_def)

definition field_line :: "string \<times> string \<Rightarrow> string" where
  "field_line kv = fst kv @ ''='' @ snd kv"

definition field_ok :: "string list \<Rightarrow> string \<times> string \<Rightarrow> bool" where
  "field_ok known kv \<longleftrightarrow> fst kv \<in> set known \<and> fst kv \<noteq> [] \<and> CHR ''='' \<notin> set (fst kv) \<and>
     CHR 0x0D \<notin> set (fst kv) \<and> CHR 0x0D \<notin> set (snd kv) \<and> nl \<notin> set (fst kv) \<and> nl \<notin> set (snd kv)"

lemma read_field_line:
  assumes "field_ok known (k, v)" and "f k = None"
  shows "read_field e cr known f (field_line (k, v)) = Inr (f(k \<mapsto> v))"
proof -
  have "hd (k @ ''='' @ v) \<noteq> CHR ''=''"
    using assms(1) by (cases k) (auto simp: field_ok_def)
  moreover have "takeWhile (\<lambda>c. c \<noteq> CHR ''='') (k @ ''='' @ v) = k"
    using assms(1) by (subst takeWhile_append2) (auto simp: field_ok_def)
  moreover have "dropWhile (\<lambda>c. c \<noteq> CHR ''='') (k @ ''='' @ v) = ''='' @ v"
    using assms(1) by (subst dropWhile_append2) (auto simp: field_ok_def)
  ultimately show ?thesis
    using assms by (simp add: read_field_def field_line_def field_ok_def)
qed

lemma read_fields_lines:
  assumes "\<forall>kv \<in> set kvs. field_ok known kv" and "distinct (map fst kvs)" and "\<forall>k \<in> set (map fst kvs). f k = None"
  shows "read_fields e cr known f (map field_line kvs) = Inr (f ++ map_of kvs)"
  using assms
proof (induction kvs arbitrary: f)
  case (Cons kv kvs)
  obtain k v where kv: "kv = (k, v)"
    by fastforce
  have "read_fields e cr known (f(k \<mapsto> v)) (map field_line kvs) = Inr (f(k \<mapsto> v) ++ map_of kvs)"
    using Cons.prems by (intro Cons.IH) (auto simp: kv)
  moreover have "f(k \<mapsto> v) ++ map_of kvs = f ++ map_of (kv # kvs)"
    using Cons.prems(2) by (simp add: kv map_add_upd_left dom_map_of_conv_image_fst del: fun_upd_apply)
  ultimately show ?case
    using Cons.prems by (simp add: kv read_field_line del: map_of.simps)
qed simp

section \<open>Markers\<close>

text \<open>Both markers contain a space and no newline, so they lie within one line.\<close>

definition marker :: "string \<Rightarrow> bool" where
  "marker m \<longleftrightarrow> nl \<notin> set m \<and> CHR '' '' \<in> set m"

lemma markers: "marker kBegin" "marker kEnd"
  by (simp_all add: marker_def kBegin_def kEnd_def nl_def)

lemma prefix_line: "nl \<notin> set m \<Longrightarrow> prefix m (l @ nl # r) \<longleftrightarrow> prefix m l"
proof (induction l arbitrary: m)
  case Nil
  then show ?case
    by (cases m) auto
next
  case (Cons c l)
  then show ?case
    by (cases m) auto
qed

lemma sublist_line: "nl \<notin> set m \<Longrightarrow> m \<noteq> [] \<Longrightarrow> sublist m (l @ nl # r) \<longleftrightarrow> sublist m l \<or> sublist m r"
proof (induction l)
  case Nil
  then show ?case
    using prefix_line [of m "[]" r] by (simp add: sublist_Cons_right)
next
  case (Cons c l)
  then show ?case
    using prefix_line [of m "c # l" r] by (auto simp: sublist_Cons_right)
qed

lemma find_sub_line:
  "nl \<notin> set m \<Longrightarrow> m \<noteq> [] \<Longrightarrow> \<not> sublist m l \<Longrightarrow>
    find_sub m (l @ nl # r) = map_option (\<lambda>n. length l + Suc n) (find_sub m r)"
proof (induction l)
  case Nil
  then show ?case
    using prefix_line [of m "[]" r] by (simp add: option.map_comp o_def)
next
  case (Cons c l)
  then show ?case
    using prefix_line [of m "c # l" r] by (simp add: sublist_Cons_right option.map_comp o_def)
qed

lemma no_marker_in_word: "marker m \<Longrightarrow> CHR '' '' \<notin> set l \<Longrightarrow> \<not> sublist m l"
  by (auto simp: marker_def sublist_def)

lemma marker_nonempty: "marker m \<Longrightarrow> m \<noteq> []"
  by (auto simp: marker_def)

lemma marker_in_lines:
  assumes "marker m" and "\<forall>l \<in> set ls. \<not> sublist m l"
  shows "sublist m (concat (map put_line ls) @ r) \<longleftrightarrow> sublist m r"
  using assms(2)
proof (induction ls)
  case (Cons l ls)
  then show ?case
    using sublist_line [of m l "concat (map put_line ls) @ r"] assms(1) marker_nonempty [OF assms(1)]
    by (simp add: put_line_def [of l] marker_def)
qed simp

lemma find_sub_iff: "find_sub p s = None \<longleftrightarrow> \<not> sublist p s"
  by (induction s) (auto simp: sublist_Cons_right)

lemma find_last_iff: "find_last p s = None \<longleftrightarrow> \<not> sublist p s"
  by (induction s) (auto simp: sublist_Cons_right split: option.splits)

lemma find_last_suffix:
  assumes "prefix p (c # s)" and "\<not> sublist p s"
  shows "find_last p (x @ c # s) = Some (length x)"
  using assms by (induction x) (simp_all add: find_last_iff [symmetric])

lemma find_sub_lines:
  assumes "marker m" and "\<forall>l \<in> set ls. \<not> sublist m l"
  shows "find_sub m (concat (map put_line ls) @ r) = map_option ((+) (length (concat (map put_line ls)))) (find_sub m r)"
  using assms(2)
proof (induction ls)
  case (Cons l ls)
  then show ?case
    using find_sub_line [of m l "concat (map put_line ls) @ r"] assms(1) marker_nonempty [OF assms(1)]
    by (simp add: put_line_def [of l] marker_def option.map_comp o_def add.assoc)
qed (cases "find_sub m r"; simp)

section \<open>Finding the block\<close>

text \<open>What stands between the markers, and a block without its last newline.\<close>

definition inside :: "string list \<Rightarrow> string" where
  "inside ls = concat (map put_line ([] # ls))"

definition block :: "string list \<Rightarrow> string" where
  "block ls = kBegin @ inside ls @ kEnd"

definition plain_line :: "string \<Rightarrow> bool" where
  "plain_line l \<longleftrightarrow> nl \<notin> set l \<and> \<not> sublist kBegin l \<and> \<not> sublist kEnd l"

definition ends_line :: "string \<Rightarrow> bool" where
  "ends_line x \<longleftrightarrow> x = [] \<or> last x = nl"

lemma inside_ends: "inside ls \<noteq> [] \<and> last (inside ls) = nl"
  by (cases ls rule: rev_cases) (simp_all add: inside_def put_line_def)

lemma block_lines_inside: "\<forall>l \<in> set ls. plain_line l \<Longrightarrow> block_lines (inside ls) = ls"
  using block_lines_put [of ls] by (simp add: inside_def put_line_def [of "[]"] plain_line_def)

lemma starts_a_line_after: "ends_line x \<Longrightarrow> starts_a_line (x @ y) (length x)"
  by (cases x rule: rev_cases) (auto simp: starts_a_line_def ends_line_def nth_append)

lemma marker_shapes:
  "\<exists>x. kBegin = CHR ''-'' # x \<and> \<not> sublist kBegin x" "\<not> sublist kBegin kEnd" "\<not> sublist kEnd kBegin"
  "\<exists>x. kEnd = CHR ''-'' # x \<and> \<not> sublist kEnd x"
  by (simp_all add: kBegin_def kEnd_def sublist_Cons_right)

lemma find_sub_front: "m \<noteq> [] \<Longrightarrow> find_sub m (m @ y) = Some 0"
  by (cases m) simp_all

lemma find_last_front:
  assumes "m = c # m'" and "\<not> sublist m (m' @ y)"
  shows "find_last m (x @ m @ y) = Some (length x)"
  using find_last_suffix [of m c "m' @ y" x] assms by simp

lemma no_begin_newline: "\<not> sublist kBegin [nl]"
  by (simp add: kBegin_def nl_def sublist_Cons_right)

lemma no_marker_inside:
  assumes "\<forall>l \<in> set ls. plain_line l" and "m = kBegin \<or> m = kEnd"
  shows "sublist m (inside ls @ r) \<longleftrightarrow> sublist m r"
proof -
  have m: "marker m"
    using assms(2) markers by blast
  then show ?thesis
    using marker_in_lines [OF m, of "[] # ls" r] assms marker_nonempty [OF m] by (auto simp: inside_def plain_line_def)
qed

lemma find_end:
  assumes "\<forall>l \<in> set ls. plain_line l"
  shows "find_from (x @ kBegin @ inside ls @ kEnd @ y) kEnd (length x + length kBegin)
    = Some (length (x @ kBegin @ inside ls))"
proof -
  have "find_sub kEnd (inside ls @ kEnd @ y) = map_option ((+) (length (inside ls))) (find_sub kEnd (kEnd @ y))"
    using find_sub_lines [OF markers(2), of "[] # ls" "kEnd @ y"] assms marker_nonempty [OF markers(2)]
    by (auto simp: inside_def plain_line_def)
  moreover have "find_sub kEnd (kEnd @ y) = Some 0"
    by (rule find_sub_front [OF marker_nonempty [OF markers(2)]])
  ultimately show ?thesis
    by (simp add: find_from_def)
qed

lemma find_from_None: "find_from (x @ y) m (length x) = None \<longleftrightarrow> \<not> sublist m y"
  by (simp add: find_from_def find_sub_iff)

lemma no_begin_after_begin:
  assumes "\<forall>l \<in> set ls. plain_line l" and "\<not> sublist kBegin y" and "ends_line (rev y)"
  shows "\<not> sublist kBegin (kEnd @ y)"
proof (cases "y = []")
  case False
  then have "kEnd @ y = kEnd @ nl # tl y"
    using assms(3) by (cases y) (simp_all add: ends_line_def)
  moreover have "\<not> sublist kBegin (tl y)"
    using assms(2) False by (cases y) (simp_all add: sublist_Cons_right)
  ultimately show ?thesis
    using sublist_line [of kBegin kEnd "tl y"] marker_shapes(2) markers(1) marker_nonempty [OF markers(1)]
    by (simp add: marker_def)
qed (simp add: marker_shapes)

lemma no_begin_inside:
  assumes "\<forall>l \<in> set ls. plain_line l" and "\<not> sublist kBegin y" and "ends_line (rev y)"
  shows "\<not> sublist kBegin (inside ls @ kEnd @ y)"
  using no_marker_inside [OF assms(1), of kBegin] no_begin_after_begin [OF assms] by simp

lemma find_begin_last:
  assumes "\<forall>l \<in> set ls. plain_line l"
  shows "find_last kBegin (x @ kBegin @ inside ls @ kEnd @ [nl]) = Some (length x)"
proof -
  obtain m where m: "kBegin = CHR ''-'' # m" "\<not> sublist kBegin m"
    using marker_shapes(1) by blast
  have "\<not> sublist kBegin (inside ls @ kEnd @ [nl])"
    by (intro no_begin_inside assms no_begin_newline) (simp add: ends_line_def)
  moreover have i: "inside ls = nl # concat (map put_line ls)"
    by (simp add: inside_def put_line_def)
  ultimately have "\<not> sublist kBegin (m @ inside ls @ kEnd @ [nl])"
    using m(2) sublist_line [of kBegin m "concat (map put_line ls) @ kEnd @ [nl]"] markers(1) marker_nonempty [OF markers(1)]
    by (simp add: marker_def sublist_Cons_right)
  then show ?thesis
    by (rule find_last_front [OF m(1)])
qed

lemma find_recv_block_written:
  assumes "\<forall>l \<in> set ls. plain_line l" and "ends_line x"
  shows "find_recv_block (x @ block ls @ [nl]) = Inr (x, inside ls)"
proof -
  let ?s = "x @ kBegin @ inside ls @ kEnd @ [nl]"
  have "starts_a_line ?s (length x)"
    by (rule starts_a_line_after [OF assms(2)])
  moreover have "starts_a_line ?s (length (x @ kBegin @ inside ls))"
    using starts_a_line_after [of "x @ kBegin @ inside ls" "kEnd @ [nl]"] inside_ends [of ls] by (simp add: ends_line_def)
  moreover have "find_from ?s kBegin (length (x @ kBegin @ inside ls) + length kEnd) = None"
    using find_from_None [of "x @ kBegin @ inside ls @ kEnd" "[nl]" kBegin] no_begin_newline by (simp add: add.assoc)
  moreover have "drop (length (x @ kBegin @ inside ls) + length kEnd) ?s = [nl]"
    by simp
  ultimately show ?thesis
    using find_begin_last [OF assms(1), of x] find_end [OF assms(1), of x "[nl]"]
    by (simp add: find_recv_block_def block_def Let_def c_isspace_def nl_def)
qed

lemma find_block_written:
  assumes "\<forall>l \<in> set ls. plain_line l" and "ends_line x" and "ends_line (rev y)"
    and "\<not> sublist kBegin x" and "\<not> sublist kBegin y" and "\<not> sublist kEnd y"
  shows "find_block (x @ block ls @ y) = Inr (inside ls)"
proof -
  let ?s = "x @ kBegin @ inside ls @ kEnd @ y"
  have line: "find_sub kBegin (x @ r) = map_option ((+) (length x)) (find_sub kBegin r)" for r
  proof (cases "x = []")
    case False
    then obtain z where x: "x = z @ [nl]"
      using assms(2) by (cases x rule: rev_cases) (auto simp: ends_line_def)
    then have "\<not> sublist kBegin z"
      using assms(4) by (metis sublist_append_rightI sublist_order.order_trans)
    then show ?thesis
      using find_sub_line [of kBegin z r] markers(1) marker_nonempty [OF markers(1)]
      by (cases "find_sub kBegin r") (simp_all add: x marker_def)
  qed (cases "find_sub kBegin r"; simp)
  have "find_from ?s kBegin 0 = Some (length x)"
    using line [of "kBegin @ inside ls @ kEnd @ y"] find_sub_front [OF marker_nonempty [OF markers(1)]]
    by (simp add: find_from_def)
  moreover have "starts_a_line ?s (length x)"
    by (rule starts_a_line_after [OF assms(2)])
  moreover have "find_from ?s kBegin (length x + length kBegin) = None"
    using find_from_None [of "x @ kBegin" "inside ls @ kEnd @ y" kBegin] no_begin_inside [OF assms(1,5,3)] by simp
  moreover have "starts_a_line ?s (length (x @ kBegin @ inside ls))"
    using starts_a_line_after [of "x @ kBegin @ inside ls" "kEnd @ y"] inside_ends [of ls] by (simp add: ends_line_def)
  moreover have "find_from ?s kEnd (length (x @ kBegin @ inside ls) + length kEnd) = None"
    using find_from_None [of "x @ kBegin @ inside ls @ kEnd" y kEnd] assms(6) by (simp add: add.assoc)
  ultimately show ?thesis
    using find_end [OF assms(1), of x y] by (simp add: find_block_def block_def Let_def)
qed

section \<open>What the writers write\<close>

definition result_kvs :: "gui_result \<Rightarrow> (string \<times> string) list" where
  "result_kvs r = [(''version'', kGuiVersion), (''command'', gu_command r), (''status'', gu_status r)] @
     (if gu_status r = ''ok'' then
        (if gu_command r = ''init'' then [(''source'', gu_source r)] else []) @
        [(''passphrase_words'', to_string (gu_passphrase_words r)), (''passphrase'', gu_passphrase r)] @
        (if gu_recovery r \<noteq> [] then
           [(''recovery_words'', to_string (gu_recovery_words r)), (''recovery'', gu_recovery r)] else [])
      else [])"

definition recv_kvs :: "recv_result \<Rightarrow> (string \<times> string) list" where
  "recv_kvs r = [(''version'', kGuiVersion), (''command'', ''recv''), (''kind'', rx_kind r), (''marker'', kMarkerPercentHex)] @
     (if rx_kind r = kRecvFile then
        [(''ext'', rx_ext r), (''staged'', if rx_staged r then ''yes'' else ''no'')] @
        (if rx_staged r then [(''path'', rx_path r)] else [])
      else [])"

lemma block_eq: "block ls @ [nl] = put_line kBegin @ concat (map put_line ls) @ put_line kEnd"
  by (simp add: block_def inside_def put_line_def)

lemma write_result_Some: "write_result r = Some t \<longleftrightarrow> valid_result r \<and> t = block (map field_line (result_kvs r)) @ [nl]"
  unfolding block_eq by (auto simp: write_result_def result_kvs_def field_line_def put_line_def)

lemma write_recv_Some: "write_recv_result r = Some t \<longleftrightarrow> valid_recv r \<and> t = block (map field_line (recv_kvs r)) @ [nl]"
  unfolding block_eq by (auto simp: write_recv_result_def recv_kvs_def field_line_def put_line_def kMarkerPercentHex_def)

text \<open>No marker fits into a line without a space or without a dash.\<close>

definition clean :: "string \<Rightarrow> bool" where
  "clean l \<longleftrightarrow> nl \<notin> set l \<and> (CHR '' '' \<notin> set l \<or> CHR ''-'' \<notin> set l)"

lemma clean_plain: "clean l \<Longrightarrow> plain_line l"
proof -
  have "CHR '' '' \<in> set m \<and> CHR ''-'' \<in> set m" if "m = kBegin \<or> m = kEnd" for m
    using that by (auto simp: kBegin_def kEnd_def)
  then show "clean l \<Longrightarrow> plain_line l"
    unfolding clean_def plain_line_def using set_mono_sublist by blast
qed

lemma lower_not: "lower c \<Longrightarrow> c \<notin> {nl, CHR 0x0D, CHR ''-'', CHR ''=''}"
  by (auto simp: lower_def nl_def byte_of_char_def)

lemma count_words_chars: "count_words s = Some n \<Longrightarrow> c \<in> set s \<Longrightarrow> lower c \<or> c = CHR '' ''"
proof (induction s arbitrary: n rule: count_words.induct)
  case (1 s)
  let ?w = "takeWhile (\<lambda>c. c \<noteq> CHR '' '') s" and ?r = "dropWhile (\<lambda>c. c \<noteq> CHR '' '') s"
  note e = count_words.simps [of s]
  have w: "?w \<noteq> []" "list_all lower ?w"
    using "1.prems"(1) e by (auto simp: Let_def split: if_splits)
  have s: "s = ?w @ ?r"
    by simp
  show ?case
  proof (cases "c \<in> set ?w")
    case True
    with w(2) show ?thesis
      by (simp add: list_all_iff)
  next
    case False
    then have c: "c \<in> set ?r"
      using "1.prems"(2) s by (metis Un_iff set_append)
    then have ne: "?r \<noteq> []"
      by (metis empty_iff empty_set)
    obtain k where k: "count_words (tl ?r) = Some k"
      using "1.prems"(1) e w ne by (auto simp: Let_def split: if_splits)
    have "hd ?r = CHR '' ''"
      using hd_dropWhile [OF ne] by simp
    moreover have "c = hd ?r \<or> c \<in> set (tl ?r)"
      using c ne by (metis list.collapse set_ConsD)
    moreover have "c \<in> set (tl ?r) \<Longrightarrow> lower c \<or> c = CHR '' ''"
      using "1.IH" [OF refl refl _ ne k] w by simp
    ultimately show ?thesis
      by blast
  qed
qed

lemma phrase_clean: "valid_phrase s n \<Longrightarrow> nl \<notin> set s \<and> CHR 0x0D \<notin> set s \<and> CHR ''-'' \<notin> set s"
  using count_words_chars lower_not by (fastforce simp: valid_phrase_def nl_def)

lemma ascii_digit_iff: "ascii_digit c \<longleftrightarrow> (48::nat) \<le> of_char c \<and> (of_char c :: nat) \<le> 57"
  by (simp add: ascii_digit_def word_le_nat_alt unat_byte_of_char)

lemma digit: "d < 10 \<Longrightarrow> ascii_digit (char_of (48 + d :: nat)) \<and> of_char (char_of (48 + d)) = 48 + d"
  by (simp add: ascii_digit_iff)

lemma to_string_digits: "to_string n \<noteq> [] \<and> list_all ascii_digit (to_string n)"
  by (induction n rule: to_string.induct) (subst to_string.simps, use digit in auto)+

lemma decimal_to_string: "decimal (to_string n) = n"
proof (induction n rule: to_string.induct)
  case (1 n)
  show ?case
  proof (cases "n < 10")
    case False
    then show ?thesis
      using 1 digit [of "n mod 10"] by (subst to_string.simps) (simp add: decimal_def)
  qed (subst to_string.simps, use digit [of n] in \<open>simp add: decimal_def\<close>)
qed

lemma parse_count_to_string: "n < 2 ^ 64 \<Longrightarrow> parse_count (to_string n) = Some n"
  using to_string_digits by (simp add: parse_count_def digits_only_def decimal_to_string)

lemma digit_not: "ascii_digit c \<Longrightarrow> c \<notin> {nl, CHR 0x0D, CHR '' '', CHR ''-''}"
  by (auto simp: ascii_digit_def nl_def byte_of_char_def)

lemma to_string_clean: "nl \<notin> set (to_string n) \<and> CHR 0x0D \<notin> set (to_string n) \<and> CHR '' '' \<notin> set (to_string n) \<and> CHR ''-'' \<notin> set (to_string n)"
  using to_string_digits [of n] digit_not by (fastforce simp: list_all_iff)

lemma to_string_short: "n < 100 \<Longrightarrow> length (to_string n) \<le> 2"
  using to_string.simps [of n] to_string.simps [of "n div 10"] by (simp split: if_splits)

lemma phrase_ok_eq: "phrase_ok s n = valid_phrase s n"
  by (simp add: phrase_ok_def valid_phrase_def kMaxFieldChars_def)

lemma extension_ok_eq: "extension_ok e = valid_extension e"
  by (simp add: extension_ok_def valid_extension_def kMaxExtensionChars_def)

lemma wire_not: "wire_char c \<Longrightarrow> c \<notin> {nl, CHR 0x0D, CHR '' '', CHR ''-''}"
  by (auto simp: wire_char_def nl_def byte_of_char_def)

lemma extension_clean:
  "valid_extension e \<Longrightarrow> nl \<notin> set e \<and> CHR 0x0D \<notin> set e \<and> CHR '' '' \<notin> set e \<and> CHR ''-'' \<notin> set e \<and> length e \<le> 16"
  using wire_not by (fastforce simp: valid_extension_def list_all_iff)

lemma path_clean: "valid_staged_path q \<Longrightarrow> path_ok q \<and> nl \<notin> set q \<and> CHR 0x0D \<notin> set q \<and> CHR '' '' \<notin> set q"
  by (auto simp: valid_staged_path_def path_ok_def list_all_iff nl_def byte_of_char_def split: if_splits)

definition good_fields :: "string list \<Rightarrow> (string \<times> string) list \<Rightarrow> bool" where
  "good_fields known kvs \<longleftrightarrow> distinct (map fst kvs) \<and>
     (\<forall>kv \<in> set kvs. field_ok known kv \<and> clean (field_line kv)) \<and> kvs \<noteq> [] \<and>
     length (inside (map field_line kvs)) \<le> kMaxBlockChars"

lemma good_fields_read:
  assumes "good_fields known kvs"
  shows "\<forall>l \<in> set (map field_line kvs). plain_line l" and "block_lines (inside (map field_line kvs)) = map field_line kvs"
    and "read_fields e cr known Map.empty (map field_line kvs) = Inr (map_of kvs)"
proof -
  show pl: "\<forall>l \<in> set (map field_line kvs). plain_line l"
    using assms clean_plain by (auto simp: good_fields_def)
  then show "block_lines (inside (map field_line kvs)) = map field_line kvs"
    by (rule block_lines_inside)
  show "read_fields e cr known Map.empty (map field_line kvs) = Inr (map_of kvs)"
    using read_fields_lines [of kvs known Map.empty e cr] assms by (simp add: good_fields_def)
qed

lemma length_inside: "length (inside ls) = Suc (sum_list (map (\<lambda>l. Suc (length l)) ls))"
  by (induction ls) (simp_all add: inside_def put_line_def)

lemma recv_kvs_good:
  assumes "valid_recv r" and "length (rx_path r) \<le> 3900"
  shows "good_fields recv_keys (recv_kvs r)"
proof -
  have "rx_kind r = kRecvText \<or> rx_kind r = kRecvFile \<and> valid_extension (rx_ext r) \<and> (rx_staged r \<longrightarrow> valid_staged_path (rx_path r))"
    using assms(1) by (auto simp: valid_recv_def split: if_splits)
  then show ?thesis
  proof (elim disjE conjE)
    assume "rx_kind r = kRecvText"
    then show ?thesis
      by (simp add: good_fields_def recv_kvs_def field_ok_def clean_def field_line_def length_inside recv_keys_def kRecvText_def
          kRecvFile_def kGuiVersion_def kMarkerPercentHex_def kMaxBlockChars_def nl_def)
  next
    assume k: "rx_kind r = kRecvFile" and e: "valid_extension (rx_ext r)" and q: "rx_staged r \<longrightarrow> valid_staged_path (rx_path r)"
    show ?thesis
      using extension_clean [OF e] path_clean q assms(2)
      by (cases "rx_staged r") (simp_all add: k good_fields_def recv_kvs_def field_ok_def clean_def field_line_def length_inside
          recv_keys_def kRecvFile_def kGuiVersion_def kMarkerPercentHex_def kMaxBlockChars_def nl_def)
  qed
qed

lemma valid_result_cases:
  assumes "valid_result r"
  obtains (cancelled) "gu_command r = ''passphrase''" "gu_status r = ''cancelled''" "gu_passphrase r = []" "gu_recovery r = []"
  | (changed) "gu_command r = ''passphrase''" "gu_status r = ''ok''" "gu_recovery r = []"
      "valid_phrase (gu_passphrase r) (gu_passphrase_words r)" "6 \<le> gu_passphrase_words r" "gu_passphrase_words r \<le> 12"
  | (restored) "gu_command r = ''init''" "gu_status r = ''ok''" "gu_source r = ''mnemonic''" "gu_recovery r = []"
      "valid_phrase (gu_passphrase r) (gu_passphrase_words r)" "6 \<le> gu_passphrase_words r" "gu_passphrase_words r \<le> 12"
  | (generated) "gu_command r = ''init''" "gu_status r = ''ok''" "gu_source r = ''generated''"
      "gu_recovery_words r = kRecoveryWords" "valid_phrase (gu_recovery r) kRecoveryWords" "gu_recovery r \<noteq> []"
      "valid_phrase (gu_passphrase r) (gu_passphrase_words r)" "6 \<le> gu_passphrase_words r" "gu_passphrase_words r \<le> 12"
proof -
  have "valid_phrase w n \<Longrightarrow> w \<noteq> []" for w n
    by (simp add: valid_phrase_def)
  then show thesis
    using assms that by (auto simp: valid_result_def valid_command_def valid_status_def kMinPassphraseWords_def
        kMaxPassphraseWords_def split: if_splits)
qed

lemma phrase_length: "valid_phrase s n \<Longrightarrow> length s \<le> 1024"
  by (simp add: valid_phrase_def)

lemmas written_simps = good_fields_def result_kvs_def field_ok_def clean_def field_line_def length_inside result_keys_def
  kGuiVersion_def kMaxBlockChars_def nl_def

lemma result_kvs_good:
  assumes "valid_result r"
  shows "good_fields result_keys (result_kvs r)"
  using assms
proof (cases rule: valid_result_cases)
  case cancelled
  then show ?thesis
    by (simp add: written_simps)
next
  case changed
  then show ?thesis
    using phrase_clean [OF changed(4)] phrase_length [OF changed(4)] to_string_clean to_string_short [of "gu_passphrase_words r"]
    by (simp add: written_simps)
next
  case restored
  then show ?thesis
    using phrase_clean [OF restored(5)] phrase_length [OF restored(5)] to_string_clean to_string_short [of "gu_passphrase_words r"]
    by (simp add: written_simps)
next
  case generated
  then show ?thesis
    using phrase_clean [OF generated(7)] phrase_length [OF generated(7)] phrase_clean [OF generated(5)] phrase_length [OF generated(5)]
      to_string_clean to_string_short [of "gu_passphrase_words r"] to_string_short [of kRecoveryWords]
    by (simp add: written_simps kRecoveryWords_def)
qed

lemma checked_result_written:
  assumes "valid_result r"
  shows "checked_result (gu_command r) (map_of (result_kvs r)) =
    Inr (if gu_status r = ''cancelled'' then Cancelled else Shown (gu_passphrase r) (gu_recovery r))"
proof -
  have n: "n \<le> 12 \<Longrightarrow> parse_count (to_string n) = Some n" for n
    by (rule parse_count_to_string) (simp add: less_le_trans [of _ 13])
  show ?thesis
    using assms
  proof (cases rule: valid_result_cases)
    case cancelled
    then show ?thesis
      by (simp add: checked_result_def result_kvs_def field_def)
  next
    case changed
    then show ?thesis
      using n [OF changed(6)] by (simp add: checked_result_def ok_result_def source_of_def recovery_of_def result_kvs_def
          field_def phrase_ok_eq kMinPassphraseWords_def kMaxPassphraseWords_def)
  next
    case restored
    then show ?thesis
      using n [OF restored(7)] by (simp add: checked_result_def ok_result_def source_of_def recovery_of_def result_kvs_def
          field_def phrase_ok_eq kMinPassphraseWords_def kMaxPassphraseWords_def)
  next
    case generated
    then show ?thesis
      using n [OF generated(9)] n [of kRecoveryWords] by (simp add: checked_result_def ok_result_def source_of_def
          recovery_of_def result_kvs_def field_def phrase_ok_eq kMinPassphraseWords_def kMaxPassphraseWords_def kRecoveryWords_def)
  qed
qed

lemma checked_recv_written:
  assumes "valid_recv r"
  shows "checked_recv (map_of (recv_kvs r)) (x @ write_body_escaped s @ [nl]) =
    Inr \<lparr>pr_is_file = rx_kind r = kRecvFile, pr_ext = rx_ext r, pr_staged = rx_staged r, pr_path = rx_path r,
      pr_body = unescape_body (x @ write_body_escaped s)\<rparr>"
proof -
  let ?f = "map_of (recv_kvs r)"
  have m: "recv_message ?f (x @ write_body_escaped s @ [nl]) = unescape_body (x @ write_body_escaped s)"
    by (simp add: recv_message_def recv_kvs_def field_def butlast_append)
  have "rx_kind r = kRecvText \<and> rx_ext r = [] \<and> \<not> rx_staged r \<and> rx_path r = [] \<or>
      rx_kind r = kRecvFile \<and> valid_extension (rx_ext r) \<and> rx_staged r = (rx_path r \<noteq> []) \<and>
      (rx_staged r \<longrightarrow> valid_staged_path (rx_path r))"
    using assms by (auto simp: valid_recv_def split: if_splits)
  then show ?thesis
  proof (elim disjE conjE)
    assume "rx_kind r = kRecvText" "rx_ext r = []" "\<not> rx_staged r" "rx_path r = []"
    then show ?thesis
      unfolding checked_recv_def m Let_def
      by (simp add: recv_kvs_def field_def kRecvText_def kRecvFile_def kMarkerPercentHex_def kGuiVersion_def)
  next
    assume "rx_kind r = kRecvFile" "valid_extension (rx_ext r)" "rx_staged r = (rx_path r \<noteq> [])"
      "rx_staged r \<longrightarrow> valid_staged_path (rx_path r)"
    then show ?thesis
      using path_clean unfolding checked_recv_def m Let_def
      by (cases "rx_staged r")
        (simp_all add: recv_kvs_def field_def kRecvFile_def kMarkerPercentHex_def kGuiVersion_def extension_ok_eq)
  qed
qed

lemma escaped_ascii: "list_all is_ascii s \<Longrightarrow> list_all is_ascii (write_body_escaped s)"
proof (induction "length s" arbitrary: s rule: less_induct)
  case less
  have m: "list_all is_ascii (marker_spelling kBegin)" "list_all is_ascii (marker_spelling kEnd)" "is_ascii (CHR ''%'')"
    by (simp_all add: kBegin_def kEnd_def hex_pair_def byte_of_char_def hex_digit_def is_ascii_def)
  have d: "list_all is_ascii (drop n s)" for n
    using less(2) by (auto simp: list_all_iff dest: in_set_dropD)
  show ?case
  proof (cases s rule: body_cases)
    case 1
    then show ?thesis
      by (simp add: write_body_escaped.simps)
  next
    case front
    have "length (drop (length kBegin) s) < length s"
      using front(2) by (simp add: kBegin_def)
    from less(1) [OF this d] m show ?thesis
      by (simp add: front(3))
  next
    case rear
    have "length (drop (length kEnd) s) < length s"
      using rear(3) by (simp add: kEnd_def)
    from less(1) [OF this d] m show ?thesis
      by (simp add: rear(4))
  next
    case (percent r)
    with less(1) [of r] less(2) m show ?thesis
      by simp
  next
    case (other c r)
    have "length (dropWhile ordinary r) < length s"
      using other(1) length_dropWhile_le [of ordinary r] by simp
    moreover have "list_all is_ascii (dropWhile ordinary r)" "list_all is_ascii (c # takeWhile ordinary r)"
      using less(2) other(1) by (auto simp: list_all_iff dest: set_takeWhileD set_dropWhileD)
    ultimately show ?thesis
      using less(1) unfolding other(5) by simp
  qed
qed

section \<open>From the pipe to the parser\<close>

text \<open>Well-formed UTF-8 (Unicode 3.9, table 3-7).\<close>

definition byte_in :: "nat \<Rightarrow> nat \<Rightarrow> char \<Rightarrow> bool" where
  "byte_in lo hi c \<longleftrightarrow> lo \<le> of_char c \<and> of_char c \<le> hi"

fun valid_utf8 :: "string \<Rightarrow> bool" where
  "valid_utf8 [] \<longleftrightarrow> True"
| "valid_utf8 (c # s) \<longleftrightarrow>
     (if is_ascii c then valid_utf8 s
      else if byte_in 0xC2 0xDF c then (case s of c1 # r \<Rightarrow> byte_in 0x80 0xBF c1 \<and> valid_utf8 r | _ \<Rightarrow> False)
      else if byte_in 0xE0 0xEF c then
        (case s of c1 # c2 # r \<Rightarrow>
           byte_in (if byte_in 0xE0 0xE0 c then 0xA0 else 0x80) (if byte_in 0xED 0xED c then 0x9F else 0xBF) c1 \<and>
           byte_in 0x80 0xBF c2 \<and> valid_utf8 r
         | _ \<Rightarrow> False)
      else if byte_in 0xF0 0xF4 c then
        (case s of c1 # c2 # c3 # r \<Rightarrow>
           byte_in (if byte_in 0xF0 0xF0 c then 0x90 else 0x80) (if byte_in 0xF4 0xF4 c then 0x8F else 0xBF) c1 \<and>
           byte_in 0x80 0xBF c2 \<and> byte_in 0x80 0xBF c3 \<and> valid_utf8 r
         | _ \<Rightarrow> False)
      else False)"

text \<open>Qt drops a byte order mark at the front of what it decodes.\<close>

definition decodable :: "string \<Rightarrow> bool" where
  "decodable s \<longleftrightarrow> valid_utf8 s \<and> map byte_of_char (take 3 s) \<noteq> [0xEF, 0xBB, 0xBF]"

definition utf8_law :: "(string \<Rightarrow> string) \<Rightarrow> bool" where
  "utf8_law decode \<longleftrightarrow> (\<forall>s. decodable s \<longrightarrow> decode s = s)"

text \<open>\<open>commandStdout_\<close>: every chunk that could be read, decoded and appended.\<close>

definition collected :: "(string \<Rightarrow> string) \<Rightarrow> string list \<Rightarrow> string" where
  "collected decode chunks = foldl (\<lambda>out chunk. out @ decode chunk) [] chunks"

lemma collected_kept:
  assumes "utf8_law decode" and "\<forall>chunk \<in> set chunks. decodable chunk"
  shows "collected decode chunks = concat chunks"
proof -
  have "foldl (\<lambda>out chunk. out @ decode chunk) x chunks = x @ concat chunks" for x
    using assms(2) by (induction chunks arbitrary: x) (use assms(1) in \<open>simp_all add: utf8_law_def\<close>)
  then show ?thesis
    by (simp add: collected_def)
qed

lemma ascii_decodable: "list_all is_ascii s \<Longrightarrow> decodable s"
proof -
  assume a: "list_all is_ascii s"
  have "valid_utf8 s"
    using a by (induction s) simp_all
  moreover have "map byte_of_char (take 3 s) \<noteq> [0xEF, 0xBB, 0xBF]"
    using a by (cases s) (auto simp: is_ascii_def)
  ultimately show ?thesis
    by (simp add: decodable_def)
qed

text \<open>A decoder for the witnesses: text that is not well-formed becomes one replacement character.\<close>

definition sample_decode :: "string \<Rightarrow> string" where
  "sample_decode s = (if decodable s then s else map char_of [0xEF, 0xBF, 0xBD :: nat])"

lemma sample_utf8_law: "utf8_law sample_decode"
  by (simp add: utf8_law_def sample_decode_def)

section \<open>Round trips\<close>

lemma recv_written_read:
  assumes "write_recv_result r = Some t" and "length (rx_path r) \<le> 3900"
  shows "parseRecvResult (who @ write_body_escaped s @ [nl] @ t) =
      Inr \<lparr>pr_is_file = rx_kind r = kRecvFile, pr_ext = rx_ext r, pr_staged = rx_staged r, pr_path = rx_path r,
        pr_body = unescape_body (who @ write_body_escaped s)\<rparr>" (is "?text")
    and "parseRecvResult t =
      Inr \<lparr>pr_is_file = rx_kind r = kRecvFile, pr_ext = rx_ext r, pr_staged = rx_staged r, pr_path = rx_path r,
        pr_body = []\<rparr>" (is "?bare")
proof -
  let ?ls = "map field_line (recv_kvs r)" and ?x = "who @ write_body_escaped s @ [nl]"
  have v: "valid_recv r" and t: "t = block ?ls @ [nl]"
    using assms(1) unfolding write_recv_Some by blast+
  note g = recv_kvs_good [OF v assms(2)]
  have f: "recv_fields (inside ?ls) = Inr (map_of (recv_kvs r))"
    using g good_fields_read(2,3) [OF g] by (simp add: recv_fields_def good_fields_def)
  have b: "find_recv_block (x @ block ?ls @ [nl]) = Inr (x, inside ?ls)" if "ends_line x" for x
    by (rule find_recv_block_written [OF good_fields_read(1) [OF g] that])
  show ?text
    using b [of ?x] f checked_recv_written [OF v, of who s] by (simp add: parseRecvResult_def t ends_line_def)
  have "parseRecvResult ([nl] @ t) = Inr \<lparr>pr_is_file = rx_kind r = kRecvFile, pr_ext = rx_ext r, pr_staged = rx_staged r,
      pr_path = rx_path r, pr_body = []\<rparr>"
    using b [of "[nl]"] f checked_recv_written [OF v, of "[]" "[]"]
    by (simp add: parseRecvResult_def t ends_line_def write_body_escaped.simps unescape_body.simps)
  moreover have m: "recv_message g [] = recv_message g [nl]" for g
    by (simp add: recv_message_def)
  have "checked_recv (map_of (recv_kvs r)) [] = checked_recv (map_of (recv_kvs r)) [nl]"
    unfolding checked_recv_def m ..
  ultimately show ?bare
    using b [of "[nl]"] b [of "[]"] f by (simp add: parseRecvResult_def t ends_line_def)
qed

text \<open>C31: whatever a sender wrote, even text that spells the markers out, the interface that reads the output of
  \<open>recv --structured-output\<close> finds the program's own block and nothing else: it is told text or file as the program
  decided, the extension and path the program staged, and shows exactly the text, after the sender's alias. This is
  for a staged path of at most 3900 bytes, which the reader's limit on a block leaves room for, and for output that
  arrives in chunks of well-formed UTF-8, none of them split inside a character (the interface decodes each chunk on
  its own). What stands in front of the text, the alias, is not escaped but is unescaped with it: it is shown
  unchanged if it contains no percent sign. A file comes with no text in front of the block, and then none is shown.\<close>

theorem recv_output_read_back:
  assumes "write_recv_result r = Some t" and "length (rx_path r) \<le> 3900"
    and "utf8_law decode" and "\<forall>chunk \<in> set chunks. decodable chunk"
  shows "(concat chunks = who @ write_body_escaped s @ [nl] @ t \<longrightarrow>
      (\<exists>body. parseRecvResult (collected decode chunks) =
         Inr \<lparr>pr_is_file = rx_kind r = kRecvFile, pr_ext = rx_ext r, pr_staged = rx_staged r, pr_path = rx_path r,
           pr_body = body\<rparr> \<and>
       body = unescape_body (who @ write_body_escaped s) \<and> (CHR ''%'' \<notin> set who \<longrightarrow> body = who @ s))) \<and>
    (concat chunks = t \<longrightarrow> parseRecvResult (collected decode chunks) =
      Inr \<lparr>pr_is_file = rx_kind r = kRecvFile, pr_ext = rx_ext r, pr_staged = rx_staged r, pr_path = rx_path r,
        pr_body = []\<rparr>)"
  using recv_written_read [OF assms(1,2)] collected_kept [OF assms(3,4)]
    unescape_plain [of who "write_body_escaped s"] unescape_escaped [of s]
  by auto

text \<open>A message whose text is a forged block that reports a staged file, read in two chunks.\<close>

theorem recv_output_read_back_witness:
  "\<exists>t. write_recv_result \<lparr>rx_kind = kRecvText, rx_ext = [], rx_staged = False, rx_path = []\<rparr> = Some t \<and>
     parseRecvResult (collected sample_decode
         [''bob: '', write_body_escaped ([nl] @ kBegin @ [nl] @ ''kind=file'' @ [nl] @ kEnd) @ [nl] @ t]) =
       Inr \<lparr>pr_is_file = False, pr_ext = [], pr_staged = False, pr_path = [],
         pr_body = ''bob: '' @ [nl] @ kBegin @ [nl] @ ''kind=file'' @ [nl] @ kEnd\<rparr>"
proof -
  let ?r = "\<lparr>rx_kind = kRecvText, rx_ext = [], rx_staged = False, rx_path = []\<rparr>"
  let ?s = "[nl] @ kBegin @ [nl] @ ''kind=file'' @ [nl] @ kEnd"
  obtain t where t: "write_recv_result ?r = Some t"
    by (simp add: write_recv_result_def valid_recv_def)
  then have "list_all is_ascii t"
    by (auto simp: write_recv_result_def put_line_def kRecvText_def kRecvFile_def kBegin_def kEnd_def kGuiVersion_def nl_def
        kMarkerPercentHex_def is_ascii_def byte_of_char_def split: if_splits)
  moreover have "list_all is_ascii (write_body_escaped ?s)"
    by (rule escaped_ascii) (simp add: kBegin_def kEnd_def nl_def is_ascii_def byte_of_char_def)
  ultimately have "\<forall>chunk \<in> set [''bob: '', write_body_escaped ?s @ [nl] @ t]. decodable chunk"
    by (auto intro!: ascii_decodable simp: nl_def is_ascii_def byte_of_char_def)
  from recv_output_read_back [OF t _ sample_utf8_law this, of "''bob: ''" ?s] t show ?thesis
    by (intro exI [of _ t]) (simp add: kRecvText_def kRecvFile_def)
qed

text \<open>C32: the interface reads from the result block of \<open>init\<close> or \<open>passphrase\<close> exactly the passphrase and recovery
  phrase that were written, or that the command was cancelled, whatever text the command prints before and after it,
  as long as what comes before ends a line and neither part contains a block marker. The output may arrive in any
  chunks of well-formed UTF-8, none of them split inside a character.\<close>

theorem result_read_back:
  assumes "write_result r = Some t" and "ends_line x" and "\<not> sublist kBegin x" and "\<not> sublist kBegin y" and "\<not> sublist kEnd y"
    and "utf8_law decode" and "\<forall>chunk \<in> set chunks. decodable chunk" and "concat chunks = x @ t @ y"
  shows "parseGuiResult (collected decode chunks) (gu_command r) =
    Inr (if gu_status r = ''cancelled'' then Cancelled else Shown (gu_passphrase r) (gu_recovery r))"
proof -
  let ?ls = "map field_line (result_kvs r)"
  have v: "valid_result r" and t: "t = block ?ls @ [nl]"
    using assms(1) unfolding write_result_Some by blast+
  note g = result_kvs_good [OF v]
  have "\<not> sublist m (nl # y)" if "marker m" "\<not> sublist m y" for m
    using sublist_line [of m "[]" y] that marker_nonempty [OF that(1)] by (simp add: marker_def)
  then have "find_block (x @ block ?ls @ nl # y) = Inr (inside ?ls)"
    by (intro find_block_written good_fields_read(1) [OF g] assms markers) (auto simp: ends_line_def assms markers)
  moreover have "result_fields (inside ?ls) = Inr (map_of (result_kvs r))"
    using g good_fields_read(2,3) [OF g] by (simp add: result_fields_def good_fields_def)
  moreover have "gu_command r = ''init'' \<or> gu_command r = ''passphrase''"
    using v by (auto simp: valid_result_def valid_command_def split: if_splits)
  moreover have "collected decode chunks = x @ block ?ls @ nl # y"
    using collected_kept [OF assms(6,7)] by (simp add: assms(8) t)
  ultimately show ?thesis
    using checked_result_written [OF v] by (auto simp: parseGuiResult_def)
qed

theorem result_read_back_witness:
  "\<exists>t. write_result \<lparr>gu_command = ''passphrase'', gu_status = ''ok'', gu_source = [],
       gu_passphrase = ''able baker charlie dog easy fox'', gu_passphrase_words = 6, gu_recovery = [], gu_recovery_words = 0\<rparr>
       = Some t \<and>
     parseGuiResult (collected sample_decode [''re-encrypted'' @ [nl], t, ''done'']) ''passphrase'' =
       Inr (Shown ''able baker charlie dog easy fox'' [])"
proof -
  let ?r = "\<lparr>gu_command = ''passphrase'', gu_status = ''ok'', gu_source = [],
       gu_passphrase = ''able baker charlie dog easy fox'', gu_passphrase_words = 6, gu_recovery = [], gu_recovery_words = 0\<rparr>"
  have "count_words ''able baker charlie dog easy fox'' = Some 6"
    by (simp add: count_words.simps Let_def lower_def byte_of_char_def)
  then obtain t where t: "write_result ?r = Some t"
    by (simp add: write_result_def valid_result_def valid_command_def valid_status_def valid_phrase_def
        kMinPassphraseWords_def kMaxPassphraseWords_def)
  have "list_all is_ascii t"
    using t by (auto simp: write_result_def put_line_def kBegin_def kEnd_def kGuiVersion_def nl_def to_string.simps
        is_ascii_def byte_of_char_def split: if_splits)
  then have c: "\<forall>chunk \<in> set [''re-encrypted'' @ [nl], t, ''done'']. decodable chunk"
    by (auto intro!: ascii_decodable simp: nl_def is_ascii_def byte_of_char_def)
  have "\<not> sublist m (''re-encrypted'' @ [nl])" "\<not> sublist m ''done''" if "marker m" for m
    using no_marker_in_word [OF that, of "''re-encrypted'' @ [nl]"] no_marker_in_word [OF that, of "''done''"]
    by (auto simp: nl_def)
  with t show ?thesis
    using result_read_back [OF t _ _ _ _ sample_utf8_law c, of "''re-encrypted'' @ [nl]" "''done''"] markers
    by (intro exI [of _ t]) (simp add: ends_line_def)
qed

end
