(* ===== verification/Outbox.thy ===== *)
theory Outbox
  imports App_Props
begin

text \<open>
  The outbox of \<open>commands.cpp\<close>: a block is written beside the vault before the save that advances the ratchet and
  removed after it has been printed, bound to the generation the save commits, so that a message that cannot be
  printed is neither lost nor printed for a state that was never saved. The commands that make a block,
  \<open>cmd_send\<close> and \<open>cmd_group_send\<close>, end in the same steps, which are \<open>commit_block\<close> here; \<open>cmd_outbox\<close> prints a
  block left behind.

  Standard output is what has reached its reader, with a limit after which every write fails; the answers of the
  operating system and of the user are scripts, as in \<open>Drive\<close>.
\<close>

section \<open>State\<close>

record console =
  co_app :: app_state
  co_out :: string
  co_room :: "nat option"  \<comment> \<open>how much more can be written; \<open>None\<close>: no limit\<close>

definition on_app :: "(app_state, 'a) mut \<Rightarrow> (console, 'a) mut" where
  "on_app m c = (case m (co_app c) of (st, r) \<Rightarrow> (c\<lparr>co_app := st\<rparr>, r))"

definition on_store :: "(vault_store, 'a) mut \<Rightarrow> (console, 'a) mut" where
  "on_store m c = (case m (as_store (co_app c)) of
     (v, r) \<Rightarrow> (c\<lparr>co_app := (co_app c)\<lparr>as_store := v\<rparr>\<rparr>, r))"

text \<open>\<open>std::cout << s\<close>, as far as the reader takes it, and whether all of it was taken.\<close>

definition room_for :: "string \<Rightarrow> console \<Rightarrow> bool" where
  "room_for s c \<longleftrightarrow> pred_option (\<lambda>n. length s \<le> n) (co_room c)"

definition emit :: "string \<Rightarrow> console \<Rightarrow> console" where
  "emit s c = (case co_room c of
     None \<Rightarrow> c\<lparr>co_out := co_out c @ s\<rparr>
   | Some n \<Rightarrow> c\<lparr>co_out := co_out c @ take n s, co_room := Some (n - length s)\<rparr>)"

definition print :: "string \<Rightarrow> (console, unit) mut" where
  "print s = modifyM (emit s)"

definition write_block_or_throw :: "string \<Rightarrow> (console, unit) mut" where
  "write_block_or_throw block c =
     (emit block c, if room_for block c then Inr () else Inl (CommandError BlockNotWritten))"

section \<open>What the world answers during a command\<close>

record answers =
  an_read :: read_script  \<comment> \<open>the vault file\<close>
  an_pass :: "bool \<Rightarrow> bytes result"  \<comment> \<open>the passphrase prompt, word by word or on one line\<close>
  an_now :: u64
  an_save :: save_script
  an_outbox_read :: read_script
  an_outbox_write :: write_script
  an_reread :: read_script  \<comment> \<open>the vault file after a save that failed\<close>
  an_unlink :: bool  \<comment> \<open>\<open>fs::remove\<close> succeeds\<close>

definition kOutboxFilename :: string where "kOutboxFilename = ''vault.bin.outbox''"
definition kPreparedVaultFilename :: string where "kPreparedVaultFilename = ''vault.bin.v3-prepared''"

text \<open>\<open>unlock_vault\<close> of \<open>command_io.cpp\<close>: the opened vault becomes the store in memory.\<close>

definition unlock_vault :: "prims \<Rightarrow> answers \<Rightarrow> (app_state, opened_vault) mut" where
  "unlock_vault p an =
     bindM (readM (\<lambda>st. if as_dir st kPreparedVaultFilename \<noteq> None then Inl (CommandError MigrationWaiting) else Inr ())) (\<lambda>_.
     bindM (readM (\<lambda>st. read_vault p (an_read an) kVaultFilename (as_dir st))) (\<lambda>f.
     bindM (readM (\<lambda>_. if vh_version (vf_header f) = kLegacyVersion then Inl (RollbackError LegacyVault) else Inr ())) (\<lambda>_.
     bindM (readM (\<lambda>_. an_pass an (vh_version (vf_header f) = kWordVersion))) (\<lambda>pw.
     bindM (on_host (open_vault p (an_now an) f pw False)) (\<lambda>opened.
     bindM (modifyM (\<lambda>st. st\<lparr>as_store := ov_store opened\<rparr>)) (\<lambda>_.
     returnM opened))))))"

section \<open>The outbox\<close>

definition ensure_no_pending_outbox :: "(app_state, unit) mut" where
  "ensure_no_pending_outbox =
     readM (\<lambda>st. if as_dir st kOutboxFilename \<noteq> None then Inl (CommandError OutboxPending) else Inr ())"

definition kOutboxMagic :: bytes where "kOutboxMagic = bytes_of_string ''RBOX''"
definition kOutboxVersion :: byte where "kOutboxVersion = 1"

definition outbox_bytes :: "bytes \<Rightarrow> u64 \<Rightarrow> string \<Rightarrow> bytes result" where
  "outbox_bytes vault_id committed_generation block = catR [
     put_bytes kOutboxMagic, put_u8 kOutboxVersion, put_bytes vault_id, put_u64 committed_generation,
     put_blob (bytes_of_string block)]"

definition write_pending_outbox :: "write_script \<Rightarrow> u64 \<Rightarrow> string \<Rightarrow> (app_state, unit) mut" where
  "write_pending_outbox sc committed_generation block =
     bindM (readM (\<lambda>st. outbox_bytes (v_vault_id (as_store st)) committed_generation block)) (\<lambda>bs st.
     let t = write_file sc kOutboxFilename bs False (as_dir st)
     in (st\<lparr>as_dir := left_by (as_dir st) t\<rparr>, ended (snd t)))"

text \<open>The generation on the drive; \<open>None\<close> if it cannot be told. A process that is killed says nothing.\<close>

definition vault_generation_is :: "prims \<Rightarrow> answers \<Rightarrow> bytes \<Rightarrow> u64 \<Rightarrow> dir \<Rightarrow> bool option result" where
  "vault_generation_is p an pw g d =
     (case bindR (ended (read_file (an_reread an) kVaultFilename d)) (\<lambda>bs.
           bindR (unseal p bs pw) (\<lambda>plain. store_parse p (an_now an) plain)) of
        Inr v \<Rightarrow> Inr (Some (v_generation v = g))
      | Inl e \<Rightarrow> if e = DriveError ProcessKilled then Inl e else Inr None)"

text \<open>\<open>fs::remove\<close>: nothing to remove is no error.\<close>

definition remove_file :: "bool \<Rightarrow> string \<Rightarrow> app_state \<Rightarrow> app_state" where
  "remove_file works name st = (if works then st\<lparr>as_dir := (as_dir st)(name := None)\<rparr> else st)"

definition discard_pending_outbox :: "bool \<Rightarrow> (app_state, unit) mut" where
  "discard_pending_outbox works = modifyM (remove_file works kOutboxFilename)"

definition remove_pending_outbox :: "bool \<Rightarrow> (app_state, unit) mut" where
  "remove_pending_outbox works st =
     (remove_file works kOutboxFilename st,
      if works \<or> as_dir st kOutboxFilename = None then Inr () else Inl (CommandError OutboxNotRemoved))"

text \<open>
  \<open>try { save_vault(...) } catch (...) { ...; throw; }\<close>: the outbox is dropped only when the vault on the drive
  shows that the save did not commit. The handler runs for every exception, but not when the process is gone.
\<close>

definition keep_or_discard :: "prims \<Rightarrow> answers \<Rightarrow> bytes \<Rightarrow> u64 \<Rightarrow> (app_state, unit) mut" where
  "keep_or_discard p an pw g =
     bindM (readM (\<lambda>st. vault_generation_is p an pw g (as_dir st))) (\<lambda>committed.
     if committed = Some False then discard_pending_outbox (an_unlink an) else returnM ())"

definition save_guarded :: "prims \<Rightarrow> answers \<Rightarrow> params \<Rightarrow> bytes \<Rightarrow> u64 \<Rightarrow> (app_state, unit) mut" where
  "save_guarded p an pr pw g st =
     (case save_vault p (an_save an) kVaultFilename pr pw st of
        (st', Inr _) \<Rightarrow> (st', Inr ())
      | (st', Inl e) \<Rightarrow>
          if e = DriveError ProcessKilled then (st', Inl e)
          else (case keep_or_discard p an pw g st' of
                  (st2, Inl e') \<Rightarrow> (st2, Inl e')
                | (st2, Inr _) \<Rightarrow> (st2, Inl e)))"

definition commit_block :: "prims \<Rightarrow> answers \<Rightarrow> params \<Rightarrow> bytes \<Rightarrow> string \<Rightarrow> (console, unit) mut" where
  "commit_block p an pr pw block =
     bindM (on_app (readM (\<lambda>st. if v_generation (as_store st) = -1 then Inl (RollbackError GenerationExhausted)
                               else Inr (v_generation (as_store st) + 1)))) (\<lambda>g.
     bindM (on_app (write_pending_outbox (an_outbox_write an) g block)) (\<lambda>_.
     bindM (on_app (save_guarded p an pr pw g)) (\<lambda>_.
     bindM (write_block_or_throw block) (\<lambda>_.
     on_app (remove_pending_outbox (an_unlink an))))))"

text \<open>The pending block and the state it belongs to.\<close>

definition read_outbox :: "bytes \<Rightarrow> (bytes \<times> u64 \<times> string) result" where
  "read_outbox bs =
     bindR (get_bytes 4 bs) (\<lambda>(magic, zs).
       if magic \<noteq> kOutboxMagic then Inl (CommandError OutboxFormat) else
     bindR (get_u8 zs) (\<lambda>(version, zs).
       if version \<noteq> kOutboxVersion then Inl (CommandError OutboxFormat) else
     bindR (get_bytes 16 zs) (\<lambda>(vault_id, zs).
     bindR (get_u64 zs) (\<lambda>(generation, zs).
     bindR (get_blob zs) (\<lambda>(block_bytes, zs).
       if zs \<noteq> [] then Inl (CommandError OutboxTrailing)
       else Inr (vault_id, generation, string_of_bytes block_bytes))))))"

definition cmd_outbox :: "prims \<Rightarrow> answers \<Rightarrow> (console, unit) mut" where
  "cmd_outbox p an =
     bindM (on_app (readM (\<lambda>st. if as_dir st kOutboxFilename = None then Inl (CommandError NoOutbox) else Inr ()))) (\<lambda>_.
     bindM (on_app (readM (\<lambda>st. bindR (ended (read_file (an_outbox_read an) kOutboxFilename (as_dir st))) read_outbox)))
       (\<lambda>(vault_id, generation, block).
     bindM (on_app (unlock_vault p an)) (\<lambda>opened.
     bindM (readM (\<lambda>_. if v_vault_id (ov_store opened) \<noteq> vault_id \<or> v_generation (ov_store opened) \<noteq> generation
                       then Inl (CommandError OutboxMismatch) else Inr ())) (\<lambda>_.
     bindM (write_block_or_throw block) (\<lambda>_.
     on_app (remove_pending_outbox (an_unlink an)))))))"

section \<open>What a save leaves on the drive\<close>

lemma on_host_frame: "preserves (\<lambda>st. (as_store st, as_dir st)) (on_host m)"
  by (simp add: preserves_def on_host_def split: prod.split)

lemma catchM_frame: "preserves f m \<Longrightarrow> (\<And>e. preserves f (h e)) \<Longrightarrow> preserves f (catchM m h)"
  unfolding preserves_def catchM_def by (simp split: prod.split sum.split) (metis fst_conv)

lemma settle_anchor_frame: "preserves (\<lambda>st. (as_store st, as_dir st)) (settle_anchor p a dg)"
proof -
  have "preserves (\<lambda>st. (as_store st, as_dir st)) (anchor_now p dg)"
    using on_host_frame unfolding anchor_now_def preserves_def by blast
  then show ?thesis
    unfolding settle_anchor_def by (intro catchM_frame frame_intro) simp_all
qed

text \<open>The store as a save writes it: chained to a file of the vault or as it was, one generation on.\<close>

definition stamped :: "prims \<Rightarrow> vault_store \<Rightarrow> vault_store \<Rightarrow> bool" where
  "stamped p v w \<longleftrightarrow> (\<exists>dg. (dg = v_previous_digest v \<or> (\<exists>bs. dg = vault_digest p bs)) \<and>
     w = v\<lparr>v_previous_digest := dg, v_generation := v_generation v + 1\<rparr>)"

lemma stampedD: "stamped p v w \<Longrightarrow> v_generation w = v_generation v + 1 \<and> v_vault_id w = v_vault_id v"
  by (auto simp: stamped_def)

lemma check_previous_cases:
  assumes "check_previous p sc name st = (st', r)"
  shows "as_dir st' = as_dir st \<and> (\<exists>dg. (dg = v_previous_digest (as_store st) \<or> (\<exists>bs. dg = vault_digest p bs)) \<and>
     as_store st' = (as_store st)\<lparr>v_previous_digest := dg\<rparr>)"
proof -
  have s: "as_dir st1 = as_dir st \<and> as_store st1 = as_store st"
    if "(case anchor of None \<Rightarrow> returnM () | Some a \<Rightarrow> settle_anchor p a dg) st = (st1, r1)" for anchor dg st1 r1
    using that preservesD [OF settle_anchor_frame] by (cases anchor) auto
  have "v = v\<lparr>v_previous_digest := v_previous_digest v\<rparr>" for v :: vault_store
    by simp
  then show ?thesis
    using assms by (auto simp: check_previous_def bindM_def dest!: s split: sum.splits prod.splits)
qed

lemma save_vault_cases:
  assumes sv: "save_vault p sc name pr pw st = (st', r)" and i: "\<not> list_all (\<lambda>b. b = 0) (v_vault_id (as_store st))"
  shows "as_dir st' = as_dir st \<and> (\<exists>e. r = Inl e) \<or>
    (\<exists>st1 version enrolled. seal_and_write p sc name pr pw version enrolled st1 = (st', r) \<and>
       as_dir st1 = as_dir st \<and> stamped p (as_store st) (as_store st1))"
proof -
  let ?prev = "\<lambda>st. if as_dir st name \<noteq> None then check_previous p sc name st else (st, Inr (kVersion, None))"
  have fill: "st\<lparr>as_store := fill_vault_id (ss_vault_id sc) (as_store st)\<rparr> = st"
    using i by (simp add: fill_vault_id_def)
  obtain st1 q where pv: "?prev st = (st1, q)"
    by fastforce
  have same: "as_store st = (as_store st)\<lparr>v_previous_digest := v_previous_digest (as_store st)\<rparr>"
    by simp
  have c: "as_dir st1 = as_dir st" and "\<exists>dg. (dg = v_previous_digest (as_store st) \<or> (\<exists>bs. dg = vault_digest p bs)) \<and>
      as_store st1 = (as_store st)\<lparr>v_previous_digest := dg\<rparr>"
    using pv check_previous_cases [of p sc name st st1 q] same by (auto split: if_splits)
  then have "stamped p (as_store st) (as_store (bump_generation st1))"
    by (auto simp: stamped_def bump_generation_def)
  moreover have "as_dir (bump_generation st1) = as_dir st"
    using c by (simp add: bump_generation_def)
  moreover have "save_vault p sc name pr pw st = (case q of
      Inl e \<Rightarrow> (st1, Inl e)
    | Inr (version, anchor) \<Rightarrow>
        if v_generation (as_store st1) = -1 then (st1, Inl (RollbackError GenerationExhausted))
        else seal_and_write p sc name pr pw version (anchor \<noteq> None) (bump_generation st1))"
    using pv by (simp add: save_vault_def bindM_def fill del: not_None_eq split: sum.split)
  then have "(\<exists>e. r = Inl e) \<and> st' = st1 \<or> (\<exists>version enrolled.
      seal_and_write p sc name pr pw version enrolled (bump_generation st1) = (st', r))"
    using sv by (auto split: sum.splits prod.splits if_splits)
  ultimately show ?thesis
    using c by auto
qed

lemma write_vault_left:
  assumes "write_vault sc name bs st = (st', r)"
  shows "(as_dir st' name = as_dir st name \<and> r \<noteq> Inr () \<or> as_dir st' name = Some (fresh_entry bs) \<and> length bs \<le> kMaxVaultBytes) \<and>
    (\<forall>n. n \<noteq> name \<longrightarrow> n \<noteq> tmp_name sc name \<longrightarrow> as_dir st' n = as_dir st n)"
proof (cases "length bs > kMaxVaultBytes")
  case True
  with assms show ?thesis
    by (auto simp: write_vault_def write_file_def left_by_def ended_def)
next
  case False
  have d: "as_dir st' = left_by (as_dir st) (write_file sc name bs True (as_dir st))"
    using assms by (auto simp: write_vault_def Let_def)
  note w = write_left_intact [of sc name bs "as_dir st" True, folded d]
  have "r = Inr () \<Longrightarrow> as_dir st' name = Some (fresh_entry bs)"
    using write_vault_Inr [of sc name bs st st'] assms by simp
  with w False intact_other [OF w] show ?thesis
    by (auto simp: intact_def)
qed

text \<open>The vault on the drive opens to \<open>v\<close>, at any time.\<close>

definition opens_to :: "prims \<Rightarrow> bytes \<Rightarrow> dir \<Rightarrow> vault_store \<Rightarrow> bool" where
  "opens_to p pw d v \<longleftrightarrow> (\<exists>bs plain. d kVaultFilename = Some (fresh_entry bs) \<and> unseal p bs pw = Inr plain \<and>
     (\<forall>now. store_parse p now plain = Inr v))"

lemma seal_unseal:
  assumes laws: "aead_law p" "argon2_law p" and l: "length salt = 16" "length nonce = 12"
    and s: "seal p salt nonce m pw pr version = Inr d" and m: "length d \<le> kMaxVaultBytes"
  shows "unseal p d pw = Inr m"
proof -
  have c: "check_params (pr_time_cost pr) (pr_mem_cost_kb pr) = Inr ()" "pw \<noteq> []" "version = kVersion \<or> version = kWordVersion"
    using s by (auto simp: seal_def bindR_eq_Inr split: if_splits)
  have "length d = length m + 57"
    using s by (auto simp: seal_def bindR_eq_Inr Let_def kTagBytes_def serialize_header_def kHeaderBytes_def split: if_splits)
  then show ?thesis
    using seal_ok [OF laws l c] s m by (metis Inr_inject)
qed

definition script_ok :: "save_script \<Rightarrow> bool" where
  "script_ok sc \<longleftrightarrow> length (ss_salt sc) = 16 \<and> length (ss_nonce sc) = 12"

lemma save_vault_left:
  assumes laws: "host_laws p" "aead_law p" "argon2_law p" and ok: "script_ok sc"
    and v: "wf_store p (as_store st)" "\<not> list_all (\<lambda>b. b = 0) (v_vault_id (as_store st))"
    and sv: "save_vault p sc kVaultFilename pr pw st = (st', r)"
  shows "(as_dir st' kVaultFilename = as_dir st kVaultFilename \<and> r \<noteq> Inr () \<or>
      (\<exists>w. stamped p (as_store st) w \<and> opens_to p pw (as_dir st') w)) \<and>
    (\<forall>n. n \<noteq> kVaultFilename \<longrightarrow> n \<noteq> tmp_name (ss_write sc) kVaultFilename \<longrightarrow> as_dir st' n = as_dir st n)"
proof -
  have "as_dir st' = as_dir st \<and> (\<exists>e. r = Inl e) \<or> (\<exists>st1 version enrolled.
      seal_and_write p sc kVaultFilename pr pw version enrolled st1 = (st', r) \<and> as_dir st1 = as_dir st \<and>
      stamped p (as_store st) (as_store st1))"
    by (rule save_vault_cases [OF sv v(2)])
  then show ?thesis
  proof (elim disjE exE conjE)
    fix st1 version enrolled
    assume w: "seal_and_write p sc kVaultFilename pr pw version enrolled st1 = (st', r)" and d: "as_dir st1 = as_dir st"
      and s: "stamped p (as_store st) (as_store st1)"
    show ?thesis
    proof (cases "bindR (serialize (as_store st1)) (\<lambda>plain. seal p (ss_salt sc) (ss_nonce sc) plain pw pr version)")
      case (Inl e)
      with w have "st' = st1 \<and> r \<noteq> Inr ()"
        by (auto simp: seal_and_write_def bindM_read bindR_eq_Inl split: sum.splits)
      with d show ?thesis
        by simp
    next
      case (Inr out)
      then obtain plain where pl: "serialize (as_store st1) = Inr plain"
          "seal p (ss_salt sc) (ss_nonce sc) plain pw pr version = Inr out"
        by (auto simp: bindR_eq_Inr)
      obtain st2 r2 where wr: "write_vault (ss_write sc) kVaultFilename out st1 = (st2, r2)"
        by fastforce
      have e: "as_dir st' = as_dir st2" "r = Inr () \<longrightarrow> r2 = Inr ()"
        using w pl wr preservesD [OF on_host_frame]
        by (auto simp: seal_and_write_def bindM_def anchor_now_def split: sum.splits if_splits)
      have "length (v_previous_digest (as_store st1)) = 32"
        using s v(1) length_vault_digest [OF laws(1)] by (auto simp: stamped_def wf_store_def)
      then have wf: "wf_store p (as_store st1)"
        using s v(1) by (auto simp: stamped_def wf_store_def)
      have "unseal p out pw = Inr plain" if "length out \<le> kMaxVaultBytes"
        using ok by (intro seal_unseal [OF laws(2,3) _ _ pl(2) that]) (simp_all add: script_ok_def)
      then have "as_dir st2 kVaultFilename = Some (fresh_entry out) \<Longrightarrow> length out \<le> kMaxVaultBytes \<Longrightarrow>
          opens_to p pw (as_dir st2) (as_store st1)"
        using store_parse_serialized [OF wf pl(1)] unfolding opens_to_def by blast
      with write_vault_left [OF wr] e d s show ?thesis
        by auto
    qed
  qed auto
qed

section \<open>The steps of a commit\<close>

lemma outbox_names [simp]:
  "kOutboxFilename \<noteq> kVaultFilename" "kVaultFilename \<noteq> kOutboxFilename"
  "kOutboxFilename \<noteq> tmp_name sc kVaultFilename" "kVaultFilename \<noteq> tmp_name sc kOutboxFilename"
  by (simp_all add: kOutboxFilename_def kVaultFilename_def tmp_name_def)

lemma on_app_eq: "on_app m c = (c\<lparr>co_app := fst (m (co_app c))\<rparr>, snd (m (co_app c)))"
  by (simp add: on_app_def split: prod.split)

lemma emit_simps [simp]: "co_app (emit s c) = co_app c"
  by (simp add: emit_def split: option.split)

lemma emit_out: "\<exists>n. co_out (emit s c) = co_out c @ take n s"
  by (cases "co_room c") (auto simp: emit_def intro: exI [of _ "length s"])

lemma emit_all: "room_for s c \<Longrightarrow> co_out (emit s c) = co_out c @ s"
  by (auto simp: emit_def room_for_def split: option.splits)

lemma write_pending_left:
  assumes "write_pending_outbox sc g block st = (st', r)"
  shows "as_store st' = as_store st \<and> as_host st' = as_host st \<and> as_dir st' kVaultFilename = as_dir st kVaultFilename \<and>
    (as_dir st' kOutboxFilename = as_dir st kOutboxFilename \<or>
       (\<exists>bs. outbox_bytes (v_vault_id (as_store st)) g block = Inr bs \<and> as_dir st' kOutboxFilename = Some (fresh_entry bs))) \<and>
    (r = Inr () \<longrightarrow> as_dir st kOutboxFilename = None \<and>
       (\<exists>bs. outbox_bytes (v_vault_id (as_store st)) g block = Inr bs \<and> as_dir st' kOutboxFilename = Some (fresh_entry bs)))"
proof (cases "outbox_bytes (v_vault_id (as_store st)) g block")
  case (Inl e)
  with assms show ?thesis
    by (auto simp: write_pending_outbox_def)
next
  case (Inr bs)
  let ?t = "write_file sc kOutboxFilename bs False (as_dir st)"
  have e: "st' = st\<lparr>as_dir := left_by (as_dir st) ?t\<rparr>" "r = ended (snd ?t)"
    using assms Inr by (simp_all add: write_pending_outbox_def Let_def)
  have i: "intact sc kOutboxFilename bs (as_dir st) (left_by (as_dir st) ?t)"
    by (rule write_left_intact)
  have "as_dir st kOutboxFilename = None \<and> left_by (as_dir st) ?t kOutboxFilename = Some (fresh_entry bs)" if "r = Inr ()"
  proof -
    have q: "snd ?t = Some (Inr ())"
      using that e(2) by (auto simp: ended_def split: option.splits)
    then have "as_dir st kOutboxFilename = None"
      by (auto simp: write_file_def split: if_splits)
    with q show ?thesis
      using write_file_left [of sc kOutboxFilename bs "as_dir st" False] by (simp add: written_as_def)
  qed
  with Inr e i intact_other [OF i, of kVaultFilename] show ?thesis
    by (auto simp: intact_def)
qed

text \<open>The handler keeps the outbox of a save that reached the drive.\<close>

lemma committed_kept:
  assumes o: "opens_to p pw (as_dir st) w" and k: "keep_or_discard p an pw (v_generation w) st = (st', r)"
  shows "st' = st"
proof -
  obtain bs plain where f: "as_dir st kVaultFilename = Some (fresh_entry bs)" "unseal p bs pw = Inr plain"
      "\<And>now. store_parse p now plain = Inr w"
    using o by (auto simp: opens_to_def)
  have "read_file (an_reread an) kVaultFilename (as_dir st) = Some (Inr found) \<Longrightarrow> found = bs" for found
    using f(1) read_file_bytes by fastforce
  then have "vault_generation_is p an pw (v_generation w) (as_dir st) \<noteq> Inr (Some False)"
    using f(2,3) by (auto simp: vault_generation_is_def ended_def bindR_def split: option.splits sum.splits if_splits)
  with k show ?thesis
    by (auto simp: keep_or_discard_def bindM_read discard_pending_outbox_def split: sum.splits if_splits)
qed

lemma keep_or_discard_left:
  "keep_or_discard p an pw g st = (st', r) \<Longrightarrow> as_dir st' kVaultFilename = as_dir st kVaultFilename \<and>
     as_dir st' kOutboxFilename \<in> {None, as_dir st kOutboxFilename}"
  by (auto simp: keep_or_discard_def bindM_read discard_pending_outbox_def remove_file_def split: sum.splits if_splits)

definition committed :: "prims \<Rightarrow> bytes \<Rightarrow> vault_store \<Rightarrow> dir \<Rightarrow> bool" where
  "committed p pw v d \<longleftrightarrow> (\<exists>w. stamped p v w \<and> opens_to p pw d w)"

lemma save_guarded_left:
  assumes laws: "host_laws p" "aead_law p" "argon2_law p" and ok: "script_ok (an_save an)"
    and v: "wf_store p (as_store st)" "\<not> list_all (\<lambda>b. b = 0) (v_vault_id (as_store st))"
    and sv: "save_guarded p an pr pw (v_generation (as_store st) + 1) st = (st', r)"
  shows "as_dir st' kVaultFilename = as_dir st kVaultFilename \<and> r \<noteq> Inr () \<and>
       as_dir st' kOutboxFilename \<in> {None, as_dir st kOutboxFilename} \<or>
     committed p pw (as_store st) (as_dir st') \<and> as_dir st' kOutboxFilename = as_dir st kOutboxFilename"
proof -
  let ?g = "v_generation (as_store st) + 1"
  obtain st1 r1 where s1: "save_vault p (an_save an) kVaultFilename pr pw st = (st1, r1)"
    by fastforce
  note s = save_vault_left [OF laws ok v s1]
  have o1: "as_dir st1 kOutboxFilename = as_dir st kOutboxFilename"
    using s by simp
  show ?thesis
  proof (cases "r1 = Inr () \<or> r1 = Inl (DriveError ProcessKilled)")
    case True
    then have "st' = st1 \<and> r = r1"
      using sv s1 by (auto simp: save_guarded_def)
    with s o1 show ?thesis
      by (auto simp: committed_def)
  next
    case False
    then obtain e where e: "r1 = Inl e" "e \<noteq> DriveError ProcessKilled"
      by (cases r1) auto
    obtain st2 r2 where k: "keep_or_discard p an pw ?g st1 = (st2, r2)"
      by fastforce
    have "st' = st2" and "r \<noteq> Inr ()"
      using sv s1 e k by (auto simp: save_guarded_def split: sum.splits)
    moreover have "as_dir st2 = as_dir st1" if "stamped p (as_store st) w" and "opens_to p pw (as_dir st1) w" for w
      using committed_kept [OF that(2), of an st2 r2] k stampedD [OF that(1)] by simp
    ultimately show ?thesis
      using s o1 keep_or_discard_left [OF k] by (auto simp: committed_def)
  qed
qed

text \<open>
  Everything a commit can leave: nothing on the drive but perhaps an outbox, and nothing printed; or the saved
  state, with the block in the outbox or printed.
\<close>

lemma commit_block_left:
  assumes laws: "host_laws p" "aead_law p" "argon2_law p" and ok: "script_ok (an_save an)"
    and v: "wf_store p (as_store (co_app c))" "\<not> list_all (\<lambda>b. b = 0) (v_vault_id (as_store (co_app c)))"
    and cb: "commit_block p an pr pw block c = (c', r)"
  shows "(as_dir (co_app c') kVaultFilename = as_dir (co_app c) kVaultFilename \<and> co_out c' = co_out c \<and> r \<noteq> Inr () \<and>
      (as_dir (co_app c') kOutboxFilename \<in> {None, as_dir (co_app c) kOutboxFilename} \<or>
       (\<exists>bs. outbox_bytes (v_vault_id (as_store (co_app c))) (v_generation (as_store (co_app c)) + 1) block = Inr bs \<and>
          as_dir (co_app c') kOutboxFilename = Some (fresh_entry bs)))) \<or>
    (committed p pw (as_store (co_app c)) (as_dir (co_app c')) \<and> (\<exists>n. co_out c' = co_out c @ take n block) \<and>
     (r = Inr () \<longrightarrow> as_dir (co_app c') kOutboxFilename = None) \<and>
     (as_dir (co_app c') kOutboxFilename = None \<or>
        (\<exists>bs. outbox_bytes (v_vault_id (as_store (co_app c))) (v_generation (as_store (co_app c)) + 1) block = Inr bs \<and>
           as_dir (co_app c') kOutboxFilename = Some (fresh_entry bs))) \<and>
     (co_out c' = co_out c @ block \<or>
        (\<exists>bs. outbox_bytes (v_vault_id (as_store (co_app c))) (v_generation (as_store (co_app c)) + 1) block = Inr bs \<and>
           as_dir (co_app c') kOutboxFilename = Some (fresh_entry bs)) \<and> r \<noteq> Inr ()))"
proof -
  let ?st = "co_app c" and ?g = "v_generation (as_store (co_app c)) + 1"
  obtain st1 r1 where w: "write_pending_outbox (an_outbox_write an) ?g block ?st = (st1, r1)"
    by fastforce
  obtain st2 r2 where s: "save_guarded p an pr pw ?g st1 = (st2, r2)"
    by fastforce
  let ?c2 = "c\<lparr>co_app := st2\<rparr>" and ?c3 = "emit block (c\<lparr>co_app := st2\<rparr>)"
  note wl = write_pending_left [OF w]
  have v1: "wf_store p (as_store st1)" "\<not> list_all (\<lambda>b. b = 0) (v_vault_id (as_store st1))"
    using v wl by simp_all
  have s': "save_guarded p an pr pw (v_generation (as_store st1) + 1) st1 = (st2, r2)"
    using s wl by simp
  note sl = save_guarded_left [OF laws ok v1 s']
  have e: "commit_block p an pr pw block c = (if v_generation (as_store ?st) = -1 then (c, Inl (RollbackError GenerationExhausted))
      else case r1 of Inl e \<Rightarrow> (c\<lparr>co_app := st1\<rparr>, Inl e)
      | Inr _ \<Rightarrow> (case r2 of Inl e \<Rightarrow> (?c2, Inl e)
        | Inr _ \<Rightarrow> if room_for block ?c2 then
            (?c3\<lparr>co_app := remove_file (an_unlink an) kOutboxFilename st2\<rparr>,
             if an_unlink an \<or> as_dir st2 kOutboxFilename = None then Inr () else Inl (CommandError OutboxNotRemoved))
          else (?c3, Inl (CommandError BlockNotWritten))))"
    using w s
    by (cases r1; cases r2)
      (simp_all add: commit_block_def bindM_def on_app_eq write_block_or_throw_def remove_pending_outbox_def)
  show ?thesis
  proof (cases "v_generation (as_store ?st) = -1 \<or> r1 \<noteq> Inr ()")
    case True
    then have "(c' = c \<or> c' = c\<lparr>co_app := st1\<rparr>) \<and> r \<noteq> Inr ()"
      using cb unfolding e by (auto split: if_splits sum.splits)
    with wl show ?thesis
      by auto
  next
    case False
    then obtain bs where bs: "outbox_bytes (v_vault_id (as_store ?st)) ?g block = Inr bs"
        "as_dir st1 kOutboxFilename = Some (fresh_entry bs)"
      using wl by blast
    show ?thesis
    proof (cases "r2 = Inr ()")
      case fails: False
      then have "c' = ?c2 \<and> r \<noteq> Inr ()"
        using cb False unfolding e by (auto split: if_splits sum.splits)
      with sl wl bs show ?thesis
        by (auto intro: exI [of _ 0])
    next
      case saved: True
      then have com: "committed p pw (as_store ?st) (as_dir st2)" "as_dir st2 kOutboxFilename = Some (fresh_entry bs)"
        using sl wl bs by auto
      have after: "committed p pw (as_store ?st) (as_dir (remove_file b kOutboxFilename st2))" for b
        using com(1) by (auto simp: committed_def opens_to_def remove_file_def)
      show ?thesis
      proof (cases "room_for block ?c2")
        case True
        then have "c' = ?c3\<lparr>co_app := remove_file (an_unlink an) kOutboxFilename st2\<rparr>"
          and "r = Inr () \<longrightarrow> an_unlink an"
          using cb False saved com(2) unfolding e by (auto split: if_splits)
        with after emit_all [OF True] com(2) bs(1) show ?thesis
          by (auto simp: remove_file_def intro!: exI [of _ "length block"])
      next
        case no: False
        then have "c' = ?c3" "r \<noteq> Inr ()"
          using cb False saved unfolding e by auto
        then show ?thesis
          using com bs emit_out [of block ?c2] by auto
      qed
    qed
  qed
qed

section \<open>Printing what was left\<close>

lemma read_outbox_bytes:
  assumes "length i = 16" and "outbox_bytes i g block = Inr bs"
  shows "read_outbox bs = Inr (i, g, block)"
proof -
  obtain b where b: "put_blob (bytes_of_string block) = Inr b" and bs: "bs = kOutboxMagic @ [kOutboxVersion] @ i @ le64 g @ b"
    using assms(2) by (auto simp: outbox_bytes_def bindR_eq_Inr put_bytes_def put_u8_def put_u64_def)
  have "wf_blob (bytes_of_string block)"
    using b by (auto simp: put_blob_def wf_blob_def split: if_splits)
  note e = blob.get_end [OF b this]
  have "length kOutboxMagic = 4"
    by (simp add: kOutboxMagic_def)
  with assms(1) show ?thesis
    unfolding bs by (simp add: read_outbox_def codec_get e)
qed

lemma unlock_vault_Inr:
  assumes "unlock_vault p an st = (st', Inr opened)"
  shows "as_dir st' = as_dir st \<and> (\<exists>e pw plain b. as_dir st kVaultFilename = Some e \<and> an_pass an b = Inr pw \<and>
    unseal p (de_bytes e) pw = Inr plain \<and> store_parse p (an_now an) plain = Inr (ov_store opened))"
proof -
  obtain f pw where f: "read_vault p (an_read an) kVaultFilename (as_dir st) = Inr f" "an_pass an (vh_version (vf_header f) = kWordVersion) = Inr pw"
      and o: "bindM (on_host (open_vault p (an_now an) f pw False)) (\<lambda>opened.
        bindM (modifyM (\<lambda>st. st\<lparr>as_store := ov_store opened\<rparr>)) (\<lambda>_. returnM opened)) st = (st', Inr opened)"
    using assms by (auto simp: unlock_vault_def bindM_read split: sum.splits if_splits)
  obtain h where h: "open_vault p (an_now an) f pw False (as_host st) = (h, Inr opened)" and st': "as_dir st' = as_dir st"
    using o by (cases "open_vault p (an_now an) f pw False (as_host st)") (auto simp: bindM_eq_Inr on_host_def)
  obtain e where "as_dir st kVaultFilename = Some e" "vf_bytes f = de_bytes e"
    using f(1) by (auto simp: read_vault_def bindR_eq_Inr ended_def split: option.splits dest!: read_file_bytes)
  moreover obtain plain where "unseal p (vf_bytes f) pw = Inr plain" "store_parse p (an_now an) plain = Inr (ov_store opened)"
    using h by (rule open_vault_Inr)
  ultimately show ?thesis
    using f(2) st' by auto
qed

lemma unlock_vault_dir: "as_dir (fst (unlock_vault p an st)) = as_dir st"
proof -
  have "preserves as_dir (on_host m)" for m :: "(host, 'a) mut"
    by (simp add: preserves_def on_host_def split: prod.split)
  then have "preserves as_dir (unlock_vault p an)"
    unfolding unlock_vault_def by (intro frame_intro) simp_all
  then show ?thesis
    by (simp add: preserves_def)
qed

text \<open>The vault that opens under the user's passphrase is the one on the drive.\<close>

definition knows :: "answers \<Rightarrow> bytes \<Rightarrow> bool" where
  "knows an pw \<longleftrightarrow> (\<forall>b pw'. an_pass an b = Inr pw' \<longrightarrow> pw' = pw)"

lemma unlock_committed:
  assumes "opens_to p pw (as_dir st) w" and "knows an pw" and "snd (unlock_vault p an st) = Inr opened"
  shows "ov_store opened = w"
proof -
  obtain st' where "unlock_vault p an st = (st', Inr opened)"
    using assms(3) by (cases "unlock_vault p an st") auto
  from unlock_vault_Inr [OF this] assms(1,2) show ?thesis
    by (auto simp: opens_to_def knows_def)
qed

text \<open>\<open>cmd_outbox\<close> as a function of what it finds.\<close>

lemma cmd_outbox_eq:
  assumes f: "as_dir (co_app c) kOutboxFilename = Some e"
    and q: "bindR (ended (read_file (an_outbox_read an) kOutboxFilename (as_dir (co_app c)))) read_outbox = q"
    and u: "unlock_vault p an (co_app c) = (st1, u)"
  shows "cmd_outbox p an c = (case q of Inl e \<Rightarrow> (c, Inl e) | Inr (i, g, block) \<Rightarrow>
    (case u of Inl e \<Rightarrow> (c\<lparr>co_app := st1\<rparr>, Inl e) | Inr opened \<Rightarrow>
      if v_vault_id (ov_store opened) \<noteq> i \<or> v_generation (ov_store opened) \<noteq> g
      then (c\<lparr>co_app := st1\<rparr>, Inl (CommandError OutboxMismatch))
      else let c2 = emit block (c\<lparr>co_app := st1\<rparr>) in
        if room_for block (c\<lparr>co_app := st1\<rparr>) then
          (c2\<lparr>co_app := remove_file (an_unlink an) kOutboxFilename st1\<rparr>,
           if an_unlink an then Inr () else Inl (CommandError OutboxNotRemoved))
        else (c2, Inl (CommandError BlockNotWritten))))"
proof -
  have "as_dir st1 kOutboxFilename = Some e"
    using f u unlock_vault_dir [of p an "co_app c"] by simp
  with f q u show ?thesis
    by (cases q; cases u)
      (auto simp: cmd_outbox_def bindM_def on_app_eq write_block_or_throw_def remove_pending_outbox_def Let_def)
qed

text \<open>A block whose state is on the drive comes out when nothing stops it.\<close>

definition unhindered :: "prims \<Rightarrow> answers \<Rightarrow> string \<Rightarrow> console \<Rightarrow> bool" where
  "unhindered p an block c \<longleftrightarrow> (\<exists>bs. read_file (an_outbox_read an) kOutboxFilename (as_dir (co_app c)) = Some (Inr bs)) \<and>
     (\<exists>opened. snd (unlock_vault p an (co_app c)) = Inr opened) \<and> room_for block c \<and> an_unlink an"

lemma outbox_prints:
  assumes com: "committed p pw v (as_dir (co_app c))" and k: "knows an pw" and i: "length (v_vault_id v) = 16"
    and bs: "outbox_bytes (v_vault_id v) (v_generation v + 1) block = Inr bs"
    and o: "as_dir (co_app c) kOutboxFilename = Some (fresh_entry bs)" and u: "unhindered p an block c"
    and r: "cmd_outbox p an c = (c', r)"
  shows "r = Inr () \<and> co_out c' = co_out c @ block \<and> as_dir (co_app c') kOutboxFilename = None"
proof -
  obtain st1 opened where un: "unlock_vault p an (co_app c) = (st1, Inr opened)"
    using u by (cases "unlock_vault p an (co_app c)") (auto simp: unhindered_def)
  obtain w where w: "stamped p v w" "opens_to p pw (as_dir (co_app c)) w"
    using com by (auto simp: committed_def)
  have s: "ov_store opened = w"
    using unlock_committed [OF w(2) k] un by simp
  obtain found where "read_file (an_outbox_read an) kOutboxFilename (as_dir (co_app c)) = Some (Inr found)"
    using u by (auto simp: unhindered_def)
  then have q: "bindR (ended (read_file (an_outbox_read an) kOutboxFilename (as_dir (co_app c)))) read_outbox =
      Inr (v_vault_id v, v_generation v + 1, block)"
    using read_file_bytes o read_outbox_bytes [OF i bs] by (fastforce simp: ended_def)
  have rm: "room_for block (c\<lparr>co_app := st1\<rparr>)" "an_unlink an"
    using u by (simp_all add: unhindered_def room_for_def)
  from r show ?thesis
    unfolding cmd_outbox_eq [OF o q un] using rm s stampedD [OF w(1)] emit_all [OF rm(1)]
    by (auto simp: Let_def remove_file_def)
qed

text \<open>A block whose state is not on the drive is not printed.\<close>

definition on_drive :: "prims \<Rightarrow> bytes \<Rightarrow> u64 \<Rightarrow> dir \<Rightarrow> bool" where
  "on_drive p pw g d \<longleftrightarrow> (\<forall>e plain now w. d kVaultFilename = Some e \<and> unseal p (de_bytes e) pw = Inr plain \<and>
     store_parse p now plain = Inr w \<longrightarrow> v_generation w = g)"

lemma outbox_refuses:
  assumes od: "on_drive p pw g (as_dir (co_app c))" and k: "knows an pw" and "length i = 16" and "g' \<noteq> g"
    and bs: "outbox_bytes i g' block = Inr bs" and o: "as_dir (co_app c) kOutboxFilename = Some (fresh_entry bs)"
    and r: "cmd_outbox p an c = (c', r)"
  shows "co_out c' = co_out c \<and> r \<noteq> Inr () \<and> as_dir (co_app c') = as_dir (co_app c)"
proof -
  obtain st1 u where un: "unlock_vault p an (co_app c) = (st1, u)"
    by fastforce
  have d: "as_dir st1 = as_dir (co_app c)"
    using unlock_vault_dir [of p an "co_app c"] un by simp
  have g: "v_generation (ov_store opened) \<noteq> g'" if "u = Inr opened" for opened
  proof -
    note un' = un [unfolded that]
    obtain e pw' plain b where "as_dir (co_app c) kVaultFilename = Some e" "an_pass an b = Inr pw'"
        "unseal p (de_bytes e) pw' = Inr plain" "store_parse p (an_now an) plain = Inr (ov_store opened)"
      using unlock_vault_Inr [OF un'] by blast
    then have "v_generation (ov_store opened) = g"
      using od k unfolding on_drive_def knows_def by blast
    with assms(4) show ?thesis
      by simp
  qed
  have q: "found = (i, g', block)"
    if "bindR (ended (read_file (an_outbox_read an) kOutboxFilename (as_dir (co_app c)))) read_outbox = Inr found" for found
    using that read_file_bytes o read_outbox_bytes [OF assms(3) bs]
    by (fastforce simp: ended_def bindR_eq_Inr split: option.splits)
  from r show ?thesis
    unfolding cmd_outbox_eq [OF o refl un]
    by (auto split: sum.splits prod.splits dest!: q simp: d g Let_def)
qed

text \<open>Whatever the vault and the passphrase are then, a kept block is printed only for its own state.\<close>

lemma outbox_matches:
  assumes "length i = 16" and bs: "outbox_bytes i g block = Inr bs"
    and o: "as_dir (co_app c) kOutboxFilename = Some (fresh_entry bs)"
    and r: "cmd_outbox p an c = (c', r)" and out: "co_out c' \<noteq> co_out c"
  shows "(\<exists>st opened. unlock_vault p an (co_app c) = (st, Inr opened) \<and> v_vault_id (ov_store opened) = i \<and>
      v_generation (ov_store opened) = g) \<and> (\<exists>n. co_out c' = co_out c @ take n block)"
proof -
  obtain st1 u where un: "unlock_vault p an (co_app c) = (st1, u)"
    by fastforce
  have q: "found = (i, g, block)"
    if "bindR (ended (read_file (an_outbox_read an) kOutboxFilename (as_dir (co_app c)))) read_outbox = Inr found" for found
    using that read_file_bytes o read_outbox_bytes [OF assms(1) bs]
    by (fastforce simp: ended_def bindR_eq_Inr split: option.splits)
  obtain n where n: "co_out (emit block (c\<lparr>co_app := st1\<rparr>)) = co_out c @ take n block"
    using emit_out [of block "c\<lparr>co_app := st1\<rparr>"] by auto
  from r out show ?thesis
    unfolding cmd_outbox_eq [OF o refl un]
    by (auto split: sum.splits prod.splits if_splits dest!: q simp: Let_def n un)
qed

text \<open>A vault file left as it was is not the next state.\<close>

lemma unchanged_not_committed:
  assumes "on_drive p pw (v_generation v) d" and "d1 kVaultFilename = d kVaultFilename"
  shows "\<not> committed p pw v d1"
proof
  assume "committed p pw v d1"
  then obtain w bs plain where w: "stamped p v w" "d1 kVaultFilename = Some (fresh_entry bs)" "unseal p bs pw = Inr plain"
      "store_parse p 0 plain = Inr w"
    by (auto simp: committed_def opens_to_def)
  then have "v_generation w = v_generation v"
    using assms unfolding on_drive_def by (metis fresh_entry_simps(2))
  with stampedD [OF w(1)] show False
    by simp
qed

section \<open>Properties\<close>

text \<open>C25: No message is printed ahead of the vault, and none is lost. Whatever fails while a block is committed,
  standard output has some of it only if the vault on the drive opens to the state that made it; if that state
  is on the drive then the block was printed or the command \<open>outbox\<close> prints it, in a later run, unless the file,
  the vault or the output fail it again; if it is not, \<open>outbox\<close> refuses the block. A commit that succeeds has printed
  the whole block and left no outbox. The outbox a commit leaves can be printed later, on whatever drive and
  with whatever vault, only if the vault that opens there has the id and the generation it was made for.\<close>

theorem block_follows_commit:
  assumes "host_laws p" and "aead_law p" and "argon2_law p" and "script_ok (an_save an)"
    and "wf_store p v" and "\<not> list_all (\<lambda>b. b = 0) (v_vault_id v)" and "as_store (co_app c) = v"
    and "on_drive p pw (v_generation v) (as_dir (co_app c))"
    and "commit_block p an pr pw block c = (c1, r1)"
    and "as_dir (co_app c2) = as_dir (co_app c1)" and "knows an2 pw" and "cmd_outbox p an2 c2 = (c3, r3)"
  shows "(co_out c1 \<noteq> co_out c \<longrightarrow> committed p pw v (as_dir (co_app c1))) \<and>
    (r1 = Inr () \<longrightarrow> co_out c1 = co_out c @ block \<and> as_dir (co_app c1) kOutboxFilename = None) \<and>
    (committed p pw v (as_dir (co_app c1)) \<longrightarrow> co_out c1 = co_out c @ block \<or>
       (unhindered p an2 block c2 \<longrightarrow> r3 = Inr () \<and> co_out c3 = co_out c2 @ block \<and>
          as_dir (co_app c3) kOutboxFilename = None)) \<and>
    (\<not> committed p pw v (as_dir (co_app c1)) \<longrightarrow>
       as_dir (co_app c1) kVaultFilename = as_dir (co_app c) kVaultFilename \<and>
       (as_dir (co_app c) kOutboxFilename = None \<longrightarrow> co_out c3 = co_out c2)) \<and>
    (\<forall>an4 c4 c5 r5. as_dir (co_app c) kOutboxFilename = None \<and>
       as_dir (co_app c4) kOutboxFilename = as_dir (co_app c1) kOutboxFilename \<and>
       cmd_outbox p an4 c4 = (c5, r5) \<and> co_out c5 \<noteq> co_out c4 \<longrightarrow>
         (\<exists>st opened. unlock_vault p an4 (co_app c4) = (st, Inr opened) \<and> v_vault_id (ov_store opened) = v_vault_id v \<and>
            v_generation (ov_store opened) = v_generation v + 1) \<and>
         (\<exists>n. co_out c5 = co_out c4 @ take n block))"
proof -
  let ?d1 = "as_dir (co_app c1)"
  have v: "wf_store p (as_store (co_app c))" "\<not> list_all (\<lambda>b. b = 0) (v_vault_id (as_store (co_app c)))"
    using assms(5-7) by simp_all
  have i: "length (v_vault_id v) = 16"
    using assms(5) by (simp add: wf_store_def)
  note left = commit_block_left [OF assms(1-4) v assms(9), unfolded assms(7)]
  have prints: "r3 = Inr () \<and> co_out c3 = co_out c2 @ block \<and> as_dir (co_app c3) kOutboxFilename = None"
    if "committed p pw v ?d1" "outbox_bytes (v_vault_id v) (v_generation v + 1) block = Inr bs"
      "?d1 kOutboxFilename = Some (fresh_entry bs)" "unhindered p an2 block c2" for bs
    using outbox_prints [OF _ assms(11) i that(2) _ that(4) assms(12)] that(1,3) assms(10) by simp
  have refuses: "co_out c3 = co_out c2"
    if old: "?d1 kVaultFilename = as_dir (co_app c) kVaultFilename" and none: "as_dir (co_app c) kOutboxFilename = None"
      and box: "?d1 kOutboxFilename \<in> {None, as_dir (co_app c) kOutboxFilename} \<or>
       (\<exists>bs. outbox_bytes (v_vault_id v) (v_generation v + 1) block = Inr bs \<and> ?d1 kOutboxFilename = Some (fresh_entry bs))"
  proof (cases "?d1 kOutboxFilename")
    case None
    then show ?thesis
      using assms(10,12) by (auto simp: cmd_outbox_def bindM_def on_app_eq)
  next
    case (Some e)
    then obtain bs where bs: "outbox_bytes (v_vault_id v) (v_generation v + 1) block = Inr bs" "?d1 kOutboxFilename = Some (fresh_entry bs)"
      using box none by auto
    have "on_drive p pw (v_generation v) (as_dir (co_app c2))"
      using assms(8) unfolding on_drive_def assms(10) old .
    from outbox_refuses [OF this assms(11) i _ bs(1) _ assms(12)] bs(2) assms(10) show ?thesis
      by simp
  qed
  have later: "(\<exists>st opened. unlock_vault p an4 (co_app c4) = (st, Inr opened) \<and> v_vault_id (ov_store opened) = v_vault_id v \<and>
        v_generation (ov_store opened) = v_generation v + 1) \<and> (\<exists>n. co_out c5 = co_out c4 @ take n block)"
    if none: "as_dir (co_app c) kOutboxFilename = None" and d: "as_dir (co_app c4) kOutboxFilename = ?d1 kOutboxFilename"
      and r: "cmd_outbox p an4 c4 = (c5, r5)" and out: "co_out c5 \<noteq> co_out c4" for an4 c4 c5 r5
  proof -
    have "as_dir (co_app c4) kOutboxFilename \<noteq> None"
    proof
      assume "as_dir (co_app c4) kOutboxFilename = None"
      with r have "c5 = c4"
        by (auto simp: cmd_outbox_def bindM_def on_app_eq)
      with out show False
        by simp
    qed
    moreover have "?d1 kOutboxFilename = None \<or>
        (\<exists>bs. outbox_bytes (v_vault_id v) (v_generation v + 1) block = Inr bs \<and> ?d1 kOutboxFilename = Some (fresh_entry bs))"
      using left none by auto
    ultimately obtain bs where "outbox_bytes (v_vault_id v) (v_generation v + 1) block = Inr bs"
        "as_dir (co_app c4) kOutboxFilename = Some (fresh_entry bs)"
      using d by auto
    from outbox_matches [OF i this r out] show ?thesis .
  qed
  have "(co_out c1 \<noteq> co_out c \<longrightarrow> committed p pw v ?d1) \<and>
    (r1 = Inr () \<longrightarrow> co_out c1 = co_out c @ block \<and> ?d1 kOutboxFilename = None) \<and>
    (committed p pw v ?d1 \<longrightarrow> co_out c1 = co_out c @ block \<or>
       (unhindered p an2 block c2 \<longrightarrow> r3 = Inr () \<and> co_out c3 = co_out c2 @ block \<and>
          as_dir (co_app c3) kOutboxFilename = None)) \<and>
    (\<not> committed p pw v ?d1 \<longrightarrow> ?d1 kVaultFilename = as_dir (co_app c) kVaultFilename \<and>
       (as_dir (co_app c) kOutboxFilename = None \<longrightarrow> co_out c3 = co_out c2))"
    using left
  proof (elim disjE)
    assume a: "?d1 kVaultFilename = as_dir (co_app c) kVaultFilename \<and> co_out c1 = co_out c \<and> r1 \<noteq> Inr () \<and>
      (?d1 kOutboxFilename \<in> {None, as_dir (co_app c) kOutboxFilename} \<or>
       (\<exists>bs. outbox_bytes (v_vault_id v) (v_generation v + 1) block = Inr bs \<and> ?d1 kOutboxFilename = Some (fresh_entry bs)))"
    then have "\<not> committed p pw v ?d1"
      using unchanged_not_committed [OF assms(8)] by blast
    with a refuses show ?thesis
      by blast
  next
    assume b: "committed p pw v ?d1 \<and> (\<exists>n. co_out c1 = co_out c @ take n block) \<and>
     (r1 = Inr () \<longrightarrow> ?d1 kOutboxFilename = None) \<and>
     (?d1 kOutboxFilename = None \<or>
        (\<exists>bs. outbox_bytes (v_vault_id v) (v_generation v + 1) block = Inr bs \<and> ?d1 kOutboxFilename = Some (fresh_entry bs))) \<and>
     (co_out c1 = co_out c @ block \<or>
        (\<exists>bs. outbox_bytes (v_vault_id v) (v_generation v + 1) block = Inr bs \<and> ?d1 kOutboxFilename = Some (fresh_entry bs)) \<and> r1 \<noteq> Inr ())"
    with prints show ?thesis
      by blast
  qed
  with later show ?thesis
    by blast
qed

text \<open>A commit whose output breaks off after three characters, and the command that prints the block.\<close>

definition sample_answers :: "nat \<Rightarrow> nat \<Rightarrow> nat \<Rightarrow> answers" where
  "sample_answers n m k = \<lparr>an_read = sample_read m, an_pass = (\<lambda>_. Inr [65]), an_now = 99,
     an_save = sample_save True n m, an_outbox_read = sample_read k, an_outbox_write = sample_write True k,
     an_reread = sample_read m, an_unlink = True\<rparr>"

lemma write_file_new: "d name = None \<Longrightarrow> write_file sc name bs False d = write_file sc name bs True d"
  by (simp add: write_file_def)

lemma save_ready_beside:
  assumes "save_ready p sc kVaultFilename pr pw old plain st" and "n \<noteq> kVaultFilename" and "n \<noteq> tmp_name (ss_write sc) kVaultFilename"
  shows "save_ready p sc kVaultFilename pr pw old plain (st\<lparr>as_dir := (as_dir st)(n := e)\<rparr>)"
proof -
  have "read_file sc kVaultFilename ((as_dir st)(n := e)) = read_file sc kVaultFilename (as_dir st)" for sc
    using assms(2) by (simp add: read_file_def)
  then show ?thesis
    using assms by (auto simp: save_ready_def split: sum.splits option.splits)
qed

lemma sample_commit:
  defines "block \<equiv> replicate 40 (CHR ''a'')"
  obtains old h an c1 where "on_drive sample_prims [65] 5 (as_dir (sample_state old h))"
    and "script_ok (an_save an)" and "knows an [65]"
    and "commit_block sample_prims an sample_params [65] block \<lparr>co_app = sample_state old h, co_out = [], co_room = Some 3\<rparr> =
      (c1, Inl (CommandError BlockNotWritten))" and "co_out c1 = ''aaa''"
    and "unhindered sample_prims an block (c1\<lparr>co_room := None\<rparr>)"
proof -
  obtain plain0 old hdr h a where s: "serialize sample_store = Inr plain0" "unseal sample_prims old [65] = Inr plain0"
    "parse_header old = Inr hdr" "vh_version hdr \<noteq> kLegacyVersion" "57 \<le> length old"
    "length old < 200000" "h_backend h" "h_readable h" "h_writable h"
    "load_anchor sample_prims (v_vault_id sample_store) h = Inr (Some a)"
    "validate sample_prims a sample_store (vault_digest sample_prims old) = Inr Protected"
    by (rule sample_saved)
  obtain plain where r: "save_ready sample_prims (sample_save True (length old) (length plain + 57)) kVaultFilename
      sample_params [65] old plain (sample_state old h)" "reads_well (sample_read (length plain + 57)) (length plain + 57)"
    by (rule sample_ready [OF s(5,6,3,4,7-11)])
  let ?st = "sample_state old h"
  have od: "on_drive sample_prims [65] 5 (as_dir ?st)"
    using s(2) store_parse_serialized [OF sample_store_wf s(1)] by (simp add: on_drive_def) (simp add: sample_store_def)
  have g: "v_generation sample_store = 5" "length (v_vault_id sample_store) = 16"
    by (simp_all add: sample_store_def)
  obtain ob where ob: "outbox_bytes (v_vault_id sample_store) 6 block = Inr ob" "length ob = 73"
    using g(2) by (simp add: outbox_bytes_def put_blob_def block_def kOutboxMagic_def put_bytes_def put_u8_def put_u64_def)
  have bl: "length block = 40" "take 3 block = ''aaa''"
    by (simp_all add: block_def numeral_eq_Suc)
  define an where "an = sample_answers (length old) (length plain + 57) 73"
  let ?st1 = "?st\<lparr>as_dir := (as_dir ?st)(kOutboxFilename \<mapsto> fresh_entry ob)\<rparr>"
  have none: "as_dir ?st kOutboxFilename = None" "as_dir ?st (tmp_name sc kOutboxFilename) = None" for sc
    by (simp_all add: kVaultFilename_def kOutboxFilename_def tmp_name_def)
  obtain ds where "write_file (an_outbox_write an) kOutboxFilename ob False (as_dir ?st) = (ds, Some (Inr ()))"
    "left_by (as_dir ?st) (write_file (an_outbox_write an) kOutboxFilename ob False (as_dir ?st)) =
      (as_dir ?st)(kOutboxFilename \<mapsto> fresh_entry ob)"
    unfolding write_file_new [of "as_dir ?st", OF none(1)]
    by (rule write_file_ok [of "an_outbox_write an" ob "as_dir ?st" kOutboxFilename])
      (use none ob(2) sample_writes_well [of 73] in \<open>simp_all add: an_def sample_answers_def kMaxVaultBytes_def\<close>)
  then have w: "write_pending_outbox (an_outbox_write an) 6 block ?st = (?st1, Inr ())"
    using ob(1) by (simp add: write_pending_outbox_def ended_def)
  have r1: "save_ready sample_prims (an_save an) kVaultFilename sample_params [65] old plain ?st1"
    using r(1) by (intro save_ready_beside) (simp_all add: an_def sample_answers_def)
  obtain st2 f ov where sv: "save_vault sample_prims (an_save an) kVaultFilename sample_params [65] ?st1 = (st2, Inr ())"
    and rv: "read_vault sample_prims (an_read an) kVaultFilename (as_dir st2) = Inr f"
    and opn: "open_vault sample_prims 99 f [65] False (as_host st2) = (as_host st2, Inr ov)"
    by (rule saved_opens [OF sample_host_laws sample_aead sample_argon2 r1, of "an_read an" 99])
      (use r(2) in \<open>simp_all add: an_def sample_answers_def\<close>)
  have "script_ok (an_save an)" and kn: "knows an [65]"
    by (simp_all add: script_ok_def an_def sample_answers_def sample_save_def knows_def)
  have "wf_store sample_prims (as_store ?st1)" "\<not> list_all (\<lambda>b. b = 0) (v_vault_id (as_store ?st1))"
    using sample_store_wf sample_id by simp_all
  from save_vault_left [OF sample_host_laws sample_aead sample_argon2 \<open>script_ok (an_save an)\<close> this sv]
  have d2: "as_dir st2 kOutboxFilename = Some (fresh_entry ob)" "as_dir st2 kPreparedVaultFilename = None"
    by (simp_all add: kVaultFilename_def kOutboxFilename_def kPreparedVaultFilename_def tmp_name_def)
  have "save_guarded sample_prims an sample_params [65] 6 ?st1 = (st2, Inr ())"
    using sv by (simp add: save_guarded_def)
  then have cb: "commit_block sample_prims an sample_params [65] block \<lparr>co_app = ?st, co_out = [], co_room = Some 3\<rparr> =
      (\<lparr>co_app = st2, co_out = ''aaa'', co_room = Some 0\<rparr>, Inl (CommandError BlockNotWritten))"
    using w g(1) bl by (simp add: commit_block_def bindM_def on_app_eq write_block_or_throw_def room_for_def emit_def)
  have "vh_version (vf_header f) \<noteq> kLegacyVersion"
    using opn by (auto simp: open_vault_def)
  then have "unlock_vault sample_prims an st2 = (st2\<lparr>as_store := ov_store ov\<rparr>, Inr ov)"
    using d2(2) rv opn by (simp add: unlock_vault_def bindM_def on_host_def an_def sample_answers_def)
  moreover have "read_file (an_outbox_read an) kOutboxFilename (as_dir st2) = Some (Inr ob)"
    using d2(1) ob(2) sample_reads_well [of 73]
    by (intro read_file_ok) (simp_all add: an_def sample_answers_def kMaxVaultBytes_def)
  ultimately have "unhindered sample_prims an block \<lparr>co_app = st2, co_out = ''aaa'', co_room = None\<rparr>"
    by (simp add: unhindered_def room_for_def an_def sample_answers_def)
  then show thesis
    by (intro that [OF od \<open>script_ok (an_save an)\<close> kn cb]) simp_all
qed

lemma block_follows_commit_witness:
  "\<exists>an c c1 c3. commit_block sample_prims an sample_params [65] (replicate 40 (CHR ''a'')) c = (c1, Inl (CommandError BlockNotWritten)) \<and>
     co_out c = [] \<and> co_out c1 = ''aaa'' \<and> cmd_outbox sample_prims an (c1\<lparr>co_room := None\<rparr>) = (c3, Inr ()) \<and>
     co_out c3 = ''aaa'' @ replicate 40 (CHR ''a'')"
proof -
  let ?b = "replicate 40 (CHR ''a'')"
  obtain old h an c1 where s: "on_drive sample_prims [65] 5 (as_dir (sample_state old h))"
    "script_ok (an_save an)" "knows an [65]"
    "commit_block sample_prims an sample_params [65] ?b \<lparr>co_app = sample_state old h, co_out = [], co_room = Some 3\<rparr> =
      (c1, Inl (CommandError BlockNotWritten))" "co_out c1 = ''aaa''"
    "unhindered sample_prims an ?b (c1\<lparr>co_room := None\<rparr>)"
    by (rule sample_commit)
  let ?c = "\<lparr>co_app = sample_state old h, co_out = [], co_room = Some 3\<rparr>"
  obtain c3 r3 where o: "cmd_outbox sample_prims an (c1\<lparr>co_room := None\<rparr>) = (c3, r3)"
    by fastforce
  have "v_generation sample_store = 5"
    by (simp add: sample_store_def)
  with s(1) have d: "on_drive sample_prims [65] (v_generation sample_store) (as_dir (co_app ?c))"
    by simp
  have st: "as_store (co_app ?c) = sample_store" and same: "as_dir (co_app (c1\<lparr>co_room := None\<rparr>)) = as_dir (co_app c1)"
    by simp_all
  have "''aaa'' \<noteq> ?b"
    by (simp add: numeral_eq_Suc)
  with block_follows_commit [OF sample_host_laws sample_aead sample_argon2 s(2) sample_store_wf sample_id(1) st d s(4) same s(3) o] s(5,6)
  have "r3 = Inr () \<and> co_out c3 = ''aaa'' @ ?b"
    by simp
  with s(4,5) o show ?thesis
    by (intro exI [of _ an] exI [of _ ?c] exI [of _ c1] exI [of _ c3]) simp
qed

end
