(* ===== verification/Phrase.thy ===== *)
theory Phrase
  imports Wordlist Wire Command_Line Gui_Format
begin

text \<open>
  Recovery phrases and generated passphrases: \<open>bip39.cpp\<close> and \<open>passphrase.cpp\<close>. A phrase is text; the random bytes
  and the indices \<open>randombytes_uniform\<close> draws are arguments.
\<close>

section \<open>Words\<close>

definition kEntropyBytes :: nat where "kEntropyBytes = 16"
definition kWordCount :: nat where "kWordCount = 12"
definition kWordlistSize :: nat where "kWordlistSize = 2048"
definition kBitsPerWord :: nat where "kBitsPerWord = 11"

text \<open>The bit at \<open>index\<close> of a big-endian bit string.\<close>

definition bit_at :: "bytes \<Rightarrow> nat \<Rightarrow> bool" where
  "bit_at d index \<longleftrightarrow> bit (d ! (index div 8)) (7 - index mod 8)"

function split_words :: "string \<Rightarrow> string list" where
  "split_words s =
     (let s = dropWhile c_isspace s
      in if s = [] then [] else takeWhile (\<lambda>c. \<not> c_isspace c) s # split_words (dropWhile (\<lambda>c. \<not> c_isspace c) s))"
  by pat_completeness auto

termination
proof (relation "measure length")
  fix s t :: string
  assume t: "t = dropWhile c_isspace s" and ne: "t \<noteq> []"
  have "\<not> c_isspace (hd t)"
    using ne unfolding t by (rule hd_dropWhile)
  then have "length (dropWhile (\<lambda>c. \<not> c_isspace c) t) < length t"
    using ne length_dropWhile_le [of "\<lambda>c. \<not> c_isspace c" "tl t"] by (cases t) auto
  also have "length t \<le> length s"
    unfolding t by (rule length_dropWhile_le)
  finally show "(dropWhile (\<lambda>c. \<not> c_isspace c) t, s) \<in> measure length"
    by simp
qed simp

declare split_words.simps [simp del]

text \<open>\<open>std::lower_bound\<close> in the sorted list.\<close>

definition lower_bound :: "string list \<Rightarrow> string \<Rightarrow> nat" where
  "lower_bound ws word = length (takeWhile (\<lambda>w. word_less w word) ws)"

definition word_index :: "string \<Rightarrow> nat" where
  "word_index word =
     (let it = lower_bound kEnglishWordlist word
      in if it = length kEnglishWordlist \<or> kEnglishWordlist ! it \<noteq> word then kWordlistSize else it)"

section \<open>Recovery phrases\<close>

text \<open>The loop over the eleven bits of word \<open>w\<close>.\<close>

definition word_value :: "bytes \<Rightarrow> nat \<Rightarrow> nat" where
  "word_value bits w =
     foldl (\<lambda>index b. 2 * index + (if bit_at bits (w * kBitsPerWord + b) then 1 else 0)) 0 [0..<kBitsPerWord]"

fun join_words :: "string list \<Rightarrow> string" where
  "join_words [] = []"
| "join_words [w] = w"
| "join_words (w # ws) = w @ '' '' @ join_words ws"

definition encode_mnemonic :: "prims \<Rightarrow> bytes \<Rightarrow> string" where
  "encode_mnemonic p entropy =
     (let bits = entropy @ [sha256 p entropy ! 0]
      in join_words (map (\<lambda>w. kEnglishWordlist ! word_value bits w) [0..<kWordCount]))"

text \<open>One word into the bit string, from bit \<open>at\<close> on.\<close>

definition set_bit_at :: "bytes \<Rightarrow> nat \<Rightarrow> bytes" where
  "set_bit_at bits k = bits[k div 8 := bits ! (k div 8) OR push_bit (7 - k mod 8) 1]"

definition put_word :: "nat \<Rightarrow> nat \<Rightarrow> bytes \<Rightarrow> bytes" where
  "put_word index at bits =
     foldl (\<lambda>bits b. if odd (index div 2 ^ (kBitsPerWord - 1 - b)) then set_bit_at bits (at + b) else bits)
       bits [0..<kBitsPerWord]"

fun put_words :: "nat \<Rightarrow> string list \<Rightarrow> bytes \<Rightarrow> bytes result" where
  "put_words w [] bits = Inr bits"
| "put_words w (word # words) bits =
     (let index = word_index word
      in if index = kWordlistSize then Inl (PhraseError (UnknownWord (w + 1)))
         else put_words (w + 1) words (put_word index (w * kBitsPerWord) bits))"

definition decode_mnemonic :: "prims \<Rightarrow> string \<Rightarrow> bytes result" where
  "decode_mnemonic p mnemonic =
     (let words = split_words mnemonic
      in if length words \<noteq> kWordCount then Inl (PhraseError WordCount)
         else bindR (put_words 0 words (replicate (kEntropyBytes + 1) 0)) (\<lambda>bits.
           let expected = sha256 p (take kEntropyBytes bits) ! 0 AND 0xF0; actual = bits ! kEntropyBytes AND 0xF0
           in if expected = actual then Inr (take kEntropyBytes bits) else Inl (PhraseError Checksum)))"

section \<open>Passphrases\<close>

definition generate_passphrase :: "(nat \<Rightarrow> nat) \<Rightarrow> nat \<Rightarrow> string result" where
  "generate_passphrase uniform words =
     (if words = 0 \<or> words > kMaxWords then Inl (PhraseError WordCountRange)
      else Inr (join_words (map (\<lambda>i. kEnglishWordlist ! uniform i) [0..<words])))"

text \<open>\<open>word_count\<close>: runs of characters other than spaces.\<close>

fun count_runs :: "bool \<Rightarrow> string \<Rightarrow> nat" where
  "count_runs in_word [] = 0"
| "count_runs in_word (c # cs) =
     (if c = CHR '' '' then count_runs False cs else (if in_word then 0 else 1) + count_runs True cs)"

definition word_count :: "string \<Rightarrow> nat" where
  "word_count phrase = count_runs False phrase"

section \<open>The list\<close>

lemma list_length: "length kEnglishWordlist = 2048" and list_ascending: "ascending kEnglishWordlist"
  and list_small: "w \<in> set kEnglishWordlist \<Longrightarrow> small_word w"
  using word_list_good ascending_front by (auto simp: good_run_def list_all_iff)

lemma ascending_less: "ascending ws \<Longrightarrow> i < j \<Longrightarrow> j < length ws \<Longrightarrow> word_less (ws ! i) (ws ! j)"
proof (induction ws arbitrary: i j rule: ascending.induct)
  case (1 v w ws)
  obtain j' where j: "j = Suc j'"
    using 1(3) by (cases j) auto
  show ?case
  proof (cases i)
    case 0
    have "j' \<noteq> 0 \<Longrightarrow> word_less w ((w # ws) ! j')"
      using 1(1) [of 0 j'] 1(2-4) j by simp
    then have "word_less v ((w # ws) ! j')"
      using 1(2) word_less_trans by (cases j') auto
    then show ?thesis
      by (simp add: 0 j)
  next
    case (Suc i')
    then show ?thesis
      using 1(1) [of i' j'] 1(2-4) j by simp
  qed
qed simp_all

lemma lower_bound_nth:
  assumes "ascending ws" and "i < length ws"
  shows "lower_bound ws (ws ! i) = i"
proof -
  have "takeWhile (\<lambda>w. word_less w (ws ! i)) ws = take i ws"
    using assms by (intro takeWhile_eq_take_P_nth) (auto simp: ascending_less word_less_irrefl)
  then show ?thesis
    using assms(2) by (simp add: lower_bound_def)
qed

lemma word_index_nth: "i < 2048 \<Longrightarrow> word_index (kEnglishWordlist ! i) = i"
  by (simp add: word_index_def lower_bound_nth [OF list_ascending] list_length)

lemma word_index_cases: "word_index w = 2048 \<or> word_index w < 2048 \<and> kEnglishWordlist ! word_index w = w"
proof -
  have "lower_bound kEnglishWordlist w \<le> 2048"
    unfolding lower_bound_def using length_takeWhile_le [of _ kEnglishWordlist] list_length by metis
  then show ?thesis
    by (auto simp: word_index_def Let_def kWordlistSize_def list_length)
qed

section \<open>Words and phrases\<close>

definition plain_word :: "string \<Rightarrow> bool" where
  "plain_word w \<longleftrightarrow> w \<noteq> [] \<and> list_all (\<lambda>c. \<not> c_isspace c) w"

lemma small_plain: "small_word w \<Longrightarrow> plain_word w"
  by (auto simp: small_word_def small_letter_def plain_word_def list_all_iff c_isspace_def)

lemma split_words_word:
  assumes "plain_word w" and "r = [] \<or> c_isspace (hd r)"
  shows "split_words (w @ r) = w # split_words r"
proof -
  have d: "dropWhile c_isspace (w @ r) = w @ r"
    using assms(1) by (cases w) (auto simp: plain_word_def)
  have t: "takeWhile (\<lambda>c. \<not> c_isspace c) (w @ r) = w"
    using assms by (subst takeWhile_append2) (auto simp: plain_word_def list_all_iff takeWhile_eq_Nil_iff)
  have e: "dropWhile (\<lambda>c. \<not> c_isspace c) (w @ r) = r"
    using assms by (subst dropWhile_append2) (auto simp: plain_word_def list_all_iff dropWhile_eq_self_iff)
  show ?thesis
    using assms(1) by (subst split_words.simps) (auto simp: d t e plain_word_def)
qed

lemma split_words_space: "split_words (CHR '' '' # r) = split_words r"
  by (subst (1 2) split_words.simps) (simp add: c_isspace_def)

lemma split_join: "\<forall>w \<in> set ws. plain_word w \<Longrightarrow> split_words (join_words ws) = ws"
proof (induction ws rule: join_words.induct)
  case 1
  then show ?case
    by (simp add: split_words.simps)
next
  case (2 w)
  then show ?case
    using split_words_word [of w "[]"] by (simp add: split_words.simps)
next
  case (3 w v ws)
  then show ?case
    using split_words_word [of w "'' '' @ join_words (v # ws)"] split_words_space by (simp add: c_isspace_def)
qed

section \<open>Bits\<close>

lemma set_bit_at: "j < 8 * length bits \<Longrightarrow> k < 8 * length bits \<Longrightarrow> bit_at (set_bit_at bits k) j \<longleftrightarrow> bit_at bits j \<or> j = k"
proof -
  assume j: "j < 8 * length bits" and k: "k < 8 * length bits"
  have "bit (push_bit (7 - k mod 8) 1 :: byte) (7 - j mod 8) \<longleftrightarrow> j mod 8 = k mod 8"
  proof -
    have "a < 8 \<Longrightarrow> b < 8 \<Longrightarrow> (7 - b \<le> 7 - a \<and> 7 - a - (7 - b) = 0) \<longleftrightarrow> a = b" for a b :: nat
      by arith
    from this [of "j mod 8" "k mod 8"] show ?thesis
      by (simp only: bit_push_bit_iff bit_1_iff possible_bit_word) auto
  qed
  moreover have "j div 8 = k div 8 \<and> j mod 8 = k mod 8 \<longleftrightarrow> j = k"
    by (metis div_mult_mod_eq)
  ultimately show ?thesis
    using j k by (auto simp: bit_at_def set_bit_at_def nth_list_update bit_or_iff)
qed

lemma length_set_bit [simp]: "length (set_bit_at bits k) = length bits"
  by (simp add: set_bit_at_def)

definition put_bits :: "nat \<Rightarrow> nat \<Rightarrow> bytes \<Rightarrow> nat \<Rightarrow> bytes" where
  "put_bits index at bits n =
     foldl (\<lambda>bits b. if odd (index div 2 ^ (kBitsPerWord - 1 - b)) then set_bit_at bits (at + b) else bits) bits [0..<n]"

lemma put_bits_Suc: "put_bits index at bits (Suc n) =
    (if odd (index div 2 ^ (kBitsPerWord - 1 - n)) then set_bit_at (put_bits index at bits n) (at + n) else put_bits index at bits n)"
  by (simp add: put_bits_def)

lemma put_bits_at:
  assumes "at + n \<le> 8 * length bits" and "j < 8 * length bits"
  shows "length (put_bits index at bits n) = length bits"
    and "bit_at (put_bits index at bits n) j \<longleftrightarrow>
      bit_at bits j \<or> at \<le> j \<and> j < at + n \<and> odd (index div 2 ^ (kBitsPerWord - 1 - (j - at)))"
proof -
  have "length (put_bits index at bits n) = length bits \<and> (bit_at (put_bits index at bits n) j \<longleftrightarrow>
      bit_at bits j \<or> at \<le> j \<and> j < at + n \<and> odd (index div 2 ^ (kBitsPerWord - 1 - (j - at))))"
    using assms(1)
  proof (induction n)
    case (Suc n)
    then show ?case
      using assms(2) set_bit_at [of j "put_bits index at bits n" "at + n"] by (auto simp: put_bits_Suc less_Suc_eq)
  qed (auto simp: put_bits_def)
  then show "length (put_bits index at bits n) = length bits"
    and "bit_at (put_bits index at bits n) j \<longleftrightarrow>
      bit_at bits j \<or> at \<le> j \<and> j < at + n \<and> odd (index div 2 ^ (kBitsPerWord - 1 - (j - at)))"
    by blast+
qed

lemma put_word_bits: "put_word index at bits = put_bits index at bits kBitsPerWord"
  by (simp add: put_word_def put_bits_def)

text \<open>A word's number is its eleven bits.\<close>

definition value_of :: "bytes \<Rightarrow> nat \<Rightarrow> nat \<Rightarrow> nat" where
  "value_of bits at n = foldl (\<lambda>index b. 2 * index + (if bit_at bits (at + b) then 1 else 0)) 0 [0..<n]"

lemma value_of_Suc: "value_of bits at (Suc n) = 2 * value_of bits at n + (if bit_at bits (at + n) then 1 else 0)"
  by (simp add: value_of_def)

lemma value_of_less: "value_of bits at n < 2 ^ n"
  by (induction n) (auto simp: value_of_Suc value_of_def)

lemma value_of_bit: "b < n \<Longrightarrow> odd (value_of bits at n div 2 ^ (n - 1 - b)) \<longleftrightarrow> bit_at bits (at + b)"
proof (induction n)
  case (Suc n)
  show ?case
  proof (cases "b = n")
    case False
    then have e: "n - b = Suc (n - 1 - b)"
      using Suc.prems by simp
    have "value_of bits at (Suc n) div 2 ^ (n - b) = value_of bits at n div 2 ^ (n - 1 - b)"
      unfolding e power_Suc value_of_Suc div_mult2_eq by simp
    then show ?thesis
      using Suc False by simp
  qed (simp add: value_of_Suc)
qed simp

lemma word_value_of: "word_value bits w = value_of bits (w * kBitsPerWord) kBitsPerWord"
  by (simp add: word_value_def value_of_def)

lemma word_value_less: "word_value bits w < 2048"
  using value_of_less [of bits "w * kBitsPerWord" kBitsPerWord] by (simp add: word_value_of kBitsPerWord_def)

text \<open>The words of a bit string put back into an empty one: the first \<open>11 n\<close> bits are there again.\<close>

definition word_at :: "bytes \<Rightarrow> nat \<Rightarrow> string" where
  "word_at bits w = kEnglishWordlist ! word_value bits w"

lemma put_words_back:
  assumes "length bits = 17" and "length acc = 17" and "w + n \<le> 12"
  shows "\<exists>out. put_words w (map (word_at bits) [w..<w + n]) acc = Inr out \<and> length out = 17 \<and>
    (\<forall>j < 136. bit_at out j \<longleftrightarrow> bit_at acc j \<or> 11 * w \<le> j \<and> j < 11 * (w + n) \<and> bit_at bits j)"
  using assms(2,3)
proof (induction n arbitrary: w acc)
  case (Suc n)
  let ?i = "word_value bits w" and ?acc = "put_word (word_value bits w) (w * kBitsPerWord) acc"
  have i: "word_index (word_at bits w) = ?i" "?i \<noteq> kWordlistSize"
    using word_index_nth [OF word_value_less] word_value_less [of bits w] by (simp_all add: word_at_def kWordlistSize_def)
  have acc: "length ?acc = 17" "\<forall>j < 136. bit_at ?acc j \<longleftrightarrow> bit_at acc j \<or> 11 * w \<le> j \<and> j < 11 * Suc w \<and> bit_at bits j"
  proof -
    have l: "w * kBitsPerWord + kBitsPerWord \<le> 8 * length acc"
      using Suc.prems by (simp add: kBitsPerWord_def)
    show "length ?acc = 17"
      unfolding put_word_bits using put_bits_at(1) [OF l, of 0] Suc.prems(1) by simp
    show "\<forall>j < 136. bit_at ?acc j \<longleftrightarrow> bit_at acc j \<or> 11 * w \<le> j \<and> j < 11 * Suc w \<and> bit_at bits j"
    proof (intro allI impI)
      fix j :: nat assume "j < 136"
      then have "bit_at ?acc j \<longleftrightarrow> bit_at acc j \<or> w * kBitsPerWord \<le> j \<and> j < w * kBitsPerWord + kBitsPerWord \<and>
          odd (?i div 2 ^ (kBitsPerWord - 1 - (j - w * kBitsPerWord)))"
        unfolding put_word_bits using put_bits_at(2) [OF l, of j] Suc.prems(1) by simp
      moreover have "odd (?i div 2 ^ (kBitsPerWord - 1 - (j - w * kBitsPerWord))) \<longleftrightarrow> bit_at bits j"
        if "w * kBitsPerWord \<le> j" "j < w * kBitsPerWord + kBitsPerWord"
        using value_of_bit [of "j - w * kBitsPerWord" kBitsPerWord bits "w * kBitsPerWord"] that by (simp add: word_value_of)
      ultimately show "bit_at ?acc j \<longleftrightarrow> bit_at acc j \<or> 11 * w \<le> j \<and> j < 11 * Suc w \<and> bit_at bits j"
        by (auto simp: kBitsPerWord_def)
    qed
  qed
  obtain out where out: "put_words (Suc w) (map (word_at bits) [Suc w..<Suc w + n]) ?acc = Inr out" "length out = 17"
      "\<forall>j < 136. bit_at out j \<longleftrightarrow> bit_at ?acc j \<or> 11 * Suc w \<le> j \<and> j < 11 * (Suc w + n) \<and> bit_at bits j"
    using Suc.IH [of ?acc "Suc w"] acc(1) Suc.prems(2) by auto
  have "put_words w (map (word_at bits) [w..<w + Suc n]) acc = Inr out"
  proof -
    have "[w..<w + Suc n] = w # [Suc w..<Suc w + n]"
      by (simp add: upt_conv_Cons del: upt_Suc)
    then show ?thesis
      using out(1) i by (simp add: Let_def del: upt_Suc)
  qed
  moreover have "\<forall>j < 136. bit_at out j \<longleftrightarrow> bit_at acc j \<or> 11 * w \<le> j \<and> j < 11 * (w + Suc n) \<and> bit_at bits j"
    using out(3) acc(2) by auto
  ultimately show ?case
    using out(2) by blast
qed auto

lemma byte_bits: "(\<And>k. k < 8 \<Longrightarrow> bit (a :: byte) (7 - k) \<longleftrightarrow> bit b (7 - k)) \<Longrightarrow> a = b"
proof (rule bit_word_eqI)
  fix n assume h: "\<And>k. k < 8 \<Longrightarrow> bit a (7 - k) \<longleftrightarrow> bit b (7 - k)" and "n < LENGTH(8)"
  then show "bit a n \<longleftrightarrow> bit b n"
    using h [of "7 - n"] by simp
qed

lemma bits_bytes:
  assumes "length a = length b" and "\<And>j. j < 8 * n \<Longrightarrow> bit_at a j \<longleftrightarrow> bit_at b j" and "n \<le> length a"
  shows "take n a = take n b"
proof (rule nth_equalityI)
  show "length (take n a) = length (take n b)"
    using assms by simp
  fix i assume i: "i < length (take n a)"
  have "a ! i = b ! i"
  proof (rule byte_bits)
    fix k :: nat assume "k < 8"
    then show "bit (a ! i) (7 - k) \<longleftrightarrow> bit (b ! i) (7 - k)"
      using assms(2) [of "8 * i + k"] i by (simp add: bit_at_def)
  qed
  then show "take n a ! i = take n b ! i"
    using i by simp
qed

lemma high_nibble:
  assumes "length a = 17" and "length b = 17" and "\<And>j. 128 \<le> j \<Longrightarrow> j < 132 \<Longrightarrow> bit_at a j \<longleftrightarrow> bit_at b j"
  shows "a ! 16 AND 0xF0 = b ! 16 AND 0xF0"
proof (rule byte_bits)
  fix k :: nat assume k: "k < 8"
  have f: "bit (0xF0 :: byte) n \<longleftrightarrow> n \<in> {4, 5, 6, 7}" for n
  proof (cases "n < 8")
    case True
    then have "n = 0 \<or> n = 1 \<or> n = 2 \<or> n = 3 \<or> n = 4 \<or> n = 5 \<or> n = 6 \<or> n = 7"
      by arith
    then show ?thesis
      by (elim disjE) simp_all
  qed (use bit_imp_le_length [of "0xF0 :: byte" n] in auto)
  show "bit (a ! 16 AND 0xF0) (7 - k) \<longleftrightarrow> bit (b ! 16 AND 0xF0) (7 - k)"
  proof (cases "k < 4")
    case True
    moreover from this have "(128 + k) div 8 = 16" "(128 + k) mod 8 = k"
      by presburger+
    ultimately show ?thesis
      using assms(3) [of "128 + k"] by (simp add: bit_at_def bit_and_iff)
  next
    case False
    then have "\<not> bit (0xF0 :: byte) (7 - k)"
      unfolding f using k by auto
    then show ?thesis
      by (simp add: bit_and_iff)
  qed
qed

lemma put_words_encoded:
  assumes "length e = 16" and "bits = e @ [d]"
  shows "\<exists>out. put_words 0 (map (word_at bits) [0..<12]) (replicate 17 0) = Inr out \<and> length out = 17 \<and>
    take 16 out = e \<and> out ! 16 AND 0xF0 = d AND 0xF0"
proof -
  have l: "length bits = 17"
    using assms by simp
  obtain out where out: "put_words 0 (map (word_at bits) [0..<12]) (replicate 17 0) = Inr out" "length out = 17"
      "\<forall>j < 136. bit_at out j \<longleftrightarrow> bit_at (replicate 17 0) j \<or> j < 132 \<and> bit_at bits j"
    using put_words_back [OF l, of "replicate 17 0" 0 12] by auto
  have "\<not> bit_at (replicate 17 0) j" if "j < 136" for j
    using that by (simp add: bit_at_def)
  then have b: "bit_at out j \<longleftrightarrow> bit_at bits j" if "j < 132" for j
    using out(3) that by auto
  have "take 16 out = take 16 bits"
    by (rule bits_bytes) (use out(2) l b in simp_all)
  moreover have "out ! 16 AND 0xF0 = bits ! 16 AND 0xF0"
    by (rule high_nibble) (use out(2) l b in simp_all)
  ultimately show ?thesis
    using out(1,2) assms by (simp add: nth_append)
qed

lemma word_at_small: "small_word (word_at bits w)"
  unfolding word_at_def using list_small nth_mem [of "word_value bits w" kEnglishWordlist] word_value_less list_length by metis

lemma encode_eq: "encode_mnemonic p e = join_words (map (word_at (e @ [sha256 p e ! 0])) [0..<12])"
  by (simp add: encode_mnemonic_def Let_def kWordCount_def word_at_def [abs_def] del: upt_Suc)

lemma words_encoded: "split_words (encode_mnemonic p e) = map (word_at (e @ [sha256 p e ! 0])) [0..<12]"
  unfolding encode_eq by (rule split_join) (use small_plain [OF word_at_small] in auto)

text \<open>The other way round: a bit string says which words were put into it.\<close>

lemma value_of_digits:
  assumes "\<And>b. b < n \<Longrightarrow> bit_at bits (at + b) \<longleftrightarrow> odd (i div 2 ^ (m - 1 - b))" and "i < 2 ^ m" and "n \<le> m"
  shows "value_of bits at n = i div 2 ^ (m - n)"
  using assms(1,3)
proof (induction n)
  case 0
  then show ?case
    using assms(2) by (simp add: value_of_def)
next
  case (Suc n)
  let ?j = "i div 2 ^ (m - Suc n)"
  have "m - n = Suc (m - Suc n)"
    using Suc.prems(2) by simp
  then have "i div 2 ^ (m - n) = ?j div 2"
    by (simp only: power_Suc div_mult2_eq mult.commute [of 2])
  moreover have "value_of bits at n = i div 2 ^ (m - n)"
    using Suc by simp
  moreover have "bit_at bits (at + n) \<longleftrightarrow> odd ?j"
    using Suc.prems(1) [of n] by simp
  ultimately show ?case
    by (auto simp: value_of_Suc elim!: oddE evenE)
qed

lemma put_words_Inr:
  assumes "put_words w ws acc = Inr out" and "length acc = 17" and "w + length ws \<le> 12"
    and "\<And>j. 11 * w \<le> j \<Longrightarrow> j < 136 \<Longrightarrow> \<not> bit_at acc j"
  shows "length out = 17 \<and> (\<forall>j < 136. bit_at out j \<longleftrightarrow> bit_at acc j \<or> 11 * w \<le> j \<and> bit_at out j) \<and>
    (\<forall>k < length ws. word_at out (w + k) = ws ! k)"
  using assms
proof (induction w ws acc rule: put_words.induct)
  case (2 w word words bits)
  let ?i = "word_index word" and ?bits = "put_word (word_index word) (w * kBitsPerWord) bits"
  have i: "?i \<noteq> kWordlistSize" "put_words (Suc w) words ?bits = Inr out"
    using "2.prems"(1) by (auto simp: Let_def split: if_splits)
  have idx: "?i < 2048" "kEnglishWordlist ! ?i = word"
    using word_index_cases [of word] i(1) by (auto simp: kWordlistSize_def)
  have l: "w * kBitsPerWord + kBitsPerWord \<le> 8 * length bits"
    using "2.prems" by (simp add: kBitsPerWord_def)
  have b: "length ?bits = 17" "bit_at ?bits j \<longleftrightarrow> bit_at bits j \<or> 11 * w \<le> j \<and> j < 11 * Suc w \<and> odd (?i div 2 ^ (10 - (j - 11 * w)))"
    if "j < 136" for j
    using put_bits_at [OF l, of j ?i] that "2.prems"(2) by (auto simp: put_word_bits kBitsPerWord_def mult.commute)
  have IH: "length out = 17" "\<forall>j < 136. bit_at out j \<longleftrightarrow> bit_at ?bits j \<or> 11 * Suc w \<le> j \<and> bit_at out j"
    "\<forall>k < length words. word_at out (Suc w + k) = words ! k"
    using "2.IH" [OF refl i(1)] i(2) b(1) [of 0] "2.prems"(3,4) b(2) by (auto simp: Suc_le_eq)
  have v: "value_of out (w * kBitsPerWord) kBitsPerWord = ?i div 2 ^ (kBitsPerWord - kBitsPerWord)"
  proof (rule value_of_digits)
    fix c assume c: "c < kBitsPerWord"
    then have "w * kBitsPerWord + c < 136" "w * kBitsPerWord + c < 11 * Suc w" "11 * w \<le> w * kBitsPerWord + c"
      using "2.prems"(3) by (simp_all add: kBitsPerWord_def)
    then show "bit_at out (w * kBitsPerWord + c) \<longleftrightarrow> odd (?i div 2 ^ (kBitsPerWord - 1 - c))"
      using IH(2) b(2) "2.prems"(4) by (auto simp: kBitsPerWord_def mult.commute)
  qed (use idx(1) in \<open>simp_all add: kBitsPerWord_def\<close>)
  have "word_at out w = word"
    using idx(2) v by (simp add: word_at_def word_value_of)
  then have "\<forall>k < length (word # words). word_at out (w + k) = (word # words) ! k"
    using IH(3) by (auto simp: less_Suc_eq_0_disj)
  moreover have "\<forall>j < 136. bit_at out j \<longleftrightarrow> bit_at bits j \<or> 11 * w \<le> j \<and> bit_at out j"
  proof (intro allI impI)
    fix j :: nat assume "j < 136"
    then show "bit_at out j \<longleftrightarrow> bit_at bits j \<or> 11 * w \<le> j \<and> bit_at out j"
      using IH(2) [rule_format, of j] b(2) [of j] by auto
  qed
  ultimately show ?case
    using IH(1) by blast
qed auto

lemma nibble_bits:
  assumes "length a = 17" and "length b = 17" and "a ! 16 AND 0xF0 = b ! 16 AND 0xF0" and "128 \<le> j" and "j < 132"
  shows "bit_at a j \<longleftrightarrow> bit_at b j"
proof -
  obtain k where k: "j = 128 + k" "k < 4"
    using that [of "j - 128"] assms(4,5) by simp
  then have jk: "j div 8 = 16" "j mod 8 = k"
    by presburger+
  have "k = 0 \<or> k = 1 \<or> k = 2 \<or> k = 3"
    using k(2) by arith
  then have f: "bit (0xF0 :: byte) (7 - k)"
    by (elim disjE) simp_all
  have "bit (a ! 16 AND 0xF0) (7 - k) \<longleftrightarrow> bit (b ! 16 AND 0xF0) (7 - k)"
    using assms(3) by simp
  then show ?thesis
    using f by (simp add: bit_at_def jk bit_and_iff)
qed

lemma word_value_cong: "(\<And>j. j < 11 * Suc w \<Longrightarrow> bit_at a j \<longleftrightarrow> bit_at b j) \<Longrightarrow> word_value a w = word_value b w"
  unfolding word_value_def by (intro foldl_cong) (auto simp: kBitsPerWord_def)

text \<open>C29: twelve words restore an identity exactly if they are the words its entropy was written down as: whatever
  white space surrounds or separates them, and no other words do, a mistyped one being refused.\<close>

theorem mnemonic_restores:
  assumes "length e = 16"
  shows "decode_mnemonic p s = Inr e \<longleftrightarrow> split_words s = split_words (encode_mnemonic p e)"
proof
  let ?bits = "e @ [sha256 p e ! 0]"
  assume s: "split_words s = split_words (encode_mnemonic p e)"
  obtain out where out: "put_words 0 (map (word_at ?bits) [0..<12]) (replicate 17 0) = Inr out" "length out = 17"
      "take 16 out = e" "out ! 16 AND 0xF0 = sha256 p e ! 0 AND 0xF0"
    using put_words_encoded [OF assms refl] by blast
  then show "decode_mnemonic p s = Inr e"
    using s words_encoded [of p e] unfolding decode_mnemonic_def Let_def
    by (simp add: kWordCount_def kEntropyBytes_def del: upt_Suc put_words.simps)
next
  let ?bits = "e @ [sha256 p e ! 0]"
  assume d: "decode_mnemonic p s = Inr e"
  then obtain out where out: "put_words 0 (split_words s) (replicate 17 0) = Inr out" "length (split_words s) = 12"
      "sha256 p (take 16 out) ! 0 AND 0xF0 = out ! 16 AND 0xF0" "take 16 out = e"
    by (auto simp: decode_mnemonic_def Let_def kWordCount_def kEntropyBytes_def bindR_eq_Inr split: if_splits)
  have w: "length out = 17" "\<forall>k < 12. word_at out k = split_words s ! k"
    using put_words_Inr [OF out(1)] out(2) by (auto simp: bit_at_def)
  have "bit_at out j \<longleftrightarrow> bit_at ?bits j" if "j < 132" for j
  proof (cases "j < 128")
    case True
    then have "j div 8 < 16"
      by simp
    then have "out ! (j div 8) = ?bits ! (j div 8)"
      using out(4) by (metis assms nth_append nth_take)
    then show ?thesis
      by (simp add: bit_at_def)
  next
    case False
    then show ?thesis
      using nibble_bits [of out ?bits j] w(1) out(3,4) assms that by (simp add: nth_append)
  qed
  then have "word_at ?bits k = split_words s ! k" if "k < 12" for k
    using word_value_cong [of k ?bits out] w(2) that by (simp add: word_at_def)
  then show "split_words s = split_words (encode_mnemonic p e)"
    unfolding words_encoded by (intro nth_equalityI) (use out(2) in \<open>simp_all del: upt_Suc\<close>)
qed

section \<open>Passphrases that are shown and read back\<close>

lemma count_runs_word: "CHR '' '' \<notin> set w \<Longrightarrow> w \<noteq> [] \<Longrightarrow> r = [] \<or> hd r = CHR '' '' \<Longrightarrow>
    count_runs b (w @ r) = (if b then 0 else 1) + count_runs True r"
proof (induction w arbitrary: b)
  case (Cons c w)
  then show ?case
    by (cases "w = []") auto
qed simp

lemma word_count_join:
  "\<forall>w \<in> set ws. w \<noteq> [] \<and> CHR '' '' \<notin> set w \<Longrightarrow> count_runs False (join_words ws) = length ws"
proof (induction ws rule: join_words.induct)
  case (2 w)
  then show ?case
    using count_runs_word [of w "[]" False] by simp
next
  case (3 w v ws)
  then show ?case
    using count_runs_word [of w "'' '' @ join_words (v # ws)" False] by simp
qed simp

lemma small_lower: "small_word w \<Longrightarrow> w \<noteq> [] \<and> list_all lower w \<and> CHR '' '' \<notin> set w \<and> length w \<le> 8"
proof -
  have "lower c \<longleftrightarrow> (97::nat) \<le> of_char c \<and> (of_char c :: nat) \<le> 122" for c
    by (simp add: lower_def word_le_nat_alt unat_byte_of_char)
  then show "small_word w \<Longrightarrow> ?thesis"
    by (auto simp: small_word_def small_letter_def list_all_iff)
qed

lemma count_words_step:
  assumes "small_word w"
  shows "count_words (w @ '' '' @ r) = map_option Suc (count_words r)" and "count_words w = Some 1"
proof -
  note l = small_lower [OF assms]
  have a: "takeWhile (\<lambda>c. c \<noteq> CHR '' '') (w @ '' '' @ r) = w" "dropWhile (\<lambda>c. c \<noteq> CHR '' '') (w @ '' '' @ r) = '' '' @ r"
    using l by (auto simp: takeWhile_append dropWhile_append)
  have b: "takeWhile (\<lambda>c. c \<noteq> CHR '' '') w = w" "dropWhile (\<lambda>c. c \<noteq> CHR '' '') w = []"
    using l by (auto simp: takeWhile_eq_all_conv)
  show "count_words (w @ '' '' @ r) = map_option Suc (count_words r)"
    unfolding count_words.simps [of "w @ '' '' @ r"] a Let_def using l by simp
  show "count_words w = Some 1"
    unfolding count_words.simps [of w] b Let_def using l by simp
qed

lemma phrase_of_words:
  "ws \<noteq> [] \<Longrightarrow> \<forall>w \<in> set ws. small_word w \<Longrightarrow>
    count_words (join_words ws) = Some (length ws) \<and> join_words ws \<noteq> [] \<and> length (join_words ws) \<le> 9 * length ws"
proof (induction ws rule: join_words.induct)
  case (2 w)
  then show ?case
    using small_lower [of w] count_words_step(2) by auto
next
  case (3 w v ws)
  then show ?case
    using small_lower [of w] count_words_step(1) [of w "join_words (v # ws)"] by auto
qed simp

lemma phrase_valid: "ws \<noteq> [] \<Longrightarrow> length ws \<le> 100 \<Longrightarrow> \<forall>w \<in> set ws. small_word w \<Longrightarrow> valid_phrase (join_words ws) (length ws)"
  using phrase_of_words [of ws] by (auto simp: valid_phrase_def)

text \<open>C30: every passphrase the program generates and every recovery phrase it prints has the number of words asked for
  and passes the checks of the structured result, so a result that reports them is never refused by its own writer.\<close>

theorem generated_phrases_reported:
  assumes "generate_passphrase uniform n = Inr s" and "\<And>i. uniform i < kWordlistSize" and "kMinPassphraseWords \<le> n"
  shows "word_count s = n \<and>
    write_result \<lparr>gu_command = ''init'', gu_status = ''ok'', gu_source = ''generated'', gu_passphrase = s,
      gu_passphrase_words = n, gu_recovery = encode_mnemonic p e, gu_recovery_words = kRecoveryWords\<rparr> \<noteq> None \<and>
    write_result \<lparr>gu_command = ''init'', gu_status = ''ok'', gu_source = ''mnemonic'', gu_passphrase = s,
      gu_passphrase_words = n, gu_recovery = [], gu_recovery_words = 0\<rparr> \<noteq> None \<and>
    write_result \<lparr>gu_command = ''passphrase'', gu_status = ''ok'', gu_source = [], gu_passphrase = s,
      gu_passphrase_words = n, gu_recovery = [], gu_recovery_words = 0\<rparr> \<noteq> None"
proof -
  let ?ws = "map (\<lambda>i. kEnglishWordlist ! uniform i) [0..<n]"
  have n: "0 < n" "n \<le> 12" and s: "s = join_words ?ws"
    using assms(1) by (auto simp: generate_passphrase_def kMaxWords_def split: if_splits)
  have small: "\<forall>w \<in> set ?ws. small_word w"
    using list_small nth_mem assms(2) list_length by (auto simp: kWordlistSize_def)
  then have "word_count s = n"
    unfolding word_count_def s using word_count_join [of ?ws] small_lower by auto
  moreover have "valid_phrase s n"
    unfolding s using phrase_valid [of ?ws] small n by simp
  moreover have "valid_phrase (encode_mnemonic p e) 12"
    unfolding encode_eq using phrase_valid [of "map (word_at (e @ [sha256 p e ! 0])) [0..<12]"] word_at_small
    by (simp del: upt_Suc)
  ultimately show ?thesis
    using n assms(3) by (simp add: write_result_def valid_result_def valid_command_def valid_status_def kRecoveryWords_def
        kMaxPassphraseWords_def)
qed

theorem generated_phrases_reported_witness:
  "generate_passphrase (\<lambda>i. i) 6 = Inr (join_words (map (\<lambda>i. kEnglishWordlist ! i) [0..<6])) \<and>
    word_count (join_words (map (\<lambda>i. kEnglishWordlist ! i) [0..<6])) = 6"
proof -
  let ?u = "\<lambda>i :: nat. if i < 6 then i else 0"
  have e: "generate_passphrase (\<lambda>i. i) 6 = Inr (join_words (map (\<lambda>i. kEnglishWordlist ! i) [0..<6]))"
    by (simp add: generate_passphrase_def kMaxWords_def)
  moreover have "map (\<lambda>i. kEnglishWordlist ! ?u i) [0..<6] = map (\<lambda>i. kEnglishWordlist ! i) [0..<6]"
    by (intro map_cong refl arg_cong [where f = "(!) kEnglishWordlist"]) auto
  then have "generate_passphrase ?u 6 = Inr (join_words (map (\<lambda>i. kEnglishWordlist ! i) [0..<6]))"
    unfolding generate_passphrase_def kMaxWords_def by (simp only: simp_thms if_False) simp
  ultimately show ?thesis
    using generated_phrases_reported [of ?u 6] by (simp add: kWordlistSize_def kMinPassphraseWords_def)
qed

theorem mnemonic_restores_witness:
  "decode_mnemonic sample_prims (encode_mnemonic sample_prims (replicate 16 7)) = Inr (replicate 16 7)"
  using mnemonic_restores [of "replicate 16 7" sample_prims "encode_mnemonic sample_prims (replicate 16 7)"] by simp

end
