(* ===== verification/Commands.thy ===== *)
theory Commands
  imports Outbox Phrase Localised Drawing Session Group Maintenance Card
begin

text \<open>
  The commands of \<open>commands.cpp\<close> with the input helpers of \<open>command_io.cpp\<close>: each is the body of the C++ function,
  from its options and what the world answers to the console it leaves: the vault in memory, the drive, the anchors and
  what has reached standard output. Messages for the person at the terminal go to standard error, which is not part of
  the state. A path is a name in the directory of the drive.
\<close>

section \<open>The text of \<open>help\<close>\<close>


definition usage_1 :: string where
  "usage_1 = concat [
     ''Ratchet-USB '' @ kProgramVersion @ '' -- encrypted vault and hybrid PQXDH messaging'' @ [nl],
     [nl],
     ''Usage:'' @ [nl],
     ''  '' @ kProgram @ '' init     --usb-path <dir> [--from-mnemonic] [options]'' @ [nl],
     ''  '' @ kProgram @ '' unlock   --usb-path <dir>'' @ [nl],
     ''  '' @ kProgram @ '' passphrase --usb-path <dir> [--passphrase-words <n>]'' @ [nl],
     ''  '' @ kProgram @ '' anchor   --usb-path <dir>'' @ [nl],
     ''  '' @ kProgram @ '' migrate  --usb-path <dir> [--commit]'' @ [nl],
     ''  '' @ kProgram @ '' card     --usb-path <dir> [--fingerprint] [--rotate-spk] '' @ ''[--replenish-otpk <n>]'' @ [nl],
     ''  '' @ kProgram @ '' add      --usb-path <dir> <alias> [--card <file>]'' @ [nl],
     ''  '' @ kProgram @ '' contacts --usb-path <dir>'' @ [nl],
     ''  '' @ kProgram @ '' trust    --usb-path <dir> <alias>'' @ [nl],
     ''  '' @ kProgram @ '' reset-session --usb-path <dir> <alias>'' @ [nl],
     ''  '' @ kProgram @ '' remove   --usb-path <dir> [--yes] <alias>'' @ [nl],
     ''  '' @ kProgram @ '' send     --usb-path <dir> <alias> [message|--file <file>]'' @ [nl],
     ''  '' @ kProgram @ '' group-send --usb-path <dir> --to <alias> --to <alias> [message]'' @ [nl],
     ''  '' @ kProgram @ '' outbox   --usb-path <dir>'' @ [nl],
     ''  '' @ kProgram @ '' recv     --usb-path <dir> [message] [--stage-file]'' @ [nl],
     ''  '' @ kProgram @ '' ui       [--usb-path <dir>] [--lang en|it] [--idle-lock <s>]'' @ [nl],
     [nl],
     ''Commands:'' @ [nl],
     ''  init      Generate a 128-bit seed, show its 12-word BIP-39 backup,'' @ [nl],
     ''            and create the vault (identity, a signed prekey, one-'' @ [nl],
     ''            time prekeys) at <dir>/vault.bin. A random word passphrase'' @ [nl],
     ''            is generated and shown once; write it down and enter it one'' @ [nl],
     ''            word per line to unlock. With --from-mnemonic, rebuild the'' @ [nl],
     ''            identity from an existing 12-word backup instead of'' @ [nl],
     ''            generating a new one (no contacts or chat history come back'' @ [nl],
     ''            with it; those only ever lived in the old vault.bin).'' @ [nl],
     ''  unlock    Decrypt the vault and print the identity fingerprint.'' @ [nl],
     ''  passphrase  Generate a new word passphrase and re-encrypt the vault'' @ [nl],
     ''            with it, keeping the identity, contacts and sessions. The'' @ [nl],
     ''            current passphrase is asked for first; the new one is shown'' @ [nl],
     ''            once and cannot be recovered later.'' @ [nl],
     ''  anchor    Explicitly enroll this authenticated vault state in the'' @ [nl],
     ''            host Secret Service for rollback checks.'' @ [nl],
     ''  migrate   Prepare and verify a v3 vault beside a legacy vault. Run'' @ [nl],
     ''            it again with --commit to promote the new vault atomically.'' @ [nl],
     ''  card      Print this identity'' @ [CHR 0x27] @ ''s contact card, to paste to a'' @ [nl],
     ''            contact so they can start a conversation. With'' @ [nl],
     ''            --fingerprint, print only the fingerprint.'' @ [nl],
     ''  add       Import a contact'' @ [CHR 0x27] @ ''s card (read from --card, or from'' @ [nl],
     ''            standard input) under <alias>.'' @ [nl],
     ''  contacts  List known contacts, their fingerprint and trust state.'' @ [nl],
     ''  trust     Mark <alias>'' @ [CHR 0x27] @ ''s fingerprint as verified out of band.'' @ [nl],
     ''  reset-session  Explicitly discard session and skipped-key state;'' @ [nl],
     ''            the next message requires a fresh authenticated opening.'' @ [nl],
     ''  remove    Delete <alias>, its card and its session, including the'' @ [nl]]"

definition usage_2 :: string where
  "usage_2 = concat [
     ''            ratchet keys. --yes skips the interactive confirmation.'' @ [nl],
     ''  send      Encrypt a message for <alias> (running the initial'' @ [nl],
     ''            handshake automatically if needed) and print the block'' @ [nl],
     ''            to paste into the chat. [message] falls back to standard'' @ [nl],
     ''            input, or a prompt, when omitted. With --file, encrypt any'' @ [nl],
     ''            file (image, document, ...) through the same ratchet'' @ [nl],
     ''            instead; the file itself is never modified or copied'' @ [nl],
     ''            elsewhere. A message given as an argument is visible in'' @ [nl],
     ''            the shell history; omit it or use --stdin-payload.'' @ [nl],
     ''  group-send  Encrypt a message once and wrap its content key for'' @ [nl],
     ''            each --to contact through the existing 1:1 session. The'' @ [nl],
     ''            same block is handed to every member; recv finds the'' @ [nl],
     ''            wrapper addressed to this vault. At least two --to flags'' @ [nl],
     ''            are required. Plaintext on the command line is visible in'' @ [nl],
     ''            argv; omit it or use --stdin-payload.'' @ [nl],
     ''  outbox    Print a block left in vault.bin.outbox after stdout'' @ [nl],
     ''            failed, then remove the file. It asks for the vault'' @ [nl],
     ''            passphrase and refuses a block that does not match the'' @ [nl],
     ''            saved vault generation. A new send is refused while a'' @ [nl],
     ''            pending block exists.'' @ [nl],
     ''  recv      Decrypt a pasted message block (establishing the'' @ [nl],
     ''            session automatically if it is the first one). [message]'' @ [nl],
     ''            falls back to standard input, or a prompt, when omitted.'' @ [nl],
     ''            With --stage-file, a received file is staged in the private'' @ [nl],
     ''            temporary folder and its path is printed, instead of asking'' @ [nl],
     ''            on a terminal whether to open it.'' @ [nl],
     ''  ui        Open the full-screen terminal interface, which does all'' @ [nl],
     ''            of the above without flags. This is what running the'' @ [nl],
     ''            program with no arguments does, on a terminal; with the'' @ [nl],
     ''            input or the output redirected, nothing changes and a'' @ [nl],
     ''            command is still required.'' @ [nl],
     [nl],
     ''Options:'' @ [nl],
     ''  --usb-path <dir>     Directory on the removable drive. Falls back to'' @ [nl],
     ''                       the RATCHET_USB_PATH environment variable, then'' @ [nl],
     ''                       to an interactive prompt if the terminal allows.'' @ [nl],
     ''  --force              Replace an existing vault (init only).'' @ [nl],
     ''  --otpk-count <n>     One-time prekeys to generate at init (default '' @ to_string kDefaultOtpkCount @ '', at most '' @ to_string kMaxOtpkCount @ '').'' @ [nl],
     ''  --argon2-time <n>    Argon2id passes (default '' @ to_string (unat kDefaultTimeCost) @ '').'' @ [nl],
     ''  --argon2-mem-kb <n>  Argon2id memory in KiB (default '' @ to_string (unat kDefaultMemCostKb) @ '').'' @ [nl],
     ''  --from-mnemonic      Prompt for an existing 12-word backup instead'' @ [nl],
     ''                       of generating a new one (init only).'' @ [nl],
     ''  --passphrase-words <n>  Words in the generated vault passphrase,'' @ [nl],
     ''                       '' @ to_string kMinWords @ '' to '' @ to_string kMaxWords @ '' (default '' @ to_string kDefaultWords @ ''; init and'' @ [nl],
     ''                       passphrase only). More words means more entropy'' @ [nl],
     ''                       to write down and type.'' @ [nl],
     ''  --structured-output  Emit a machine-readable result block on stdout'' @ [nl],
     ''                       for a GUI that already owns the terminal: init and'' @ [nl]]"

definition usage_3 :: string where
  "usage_3 = concat [
     ''                       passphrase replace the human word grids with it'' @ [nl],
     ''                       (it never puts a phrase in argv or a file), and'' @ [nl],
     ''                       recv appends it after the body to say whether the'' @ [nl],
     ''                       message was a file and, if staged, where. It never'' @ [nl],
     ''                       carries the sender'' @ [CHR 0x27] @ ''s alias.'' @ [nl],
     ''  --fingerprint        Print only the identity fingerprint (card only).'' @ [nl],
     ''  --card <file>        Read a contact card from a file (add only).'' @ [nl],
     ''  --file <file>        Encrypt a file instead of text (send only).'' @ [nl],
     ''  --to <alias>         Add a group recipient; repeat for each member'' @ [nl],
     ''                       (group-send only, at least two).'' @ [nl],
     ''  --stage-file         Stage a received file in the private temporary'' @ [nl],
     ''                       folder and print its path, without asking on a'' @ [nl],
     ''                       terminal whether to open it (recv only).'' @ [nl],
     ''  --stdin-payload <n>  Read exactly <n> bytes from standard input as the'' @ [nl],
     ''                       message (send, group-send) or block (recv),'' @ [nl],
     ''                       before the'' @ [nl],
     ''                       passphrase. For front ends that must not put the'' @ [nl],
     ''                       plaintext in the child'' @ [CHR 0x27] @ ''s argv; requires --usb-path'' @ [nl],
     ''                       or RATCHET_USB_PATH.'' @ [nl],
     ''  --yes                Skip the interactive confirmation (remove only).'' @ [nl],
     ''  --confirmed          The fingerprint was shown and the user confirmed'' @ [nl],
     ''                       intentional trust, not a comparison against'' @ [nl],
     ''                       another channel. For a front end that showed its'' @ [nl],
     ''                       own dialog (trust only).'' @ [nl],
     ''  --show-fingerprint   Print the contact'' @ [CHR 0x27] @ ''s fingerprint and what marking'' @ [nl],
     ''                       it verified means, and change nothing in the'' @ [nl],
     ''                       vault (trust only).'' @ [nl],
     ''  --expect-fingerprint <fp>'' @ [nl],
     ''                       With --confirmed: refuse to mark the contact'' @ [nl],
     ''                       verified unless its fingerprint is still this'' @ [nl],
     ''                       one, which is the value the front end showed'' @ [nl],
     ''                       (trust only).'' @ [nl],
     ''  --lang en|it         Language of the interface (ui only). Without'' @ [nl],
     ''                       it, an Italian locale gets Italian and'' @ [nl],
     ''                       anything else gets English.'' @ [nl],
     ''  --idle-lock <s>      Close the vault after <s> seconds with no key'' @ [nl],
     ''                       pressed (ui only, default '' @ to_string kDefaultIdleLockSeconds @ '', 0 to disable).'' @ [nl],
     ''  -h, --help           Show this help.'' @ [nl],
     ''  -V, --version        Show the version.'' @ [nl]]"

definition usage_text :: string where
  "usage_text = usage_1 @ usage_2 @ usage_3"

section \<open>What the world answers\<close>

record world =
  wo_answers :: answers
  wo_env :: string  \<comment> \<open>\<open>RATCHET_USB_PATH\<close>\<close>
  wo_removable :: "string list"  \<comment> \<open>\<open>media::removable_drives\<close>\<close>
  wo_with_vault :: "string list"  \<comment> \<open>\<open>media::drives_with_vault\<close>\<close>
  wo_exists :: "string \<Rightarrow> bool"
  wo_parent :: "string \<Rightarrow> string"
  wo_create :: "string \<Rightarrow> bool"
  wo_validate :: "string \<Rightarrow> string result"  \<comment> \<open>\<open>app::validate_usb_path\<close>\<close>
  wo_tty :: bool  \<comment> \<open>standard input is a terminal\<close>
  wo_out_tty :: bool
  wo_line :: "string \<Rightarrow> string"  \<comment> \<open>the line typed at a prompt\<close>
  wo_confirm :: bool  \<comment> \<open>Enter rather than Escape\<close>
  wo_stdin :: string  \<comment> \<open>what a pipe holds before the passphrase\<close>
  wo_card_file :: "string option"
  wo_host_file :: host_file
  wo_send :: send_draws
  wo_group_send :: group_draws
  wo_receive :: recv_draws
  wo_group_now :: u64
  wo_group_receive :: "nat \<Rightarrow> recv_draws"
  wo_upkeep :: upkeep_draws
  wo_now :: u64
  wo_keypair :: bytes
  wo_otpks :: "nat \<Rightarrow> bytes"
  wo_pq_static :: bytes
  wo_pq_seeds :: "nat \<Rightarrow> bytes"
  wo_staging :: staging
  wo_opener :: bool  \<comment> \<open>the file manager could be started\<close>
  wo_mnemonic :: string  \<comment> \<open>the recovery words typed at \<open>init\<close>\<close>
  wo_entropy :: bytes
  wo_vault_id :: bytes
  wo_uniform :: "nat \<Rightarrow> nat"  \<comment> \<open>the draws of \<open>passphrase::generate\<close>\<close>
  wo_rekey :: rekey_script
  wo_promote :: write_script

section \<open>Input\<close>

definition refuse_if :: "bool \<Rightarrow> command_error \<Rightarrow> (console, unit) mut" where
  "refuse_if b e = readM (\<lambda>_. if b then Inl (CommandError e) else Inr ())"

definition affirmed :: "string \<Rightarrow> bool" where
  "affirmed answer \<longleftrightarrow> answer = ''y'' \<or> answer = ''Y'' \<or> answer = ''yes''"

text \<open>\<open>std::from_chars\<close> reads the digits at the front and ignores what follows them.\<close>

definition leading_number :: "string \<Rightarrow> nat option" where
  "leading_number s =
     (let ds = takeWhile (\<lambda>c. byte_of_char c \<ge> 0x30 \<and> byte_of_char c \<le> 0x39) s
      in if ds = [] then None
         else let n = foldl (\<lambda>n c. 10 * n + (of_char c - 48)) 0 ds in if n < 2 ^ 64 then Some n else None)"

definition choose_drive :: "world \<Rightarrow> string list \<Rightarrow> string" where
  "choose_drive w choices =
     (if choices = [] \<or> \<not> wo_tty w then []
      else if length choices = 1 then
        (let answer = wo_line w ''Use it? [Y/n] ''
         in if answer = [] \<or> affirmed answer then hd choices else [])
      else case leading_number (wo_line w (''Which one? [1-'' @ to_string (length choices) @ ''] '')) of
          None \<Rightarrow> []
        | Some pick \<Rightarrow> if pick < 1 \<or> pick > length choices then [] else choices ! (pick - 1))"

definition require_usb_path :: "world \<Rightarrow> bool \<Rightarrow> options \<Rightarrow> string result" where
  "require_usb_path w for_init opts =
     (let usb_path = op_usb_path opts;
          usb_path = (if usb_path = [] then wo_env w else usb_path);
          usb_path = (if usb_path = [] then choose_drive w (if for_init then wo_removable w else wo_with_vault w)
                      else usb_path);
          usb_path = (if usb_path = [] then wo_line w ''USB drive path: '' else usb_path)
      in if usb_path = [] then Inl (CommandError NoUsbPath)
         else if for_init \<and> \<not> wo_exists w usb_path \<and> wo_parent w usb_path \<noteq> [] \<and>
                 wo_parent w usb_path \<in> set (wo_removable w) \<and> \<not> wo_create w usb_path
           then Inl (CommandError NoUsbPath)
         else wo_validate w usb_path)"

definition require_known_usb_for_payload :: "world \<Rightarrow> options \<Rightarrow> unit result" where
  "require_known_usb_for_payload w opts =
     (if op_stdin_payload_bytes opts = None \<or> op_usb_path opts \<noteq> [] then Inr ()
      else if wo_env w \<noteq> [] then Inr ()
      else Inl (CommandError NoUsbPath))"

definition require_value :: "world \<Rightarrow> string \<Rightarrow> string \<Rightarrow> string result" where
  "require_value w given prompt =
     (if given \<noteq> [] then Inr given
      else let entered = wo_line w prompt in if entered = [] then Inl (CommandError ValueRequired) else Inr entered)"

definition read_bounded :: "string \<Rightarrow> nat \<Rightarrow> string result" where
  "read_bounded input max_bytes = (if length input > max_bytes then Inl (CommandError InputFailed) else Inr input)"

definition read_exact :: "string \<Rightarrow> nat \<Rightarrow> string result" where
  "read_exact input n = (if length input < n then Inl (CommandError InputFailed) else Inr (take n input))"

definition read_text_arg_or_stdin :: "world \<Rightarrow> string option \<Rightarrow> nat \<Rightarrow> string result" where
  "read_text_arg_or_stdin w arg max_bytes =
     (case arg of
        Some s \<Rightarrow> if length s > max_bytes then Inl (CommandError InputFailed) else Inr s
      | None \<Rightarrow> read_bounded (wo_stdin w) max_bytes)"

definition read_file_text :: "string option \<Rightarrow> nat \<Rightarrow> string result" where
  "read_file_text contents max_bytes =
     (case contents of None \<Rightarrow> Inl (CommandError InputFailed) | Some s \<Rightarrow> read_bounded s max_bytes)"

definition quoted :: "string \<Rightarrow> string" where
  "quoted s = [CHR 0x27] @ s @ [CHR 0x27]"

text \<open>The payload that precedes the passphrase on standard input, if the options announce one.\<close>

definition stdin_payload :: "world \<Rightarrow> options \<Rightarrow> nat \<Rightarrow> string option result" where
  "stdin_payload w opts max_bytes =
     (case op_stdin_payload_bytes opts of None \<Rightarrow> Inr None
      | Some n \<Rightarrow>
          if n > max_bytes then Inl (CommandError BadOptions)
          else bindR (read_exact (wo_stdin w) n) (\<lambda>s.
            if s = [] then Inl (CommandError ValueRequired) else Inr (Some s)))"

section \<open>Shared steps\<close>

definition write_structured_or_throw :: "gui_result \<Rightarrow> (console, unit) mut" where
  "write_structured_or_throw r c =
     (case write_result r of
        None \<Rightarrow> (c, Inl (CommandError OutputFailed))
      | Some t \<Rightarrow> (emit t c, if room_for t c then Inr () else Inl (CommandError OutputFailed)))"

definition open_here :: "prims \<Rightarrow> world \<Rightarrow> (console, opened_vault) mut" where
  "open_here p w = on_app (unlock_vault p (wo_answers w))"

definition save_here :: "prims \<Rightarrow> world \<Rightarrow> opened_vault \<Rightarrow> (console, unit) mut" where
  "save_here p w ov =
     on_app (save_vault p (an_save (wo_answers w)) kVaultFilename (ov_params ov) (ov_passphrase ov))"

definition identity_here :: "prims \<Rightarrow> (console, bytes \<times> bytes) mut" where
  "identity_here p = readM (\<lambda>c. derive_identity p (v_seed (as_store (co_app c))))"

definition contact_named :: "string \<Rightarrow> (console, nat) mut" where
  "contact_named name = readM (\<lambda>c. of_option (CommandError NoContactNamed) (find_contact (as_store (co_app c)) name))"

definition no_outbox :: "(console, unit) mut" where
  "no_outbox = on_app ensure_no_pending_outbox"

text \<open>How \<open>add\<close>, \<open>trust\<close>, \<open>reset-session\<close> and \<open>remove\<close> end.\<close>

definition save_and_say :: "prims \<Rightarrow> world \<Rightarrow> opened_vault \<Rightarrow> string \<Rightarrow> (console, unit) mut" where
  "save_and_say p w ov said =
     bindM no_outbox (\<lambda>_.
     bindM (save_here p w ov) (\<lambda>_.
     print said))"

definition shown_contact :: "prims \<Rightarrow> contact \<Rightarrow> string" where
  "shown_contact p c = (case c_card c of
       Some cd \<Rightarrow> if pc_pq_bundle cd \<noteq> None then hybrid_fingerprint p (c_identity_pub c) (pc_pq_identity_pub cd)
                 else fingerprint (c_identity_pub c)
     | None \<Rightarrow> fingerprint (c_identity_pub c))"

definition own_fingerprint :: "prims \<Rightarrow> bytes \<Rightarrow> vault_store \<Rightarrow> string result" where
  "own_fingerprint p identity_pk v =
     bindR (derive_pq_identity p (v_seed v)) (\<lambda>kp. Inr (hybrid_fingerprint p identity_pk (pq_public kp)))"

section \<open>Upkeep\<close>

definition maintain_prekeys_here :: "prims \<Rightarrow> world \<Rightarrow> bytes \<Rightarrow> bytes \<Rightarrow> (console, bool) mut" where
  "maintain_prekeys_here p w identity_pk identity_sk =
     bindM (on_store (maintain_prekeys p (wo_upkeep w) identity_pk identity_sk)) (\<lambda>report.
     bindM (if mr_spk_rotated report
            then print (''Signed prekey was older than 30 days; rotated it automatically.'' @ [nl]) else returnM ()) (\<lambda>_.
     bindM (if mr_otpk_added report > 0
            then print (''Only '' @ to_string (mr_otpk_had report) @ '' one-time prekey(s) were left; replenished '' @
              to_string (mr_otpk_added report) @ '' automatically.'' @ [nl]) else returnM ()) (\<lambda>_.
     returnM (mr_changed report))))"

definition expire_skipped_keys_here :: "world \<Rightarrow> (console, bool) mut" where
  "expire_skipped_keys_here w =
     bindM (on_store (\<lambda>v. case vault_expire_skipped_keys (wo_now w) v of (v', n) \<Rightarrow> (v', Inr n))) (\<lambda>dropped.
     bindM (if dropped > 0
            then print (''Dropped '' @ to_string dropped @ '' skipped message key(s) unclaimed for'' @ [nl] @ ''more than '' @
              to_string 7 @ '' days; those messages can no longer be decrypted.'' @ [nl]) else returnM ()) (\<lambda>_.
     returnM (dropped > 0)))"

definition cmd_anchor :: "prims \<Rightarrow> world \<Rightarrow> options \<Rightarrow> (console, unit) mut" where
  "cmd_anchor p w opts =
     bindM (readM (\<lambda>_. require_usb_path w False opts)) (\<lambda>_.
     bindM (open_here p w) (\<lambda>ov.
     if ov_status ov = Protected
     then print (''Rollback protection is already active for this vault on this host.'' @ [nl])
     else
       bindM (on_app (on_host (enroll_rollback_anchor p ov))) (\<lambda>_.
       print (''Rollback protection enrolled for vault '' @ vault_id_text (v_vault_id (ov_store ov)) @ '', generation '' @
         to_string (unat (v_generation (ov_store ov))) @ ''.'' @ [nl]))))"

definition cmd_unlock :: "prims \<Rightarrow> world \<Rightarrow> options \<Rightarrow> (console, unit) mut" where
  "cmd_unlock p w opts =
     bindM (readM (\<lambda>_. require_usb_path w False opts)) (\<lambda>_.
     bindM (open_here p w) (\<lambda>ov.
     bindM (identity_here p) (\<lambda>(identity_pk, identity_sk).
     bindM (maintain_prekeys_here p w identity_pk identity_sk) (\<lambda>maintained.
     bindM (expire_skipped_keys_here w) (\<lambda>expired.
     bindM (if maintained \<or> expired then bindM no_outbox (\<lambda>_. save_here p w ov) else returnM ()) (\<lambda>_.
     bindM (readM (\<lambda>c. own_fingerprint p identity_pk (as_store (co_app c)))) (\<lambda>shown.
     bindM (readM (\<lambda>c. Inr (as_store (co_app c)))) (\<lambda>v.
     print (''Vault unlocked ('' @ to_string (length (v_contacts v)) @ '' contact(s), '' @ to_string (length (v_sessions v)) @
       '' session(s)).'' @ [nl] @ ''Hybrid identity fingerprint:'' @ [nl] @ shown @ [nl])))))))))"

definition cmd_card :: "prims \<Rightarrow> world \<Rightarrow> options \<Rightarrow> (console, unit) mut" where
  "cmd_card p w opts =
     bindM (refuse_if (op_fingerprint_only opts \<and> (op_rotate_spk opts \<or> op_replenish_otpk opts > 0)) BadOptions) (\<lambda>_.
     bindM (readM (\<lambda>_. require_usb_path w False opts)) (\<lambda>_.
     bindM (open_here p w) (\<lambda>ov.
     bindM (identity_here p) (\<lambda>(identity_pk, identity_sk).
     if op_fingerprint_only opts then
       bindM (readM (\<lambda>c. own_fingerprint p identity_pk (as_store (co_app c)))) (\<lambda>shown. print (shown @ [nl]))
     else
     bindM (if op_rotate_spk opts \<or> op_replenish_otpk opts > 0 then no_outbox else returnM ()) (\<lambda>_.
     bindM (if op_rotate_spk opts then on_store (rotate_signed_prekey p (wo_keypair w) (wo_now w) identity_sk)
            else returnM ()) (\<lambda>_.
     bindM (if op_replenish_otpk opts > 0
            then on_store (replenish_one_time_prekeys p (map (wo_otpks w) [0..<op_replenish_otpk opts])) else returnM ()) (\<lambda>_.
     bindM (on_store (resign_stale_prekeys p identity_pk identity_sk)) (\<lambda>resigned.
     bindM (readM (\<lambda>c. let v = as_store (co_app c) in
              if v_signed_prekeys v = [] then Inl (CommandError NoSignedPrekey)
              else Inr (length (v_pq_one_time_prekeys v), v_pq_signed_prekeys v \<noteq> []))) (\<lambda>(pq_before, had_pq_spk).
     bindM (on_store (replenish_pq_prekeys p (wo_now w) (wo_pq_static w) (wo_pq_seeds w) kDefaultOtpkCount)) (\<lambda>_.
     bindM (readM (\<lambda>c. let v = as_store (co_app c) in
              Inr (op_rotate_spk opts \<or> op_replenish_otpk opts > 0 \<or> resigned \<or> \<not> had_pq_spk \<or>
                   length (v_pq_one_time_prekeys v) \<noteq> pq_before \<or> v_generation v = 0))) (\<lambda>must_save.
     bindM (if must_save then no_outbox else returnM ()) (\<lambda>_.
     bindM (readM (\<lambda>c. let v = as_store (co_app c) in
              bindR (derive_pq_identity p (v_seed v)) (\<lambda>pq_identity.
              export_hybrid_card p identity_sk identity_pk pq_identity (last (v_signed_prekeys v)) (v_one_time_prekeys v)
                (last (v_pq_signed_prekeys v)) (v_pq_one_time_prekeys v)))) (\<lambda>card_text.
     bindM (print card_text) (\<lambda>_.
     if must_save then save_here p w ov else returnM ()))))))))))))))"

section \<open>Contacts\<close>

text \<open>A card for a contact that is already saved: the branch of \<open>cmd_add_contact\<close> that replaces it.\<close>

definition kMaxCardText :: nat where "kMaxCardText = 3 * 1024 * 1024"

definition drop_sessions_of :: "nat \<Rightarrow> vault_store \<Rightarrow> vault_store" where
  "drop_sessions_of ci v = v\<lparr>v_sessions := filter (\<lambda>s. s_contact_index s \<noteq> ci) (v_sessions v)\<rparr>"

definition upgrade_contact :: "nat \<Rightarrow> peer_card \<Rightarrow> vault_store \<Rightarrow> vault_store" where
  "upgrade_contact ci cd v = drop_sessions_of ci (v\<lparr>v_contacts := (v_contacts v)[ci := (v_contacts v ! ci)
     \<lparr>c_card := Some cd, c_minimum_suite := pc_maximum_suite cd, c_verified := False\<rparr>]\<rparr>)"

definition new_contact :: "string \<Rightarrow> bytes \<Rightarrow> peer_card \<Rightarrow> contact" where
  "new_contact name identity_pub cd = \<lparr>c_alias = name, c_identity_pub = identity_pub, c_verified = False,
     c_minimum_suite = pc_maximum_suite cd, c_card = Some cd\<rparr>"

definition add_imported :: "string \<Rightarrow> bytes \<Rightarrow> peer_card \<Rightarrow> (vault_store, bool) mut" where
  "add_imported name identity_pub cd v =
     (let alias_index = find_contact v name; identity_index = find_contact_by_identity v identity_pub
      in if alias_index \<noteq> None \<or> identity_index \<noteq> None then
        (if alias_index = None \<or> identity_index = None \<or> alias_index \<noteq> identity_index
           then (v, Inl (CommandError ContactClash))
         else if pc_pq_bundle cd = None then (v, Inl (CommandError UpgradeNeedsHybrid))
         else if \<not> suite_at_least (pc_maximum_suite cd) (c_minimum_suite (v_contacts v ! the alias_index))
           then (v, Inl (CommandError CardDowngrade))
         else (upgrade_contact (the alias_index) cd v, Inr True))
      else if contact_alias_problem name \<noteq> None then (v, Inl (CommandError AliasRefused))
      else (v\<lparr>v_contacts := v_contacts v @ [new_contact name identity_pub cd]\<rparr>, Inr False))"

definition cmd_add_contact :: "prims \<Rightarrow> world \<Rightarrow> options \<Rightarrow> (console, unit) mut" where
  "cmd_add_contact p w opts =
     bindM (readM (\<lambda>_. require_usb_path w False opts)) (\<lambda>_.
     bindM (readM (\<lambda>_. require_value w (op_name opts) ''Contact alias: '')) (\<lambda>name.
     bindM (readM (\<lambda>_. if op_card_file opts = [] then read_bounded (wo_stdin w) kMaxCardText
                       else read_file_text (wo_card_file w) kMaxCardText)) (\<lambda>card_text.
     bindM (readM (\<lambda>_. import_card p card_text)) (\<lambda>(identity_pub, cd).
     bindM (open_here p w) (\<lambda>ov.
     bindM (on_store (add_imported name identity_pub cd)) (\<lambda>upgraded.
     save_and_say p w ov
       (if upgraded then ''Updated '' @ quoted (escape_line_control_chars name) @ '' to a hybrid identity and closed its legacy session.'' @ [nl] @
          ''The previous verified flag was intentionally cleared. Verify this new safety number out of band:'' @ [nl, nl] @
          hybrid_fingerprint p identity_pub (pc_pq_identity_pub cd) @ [nl]
        else ''Added '' @ quoted name @ ''. Verify this fingerprint with them'' @ [nl] @
          ''over a separate channel (in person, a phone call) before trusting it:'' @ [nl, nl] @
          shown_contact p (new_contact name identity_pub cd) @ [nl, nl] @
          ''Then run `'' @ kProgram @ '' trust --usb-path <dir> '' @ name @ ''`.'' @ [nl])))))))"

definition contact_listing :: "prims \<Rightarrow> vault_store \<Rightarrow> nat \<Rightarrow> string" where
  "contact_listing p v i = (let c = v_contacts v ! i in
     escape_line_control_chars (c_alias c) @ (if c_verified c then '' [verified]'' else '' [unverified]'') @
     (if find_session v i \<noteq> None then '' [session established]'' else '' [no session yet]'') @ [nl] @
     shown_contact p c @ [nl, nl])"

definition cmd_contacts :: "prims \<Rightarrow> world \<Rightarrow> options \<Rightarrow> (console, unit) mut" where
  "cmd_contacts p w opts =
     bindM (readM (\<lambda>_. require_usb_path w False opts)) (\<lambda>_.
     bindM (open_here p w) (\<lambda>ov.
     bindM (readM (\<lambda>c. Inr (as_store (co_app c)))) (\<lambda>v.
     if v_contacts v = [] then print (''No contacts yet.'' @ [nl])
     else print (concat (map (contact_listing p v) [0..<length (v_contacts v)])))))"

text \<open>The fingerprint on one line, as it is shown and compared.\<close>

definition flattened :: "string \<Rightarrow> string" where
  "flattened s = map (\<lambda>c. if c = nl then CHR '' '' else c) s"

definition confirm_trust :: "world \<Rightarrow> options \<Rightarrow> unit result" where
  "confirm_trust w opts =
     (if op_confirmed opts then Inr ()
      else if \<not> wo_tty w then Inl (CommandError NeedsTerminal)
      else if \<not> wo_confirm w then Inl (CommandError NotConfirmed)
      else Inr ())"

definition mark_verified :: "nat \<Rightarrow> vault_store \<Rightarrow> vault_store" where
  "mark_verified ci v = v\<lparr>v_contacts := (v_contacts v)[ci := (v_contacts v ! ci)\<lparr>c_verified := True\<rparr>]\<rparr>"

definition cmd_trust :: "prims \<Rightarrow> world \<Rightarrow> options \<Rightarrow> (console, unit) mut" where
  "cmd_trust p w opts =
     bindM (readM (\<lambda>_. require_usb_path w False opts)) (\<lambda>_.
     bindM (readM (\<lambda>_. require_value w (op_name opts) ''Contact alias: '')) (\<lambda>name.
     bindM (open_here p w) (\<lambda>ov.
     bindM (contact_named name) (\<lambda>ci.
     bindM (readM (\<lambda>c. Inr (v_contacts (as_store (co_app c)) ! ci))) (\<lambda>contact.
     let shown_name = escape_line_control_chars name; shown = flattened (shown_contact p contact) in
     bindM (refuse_if (op_expect_fingerprint opts \<noteq> None \<and> op_expect_fingerprint opts \<noteq> Some shown)
              FingerprintChanged) (\<lambda>_.
     if op_show_fingerprint opts then
       (let answer = ''alias: '' @ shown_name @ [nl] @ ''fingerprint: '' @ shown @ [nl] @ ''verified: '' @
              (if c_verified contact then ''yes'' else ''no'') @ [nl]
        in (\<lambda>c. (emit answer c, if room_for answer c then Inr () else Inl (CommandError OutputFailed))))
     else
     bindM (readM (\<lambda>_. confirm_trust w opts)) (\<lambda>_.
     if c_verified contact then print (quoted shown_name @ '' was already marked as verified.'' @ [nl])
     else
     bindM (on_store (modifyM (mark_verified ci))) (\<lambda>_.
     save_and_say p w ov (quoted shown_name @ '' marked as verified.'' @ [nl])))))))))"

definition cmd_reset_session :: "prims \<Rightarrow> world \<Rightarrow> options \<Rightarrow> (console, unit) mut" where
  "cmd_reset_session p w opts =
     bindM (readM (\<lambda>_. require_usb_path w False opts)) (\<lambda>_.
     bindM (readM (\<lambda>_. require_value w (op_name opts) ''Contact alias: '')) (\<lambda>name.
     bindM (open_here p w) (\<lambda>ov.
     bindM no_outbox (\<lambda>_.
     bindM (contact_named name) (\<lambda>ci.
     bindM (readM (\<lambda>c. of_option (CommandError NoSessionToReset) (find_session (as_store (co_app c)) ci))) (\<lambda>si.
     bindM (refuse_if (\<not> wo_tty w) NeedsTerminal) (\<lambda>_.
     bindM (refuse_if (wo_line w ''Close this session and discard pending/skipped message keys? Type RESET: '' \<noteq> ''RESET'')
              NotConfirmed) (\<lambda>_.
     bindM (on_store (modifyM (\<lambda>v. v\<lparr>v_sessions := erase_at si (v_sessions v)\<rparr>))) (\<lambda>_.
     save_and_say p w ov (''Session with '' @ quoted (escape_control_chars name) @
       '' reset. A fresh authenticated PQ opening is required.'' @ [nl]))))))))))"

text \<open>Sessions name their contact by position: the contact's own session goes, those after it move up.\<close>

definition remove_contact :: "nat \<Rightarrow> vault_store \<Rightarrow> vault_store" where
  "remove_contact ci v =
     (let v1 = drop_sessions_of ci v; v2 = v1\<lparr>v_contacts := erase_at ci (v_contacts v1)\<rparr>
      in v2\<lparr>v_sessions := map (\<lambda>s. if s_contact_index s > ci then s\<lparr>s_contact_index := s_contact_index s - 1\<rparr> else s)
           (v_sessions v2)\<rparr>)"

definition cmd_remove :: "prims \<Rightarrow> world \<Rightarrow> options \<Rightarrow> (console, unit) mut" where
  "cmd_remove p w opts =
     bindM (readM (\<lambda>_. require_usb_path w False opts)) (\<lambda>_.
     bindM (readM (\<lambda>_. require_value w (op_name opts) ''Contact alias: '')) (\<lambda>name.
     bindM (open_here p w) (\<lambda>ov.
     bindM (contact_named name) (\<lambda>ci.
     bindM (refuse_if (\<not> op_assume_yes opts \<and> \<not> wo_tty w) NeedsTerminal) (\<lambda>_.
     bindM (refuse_if (\<not> op_assume_yes opts \<and>
              wo_line w (''Delete '' @ quoted (escape_control_chars name) @ '' and its session keys? Type REMOVE: '') \<noteq> ''REMOVE'')
              NotConfirmed) (\<lambda>_.
     bindM (on_store (modifyM (remove_contact ci))) (\<lambda>_.
     save_and_say p w ov (''Removed '' @ quoted (escape_control_chars name) @ '' and its session.'' @ [nl]))))))))"

section \<open>Messages\<close>

text \<open>What \<open>send\<close> encrypts: the payload, the framed file or the text.\<close>

definition send_plaintext :: "world \<Rightarrow> options \<Rightarrow> string option \<Rightarrow> bytes result" where
  "send_plaintext w opts payload =
     (case payload of Some s \<Rightarrow> Inr (bytes_of_string s)
      | None \<Rightarrow>
          if op_file_path opts \<noteq> [] then
            bindR (ended (load_file (wo_host_file w))) (\<lambda>raw.
            encode_file_payload raw (extension_for (op_file_path opts) raw))
          else
            bindR (read_text_arg_or_stdin w (op_message opts) kMaxPlaintextBytes) (\<lambda>s.
            if s = [] then Inl (CommandError ValueRequired) else Inr (bytes_of_string s)))"

definition cmd_send :: "prims \<Rightarrow> world \<Rightarrow> options \<Rightarrow> (console, unit) mut" where
  "cmd_send p w opts =
     bindM (refuse_if (op_stdin_payload_bytes opts \<noteq> None \<and> op_message opts \<noteq> None) BadOptions) (\<lambda>_.
     bindM (refuse_if (op_stdin_payload_bytes opts \<noteq> None \<and> op_file_path opts \<noteq> []) BadOptions) (\<lambda>_.
     bindM (readM (\<lambda>_. require_known_usb_for_payload w opts)) (\<lambda>_.
     bindM (readM (\<lambda>_. require_usb_path w False opts)) (\<lambda>_.
     bindM (refuse_if (op_stdin_payload_bytes opts \<noteq> None \<and> op_to opts = []) ValueRequired) (\<lambda>_.
     bindM (readM (\<lambda>_. require_value w (op_to opts) ''Send to (contact alias): '')) (\<lambda>to.
     bindM no_outbox (\<lambda>_.
     bindM (refuse_if (op_file_path opts \<noteq> [] \<and> op_message opts \<noteq> None) BadOptions) (\<lambda>_.
     bindM (readM (\<lambda>_. stdin_payload w opts kMaxPlaintextBytes)) (\<lambda>payload.
     bindM (open_here p w) (\<lambda>ov.
     bindM no_outbox (\<lambda>_.
     bindM (contact_named to) (\<lambda>ci.
     bindM (readM (\<lambda>_. send_plaintext w opts payload)) (\<lambda>plaintext.
     bindM (identity_here p) (\<lambda>(identity_pk, identity_sk).
     bindM (on_store (send p (wo_send w) identity_sk identity_pk ci plaintext)) (\<lambda>block.
     commit_block p (wo_answers w) (ov_params ov) (ov_passphrase ov) block)))))))))))))))"

fun contacts_named :: "string list \<Rightarrow> (console, nat list) mut" where
  "contacts_named [] = returnM []"
| "contacts_named (m # ms) = bindM (contact_named m) (\<lambda>i. bindM (contacts_named ms) (\<lambda>ins. returnM (i # ins)))"

definition group_plaintext :: "world \<Rightarrow> options \<Rightarrow> string option \<Rightarrow> bytes result" where
  "group_plaintext w opts payload =
     (case payload of Some s \<Rightarrow> Inr (bytes_of_string s)
      | None \<Rightarrow> bindR (read_text_arg_or_stdin w (op_message opts) kMaxPlaintextBytes) (\<lambda>s.
          if s = [] then Inl (CommandError ValueRequired) else Inr (bytes_of_string s)))"

definition cmd_group_send :: "prims \<Rightarrow> world \<Rightarrow> options \<Rightarrow> (console, unit) mut" where
  "cmd_group_send p w opts =
     bindM (refuse_if (length (op_group_members opts) < 2) BadOptions) (\<lambda>_.
     bindM (refuse_if (length (op_group_members opts) > kMaxMembers) BadOptions) (\<lambda>_.
     bindM (refuse_if (op_stdin_payload_bytes opts \<noteq> None \<and> op_message opts \<noteq> None) BadOptions) (\<lambda>_.
     bindM (readM (\<lambda>_. require_known_usb_for_payload w opts)) (\<lambda>_.
     bindM (readM (\<lambda>_. require_usb_path w False opts)) (\<lambda>_.
     bindM no_outbox (\<lambda>_.
     bindM (readM (\<lambda>_. stdin_payload w opts kMaxPlaintextBytes)) (\<lambda>payload.
     bindM (open_here p w) (\<lambda>ov.
     bindM no_outbox (\<lambda>_.
     bindM (contacts_named (op_group_members opts)) (\<lambda>indices.
     bindM (readM (\<lambda>_. group_plaintext w opts payload)) (\<lambda>plaintext.
     bindM (identity_here p) (\<lambda>(identity_pk, identity_sk).
     bindM (on_store (group_send p (wo_group_send w) identity_sk identity_pk indices plaintext)) (\<lambda>block.
     commit_block p (wo_answers w) (ov_params ov) (ov_passphrase ov) block)))))))))))))"

section \<open>Receiving\<close>

definition kMaxBlockText :: nat where "kMaxBlockText = 12 * 1024 * 1024"

definition block_text :: "world \<Rightarrow> options \<Rightarrow> string result" where
  "block_text w opts =
     (if op_stdin_payload_bytes opts \<noteq> None
      then bindR (stdin_payload w opts kMaxBlockText) (\<lambda>s. Inr (the s))
      else read_text_arg_or_stdin w (op_message opts) kMaxBlockText)"

definition receive_block :: "prims \<Rightarrow> world \<Rightarrow> bytes \<Rightarrow> bytes \<Rightarrow> string \<Rightarrow> (vault_store, receive_result) mut" where
  "receive_block p w identity_sk identity_pk block =
     (if looks_like_group block then
        bindM (group_receive p (wo_group_now w) (wo_group_receive w) identity_sk identity_pk block) (\<lambda>r.
        returnM \<lparr>rr_contact_index = gr_contact_index r, rr_alias = gr_alias r, rr_plaintext = gr_plaintext r,
                 rr_session_established = False\<rparr>)
      else receive p (wo_receive w) identity_sk identity_pk block)"

definition open_in_file_manager :: "world \<Rightarrow> file_payload \<Rightarrow> unit result" where
  "open_in_file_manager w f =
     bindR (ended (stage_file (wo_staging w) f)) (\<lambda>_.
     if wo_opener w then Inr () else Inl (FileError FileCallFailed))"

text \<open>What becomes of a received file; the path if it was staged for a front end.\<close>

definition show_received_file :: "world \<Rightarrow> options \<Rightarrow> file_payload \<Rightarrow> (console, string option) mut" where
  "show_received_file w opts f =
     (if is_dangerous_extension (fp_ext f) then returnM None
      else if op_stage_received opts then
        (case stage_file (wo_staging w) f of
           None \<Rightarrow> throwM (DriveError ProcessKilled)
         | Some (Inl e) \<Rightarrow> returnM None
         | Some (Inr (path, bs)) \<Rightarrow>
             bindM (if op_structured_output opts then returnM () else print (path @ [nl])) (\<lambda>_. returnM (Some path)))
      else if wo_tty w \<and> affirmed (wo_line w (''Show the .'' @ fp_ext f @
           '' file in a temporary folder (removed when ratchet-usb closes)? [y/N] ''))
        then bindM (readM (\<lambda>_. open_in_file_manager w f)) (\<lambda>_. returnM None)
      else returnM None)"

definition show_received :: "world \<Rightarrow> options \<Rightarrow> string \<Rightarrow> bytes \<Rightarrow> (console, recv_result) mut" where
  "show_received w opts alias plaintext =
     bindM (readM (\<lambda>_. decode_file_payload plaintext)) (\<lambda>received.
     case received of
       Some f \<Rightarrow> bindM (show_received_file w opts f) (\<lambda>staged.
         returnM \<lparr>rx_kind = kRecvFile, rx_ext = fp_ext f, rx_staged = staged \<noteq> None,
                  rx_path = (case staged of Some path \<Rightarrow> path | None \<Rightarrow> [])\<rparr>)
     | None \<Rightarrow>
         (let body = string_of_bytes plaintext in
          bindM (print (alias @ '': '' @
              (if op_structured_output opts then write_body_escaped (escape_control_chars body)
               else if wo_out_tty w then escape_control_chars body else body) @ [nl])) (\<lambda>_.
          returnM \<lparr>rx_kind = kRecvText, rx_ext = [], rx_staged = False, rx_path = []\<rparr>)))"

definition cmd_recv :: "prims \<Rightarrow> world \<Rightarrow> options \<Rightarrow> (console, unit) mut" where
  "cmd_recv p w opts =
     bindM (refuse_if (op_stdin_payload_bytes opts \<noteq> None \<and> op_message opts \<noteq> None) BadOptions) (\<lambda>_.
     bindM (readM (\<lambda>_. require_known_usb_for_payload w opts)) (\<lambda>_.
     bindM (readM (\<lambda>_. require_usb_path w False opts)) (\<lambda>_.
     bindM (readM (\<lambda>_. block_text w opts)) (\<lambda>block.
     bindM (refuse_if (looks_like_group block \<and> op_structured_output opts) BadOptions) (\<lambda>_.
     bindM (open_here p w) (\<lambda>ov.
     bindM no_outbox (\<lambda>_.
     bindM (identity_here p) (\<lambda>(identity_pk, identity_sk).
     bindM (on_store (receive_block p w identity_sk identity_pk block)) (\<lambda>r.
     bindM (save_here p w ov) (\<lambda>_.
     bindM (show_received w opts (escape_line_control_chars (rr_alias r)) (rr_plaintext r)) (\<lambda>result.
     if op_structured_output opts
     then (case write_recv_result result of None \<Rightarrow> returnM () | Some t \<Rightarrow> print t)
     else returnM ())))))))))))"

section \<open>The vault itself\<close>

definition cmd_passphrase :: "prims \<Rightarrow> world \<Rightarrow> options \<Rightarrow> (console, unit) mut" where
  "cmd_passphrase p w opts =
     bindM (readM (\<lambda>_. require_usb_path w False opts)) (\<lambda>_.
     bindM (open_here p w) (\<lambda>ov.
     bindM no_outbox (\<lambda>_.
     bindM (readM (\<lambda>_. generate_passphrase (wo_uniform w) (op_passphrase_words opts))) (\<lambda>next_phrase.
     if \<not> wo_confirm w then
       bindM (print (i18n_t En ''PassphraseCancelled'' @ [nl])) (\<lambda>_.
       if op_structured_output opts then
         write_structured_or_throw \<lparr>gu_command = ''passphrase'', gu_status = ''cancelled'', gu_source = [],
           gu_passphrase = [], gu_passphrase_words = 0, gu_recovery = [], gu_recovery_words = 0\<rparr>
       else returnM ())
     else
     bindM no_outbox (\<lambda>_.
     bindM (on_app (rekey_vault p (wo_rekey w) kVaultFilename (ov_params ov) (bytes_of_string next_phrase))) (\<lambda>_.
     bindM (print (i18n_t En ''PassphraseChanged'' @ [nl])) (\<lambda>_.
     if op_structured_output opts then
       write_structured_or_throw \<lparr>gu_command = ''passphrase'', gu_status = ''ok'', gu_source = [],
         gu_passphrase = next_phrase, gu_passphrase_words = op_passphrase_words opts, gu_recovery = [],
         gu_recovery_words = 0\<rparr>
     else returnM ())))))))"

text \<open>\<open>print_word_grid\<close>: numbered words in rows of four.\<close>

fun words_between :: "string \<Rightarrow> string list" where
  "words_between [] = [[]]"
| "words_between (c # cs) =
     (if c = CHR '' '' then [] # words_between cs
      else (case words_between cs of w # ws \<Rightarrow> (c # w) # ws | [] \<Rightarrow> [[c]]))"

definition grid_cell :: "nat \<Rightarrow> string \<Rightarrow> string" where
  "grid_cell index word = to_string index @ ''. '' @ word @
     replicate (16 - ((if index < 10 then 1 else 2) + 2 + length word)) (CHR '' '')"

fun grid_rows :: "nat \<Rightarrow> string list \<Rightarrow> string" where
  "grid_rows index [] = []"
| "grid_rows index (w # ws) =
     ''  '' @ concat (map (\<lambda>k. grid_cell (index + k) ((w # ws) ! k)) [0..<min 4 (length (w # ws))]) @ [nl] @
     grid_rows (index + 4) (drop 3 ws)"

definition word_grid :: "string \<Rightarrow> string \<Rightarrow> string \<Rightarrow> string" where
  "word_grid phrase heading note =
     [nl] @ heading @ [nl, nl] @ grid_rows 1 (words_between phrase) @ [nl] @ note @ [nl, nl]"

text \<open>A new vault: its identity from the entropy, a signed prekey and the two pools.\<close>

definition empty_store :: vault_store where
  "empty_store = \<lparr>v_vault_id = replicate 16 0, v_generation = 0, v_previous_digest = replicate 32 0,
     v_seed = replicate 32 0, v_next_spk_id = 1, v_signed_prekeys = [], v_next_otpk_id = 1, v_one_time_prekeys = [],
     v_next_pq_prekey_id = 1, v_pq_signed_prekeys = [], v_pq_one_time_prekeys = [], v_contacts = [], v_sessions = [],
     v_accepted_handshakes = []\<rparr>"

definition new_vault :: "prims \<Rightarrow> world \<Rightarrow> nat \<Rightarrow> bytes \<Rightarrow> vault_store result" where
  "new_vault p w otpk_count entropy =
     (let v = empty_store\<lparr>v_vault_id := wo_vault_id w, v_generation := 1, v_seed := derive_master_seed p entropy\<rparr>
      in bindR (derive_identity p (v_seed v)) (\<lambda>(identity_pk, identity_sk).
         bindR (generate_signed_prekey p (wo_keypair w) (wo_now w) identity_sk (v_next_spk_id v)) (\<lambda>k.
         let v = v\<lparr>v_signed_prekeys := [k], v_next_spk_id := v_next_spk_id v + 1\<rparr>
         in bindR (generate_one_time_prekeys p (map (wo_otpks w) [0..<otpk_count]) (v_next_otpk_id v)) (\<lambda>ks.
            let v = v\<lparr>v_one_time_prekeys := ks, v_next_otpk_id := v_next_otpk_id v + word_of_nat otpk_count\<rparr>
            in case replenish_pq_prekeys p (wo_now w) (wo_pq_static w) (wo_pq_seeds w) otpk_count v of
                 (v', Inl e) \<Rightarrow> Inl e
               | (v', Inr _) \<Rightarrow> Inr v'))))"

definition init_entropy :: "prims \<Rightarrow> world \<Rightarrow> options \<Rightarrow> (console, bytes \<times> string) mut" where
  "init_entropy p w opts =
     (if op_from_mnemonic opts then
        bindM (readM (\<lambda>_. decode_mnemonic p (wo_mnemonic w))) (\<lambda>entropy.
        bindM (print ([nl] @ ''Mnemonic verified. Rebuilding the identity from it -- this'' @ [nl] @
          ''vault starts with no contacts or chat history; those only'' @ [nl] @
          ''ever lived in the old vault.bin, never in the words.'' @ [nl, nl])) (\<lambda>_.
        returnM (entropy, [])))
      else
        (let recovery = encode_mnemonic p (wo_entropy w) in
         bindM (if op_structured_output opts then returnM ()
                else print (word_grid recovery (i18n_t En ''RecoveryHeading'') (i18n_t En ''RecoveryNote''))) (\<lambda>_.
         returnM (wo_entropy w, recovery))))"

definition cmd_init :: "prims \<Rightarrow> world \<Rightarrow> options \<Rightarrow> (console, unit) mut" where
  "cmd_init p w opts =
     bindM (readM (\<lambda>_. require_usb_path w True opts)) (\<lambda>usb.
     bindM (readM (\<lambda>c. if \<not> op_force opts \<and> as_dir (co_app c) kVaultFilename \<noteq> None
                       then Inl (CommandError VaultExists) else Inr ())) (\<lambda>_.
     bindM (init_entropy p w opts) (\<lambda>(entropy, recovery).
     bindM (readM (\<lambda>_. new_vault p w (op_otpk_count opts) entropy)) (\<lambda>v.
     bindM (readM (\<lambda>_. generate_passphrase (wo_uniform w) (op_passphrase_words opts))) (\<lambda>phrase.
     bindM (readM (\<lambda>_. bindR (serialize v) (\<lambda>plaintext.
              seal p (ss_salt (an_save (wo_answers w))) (ss_nonce (an_save (wo_answers w))) plaintext (bytes_of_string phrase)
                (op_params opts) kWordVersion))) (\<lambda>vault_bytes.
     bindM (on_app (\<lambda>st. let t = write_file (ss_write (an_save (wo_answers w))) kVaultFilename vault_bytes (op_force opts) (as_dir st)
              in (st\<lparr>as_dir := left_by (as_dir st) t\<rparr>, ended (snd t)))) (\<lambda>_.
     bindM (on_app (discard_pending_outbox (an_unlink (wo_answers w)))) (\<lambda>_.
     bindM (on_store (modifyM (\<lambda>_. v))) (\<lambda>_.
     bindM (readM (\<lambda>_. bindR (derive_identity p (v_seed v)) (\<lambda>(identity_pk, identity_sk). own_fingerprint p identity_pk v))) (\<lambda>shown.
     bindM (print ([nl] @ ''Vault written to '' @ usb @ ''/'' @ kVaultFilename @ [nl] @ ''Hybrid identity fingerprint:'' @ [nl] @
       shown @ [nl, nl] @ ''Run `'' @ kProgram @ '' anchor --usb-path <dir>` to enroll host rollback protection,'' @ [nl] @
       ''then `'' @ kProgram @ '' card --usb-path <dir>` to get the contact card to share.'' @ [nl])) (\<lambda>_.
     if op_structured_output opts then
       write_structured_or_throw \<lparr>gu_command = ''init'', gu_status = ''ok'',
         gu_source = (if op_from_mnemonic opts then ''mnemonic'' else ''generated''), gu_passphrase = phrase,
         gu_passphrase_words = op_passphrase_words opts, gu_recovery = recovery,
         gu_recovery_words = (if op_from_mnemonic opts then 0 else kWordCount)\<rparr>
     else returnM ())))))))))))"

section \<open>Migration\<close>

definition legacy_only :: "vault_store \<Rightarrow> vault_store" where
  "legacy_only v = v\<lparr>v_sessions := map (\<lambda>s. s\<lparr>s_legacy_read_only := True, s_suite := ClassicV2\<rparr>) (v_sessions v)\<rparr>"

definition read_prepared :: "prims \<Rightarrow> world \<Rightarrow> bytes \<Rightarrow> (console, bytes \<times> vault_store) mut" where
  "read_prepared p w pw =
     readM (\<lambda>c. bindR (ended (read_file (an_reread (wo_answers w)) kPreparedVaultFilename (as_dir (co_app c)))) (\<lambda>bs.
       bindR (parse_header bs) (\<lambda>h.
       if vh_version h \<noteq> kVersion then Inl (CommandError PreparedVersion) else
       bindR (unseal p bs pw) (\<lambda>plaintext.
       bindR (store_parse p (wo_now w) plaintext) (\<lambda>v. Inr (bs, v))))))"

definition prepare_migration :: "prims \<Rightarrow> world \<Rightarrow> string \<Rightarrow> opened_vault \<Rightarrow> (console, unit) mut" where
  "prepare_migration p w usb legacy =
     bindM (readM (\<lambda>c. if as_dir (co_app c) kPreparedVaultFilename \<noteq> None
                       then Inl (CommandError PreparedExists) else Inr ())) (\<lambda>_.
     bindM (on_store (modifyM legacy_only)) (\<lambda>_.
     bindM (on_store (replenish_pq_prekeys p (wo_now w) (wo_pq_static w) (wo_pq_seeds w) kDefaultOtpkCount)) (\<lambda>_.
     bindM (on_app (save_vault p (an_save (wo_answers w)) kPreparedVaultFilename (ov_params legacy) (ov_passphrase legacy))) (\<lambda>_.
     bindM (read_prepared p w (ov_passphrase legacy)) (\<lambda>(bs, verified).
     bindM (readM (\<lambda>c. if v_vault_id verified \<noteq> v_vault_id (as_store (co_app c)) \<or>
                          v_generation verified \<noteq> v_generation (as_store (co_app c))
                       then Inl (CommandError PreparedCheck) else Inr ())) (\<lambda>_.
     print (''Migration prepared and cryptographically verified at '' @ usb @ ''/'' @ kPreparedVaultFilename @ ''.'' @ [nl] @
       ''Messaging is blocked until you run `'' @ kProgram @ '' migrate --commit --usb-path '' @ usb @ ''`.'' @ [nl])))))))"

text \<open>The anchor of the promoted vault.\<close>

definition anchor_migrated :: "prims \<Rightarrow> bool \<Rightarrow> opened_vault \<Rightarrow> vault_store \<Rightarrow> bytes \<Rightarrow> (host, unit) mut" where
  "anchor_migrated p legacy_has_id legacy migrated promoted_digest h =
     (if \<not> h_backend h then (h, Inr ())
      else if legacy_has_id then
        bindM (readM (load_anchor p (v_vault_id migrated))) (\<lambda>anchor.
          case anchor of
            Some a \<Rightarrow> bindM (readM (\<lambda>_. validate p a (ov_store legacy) (ov_digest legacy))) (\<lambda>_.
              store_anchor p (new_anchor (v_vault_id migrated) (v_generation migrated) promoted_digest) (v_seed migrated))
          | None \<Rightarrow> enroll p migrated promoted_digest) h
      else enroll p migrated promoted_digest h)"

definition commit_migration :: "prims \<Rightarrow> world \<Rightarrow> opened_vault \<Rightarrow> (console, unit) mut" where
  "commit_migration p w legacy =
     (let old = ov_store legacy; legacy_has_id = list_ex (\<lambda>b. b \<noteq> 0) (v_vault_id old) in
     bindM (readM (\<lambda>c. if as_dir (co_app c) kPreparedVaultFilename = None
                       then Inl (CommandError NoPrepared) else Inr ())) (\<lambda>_.
     bindM (read_prepared p w (ov_passphrase legacy)) (\<lambda>(bs, migrated).
     bindM (refuse_if (legacy_has_id \<and> v_vault_id migrated \<noteq> v_vault_id old) PreparedIdentity) (\<lambda>_.
     bindM (readM (\<lambda>_. derive_identity p (v_seed old))) (\<lambda>(legacy_pk, legacy_sk).
     bindM (readM (\<lambda>_. derive_identity p (v_seed migrated))) (\<lambda>(migrated_pk, migrated_sk).
     bindM (refuse_if (legacy_pk \<noteq> migrated_pk) PreparedIdentity) (\<lambda>_.
     bindM (refuse_if (v_generation migrated \<le> v_generation old) PreparedGeneration) (\<lambda>_.
     bindM no_outbox (\<lambda>_.
     bindM (on_app (promote_vault (wo_promote w) kPreparedVaultFilename kVaultFilename)) (\<lambda>_.
     bindM (on_app (on_host (anchor_migrated p legacy_has_id legacy migrated (vault_digest p bs)))) (\<lambda>_.
     print (''Migration committed atomically. Legacy sessions are read-only; import post-quantum cards before sending.'' @ [nl] @
       ''The old vault file was removed, but physical erasure cannot be guaranteed on flash storage.'' @ [nl]))))))))))))"

definition cmd_migrate :: "prims \<Rightarrow> world \<Rightarrow> options \<Rightarrow> (console, unit) mut" where
  "cmd_migrate p w opts =
     bindM (readM (\<lambda>_. require_usb_path w False opts)) (\<lambda>usb.
     bindM (readM (\<lambda>c. read_vault p (an_read (wo_answers w)) kVaultFilename (as_dir (co_app c)))) (\<lambda>legacy_file.
     bindM (refuse_if (vh_version (vf_header legacy_file) \<noteq> kLegacyVersion) NotLegacy) (\<lambda>_.
     bindM (readM (\<lambda>_. an_pass (wo_answers w) False)) (\<lambda>pw.
     bindM (on_app (on_host (open_vault p (an_now (wo_answers w)) legacy_file pw True))) (\<lambda>legacy.
     bindM (on_store (modifyM (\<lambda>_. ov_store legacy))) (\<lambda>_.
     if \<not> op_commit opts then prepare_migration p w usb legacy else commit_migration p w legacy))))))"

section \<open>Dispatch\<close>

text \<open>\<open>run\<close>. The terminal interface, \<open>cmd_ui\<close>, is an argument.\<close>

definition run_command :: "prims \<Rightarrow> world \<Rightarrow> (options \<Rightarrow> (console, unit) mut) \<Rightarrow> options \<Rightarrow> (console, unit) mut" where
  "run_command p w cmd_ui opts =
     (let command = op_command opts in
      if command = ''help'' then print usage_text
      else if command = ''version'' then print (kProgram @ '' '' @ kProgramVersion @ [nl])
      else if command = ''init'' then cmd_init p w opts
      else if command = ''unlock'' then cmd_unlock p w opts
      else if command = ''passphrase'' then cmd_passphrase p w opts
      else if command = ''anchor'' then cmd_anchor p w opts
      else if command = ''migrate'' then cmd_migrate p w opts
      else if command = ''card'' then cmd_card p w opts
      else if command = ''add'' then cmd_add_contact p w opts
      else if command = ''contacts'' then cmd_contacts p w opts
      else if command = ''trust'' then cmd_trust p w opts
      else if command = ''reset-session'' then cmd_reset_session p w opts
      else if command = ''remove'' then cmd_remove p w opts
      else if command = ''send'' then cmd_send p w opts
      else if command = ''group-send'' then cmd_group_send p w opts
      else if command = ''outbox'' then bindM (readM (\<lambda>_. require_usb_path w False opts)) (\<lambda>_. cmd_outbox p (wo_answers w))
      else if command = ''recv'' then cmd_recv p w opts
      else if command = ''ui'' then cmd_ui opts
      else throwM (CommandError BadOptions))"

end
