(* ===== verification/Commands_Props.thy ===== *)
theory Commands_Props
  imports Commands First_Message
begin

text \<open>
  What the commands promise. \<open>settles\<close> describes a computation that may save the vault: either nothing it reports or
  writes has changed, or the vault file is a complete container of the vault in memory; its rules follow the bodies of
  the commands.
\<close>

section \<open>Saving\<close>

definition holds :: "prims \<Rightarrow> bytes \<Rightarrow> dir \<Rightarrow> vault_store \<Rightarrow> bool" where
  "holds p pw d v \<longleftrightarrow> (\<exists>bs plain. d kVaultFilename = Some (fresh_entry bs) \<and> unseal p bs pw = Inr plain \<and>
     serialize v = Inr plain)"

lemma save_vault_holds:
  assumes laws: "aead_law p" "argon2_law p" and ok: "script_ok sc"
    and sv: "save_vault p sc kVaultFilename pr pw st = (st', r)"
  shows "as_dir st' kVaultFilename = as_dir st kVaultFilename \<and> r \<noteq> Inr () \<or> holds p pw (as_dir st') (as_store st')"
proof -
  let ?st0 = "st\<lparr>as_store := fill_vault_id (ss_vault_id sc) (as_store st)\<rparr>"
  let ?prev = "\<lambda>st. if as_dir st kVaultFilename \<noteq> None then check_previous p sc kVaultFilename st else (st, Inr (kVersion, None))"
  obtain st1 q where pv: "?prev ?st0 = (st1, q)"
    by fastforce
  have d: "as_dir st1 = as_dir st"
    using pv check_previous_cases [of p sc kVaultFilename ?st0 st1 q] by (auto split: if_splits)
  show ?thesis
  proof (cases "\<exists>version anchor. q = Inr (version, anchor) \<and> v_generation (as_store st1) \<noteq> -1")
    case False
    then have "as_dir st' = as_dir st \<and> r \<noteq> Inr ()"
      using sv pv d unfolding save_vault_def by (cases q) (auto simp: bindM_def split: if_splits)
    then show ?thesis
      by simp
  next
    case True
    then obtain version anchor where q: "q = Inr (version, anchor)" "v_generation (as_store st1) \<noteq> -1"
      by blast
    let ?st2 = "bump_generation st1"
    have w: "seal_and_write p sc kVaultFilename pr pw version (anchor \<noteq> None) ?st2 = (st', r)"
      using sv pv q unfolding save_vault_def by (simp add: bindM_def)
    have d2: "as_dir ?st2 = as_dir st"
      by (simp add: bump_generation_def d)
    show ?thesis
    proof (cases "bindR (serialize (as_store ?st2)) (\<lambda>m. seal p (ss_salt sc) (ss_nonce sc) m pw pr version)")
      case (Inl e)
      then have "st' = ?st2" "r = Inl e"
        using w by (auto simp: seal_and_write_def bindM_read split: sum.splits)
      then show ?thesis
        by (simp add: d2)
    next
      case (Inr sealed)
      then obtain m where m: "serialize (as_store ?st2) = Inr m" "seal p (ss_salt sc) (ss_nonce sc) m pw pr version = Inr sealed"
        by (auto simp: bindR_eq_Inr)
      obtain st3 r3 where w3: "write_vault (ss_write sc) kVaultFilename sealed ?st2 = (st3, r3)"
        by fastforce
      have s3: "as_store st3 = as_store ?st2"
        using w3 by (auto simp: write_vault_def Let_def)
      have rest: "r3 \<noteq> Inr () \<longrightarrow> st' = st3 \<and> r \<noteq> Inr ()" "as_store st' = as_store st3 \<and> as_dir st' = as_dir st3"
      proof -
        have e: "seal_and_write p sc kVaultFilename pr pw version (anchor \<noteq> None) ?st2 =
            (case r3 of Inl e \<Rightarrow> (st3, Inl e) | Inr _ \<Rightarrow>
              if anchor = None then (st3, Inr ()) else anchor_now p (vault_digest p sealed) st3)"
          using m w3 by (auto simp: seal_and_write_def bindM_read bindM_def split: sum.splits)
        then show "r3 \<noteq> Inr () \<longrightarrow> st' = st3 \<and> r \<noteq> Inr ()"
          using w by (auto split: sum.splits)
        have "preserves (\<lambda>st. (as_store st, as_dir st)) (anchor_now p dg)" for dg
          using on_host_frame unfolding anchor_now_def preserves_def by blast
        then show "as_store st' = as_store st3 \<and> as_dir st' = as_dir st3"
          using e w by (auto split: sum.splits if_splits dest: preservesD)
      qed
      have "as_dir st3 kVaultFilename = as_dir ?st2 kVaultFilename \<and> r3 \<noteq> Inr () \<or>
          as_dir st3 kVaultFilename = Some (fresh_entry sealed) \<and> length sealed \<le> kMaxVaultBytes"
        using write_vault_left [OF w3] by blast
      then show ?thesis
      proof (elim disjE conjE)
        assume f: "as_dir st3 kVaultFilename = Some (fresh_entry sealed)" "length sealed \<le> kMaxVaultBytes"
        have "unseal p sealed pw = Inr m"
          using seal_unseal [OF laws _ _ m(2) f(2)] ok by (simp add: script_ok_def)
        then show ?thesis
          using f(1) m(1) rest(2) s3 by (auto simp: holds_def)
      qed (use rest d2 in auto)
    qed
  qed
qed

section \<open>Computations that may save\<close>

text \<open>
  \<open>F\<close> is what stays as it is while nothing has been saved; \<open>strict\<close>: success means saved.
\<close>

definition saved :: "prims \<Rightarrow> answers \<Rightarrow> console \<Rightarrow> bool" where
  "saved p an c \<longleftrightarrow> (\<exists>pw b. an_pass an b = Inr pw \<and> holds p pw (as_dir (co_app c)) (as_store (co_app c)))"

definition settles :: "prims \<Rightarrow> answers \<Rightarrow> (console \<Rightarrow> 'f) \<Rightarrow> bool \<Rightarrow> (console, 'a) mut \<Rightarrow> bool" where
  "settles p an F strict m \<longleftrightarrow> (\<forall>c c' r. m c = (c', r) \<longrightarrow>
     F c' = F c \<and> (strict \<longrightarrow> (\<forall>x. r \<noteq> Inr x)) \<or> saved p an c')"

definition vault_of :: "console \<Rightarrow> dir_entry option" where
  "vault_of c = as_dir (co_app c) kVaultFilename"

definition vault_and_store :: "console \<Rightarrow> dir_entry option \<times> vault_store" where
  "vault_and_store c = (vault_of c, as_store (co_app c))"

definition vault_and_out :: "console \<Rightarrow> dir_entry option \<times> string" where
  "vault_and_out c = (vault_of c, co_out c)"

lemma settlesI:
  "(\<And>c c' r. m c = (c', r) \<Longrightarrow> F c' = F c \<and> (strict \<longrightarrow> (\<forall>x. r \<noteq> Inr x)) \<or> saved p an c') \<Longrightarrow> settles p an F strict m"
  by (simp add: settles_def)

lemma saved_same: "vault_and_store c' = vault_and_store c \<Longrightarrow> saved p an c \<Longrightarrow> saved p an c'"
  by (auto simp: saved_def holds_def vault_and_store_def vault_of_def)

lemma settles_bind:
  assumes "preserves F m" and "\<And>c c' x. m c = (c', Inr x) \<Longrightarrow> settles p an F strict (f x)"
  shows "settles p an F strict (bindM m f)"
proof (rule settlesI)
  fix c c' r assume b: "bindM m f c = (c', r)"
  obtain c1 r1 where m: "m c = (c1, r1)"
    by fastforce
  have F: "F c1 = F c"
    by (rule preservesD [OF assms(1) m])
  show "F c' = F c \<and> (strict \<longrightarrow> (\<forall>x. r \<noteq> Inr x)) \<or> saved p an c'"
  proof (cases r1)
    case (Inl e)
    then show ?thesis
      using b m F by (auto simp: bindM_def)
  next
    case (Inr x)
    then have "f x c1 = (c', r)"
      using b m by (simp add: bindM_def)
    then show ?thesis
      using assms(2) [OF m [unfolded Inr], unfolded settles_def, rule_format, of c1 c' r] F by auto
  qed
qed

lemma settles_tail:
  assumes "settles p an F strict m" and "\<And>x. preserves vault_and_store (f x)" and "\<not> strict \<Longrightarrow> (\<And>x. preserves F (f x))"
  shows "settles p an F strict (bindM m f)"
proof (rule settlesI)
  fix c c' r assume b: "bindM m f c = (c', r)"
  obtain c1 r1 where m: "m c = (c1, r1)"
    by fastforce
  have s: "F c1 = F c \<and> (strict \<longrightarrow> (\<forall>x. r1 \<noteq> Inr x)) \<or> saved p an c1"
    using assms(1) m by (auto simp: settles_def)
  show "F c' = F c \<and> (strict \<longrightarrow> (\<forall>x. r \<noteq> Inr x)) \<or> saved p an c'"
  proof (cases r1)
    case (Inl e)
    then show ?thesis
      using b m s by (auto simp: bindM_def)
  next
    case (Inr x)
    then have fx: "f x c1 = (c', r)"
      using b m by (simp add: bindM_def)
    have "saved p an c1 \<Longrightarrow> saved p an c'"
      by (rule saved_same [OF preservesD [OF assms(2) fx]])
    moreover have "\<not> strict \<Longrightarrow> F c' = F c1"
      by (rule preservesD [OF assms(3) fx])
    ultimately show ?thesis
      using s Inr by auto
  qed
qed

lemma settles_quiet: "preserves F m \<Longrightarrow> settles p an F False m"
  by (rule settlesI) (use preservesD in fastforce)

lemma settles_throw: "settles p an F strict (throwM e)"
  by (rule settlesI) simp

lemma settles_if: "(b \<Longrightarrow> settles p an F strict m) \<Longrightarrow> (\<not> b \<Longrightarrow> settles p an F strict m') \<Longrightarrow> settles p an F strict (if b then m else m')"
  by simp

lemma settles_prod: "(\<And>a b. x = (a, b) \<Longrightarrow> settles p an F strict (f a b)) \<Longrightarrow> settles p an F strict (case x of (a, b) \<Rightarrow> f a b)"
  by (cases x) simp

text \<open>Steps that leave the drive alone.\<close>

definition surface :: "console \<Rightarrow> dir \<times> string \<times> nat option" where
  "surface c = (as_dir (co_app c), co_out c, co_room c)"

lemma preserves_weaker: "preserves f m \<Longrightarrow> (\<And>c c'. f c = f c' \<Longrightarrow> g c = g c') \<Longrightarrow> preserves g m"
  unfolding preserves_def by metis

lemma surface_steps [frame_intro]:
  "preserves surface (on_store m)" "preserves surface (open_here p w)" "preserves surface (identity_here p)"
  "preserves surface (contact_named n)" "preserves surface no_outbox" "preserves surface (refuse_if b e)"
  "preserves surface (on_app (on_host h))"
proof -
  show "preserves surface (on_store m)"
    by (simp add: preserves_def surface_def on_store_def split: prod.split)
  show "preserves surface (open_here p w)"
    using unlock_vault_dir by (simp add: preserves_def surface_def open_here_def on_app_eq)
  show "preserves surface (on_app (on_host h))"
    using on_host_frame [of h] by (simp add: preserves_def surface_def on_app_eq)
  show "preserves surface (identity_here p)" "preserves surface (contact_named n)" "preserves surface (refuse_if b e)"
    by (simp_all add: identity_here_def contact_named_def refuse_if_def preserves_simple)
  show "preserves surface no_outbox"
    by (simp add: preserves_def surface_def no_outbox_def on_app_eq ensure_no_pending_outbox_def readM_def)
qed

lemma surface_vault [frame_intro]: "preserves surface m \<Longrightarrow> preserves vault_of m" "preserves surface m \<Longrightarrow> preserves vault_and_out m"
  by (auto intro: preserves_weaker simp: surface_def vault_of_def vault_and_out_def)

lemma print_vault [frame_intro]: "preserves vault_of (print s)" "preserves vault_and_store (print s)"
  by (simp_all add: preserves_def print_def modifyM_def vault_of_def vault_and_store_def)

lemma open_here_passphrase:
  assumes "open_here p w c = (c', Inr ov)"
  shows "\<exists>b. an_pass (wo_answers w) b = Inr (ov_passphrase ov)"
proof -
  have u: "unlock_vault p (wo_answers w) (co_app c) = (co_app c', Inr ov)"
    using assms by (cases "unlock_vault p (wo_answers w) (co_app c)") (auto simp: open_here_def on_app_eq)
  have "ov_passphrase ov = pw" if "open_vault p now f pw b h = (h', Inr ov)" for now f pw b h h'
    using that by (auto simp: open_vault_def bindM_eq_Inr)
  moreover obtain f pw where "an_pass (wo_answers w) (vh_version (vf_header f) = kWordVersion) = Inr pw"
      and o: "bindM (on_host (open_vault p (an_now (wo_answers w)) f pw False)) (\<lambda>opened.
        bindM (modifyM (\<lambda>st. st\<lparr>as_store := ov_store opened\<rparr>)) (\<lambda>_. returnM opened)) (co_app c) = (co_app c', Inr ov)"
    using u by (auto simp: unlock_vault_def bindM_read split: sum.splits if_splits)
  moreover have "\<exists>h. open_vault p (an_now (wo_answers w)) f pw False (as_host (co_app c)) = (h, Inr ov)"
    using o by (cases "open_vault p (an_now (wo_answers w)) f pw False (as_host (co_app c))") (auto simp: bindM_eq_Inr on_host_def)
  ultimately show ?thesis
    by blast
qed

definition good_world :: "prims \<Rightarrow> world \<Rightarrow> bool" where
  "good_world p w \<longleftrightarrow> aead_law p \<and> argon2_law p \<and> script_ok (an_save (wo_answers w))"

lemma settles_save:
  assumes "good_world p w" and "\<exists>b. an_pass (wo_answers w) b = Inr (ov_passphrase ov)"
  shows "settles p (wo_answers w) vault_of True (save_here p w ov)"
    and "settles p (wo_answers w) vault_and_out True (save_here p w ov)"
proof -
  have "as_dir (co_app c') kVaultFilename = as_dir (co_app c) kVaultFilename \<and> co_out c' = co_out c \<and> r \<noteq> Inr () \<or>
      saved p (wo_answers w) c'" if "save_here p w ov c = (c', r)" for c c' r
    using that assms save_vault_holds [of p "an_save (wo_answers w)" "ov_params ov" "ov_passphrase ov" "co_app c"]
    by (cases "save_vault p (an_save (wo_answers w)) kVaultFilename (ov_params ov) (ov_passphrase ov) (co_app c)")
      (auto simp: save_here_def on_app_eq saved_def good_world_def)
  then show "settles p (wo_answers w) vault_of True (save_here p w ov)"
    and "settles p (wo_answers w) vault_and_out True (save_here p w ov)"
    by (auto intro!: settlesI simp: vault_of_def vault_and_out_def) (metis old.unit.exhaust)+
qed

lemma settles_commit:
  assumes g: "good_world p w" and pw: "\<exists>b. an_pass (wo_answers w) b = Inr pw"
  shows "settles p (wo_answers w) vault_and_out True (commit_block p (wo_answers w) pr pw block)"
proof -
  let ?an = "wo_answers w"
  have pend: "preserves vault_and_out (on_app (write_pending_outbox sc gen block))" for sc gen
  proof -
    have "as_dir st' kVaultFilename = as_dir st kVaultFilename" if "write_pending_outbox sc gen block st = (st', r)" for st st' r
      using write_pending_left [OF that] by blast
    then show ?thesis
      unfolding preserves_def on_app_eq by (auto simp: vault_and_out_def vault_of_def) (metis prod.collapse)
  qed
  have save: "settles p ?an vault_and_out True (on_app (save_guarded p ?an pr pw gen))" for gen
  proof (rule settlesI)
    fix c c' r assume s: "on_app (save_guarded p ?an pr pw gen) c = (c', r)"
    obtain st1 r1 where s1: "save_vault p (an_save ?an) kVaultFilename pr pw (co_app c) = (st1, r1)"
      by fastforce
    have h: "as_dir st1 kVaultFilename = as_dir (co_app c) kVaultFilename \<and> r1 \<noteq> Inr () \<or> holds p pw (as_dir st1) (as_store st1)"
      using save_vault_holds [OF _ _ _ s1] g by (simp add: good_world_def)
    have k: "as_dir st2 kVaultFilename = as_dir st1 kVaultFilename \<and> as_store st2 = as_store st1"
      if "keep_or_discard p ?an pw' gen st1 = (st2, r2)" for pw' st2 r2
      using that by (auto simp: keep_or_discard_def bindM_read discard_pending_outbox_def remove_file_def outbox_names
          split: sum.splits if_splits)
    have "as_dir (co_app c') kVaultFilename = as_dir st1 kVaultFilename \<and> as_store (co_app c') = as_store st1 \<and>
        co_out c' = co_out c \<and> (r1 \<noteq> Inr () \<longrightarrow> r \<noteq> Inr ())"
    proof (cases "\<exists>e. r1 = Inl e \<and> e \<noteq> DriveError ProcessKilled")
      case True
      then obtain e where e: "r1 = Inl e" "e \<noteq> DriveError ProcessKilled"
        by blast
      obtain st2 r2 where kd: "keep_or_discard p ?an pw gen st1 = (st2, r2)"
        by fastforce
      have "save_guarded p ?an pr pw gen (co_app c) = (st2, case r2 of Inl e' \<Rightarrow> Inl e' | Inr _ \<Rightarrow> Inl e)"
        using s1 e kd by (simp add: save_guarded_def split: sum.split)
      then show ?thesis
        using s k [OF kd] by (cases r2) (auto simp: on_app_eq)
    next
      case False
      then have "save_guarded p ?an pr pw gen (co_app c) = (st1, r1)"
        using s1 by (cases r1) (auto simp: save_guarded_def)
      then show ?thesis
        using s by (auto simp: on_app_eq)
    qed
    then show "vault_and_out c' = vault_and_out c \<and> (True \<longrightarrow> (\<forall>x. r \<noteq> Inr x)) \<or> saved p ?an c'"
      using h pw by (auto simp: vault_and_out_def vault_of_def saved_def holds_def)
  qed
  have tail: "preserves vault_and_store (bindM (write_block_or_throw block) (\<lambda>_. on_app (remove_pending_outbox u)))" for u
  proof (intro frame_intro)
    show "preserves vault_and_store (write_block_or_throw block)"
      by (simp add: preserves_def write_block_or_throw_def vault_and_store_def vault_of_def)
    show "preserves vault_and_store (on_app (remove_pending_outbox u))"
      by (simp add: preserves_def on_app_eq remove_pending_outbox_def remove_file_def vault_and_store_def vault_of_def outbox_names)
  qed
  have gen: "preserves vault_and_out (on_app (readM f))" for f :: "app_state \<Rightarrow> u64 result"
    by (simp add: preserves_def on_app_eq readM_def)
  show ?thesis
    unfolding commit_block_def by (rule settles_bind [OF gen settles_bind [OF pend settles_tail [OF save tail]]]) simp
qed

section \<open>Every command\<close>

lemma settles_weaken: "settles p an vault_and_out True m \<Longrightarrow> settles p an vault_of False m"
  unfolding settles_def vault_and_out_def by blast

lemma frame_let [frame_intro]: "preserves f (g x) \<Longrightarrow> preserves f (let y = x in g y)"
  by simp

lemma frame_option [frame_intro]:
  "preserves f m \<Longrightarrow> (\<And>x. preserves f (g x)) \<Longrightarrow> preserves f (case o' of None \<Rightarrow> m | Some x \<Rightarrow> g x)"
  by (cases o') simp_all

lemma frame_prod [frame_intro]: "(\<And>x y. preserves f (g x y)) \<Longrightarrow> preserves f (case q of (x, y) \<Rightarrow> g x y)"
  by (cases q) simp

lemma print_or_not [frame_intro]:
  "preserves vault_of (if b then print s else returnM ())" "preserves vault_and_store (if b then print s else returnM ())"
  "preserves vault_of (if b then returnM () else print s)" "preserves vault_and_store (if b then returnM () else print s)"
  by (auto intro!: frame_intro)

lemma contacts_named_frame [frame_intro]: "preserves surface (contacts_named ms)"
  by (induction ms) (auto simp: preserves_def [of _ "\<lambda>c. (c, _)"] intro!: preserves_bind preserves_simple surface_steps)

lemma maintain_frame [frame_intro]:
  "preserves vault_of (maintain_prekeys_here p w pk sk)" "preserves vault_of (expire_skipped_keys_here w)"
  unfolding maintain_prekeys_here_def expire_skipped_keys_here_def
  by (intro preserves_bind print_or_not preserves_simple surface_vault surface_steps)+

lemma frame_sum [frame_intro]:
  "(\<And>e. preserves f (h e)) \<Longrightarrow> (\<And>x. preserves f (g x)) \<Longrightarrow> preserves f (case q of Inl e \<Rightarrow> h e | Inr x \<Rightarrow> g x)"
  by (cases q) simp_all

lemma show_received_frame: "preserves vault_and_store (show_received w opts alias plaintext)"
  unfolding show_received_def show_received_file_def
  by (intro preserves_bind frame_let frame_option frame_prod frame_sum preserves_if preserves_simple(1-3) print_or_not print_vault)

text \<open>The end of the commands that change the vault.\<close>

lemma settles_end:
  assumes "good_world p w" and "open_here p w c = (c', Inr ov)"
  shows "settles p (wo_answers w) vault_and_out True (save_and_say p w ov said)"
    and "(\<And>x. preserves vault_and_store (f x)) \<Longrightarrow>
      settles p (wo_answers w) vault_and_out True (bindM (save_here p w ov) f)"
    and "settles p (wo_answers w) vault_and_out True (commit_block p (wo_answers w) pr (ov_passphrase ov) block)"
    and "settles p (wo_answers w) vault_of False (save_here p w ov)"
proof -
  note pw = open_here_passphrase [OF assms(2)]
  show save: "settles p (wo_answers w) vault_and_out True (bindM (save_here p w ov) f)"
    if "\<And>x. preserves vault_and_store (f x)" for f :: "unit \<Rightarrow> (console, 'z) mut"
    by (rule settles_tail [OF settles_save(2) [OF assms(1) pw] that]) simp
  show "settles p (wo_answers w) vault_and_out True (save_and_say p w ov said)"
    unfolding save_and_say_def
    by (rule settles_bind [OF surface_vault(2) [OF surface_steps(5)] settles_tail [OF settles_save(2) [OF assms(1) pw]]])
      (simp_all add: print_vault)
  show "settles p (wo_answers w) vault_and_out True (commit_block p (wo_answers w) pr (ov_passphrase ov) block)"
    by (rule settles_commit [OF assms(1) pw])
  show "settles p (wo_answers w) vault_of False (save_here p w ov)"
    by (rule settles_weaken [OF settles_save(2) [OF assms(1) pw]])
qed

lemmas quiet_steps = surface_vault surface_steps preserves_simple

lemma add_settles: "good_world p w \<Longrightarrow> settles p (wo_answers w) vault_and_out True (cmd_add_contact p w opts)"
  unfolding cmd_add_contact_def
  by (intro settles_bind settles_prod settles_end(1) quiet_steps) assumption+

lemma reset_settles: "good_world p w \<Longrightarrow> settles p (wo_answers w) vault_and_out True (cmd_reset_session p w opts)"
  unfolding cmd_reset_session_def
  by (intro settles_bind settles_prod settles_end(1) quiet_steps) assumption+

lemma remove_settles: "good_world p w \<Longrightarrow> settles p (wo_answers w) vault_and_out True (cmd_remove p w opts)"
  unfolding cmd_remove_def
  by (intro settles_bind settles_prod settles_end(1) quiet_steps) assumption+

lemma send_settles: "good_world p w \<Longrightarrow> settles p (wo_answers w) vault_and_out True (cmd_send p w opts)"
  unfolding cmd_send_def
  by (intro settles_bind settles_prod settles_end(3) quiet_steps) assumption+

lemma group_send_settles: "good_world p w \<Longrightarrow> settles p (wo_answers w) vault_and_out True (cmd_group_send p w opts)"
  unfolding cmd_group_send_def
  by (intro settles_bind settles_prod settles_end(3) quiet_steps contacts_named_frame) assumption+

lemma recv_settles: "good_world p w \<Longrightarrow> settles p (wo_answers w) vault_and_out True (cmd_recv p w opts)"
  unfolding cmd_recv_def
  by (intro settles_bind settles_prod settles_end(2) quiet_steps preserves_bind show_received_frame preserves_if
        frame_option print_vault) assumption+

lemma save_or_not:
  assumes "good_world p w" and "open_here p w c = (c', Inr ov)"
  shows "settles p (wo_answers w) vault_of False (if b then bindM no_outbox (\<lambda>_. save_here p w ov) else returnM ())"
    and "settles p (wo_answers w) vault_of False (if b then save_here p w ov else returnM ())"
  using settles_end(4) [OF assms] settles_bind [OF surface_vault(1) [OF surface_steps(5)] settles_end(4) [OF assms]]
  by (simp_all add: settles_quiet preserves_simple)

text \<open>Steps that leave the vault file alone although they may print.\<close>

lemmas vault_steps = surface_steps [THEN surface_vault(1)] print_vault(1) preserves_simple(1-3) maintain_frame

lemma answer_vault: "preserves vault_of (\<lambda>c. (emit s c, g c))"
  by (simp add: preserves_def vault_of_def)

lemma unlock_settles: "good_world p w \<Longrightarrow> settles p (wo_answers w) vault_of False (cmd_unlock p w opts)"
  unfolding cmd_unlock_def
  by (intro settles_bind settles_prod vault_steps settles_tail [OF save_or_not(1)] preserves_bind print_vault quiet_steps)

lemma card_settles: "good_world p w \<Longrightarrow> settles p (wo_answers w) vault_of False (cmd_card p w opts)"
  unfolding cmd_card_def
  apply (intro settles_bind settles_prod settles_if settles_end(4))
  by (intro settles_quiet preserves_if preserves_bind vault_steps | assumption)+

lemma trust_settles: "good_world p w \<Longrightarrow> settles p (wo_answers w) vault_of False (cmd_trust p w opts)"
  unfolding cmd_trust_def Let_def
  by (intro settles_bind settles_if settles_weaken [OF settles_end(1)] settles_quiet [OF answer_vault]
        settles_quiet [OF print_vault(1)] quiet_steps) assumption+

lemma quiet_commands:
  "settles p an vault_of False (cmd_anchor p w opts)" "settles p an vault_of False (cmd_contacts p w opts)"
  unfolding cmd_anchor_def cmd_contacts_def
  by (intro settles_quiet preserves_bind preserves_if vault_steps)+

lemma on_app_read: "preserves vault_of (on_app (readM f))"
  by (simp add: preserves_def on_app_eq vault_of_def)

lemma outbox_settles: "settles p an vault_of False (cmd_outbox p an)"
  unfolding cmd_outbox_def
proof (intro settles_quiet preserves_bind frame_prod on_app_read preserves_simple(3))
  show "preserves vault_of (on_app (unlock_vault p an))"
    using unlock_vault_dir by (simp add: preserves_def on_app_eq vault_of_def)
  show "preserves vault_of (write_block_or_throw block)" for block
    unfolding write_block_or_throw_def by (rule answer_vault)
  show "preserves vault_of (on_app (remove_pending_outbox u))" for u
    by (simp add: preserves_def on_app_eq remove_pending_outbox_def remove_file_def vault_of_def outbox_names)
qed

text \<open>The commands that never leave the vault file other than they found it unless they have saved, and those that report
  success, or anything at all, only once they have.\<close>

lemma every_command_settles:
  assumes "good_world p w" and "op_command opts \<notin> {''init'', ''passphrase'', ''migrate'', ''ui''}"
  shows "settles p (wo_answers w) vault_of False (run_command p w ui opts)"
proof -
  note s = add_settles reset_settles remove_settles send_settles group_send_settles recv_settles
  note steps = s [THEN settles_weaken] unlock_settles card_settles trust_settles quiet_commands
    settles_quiet [OF print_vault(1)] settles_bind [OF _ outbox_settles] settles_throw
  show ?thesis
    unfolding run_command_def Let_def
    by (intro settles_if; (intro steps vault_steps assms(1) | use assms(2) in simp)+)
qed

section \<open>What a command that reports anything has done\<close>

text \<open>The vault in memory is still the one the command found or opened.\<close>

definition as_opened :: "prims \<Rightarrow> answers \<Rightarrow> console \<Rightarrow> console \<Rightarrow> bool" where
  "as_opened p an c c' \<longleftrightarrow> as_store (co_app c') = as_store (co_app c) \<or>
     (\<exists>st opened. unlock_vault p an (co_app c) = (st, Inr opened) \<and> as_store (co_app c') = ov_store opened)"

text \<open>Success, or output if \<open>b\<close>, means that the vault in memory is \<open>v\<close> as before or has been saved.\<close>

definition accounts :: "prims \<Rightarrow> answers \<Rightarrow> vault_store \<Rightarrow> bool \<Rightarrow> (console, 'a) mut \<Rightarrow> bool" where
  "accounts p an v b m \<longleftrightarrow> (\<forall>c c' r. as_store (co_app c) = v \<and> m c = (c', r) \<and>
     ((\<exists>x. r = Inr x) \<or> b \<and> co_out c' \<noteq> co_out c) \<longrightarrow> as_store (co_app c') = v \<or> saved p an c')"

definition reports :: "prims \<Rightarrow> answers \<Rightarrow> bool \<Rightarrow> (console, 'a) mut \<Rightarrow> bool" where
  "reports p an b m \<longleftrightarrow> (\<forall>c c' r. m c = (c', r) \<and> ((\<exists>x. r = Inr x) \<or> b \<and> co_out c' \<noteq> co_out c) \<longrightarrow>
     as_opened p an c c' \<or> saved p an c')"

definition store_of :: "console \<Rightarrow> vault_store" where
  "store_of c = as_store (co_app c)"

definition store_and_out :: "console \<Rightarrow> vault_store \<times> string" where
  "store_and_out c = (store_of c, co_out c)"

lemma accounts_quiet: "preserves store_of m \<Longrightarrow> accounts p an v b m"
  unfolding accounts_def by (auto dest: preservesD simp: store_of_def)

lemma accounts_settles: "settles p an vault_and_out True m \<Longrightarrow> accounts p an v b m"
  unfolding accounts_def settles_def vault_and_out_def by blast

lemma accounts_saves: "settles p an (\<lambda>_. ()) True m \<Longrightarrow> accounts p an v False m"
  unfolding accounts_def settles_def by blast

lemma accounts_if: "(q \<Longrightarrow> accounts p an v b m) \<Longrightarrow> (\<not> q \<Longrightarrow> accounts p an v b m') \<Longrightarrow>
    accounts p an v b (if q then m else m')"
  by simp

lemma accounts_prod: "(\<And>x y. q = (x, y) \<Longrightarrow> accounts p an v b (f x y)) \<Longrightarrow> accounts p an v b (case q of (x, y) \<Rightarrow> f x y)"
  by (cases q) simp

lemma accounts_bind:
  assumes "preserves store_and_out m" and "\<And>x. accounts p an v b (f x)"
  shows "accounts p an v b (bindM m f)"
  unfolding accounts_def
proof (intro allI impI, elim conjE)
  fix c c' r
  assume v: "as_store (co_app c) = v" and m: "bindM m f c = (c', r)" and q: "(\<exists>x. r = Inr x) \<or> b \<and> co_out c' \<noteq> co_out c"
  obtain c1 r1 where m1: "m c = (c1, r1)"
    by fastforce
  have s: "as_store (co_app c1) = v" "co_out c1 = co_out c"
    using preservesD [OF assms(1) m1] v by (simp_all add: store_and_out_def store_of_def)
  show "as_store (co_app c') = v \<or> saved p an c'"
  proof (cases r1)
    case (Inl e)
    with m m1 s show ?thesis
      by (auto simp: bindM_def)
  next
    case (Inr x)
    then have "f x c1 = (c', r)"
      using m m1 by (simp add: bindM_def)
    then show ?thesis
      using assms(2) [of x] s q unfolding accounts_def by metis
  qed
qed

text \<open>A step that says whether it changed the store; if it did, what follows only succeeds by saving.\<close>

lemma accounts_flag:
  assumes "\<And>c c' x. m c = (c', Inr x) \<Longrightarrow> as_store (co_app c') = as_store (co_app c) \<or> settles p an (\<lambda>_. ()) True (f x)"
    and "\<And>x. accounts p an v False (f x)"
  shows "accounts p an v False (bindM m f)"
  unfolding accounts_def
proof (intro allI impI, elim conjE)
  fix c c' r
  assume v: "as_store (co_app c) = v" and m: "bindM m f c = (c', r)" and "(\<exists>x. r = Inr x) \<or> False \<and> co_out c' \<noteq> co_out c"
  then obtain y where y: "r = Inr y"
    by blast
  then obtain c1 x where m1: "m c = (c1, Inr x)" and fx: "f x c1 = (c', Inr y)"
    using m by (auto simp: bindM_eq_Inr)
  show "as_store (co_app c') = v \<or> saved p an c'"
    using assms(1) [OF m1]
  proof (elim disjE)
    assume "as_store (co_app c1) = as_store (co_app c)"
    with assms(2) [of x] fx v show ?thesis
      unfolding accounts_def by metis
  next
    assume "settles p an (\<lambda>_. ()) True (f x)"
    with fx show ?thesis
      unfolding settles_def by blast
  qed
qed

text \<open>From the opened vault to the command: what precedes the opening only reads.\<close>

definition only_reads :: "(console, 'a) mut \<Rightarrow> bool" where
  "only_reads m \<longleftrightarrow> (\<forall>c. fst (m c) = c)"

lemma only_reads_simple: "only_reads (readM f)" "only_reads (refuse_if q e)" "only_reads no_outbox" "only_reads (on_app (readM g))"
  by (simp_all add: only_reads_def refuse_if_def no_outbox_def ensure_no_pending_outbox_def on_app_eq)

lemma reports_bind:
  assumes "only_reads m" and "\<And>x. reports p an b (f x)"
  shows "reports p an b (bindM m f)"
  unfolding reports_def
proof (intro allI impI, elim conjE)
  fix c c' r
  assume m: "bindM m f c = (c', r)" and q: "(\<exists>x. r = Inr x) \<or> b \<and> co_out c' \<noteq> co_out c"
  have "fst (m c) = c"
    using assms(1) by (simp add: only_reads_def)
  then obtain r1 where m1: "m c = (c, r1)"
    by (metis prod.collapse)
  show "as_opened p an c c' \<or> saved p an c'"
  proof (cases r1)
    case (Inl e)
    with m m1 have "c' = c"
      by (simp add: bindM_def)
    then show ?thesis
      by (simp add: as_opened_def)
  next
    case (Inr x)
    then have "f x c = (c', r)"
      using m m1 by (simp add: bindM_def)
    with assms(2) [of x] q show ?thesis
      unfolding reports_def by blast
  qed
qed

lemma reports_quiet: "preserves store_of m \<Longrightarrow> reports p an b m"
  unfolding reports_def as_opened_def by (auto dest: preservesD simp: store_of_def)

lemma reports_prod: "(\<And>x y. q = (x, y) \<Longrightarrow> reports p an b (f x y)) \<Longrightarrow> reports p an b (case q of (x, y) \<Rightarrow> f x y)"
  by (cases q) simp

lemma open_here_Inr:
  assumes "open_here p w c = (c', Inr ov)"
  shows "as_store (co_app c') = ov_store ov" and "\<exists>st. unlock_vault p (wo_answers w) (co_app c) = (st, Inr ov)"
proof -
  have u: "unlock_vault p (wo_answers w) (co_app c) = (co_app c', Inr ov)"
    using assms by (cases "unlock_vault p (wo_answers w) (co_app c)") (auto simp: open_here_def on_app_eq)
  then show "\<exists>st. unlock_vault p (wo_answers w) (co_app c) = (st, Inr ov)"
    by blast
  show "as_store (co_app c') = ov_store ov"
    using u by (auto simp: unlock_vault_def bindM_eq_Inr dest: arg_cong [where f = as_store])
qed

lemma reports_open:
  assumes "\<And>c c1 ov. open_here p w c = (c1, Inr ov) \<Longrightarrow> accounts p (wo_answers w) (ov_store ov) b (f ov)"
  shows "reports p (wo_answers w) b (bindM (open_here p w) f)"
  unfolding reports_def
proof (intro allI impI, elim conjE)
  fix c c' r
  assume m: "bindM (open_here p w) f c = (c', r)" and q: "(\<exists>x. r = Inr x) \<or> b \<and> co_out c' \<noteq> co_out c"
  obtain c1 r1 where o: "open_here p w c = (c1, r1)"
    by fastforce
  have out: "co_out c1 = co_out c"
    using preservesD [OF surface_steps(2) o] by (simp add: surface_def)
  show "as_opened p (wo_answers w) c c' \<or> saved p (wo_answers w) c'"
  proof (cases r1)
    case (Inl e)
    then have "c' = c1 \<and> r = Inl e"
      using m o by (simp add: bindM_def)
    with q out show ?thesis
      by auto
  next
    case (Inr ov)
    note o' = o [unfolded Inr]
    have "f ov c1 = (c', r)"
      using m o' by (simp add: bindM_def)
    then have "as_store (co_app c') = ov_store ov \<or> saved p (wo_answers w) c'"
      using assms [OF o'] open_here_Inr(1) [OF o'] q out unfolding accounts_def by metis
    with open_here_Inr(2) [OF o'] show ?thesis
      by (auto simp: as_opened_def)
  qed
qed

text \<open>Steps that leave the store in memory alone.\<close>

lemma store_steps [frame_intro]:
  "preserves store_of (print s)" "preserves store_and_out (readM f)" "preserves store_and_out (refuse_if q e)"
  "preserves store_and_out (identity_here p)" "preserves store_and_out (contact_named n)" "preserves store_and_out no_outbox"
  "preserves store_of (\<lambda>c. (emit s c, g c))" "preserves store_of (on_app (readM k))"
  "preserves store_of (write_block_or_throw s)" "preserves store_of (on_app (remove_pending_outbox u))"
  by (simp_all add: preserves_def store_of_def store_and_out_def print_def modifyM_def refuse_if_def identity_here_def
      contact_named_def no_outbox_def on_app_eq ensure_no_pending_outbox_def write_block_or_throw_def
      remove_pending_outbox_def remove_file_def)

lemma host_step [frame_intro]: "preserves store_of (on_app (on_host h))"
  using on_host_frame [of h] by (simp add: preserves_def store_of_def on_app_eq)

lemma store_from_out: "preserves store_and_out m \<Longrightarrow> preserves store_of m"
  by (auto intro: preserves_weaker simp: store_and_out_def)

text \<open>Upkeep that reports no change has made none.\<close>

lemma resign_unchanged: "resign_stale_prekeys p pk sk v = (v', Inr False) \<Longrightarrow> v' = v"
proof -
  have "resign_loop p pk sk ks = (ks', Inr False) \<Longrightarrow> ks' = ks" for ks ks'
    by (induction ks arbitrary: ks')
      (auto simp: bindR_eq_Inr split: sum.splits bool.splits prod.splits)
  then show "resign_stale_prekeys p pk sk v = (v', Inr False) \<Longrightarrow> v' = v"
    by (auto simp: resign_stale_prekeys_def split: prod.splits)
qed

lemma maintain_unchanged:
  assumes "maintain_prekeys p d pk sk v = (v', Inr report)" and "\<not> mr_changed report"
  shows "v' = v"
  using assms(1)
proof (cases rule: maintain_cases)
  case (went_on v1 v2 resigned x)
  then have "\<not> resigned" "\<not> spk_stale (ud_now d) v1" "\<not> length (v_one_time_prekeys v2) < kReplenishThreshold"
    using assms(2) by (auto simp: mr_changed_def split: sum.splits)
  with went_on(1-3) resign_unchanged [of p pk sk v v1] show ?thesis
    by simp
qed simp_all

lemma expire_unchanged:
  assumes "vault_expire_skipped_keys now v = (v', 0)"
  shows "v' = v"
proof -
  have "fst (expire_skipped_keys now s) = s" if "s \<in> set (v_sessions v)" for s
  proof (rule expire_nothing)
    have "snd (expire_skipped_keys now s) = 0"
      using assms that by (auto simp: vault_expire_skipped_keys_def Let_def)
    then show "\<forall>k \<in> set (s_skipped s). \<not> stale_key now k"
      by (simp add: expire_snd filter_empty_conv)
  qed
  then have "map fst (map (expire_skipped_keys now) (v_sessions v)) = v_sessions v"
    by (simp add: map_idI)
  with assms show ?thesis
    by (auto simp: vault_expire_skipped_keys_def Let_def)
qed

lemma replenish_pq_unchanged:
  assumes "replenish_pq_prekeys p now s seeds n v = (v', Inr u)" and "v_pq_signed_prekeys v \<noteq> []"
    and "length (v_pq_one_time_prekeys v') = length (v_pq_one_time_prekeys v)"
  shows "v' = v"
proof -
  let ?s = "map seeds [length (v_pq_one_time_prekeys v)..<n]"
  have f: "fill_pq_pool p now ?s v = (v', Inr u)"
    using assms(1,2) by (simp add: replenish_pq_prekeys_def bindM_def)
  have "length ?s = 0"
    using conjunct1 [OF fill_pq_Inr [OF f]] assms(3) by linarith
  then have "?s = []"
    by (simp only: length_0_conv)
  with f show ?thesis
    by (simp only: fill_pq_pool.simps returnM_def) simp
qed

lemma settles_unit: "settles p an vault_and_out True m \<Longrightarrow> settles p an (\<lambda>_. ()) True m"
  unfolding settles_def by blast

lemma preserves_unit: "preserves (\<lambda>_. ()) m"
  by (simp add: preserves_def)

text \<open>Saving, and then only showing things, succeeds only with the vault saved.\<close>

lemma saves_then:
  assumes "good_world p w" and "open_here p w c = (c', Inr ov)" and "\<And>x. preserves vault_and_store (f x)"
  shows "settles p (wo_answers w) (\<lambda>_. ()) True (bindM (save_here p w ov) f)"
  by (rule settles_unit [OF settles_end(2) [OF assms]])

lemma trust_reports: "good_world p w \<Longrightarrow> reports p (wo_answers w) b (cmd_trust p w opts)"
  unfolding cmd_trust_def Let_def
  apply (intro reports_open reports_bind accounts_if only_reads_simple)
  apply (rule accounts_bind [OF store_steps(5)] accounts_bind [OF store_steps(2)] accounts_bind [OF store_steps(3)] accounts_if
      accounts_quiet [OF store_steps(7)] accounts_quiet [OF store_steps(1)])+
  by (intro accounts_settles settles_bind settles_end(1) quiet_steps) assumption+

lemma quiet_reports:
  "reports p (wo_answers w) b (cmd_anchor p w opts)" "reports p (wo_answers w) b (cmd_contacts p w opts)"
  unfolding cmd_anchor_def cmd_contacts_def
  by (intro reports_open reports_bind only_reads_simple accounts_quiet preserves_bind preserves_if preserves_simple(1-3)
      store_steps host_step)+

lemma outbox_reports:
  fixes w :: world
  shows "reports p (wo_answers w) b (cmd_outbox p (wo_answers w))"
  unfolding cmd_outbox_def open_here_def [symmetric]
  by (intro reports_open reports_bind reports_prod only_reads_simple accounts_quiet preserves_bind preserves_simple(1-3)
      store_steps)

lemma unlock_reports:
  assumes "good_world p w"
  shows "reports p (wo_answers w) False (cmd_unlock p w opts)"
proof -
  let ?an = "wo_answers w"
  have "accounts p ?an (ov_store ov) False
      (bindM (identity_here p) (\<lambda>(identity_pk, identity_sk).
       bindM (maintain_prekeys_here p w identity_pk identity_sk) (\<lambda>maintained.
       bindM (expire_skipped_keys_here w) (\<lambda>expired.
       bindM (if maintained \<or> expired then bindM no_outbox (\<lambda>_. save_here p w ov) else returnM ()) (\<lambda>_.
       bindM (readM (\<lambda>c. own_fingerprint p identity_pk (as_store (co_app c)))) (\<lambda>shown.
       bindM (readM (\<lambda>c. Inr (as_store (co_app c)))) (\<lambda>v. print (said shown v))))))))"
    if o: "open_here p w c = (c1, Inr ov)" for c c1 ov and said :: "string \<Rightarrow> vault_store \<Rightarrow> string"
  proof (rule accounts_bind [OF store_steps(4)], rule accounts_prod)
    fix q pk sk
    let ?show = "\<lambda>_. bindM (readM (\<lambda>c. own_fingerprint p pk (as_store (co_app c)))) (\<lambda>shown.
       bindM (readM (\<lambda>c. Inr (as_store (co_app c)))) (\<lambda>v. print (said shown v)))"
    let ?last = "\<lambda>b. bindM (if b then bindM no_outbox (\<lambda>_. save_here p w ov) else returnM ()) ?show"
    have sh: "preserves vault_and_store (?show x)" "preserves store_of (?show x)" for x
      by (intro preserves_bind preserves_simple(3) print_vault(2) store_steps(1))+
    have yes: "settles p ?an (\<lambda>_. ()) True (?last True)"
    proof -
      have "settles p ?an (\<lambda>_. ()) True (bindM no_outbox (\<lambda>_. save_here p w ov))"
        by (intro settles_bind preserves_unit settles_unit [OF settles_save(2) [OF assms open_here_passphrase [OF o]]])
      from settles_tail [OF this sh(1)] show ?thesis
        by simp
    qed
    have no: "accounts p ?an (ov_store ov) False (?last False)"
      by (rule accounts_quiet) (simp, intro preserves_bind preserves_simple(1) sh(2))
    have flag: "accounts p ?an (ov_store ov) False (?last b)" for b
      by (rule bool.induct [of "\<lambda>b. accounts p ?an (ov_store ov) False (?last b)", OF accounts_saves [OF yes] no])
    show "accounts p ?an (ov_store ov) False (bindM (maintain_prekeys_here p w pk sk) (\<lambda>maintained.
       bindM (expire_skipped_keys_here w) (\<lambda>expired. ?last (maintained \<or> expired))))"
    proof (rule accounts_flag)
      fix c2 c3 m assume m: "maintain_prekeys_here p w pk sk c2 = (c3, Inr m)"
      show "as_store (co_app c3) = as_store (co_app c2) \<or>
          settles p ?an (\<lambda>_. ()) True (bindM (expire_skipped_keys_here w) (\<lambda>expired. ?last (m \<or> expired)))"
      proof (cases m)
        case True
        with yes show ?thesis
          by (auto intro!: settles_bind preserves_unit)
      next
        case False
        with m have "as_store (co_app c3) = as_store (co_app c2)"
          by (auto simp: maintain_prekeys_here_def bindM_eq_Inr on_store_def print_def split: prod.splits if_splits
              dest!: maintain_unchanged)
        then show ?thesis ..
      qed
    next
      fix m
      show "accounts p ?an (ov_store ov) False (bindM (expire_skipped_keys_here w) (\<lambda>expired. ?last (m \<or> expired)))"
      proof (rule accounts_flag)
        fix c2 c3 e assume e: "expire_skipped_keys_here w c2 = (c3, Inr e)"
        show "as_store (co_app c3) = as_store (co_app c2) \<or> settles p ?an (\<lambda>_. ()) True (?last (m \<or> e))"
        proof (cases e)
          case True
          with yes show ?thesis
            by simp
        next
          case False
          with e have "as_store (co_app c3) = as_store (co_app c2)"
            by (auto simp: expire_skipped_keys_here_def bindM_eq_Inr on_store_def print_def split: prod.splits if_splits
                dest!: expire_unchanged)
          then show ?thesis ..
        qed
      qed (rule flag)
    qed
  qed
  note rest = this
  show ?thesis
    unfolding cmd_unlock_def by (intro reports_open reports_bind only_reads_simple) (rule rest)
qed

text \<open>\<open>card\<close>: what it must save it saves, and otherwise it has changed nothing.\<close>

lemma card_reports:
  assumes "good_world p w"
  shows "reports p (wo_answers w) False (cmd_card p w opts)"
proof -
  let ?an = "wo_answers w" and ?asked = "op_rotate_spk opts \<or> op_replenish_otpk opts > 0"
  define tail where "tail ov pk sk resigned = bindM (readM (\<lambda>c. let v = as_store (co_app c) in
              if v_signed_prekeys v = [] then Inl (CommandError NoSignedPrekey)
              else Inr (length (v_pq_one_time_prekeys v), v_pq_signed_prekeys v \<noteq> []))) (\<lambda>(pq_before, had_pq_spk).
     bindM (on_store (replenish_pq_prekeys p (wo_now w) (wo_pq_static w) (wo_pq_seeds w) kDefaultOtpkCount)) (\<lambda>_.
     bindM (readM (\<lambda>c. let v = as_store (co_app c) in
              Inr (op_rotate_spk opts \<or> op_replenish_otpk opts > 0 \<or> resigned \<or> \<not> had_pq_spk \<or>
                   length (v_pq_one_time_prekeys v) \<noteq> pq_before \<or> v_generation v = 0))) (\<lambda>must_save.
     bindM (if must_save then no_outbox else returnM ()) (\<lambda>_.
     bindM (readM (\<lambda>c. let v = as_store (co_app c) in
              bindR (derive_pq_identity p (v_seed v)) (\<lambda>pq_identity.
              export_hybrid_card p sk pk pq_identity (last (v_signed_prekeys v)) (v_one_time_prekeys v)
                (last (v_pq_signed_prekeys v)) (v_pq_one_time_prekeys v)))) (\<lambda>card_text.
     bindM (print card_text) (\<lambda>_.
     if must_save then save_here p w ov else returnM ()))))))" for ov pk sk resigned
  have saves: "settles p ?an (\<lambda>_. ()) True (tail ov pk sk resigned)"
    if o: "open_here p w c = (c1, Inr ov)" and "?asked \<or> resigned" for c c1 ov pk sk resigned
  proof -
    have "settles p ?an (\<lambda>_. ()) True (save_here p w ov)"
      by (rule settles_unit [OF settles_save(2) [OF assms open_here_passphrase [OF o]]])
    with that(2) show ?thesis
      unfolding tail_def by (intro settles_bind settles_prod preserves_unit) (auto simp: Let_def)
  qed
  have quiet: "accounts p ?an v False (tail ov pk sk resigned)" if o: "open_here p w c = (c1, Inr ov)"
    for c c1 ov pk sk resigned v
    unfolding accounts_def
  proof (intro allI impI, elim conjE)
    fix c2 c3 r
    assume v: "as_store (co_app c2) = v" and t: "tail ov pk sk resigned c2 = (c3, r)" and "(\<exists>x. r = Inr x) \<or> False \<and> co_out c3 \<noteq> co_out c2"
    then have r: "r = Inr ()"
      by auto
    let ?out = "\<lambda>must. bindM (readM (\<lambda>c. let v = as_store (co_app c) in
              bindR (derive_pq_identity p (v_seed v)) (\<lambda>pq_identity.
              export_hybrid_card p sk pk pq_identity (last (v_signed_prekeys v)) (v_one_time_prekeys v)
                (last (v_pq_signed_prekeys v)) (v_pq_one_time_prekeys v)))) (\<lambda>card_text.
        bindM (print card_text) (\<lambda>_. if must then save_here p w ov else returnM ()))"
    let ?fin = "\<lambda>must. bindM (if must then no_outbox else returnM ()) (\<lambda>_. ?out must)"
      and ?R = "replenish_pq_prekeys p (wo_now w) (wo_pq_static w) (wo_pq_seeds w) kDefaultOtpkCount"
    let ?M = "\<lambda>c :: console. op_rotate_spk opts \<or> op_replenish_otpk opts > 0 \<or> resigned \<or> v_pq_signed_prekeys v = [] \<or>
        length (v_pq_one_time_prekeys (as_store (co_app c))) \<noteq> length (v_pq_one_time_prekeys v) \<or>
        v_generation (as_store (co_app c)) = 0"
    have "bindM (on_store ?R) (\<lambda>_. bindM (readM (\<lambda>c. Inr (?M c))) ?fin) c2 = (c3, Inr ())"
    proof (cases "v_signed_prekeys v = []")
      case True
      with t show ?thesis
        by (simp add: r tail_def bindM_read v)
    next
      case False
      then show ?thesis
        using t unfolding r tail_def Let_def bindM_read [of _ _ c2] v
        by (simp only: if_False sum.case prod.case not_not simp_thms)
    qed
    then obtain c5 u where c5: "on_store ?R c2 = (c5, Inr u)" and t2: "bindM (readM (\<lambda>c. Inr (?M c))) ?fin c5 = (c3, Inr ())"
      unfolding bindM_eq_Inr [of "on_store ?R"] by blast
    from c5 v obtain v1 where rep: "?R v = (v1, Inr u)" and five: "as_store (co_app c5) = v1"
      by (auto simp: on_store_def split: prod.splits)
    have "?fin (?M c5) c5 = (c3, Inr ())"
      using t2 by (simp only: bindM_read sum.case)
    then obtain c6 y where c6: "(if ?M c5 then no_outbox else returnM ()) c5 = (c6, Inr y)" and t3: "?out (?M c5) c6 = (c3, Inr ())"
      unfolding bindM_eq_Inr [of "if ?M c5 then no_outbox else returnM ()"] by blast
    have six: "as_store (co_app c6) = v1"
      using c6 five preservesD [OF store_from_out [OF store_steps(6)], of c5 c6 "Inr y"]
      by (simp add: store_of_def split: if_splits)
    from t3 obtain card_text where "bindM (print card_text) (\<lambda>_. if ?M c5 then save_here p w ov else returnM ()) c6 = (c3, Inr ())"
      by (auto simp only: bindM_read split: sum.splits)
    then have last: "(if ?M c5 then save_here p w ov else returnM ()) (emit card_text c6) = (c3, Inr ())"
      by (simp only: print_def bindM_def modifyM_def prod.case sum.case)
    show "as_store (co_app c3) = v \<or> saved p ?an c3"
    proof (cases "?M c5")
      case True
      with last settles_save(2) [OF assms open_here_passphrase [OF o]] show ?thesis
        unfolding settles_def by auto
    next
      case False
      with last six five replenish_pq_unchanged [OF rep] show ?thesis
        by auto
    qed
  qed
  have rest: "accounts p ?an (ov_store ov) False
      (bindM (if ?asked then no_outbox else returnM ()) (\<lambda>_.
       bindM (if op_rotate_spk opts then on_store (rotate_signed_prekey p (wo_keypair w) (wo_now w) sk) else returnM ()) (\<lambda>_.
       bindM (if op_replenish_otpk opts > 0
              then on_store (replenish_one_time_prekeys p (map (wo_otpks w) [0..<op_replenish_otpk opts])) else returnM ()) (\<lambda>_.
       bindM (on_store (resign_stale_prekeys p pk sk)) (tail ov pk sk)))))"
    if o: "open_here p w c = (c1, Inr ov)" for c c1 ov pk sk
  proof (cases ?asked)
    case True
    with saves [OF o] show ?thesis
      by (intro accounts_saves settles_bind preserves_unit) blast
  next
    case False
    have "accounts p ?an (ov_store ov) False (bindM (on_store (resign_stale_prekeys p pk sk)) (tail ov pk sk))"
    proof (rule accounts_flag)
      fix c2 c3 x assume m: "on_store (resign_stale_prekeys p pk sk) c2 = (c3, Inr x)"
      show "as_store (co_app c3) = as_store (co_app c2) \<or> settles p ?an (\<lambda>_. ()) True (tail ov pk sk x)"
      proof (cases x)
        case True
        with saves [OF o] show ?thesis
          by blast
      next
        case False
        with m show ?thesis
          by (auto simp: on_store_def split: prod.splits dest: resign_unchanged)
      qed
    qed (rule quiet [OF o])
    moreover have go: "bindM (returnM ()) f = f ()" for f :: "unit \<Rightarrow> (console, unit) mut"
      by (rule ext) (simp add: bindM_def returnM_def)
    ultimately show ?thesis
      using False by (simp add: go)
  qed
  show ?thesis
    unfolding cmd_card_def tail_def [symmetric]
    by (intro reports_open reports_bind only_reads_simple accounts_bind [OF store_steps(4)] accounts_prod accounts_if rest
        accounts_quiet preserves_bind preserves_simple(3) store_steps(1))
qed

lemma reports_if:
  "(q \<Longrightarrow> reports p an b m) \<Longrightarrow> (\<not> q \<Longrightarrow> reports p an b m') \<Longrightarrow> reports p an b (if q then m else m')"
  by simp

lemma reports_settles: "settles p an vault_and_out True m \<Longrightarrow> reports p an b m"
  unfolding reports_def settles_def vault_and_out_def by blast

lemma every_command_reports:
  assumes "good_world p w" and "op_command opts \<notin> {''init'', ''passphrase'', ''migrate'', ''ui''}"
  shows "reports p (wo_answers w) (op_command opts \<notin> {''unlock'', ''card''}) (run_command p w ui opts)"
proof -
  note s = add_settles reset_settles remove_settles send_settles group_send_settles recv_settles
  note steps = s [THEN reports_settles] trust_reports quiet_reports reports_bind [OF only_reads_simple(1) outbox_reports]
    reports_quiet [OF store_steps(1)] reports_settles [OF settles_throw]
  show ?thesis
    unfolding run_command_def Let_def
    by (intro reports_if; (intro steps assms(1) | use assms(2) in \<open>simp add: unlock_reports [OF assms(1)] card_reports [OF assms(1)]\<close>)+)
qed

text \<open>C26: Apart from \<open>init\<close>, \<open>passphrase\<close>, \<open>migrate\<close> and the terminal interface, no command leaves the
  vault file changed unless it is then a complete container of the vault in memory, sealed under the passphrase
  that was typed (\<open>saved\<close>). \<open>add\<close>, \<open>reset-session\<close>, \<open>remove\<close>, \<open>send\<close>, \<open>group-send\<close> and \<open>recv\<close> succeed,
  or print anything at all, only after that. Any other of these commands that succeeds, or prints anything
  at all, has either saved or left the vault in memory exactly as it was opened. Two print before they save, so
  of them only the success says it: \<open>unlock\<close> reports its upkeep first, \<open>card\<close> the card.\<close>

theorem commands_keep_vault:
  assumes "good_world p w" and "op_command opts \<notin> {''init'', ''passphrase'', ''migrate'', ''ui''}"
    and "run_command p w ui opts c = (c', r)"
  shows "(as_dir (co_app c') kVaultFilename = as_dir (co_app c) kVaultFilename \<or> saved p (wo_answers w) c') \<and>
    (op_command opts \<in> {''add'', ''reset-session'', ''remove'', ''send'', ''group-send'', ''recv''} \<and>
      (r = Inr () \<or> co_out c' \<noteq> co_out c) \<longrightarrow> saved p (wo_answers w) c') \<and>
    (r = Inr () \<or> co_out c' \<noteq> co_out c \<and> op_command opts \<notin> {''unlock'', ''card''} \<longrightarrow>
      as_opened p (wo_answers w) c c' \<or> saved p (wo_answers w) c')"
proof -
  have "settles p (wo_answers w) vault_and_out True (run_command p w ui opts)"
    if "op_command opts \<in> {''add'', ''reset-session'', ''remove'', ''send'', ''group-send'', ''recv''}"
    using that add_settles reset_settles remove_settles send_settles group_send_settles recv_settles assms(1)
    by (auto simp: run_command_def)
  then show ?thesis
    using every_command_settles [OF assms(1,2), of ui] every_command_reports [OF assms(1,2), of ui] assms(3)
    unfolding settles_def reports_def by (auto simp: vault_of_def vault_and_out_def)
qed

text \<open>Bob is removed from the sample vault, and the vault file then holds the store without him.\<close>

lemma sample_removed:
  assumes "length dg = 32"
  obtains plain where "wf_store sample_prims (remove_contact 0 sample_store)"
    and "serialize (remove_contact 0 sample_store\<lparr>v_previous_digest := dg, v_generation := 6\<rparr>) = Inr plain"
    and "length plain < 100000" and "v_vault_id (remove_contact 0 sample_store) = v_vault_id sample_store"
    and "v_generation (remove_contact 0 sample_store) = 5" and "v_contacts (remove_contact 0 sample_store) = []"
    and "\<forall>a d. validate sample_prims a (remove_contact 0 sample_store) d = validate sample_prims a sample_store d"
proof -
  let ?v = "remove_contact 0 sample_store"
  have v: "?v = sample_store\<lparr>v_contacts := [], v_sessions := []\<rparr>"
    by (simp add: remove_contact_def sample_store_def drop_sessions_of_def session_default_def erase_at_def)
  have wf: "wf_store sample_prims ?v"
    using sample_store_wf [of sample_prims] unfolding v by (simp add: wf_store_def wf_counted_def)
  with assms have "wf_store sample_prims (?v\<lparr>v_previous_digest := dg, v_generation := 6\<rparr>)"
    by (simp add: wf_store_def)
  then obtain plain where p: "serialize (?v\<lparr>v_previous_digest := dg, v_generation := 6\<rparr>) = Inr plain"
    using serialize_ok by blast
  then have "length plain < 100000"
    using assms unfolding v
    by (simp add: serialize_def sample_store_def put_counted_def write_signed_prekey_def write_one_time_prekey_def
        write_handshake_def put_blob_def put_str_def put_flagged_def
        put_bool_def put_u8_def put_u32_def put_u64_def put_bytes_def kStoreMagic_def)
     auto
  moreover have sel: "v_vault_id ?v = v_vault_id sample_store" "v_generation ?v = v_generation sample_store"
      "v_seed ?v = v_seed sample_store" "v_previous_digest ?v = v_previous_digest sample_store" "v_contacts ?v = []"
    by (simp_all add: v)
  have "validate sample_prims a ?v d = validate sample_prims a sample_store d" for a d
    unfolding validate_def sel ..
  ultimately show thesis
    using wf p sel by (intro that) (simp_all add: sample_store_def)
qed

lemma commands_keep_vault_witness:
  "\<exists>w opts c c'. op_command opts = ''remove'' \<and> run_command sample_prims w (\<lambda>_. returnM ()) opts c = (c', Inr ()) \<and>
     v_contacts (as_store (co_app c)) \<noteq> [] \<and> v_contacts (as_store (co_app c')) = [] \<and>
     saved sample_prims (wo_answers w) c'"
proof -
  obtain plain0 old hdr h a where s: "serialize sample_store = Inr plain0" "unseal sample_prims old [65] = Inr plain0"
    "parse_header old = Inr hdr" "vh_version hdr \<noteq> kLegacyVersion" "57 \<le> length old"
    "length old < 200000" "h_backend h" "h_readable h" "h_writable h"
    "load_anchor sample_prims (v_vault_id sample_store) h = Inr (Some a)"
    "validate sample_prims a sample_store (vault_digest sample_prims old) = Inr Protected"
    by (rule sample_saved)
  let ?v = "remove_contact 0 sample_store" and ?st = "sample_state old h" and ?dg = "vault_digest sample_prims old"
  obtain plain where rm: "wf_store sample_prims ?v" "serialize (?v\<lparr>v_previous_digest := ?dg, v_generation := 6\<rparr>) = Inr plain"
      "length plain < 100000" "v_vault_id ?v = v_vault_id sample_store" "v_generation ?v = 5" "v_contacts ?v = []"
      "\<forall>a d. validate sample_prims a ?v d = validate sample_prims a sample_store d"
    by (rule sample_removed [OF length_vault_digest [OF sample_host_laws, of old]])
  define an where "an = (sample_answers (length old) (length plain + 57) 0)\<lparr>an_read := sample_read (length old)\<rparr>"
  define w where "w = (undefined :: world)\<lparr>wo_answers := an, wo_validate := (\<lambda>s. Inr s)\<rparr>"
  define opts where "opts = default_options\<lparr>op_command := ''remove'', op_usb_path := ''/mnt'', op_name := ''bob'', op_assume_yes := True\<rparr>"
  define c where "c = \<lparr>co_app = ?st, co_out = [], co_room = None\<rparr>"
  have wan: "wo_answers w = an" and ans: "an_read an = sample_read (length old)" "an_pass an b = Inr [65]" "an_now an = 99"
      "an_save an = sample_save True (length old) (length plain + 57)" for b
    by (simp_all add: w_def an_def sample_answers_def)
  let ?f = "\<lparr>vf_bytes = old, vf_header = hdr, vf_digest = ?dg\<rparr>"
  let ?st1 = "?st\<lparr>as_store := ?v\<rparr>"
  have "store_parse sample_prims 99 plain0 = Inr sample_store"
    by (rule store_parse_serialized [OF sample_store_wf s(1)])
  then obtain ov where ov: "open_vault sample_prims 99 ?f [65] False h = (h, Inr ov)" "ov_store ov = sample_store"
      "ov_passphrase ov = [65]" "ov_params ov = \<lparr>pr_time_cost = vh_time_cost hdr, pr_mem_cost_kb = vh_mem_cost_kb hdr\<rparr>"
    using s by (simp add: open_vault_def bindM_def check_anchor_def)
  have rd: "read_file (sample_read (length old)) kVaultFilename (as_dir ?st) = Some (Inr old)"
    using sample_read_ok [OF s(5,6)] by simp
  then have rv: "read_vault sample_prims (sample_read (length old)) kVaultFilename (as_dir ?st) = Inr ?f"
    using s(3) by (simp add: read_vault_def ended_def)
  have none: "as_dir ?st kPreparedVaultFilename = None" "as_dir ?st kOutboxFilename = None"
    by (simp_all add: kVaultFilename_def kOutboxFilename_def kPreparedVaultFilename_def)
  have "unlock_vault sample_prims an ?st = (?st, Inr ov)"
    using s(4) none(1) rv ov(1,2) ans by (simp add: unlock_vault_def bindM_def on_host_def)
  then have o: "open_here sample_prims w c = (c, Inr ov)"
    by (simp add: open_here_def on_app_eq wan c_def)
  have "check_params (vh_time_cost hdr) (vh_mem_cost_kb hdr) = Inr ()"
    using s(3) by (auto simp: parse_header_Inr wf_vault_header_def)
  then have ready: "save_ready sample_prims (an_save an) kVaultFilename (ov_params ov) [65] old plain ?st1"
    using s rm rd sample_id sample_writes_well [of "length plain + 57"] unfolding ans ov(4)
    by (simp add: save_ready_def sample_save_def kMaxVaultBytes_def next_store_def)
  obtain bs h2 where sv: "save_vault sample_prims (an_save an) kVaultFilename (ov_params ov) [65] ?st1 =
      (\<lparr>as_store = next_store sample_prims old ?v, as_dir = (as_dir ?st1)(kVaultFilename \<mapsto> fresh_entry bs), as_host = h2\<rparr>, Inr ())"
    using save_ok [OF sample_host_laws sample_aead sample_argon2 ready] by fastforce
  let ?c2 = "\<lparr>co_app = \<lparr>as_store = next_store sample_prims old ?v, as_dir = (as_dir ?st1)(kVaultFilename \<mapsto> fresh_entry bs),
    as_host = h2\<rparr>, co_out = ''Removed '' @ quoted (escape_control_chars ''bob'') @ '' and its session.'' @ [nl], co_room = None\<rparr>"
  have path: "require_usb_path w False opts = Inr ''/mnt''" "require_value w (op_name opts) t = Inr ''bob''" for t
    by (simp_all add: require_usb_path_def require_value_def opts_def w_def)
  have named: "contact_named ''bob'' c = (c, Inr 0)"
    by (simp add: contact_named_def c_def find_contact_def sample_store_def of_option_def readM_def)
  have "cmd_remove sample_prims w opts c = (?c2, Inr ())"
    using path o named none(2) sv
    by (simp add: cmd_remove_def bindM_def refuse_if_def save_and_say_def no_outbox_def on_app_eq ensure_no_pending_outbox_def
        save_here_def ov(3) wan on_store_def print_def emit_def opts_def c_def)
  then have r: "run_command sample_prims w (\<lambda>_. returnM ()) opts c = (?c2, Inr ())"
    by (simp add: run_command_def opts_def)
  have g: "good_world sample_prims w"
    using sample_aead sample_argon2 by (simp add: good_world_def wan ans script_ok_def sample_save_def)
  have "op_command opts \<notin> {''init'', ''passphrase'', ''migrate'', ''ui''}" "op_command opts = ''remove''"
    by (simp_all add: opts_def)
  with commands_keep_vault [OF g _ r] have "saved sample_prims (wo_answers w) ?c2"
    by simp
  moreover have "v_contacts (as_store (co_app c)) \<noteq> []" "v_contacts (as_store (co_app ?c2)) = []"
    by (simp add: c_def sample_store_def) (simp add: next_store_def rm(6))
  ultimately show ?thesis
    using r \<open>op_command opts = ''remove''\<close> by blast
qed

section \<open>Trust\<close>

text \<open>Saving leaves the contacts and the sessions in memory as they are.\<close>

definition people :: "vault_store \<Rightarrow> contact list \<times> session list" where
  "people v = (v_contacts v, v_sessions v)"

lemma people_steps:
  "preserves (\<lambda>st. people (as_store st)) (save_vault p sc name pr pw)"
proof -
  let ?f = "\<lambda>st. people (as_store st)"
  have host: "preserves ?f (on_host m)" for m
    by (rule preserves_weaker [OF on_host_frame]) simp
  then have now: "preserves ?f (anchor_now p dg)" for dg
    unfolding anchor_now_def preserves_def by blast
  have settle: "preserves ?f (settle_anchor p a dg)" for a dg
    by (rule preserves_weaker [OF settle_anchor_frame]) simp
  have wrote: "preserves ?f (write_vault ws name bs)" for ws bs
    by (simp add: preserves_def write_vault_def Let_def)
  have check: "preserves ?f (check_previous p sc name)"
    unfolding check_previous_def by (intro frame_intro settle) (simp add: people_def)
  show ?thesis
    unfolding save_vault_def seal_and_write_def
    by (intro preserves_bind frame_prod preserves_if preserves_simple wrote now)
      (use check in \<open>simp_all add: people_def fill_vault_id_def bump_generation_def preserves_def\<close>)
qed

lemma save_and_say_people:
  "save_and_say p w ov said c = (c', r) \<Longrightarrow> people (as_store (co_app c')) = people (as_store (co_app c))"
proof (rule preservesD [where f = "\<lambda>c. people (as_store (co_app c))"])
  show "preserves (\<lambda>c. people (as_store (co_app c))) (save_and_say p w ov said)"
    unfolding save_and_say_def
  proof (intro preserves_bind)
    show "preserves (\<lambda>c. people (as_store (co_app c))) no_outbox"
      by (simp add: preserves_def no_outbox_def on_app_eq ensure_no_pending_outbox_def readM_def)
    show "preserves (\<lambda>c. people (as_store (co_app c))) (save_here p w ov)"
      using people_steps by (simp add: preserves_def save_here_def on_app_eq)
    show "preserves (\<lambda>c. people (as_store (co_app c))) (print said)"
      by (simp add: preserves_def print_def modifyM_def)
  qed
qed

text \<open>C27: \<open>trust\<close> marks only the contact that was named, and only if its fingerprint is the one the caller expects, when
  one is given, and somebody confirmed; asked to show a fingerprint it marks nothing, and it never touches a session.\<close>

theorem trust_needs_confirmation:
  assumes "open_here p w c = (c1, Inr ov)" and "cmd_trust p w opts c = (c', r)"
  defines "v0 \<equiv> as_store (co_app c1)" and "v1 \<equiv> as_store (co_app c')"
  shows "c' = c \<or> v_sessions v1 = v_sessions v0 \<and> (v_contacts v1 = v_contacts v0 \<or>
    (\<exists>name ci. require_value w (op_name opts) ''Contact alias: '' = Inr name \<and> find_contact v0 name = Some ci \<and>
      v_contacts v1 = (v_contacts v0)[ci := (v_contacts v0 ! ci)\<lparr>c_verified := True\<rparr>] \<and>
      op_expect_fingerprint opts \<in> {None, Some (flattened (shown_contact p (v_contacts v0 ! ci)))} \<and>
      \<not> op_show_fingerprint opts \<and> (op_confirmed opts \<or> wo_tty w \<and> wo_confirm w)))"
proof (cases "\<exists>usb name. require_usb_path w False opts = Inr usb \<and> require_value w (op_name opts) ''Contact alias: '' = Inr name")
  case False
  then have "c' = c"
    using assms(2) by (auto simp: cmd_trust_def bindM_read split: sum.splits)
  then show ?thesis
    by simp
next
  case True
  then obtain name where name: "require_value w (op_name opts) ''Contact alias: '' = Inr name"
    by blast
  show ?thesis
  proof (cases "find_contact v0 name")
    case None
    then have "c' = c1"
      using assms True name by (auto simp: cmd_trust_def bindM_def contact_named_def)
    then show ?thesis
      by (simp add: v0_def v1_def)
  next
    case (Some ci)
    let ?k = "v_contacts v0 ! ci"
    let ?shown = "flattened (shown_contact p ?k)"
    let ?ok = "op_expect_fingerprint opts \<in> {None, Some ?shown} \<and> \<not> op_show_fingerprint opts \<and> confirm_trust w opts = Inr ()"
    let ?c2 = "c1\<lparr>co_app := (co_app c1)\<lparr>as_store := mark_verified ci v0\<rparr>\<rparr>"
    have "v1 = v0 \<or> ?ok \<and> (\<exists>said. save_and_say p w ov said ?c2 = (c', r))"
      using assms(1,2) True name Some unfolding v0_def v1_def
      by (auto simp: cmd_trust_def bindM_def contact_named_def refuse_if_def Let_def on_store_def print_def
          split: if_splits sum.splits)
    then show ?thesis
    proof (elim disjE exE conjE)
      fix said assume s: "save_and_say p w ov said ?c2 = (c', r)"
        and k: "op_expect_fingerprint opts \<in> {None, Some ?shown}" "\<not> op_show_fingerprint opts" "confirm_trust w opts = Inr ()"
      have "people v1 = people (mark_verified ci v0)"
        using save_and_say_people [OF s] by (simp add: v1_def)
      moreover have "op_confirmed opts \<or> wo_tty w \<and> wo_confirm w"
        using k(3) by (auto simp: confirm_trust_def split: if_splits)
      ultimately show ?thesis
        using name Some k by (auto simp: people_def mark_verified_def)
    qed simp
  qed
qed

lemma trust_needs_confirmation_witness:
  "\<exists>w opts c c1 ov c' r. open_here sample_prims w c = (c1, Inr ov) \<and> op_show_fingerprint opts \<and> op_confirmed opts \<and>
     cmd_trust sample_prims w opts c = (c', r) \<and>
     (c' = c \<or> v_contacts (as_store (co_app c')) = v_contacts (as_store (co_app c1)))"
proof -
  obtain old h an c1 where "unhindered sample_prims an (replicate 40 (CHR ''a'')) (c1\<lparr>co_room := None\<rparr>)"
    by (rule sample_commit)
  then obtain opened where "snd (unlock_vault sample_prims an (co_app c1)) = Inr opened"
    by (auto simp: unhindered_def)
  moreover define w where "w = (undefined :: world)\<lparr>wo_answers := an\<rparr>"
  ultimately obtain c2 where c2: "open_here sample_prims w c1 = (c2, Inr opened)"
    by (simp add: open_here_def on_app_eq)
  define opts where "opts = default_options\<lparr>op_show_fingerprint := True, op_confirmed := True, op_name := ''bob''\<rparr>"
  obtain c3 r where r: "cmd_trust sample_prims w opts c1 = (c3, r)"
    by fastforce
  have "c3 = c1 \<or> v_contacts (as_store (co_app c3)) = v_contacts (as_store (co_app c2))"
    using trust_needs_confirmation [OF c2 r] by (auto simp: opts_def)
  with c2 r show ?thesis
    by (intro exI [of _ w] exI [of _ opts] exI [of _ c1] exI [of _ c2] exI [of _ opened] exI [of _ c3] exI [of _ r])
      (simp add: opts_def)
qed

section \<open>Removing a contact\<close>

text \<open>The position of a contact after the removal of contact \<open>ci\<close>.\<close>

definition moved :: "nat \<Rightarrow> nat \<Rightarrow> nat" where
  "moved ci j = (if j > ci then j - 1 else j)"

lemma find_index_drop:
  assumes "\<And>x. x \<in> set xs \<Longrightarrow> P x \<Longrightarrow> R x" and "\<And>x. x \<in> set xs \<Longrightarrow> R x \<Longrightarrow> Q (f x) = P x"
  shows "map_option (\<lambda>k. map f (filter R xs) ! k) (find_index Q (map f (filter R xs))) = map_option (\<lambda>k. f (xs ! k)) (find_index P xs)"
  using assms by (induction xs) (auto simp: option.map_comp comp_def)

lemma nth_erase_at: "ci < length xs \<Longrightarrow> j < length xs \<Longrightarrow> j \<noteq> ci \<Longrightarrow> erase_at ci xs ! moved ci j = xs ! j"
  by (auto simp: erase_at_def moved_def nth_append min_def)

lemma find_index_erase:
  assumes "find_index P xs = Some j" and "j \<noteq> ci" and "ci < length xs"
  shows "find_index P (erase_at ci xs) = Some (moved ci j)"
proof -
  have j: "j < length xs" "P (xs ! j)" "\<And>i. i < j \<Longrightarrow> \<not> P (xs ! i)"
    using find_index_Some [OF assms(1)] by auto
  have "\<not> P (erase_at ci xs ! i)" if "i < moved ci j" for i
  proof (cases "i < ci")
    case True
    then have "erase_at ci xs ! i = xs ! i" "i < j"
      using that assms(3) by (auto simp: erase_at_def moved_def nth_append split: if_splits)
    then show ?thesis
      using j(3) by simp
  next
    case False
    then have "erase_at ci xs ! i = xs ! Suc i" "Suc i < j"
      using that assms(2,3) by (auto simp: erase_at_def moved_def nth_append split: if_splits)
    then show ?thesis
      using j(3) by simp
  qed
  moreover have "moved ci j < length (erase_at ci xs)"
    using assms(2,3) j(1) by (auto simp: moved_def length_erase_at)
  ultimately show ?thesis
    using j nth_erase_at [OF assms(3) j(1) assms(2)] by (simp add: find_index_Some_iff)
qed

text \<open>C28: removing a contact takes away that contact and its sessions and nothing else: every other contact keeps its
  card, its alias and the session it had, under its new position, and no session is left that points at nobody.\<close>

theorem remove_keeps_the_others:
  assumes "ci < length (v_contacts v)"
  defines "v' \<equiv> remove_contact ci v"
  shows "length (v_contacts v') = length (v_contacts v) - 1 \<and>
    (\<forall>j < length (v_contacts v). j \<noteq> ci \<longrightarrow> v_contacts v' ! moved ci j = v_contacts v ! j \<and>
      map_option (\<lambda>k. v_sessions v' ! k) (find_session v' (moved ci j)) =
        map_option (\<lambda>k. (v_sessions v ! k)\<lparr>s_contact_index := moved ci j\<rparr>) (find_session v j)) \<and>
    (\<forall>name j. find_contact v name = Some j \<and> j \<noteq> ci \<longrightarrow> find_contact v' name = Some (moved ci j)) \<and>
    ((\<forall>s \<in> set (v_sessions v). s_contact_index s < length (v_contacts v)) \<longrightarrow>
      (\<forall>s \<in> set (v_sessions v'). s_contact_index s < length (v_contacts v'))) \<and>
    length (v_sessions v') = length (filter (\<lambda>s. s_contact_index s \<noteq> ci) (v_sessions v))"
proof -
  let ?f = "\<lambda>s. s\<lparr>s_contact_index := moved ci (s_contact_index s)\<rparr>"
  have v': "v_contacts v' = erase_at ci (v_contacts v)"
    "v_sessions v' = map ?f (filter (\<lambda>s. s_contact_index s \<noteq> ci) (v_sessions v))"
    by (auto simp: v'_def remove_contact_def drop_sessions_of_def Let_def moved_def)
  have "map_option (\<lambda>k. v_sessions v' ! k) (find_session v' (moved ci j)) =
      map_option (\<lambda>k. (v_sessions v ! k)\<lparr>s_contact_index := moved ci j\<rparr>) (find_session v j)" if "j \<noteq> ci" for j
  proof -
    have "moved ci i = moved ci j \<longleftrightarrow> i = j" if "i \<noteq> ci" for i
      using that \<open>j \<noteq> ci\<close> by (auto simp: moved_def)
    then have "map_option (\<lambda>k. v_sessions v' ! k) (find_session v' (moved ci j)) =
        map_option (\<lambda>k. ?f (v_sessions v ! k)) (find_session v j)"
      unfolding find_session_def v'(2) using that by (intro find_index_drop) auto
    also have "\<dots> = map_option (\<lambda>k. (v_sessions v ! k)\<lparr>s_contact_index := moved ci j\<rparr>) (find_session v j)"
      by (cases "find_session v j") (auto simp: find_session_def dest!: find_index_Some)
    finally show ?thesis .
  qed
  moreover have "v_contacts v' ! moved ci j = v_contacts v ! j" if "j < length (v_contacts v)" "j \<noteq> ci" for j
    using that assms(1) v'(1) by (simp add: nth_erase_at)
  moreover have "find_contact v' name = Some (moved ci j)" if "find_contact v name = Some j" "j \<noteq> ci" for name j
    using that assms(1) v'(1) by (simp add: find_contact_def find_index_erase)
  moreover have "\<forall>s \<in> set (v_sessions v'). s_contact_index s < length (v_contacts v')"
    if "\<forall>s \<in> set (v_sessions v). s_contact_index s < length (v_contacts v)"
    using that assms(1) v' by (auto simp: length_erase_at moved_def)
  ultimately show ?thesis
    using assms(1) v' by (simp add: length_erase_at)
qed

definition sample_pair :: vault_store where
  "sample_pair = sample_store\<lparr>v_contacts := [sample_contact ''a'' [1] None, sample_contact ''b'' [2] None],
     v_sessions := [session_default\<lparr>s_contact_index := 1\<rparr>]\<rparr>"

lemma remove_keeps_the_others_witness:
  "find_contact sample_pair ''b'' = Some 1 \<and> find_contact (remove_contact 0 sample_pair) ''b'' = Some 0 \<and>
   find_session (remove_contact 0 sample_pair) 0 = Some 0"
proof -
  have f: "find_contact sample_pair ''b'' = Some 1" "find_session sample_pair 1 = Some 0"
    and c: "0 < length (v_contacts sample_pair)" "(1 :: nat) < length (v_contacts sample_pair)"
    by (simp_all add: sample_pair_def find_contact_def find_session_def sample_contact_def)
  note r = remove_keeps_the_others [OF c(1)]
  have "map_option (\<lambda>k. v_sessions (remove_contact 0 sample_pair) ! k) (find_session (remove_contact 0 sample_pair) (moved 0 1)) =
      map_option (\<lambda>k. (v_sessions sample_pair ! k)\<lparr>s_contact_index := moved 0 1\<rparr>) (find_session sample_pair 1)"
    using r c(2) by (metis zero_neq_one)
  then obtain k where k: "find_session (remove_contact 0 sample_pair) 0 = Some k"
    using f(2) by (auto simp: moved_def)
  have "length (v_sessions (remove_contact 0 sample_pair)) = 1"
    using conjunct2 [OF conjunct2 [OF conjunct2 [OF conjunct2 [OF r]]]] by (simp add: sample_pair_def)
  with k have "k = 0"
    by (auto simp: find_session_def dest: find_index_Some)
  moreover have "find_contact (remove_contact 0 sample_pair) ''b'' = Some (moved 0 1)"
    using r f(1) by (metis zero_neq_one)
  ultimately show ?thesis
    using f(1) k by (simp add: moved_def)
qed

end
