(* ===== verification/Spec2Isabelle.thy ===== *)
theory Spec2Isabelle
  imports Ratchet_Conv Group_Delivery Lifetime App_Props Interface_Props Interface_Run File Command_Line Gui_Output
    Commands_Props
begin

text \<open>
  Ratchet-USB keeps an identity, contacts and message sessions in one encrypted file on a removable drive and turns
  messages into pasteable blocks. This is a model of its C++ (\<open>src/*.cpp\<close>, \<open>include/ratchet/*.hpp\<close> and
  \<open>gui/gui_output.*\<close> of the repository) with the theorems that make it correct.

  \<^bold>\<open>The program.\<close> A command or the terminal interface opens the vault (\<open>app.cpp\<close>: container \<open>vault.cpp\<close>, contents
  \<open>store.cpp\<close>, rollback anchor on the host \<open>rollback.cpp\<close>), changes the store in memory, and saves it. A message goes
  from \<open>session.cpp\<close> through the handshake \<open>x3dh.cpp\<close> (on a contact's card), the ratchet \<open>ratchet.cpp\<close>, the
  envelope \<open>message.cpp\<close> and the armour \<open>wire.cpp\<close>; a group message (\<open>group.cpp\<close>) is one sealed content whose key
  travels in direct messages. What is printed passes the escaping of \<open>secure.cpp\<close>, \<open>terminal.cpp\<close> and \<open>screen.cpp\<close>,
  and the desktop interface reads it back with \<open>gui_output.cpp\<close>.

  \<^bold>\<open>How it is modelled.\<close> A struct is a record, an enumeration a datatype, an integer a word of its width
  (sizes and indices are \<open>nat\<close>), binary data, passphrases and plaintexts are byte lists, text is a \<open>string\<close>. An
  exception is \<open>Inl\<close> of an \<open>error\<close>; a function that changes an object and may throw is a \<open>mut\<close>, which returns the
  object also when it throws. Random bytes, the clock, the answers of the operating system and of the person at the
  terminal are arguments: draws, scripts and the record \<open>world\<close>. libsodium, OpenSSL and the Rust bridge are the
  parameter \<open>prims\<close>; what is used of their documentation are the named laws of \<open>Prims\<close> (lengths, decryption inverts
  encryption, both sides of an exchange agree, a signature verifies), with \<open>argon2_law\<close> and \<open>aead_canonical_law\<close> in
  \<open>Vault\<close>, collected in \<open>crypto_laws\<close>, \<open>message_laws\<close> and \<open>host_laws\<close>. \<open>Sample_Prims\<close> is an instance of all of them
  and the ground the witnesses stand on. No law says that anything is hard to forge; \<open>card_fields_signed\<close> and
  \<open>aad_binds_envelope\<close> show what is covered by a signature or a tag.

  \<^bold>\<open>Foundations.\<close> \<open>Prelude\<close>: errors, the sequencing of fallible steps, the frame predicate \<open>preserves\<close> with its
  rules, lists and words. \<open>Serial\<close>: \<open>serial.hpp\<close>; the locales \<open>codec\<close> and \<open>canonical_codec\<close> (a reader gives back
  what a writer wrote, and accepts nothing else) and \<open>reader_op\<close> (an operation of the cursor is a function on the
  unread rest), interpreted for every field, record and file format of the program.

  \<^bold>\<open>Keys and formats.\<close> \<open>Kdf\<close> (\<open>kdf.cpp\<close>): the loop is HKDF of RFC 5869. \<open>Protocol\<close> (\<open>protocol.hpp\<close>).
  \<open>Identity\<close> (\<open>identity.cpp\<close>, \<open>prekey.cpp\<close>). \<open>Wire\<close> and \<open>Message\<close>: encoding and decoding invert each other whatever
  is done to the layout of the text. \<open>Card\<close>: the cards of \<open>x3dh.cpp\<close>, everything in them signed. \<open>Store\<close> and
  \<open>Store_Format\<close> (\<open>store.cpp\<close>): records, format versions 1 to 10, round trip, the history of accepted openings.
  \<open>Wordlist\<close> and \<open>Phrase\<close> (\<open>bip39.cpp\<close>, \<open>bip39_wordlist.cpp\<close>, \<open>passphrase.cpp\<close>): the 2048 words in ascending order,
  so that the binary search finds them; recovery words restore their entropy and nothing else does.

  \<^bold>\<open>Messages.\<close> \<open>Ratchet\<close> (\<open>ratchet.cpp\<close>, \<open>triple_ratchet.cpp\<close>, \<open>spqr.cpp\<close>); \<open>Ratchet_Props\<close>: decryption changes
  the session only on success and keeps its invariant; \<open>Ratchet_Conv\<close>: two sessions with messages in transit as a step
  relation in which skipped keys may expire at any time, its invariant by rule induction, delivery in any order. \<open>X3dh\<close>: both sides compute the same secret.
  \<open>Session\<close>, \<open>Session_Props\<close> (\<open>session.cpp\<close>): errors leave the vault alone, suites are never lowered;
  \<open>First_Message\<close> composes card, handshake, ratchet, envelope and vault, and \<open>Later_Message\<close> does it for a session
  two vaults already share. \<open>Group\<close>, \<open>Group_Props\<close>, \<open>Group_Delivery\<close> (\<open>group.cpp\<close>): a group message refines the
  direct messages that carry its key, and reaches its members, new and old. That a wrapper for somebody else does not
  open is a hypothesis there, and so is that the SPQR states of a session are in step.
  \<open>Maintenance\<close> (\<open>app.cpp\<close>, prekeys) and \<open>Lifetime\<close>: over any sequence of operations an opening is accepted once.

  \<^bold>\<open>The drive.\<close> \<open>Vault\<close> (container of \<open>vault.cpp\<close>); \<open>Drive\<close>: writing a file as the list of all directory states it
  goes through, under a script of system calls that may fail, be interrupted or end the process, the removal of the
  temporary file included; \<open>Rollback\<close>
  (\<open>rollback.cpp\<close>); \<open>App\<close>, \<open>App_Props\<close> (\<open>app.cpp\<close>): opening, saving and re-keying, that a save opens again, that the
  anchor moves forward only while the keyring can be read, that a passphrase change never loses the vault, and the
  lockout after two failed saves. \<open>Outbox\<close>: a block is printed only for the vault state that is on the drive.

  \<^bold>\<open>Commands.\<close> \<open>Command_Line\<close> (\<open>cli.cpp\<close>): every accepted command line keeps to the options of its command.
  \<open>Commands\<close> (\<open>commands.cpp\<close>, \<open>command_io.cpp\<close>): each command from its options to the console it leaves;
  \<open>Commands_Props\<close>: nothing is reported before it is saved (rules for \<open>settles\<close> and \<open>accounts\<close>, one per construct of the bodies),
  trust is given only to what was shown, removal leaves the other contacts theirs. \<open>File\<close> (\<open>file.cpp\<close>): files as
  payloads. \<open>Gui_Format\<close>, \<open>Gui_Output\<close> (\<open>gui_format.cpp\<close>, \<open>gui/gui_output.cpp\<close>): the result blocks and their reader,
  which no sender's text can mislead; Qt's UTF-8 decoder, applied to each chunk of the output (\<open>gui/cli_runner.cpp\<close>), is
  a parameter with the law \<open>utf8_law\<close>.

  \<^bold>\<open>The terminal interface.\<close> \<open>Display_Text\<close> (\<open>secure.cpp\<close>, \<open>terminal.cpp\<close>, \<open>screen.cpp\<close>), \<open>Keys\<close> and \<open>Frame\<close>
  (\<open>screen.cpp\<close>), \<open>Localised\<close> (\<open>i18n.cpp\<close>), \<open>Interface\<close> (state and keys of \<open>ui_model.cpp\<close>) and \<open>Drawing\<close> (its
  screens). \<open>Interface_Props\<close>: what is drawn keeps to the rows and to the code points of a row and is harmless, and the trust badge stays visible;
  \<open>Interface_Run\<close>: the invariant of the state, the menu is the keys, every screen can be left.

  \<^bold>\<open>Termination and bounds.\<close> Every definition is total. The loops of the code that are not structural
  (\<open>expand_loop\<close>, \<open>skip_loop\<close>, \<open>drain\<close>, \<open>wrap_loop\<close>, \<open>unescape_body\<close> and the like) are \<open>function\<close>s with a measure, so
  no fuel is used anywhere; \<open>keys_decode_completely\<close> bounds the number of turns of the key loop. A loop of system calls
  recurses on the script of their answers, and a script that runs out is a process that was killed, an outcome the
  theorems cover. Counters wrap at their width; generations are refused at the last value.

  \<^bold>\<open>Not modelled.\<close> The C library, the terminal's raw mode and the alternate screen, the clipboard, the search for
  drives and the checks of paths (\<open>terminal.cpp\<close>, \<open>clipboard.cpp\<close>, \<open>media.cpp\<close>, part of \<open>app.cpp\<close>) are input and output
  and appear as answers of the \<open>world\<close>; text on standard error is left out. Locking and wiping memory (\<open>secure.hpp\<close>)
  and the file lock have no effect in a sequential model of values. The driver of the interface (\<open>ui.cpp\<close>, but for its
  key loop) joins the interface model to the operations above through the terminal and is the argument \<open>cmd_ui\<close> of
  \<open>run_command\<close>. The Qt windows (\<open>gui/\<close>, but for the reader of the output) run the program as another process. Key
  handles of OpenSSL are hidden behind \<open>prims\<close>, as is the Rust state machine of SPQR.
\<close>

end
